(* ===== verification/Aow_Prelude.thy ===== *)
theory Aow_Prelude
  imports Main "HOL-Library.Word"
begin

text \<open>
  Shared vocabulary of the development: Rust's \<open>Result\<close> as a sum type with its
  \<open>?\<close> operator, the \<open>Vec\<close> operations the components use (\<open>position\<close>,
  \<open>insert\<close>, \<open>remove\<close>, in-place modification of the first match), checked and
  saturating machine arithmetic, and the generic lemmas about them.
\<close>

named_theorems result_simps \<open>unfolding of the error monad\<close>
named_theorems vec_simps \<open>rewriting of the Vec operations\<close>

type_synonym u8 = "8 word"
type_synonym u16 = "16 word"
type_synonym u32 = "32 word"
type_synonym u64 = "64 word"

section \<open>Result\<close>

type_synonym ('e, 'a) result = "'e + 'a"

text \<open>The \<open>?\<close> operator: stop at the first error.\<close>

definition rbind :: "('e, 'a) result \<Rightarrow> ('a \<Rightarrow> ('e, 'b) result) \<Rightarrow> ('e, 'b) result" where
  "rbind m f = (case m of Inl e \<Rightarrow> Inl e | Inr x \<Rightarrow> f x)"

lemma rbind_simps [simp, result_simps]:
  "rbind (Inl e) f = Inl e"
  "rbind (Inr x) f = f x"
  by (simp_all add: rbind_def)

lemma rbind_Inr_iff [result_simps]:
  "rbind m f = Inr y \<longleftrightarrow> (\<exists>x. m = Inr x \<and> f x = Inr y)"
  by (cases m) auto

lemma rbind_Inl_iff [result_simps]:
  "rbind m f = Inl e \<longleftrightarrow> m = Inl e \<or> (\<exists>x. m = Inr x \<and> f x = Inl e)"
  by (cases m) auto

text \<open>\<open>ensure!(cond, error)\<close>.\<close>

definition ensure :: "bool \<Rightarrow> 'e \<Rightarrow> ('e, unit) result" where
  "ensure b e = (if b then Inr () else Inl e)"

lemma ensure_Inr_iff [simp, result_simps]: "ensure b e = Inr u \<longleftrightarrow> b"
  by (simp add: ensure_def)

lemma ensure_Inl_iff [simp, result_simps]: "ensure b e = Inl e' \<longleftrightarrow> \<not> b \<and> e = e'"
  by (auto simp: ensure_def)

lemma ensure_cong_simps [simp]: "ensure True e = Inr ()" "ensure False e = Inl e"
  by (simp_all add: ensure_def)

text \<open>\<open>Option::ok_or\<close>.\<close>

definition ok_or :: "'a option \<Rightarrow> 'e \<Rightarrow> ('e, 'a) result" where
  "ok_or x e = (case x of None \<Rightarrow> Inl e | Some y \<Rightarrow> Inr y)"

lemma ok_or_simps [simp]: "ok_or None e = Inl e" "ok_or (Some y) e = Inr y"
  by (simp_all add: ok_or_def)

lemma ok_or_Inr_iff [result_simps]: "ok_or x e = Inr y \<longleftrightarrow> x = Some y"
  by (cases x) auto

definition is_ok :: "('e, 'a) result \<Rightarrow> bool" where
  "is_ok r = (case r of Inl _ \<Rightarrow> False | Inr _ \<Rightarrow> True)"

lemma is_ok_simps [simp]: "\<not> is_ok (Inl e)" "is_ok (Inr x)"
  by (simp_all add: is_ok_def)

lemma is_ok_iff: "is_ok r \<longleftrightarrow> (\<exists>y. r = Inr y)"
  by (cases r) simp_all

section \<open>Machine arithmetic\<close>

definition checked_add :: "'a::len word \<Rightarrow> 'a word \<Rightarrow> 'a word option" where
  "checked_add a b = (if unat a + unat b < 2 ^ LENGTH('a) then Some (a + b) else None)"

lemma checked_add_Some:
  "checked_add a b = Some (c :: 'a::len word) \<Longrightarrow> unat c = unat a + unat b"
  by (auto simp: checked_add_def unat_word_ariths split: if_splits)

lemma checked_add_None:
  "checked_add a b = None \<longleftrightarrow> 2 ^ LENGTH('a) \<le> unat a + unat (b :: 'a::len word)"
  by (auto simp: checked_add_def)

definition checked_mul :: "'a::len word \<Rightarrow> 'a word \<Rightarrow> 'a word option" where
  "checked_mul a b = (if unat a * unat b < 2 ^ LENGTH('a) then Some (a * b) else None)"

lemma checked_mul_Some:
  "checked_mul a b = Some (c :: 'a::len word) \<Longrightarrow> unat c = unat a * unat b"
  by (auto simp: checked_mul_def unat_word_ariths split: if_splits)

definition saturating_add :: "'a::len word \<Rightarrow> 'a word \<Rightarrow> 'a word" where
  "saturating_add a b = (case checked_add a b of Some c \<Rightarrow> c | None \<Rightarrow> - 1)"

lemma unat_saturating_add:
  "unat (saturating_add a (b :: 'a::len word)) = min (unat a + unat b) (2 ^ LENGTH('a) - 1)"
  by (auto simp: saturating_add_def checked_add_def unat_word_ariths unsigned_minus_1_eq_mask mask_eq_exp_minus_1
      split: option.splits)

lemma unat_of_nat_small: "n < 2 ^ LENGTH('a) \<Longrightarrow> unat (of_nat n :: 'a::len word) = n"
  by (simp add: unsigned_of_nat take_bit_nat_eq_self)

section \<open>Vectors\<close>

text \<open>\<open>Iterator::position\<close>: the index of the first match.\<close>

fun position :: "('a \<Rightarrow> bool) \<Rightarrow> 'a list \<Rightarrow> nat option" where
  "position p [] = None"
| "position p (x # xs) = (if p x then Some 0 else map_option Suc (position p xs))"

lemma position_None_iff [vec_simps]: "position p xs = None \<longleftrightarrow> (\<forall>x\<in>set xs. \<not> p x)"
  by (induction xs) auto

lemma position_Some:
  "position p xs = Some i \<Longrightarrow> i < length xs \<and> p (xs ! i) \<and> (\<forall>j<i. \<not> p (xs ! j))"
  by (induction xs arbitrary: i) (auto simp: less_Suc_eq_0_disj split: if_splits)

lemma position_lessI: "position p xs = Some i \<Longrightarrow> i < length xs"
  by (simp add: position_Some)

lemma position_holds: "position p xs = Some i \<Longrightarrow> p (xs ! i)"
  by (simp add: position_Some)

text \<open>\<open>Vec::insert\<close> and \<open>Vec::remove\<close>, for an index in range.\<close>

definition vec_insert :: "nat \<Rightarrow> 'a \<Rightarrow> 'a list \<Rightarrow> 'a list" where
  "vec_insert i x xs = take i xs @ x # drop i xs"

definition vec_remove :: "nat \<Rightarrow> 'a list \<Rightarrow> 'a list" where
  "vec_remove i xs = take i xs @ drop (Suc i) xs"

lemma vec_remove_split:
  "i < length xs \<Longrightarrow> xs = take i xs @ xs ! i # drop (Suc i) xs"
  by (simp add: id_take_nth_drop)

lemma vec_insert_remove:
  "i < length xs \<Longrightarrow> vec_insert i (xs ! i) (vec_remove i xs) = xs"
  by (simp add: vec_insert_def vec_remove_def id_take_nth_drop [symmetric] min_def)

lemma set_vec_remove: "set (vec_remove i xs) \<subseteq> set xs"
  by (auto simp: vec_remove_def dest: in_set_takeD in_set_dropD)

lemma set_vec_insert [simp]: "set (vec_insert i x xs) = insert x (set xs)"
proof -
  have "set (take i xs) \<union> set (drop i xs) = set xs"
    by (metis append_take_drop_id set_append)
  then show ?thesis by (auto simp: vec_insert_def)
qed

lemma map_vec_remove: "map f (vec_remove i xs) = vec_remove i (map f xs)"
  by (simp add: vec_remove_def take_map drop_map)

lemma map_vec_insert: "map f (vec_insert i x xs) = vec_insert i (f x) (map f xs)"
  by (simp add: vec_insert_def take_map drop_map)

lemma distinct_vec_remove: "distinct xs \<Longrightarrow> distinct (vec_remove i xs)"
  by (cases "i < length xs")
    (use vec_remove_split in \<open>force simp: vec_remove_def set_take_disj_set_drop_if_distinct\<close>,
     simp add: vec_remove_def)

lemma distinct_vec_insert: "distinct (vec_insert i x xs) \<longleftrightarrow> distinct (x # xs)"
proof -
  have "distinct (take i xs @ drop i xs) \<longleftrightarrow> distinct xs" by simp
  moreover have "set (take i xs) \<union> set (drop i xs) = set xs"
    by (metis append_take_drop_id set_append)
  ultimately show ?thesis by (auto simp: vec_insert_def simp del: append_take_drop_id)
qed

lemma vec_remove_notin:
  "distinct xs \<Longrightarrow> i < length xs \<Longrightarrow> xs ! i \<notin> set (vec_remove i xs)"
  by (metis distinct.simps(2) distinct_vec_insert vec_insert_remove)

lemma set_vec_remove_distinct:
  "distinct xs \<Longrightarrow> i < length xs \<Longrightarrow> set (vec_remove i xs) = set xs - {xs ! i}"
  by (metis Diff_insert_absorb set_vec_insert vec_insert_remove vec_remove_notin)

text \<open>\<open>iter_mut().find(p)\<close> followed by an assignment: change the first match in place.\<close>

fun update_first :: "('a \<Rightarrow> bool) \<Rightarrow> ('a \<Rightarrow> 'a) \<Rightarrow> 'a list \<Rightarrow> 'a list" where
  "update_first p f [] = []"
| "update_first p f (x # xs) = (if p x then f x # xs else x # update_first p f xs)"

lemma length_update_first [simp]: "length (update_first p f xs) = length xs"
  by (induction xs) auto

lemma map_update_first_key:
  "(\<And>x. p x \<Longrightarrow> g (f x) = g x) \<Longrightarrow> map g (update_first p f xs) = map g xs"
  by (induction xs) auto

lemma update_first_none: "\<forall>x\<in>set xs. \<not> p x \<Longrightarrow> update_first p f xs = xs"
  by (induction xs) auto

lemma set_update_firstD:
  "y \<in> set (update_first p f xs) \<Longrightarrow> y \<in> set xs \<or> (\<exists>x\<in>set xs. p x \<and> y = f x)"
  by (induction xs) (auto split: if_splits)

text \<open>\<open>find\<close> and membership.\<close>

lemma find_SomeD: "find p xs = Some x \<Longrightarrow> x \<in> set xs \<and> p x"
  by (auto simp: find_Some_iff)

lemma find_key_distinct:
  "distinct (map k xs) \<Longrightarrow> x \<in> set xs \<Longrightarrow> find (\<lambda>y. k y = k x) xs = Some x"
  by (induction xs) (auto simp: image_iff)

lemma filter_ne_notin: "x \<notin> set xs \<Longrightarrow> filter (\<lambda>y. y \<noteq> x) xs = xs"
  by (induction xs) auto

section \<open>Operations on a state\<close>

text \<open>A fallible step of an operation that has not changed the state yet.\<close>

definition try_in :: "('e, 'a) result \<Rightarrow> 's \<Rightarrow> ('a \<Rightarrow> ('e, 'b) result \<times> 's) \<Rightarrow> ('e, 'b) result \<times> 's" where
  "try_in r s k = (case r of Inl e \<Rightarrow> (Inl e, s) | Inr x \<Rightarrow> k x)"

lemma try_in_simps [simp, result_simps]:
  "try_in (Inl e) s k = (Inl e, s)" "try_in (Inr x) s k = k x"
  by (simp_all add: try_in_def)

lemma try_in_Inr [result_simps]:
  "try_in r s k = (Inr y, s') \<longleftrightarrow> (\<exists>x. r = Inr x \<and> k x = (Inr y, s'))"
  by (cases r) auto

lemma try_in_Inl [result_simps]:
  "try_in r s k = (Inl e, s') \<longleftrightarrow> (r = Inl e \<and> s' = s) \<or> (\<exists>x. r = Inr x \<and> k x = (Inl e, s'))"
  by (cases r) auto

text \<open>
  The contract of a transactional operation: it succeeds and keeps the invariant, or it fails and
  leaves the state as it was.
\<close>

locale transactional =
  fixes run :: "'s \<Rightarrow> ('e, 'a) result \<times> 's" and inv :: "'s \<Rightarrow> bool"
  assumes success_inv: "inv s \<Longrightarrow> run s = (Inr x, s') \<Longrightarrow> inv s'"
    and failure_unchanged: "run s = (Inl e, s') \<Longrightarrow> s' = s"
begin

lemma preserves:
  assumes s: "inv s"
  shows "inv (snd (run s))"
proof (cases "fst (run s)")
  case (Inl e)
  then have "run s = (Inl e, snd (run s))" by (metis prod.collapse)
  from failure_unchanged [OF this] s show ?thesis by simp
next
  case (Inr x)
  then have "run s = (Inr x, snd (run s))" by (metis prod.collapse)
  from success_inv [OF s this] show ?thesis .
qed

lemma preserves_eq: "inv s \<Longrightarrow> run s = (r, s') \<Longrightarrow> inv s'"
  by (drule preserves) simp

end

end
