(* ===== verification/Snowflake_Id.thy ===== *)
theory Snowflake_Id
  imports Aow_Prelude
begin

text \<open>
  Application identifiers, \<open>crates/id/src/id/mod.rs\<close>, \<open>error.rs\<close> and
  \<open>validation.rs\<close>: the 63-bit value with its \<open>41 + 10 + 12\<close> bit layout, and the
  Base36/62/58 text encodings with their canonical decoders. A byte string is a HOL
  \<open>string\<close>; a \<open>u64\<close> is a 64-bit word, so the checked arithmetic of the decoder is
  at machine width.
\<close>

unbundle bit_operations_syntax

datatype id_error =
    InvalidNode u16
  | EpochInFuture
  | TimestampOverflow
  | ClockMovedBackwards u64 u64
  | Poisoned
  | IdOutOfRange
  | InvalidEncoding

section \<open>Layout constants\<close>

definition SEQUENCE_BITS :: nat where "SEQUENCE_BITS = 12"
definition NODE_BITS :: nat where "NODE_BITS = 10"
definition TIME_SHIFT :: nat where "TIME_SHIFT = NODE_BITS + SEQUENCE_BITS"
definition MAX_NODE :: u16 where "MAX_NODE = push_bit NODE_BITS 1 - 1"
definition MAX_SEQUENCE :: u16 where "MAX_SEQUENCE = push_bit SEQUENCE_BITS 1 - 1"
definition MAX_TIMESTAMP :: u64 where "MAX_TIMESTAMP = push_bit 41 1 - 1"

definition I64_MAX :: u64 where "I64_MAX = 9223372036854775807"

lemma layout_consts [simp]:
  "unat MAX_NODE = 1023" "unat MAX_SEQUENCE = 4095" "unat MAX_TIMESTAMP = 2199023255551"
  "unat I64_MAX = 2 ^ 63 - 1"
  by (simp_all add: MAX_NODE_def NODE_BITS_def MAX_SEQUENCE_def SEQUENCE_BITS_def
      MAX_TIMESTAMP_def I64_MAX_def)

lemma time_shift [simp]: "TIME_SHIFT = 22"
  by (simp add: TIME_SHIFT_def NODE_BITS_def SEQUENCE_BITS_def)

section \<open>The value\<close>

datatype snowflake = Snowflake (as_u64: u64)

definition from_u64 :: "u64 \<Rightarrow> (id_error, snowflake) result" where
  "from_u64 value = (if value > I64_MAX then Inl IdOutOfRange else Inr (Snowflake value))"

definition timestamp_millis :: "snowflake \<Rightarrow> u64" where
  "timestamp_millis s = drop_bit TIME_SHIFT (as_u64 s)"

definition snowflake_node_id :: "snowflake \<Rightarrow> u16" where
  "snowflake_node_id s = ucast (drop_bit SEQUENCE_BITS (as_u64 s) AND ucast MAX_NODE)"

definition snowflake_sequence :: "snowflake \<Rightarrow> u16" where
  "snowflake_sequence s = ucast (as_u64 s AND ucast MAX_SEQUENCE)"

lemma from_u64_Inr_iff [simp]:
  "from_u64 v = Inr s \<longleftrightarrow> unat v < 2 ^ 63 \<and> s = Snowflake v"
  by (auto simp: from_u64_def word_less_nat_alt)

section \<open>Text encodings\<close>

definition BASE36 :: string where
  "BASE36 = ''0123456789abcdefghijklmnopqrstuvwxyz''"
definition BASE62 :: string where
  "BASE62 = ''0123456789ABCDEFGHIJKLMNOPQRSTUVWXYZabcdefghijklmnopqrstuvwxyz''"
definition BASE58 :: string where
  "BASE58 = ''123456789abcdefghijkmnopqrstuvwxyzABCDEFGHJKLMNPQRSTUVWXYZ''"

text \<open>
  The encoder fills a 13-byte buffer from its end. \<open>start\<close> is the next free index from
  the right and the written suffix is the accumulator; decrementing \<open>start\<close> below zero is
  the panic of the source, \<^term>\<open>None\<close>.
\<close>

function encode_loop :: "u64 \<Rightarrow> string \<Rightarrow> nat \<Rightarrow> string \<Rightarrow> string option" where
  "encode_loop value alphabet start written =
     (if start = 0 then None
      else let radix = (of_nat (length alphabet) :: u64);
               written' = alphabet ! unat (value mod radix) # written;
               value' = value div radix
           in if value' = 0 then Some written'
              else encode_loop value' alphabet (start - 1) written')"
  by pat_completeness auto
termination by (relation "measure (\<lambda>(_, _, start, _). start)") auto

declare encode_loop.simps [simp del]

definition encode :: "u64 \<Rightarrow> string \<Rightarrow> string option" where
  "encode value alphabet = encode_loop value alphabet 13 []"

fun decode_loop :: "string \<Rightarrow> string \<Rightarrow> u64 \<Rightarrow> (id_error, u64) result" where
  "decode_loop alphabet [] value = Inr value"
| "decode_loop alphabet (byte # bytes) value =
     rbind (ok_or (position (\<lambda>candidate. candidate = byte) alphabet) InvalidEncoding)
       (\<lambda>digit. rbind
         (ok_or
           (case checked_mul value (of_nat (length alphabet)) of
              None \<Rightarrow> None
            | Some v \<Rightarrow> (case checked_add v (of_nat digit) of
                None \<Rightarrow> None
              | Some w \<Rightarrow> if w \<le> I64_MAX then Some w else None))
           IdOutOfRange)
         (decode_loop alphabet bytes))"

definition decode :: "string \<Rightarrow> string \<Rightarrow> (id_error, snowflake) result" where
  "decode text alphabet =
     (let max_length = (if length alphabet = 36 then 13 else 11)
      in if text = [] \<or> length text > max_length \<or> (length text > 1 \<and> text ! 0 = alphabet ! 0)
         then Inl InvalidEncoding
         else rbind (decode_loop alphabet text 0) from_u64)"

definition to_base36 :: "snowflake \<Rightarrow> string option" where
  "to_base36 s = encode (as_u64 s) BASE36"
definition from_base36 :: "string \<Rightarrow> (id_error, snowflake) result" where
  "from_base36 text = decode text BASE36"
definition to_base62 :: "snowflake \<Rightarrow> string option" where
  "to_base62 s = encode (as_u64 s) BASE62"
definition from_base62 :: "string \<Rightarrow> (id_error, snowflake) result" where
  "from_base62 text = decode text BASE62"
definition to_base58 :: "snowflake \<Rightarrow> string option" where
  "to_base58 s = encode (as_u64 s) BASE58"
definition from_base58 :: "string \<Rightarrow> (id_error, snowflake) result" where
  "from_base58 text = decode text BASE58"

section \<open>Opaque identifiers\<close>

definition is_ascii_alphanumeric :: "char \<Rightarrow> bool" where
  "is_ascii_alphanumeric c =
     (let b = (of_char c :: nat)
      in (48 \<le> b \<and> b \<le> 57) \<or> (65 \<le> b \<and> b \<le> 90) \<or> (97 \<le> b \<and> b \<le> 122))"

definition is_valid_id :: "string \<Rightarrow> bool" where
  "is_valid_id value \<longleftrightarrow>
     value \<noteq> [] \<and> length value \<le> 128 \<and>
     (\<forall>byte\<in>set value. is_ascii_alphanumeric byte \<or> byte = CHR ''-'' \<or> byte = CHR ''_'')"

section \<open>Positional notation\<close>

text \<open>The reference the encoders are compared with: the digits of a number, most significant first.\<close>

function digits_of :: "nat \<Rightarrow> nat \<Rightarrow> nat list" where
  "digits_of r n = (if r < 2 \<or> n < r then [n] else digits_of r (n div r) @ [n mod r])"
  by pat_completeness auto
termination by (relation "measure snd") auto

declare digits_of.simps [simp del]

definition numeral_value :: "nat \<Rightarrow> nat list \<Rightarrow> nat \<Rightarrow> nat" where
  "numeral_value r ds v = foldl (\<lambda>v d. v * r + d) v ds"

lemma numeral_value_simps [simp]:
  "numeral_value r [] v = v"
  "numeral_value r (d # ds) v = numeral_value r ds (v * r + d)"
  "numeral_value r (ds @ [d]) v = numeral_value r ds v * r + d"
  by (simp_all add: numeral_value_def)

lemma numeral_value_ge: "0 < r \<Longrightarrow> v \<le> numeral_value r ds v"
proof (induction ds arbitrary: v)
  case (Cons d ds)
  have "v * 1 \<le> v * r" using Cons.prems by (intro mult_le_mono2) simp
  then have "v \<le> v * r + d" by linarith
  also have "\<dots> \<le> numeral_value r ds (v * r + d)" by (rule Cons.IH [OF Cons.prems])
  finally show ?case by simp
qed simp

lemma digits_of_value: "numeral_value r (digits_of r n) 0 = n"
proof (induction r n rule: digits_of.induct)
  case (1 r n)
  show ?case
  proof (cases "r < 2 \<or> n < r")
    case True
    then show ?thesis by (subst digits_of.simps) simp
  next
    case False
    with 1 have "numeral_value r (digits_of r (n div r)) 0 = n div r" by simp
    with False show ?thesis by (subst digits_of.simps) simp
  qed
qed

lemma digits_of_nonempty [simp]: "digits_of r n \<noteq> []"
  by (subst digits_of.simps) simp

lemma digits_of_bound: "2 \<le> r \<Longrightarrow> d \<in> set (digits_of r n) \<Longrightarrow> d < r"
proof (induction r n rule: digits_of.induct)
  case (1 r n)
  show ?case
    using 1 by (cases "n < r") (auto simp: digits_of.simps [of r n])
qed

lemma digits_of_canonical:
  "2 \<le> r \<Longrightarrow> 1 < length (digits_of r n) \<Longrightarrow> hd (digits_of r n) \<noteq> 0"
proof (induction r n rule: digits_of.induct)
  case (1 r n)
  show ?case
  proof (cases "n < r")
    case True
    with "1.prems" show ?thesis by (simp add: digits_of.simps [of r n])
  next
    case False
    let ?q = "n div r"
    from False "1.prems" have step: "digits_of r n = digits_of r ?q @ [n mod r]"
      by (simp add: digits_of.simps [of r n])
    have hd: "hd (digits_of r n) = hd (digits_of r ?q)" by (simp add: step)
    show ?thesis
    proof (cases "?q < r")
      case True
      from False "1.prems"(1) have "?q \<noteq> 0" by (simp add: div_eq_0_iff)
      with True show ?thesis by (simp add: hd digits_of.simps [of r ?q])
    next
      case ge: False
      with "1.prems"(1) have "1 < length (digits_of r ?q)"
        by (simp add: digits_of.simps [of r ?q] Suc_lessI)
      with 1 False show ?thesis by (simp add: hd)
    qed
  qed
qed

lemma digits_of_length: "2 \<le> r \<Longrightarrow> n < r ^ k \<Longrightarrow> 0 < k \<Longrightarrow> length (digits_of r n) \<le> k"
proof (induction k arbitrary: n)
  case (Suc k)
  show ?case
  proof (cases "n < r")
    case True
    then show ?thesis by (simp add: digits_of.simps [of r n])
  next
    case False
    with Suc.prems have "0 < k" by (cases k) auto
    moreover have "n div r < r ^ k"
      using Suc.prems by (simp add: less_mult_imp_div_less mult.commute)
    ultimately have "length (digits_of r (n div r)) \<le> k" using Suc by simp
    with False Suc.prems show ?thesis by (simp add: digits_of.simps [of r n])
  qed
qed simp

text \<open>A canonical digit list is the digit list of its value.\<close>

lemma numeral_value_pos:
  "0 < r \<Longrightarrow> ds \<noteq> [] \<Longrightarrow> hd ds \<noteq> 0 \<Longrightarrow> 0 < numeral_value r ds 0"
proof (cases ds)
  case (Cons d ds')
  assume "0 < r" "hd ds \<noteq> 0"
  with Cons numeral_value_ge [of r d ds'] show ?thesis by simp
qed simp

lemma digits_of_unique:
  assumes r: "2 \<le> r" and "ds \<noteq> []" and "\<forall>d\<in>set ds. d < r" and "1 < length ds \<longrightarrow> hd ds \<noteq> 0"
  shows "digits_of r (numeral_value r ds 0) = ds"
  using assms(2-)
proof (induction ds rule: rev_induct)
  case (snoc d ds)
  show ?case
  proof (cases "ds = []")
    case True
    with snoc.prems show ?thesis by (simp add: digits_of.simps [of r d])
  next
    case False
    let ?v = "numeral_value r ds 0"
    from False snoc.prems have "hd ds \<noteq> 0" by (cases ds) auto
    with False r have pos: "0 < ?v" by (simp add: numeral_value_pos)
    from snoc.prems have d: "d < r" by simp
    have ge: "\<not> ?v * r + d < r" using pos by (cases ?v) auto
    have IH: "digits_of r ?v = ds"
      using snoc False \<open>hd ds \<noteq> 0\<close> by simp
    from ge r d have "digits_of r (?v * r + d) = digits_of r ?v @ [d]"
      by (subst digits_of.simps) (simp add: div_mult_self3)
    with IH show ?thesis by simp
  qed
qed simp

section \<open>The encoder computes the digits\<close>

lemma unat_word_div_mod_radix:
  fixes v :: u64
  assumes "2 \<le> r" "r < 2 ^ 64"
  shows "unat (v div of_nat r) = unat v div r" "unat (v mod of_nat r) = unat v mod r"
  using assms by (simp_all add: unat_div_distrib unat_mod_distrib unat_of_nat take_bit_nat_eq_self)

lemma encode_loop_digits:
  assumes "2 \<le> length a" and "length a < 2 ^ 64"
  shows "encode_loop v a start w =
    (let ds = digits_of (length a) (unat v)
     in if length ds \<le> start then Some (map ((!) a) ds @ w) else None)"
proof (induction start arbitrary: v w)
  case 0
  then show ?case by (simp add: encode_loop.simps [of v a 0 w] Let_def)
next
  case (Suc start)
  let ?r = "length a"
  note dm = unat_word_div_mod_radix [OF assms]
  have zero: "v div of_nat ?r = 0 \<longleftrightarrow> unat v < ?r"
    using assms by (metis div_eq_0_iff dm(1) not_numeral_le_zero unat_eq_zero)
  show ?case
  proof (cases "unat v < ?r")
    case True
    then show ?thesis
      using zero by (simp add: encode_loop.simps [of v a "Suc start" w] dm digits_of.simps [of ?r "unat v"])
  next
    case False
    with assms have step: "digits_of ?r (unat v) =
        digits_of ?r (unat v div ?r) @ [unat v mod ?r]"
      by (simp add: digits_of.simps [of ?r "unat v"])
    show ?thesis
      using False zero
      by (simp add: encode_loop.simps [of v a "Suc start" w] dm Suc.IH step Let_def)
  qed
qed

lemma encode_eq_digits:
  assumes "2 \<le> length a" "length a < 2 ^ 64" "unat v < length a ^ 13"
  shows "encode v a = Some (map ((!) a) (digits_of (length a) (unat v)))"
  using assms digits_of_length [of "length a" "unat v" 13]
  by (simp add: encode_def encode_loop_digits Let_def)

section \<open>The decoder reads the digits\<close>

lemma position_nth_distinct:
  assumes "distinct a"
  shows "position (\<lambda>c. c = b) a = Some d \<longleftrightarrow> d < length a \<and> a ! d = b"
proof
  assume "position (\<lambda>c. c = b) a = Some d"
  then show "d < length a \<and> a ! d = b" using position_Some by blast
next
  assume d: "d < length a \<and> a ! d = b"
  then have "position (\<lambda>c. c = b) a \<noteq> None" by (auto simp: position_None_iff)
  then obtain e where e: "position (\<lambda>c. c = b) a = Some e" by auto
  then have "e < length a \<and> a ! e = b" using position_Some by blast
  with d assms e show "position (\<lambda>c. c = b) a = Some d" by (metis nth_eq_iff_index_eq)
qed

text \<open>One digit of the decoder: the checked multiplication and addition succeed exactly when the
  new value is below \<open>2\<^sup>63\<close>.\<close>

lemma decode_step:
  fixes v :: u64
  assumes "r < 2 ^ 32" and "d < r"
  shows "(case checked_mul v (of_nat r) of None \<Rightarrow> None
          | Some x \<Rightarrow> (case checked_add x (of_nat d) of None \<Rightarrow> None
              | Some w \<Rightarrow> if w \<le> I64_MAX then Some w else None))
       = (if unat v * r + d < 2 ^ 63 then Some (of_nat (unat v * r + d)) else None)"
proof -
  have r: "unat (of_nat r :: u64) = r" and d: "unat (of_nat d :: u64) = d"
    using assms by (simp_all add: unat_of_nat take_bit_nat_eq_self)
  show ?thesis
  proof (cases "unat v * r + d < 2 ^ 63")
    case True
    then have m: "checked_mul v (of_nat r) = Some (v * of_nat r)"
      by (simp add: checked_mul_def r)
    have um: "unat (v * of_nat r) = unat v * r"
      using checked_mul_Some [OF m] by (simp add: r)
    have a: "checked_add (v * of_nat r) (of_nat d) = Some (v * of_nat r + of_nat d)"
      using True by (simp add: checked_add_def um d)
    have ua: "unat (v * of_nat r + of_nat d) = unat v * r + d"
      using checked_add_Some [OF a] by (simp add: um d)
    have "v * of_nat r + of_nat d = (of_nat (unat v * r + d) :: u64)" by simp
    moreover have "v * of_nat r + of_nat d \<le> I64_MAX"
      using True by (simp add: word_le_nat_alt ua)
    ultimately show ?thesis using True by (simp add: m a)
  next
    case False
    show ?thesis
    proof (cases "checked_mul v (of_nat r)")
      case None
      with False show ?thesis by simp
    next
      case (Some x)
      then have x: "unat x = unat v * r" using checked_mul_Some [OF Some] by (simp add: r)
      show ?thesis
      proof (cases "checked_add x (of_nat d)")
        case None
        with False Some show ?thesis by simp
      next
        case (Some w)
        then have "unat w = unat v * r + d" using checked_add_Some [OF Some] by (simp add: x d)
        with False have "\<not> w \<le> I64_MAX" by (simp add: word_le_nat_alt)
        with False Some \<open>checked_mul v (of_nat r) = Some x\<close> show ?thesis by simp
      qed
    qed
  qed
qed

lemma decode_loop_Cons_digit:
  assumes "distinct a" "length a < 2 ^ 32" "d < length a"
  shows "decode_loop a (a ! d # bs) v =
    (if unat v * length a + d < 2 ^ 63
     then decode_loop a bs (of_nat (unat v * length a + d)) else Inl IdOutOfRange)"
proof -
  have "position (\<lambda>c. c = a ! d) a = Some d"
    using assms by (simp add: position_nth_distinct)
  then show ?thesis using assms by (simp add: decode_step del: of_nat_add of_nat_mult)
qed

lemma decode_loop_digits:
  assumes "distinct a" "length a < 2 ^ 32" "2 \<le> length a"
  shows "\<forall>d\<in>set ds. d < length a \<Longrightarrow> unat v < 2 ^ 63 \<Longrightarrow>
    decode_loop a (map ((!) a) ds) v =
      (let n = numeral_value (length a) ds (unat v)
       in if n < 2 ^ 63 then Inr (of_nat n) else Inl IdOutOfRange)"
proof (induction ds arbitrary: v)
  case (Cons d ds)
  let ?n = "unat v * length a + d"
  show ?case
  proof (cases "?n < 2 ^ 63")
    case True
    then have u: "unat (of_nat ?n :: u64) = ?n"
      by (simp add: unat_of_nat take_bit_nat_eq_self del: of_nat_add of_nat_mult)
    with Cons True show ?thesis
      by (simp add: decode_loop_Cons_digit [OF assms(1,2)] Let_def
          del: of_nat_add of_nat_mult decode_loop.simps(2))
  next
    case False
    have "?n \<le> numeral_value (length a) ds ?n"
      using assms(3) by (intro numeral_value_ge) linarith
    with False have "\<not> numeral_value (length a) ds ?n < 2 ^ 63" by linarith
    with Cons False show ?thesis
      by (simp add: decode_loop_Cons_digit [OF assms(1,2)] del: decode_loop.simps(2))
  qed
qed simp

lemma decode_loop_InrD:
  assumes "distinct a" "length a < 2 ^ 32"
  shows "decode_loop a bs v = Inr w \<Longrightarrow> \<exists>ds. bs = map ((!) a) ds \<and> (\<forall>d\<in>set ds. d < length a)"
proof (induction bs arbitrary: v)
  case (Cons b bs)
  from Cons.prems obtain d where p: "position (\<lambda>c. c = b) a = Some d"
    by (auto simp: result_simps)
  then have d: "d < length a" "b = a ! d"
    using position_nth_distinct [OF assms(1)] by auto
  with Cons.prems have "\<exists>v'. decode_loop a bs v' = Inr w"
    by (auto simp: decode_loop_Cons_digit [OF assms] simp del: decode_loop.simps(2)
        split: if_splits)
  with Cons.IH obtain ds where "bs = map ((!) a) ds" "\<forall>d\<in>set ds. d < length a" by blast
  with d show ?case by (intro exI [of _ "d # ds"]) auto
qed simp

section \<open>Alphabets\<close>

text \<open>
  What the encodings need of an alphabet: distinct digits, and enough of them for the width
  limit the decoder enforces. The three alphabets of the source are interpretations.
\<close>

definition max_text_length :: "string \<Rightarrow> nat" where
  "max_text_length alphabet = (if length alphabet = 36 then 13 else 11)"

locale id_alphabet =
  fixes alphabet :: string
  assumes distinct_digits: "distinct alphabet"
    and radix_lower: "2 \<le> length alphabet"
    and radix_upper: "length alphabet < 2 ^ 32"
    and width: "2 ^ 63 \<le> length alphabet ^ max_text_length alphabet"
begin

lemma max_text_length_le: "0 < max_text_length alphabet \<and> max_text_length alphabet \<le> 13"
  by (simp add: max_text_length_def)

lemma encode_eq:
  assumes "unat v < 2 ^ 63"
  shows "encode v alphabet = Some (map ((!) alphabet) (digits_of (length alphabet) (unat v)))"
proof (rule encode_eq_digits)
  have "unat v < length alphabet ^ max_text_length alphabet" using assms width by linarith
  also have "\<dots> \<le> length alphabet ^ 13"
    using radix_lower max_text_length_le by (intro power_increasing) auto
  finally show "unat v < length alphabet ^ 13" .
qed (use radix_lower radix_upper in auto)

lemma digits_width:
  "n < 2 ^ 63 \<Longrightarrow> length (digits_of (length alphabet) n) \<le> max_text_length alphabet"
  using digits_of_length [OF radix_lower, of n "max_text_length alphabet"] width max_text_length_le
  by simp

lemma leading_digit:
  assumes "1 < length (digits_of (length alphabet) n)"
  shows "alphabet ! hd (digits_of (length alphabet) n) \<noteq> alphabet ! 0"
proof -
  let ?d = "hd (digits_of (length alphabet) n)"
  have "?d \<noteq> 0" by (rule digits_of_canonical [OF radix_lower assms])
  moreover have "?d < length alphabet"
    by (rule digits_of_bound [OF radix_lower]) (rule hd_in_set [OF digits_of_nonempty])
  moreover have "0 < length alphabet" using radix_lower by linarith
  ultimately show ?thesis using distinct_digits by (metis nth_eq_iff_index_eq)
qed

lemma decode_encode:
  assumes v: "unat v < 2 ^ 63"
  shows "\<exists>t. encode v alphabet = Some t \<and> length t \<le> max_text_length alphabet
    \<and> decode t alphabet = Inr (Snowflake v)"
proof -
  let ?ds = "digits_of (length alphabet) (unat v)"
  let ?t = "map ((!) alphabet) ?ds"
  have loop: "decode_loop alphabet ?t 0 = Inr v"
    using decode_loop_digits [OF distinct_digits radix_upper radix_lower, of ?ds 0] v
    by (simp add: digits_of_bound [OF radix_lower] digits_of_value Let_def)
  have "\<not> (1 < length ?t \<and> ?t ! 0 = alphabet ! 0)"
    using leading_digit [of "unat v"] by (cases ?ds) auto
  then have "decode ?t alphabet = Inr (Snowflake v)"
    using digits_width [OF v] loop v by (simp add: decode_def max_text_length_def Let_def)
  then show ?thesis using encode_eq [OF v] digits_width [OF v] by simp
qed

lemma decode_value:
  assumes "decode t alphabet = Inr s"
  shows "unat (as_u64 s) < 2 ^ 63"
  using assms by (auto simp: decode_def Let_def result_simps split: if_splits)

lemma encode_decode:
  assumes "decode t alphabet = Inr s"
  shows "encode (as_u64 s) alphabet = Some t"
proof -
  from assms have t: "t \<noteq> []" and lead: "1 < length t \<longrightarrow> t ! 0 \<noteq> alphabet ! 0"
    and loop: "decode_loop alphabet t 0 = Inr (as_u64 s)"
    by (auto simp: decode_def Let_def result_simps split: if_splits)
  from decode_loop_InrD [OF distinct_digits radix_upper loop]
  obtain ds where ds: "t = map ((!) alphabet) ds" and bound: "\<forall>d\<in>set ds. d < length alphabet"
    by blast
  have "as_u64 s = of_nat (numeral_value (length alphabet) ds 0)"
    and small: "numeral_value (length alphabet) ds 0 < 2 ^ 63"
    using decode_loop_digits [OF distinct_digits radix_upper radix_lower bound, of 0] loop
    by (auto simp: ds Let_def split: if_splits)
  then have val_eq: "unat (as_u64 s) = numeral_value (length alphabet) ds 0"
    by (simp add: unat_of_nat take_bit_nat_eq_self)
  have "1 < length ds \<longrightarrow> hd ds \<noteq> 0"
    using lead by (cases ds; cases "hd ds = 0") (auto simp: ds)
  then have "digits_of (length alphabet) (unat (as_u64 s)) = ds"
    using digits_of_unique [OF radix_lower _ bound] t by (simp add: val_eq ds)
  then show ?thesis
    using encode_eq [of "as_u64 s"] decode_value [OF assms] by (simp add: ds)
qed

end

lemma alphabet_lengths [simp]:
  "length BASE36 = 36" "length BASE62 = 62" "length BASE58 = 58"
  by (simp_all add: BASE36_def BASE62_def BASE58_def)

lemma alphabet_distinct [simp]: "distinct BASE36" "distinct BASE62" "distinct BASE58"
  by (simp_all add: BASE36_def BASE62_def BASE58_def)

interpretation b36: id_alphabet BASE36 by unfold_locales (simp_all add: max_text_length_def)
interpretation b62: id_alphabet BASE62 by unfold_locales (simp_all add: max_text_length_def)
interpretation b58: id_alphabet BASE58 by unfold_locales (simp_all add: max_text_length_def)

section \<open>Properties of the encodings\<close>

text \<open>C13: every identifier is encoded, without a panic of the buffer index, in each of the three
  bases, within the width limit of the base, and decoding the text gives the identifier back.\<close>

theorem id_text_roundtrip:
  assumes "unat (as_u64 s) < 2 ^ 63"
  shows "(\<exists>t. to_base36 s = Some t \<and> length t \<le> 13 \<and> from_base36 t = Inr s) \<and>
    (\<exists>t. to_base62 s = Some t \<and> length t \<le> 11 \<and> from_base62 t = Inr s) \<and>
    (\<exists>t. to_base58 s = Some t \<and> length t \<le> 11 \<and> from_base58 t = Inr s)"
  using b36.decode_encode [OF assms] b62.decode_encode [OF assms] b58.decode_encode [OF assms]
  by (simp add: to_base36_def from_base36_def to_base62_def from_base62_def to_base58_def
      from_base58_def max_text_length_def)

theorem id_text_roundtrip_witness:
  "(\<exists>t. to_base36 (Snowflake 1541815603606036480) = Some t \<and> length t \<le> 13 \<and>
     from_base36 t = Inr (Snowflake 1541815603606036480)) \<and>
   to_base36 (Snowflake 1541815603606036480) = Some ''bppc0m3ju134''"
proof -
  have h: "unat (as_u64 (Snowflake 1541815603606036480)) < 2 ^ 63" by simp
  show ?thesis
    using id_text_roundtrip [OF h]
    by (simp add: to_base36_def encode_def encode_loop.simps BASE36_def)
qed

text \<open>C17: the decoders are canonical. A text that is accepted is exactly the text the encoder
  produces for the value, so two texts of one identifier are equal.\<close>

theorem id_text_canonical:
  "(from_base36 t = Inr s \<longrightarrow> to_base36 s = Some t) \<and>
   (from_base62 t = Inr s \<longrightarrow> to_base62 s = Some t) \<and>
   (from_base58 t = Inr s \<longrightarrow> to_base58 s = Some t)"
  using b36.encode_decode b62.encode_decode b58.encode_decode
  by (simp add: to_base36_def from_base36_def to_base62_def from_base62_def to_base58_def
      from_base58_def)

theorem id_text_canonical_witness:
  "from_base36 ''zz'' = Inr (Snowflake 1295) \<and> to_base36 (Snowflake 1295) = Some ''zz''
   \<and> from_base36 ''0zz'' = Inl InvalidEncoding"
proof -
  have h: "from_base36 ''zz'' = Inr (Snowflake 1295)"
    by (simp add: from_base36_def decode_def BASE36_def from_u64_def checked_mul_def
        checked_add_def I64_MAX_def)
  show ?thesis
    using h id_text_canonical [of "''zz''" "Snowflake 1295"]
    by (simp add: from_base36_def decode_def BASE36_def)
qed

end
