(* ===== verification/Snowflake_Gen.thy ===== *)
theory Snowflake_Gen
  imports Snowflake_Id
begin

text \<open>
  The identifier generator, \<open>crates/id/src/clock/mod.rs\<close>,
  \<open>crates/id/src/generator/mod.rs\<close>, and the leasing of node numbers,
  \<open>crates/id/src/local/mod.rs\<close>. A \<open>Duration\<close> is a number of nanoseconds below the
  limit of its 64-bit seconds; the wall clock is a signed number of nanoseconds since the Unix
  epoch. The clock readings a waiting generator takes are an explicit list.
\<close>

unbundle bit_operations_syntax

section \<open>Clock\<close>

definition DURATION_LIMIT :: nat where "DURATION_LIMIT = 2 ^ 64 * 1000000000"

definition duration_checked_add :: "nat \<Rightarrow> nat \<Rightarrow> nat option" where
  "duration_checked_add a b = (if a + b < DURATION_LIMIT then Some (a + b) else None)"

definition clock_new :: "u64 \<Rightarrow> int \<Rightarrow> (id_error, nat) result" where
  "clock_new epoch_ms wall_time =
     ok_or (if wall_time < 0 then None
            else if nat wall_time < unat epoch_ms * 1000000 then None
            else Some (nat wall_time - unat epoch_ms * 1000000))
       EpochInFuture"

definition elapsed_with :: "nat \<Rightarrow> nat \<Rightarrow> (id_error, u64) result" where
  "elapsed_with base elapsed =
     rbind (ok_or (duration_checked_add base elapsed) TimestampOverflow)
       (\<lambda>total. let ms = total div 1000000
               in if ms < 2 ^ 64 then Inr (of_nat ms) else Inl TimestampOverflow)"

section \<open>Generator\<close>

record gen_state =
  gs_timestamp :: u64
  gs_sequence :: u16

record generator =
  gen_node_id :: u16
  gen_epoch_millis :: u64
  gen_clock_base :: nat
  gen_state :: gen_state
  gen_poisoned :: bool

definition TWITTER_EPOCH_MILLIS :: u64 where "TWITTER_EPOCH_MILLIS = 1288834974657"

definition init_gen_state :: gen_state where
  "init_gen_state = \<lparr>gs_timestamp = 0, gs_sequence = 0\<rparr>"

definition with_epoch :: "u16 \<Rightarrow> u64 \<Rightarrow> int \<Rightarrow> nat \<Rightarrow> (id_error, generator) result" where
  "with_epoch node_id epoch_ms wall_time elapsed =
     (if node_id > MAX_NODE then Inl (InvalidNode node_id)
      else rbind (clock_new epoch_ms wall_time) (\<lambda>base.
           rbind (elapsed_with base elapsed) (\<lambda>now.
             if now > MAX_TIMESTAMP then Inl TimestampOverflow
             else Inr \<lparr>gen_node_id = node_id, gen_epoch_millis = epoch_ms, gen_clock_base = base,
                       gen_state = init_gen_state, gen_poisoned = False\<rparr>)))"

definition generator_new :: "u16 \<Rightarrow> int \<Rightarrow> nat \<Rightarrow> (id_error, generator) result" where
  "generator_new node_id wall_time elapsed =
     with_epoch node_id TWITTER_EPOCH_MILLIS wall_time elapsed"

text \<open>\<open>State::next\<close>: the identifier, or \<^term>\<open>None\<close> when the sequence of this millisecond is
  full; the state is unchanged on an error and on \<^term>\<open>None\<close>.\<close>

definition state_next ::
  "u64 \<Rightarrow> u16 \<Rightarrow> gen_state \<Rightarrow> (id_error, snowflake option) result \<times> gen_state" where
  "state_next timestamp node_id st =
     (if timestamp > MAX_TIMESTAMP then (Inl TimestampOverflow, st)
      else if timestamp < gs_timestamp st
      then (Inl (ClockMovedBackwards (gs_timestamp st) timestamp), st)
      else if timestamp = gs_timestamp st \<and> gs_sequence st = MAX_SEQUENCE then (Inr None, st)
      else let seq = (if timestamp = gs_timestamp st then gs_sequence st + 1 else 0)
           in case from_u64 (push_bit TIME_SHIFT timestamp OR
                             push_bit SEQUENCE_BITS (ucast node_id) OR ucast seq) of
                Inl e \<Rightarrow> (Inl e, st)
              | Inr ident \<Rightarrow> (Inr (Some ident), st\<lparr>gs_timestamp := timestamp, gs_sequence := seq\<rparr>))"

text \<open>The loop of \<open>generate_with\<close> over the successive clock readings; \<^term>\<open>None\<close> means that
  the readings are used up and the generator is still waiting.\<close>

fun generate_loop :: "(id_error, u64) result list \<Rightarrow> u16 \<Rightarrow> gen_state \<Rightarrow>
    ((id_error, snowflake) result \<times> gen_state \<times> (id_error, u64) result list) option" where
  "generate_loop [] node_id st = None"
| "generate_loop (now # later) node_id st =
     (case now of
        Inl e \<Rightarrow> Some (Inl e, st, later)
      | Inr timestamp \<Rightarrow>
          (case state_next timestamp node_id st of
             (Inl e, st') \<Rightarrow> Some (Inl e, st', later)
           | (Inr (Some ident), st') \<Rightarrow> Some (Inr ident, st', later)
           | (Inr None, st') \<Rightarrow> generate_loop later node_id st'))"

definition generate_with :: "(id_error, u64) result list \<Rightarrow> generator \<Rightarrow>
    ((id_error, snowflake) result \<times> generator \<times> (id_error, u64) result list) option" where
  "generate_with now g =
     (if gen_poisoned g then Some (Inl Poisoned, g, now)
      else map_option (\<lambda>(r, st, later). (r, g\<lparr>gen_state := st\<rparr>, later))
             (generate_loop now (gen_node_id g) (gen_state g)))"

section \<open>Bits of an identifier\<close>

lemma or_push_bit_nat:
  assumes "b < 2 ^ k" shows "push_bit k a OR b = a * 2 ^ k + (b :: nat)"
proof -
  have "\<not> bit b n" if "k \<le> n" for n
    using assms that by (metis bit_take_bit_iff linorder_not_less take_bit_nat_eq_self_iff)
  then have "push_bit k a + b = push_bit k a OR b"
    by (intro disjunctive_add) (auto simp: bit_push_bit_iff)
  then show ?thesis by (simp add: push_bit_eq_mult)
qed

definition id_number :: "nat \<Rightarrow> nat \<Rightarrow> nat \<Rightarrow> nat" where
  "id_number timestamp node seq = timestamp * 2 ^ 22 + (node * 2 ^ 12 + seq)"

lemma unat_layout:
  fixes ts :: u64 and node seq :: u16
  assumes "unat ts < 2 ^ 41" "unat node < 2 ^ 10" "unat seq < 2 ^ 12"
  shows "unat (push_bit 22 ts OR push_bit 12 (ucast node) OR ucast seq :: u64) =
    id_number (unat ts) (unat node) (unat seq)"
proof -
  have node: "unat (ucast node :: u64) = unat node" and seq: "unat (ucast seq :: u64) = unat seq"
    using assms by (simp_all add: unsigned_ucast_eq take_bit_nat_eq_self)
  have low: "unat node * 2 ^ 12 + unat seq < 2 ^ 22" using assms by simp
  have t: "unat (push_bit 22 ts) = push_bit 22 (unat ts)"
    using assms
    by (simp only: unsigned_push_bit_eq) (simp add: take_bit_nat_eq_self push_bit_eq_mult)
  have n: "unat (push_bit 12 (ucast node :: u64)) = push_bit 12 (unat node)"
    using assms
    by (simp only: unsigned_push_bit_eq node) (simp add: take_bit_nat_eq_self push_bit_eq_mult)
  show ?thesis
    using assms low
    by (simp only: unsigned_or_eq t n seq or.assoc or_push_bit_nat id_number_def)
qed

lemma unat_layout_less:
  "t < 2 ^ 41 \<Longrightarrow> n < 2 ^ 10 \<Longrightarrow> s < 2 ^ 12 \<Longrightarrow> id_number t n s < 2 ^ 63"
  by (simp add: id_number_def)

lemma id_number_fields:
  assumes "n < 2 ^ 10" "s < 2 ^ 12"
  shows "id_number t n s div 2 ^ 22 = t"
    and "id_number t n s div 2 ^ 12 mod 2 ^ 10 = n"
    and "id_number t n s mod 2 ^ 12 = s"
proof -
  have "n * 2 ^ 12 + s < 2 ^ 22" using assms by simp
  then show "id_number t n s div 2 ^ 22 = t" by (simp add: id_number_def)
  have "id_number t n s = (t * 2 ^ 10 + n) * 2 ^ 12 + s" by (simp add: id_number_def algebra_simps)
  then have "id_number t n s div 2 ^ 12 = t * 2 ^ 10 + n" using assms(2) by simp
  then show "id_number t n s div 2 ^ 12 mod 2 ^ 10 = n" using assms(1) by simp
  have "id_number t n s = s + (t * 2 ^ 10 + n) * 2 ^ 12"
    by (simp add: id_number_def algebra_simps)
  then show "id_number t n s mod 2 ^ 12 = s"
    using assms(2) by (metis mod_less mod_mult_self1)
qed

lemma snowflake_fields:
  fixes ts :: u64 and node seq :: u16
  assumes "unat ts < 2 ^ 41" "unat node < 2 ^ 10" "unat seq < 2 ^ 12"
    and v: "unat v = id_number (unat ts) (unat node) (unat seq)"
  shows "timestamp_millis (Snowflake v) = ts" "snowflake_node_id (Snowflake v) = node"
    "snowflake_sequence (Snowflake v) = seq"
proof -
  note f = id_number_fields [OF assms(2,3), of "unat ts"]
  have "unat (drop_bit 22 v) = unat ts"
    using f(1) v by (simp only: unat_drop_bit_eq) (simp add: drop_bit_eq_div)
  then show "timestamp_millis (Snowflake v) = ts"
    by (simp only: timestamp_millis_def word_unat_eq_iff time_shift snowflake.sel)
  have mn: "ucast MAX_NODE = (mask 10 :: u64)"
    by (simp add: MAX_NODE_def NODE_BITS_def mask_eq_decr_exp)
  have ms: "ucast MAX_SEQUENCE = (mask 12 :: u64)"
    by (simp add: MAX_SEQUENCE_def SEQUENCE_BITS_def mask_eq_decr_exp)
  have "unat (drop_bit 12 v) = unat v div 2 ^ 12"
    by (simp only: unat_drop_bit_eq) (simp add: drop_bit_eq_div)
  moreover have "unat (drop_bit 12 v AND mask 10) = unat (drop_bit 12 v) mod 2 ^ 10"
    by (simp only: take_bit_eq_mask [symmetric] unsigned_take_bit_eq) (simp only: take_bit_eq_mod)
  ultimately have "unat (drop_bit 12 v AND mask 10) = unat v div 2 ^ 12 mod 2 ^ 10" by simp
  then have "unat (drop_bit 12 v AND mask 10) = unat node" using f(2) v by simp
  then have "unat (ucast (drop_bit 12 v AND mask 10) :: u16) = unat node"
    using assms(2) by (simp only: unsigned_ucast_eq) (simp add: take_bit_nat_eq_self)
  then show "snowflake_node_id (Snowflake v) = node"
    by (simp only: snowflake_node_id_def mn SEQUENCE_BITS_def word_unat_eq_iff snowflake.sel)
  have "unat (v AND mask 12) = unat v mod 2 ^ 12"
    by (simp only: take_bit_eq_mask [symmetric] unsigned_take_bit_eq) (simp only: take_bit_eq_mod)
  then have "unat (v AND mask 12) = unat seq" using f(3) v by simp
  then have "unat (ucast (v AND mask 12) :: u16) = unat seq"
    using assms(3) by (simp only: unsigned_ucast_eq) (simp add: take_bit_nat_eq_self)
  then show "snowflake_sequence (Snowflake v) = seq"
    by (simp only: snowflake_sequence_def ms word_unat_eq_iff snowflake.sel)
qed

section \<open>One step of the generator\<close>

definition gen_inv :: "gen_state \<Rightarrow> bool" where
  "gen_inv st \<longleftrightarrow> unat (gs_timestamp st) < 2 ^ 41 \<and> unat (gs_sequence st) < 2 ^ 12"

definition gen_key :: "u16 \<Rightarrow> gen_state \<Rightarrow> nat" where
  "gen_key node st = id_number (unat (gs_timestamp st)) (unat node) (unat (gs_sequence st))"

lemma gen_inv_init [simp]: "gen_inv init_gen_state"
  by (simp add: gen_inv_def init_gen_state_def)

lemma id_number_less:
  "s < 2 ^ 12 \<Longrightarrow> n < 2 ^ 10 \<Longrightarrow> t < t' \<Longrightarrow> id_number t n s < id_number t' n s'"
  by (simp add: id_number_def)

lemma next_sequence:
  assumes "gen_inv st" and "gs_sequence st \<noteq> MAX_SEQUENCE"
  shows "unat (gs_sequence st + 1) = unat (gs_sequence st) + 1
      \<and> unat (gs_sequence st) + 1 < 2 ^ 12"
proof -
  have "unat (gs_sequence st) \<noteq> 4095"
    using assms(2) by (metis layout_consts(2) word_unat_eq_iff)
  with assms(1) have "unat (gs_sequence st) + 1 < 2 ^ 12" by (simp add: gen_inv_def)
  then show ?thesis by (simp add: unat_word_ariths)
qed

lemma state_next_progress:
  assumes inv: "gen_inv st" and node: "unat node < 2 ^ 10"
    and ts: "gs_timestamp st \<le> ts" "ts \<le> MAX_TIMESTAMP"
    and room: "\<not> (ts = gs_timestamp st \<and> gs_sequence st = MAX_SEQUENCE)"
  shows "\<exists>ident st'. state_next ts node st = (Inr (Some ident), st')"
proof -
  let ?seq = "if ts = gs_timestamp st then gs_sequence st + 1 else 0"
  let ?v = "push_bit 22 ts OR push_bit 12 (ucast node) OR ucast ?seq :: u64"
  have t: "unat ts < 2 ^ 41" using ts(2) by (simp add: word_le_nat_alt)
  have s: "unat ?seq < 2 ^ 12" using room next_sequence [OF inv] by auto
  have "unat ?v < 2 ^ 63"
    using unat_layout_less [OF t node s] by (simp only: unat_layout [OF t node s])
  with ts room show ?thesis
    by (auto simp: state_next_def Let_def SEQUENCE_BITS_def from_u64_def word_less_nat_alt
        word_le_nat_alt)
qed

lemma state_next_Some:
  assumes "state_next ts node st = (Inr (Some ident), st')"
    and inv: "gen_inv st" and node: "unat node < 2 ^ 10"
  shows "gen_inv st'" and "gs_timestamp st' = ts" and "unat (as_u64 ident) = gen_key node st'"
    and "gen_key node st < gen_key node st'" and "gs_timestamp st \<le> ts"
proof -
  let ?seq = "if ts = gs_timestamp st then gs_sequence st + 1 else 0"
  from assms(1) have ok: "\<not> ts > MAX_TIMESTAMP" "\<not> ts < gs_timestamp st"
    "\<not> (ts = gs_timestamp st \<and> gs_sequence st = MAX_SEQUENCE)"
    and ident: "as_u64 ident = push_bit 22 ts OR push_bit 12 (ucast node) OR ucast ?seq"
    and st': "st' = st\<lparr>gs_timestamp := ts, gs_sequence := ?seq\<rparr>"
    by (auto simp: state_next_def Let_def SEQUENCE_BITS_def split: if_splits sum.splits)
  have ts: "unat ts < 2 ^ 41" using ok(1) by (simp add: word_less_nat_alt)
  note next_seq = next_sequence [OF inv]
  have seq: "unat ?seq < 2 ^ 12" using ok(3) next_seq by simp
  show "gen_inv st'" using ts seq by (simp add: gen_inv_def st')
  show "gs_timestamp st' = ts" by (simp add: st')
  show "unat (as_u64 ident) = gen_key node st'"
    using unat_layout [OF ts node seq] by (simp only: ident) (simp add: gen_key_def st')
  show "gs_timestamp st \<le> ts" using ok(2) by simp
  show "gen_key node st < gen_key node st'"
  proof (cases "ts = gs_timestamp st")
    case True
    with ok(3) next_seq show ?thesis by (simp add: gen_key_def st' id_number_def)
  next
    case False
    with ok(2) have "unat (gs_timestamp st) < unat ts"
      by (metis word_less_nat_alt linorder_less_linear)
    with False inv node show ?thesis
      by (simp add: gen_key_def st' gen_inv_def id_number_less)
  qed
qed

lemma state_next_other:
  assumes "state_next ts node st = (r, st')" and "\<forall>ident. r \<noteq> Inr (Some ident)"
  shows "st' = st"
  using assms by (auto simp: state_next_def Let_def split: if_splits sum.splits)

lemma generate_loop_Inr:
  assumes "generate_loop now node st = Some (Inr ident, st', later)"
    and "gen_inv st" and "unat node < 2 ^ 10"
  shows "\<exists>ts. state_next ts node st = (Inr (Some ident), st') \<and> Inr ts \<in> set now"
  using assms
proof (induction now)
  case (Cons r now)
  then obtain ts where r: "r = Inr ts" by (auto split: sum.splits)
  obtain q st1 where q: "state_next ts node st = (q, st1)" by force
  show ?case
  proof (cases "\<exists>x. q = Inr (Some x)")
    case True
    with Cons.prems r q show ?thesis by auto
  next
    case False
    with q have "st1 = st" using state_next_other by blast
    with False Cons r q show ?thesis by (auto split: sum.splits option.splits)
  qed
qed simp

lemma generate_loop_other:
  assumes "generate_loop now node st = Some (Inl e, st', later)"
  shows "st' = st"
  using assms
proof (induction now)
  case (Cons r now)
  show ?case
  proof (cases r)
    case (Inl a)
    with Cons show ?thesis by simp
  next
    case (Inr ts)
    obtain q st1 where q: "state_next ts node st = (q, st1)" by force
    with Inr Cons.prems have "\<forall>x. q \<noteq> Inr (Some x)" by auto
    with q have "st1 = st" using state_next_other by blast
    with Inr Cons q show ?thesis by (auto split: sum.splits option.splits)
  qed
qed simp

section \<open>Sequences of calls\<close>

text \<open>The results of successive calls of an operation that gives a value or fails.\<close>

fun collect_outputs :: "('i \<Rightarrow> 's \<Rightarrow> 'o option \<times> 's) \<Rightarrow> 'i list \<Rightarrow> 's \<Rightarrow> 'o list" where
  "collect_outputs step [] s = []"
| "collect_outputs step (i # is) s =
     (case step i s of
        (Some x, s') \<Rightarrow> x # collect_outputs step is s'
      | (None, s') \<Rightarrow> collect_outputs step is s')"

text \<open>A source of strictly increasing numbers: the contract callers of the generator rely on.\<close>

locale monotone_source =
  fixes step :: "'i \<Rightarrow> 's \<Rightarrow> 'o option \<times> 's"
    and inv :: "'s \<Rightarrow> bool" and key :: "'s \<Rightarrow> nat" and num :: "'o \<Rightarrow> nat"
  assumes step_Some: "inv s \<Longrightarrow> step i s = (Some x, s') \<Longrightarrow>
      inv s' \<and> key s < num x \<and> num x = key s'"
    and step_None: "inv s \<Longrightarrow> step i s = (None, s') \<Longrightarrow> inv s' \<and> key s' = key s"
begin

lemma outputs_increase:
  "inv s \<Longrightarrow> sorted_wrt (<) (map num (collect_outputs step is s)) \<and>
     (\<forall>x\<in>set (collect_outputs step is s). key s < num x)"
proof (induction "is" arbitrary: s)
  case (Cons i "is")
  obtain r s' where r: "step i s = (r, s')" by force
  show ?case
  proof (cases r)
    case None
    with r step_None [OF Cons.prems] have "inv s'" "key s' = key s" by auto
    with Cons.IH [of s'] r None show ?thesis by simp
  next
    case (Some x)
    with r have p: "inv s'" "key s < num x" "num x = key s'"
      using step_Some [OF Cons.prems, of i x s'] by auto
    with Cons.IH [OF p(1)] r Some p show ?thesis by (auto intro: less_trans)
  qed
qed simp

lemma outputs_distinct: "inv s \<Longrightarrow> distinct (map num (collect_outputs step is s))"
  using outputs_increase by (metis strict_sorted_iff)

end

text \<open>One call of \<open>generate\<close> with the clock readings it takes; a call that fails or that is
  still waiting gives no identifier.\<close>

definition generate_call :: "(id_error, u64) result list \<Rightarrow> generator \<Rightarrow> snowflake option \<times> generator" where
  "generate_call now g =
     (case generate_with now g of
        Some (Inr ident, g', _) \<Rightarrow> (Some ident, g')
      | Some (Inl _, g', _) \<Rightarrow> (None, g')
      | None \<Rightarrow> (None, g))"

definition generator_inv :: "generator \<Rightarrow> bool" where
  "generator_inv g \<longleftrightarrow> unat (gen_node_id g) < 2 ^ 10 \<and> gen_inv (gen_state g)"

lemma generate_call_Some:
  assumes "generator_inv g" and "generate_call now g = (Some ident, g')"
  shows "\<exists>ts. state_next ts (gen_node_id g) (gen_state g) = (Inr (Some ident), gen_state g')
      \<and> Inr ts \<in> set now" and "gen_node_id g' = gen_node_id g"
proof -
  from assms(2) obtain st' later where
    l: "generate_loop now (gen_node_id g) (gen_state g) = Some (Inr ident, st', later)"
    and g': "g' = g\<lparr>gen_state := st'\<rparr>"
    by (auto simp: generate_call_def generate_with_def split: option.splits sum.splits if_splits)
  then show "\<exists>ts. state_next ts (gen_node_id g) (gen_state g) = (Inr (Some ident), gen_state g')
      \<and> Inr ts \<in> set now"
    using generate_loop_Inr [OF l] assms(1) by (simp add: generator_inv_def)
  show "gen_node_id g' = gen_node_id g" by (simp add: g')
qed

lemma generate_call_None:
  assumes "generate_call now g = (None, g')"
  shows "gen_state g' = gen_state g \<and> gen_node_id g' = gen_node_id g"
  using assms generate_loop_other
  by (fastforce simp: generate_call_def generate_with_def split: option.splits sum.splits if_splits)

interpretation snowflakes: monotone_source generate_call generator_inv
    "\<lambda>g. gen_key (gen_node_id g) (gen_state g)" "\<lambda>s. unat (as_u64 s)"
proof unfold_locales
  fix g now ident g'
  assume inv: "generator_inv g" and call: "generate_call now g = (Some ident, g')"
  obtain ts where
    s: "state_next ts (gen_node_id g) (gen_state g) = (Inr (Some ident), gen_state g')"
    using generate_call_Some(1) [OF inv call] by blast
  have node: "gen_node_id g' = gen_node_id g" by (rule generate_call_Some(2) [OF inv call])
  from inv have "gen_inv (gen_state g)" "unat (gen_node_id g) < 2 ^ 10"
    by (simp_all add: generator_inv_def)
  note n = state_next_Some [OF s this]
  show "generator_inv g' \<and> gen_key (gen_node_id g) (gen_state g) < unat (as_u64 ident)
      \<and> unat (as_u64 ident) = gen_key (gen_node_id g') (gen_state g')"
    using n(1,3,4) inv by (simp add: generator_inv_def node)
next
  fix g now g'
  assume "generator_inv g" "generate_call now g = (None, g')"
  with generate_call_None show "generator_inv g' \<and> gen_key (gen_node_id g') (gen_state g') =
      gen_key (gen_node_id g) (gen_state g)"
    by (simp add: generator_inv_def)
qed

lemma with_epoch_inv: "with_epoch node epoch wall elapsed = Inr g \<Longrightarrow>
    generator_inv g \<and> gen_node_id g = node \<and> \<not> gen_poisoned g"
  by (auto simp: with_epoch_def result_simps generator_inv_def word_less_nat_alt split: if_splits)

lemma with_epoch_example:
  "with_epoch 7 1000 5000000000 0 = Inr \<lparr>gen_node_id = 7, gen_epoch_millis = 1000,
     gen_clock_base = 4000000000, gen_state = init_gen_state, gen_poisoned = False\<rparr>"
  by (simp add: with_epoch_def clock_new_def elapsed_with_def duration_checked_add_def
      DURATION_LIMIT_def MAX_NODE_def NODE_BITS_def MAX_TIMESTAMP_def)

section \<open>Properties of the generator\<close>

text \<open>C14: one generator never repeats or goes back. Over any sequence of calls, whatever the clock
  readings, backwards jumps and errors included, the identifiers it returns are strictly
  increasing numbers.\<close>

theorem generated_ids_strictly_increase:
  assumes "with_epoch node epoch wall elapsed = Inr g"
  shows "sorted_wrt (<) (map (\<lambda>s. unat (as_u64 s)) (collect_outputs generate_call calls g))"
  using snowflakes.outputs_increase with_epoch_inv [OF assms] by blast

theorem generated_ids_strictly_increase_witness:
  "sorted_wrt (<) (map (\<lambda>s. unat (as_u64 s))
     (collect_outputs generate_call [[Inr 5], [Inr 4], [Inr 5], [Inl EpochInFuture], [Inr 9]]
       \<lparr>gen_node_id = 7, gen_epoch_millis = 1000, gen_clock_base = 4000000000,
        gen_state = init_gen_state, gen_poisoned = False\<rparr>)) \<and>
   map (\<lambda>s. unat (as_u64 s))
     (collect_outputs generate_call [[Inr 5], [Inr 4], [Inr 5], [Inl EpochInFuture], [Inr 9]]
       \<lparr>gen_node_id = 7, gen_epoch_millis = 1000, gen_clock_base = 4000000000,
        gen_state = init_gen_state, gen_poisoned = False\<rparr>) = [21000192, 21000193, 37777408]"
  (is "?sorted \<and> ?ids")
proof
  show ?sorted by (rule generated_ids_strictly_increase [OF with_epoch_example])
  show ?ids
    by (simp add: generate_call_def generate_with_def state_next_def init_gen_state_def
        MAX_TIMESTAMP_def MAX_SEQUENCE_def SEQUENCE_BITS_def from_u64_def I64_MAX_def)
qed

text \<open>the bit fields of a generated identifier are the clock reading it was made at, the node
  of the generator and the sequence number the generator then holds; hence generators of
  different nodes never return the same identifier.\<close>

lemma generated_id_fields:
  assumes "with_epoch node epoch wall elapsed = Inr g0"
    and "generator_inv g" and "gen_node_id g = gen_node_id g0"
    and "generate_call now g = (Some ident, g')"
  shows "snowflake_node_id ident = node \<and> Inr (timestamp_millis ident) \<in> set now \<and>
    timestamp_millis ident = gs_timestamp (gen_state g') \<and>
    snowflake_sequence ident = gs_sequence (gen_state g')"
proof -
  have node: "gen_node_id g = node" using with_epoch_inv [OF assms(1)] assms(3) by simp
  obtain ts where s: "state_next ts node (gen_state g) = (Inr (Some ident), gen_state g')"
    and mem: "Inr ts \<in> set now"
    using generate_call_Some(1) [OF assms(2,4)] node by blast
  have "gen_inv (gen_state g)" and n: "unat node < 2 ^ 10"
    using assms(2) node by (simp_all add: generator_inv_def)
  note f = state_next_Some [OF s this]
  have "unat ts < 2 ^ 41" "unat (gs_sequence (gen_state g')) < 2 ^ 12"
    using f(1) by (simp_all add: gen_inv_def f(2) [symmetric])
  moreover have "unat (as_u64 ident) = id_number (unat ts) (unat node) (unat (gs_sequence (gen_state g')))"
    using f(3) by (simp add: gen_key_def f(2))
  ultimately show ?thesis
    using snowflake_fields [of ts node "gs_sequence (gen_state g')" "as_u64 ident"] n mem f(2)
    by simp
qed

lemma generated_id_fields_witness:
  "\<exists>ident g'. generate_call [Inr 5] \<lparr>gen_node_id = 7, gen_epoch_millis = 1000,
      gen_clock_base = 4000000000, gen_state = init_gen_state, gen_poisoned = False\<rparr> = (Some ident, g') \<and>
    snowflake_node_id ident = 7 \<and> Inr (timestamp_millis ident) \<in> set [Inr 5 :: (id_error, u64) result]"
proof -
  let ?g = "\<lparr>gen_node_id = 7, gen_epoch_millis = 1000, gen_clock_base = 4000000000,
    gen_state = init_gen_state, gen_poisoned = False\<rparr>"
  have c: "generate_call [Inr 5] ?g = (Some (Snowflake 21000192),
      ?g\<lparr>gen_state := \<lparr>gs_timestamp = 5, gs_sequence = 0\<rparr>\<rparr>)"
    by (simp add: generate_call_def generate_with_def state_next_def init_gen_state_def
        MAX_TIMESTAMP_def MAX_SEQUENCE_def SEQUENCE_BITS_def from_u64_def I64_MAX_def)
  have i: "generator_inv ?g" by (simp add: generator_inv_def)
  show ?thesis
    using generated_id_fields [OF with_epoch_example i refl c] c by blast
qed

text \<open>C18: a generator whose sequence is full does not wait for ever. When the clock readings do not
  go back, stay within 41 bits and one of them lies beyond the last used millisecond, the call
  returns an identifier, and the loop stops at or before that reading.\<close>

theorem generator_waits_only_for_the_clock:
  assumes "\<not> gen_poisoned g" and "generator_inv g"
    and "\<forall>t\<in>set ts. gs_timestamp (gen_state g) \<le> t \<and> t \<le> MAX_TIMESTAMP"
    and "\<exists>t\<in>set ts. gs_timestamp (gen_state g) < t"
  shows "\<exists>ident g' later. generate_with (map Inr ts) g = Some (Inr ident, g', later)"
proof -
  have "\<exists>ident st' later. generate_loop (map Inr ts) (gen_node_id g) (gen_state g) =
      Some (Inr ident, st', later)"
    using assms(3,4)
  proof (induction ts)
    case (Cons t ts)
    show ?case
    proof (cases "t = gs_timestamp (gen_state g) \<and> gs_sequence (gen_state g) = MAX_SEQUENCE")
      case True
      with Cons have "\<exists>ident st' later.
          generate_loop (map Inr ts) (gen_node_id g) (gen_state g) = Some (Inr ident, st', later)"
        by auto
      with True Cons.prems show ?thesis by (auto simp: state_next_def)
    next
      case False
      with Cons.prems assms(2) have "\<exists>ident st'.
          state_next t (gen_node_id g) (gen_state g) = (Inr (Some ident), st')"
        by (intro state_next_progress) (auto simp: generator_inv_def)
      then show ?thesis by auto
    qed
  qed simp
  then show ?thesis using assms(1) by (force simp: generate_with_def)
qed

theorem generator_waits_only_for_the_clock_witness:
  "\<exists>ident g' later. generate_with (map Inr [6, 6, 7])
     \<lparr>gen_node_id = 7, gen_epoch_millis = 1000, gen_clock_base = 4000000000,
      gen_state = \<lparr>gs_timestamp = 6, gs_sequence = 4095\<rparr>, gen_poisoned = False\<rparr> =
     Some (Inr ident, g', later)"
  by (rule generator_waits_only_for_the_clock)
    (simp_all add: generator_inv_def gen_inv_def MAX_TIMESTAMP_def)

end
