(* ===== verification/Snowflake_Lease.thy ===== *)
theory Snowflake_Lease
  imports Snowflake_Gen
begin

text \<open>
  Leasing a node number, \<open>crates/id/src/local/mod.rs\<close>: a process scans the 1024 lock files
  from a start that depends on its process number and keeps the first file lock it gets until
  it exits. The file system is a parameter: what opening and locking the file of a node gives.
  The processes of one account are a transition system over the leases they hold.
\<close>

datatype lease_attempt = LeaseLocked | LeaseWouldBlock | LeaseIoError string

datatype lease_error = LeaseIo string | LeaseGenerator id_error | LeaseOccupied
  | LeasePermissionDenied

fun acquire_scan :: "(u16 \<Rightarrow> lease_attempt) \<Rightarrow> nat \<Rightarrow> nat list \<Rightarrow> (lease_error, u16) result" where
  "acquire_scan attempt start [] = Inl LeaseOccupied"
| "acquire_scan attempt start (offset # offsets) =
     (let node = of_nat ((start + offset) mod (unat MAX_NODE + 1))
      in case attempt node of
           LeaseLocked \<Rightarrow> Inr node
         | LeaseWouldBlock \<Rightarrow> acquire_scan attempt start offsets
         | LeaseIoError e \<Rightarrow> Inl (LeaseIo e))"

text \<open>\<open>acquire\<close>: the scan, then the generator of the leased node, started at the wall-clock
  reading that is taken after the pause.\<close>

definition acquire :: "(u16 \<Rightarrow> lease_attempt) \<Rightarrow> u32 \<Rightarrow> int \<Rightarrow> nat \<Rightarrow> (lease_error, generator) result" where
  "acquire attempt process_id wall_time elapsed =
     rbind (acquire_scan attempt (unat process_id mod (unat MAX_NODE + 1)) [0..<unat MAX_NODE + 1])
       (\<lambda>node. case generator_new node wall_time elapsed of
           Inl e \<Rightarrow> Inl (LeaseGenerator e)
         | Inr g \<Rightarrow> Inr g)"

text \<open>\<open>prepare_directory\<close>: the outcome of creating the directory, then the checks on its
  metadata (a directory, its owner and its permission bits).\<close>

datatype creation = DirCreated | DirExists | DirError string

definition prepare_directory ::
  "creation \<Rightarrow> (string, bool \<times> u32 \<times> u32) result \<Rightarrow> u32 \<Rightarrow> (lease_error, unit) result" where
  "prepare_directory created metadata uid =
     (case created of
        DirError e \<Rightarrow> Inl (LeaseIo e)
      | _ \<Rightarrow> (case metadata of
          Inl e \<Rightarrow> Inl (LeaseIo e)
        | Inr (is_dir, owner, mode) \<Rightarrow>
            if \<not> is_dir \<or> owner \<noteq> uid \<or> Bit_Operations.and mode 0x3F \<noteq> 0
            then Inl LeasePermissionDenied else Inr ()))"

section \<open>What the scan finds\<close>

lemma acquire_scan_Inr:
  "acquire_scan attempt start offsets = Inr node \<Longrightarrow>
     attempt node = LeaseLocked \<and> unat node < 1024"
proof (induction offsets)
  case (Cons offset offsets)
  have "unat (of_nat ((start + offset) mod 1024) :: u16) < 1024"
    by (simp add: unat_of_nat take_bit_nat_eq_self)
  with Cons show ?case by (auto simp: Let_def split: lease_attempt.splits)
qed simp

lemma acquire_scan_Occupied:
  "(\<forall>node e. attempt node \<noteq> LeaseIoError e) \<Longrightarrow>
   acquire_scan attempt start offsets = Inl e \<Longrightarrow>
     e = LeaseOccupied \<and>
     (\<forall>offset\<in>set offsets. attempt (of_nat ((start + offset) mod 1024)) = LeaseWouldBlock)"
  by (induction offsets) (auto simp: Let_def split: lease_attempt.splits)

text \<open>The 1024 offsets from any start visit every node.\<close>

lemma offsets_cover:
  assumes "start < 1024" "n < (1024 :: nat)"
  shows "\<exists>offset\<in>set [0..<1024]. (start + offset) mod 1024 = n"
proof (cases "start \<le> n")
  case True
  with assms show ?thesis by (intro bexI [of _ "n - start"]) auto
next
  case False
  with assms have "start + (1024 + n - start) = n + 1024" by simp
  then have "(start + (1024 + n - start)) mod 1024 = n" using assms by simp
  moreover have "1024 + n - start \<in> set [0..<1024]" using False assms by auto
  ultimately show ?thesis by (rule bexI)
qed

section \<open>The processes of an account\<close>

type_synonym lease_state = "(u32 \<times> generator) list"

text \<open>The advisory lock of a node file is taken exactly while a live process holds the node.\<close>

definition file_lock :: "lease_state \<Rightarrow> u16 \<Rightarrow> lease_attempt" where
  "file_lock hs node =
     (if node \<in> set (map (gen_node_id \<circ> snd) hs) then LeaseWouldBlock else LeaseLocked)"

inductive lease_step :: "lease_state \<Rightarrow> lease_state \<Rightarrow> bool" where
  start_process: "acquire (file_lock hs) pid wall elapsed = Inr g \<Longrightarrow> lease_step hs ((pid, g) # hs)"
| new_id: "i < length hs \<Longrightarrow> hs ! i = (pid, g) \<Longrightarrow> generate_call now g = (r, g') \<Longrightarrow>
    lease_step hs (hs[i := (pid, g')])"
| exit_process: "i < length hs \<Longrightarrow> lease_step hs (vec_remove i hs)"

inductive lease_reachable :: "lease_state \<Rightarrow> bool" where
  no_process: "lease_reachable []"
| more: "lease_reachable hs \<Longrightarrow> lease_step hs hs' \<Longrightarrow> lease_reachable hs'"

inductive_cases lease_stepE: "lease_step hs hs'"

abbreviation node_of :: "u32 \<times> generator \<Rightarrow> u16" where
  "node_of \<equiv> gen_node_id \<circ> snd"

definition lease_inv :: "lease_state \<Rightarrow> bool" where
  "lease_inv hs \<longleftrightarrow> distinct (map node_of hs) \<and> (\<forall>(pid, g)\<in>set hs. generator_inv g)"

lemma acquire_node:
  assumes "acquire attempt pid wall elapsed = Inr g"
  shows "attempt (gen_node_id g) = LeaseLocked \<and> generator_inv g"
proof (cases "acquire_scan attempt (unat pid mod 1024) [0..<1024]")
  case (Inl e)
  with assms show ?thesis by (simp add: acquire_def)
next
  case (Inr node)
  with assms have "generator_new node wall elapsed = Inr g"
    by (simp add: acquire_def split: sum.splits)
  then have "generator_inv g \<and> gen_node_id g = node"
    using with_epoch_inv by (simp add: generator_new_def)
  then show ?thesis using acquire_scan_Inr [OF Inr] by simp
qed

lemma generate_call_inv:
  assumes "generator_inv g" and "generate_call now g = (r, g')"
  shows "generator_inv g' \<and> gen_node_id g' = gen_node_id g"
proof (cases r)
  case None
  with assms snowflakes.step_None generate_call_None show ?thesis by blast
next
  case (Some x)
  with assms snowflakes.step_Some generate_call_Some(2) show ?thesis by blast
qed

lemma map_update_same: "f y = f (xs ! i) \<Longrightarrow> map f (xs[i := y]) = map f xs"
  by (metis list_update_id map_update)

lemma lease_step_inv:
  assumes "lease_step hs hs'" and inv: "lease_inv hs" shows "lease_inv hs'"
  using assms(1)
proof cases
  case (start_process pid wall elapsed g)
  then have "gen_node_id g \<notin> set (map node_of hs)" "generator_inv g"
    using acquire_node [OF start_process(2)] by (auto simp: file_lock_def split: if_splits)
  with start_process inv show ?thesis by (auto simp: lease_inv_def)
next
  case (new_id i pid g now r g')
  then have "(pid, g) \<in> set hs" by (metis nth_mem)
  with inv new_id have g': "generator_inv g'" "gen_node_id g' = gen_node_id g"
    using generate_call_inv by (auto simp: lease_inv_def)
  have "map node_of (hs[i := (pid, g')]) = map node_of hs"
    using new_id g'(2) by (intro map_update_same) simp
  then show ?thesis
    using new_id inv g'(1) set_update_subset_insert [of hs i "(pid, g')"]
    by (auto simp: lease_inv_def)
next
  case (exit_process i)
  then show ?thesis
    using inv set_vec_remove [of i hs]
    by (auto simp: lease_inv_def map_vec_remove distinct_vec_remove)
qed

lemma reachable_lease_inv: "lease_reachable hs \<Longrightarrow> lease_inv hs"
  by (induction rule: lease_reachable.induct) (auto intro: lease_step_inv simp: lease_inv_def [of "[]"])

lemma first_offsets: "[0..<1024] = 0 # 1 # [2..<1024]"
  by (subst upt_conv_Cons, simp, subst upt_conv_Cons, simp) (simp only: One_nat_def numeral_2_eq_2)

section \<open>Properties of the leases\<close>

text \<open>C11: in every reachable state of the account's processes, no two live processes hold the same
  node, all nodes are in range, so there are at most 1024 of them, and identifiers that two live
  processes return in that state are different.\<close>

theorem leased_nodes_are_distinct:
  assumes "lease_reachable hs"
  shows "distinct (map node_of hs) \<and> (\<forall>(pid, g)\<in>set hs. unat (gen_node_id g) < 1024) \<and>
    (\<forall>p\<in>set hs. \<forall>q\<in>set hs. \<forall>now now' a b g g'. p \<noteq> q \<longrightarrow>
       generate_call now (snd p) = (Some a, g) \<longrightarrow> generate_call now' (snd q) = (Some b, g') \<longrightarrow>
       a \<noteq> b)"
proof -
  from assms have inv: "lease_inv hs" by (rule reachable_lease_inv)
  have field: "snowflake_node_id a = gen_node_id h"
    if "generator_inv h" and call: "generate_call now h = (Some a, h')" for h now a h'
  proof -
    from generate_call_Some(1) [OF that] obtain ts where
      s: "state_next ts (gen_node_id h) (gen_state h) = (Inr (Some a), gen_state h')" by blast
    have "gen_inv (gen_state h)" and n: "unat (gen_node_id h) < 2 ^ 10"
      using that(1) by (simp_all add: generator_inv_def)
    note f = state_next_Some [OF s this]
    have "unat ts < 2 ^ 41" "unat (gs_sequence (gen_state h')) < 2 ^ 12"
      using f(1) by (simp_all add: gen_inv_def f(2) [symmetric])
    then show ?thesis
      using snowflake_fields(2) [of ts "gen_node_id h" "gs_sequence (gen_state h')" "as_u64 a"] n f(2,3)
      by (simp add: gen_key_def)
  qed
  have "a \<noteq> b" if "p \<in> set hs" "q \<in> set hs" "p \<noteq> q"
    "generate_call now (snd p) = (Some a, g)" "generate_call now' (snd q) = (Some b, g')"
    for p q now now' a b g g'
  proof -
    have "node_of p \<noteq> node_of q"
      using that(1-3) inv by (auto simp: lease_inv_def distinct_map inj_on_def)
    moreover have "generator_inv (snd p)" "generator_inv (snd q)"
      using that(1,2) inv by (auto simp: lease_inv_def split_beta)
    ultimately show ?thesis
      using field [OF _ that(4)] field [OF _ that(5)] by fastforce
  qed
  then show ?thesis using inv by (auto simp: lease_inv_def generator_inv_def)
qed

theorem leased_nodes_are_distinct_witness:
  "\<exists>g h. distinct (map node_of [(5, g), (1029, h)]) \<and> gen_node_id g = 6 \<and> gen_node_id h = 5"
proof -
  have first: "acquire (file_lock []) 1029 1288834974657000000 0 =
      Inr \<lparr>gen_node_id = 5, gen_epoch_millis = TWITTER_EPOCH_MILLIS, gen_clock_base = 0,
           gen_state = init_gen_state, gen_poisoned = False\<rparr>" (is "_ = Inr ?h")
    by (simp add: acquire_def first_offsets file_lock_def generator_new_def with_epoch_def
        clock_new_def elapsed_with_def duration_checked_add_def DURATION_LIMIT_def
        TWITTER_EPOCH_MILLIS_def MAX_TIMESTAMP_def MAX_NODE_def NODE_BITS_def
        del: upt_rec_numeral)
  have second: "acquire (file_lock [(1029, ?h)]) 5 1288834974657000000 0 =
      Inr (?h\<lparr>gen_node_id := 6\<rparr>)"
    by (simp add: acquire_def first_offsets file_lock_def generator_new_def with_epoch_def
        clock_new_def elapsed_with_def duration_checked_add_def DURATION_LIMIT_def
        TWITTER_EPOCH_MILLIS_def MAX_TIMESTAMP_def MAX_NODE_def NODE_BITS_def
        del: upt_rec_numeral)
  have "lease_reachable [(5, ?h\<lparr>gen_node_id := 6\<rparr>), (1029, ?h)]"
    by (rule more [OF more [OF no_process start_process [OF first]] start_process [OF second]])
  then have "distinct (map node_of [(5, ?h\<lparr>gen_node_id := 6\<rparr>), (1029, ?h)])"
    by (rule conjunct1 [OF leased_nodes_are_distinct])
  then show ?thesis by (intro exI [of _ "?h\<lparr>gen_node_id := 6\<rparr>"] exI [of _ ?h]) simp
qed

text \<open>the scan is complete. A process that starts while some node is free, and whose lock files
  can be opened, gets a node that no live process holds; only when all 1024 nodes are held does
  the scan report that they are occupied.\<close>

lemma free_node_is_found:
  assumes "\<forall>node e. attempt node \<noteq> LeaseIoError e"
  shows "(\<exists>node. acquire_scan attempt (unat pid mod 1024) [0..<1024] = Inr node \<and>
            attempt node = LeaseLocked \<and> unat node < 1024) \<longleftrightarrow>
         (\<exists>node. unat node < 1024 \<and> attempt node = LeaseLocked)"
    (is "?found \<longleftrightarrow> ?free")
proof
  assume ?free
  then obtain node where n: "unat node < 1024" "attempt node = LeaseLocked" by blast
  show ?found
  proof (cases "acquire_scan attempt (unat pid mod 1024) [0..<1024]")
    case (Inl e)
    obtain offset where "offset \<in> set [0..<1024]" "(unat pid mod 1024 + offset) mod 1024 = unat node"
      using offsets_cover [of "unat pid mod 1024" "unat node"] n(1) by auto
    with acquire_scan_Occupied [OF assms Inl] have "attempt (of_nat (unat node)) = LeaseWouldBlock"
      by metis
    with n(2) show ?thesis by simp
  next
    case (Inr node')
    then show ?thesis using acquire_scan_Inr by blast
  qed
qed blast

lemma free_node_is_found_witness:
  "\<exists>node. acquire_scan (\<lambda>n. if n = 3 then LeaseLocked else LeaseWouldBlock) (unat (1 :: u32) mod 1024)
      [0..<1024] = Inr node \<and> (if node = 3 then LeaseLocked else LeaseWouldBlock) = LeaseLocked \<and>
      unat node < 1024"
proof -
  let ?a = "\<lambda>n :: u16. if n = 3 then LeaseLocked else LeaseWouldBlock"
  have h: "\<forall>node e. ?a node \<noteq> LeaseIoError e" by simp
  have "\<exists>node. unat node < 1024 \<and> ?a node = LeaseLocked" by (intro exI [of _ 3]) simp
  from iffD2 [OF free_node_is_found [OF h, of 1] this] show ?thesis .
qed

end
