(* ===== verification/Rust_Str.thy ===== *)
theory Rust_Str
  imports Aow_Prelude "HOL-Library.Sublist"
begin

text \<open>
  The string operations of the Rust standard library that the components use. A
  \<open>str\<close> is its UTF-8 encoding, a HOL \<open>string\<close> of bytes, so \<open>length\<close> is
  \<open>str::len\<close>. A character of the string is the group of a lead byte and the continuation
  bytes after it; \<open>trim\<close> and \<open>split_whitespace\<close> use the Unicode property
  White\_Space.
\<close>

definition byte_of :: "char \<Rightarrow> nat" where
  "byte_of c = of_char c"

definition is_continuation :: "char \<Rightarrow> bool" where
  "is_continuation c \<longleftrightarrow> 128 \<le> byte_of c \<and> byte_of c < 192"

function chars :: "string \<Rightarrow> string list" where
  "chars [] = []"
| "chars (c # cs) = (c # takeWhile is_continuation cs) # chars (dropWhile is_continuation cs)"
  by pat_completeness auto
termination by (relation "measure length") (auto simp: le_imp_less_Suc length_dropWhile_le)

lemma concat_chars [simp]: "concat (chars s) = s"
  by (induction s rule: chars.induct) auto

lemma chars_nonempty: "c \<in> set (chars s) \<Longrightarrow> c \<noteq> []"
  by (induction s rule: chars.induct) auto

lemma chars_eq_Nil_iff [simp]: "chars s = [] \<longleftrightarrow> s = []"
  by (cases s) auto

definition char_count :: "string \<Rightarrow> nat" where
  "char_count s = length (chars s)"

lemma char_count_le_length: "char_count s \<le> length s"
proof (induction s rule: chars.induct)
  case (2 c cs)
  have "length (dropWhile is_continuation cs) \<le> length cs" by (rule length_dropWhile_le)
  with 2 show ?case by (simp add: char_count_def)
qed (simp add: char_count_def)

text \<open>White\_Space: U+0009 to U+000D, U+0020, U+0085, U+00A0, U+1680, U+2000 to U+200A, U+2028,
  U+2029, U+202F, U+205F and U+3000, by their encodings.\<close>

definition is_whitespace :: "string \<Rightarrow> bool" where
  "is_whitespace ch =
     (case map byte_of ch of
        [a] \<Rightarrow> (9 \<le> a \<and> a \<le> 13) \<or> a = 32
      | [a, b] \<Rightarrow> a = 194 \<and> (b = 133 \<or> b = 160)
      | [a, b, c] \<Rightarrow>
          (a = 225 \<and> b = 154 \<and> c = 128) \<or>
          (a = 226 \<and> b = 128 \<and> ((128 \<le> c \<and> c \<le> 138) \<or> c = 168 \<or> c = 169 \<or> c = 175)) \<or>
          (a = 226 \<and> b = 129 \<and> c = 159) \<or>
          (a = 227 \<and> b = 128 \<and> c = 128)
      | _ \<Rightarrow> False)"

definition trim_start :: "string \<Rightarrow> string" where
  "trim_start s = concat (dropWhile is_whitespace (chars s))"

definition trim :: "string \<Rightarrow> string" where
  "trim s = concat (rev (dropWhile is_whitespace (rev (dropWhile is_whitespace (chars s)))))"

lemma concat_rev_Nil: "\<forall>x\<in>set zs. x \<noteq> [] \<Longrightarrow> concat (rev zs) = [] \<longleftrightarrow> zs = []"
  by (cases zs) auto

lemma concat_eq_Nil_dropWhile:
  assumes "\<forall>x\<in>set xs. x \<noteq> []"
  shows "concat (rev (dropWhile p (rev (dropWhile p xs)))) = [] \<longleftrightarrow> (\<forall>x\<in>set xs. p x)"
proof -
  let ?ys = "dropWhile p xs"
  have "set (dropWhile p (rev ?ys)) \<subseteq> set xs" by (auto dest!: set_dropWhileD)
  with assms have "concat (rev (dropWhile p (rev ?ys))) = [] \<longleftrightarrow> dropWhile p (rev ?ys) = []"
    by (intro concat_rev_Nil) blast
  also have "\<dots> \<longleftrightarrow> (\<forall>x\<in>set ?ys. p x)" by simp
  also have "\<dots> \<longleftrightarrow> ?ys = []"
    using hd_dropWhile [of p xs] by (cases ?ys) (auto dest: set_dropWhileD)
  also have "\<dots> \<longleftrightarrow> (\<forall>x\<in>set xs. p x)" by simp
  finally show ?thesis .
qed

text \<open>\<open>trim().is_empty()\<close>: every character is white space.\<close>

lemma trim_eq_Nil_iff: "trim s = [] \<longleftrightarrow> (\<forall>c\<in>set (chars s). is_whitespace c)"
  unfolding trim_def using chars_nonempty by (intro concat_eq_Nil_dropWhile) blast

fun split_groups :: "('a \<Rightarrow> bool) \<Rightarrow> 'a list \<Rightarrow> 'a list list" where
  "split_groups p [] = [[]]"
| "split_groups p (x # xs) =
     (if p x then [] # split_groups p xs
      else (case split_groups p xs of g # gs \<Rightarrow> (x # g) # gs | [] \<Rightarrow> [[x]]))"

definition split_whitespace :: "string \<Rightarrow> string list" where
  "split_whitespace s = map concat (filter (\<lambda>g. g \<noteq> []) (split_groups is_whitespace (chars s)))"

text \<open>\<open>split(c)\<close> and \<open>split_once(c)\<close> for an ASCII character.\<close>

definition split_char :: "char \<Rightarrow> string \<Rightarrow> string list" where
  "split_char c s = split_groups (\<lambda>x. x = c) s"

fun split_once :: "char \<Rightarrow> string \<Rightarrow> (string \<times> string) option" where
  "split_once c [] = None"
| "split_once c (x # xs) =
     (if x = c then Some ([], xs)
      else map_option (\<lambda>(a, b). (x # a, b)) (split_once c xs))"

lemma split_groups_nonempty [simp]: "split_groups p xs \<noteq> []"
  by (induction xs) (auto split: list.splits)

lemma split_once_Some: "split_once c s = Some (a, b) \<longleftrightarrow> s = a @ c # b \<and> c \<notin> set a"
proof (induction s arbitrary: a)
  case (Cons x xs)
  show ?case
  proof (cases "x = c")
    case True
    then show ?thesis by (cases a) auto
  next
    case False
    with Cons show ?thesis by (cases a) auto
  qed
qed simp

lemma split_once_None: "split_once c s = None \<longleftrightarrow> c \<notin> set s"
  by (induction s) auto

section \<open>Numbers\<close>

definition digit_char :: "nat \<Rightarrow> char" where
  "digit_char d = char_of (48 + d)"

definition is_digit :: "char \<Rightarrow> bool" where
  "is_digit c \<longleftrightarrow> 48 \<le> byte_of c \<and> byte_of c \<le> 57"

fun decimal :: "nat \<Rightarrow> string" where
  "decimal n = (if n < 10 then [digit_char n] else decimal (n div 10) @ [digit_char (n mod 10)])"

declare decimal.simps [simp del]

text \<open>\<open>parse::<u32>()\<close> and the like: an optional \<open>+\<close>, at least one digit, in range.\<close>

definition parse_digits :: "string \<Rightarrow> nat option" where
  "parse_digits s = (if s \<noteq> [] \<and> list_all is_digit s
     then Some (foldl (\<lambda>v c. v * 10 + (byte_of c - 48)) 0 s) else None)"

definition parse_unsigned :: "nat \<Rightarrow> string \<Rightarrow> nat option" where
  "parse_unsigned limit s =
     (let body = (case s of c # cs \<Rightarrow> if c = CHR ''+'' then cs else s | [] \<Rightarrow> s)
      in case parse_digits body of
           None \<Rightarrow> None
         | Some n \<Rightarrow> if n < limit then Some n else None)"

section \<open>Paths\<close>

text \<open>
  \<open>Path\<close> splits at slashes and ignores empty components and inner single dots; a leading
  dot is kept. \<open>starts_with\<close> compares whole components.
\<close>

datatype path_component = RootDir | CurDir | ParentDir | Normal string

definition path_components :: "string \<Rightarrow> path_component list" where
  "path_components p =
     (let parts = split_char (CHR ''/'') p;
          comp = (\<lambda>s. if s = ''..'' then ParentDir else Normal s);
          body = (\<lambda>ps. map comp (filter (\<lambda>s. s \<noteq> '''' \<and> s \<noteq> ''.'') ps))
      in if prefix ''/'' p then RootDir # body parts
         else if hd parts = ''.'' then CurDir # body (tl parts)
         else body parts)"

definition path_is_absolute :: "string \<Rightarrow> bool" where
  "path_is_absolute p = prefix ''/'' p"

definition path_starts_with :: "string \<Rightarrow> string \<Rightarrow> bool" where
  "path_starts_with p base = prefix (path_components base) (path_components p)"

definition path_file_name :: "string \<Rightarrow> string option" where
  "path_file_name p =
     (case rev (path_components p) of Normal s # _ \<Rightarrow> Some s | _ \<Rightarrow> None)"

section \<open>Code points and lossy decoding\<close>

text \<open>The scalar value a UTF-8 character encodes.\<close>

definition code_point :: "string \<Rightarrow> nat" where
  "code_point ch =
     (case map byte_of ch of
        [a] \<Rightarrow> a
      | [a, b] \<Rightarrow> (a - 192) * 64 + (b - 128)
      | [a, b, c] \<Rightarrow> (a - 224) * 4096 + (b - 128) * 64 + (c - 128)
      | [a, b, c, d] \<Rightarrow> (a - 240) * 262144 + (b - 128) * 4096 + (c - 128) * 64 + (d - 128)
      | _ \<Rightarrow> 0)"

text \<open>\<open>char::is_control\<close>: the category Cc.\<close>

definition is_control :: "string \<Rightarrow> bool" where
  "is_control ch \<longleftrightarrow> code_point ch < 32 \<or> (127 \<le> code_point ch \<and> code_point ch < 160)"

text \<open>\<open>String::from_utf8_lossy\<close>: each maximal invalid part becomes U+FFFD. \<open>utf8_step\<close> says how
  many bytes the first part has and whether it is a character.\<close>

definition second_range :: "nat \<Rightarrow> nat \<times> nat" where
  "second_range a =
     (if a = 224 then (160, 191) else if a = 237 then (128, 159)
      else if a = 240 then (144, 191) else if a = 244 then (128, 143) else (128, 191))"

definition utf8_width :: "nat \<Rightarrow> nat" where
  "utf8_width a =
     (if a < 128 then 1 else if 194 \<le> a \<and> a \<le> 223 then 2 else if 224 \<le> a \<and> a \<le> 239 then 3
      else if 240 \<le> a \<and> a \<le> 244 then 4 else 0)"

definition utf8_step :: "string \<Rightarrow> nat \<times> bool" where
  "utf8_step s =
     (case map byte_of (take 4 s) of
        [] \<Rightarrow> (1, False)
      | a # rest \<Rightarrow>
          let w = utf8_width a;
              cont = (\<lambda>i. i < length rest \<and> 128 \<le> rest ! i \<and> rest ! i < 192);
              second = (0 < length rest \<and> fst (second_range a) \<le> rest ! 0 \<and> rest ! 0 \<le> snd (second_range a))
          in if w = 1 then (1, True)
             else if w = 0 \<or> \<not> second then (1, False)
             else if w = 2 then (2, True)
             else if \<not> cont 1 then (2, False)
             else if w = 3 then (3, True)
             else if \<not> cont 2 then (3, False) else (4, True))"

lemma utf8_step_pos [simp]: "0 < fst (utf8_step s)"
  by (auto simp: utf8_step_def Let_def split: list.splits)

definition replacement_char :: string where
  "replacement_char = [char_of (239 :: nat), char_of (191 :: nat), char_of (189 :: nat)]"

function from_utf8_lossy :: "string \<Rightarrow> string list" where
  "from_utf8_lossy [] = []"
| "from_utf8_lossy (c # cs) =
     (let s = c # cs; n = fst (utf8_step s)
      in (if snd (utf8_step s) then take n s else replacement_char) # from_utf8_lossy (drop n s))"
  by pat_completeness auto
termination
  by (relation "measure length") (simp_all add: diff_less_Suc less_Suc_eq_le [symmetric] diff_less del: diff_Suc_Suc)

section \<open>Slices\<close>

text \<open>\<open>str::get(a..b)\<close>.\<close>

definition is_boundary :: "string \<Rightarrow> nat \<Rightarrow> bool" where
  "is_boundary s i \<longleftrightarrow> i = 0 \<or> i = length s \<or> (i < length s \<and> \<not> is_continuation (s ! i))"

definition str_get :: "string \<Rightarrow> nat \<Rightarrow> nat \<Rightarrow> string option" where
  "str_get s a b = (if a \<le> b \<and> is_boundary s a \<and> is_boundary s b then Some (take (b - a) (drop a s)) else None)"

lemma str_get_Some:
  "str_get s a b = Some r \<longleftrightarrow> a \<le> b \<and> is_boundary s a \<and> is_boundary s b \<and> r = take (b - a) (drop a s)"
  by (auto simp: str_get_def)

lemma boundary_le: "is_boundary s i \<Longrightarrow> i \<le> length s"
  by (auto simp: is_boundary_def)

lemma boundary_ends [simp]: "is_boundary s 0" "is_boundary s (length s)"
  by (simp_all add: is_boundary_def)

end
