(* ===== verification/Term_Layout.thy ===== *)
theory Term_Layout
  imports Rust_Str Complex_Main
begin

text \<open>
  The split tree of a terminal tab, \<open>crates/protocol/src/terminal/model.rs\<close> and
  \<open>crates/server/src/terminal/layout.rs\<close>, with the validation of names and sizes of
  \<open>validation.rs\<close>. An \<open>f32\<close> is either not finite or the rational number it denotes;
  the range bounds are the values the literals \<open>0.05\<close> and \<open>0.95\<close> round to.
\<close>

section \<open>Data\<close>

datatype pane_status = Running | Exited | Interrupted

datatype pane_kind = TerminalKind | AgentKind

datatype split_axis = Row | Column

datatype f32 = F32_NaN | F32_Infinite bool | F32 rat

datatype layout = Pane string | Split split_axis f32 layout layout

datatype terminal_error =
    TabNotFound string
  | PaneNotFound string
  | TInvalid string
  | TConflict string
  | ForbiddenOrigin string
  | ClipboardImageTooLarge
  | UnsupportedClipboardImage
  | ClipboardQuotaExceeded
  | ClipboardStorage string
  | DaemonUnavailable string
  | DaemonError string
  | RuntimeCreate string
  | TPoisoned
  | TIo string
  | TJson string

datatype agent_phase = AgentStarting | AgentReady | AgentFailed

record agent_terminal_state =
  at_phase :: agent_phase
  at_error :: "string option"
  at_task_submitted :: bool

datatype instance_kind = InstTerminal | InstAcp

record instance_ref =
  inst_kind :: instance_kind
  inst_id :: string

datatype hosting_phase = HWaiting | HReviewing | HCollecting | HSubmitting | HCompleted
  | HLimitReached | HFailed

record agent_process =
  ap_pid :: "32 word"
  ap_start_time :: string
  ap_cwd :: string
  ap_pi_binding :: "string option"

record terminal_hosting =
  h_id :: string
  h_task_id :: string
  h_task_revision :: u64
  h_task_name :: string
  h_workspace_root :: string
  h_agent :: string
  h_session_id :: string
  h_process :: agent_process
  h_phase :: hosting_phase
  h_phase_started_at :: string
  h_max_inputs :: u32
  h_input_count :: u32
  h_source_turn_id :: "string option"
  h_run_id :: "string option"
  h_error :: "string option"

record pane =
  pane_id :: string
  pane_parent :: "instance_ref option"
  pane_name :: string
  pane_cwd :: string
  pane_shell :: string
  pane_arguments :: "string list"
  pane_kind :: pane_kind
  pane_agent_id :: "string option"
  pane_agent_profile_id :: "string option"
  pane_agent_terminal :: "agent_terminal_state option"
  pane_hosting :: "terminal_hosting option"
  pane_restart :: bool
  pane_status :: pane_status
  pane_rows :: u16
  pane_cols :: u16
  pane_exit_code :: "u32 option"
  pane_created_at :: string
  pane_updated_at :: string

record tab =
  tab_id :: string
  tab_name :: string
  tab_name_is_custom :: "bool option"
  tab_dock_project_id :: "string option"
  tab_workspace_root :: string
  tab_layout :: layout
  tab_panes :: "pane list"
  tab_revision :: u64
  tab_created_at :: string
  tab_updated_at :: string

definition hosting_stopped :: "hosting_phase \<Rightarrow> bool" where
  "hosting_stopped p = (p = HCompleted \<or> p = HLimitReached \<or> p = HFailed)"

section \<open>Validation\<close>

definition DEFAULT_ROWS :: u16 where "DEFAULT_ROWS = 24"
definition DEFAULT_COLS :: u16 where "DEFAULT_COLS = 80"
definition MAX_PANES_PER_TAB :: nat where "MAX_PANES_PER_TAB = 64"
definition MAX_LAYOUT_DEPTH :: nat where "MAX_LAYOUT_DEPTH = 64"

definition MIN_RATIO :: rat where "MIN_RATIO = 13421773 / 268435456"
definition MAX_RATIO :: rat where "MAX_RATIO = 15938355 / 16777216"

definition validate_ratio :: "f32 \<Rightarrow> (terminal_error, f32) result" where
  "validate_ratio ratio =
     (case ratio of
        F32 r \<Rightarrow> if MIN_RATIO \<le> r \<and> r \<le> MAX_RATIO then Inr ratio
                 else Inl (TInvalid ''validation.split_ratio_must_be_between_0_05_and_0_95'')
      | _ \<Rightarrow> Inl (TInvalid ''validation.split_ratio_must_be_between_0_05_and_0_95''))"

definition validate_dimensions :: "u16 \<Rightarrow> u16 \<Rightarrow> (terminal_error, unit) result" where
  "validate_dimensions rows cols =
     (if \<not> (1 \<le> rows \<and> rows \<le> 1000) \<or> \<not> (1 \<le> cols \<and> cols \<le> 1000)
      then Inl (TInvalid ''validation.terminal_rows_and_cols_must_be_between_1_and_1000'')
      else Inr ())"

definition terminal_size :: "u16 option \<Rightarrow> u16 option \<Rightarrow> (terminal_error, u16 \<times> u16) result" where
  "terminal_size rows cols =
     (let r = (case rows of Some x \<Rightarrow> x | None \<Rightarrow> DEFAULT_ROWS);
          c = (case cols of Some x \<Rightarrow> x | None \<Rightarrow> DEFAULT_COLS)
      in rbind (validate_dimensions r c) (\<lambda>_. Inr (r, c)))"

definition validate_name :: "string \<Rightarrow> (terminal_error, string) result" where
  "validate_name name =
     (let name = trim name
      in if name = [] then Inl (TInvalid ''validation.terminal_name_cannot_be_empty'')
         else if char_count name > 128
         then Inl (TInvalid ''validation.terminal_name_cannot_exceed_128_characters'')
         else Inr name)"

text \<open>The default name of a pane: the last component of its directory, else the directory, else
  the shell, cut to 128 characters.\<close>

definition default_pane_name :: "string \<Rightarrow> string \<Rightarrow> string" where
  "default_pane_name cwd shell =
     (let nonempty = (\<lambda>s. if s \<noteq> [] then Some s else None);
          name = (case Option.bind (path_file_name cwd) nonempty of
             Some n \<Rightarrow> n
           | None \<Rightarrow> if trim cwd \<noteq> [] then trim cwd
                     else (case Option.bind (path_file_name shell) nonempty of
                        Some n \<Rightarrow> n | None \<Rightarrow> ''Shell''))
      in concat (take 128 (chars name)))"

text \<open>The current directory of the process is a parameter, as are the environment variable and the
  presence of the shell.\<close>

definition resolve_cwd :: "string \<Rightarrow> string option \<Rightarrow> string option \<Rightarrow> (terminal_error, string) result" where
  "resolve_cwd current_dir cwd workspace_root =
     (let given = (\<lambda>v. case v of Some s \<Rightarrow> if trim s \<noteq> [] then Some s else None | None \<Rightarrow> None);
          v = (case given cwd of Some s \<Rightarrow> s
               | None \<Rightarrow> (case given workspace_root of Some s \<Rightarrow> s | None \<Rightarrow> current_dir))
      in if \<not> path_is_absolute v then Inl (TInvalid (''terminal cwd must be absolute: '' @ v))
         else Inr v)"

definition validate_directory ::
  "(string \<Rightarrow> (string, bool) result) \<Rightarrow> string \<Rightarrow> (terminal_error, unit) result" where
  "validate_directory metadata_is_dir path =
     (if \<not> path_is_absolute path then Inl (TInvalid (''directory must be absolute: '' @ path))
      else (case metadata_is_dir path of
          Inl error \<Rightarrow> Inl (TInvalid (''cannot access '' @ path @ '': '' @ error))
        | Inr is_dir \<Rightarrow> if \<not> is_dir then Inl (TInvalid (''path is not a directory: '' @ path))
                       else Inr ()))"

definition normalize_shell :: "string option \<Rightarrow> bool \<Rightarrow> string option \<Rightarrow> (terminal_error, string) result" where
  "normalize_shell env_shell bash_is_file shell =
     (let s = (case shell of Some v \<Rightarrow> if trim v \<noteq> [] then Some v else None | None \<Rightarrow> None);
          e = (case env_shell of Some v \<Rightarrow> if v \<noteq> [] then Some v else None | None \<Rightarrow> None);
          sh = (case s of Some v \<Rightarrow> v | None \<Rightarrow>
                 (case e of Some v \<Rightarrow> v | None \<Rightarrow>
                    if bash_is_file then ''/bin/bash'' else ''/bin/sh''))
      in if CHR 0x00 \<in> set sh then Inl (TInvalid ''validation.shell_contains_a_nul_byte'')
         else Inr sh)"

section \<open>The split tree\<close>

fun layout_contains :: "layout \<Rightarrow> string \<Rightarrow> bool" where
  "layout_contains (Pane current) p = (current = p)"
| "layout_contains (Split axis ratio first second) p =
     (layout_contains first p \<or> layout_contains second p)"

text \<open>\<open>replace_layout_leaf\<close> changes the tree in place and says whether it did: the new tree and
  the flag.\<close>

fun replace_layout_leaf :: "layout \<Rightarrow> string \<Rightarrow> layout \<Rightarrow> layout \<times> bool" where
  "replace_layout_leaf (Pane current) p replacement =
     (if current = p then (replacement, True) else (Pane current, False))"
| "replace_layout_leaf (Split axis ratio first second) p replacement =
     (case replace_layout_leaf first p replacement of
        (first', True) \<Rightarrow> (Split axis ratio first' second, True)
      | (first', False) \<Rightarrow>
          (case replace_layout_leaf second p replacement of
             (second', b) \<Rightarrow> (Split axis ratio first' second', b)))"

fun remove_layout_leaf :: "layout \<Rightarrow> string \<Rightarrow> layout option" where
  "remove_layout_leaf (Pane current) p = (if current \<noteq> p then Some (Pane current) else None)"
| "remove_layout_leaf (Split axis ratio first second) p =
     (if layout_contains first p
      then (case remove_layout_leaf first p of
              Some first' \<Rightarrow> Some (Split axis ratio first' second)
            | None \<Rightarrow> Some second)
      else (case remove_layout_leaf second p of
              Some second' \<Rightarrow> Some (Split axis ratio first second')
            | None \<Rightarrow> Some first))"

fun collect_layout_panes :: "layout \<Rightarrow> nat \<Rightarrow> string set \<Rightarrow> (terminal_error, string set) result" where
  "collect_layout_panes (Pane p) depth panes =
     (if depth > MAX_LAYOUT_DEPTH then Inl (TInvalid ''layout exceeds maximum depth 64'')
      else if p \<in> panes then Inl (TInvalid (''pane appears more than once in layout: '' @ p))
      else Inr (insert p panes))"
| "collect_layout_panes (Split axis ratio first second) depth panes =
     (if depth > MAX_LAYOUT_DEPTH then Inl (TInvalid ''layout exceeds maximum depth 64'')
      else rbind (validate_ratio ratio) (\<lambda>_.
           rbind (collect_layout_panes first (depth + 1) panes) (\<lambda>panes'.
           collect_layout_panes second (depth + 1) panes')))"

definition validate_layout :: "layout \<Rightarrow> pane list \<Rightarrow> (terminal_error, unit) result" where
  "validate_layout layout panes =
     rbind (collect_layout_panes layout 0 {}) (\<lambda>found.
       if found \<noteq> set (map pane_id panes)
       then Inl (TInvalid ''validation.layout_must_contain_every_pane_exactly_once'')
       else Inr ())"

text \<open>The loop of \<open>validate_persisted_tabs\<close> over the panes of one tab, and over the tabs.\<close>

fun check_panes :: "pane list \<Rightarrow> string set \<Rightarrow> (terminal_error, string set) result" where
  "check_panes [] pane_ids = Inr pane_ids"
| "check_panes (p # ps) pane_ids =
     (if pane_id p \<in> pane_ids then Inl (TInvalid (''duplicate terminal pane id: '' @ pane_id p))
      else rbind (validate_name (pane_name p)) (\<lambda>_. check_panes ps (insert (pane_id p) pane_ids)))"

fun check_tabs :: "tab list \<Rightarrow> string set \<Rightarrow> string set \<Rightarrow> (terminal_error, unit) result" where
  "check_tabs [] tab_ids pane_ids = Inr ()"
| "check_tabs (t # ts) tab_ids pane_ids =
     (if tab_id t \<in> tab_ids then Inl (TInvalid (''duplicate terminal tab id: '' @ tab_id t))
      else if tab_panes t = [] then Inl (TInvalid (''terminal tab has no panes: '' @ tab_id t))
      else rbind (check_panes (tab_panes t) pane_ids) (\<lambda>pane_ids'.
           rbind (validate_layout (tab_layout t) (tab_panes t)) (\<lambda>_.
           check_tabs ts (insert (tab_id t) tab_ids) pane_ids')))"

definition validate_persisted_tabs :: "tab list \<Rightarrow> (terminal_error, unit) result" where
  "validate_persisted_tabs tabs = check_tabs tabs {} {}"

section \<open>Leaves, height and ratios\<close>

fun leaves :: "layout \<Rightarrow> string list" where
  "leaves (Pane p) = [p]"
| "leaves (Split axis ratio first second) = leaves first @ leaves second"

fun height :: "layout \<Rightarrow> nat" where
  "height (Pane p) = 0"
| "height (Split axis ratio first second) = Suc (max (height first) (height second))"

fun ratios_ok :: "layout \<Rightarrow> bool" where
  "ratios_ok (Pane p) = True"
| "ratios_ok (Split axis ratio first second) =
     (validate_ratio ratio = Inr ratio \<and> ratios_ok first \<and> ratios_ok second)"

lemma leaves_nonempty [simp]: "leaves l \<noteq> []"
  by (induction l) auto

lemma height_less_leaves: "height l < length (leaves l)"
  by (induction l) auto

lemma layout_contains_iff [simp]: "layout_contains l p \<longleftrightarrow> p \<in> set (leaves l)"
  by (induction l) auto

lemma validate_ratio_cases: "validate_ratio r = Inr r \<or> (\<exists>e. validate_ratio r = Inl e)"
  by (auto simp: validate_ratio_def split: f32.splits if_splits)

lemma collect_Inr_iff:
  "collect_layout_panes l d ps = Inr qs \<longleftrightarrow>
     d + height l \<le> MAX_LAYOUT_DEPTH \<and> ratios_ok l \<and> distinct (leaves l) \<and>
     set (leaves l) \<inter> ps = {} \<and> qs = set (leaves l) \<union> ps"
proof (induction l arbitrary: d ps qs)
  case (Pane p)
  then show ?case by auto
next
  case (Split axis ratio l r)
  have "collect_layout_panes (Split axis ratio l r) d ps = Inr qs \<longleftrightarrow>
      d \<le> MAX_LAYOUT_DEPTH \<and> validate_ratio ratio = Inr ratio \<and>
      (\<exists>ps'. collect_layout_panes l (d + 1) ps = Inr ps' \<and>
             collect_layout_panes r (d + 1) ps' = Inr qs)"
    using validate_ratio_cases [of ratio] by (auto simp: rbind_Inr_iff)
  also have "\<dots> \<longleftrightarrow> d \<le> MAX_LAYOUT_DEPTH \<and> validate_ratio ratio = Inr ratio \<and>
      (d + 1 + height l \<le> MAX_LAYOUT_DEPTH \<and> ratios_ok l \<and> distinct (leaves l) \<and>
        set (leaves l) \<inter> ps = {}) \<and>
      (d + 1 + height r \<le> MAX_LAYOUT_DEPTH \<and> ratios_ok r \<and> distinct (leaves r) \<and>
        set (leaves r) \<inter> (set (leaves l) \<union> ps) = {} \<and>
        qs = set (leaves r) \<union> (set (leaves l) \<union> ps))"
    unfolding Split.IH by blast
  also have "\<dots> \<longleftrightarrow> d + height (Split axis ratio l r) \<le> MAX_LAYOUT_DEPTH \<and>
      ratios_ok (Split axis ratio l r) \<and> distinct (leaves (Split axis ratio l r)) \<and>
      set (leaves (Split axis ratio l r)) \<inter> ps = {} \<and>
      qs = set (leaves (Split axis ratio l r)) \<union> ps"
  proof -
    have h: "d + height (Split axis ratio l r) \<le> MAX_LAYOUT_DEPTH \<longleftrightarrow>
        d + 1 + height l \<le> MAX_LAYOUT_DEPTH \<and> d + 1 + height r \<le> MAX_LAYOUT_DEPTH"
      by auto
    have s: "d + 1 + height l \<le> MAX_LAYOUT_DEPTH \<Longrightarrow> d \<le> MAX_LAYOUT_DEPTH" by simp
    show ?thesis unfolding h ratios_ok.simps leaves.simps distinct_append set_append
      using s by blast
  qed
  finally show ?case .
qed

definition layout_ok :: "layout \<Rightarrow> pane list \<Rightarrow> bool" where
  "layout_ok l panes \<longleftrightarrow> height l \<le> MAX_LAYOUT_DEPTH \<and> ratios_ok l \<and> distinct (leaves l) \<and>
     set (leaves l) = set (map pane_id panes)"

lemma validate_layout_iff: "validate_layout l panes = Inr u \<longleftrightarrow> layout_ok l panes"
  by (auto simp: validate_layout_def rbind_Inr_iff collect_Inr_iff layout_ok_def split: if_splits)

section \<open>Replacing and removing a leaf\<close>

text \<open>Substituting a list for the first occurrence of an element.\<close>

fun subst_first :: "'a \<Rightarrow> 'a list \<Rightarrow> 'a list \<Rightarrow> 'a list" where
  "subst_first x ys [] = []"
| "subst_first x ys (z # zs) = (if z = x then ys @ zs else z # subst_first x ys zs)"

lemma subst_first_append:
  "subst_first x ys (as @ bs) = (if x \<in> set as then subst_first x ys as @ bs
     else as @ subst_first x ys bs)"
  by (induction as) auto

lemma subst_first_notin [simp]: "x \<notin> set zs \<Longrightarrow> subst_first x ys zs = zs"
  by (induction zs) auto

lemma replace_layout_leaf_leaves:
  "replace_layout_leaf l p r = (l', b) \<Longrightarrow>
     b = (p \<in> set (leaves l)) \<and> leaves l' = subst_first p (leaves r) (leaves l)"
proof (induction l arbitrary: l' b)
  case (Split axis ratio l1 l2)
  then show ?case by (auto simp: subst_first_append split: prod.splits bool.splits)
qed (auto split: if_splits)

lemma replace_layout_leaf_ratios:
  "replace_layout_leaf l p r = (l', b) \<Longrightarrow> ratios_ok l \<Longrightarrow> ratios_ok r \<Longrightarrow> ratios_ok l'"
  by (induction l arbitrary: l' b) (auto split: prod.splits bool.splits if_splits)

lemma remove_layout_leaf_None: "remove_layout_leaf l p = None \<longleftrightarrow> leaves l = [p]"
proof (induction l)
  case (Split axis ratio l1 l2)
  have "leaves l1 @ leaves l2 \<noteq> [p]"
    by (cases "leaves l1"; cases "leaves l2") (auto dest: arg_cong [of _ _ length])
  then show ?case by (auto split: option.splits)
qed auto

lemma remove_layout_leaf_Some:
  "remove_layout_leaf l p = Some l' \<Longrightarrow> leaves l' = remove1 p (leaves l)"
proof (induction l arbitrary: l')
  case (Split axis ratio l1 l2)
  then show ?case
    using remove_layout_leaf_None [of l1 p] remove_layout_leaf_None [of l2 p]
    by (auto simp: remove1_append remove1_idem split: if_splits option.splits)
qed (auto split: if_splits)

lemma remove_layout_leaf_bounds:
  "remove_layout_leaf l p = Some l' \<Longrightarrow> height l' \<le> height l \<and> (ratios_ok l \<longrightarrow> ratios_ok l')"
proof (induction l arbitrary: l')
  case (Split axis ratio l1 l2)
  then show ?case by (fastforce split: if_splits option.splits)
qed (auto split: if_splits)

end
