(* ===== verification/Runtime_Protocol.thy ===== *)
theory Runtime_Protocol
  imports Term_Layout "HOL-Library.Finite_Map"
begin

text \<open>
  What the server and the terminal daemon exchange, \<open>crates/protocol/src/terminal/runtime.rs\<close>,
  and the daemon's validation of it, \<open>crates/terminald/src/runtime/validation.rs\<close>. The file
  system is a parameter.
\<close>

record runtime_spec =
  rs_cwd :: string
  rs_shell :: string
  rs_arguments :: "string list"
  rs_environment :: "(string, string) fmap"
  rs_environment_remove :: "string list"
  rs_rows :: u16
  rs_cols :: u16

record runtime =
  rt_id :: string
  rt_cwd :: string
  rt_shell :: string
  rt_arguments :: "string list"
  rt_environment :: "(string, string) fmap"
  rt_environment_remove :: "string list"
  rt_status :: pane_status
  rt_rows :: u16
  rt_cols :: u16
  rt_exit_code :: "u32 option"

definition runtime_reported_spec :: "runtime \<Rightarrow> runtime_spec" where
  "runtime_reported_spec r =
     \<lparr>rs_cwd = rt_cwd r, rs_shell = rt_shell r, rs_arguments = rt_arguments r,
      rs_environment = rt_environment r, rs_environment_remove = rt_environment_remove r,
      rs_rows = rt_rows r, rs_cols = rt_cols r\<rparr>"

datatype terminald_error =
    DInvalid string
  | DNotFound string
  | DConflict string
  | DPty string
  | DWorker string
  | DPoisoned
  | DShuttingDown
  | DSocketInUse string
  | DUnsafeSocket string
  | DIo string

text \<open>The status and code of \<open>IntoResponse for TerminaldError\<close>.\<close>

definition terminald_response :: "terminald_error \<Rightarrow> nat \<times> string \<times> string option" where
  "terminald_response e =
     (case e of
        DInvalid _ \<Rightarrow> (400, ''invalid_request'', None)
      | DNotFound i \<Rightarrow> (404, ''runtime_not_found'', Some i)
      | DConflict i \<Rightarrow> (409, ''runtime_conflict'', Some i)
      | DShuttingDown \<Rightarrow> (503, ''shutting_down'', None)
      | _ \<Rightarrow> (500, ''internal_error'', None))"

section \<open>Validation\<close>

definition MAX_RUNTIME_ID_BYTES :: nat where "MAX_RUNTIME_ID_BYTES = 1024"

definition validate_runtime_id :: "string \<Rightarrow> (terminald_error, unit) result" where
  "validate_runtime_id i =
     (if i = [] then Inl (DInvalid ''runtime ID cannot be empty'')
      else if MAX_RUNTIME_ID_BYTES < length i then Inl (DInvalid ''runtime ID cannot exceed 1024 bytes'')
      else if \<exists>c\<in>set (chars i). is_control c
      then Inl (DInvalid ''runtime ID cannot contain control characters'')
      else Inr ())"

definition daemon_validate_dimensions :: "u16 \<Rightarrow> u16 \<Rightarrow> (terminald_error, unit) result" where
  "daemon_validate_dimensions rows cols =
     (if \<not> (1 \<le> rows \<and> rows \<le> 1000) \<or> \<not> (1 \<le> cols \<and> cols \<le> 1000)
      then Inl (DInvalid ''terminal rows and cols must be between 1 and 1000'') else Inr ())"

text \<open>\<open>fs_dir\<close> and \<open>fs_exec\<close> are the metadata of a path: an error, or whether it is a directory, or
  an executable regular file.\<close>

record file_metadata =
  fs_dir :: "string \<Rightarrow> (string, bool) result"
  fs_exec :: "string \<Rightarrow> (string, bool) result"

definition environment_key_ok :: "string \<Rightarrow> bool" where
  "environment_key_ok key \<longleftrightarrow> key \<noteq> [] \<and> length key \<le> 256 \<and> CHR ''='' \<notin> set key \<and> CHR 0x00 \<notin> set key"

definition validate_spec :: "file_metadata \<Rightarrow> runtime_spec \<Rightarrow> (terminald_error, unit) result" where
  "validate_spec fs spec =
     rbind (daemon_validate_dimensions (rs_rows spec) (rs_cols spec)) (\<lambda>_.
     if \<not> path_is_absolute (rs_cwd spec) then Inl (DInvalid (''terminal cwd must be absolute: '' @ rs_cwd spec))
     else case fs_dir fs (rs_cwd spec) of
       Inl e \<Rightarrow> Inl (DInvalid (''cannot access cwd '' @ rs_cwd spec @ '': '' @ e))
     | Inr is_dir \<Rightarrow>
       if \<not> is_dir then Inl (DInvalid (''terminal cwd is not a directory: '' @ rs_cwd spec))
       else if \<not> path_is_absolute (rs_shell spec)
       then Inl (DInvalid (''terminal shell must be absolute: '' @ rs_shell spec))
       else case fs_exec fs (rs_shell spec) of
         Inl e \<Rightarrow> Inl (DInvalid (''cannot access shell '' @ rs_shell spec @ '': '' @ e))
       | Inr is_exec \<Rightarrow>
         if \<not> is_exec then Inl (DInvalid (''terminal shell is not an executable file: '' @ rs_shell spec))
         else if 128 < length (rs_arguments spec) \<or>
             (\<exists>a\<in>set (rs_arguments spec). 8192 < length a \<or> CHR 0x00 \<in> set a)
         then Inl (DInvalid ''terminal arguments are invalid'')
         else if 128 < fcard (fmdom (rs_environment spec)) \<or> 128 < length (rs_environment_remove spec) \<or>
             (\<exists>key\<in>set (rs_environment_remove spec). \<not> environment_key_ok key) \<or>
             \<not> fmpred (\<lambda>key val. environment_key_ok key \<and> length val \<le> 64 * 1024 \<and> CHR 0x00 \<notin> set val)
                 (rs_environment spec)
         then Inl (DInvalid ''terminal environment is invalid'')
         else Inr ())"

end
