(* ===== verification/Daemon_Output.thy ===== *)
theory Daemon_Output
  imports Runtime_Protocol
begin

text \<open>
  The output of one terminal runtime, \<open>crates/terminald/src/runtime/output/mod.rs\<close> and
  \<open>output/parser.rs\<close>, with \<open>append_output\<close> of \<open>runtime/output.rs\<close>: the bounded
  scrollback with its absolute stream offsets, the restore snapshot an attachment gets, and the
  terminal modes the daemon tracks to repair a truncated replay. The escape sequence parser is the
  crate \<open>vte\<close>: a parameter that turns a parser state and bytes into the callbacks it makes.
\<close>

section \<open>Terminal modes\<close>

datatype mouse_protocol = MouseNone | MouseX10 | MouseNormal | MouseButton | MouseAny
datatype mouse_encoding = EncDefault | EncSgr | EncSgrPixels

record terminal_state =
  ts_title :: "string option"
  ts_application_cursor :: bool
  ts_application_keypad :: bool
  ts_alternate_screen :: bool
  ts_focus_events :: bool
  ts_mouse_protocol :: mouse_protocol
  ts_mouse_encoding :: mouse_encoding
  ts_bracketed_paste :: bool

definition terminal_state_default :: terminal_state where
  "terminal_state_default =
     \<lparr>ts_title = None, ts_application_cursor = False, ts_application_keypad = False,
      ts_alternate_screen = False, ts_focus_events = False, ts_mouse_protocol = MouseNone,
      ts_mouse_encoding = EncDefault, ts_bracketed_paste = False\<rparr>"

definition soft_reset :: "terminal_state \<Rightarrow> terminal_state" where
  "soft_reset s = s\<lparr>ts_application_cursor := False, ts_application_keypad := False,
     ts_focus_events := False, ts_bracketed_paste := False\<rparr>"

definition hard_reset :: "terminal_state \<Rightarrow> terminal_state" where
  "hard_reset s = terminal_state_default"

definition set_private_mode :: "nat \<Rightarrow> bool \<Rightarrow> terminal_state \<Rightarrow> terminal_state" where
  "set_private_mode mode enabled s =
     (if mode = 1 then s\<lparr>ts_application_cursor := enabled\<rparr>
      else if mode = 9 then s\<lparr>ts_mouse_protocol := (if enabled then MouseX10 else MouseNone)\<rparr>
      else if mode \<in> {47, 1047, 1049} then s\<lparr>ts_alternate_screen := enabled\<rparr>
      else if mode = 66 then s\<lparr>ts_application_keypad := enabled\<rparr>
      else if mode = 1000 then s\<lparr>ts_mouse_protocol := (if enabled then MouseNormal else MouseNone)\<rparr>
      else if mode = 1002 then s\<lparr>ts_mouse_protocol := (if enabled then MouseButton else MouseNone)\<rparr>
      else if mode = 1003 then s\<lparr>ts_mouse_protocol := (if enabled then MouseAny else MouseNone)\<rparr>
      else if mode = 1004 then s\<lparr>ts_focus_events := enabled\<rparr>
      else if mode = 1006 then s\<lparr>ts_mouse_encoding := (if enabled then EncSgr else EncDefault)\<rparr>
      else if mode = 1016 then s\<lparr>ts_mouse_encoding := (if enabled then EncSgrPixels else EncDefault)\<rparr>
      else if mode = 2004 then s\<lparr>ts_bracketed_paste := enabled\<rparr>
      else s)"

text \<open>The modes \<open>restore_sequence\<close> sets, in its order, and the text it writes.\<close>

definition restore_modes :: "terminal_state \<Rightarrow> nat list" where
  "restore_modes s =
     map snd (filter fst [(ts_application_cursor s, 1), (ts_alternate_screen s, 47),
       (ts_application_keypad s, 66), (ts_focus_events s, 1004), (ts_bracketed_paste s, 2004)]) @
     (case ts_mouse_protocol s of MouseNone \<Rightarrow> [] | MouseX10 \<Rightarrow> [9] | MouseNormal \<Rightarrow> [1000]
      | MouseButton \<Rightarrow> [1002] | MouseAny \<Rightarrow> [1003]) @
     (case ts_mouse_encoding s of EncDefault \<Rightarrow> [] | EncSgr \<Rightarrow> [1006] | EncSgrPixels \<Rightarrow> [1016])"

definition restore_sequence :: "terminal_state \<Rightarrow> string" where
  "restore_sequence s = concat (map (\<lambda>mode. CHR 0x1B # ''[?'' @ decimal mode @ ''h'') (restore_modes s))"

section \<open>Parser callbacks\<close>

datatype vte_event =
    Osc "string list"
  | Csi "nat list list" string bool char
  | Esc string bool char
  | OtherEvent

text \<open>Zero-width and bidirectional control characters are dropped from titles.\<close>

definition hidden_char :: "string \<Rightarrow> bool" where
  "hidden_char ch \<longleftrightarrow>
     (let c = code_point ch in is_control ch \<or> (8203 \<le> c \<and> c \<le> 8207) \<or> (8234 \<le> c \<and> c \<le> 8238) \<or>
        (8288 \<le> c \<and> c \<le> 8303) \<or> c = 65279)"

fun join_with :: "string \<Rightarrow> string list \<Rightarrow> string" where
  "join_with sep [] = []"
| "join_with sep [x] = x"
| "join_with sep (x # y # zs) = x @ sep @ join_with sep (y # zs)"

definition osc_title :: "string \<Rightarrow> string" where
  "osc_title bytes =
     concat (take 240 (chars (join_with '' ''
       (split_whitespace (concat (filter (\<lambda>c. \<not> hidden_char c) (from_utf8_lossy bytes)))))))"

definition osc_dispatch :: "string list \<Rightarrow> terminal_state \<Rightarrow> terminal_state" where
  "osc_dispatch params s =
     (if length params < 2 \<or> hd params \<notin> {''0'', ''2''} then s
      else let title = osc_title (join_with '';'' (tl params))
           in s\<lparr>ts_title := (if title \<noteq> [] then Some title else None)\<rparr>)"

definition csi_dispatch :: "nat list list \<Rightarrow> string \<Rightarrow> bool \<Rightarrow> char \<Rightarrow> terminal_state \<Rightarrow> terminal_state" where
  "csi_dispatch params intermediates ignored action s =
     (if \<not> ignored \<and> intermediates = ''!'' \<and> action = CHR ''p'' then soft_reset s
      else if ignored \<or> intermediates \<noteq> ''?'' \<or> action \<notin> {CHR ''h'', CHR ''l''} then s
      else foldl (\<lambda>s param. case param of [] \<Rightarrow> s
                   | mode # _ \<Rightarrow> set_private_mode mode (action = CHR ''h'') s) s params)"

definition esc_dispatch :: "string \<Rightarrow> bool \<Rightarrow> char \<Rightarrow> terminal_state \<Rightarrow> terminal_state" where
  "esc_dispatch intermediates ignored byte s =
     (if ignored \<or> intermediates \<noteq> [] then s
      else if byte = CHR ''='' then s\<lparr>ts_application_keypad := True\<rparr>
      else if byte = CHR ''>'' then s\<lparr>ts_application_keypad := False\<rparr>
      else if byte = CHR ''c'' then hard_reset s
      else s)"

fun perform :: "vte_event \<Rightarrow> terminal_state \<Rightarrow> terminal_state" where
  "perform (Osc params) s = osc_dispatch params s"
| "perform (Csi params intermediates ignored action) s = csi_dispatch params intermediates ignored action s"
| "perform (Esc intermediates ignored byte) s = esc_dispatch intermediates ignored byte s"
| "perform OtherEvent s = s"

section \<open>Scrollback and snapshots\<close>

definition SCROLLBACK_LIMIT :: nat where "SCROLLBACK_LIMIT = 8 * 1024 * 1024"

record 'p output_state =
  os_scrollback :: string
  os_base :: u64
  os_next :: u64
  os_closed :: bool
  os_parser :: 'p
  os_terminal :: terminal_state

definition output_init :: "'p \<Rightarrow> 'p output_state" where
  "output_init p = \<lparr>os_scrollback = [], os_base = 0, os_next = 0, os_closed = False, os_parser = p,
     os_terminal = terminal_state_default\<rparr>"

definition append_bytes :: "string \<Rightarrow> nat \<Rightarrow> 'p output_state
    \<Rightarrow> (terminald_error, u64) result \<times> 'p output_state" where
  "append_bytes bytes limit s =
     (case (if length bytes < 2 ^ 64 then checked_add (os_next s) (of_nat (length bytes)) else None) of
        None \<Rightarrow> (Inl (DWorker ''terminal output offset overflow''), s)
      | Some next \<Rightarrow>
          let data = os_scrollback s @ bytes;
              overflow = length data - limit;
              s' = s\<lparr>os_next := next, os_scrollback := data\<rparr>
          in if overflow = 0 then (Inr (os_next s), s')
             else let s'' = s'\<lparr>os_scrollback := drop overflow data\<rparr>
                  in case checked_add (os_base s) (of_nat overflow) of
                       None \<Rightarrow> (Inl (DWorker ''terminal scrollback offset overflow''), s'')
                     | Some base \<Rightarrow> (Inr (os_next s), s''\<lparr>os_base := base\<rparr>))"

definition append_output :: "('p \<Rightarrow> string \<Rightarrow> vte_event list \<times> 'p) \<Rightarrow> string \<Rightarrow> 'p output_state
    \<Rightarrow> (terminald_error, u64) result \<times> 'p output_state" where
  "append_output advance bytes s =
     (let (events, p) = advance (os_parser s) bytes;
          s' = s\<lparr>os_parser := p, os_terminal := fold perform events (os_terminal s)\<rparr>
      in append_bytes bytes SCROLLBACK_LIMIT s')"

record vt_snapshot =
  vs_generation :: string
  vs_applied_offset :: u64
  vs_cols :: u16
  vs_rows :: u16
  vs_ansi :: string
  vs_lines :: "string list"

record restore_diagnostics =
  rd_selected :: bool
  rd_reason :: string
  rd_bytes :: nat
  rd_offset :: "u64 option"

record output_snapshot =
  sn_offset :: u64
  sn_reset :: bool
  sn_replay :: string
  sn_next :: u64
  sn_closed :: bool
  sn_restore :: "string option"
  sn_restore_cols :: "u16 option"
  sn_restore_rows :: "u16 option"
  sn_diagnostics :: restore_diagnostics

definition in_buffer :: "'p output_state \<Rightarrow> u64 \<Rightarrow> bool" where
  "in_buffer s offset \<longleftrightarrow> os_base s \<le> offset \<and> offset \<le> os_next s"

definition select_vt :: "bool \<Rightarrow> vt_snapshot option \<Rightarrow> string \<Rightarrow> string \<Rightarrow> 'p output_state
    \<Rightarrow> vt_snapshot option \<times> string" where
  "select_vt resumable vt epoch unavailable s =
     (if resumable then (None, ''resume_cursor_used'')
      else (case vt of
          Some v \<Rightarrow> if vs_generation v \<noteq> epoch then (None, ''generation_mismatch'')
                    else if \<not> in_buffer s (vs_applied_offset v) then (None, ''stale_offset'')
                    else (Some v, ''selected'')
        | None \<Rightarrow> (None, unavailable)))"

text \<open>\<^term>\<open>None\<close> is the panic of slicing behind the end of the scrollback.\<close>

definition snapshot_with_vt_diagnostics :: "u64 option \<Rightarrow> vt_snapshot option \<Rightarrow> string \<Rightarrow> string
    \<Rightarrow> 'p output_state \<Rightarrow> output_snapshot option" where
  "snapshot_with_vt_diagnostics after vt epoch unavailable s =
     (let resumable = (case after of Some offset \<Rightarrow> in_buffer s offset | None \<Rightarrow> False);
          (vt', reason) = select_vt resumable vt epoch unavailable s;
          offset = (if resumable then the after
                    else (case vt' of Some v \<Rightarrow> vs_applied_offset v | None \<Rightarrow> os_base s));
          replay_start = unat (offset - os_base s)
      in if length (os_scrollback s) < replay_start then None
         else Some \<lparr>sn_offset = offset, sn_reset = (\<not> resumable),
           sn_replay = drop replay_start (os_scrollback s), sn_next = os_next s,
           sn_closed = os_closed s,
           sn_restore = (case vt' of Some v \<Rightarrow> Some (vs_ansi v)
             | None \<Rightarrow> if \<not> resumable \<and> 0 < os_base s then Some (restore_sequence (os_terminal s)) else None),
           sn_restore_cols = map_option vs_cols vt', sn_restore_rows = map_option vs_rows vt',
           sn_diagnostics = \<lparr>rd_selected = (vt' \<noteq> None), rd_reason = reason,
             rd_bytes = (case vt' of Some v \<Rightarrow> length (vs_ansi v) | None \<Rightarrow> 0),
             rd_offset = map_option vs_applied_offset vt'\<rparr>\<rparr>)"

definition snapshot_after :: "u64 \<Rightarrow> 'p output_state \<Rightarrow> output_snapshot option" where
  "snapshot_after after s = snapshot_with_vt_diagnostics (Some after) None [] ''snapshot_not_ready'' s"

definition close_output :: "'p output_state \<Rightarrow> 'p output_state" where
  "close_output s = s\<lparr>os_closed := True\<rparr>"

section \<open>The buffer holds the end of the stream\<close>

text \<open>\<open>hist\<close> is everything the runtime has written since it started.\<close>

definition output_inv :: "nat \<Rightarrow> string \<Rightarrow> 'p output_state \<Rightarrow> bool" where
  "output_inv limit hist s \<longleftrightarrow>
     unat (os_next s) = length hist \<and> unat (os_base s) \<le> length hist \<and>
     os_scrollback s = drop (unat (os_base s)) hist \<and>
     unat (os_base s) = length hist - limit"

lemma output_inv_init: "output_inv limit [] (output_init p)"
  by (simp add: output_inv_def output_init_def)

lemma append_bytes_ok:
  fixes s :: "'p output_state"
  assumes inv: "output_inv limit hist s" and len: "length hist + length bytes < 2 ^ 64"
  shows "\<exists>s'. append_bytes bytes limit s = (Inr (os_next s), s') \<and> output_inv limit (hist @ bytes) s' \<and>
           os_terminal s' = os_terminal s \<and> os_parser s' = os_parser s \<and> os_closed s' = os_closed s"
proof -
  let ?n = "of_nat (length bytes) :: u64"
  have un: "unat ?n = length bytes"
    using len by (intro unat_of_nat_small) simp
  have nx: "checked_add (os_next s) ?n = Some (os_next s + ?n)"
    using inv len un by (simp add: checked_add_def output_inv_def)
  have unext: "unat (os_next s + ?n) = length hist + length bytes"
    using checked_add_Some [OF nx] inv un by (simp add: output_inv_def)
  have bytes64: "length bytes < 2 ^ 64" using len by simp
  let ?data = "os_scrollback s @ bytes"
  let ?over = "length ?data - limit"
  have data: "?data = drop (unat (os_base s)) (hist @ bytes)"
    using inv by (simp add: output_inv_def)
  have base: "unat (os_base s) = length hist - limit" "unat (os_base s) \<le> length hist"
    using inv by (simp_all add: output_inv_def)
  have ldata: "length ?data = length hist + length bytes - unat (os_base s)"
    unfolding data by simp
  have over: "?over = (length hist + length bytes - limit) - unat (os_base s)"
    using ldata base by simp
  show ?thesis
  proof (cases "?over = 0")
    case True
    with over base have "unat (os_base s) = length hist + length bytes - limit" by simp
    moreover have "append_bytes bytes limit s =
        (Inr (os_next s), s\<lparr>os_next := os_next s + ?n, os_scrollback := ?data\<rparr>)"
      unfolding append_bytes_def using True bytes64 nx by (simp add: Let_def)
    ultimately show ?thesis
      using unext data by (auto simp: output_inv_def)
  next
    case False
    have uo: "unat (of_nat ?over :: u64) = ?over"
      using over len by (intro unat_of_nat_small) simp
    have sum: "unat (os_base s) + ?over = length hist + length bytes - limit"
      using over False by simp
    have b: "checked_add (os_base s) (of_nat ?over) = Some (os_base s + of_nat ?over)"
      using sum len uo by (simp add: checked_add_def)
    have ub: "unat (os_base s + of_nat ?over) = length hist + length bytes - limit"
      using checked_add_Some [OF b] uo sum by simp
    have d2: "drop m ?data = drop (unat (os_base s) + m) (hist @ bytes)" for m
      unfolding data drop_drop by (simp only: add.commute)
    have dd: "drop ?over ?data = drop (unat (os_base s + of_nat ?over)) (hist @ bytes)"
      unfolding d2 ub sum ..
    have "append_bytes bytes limit s =
        (Inr (os_next s), s\<lparr>os_next := os_next s + ?n, os_scrollback := drop ?over ?data,
           os_base := os_base s + of_nat ?over\<rparr>)"
      unfolding append_bytes_def Let_def if_P [OF bytes64] nx option.case if_not_P [OF False] b by simp
    then show ?thesis
      unfolding output_inv_def using unext dd ub by simp
  qed
qed

lemma append_bytes_overflow:
  fixes s :: "'p output_state"
  assumes inv: "output_inv limit hist s" and len: "2 ^ 64 \<le> length hist + length bytes"
  shows "append_bytes bytes limit s = (Inl (DWorker ''terminal output offset overflow''), s)"
proof (cases "length bytes < 2 ^ 64")
  case True
  then have un: "unat (of_nat (length bytes) :: u64) = length bytes" by (intro unat_of_nat_small) simp
  have "checked_add (os_next s) (of_nat (length bytes)) = None"
    unfolding checked_add_None un using inv len by (simp add: output_inv_def)
  then show ?thesis by (simp add: append_bytes_def)
qed (simp add: append_bytes_def)

text \<open>The reader loop: chunks until an append fails.\<close>

fun append_all :: "('p \<Rightarrow> string \<Rightarrow> vte_event list \<times> 'p) \<Rightarrow> string list \<Rightarrow> 'p output_state
    \<Rightarrow> 'p output_state" where
  "append_all advance [] s = s"
| "append_all advance (b # bs) s =
     (case append_output advance b s of (Inl e, s') \<Rightarrow> s' | (Inr _, s') \<Rightarrow> append_all advance bs s')"

lemma append_output_ok:
  assumes inv: "output_inv SCROLLBACK_LIMIT hist s" and len: "length hist + length bytes < 2 ^ 64"
  shows "\<exists>s'. append_output advance bytes s = (Inr (os_next s), s') \<and>
           output_inv SCROLLBACK_LIMIT (hist @ bytes) s' \<and>
           os_terminal s' = fold perform (fst (advance (os_parser s) bytes)) (os_terminal s) \<and>
           os_parser s' = snd (advance (os_parser s) bytes) \<and> os_closed s' = os_closed s"
proof -
  obtain ev q where a: "advance (os_parser s) bytes = (ev, q)" by force
  let ?s = "s\<lparr>os_parser := q, os_terminal := fold perform ev (os_terminal s)\<rparr>"
  have "output_inv SCROLLBACK_LIMIT hist ?s" using inv by (simp add: output_inv_def)
  from append_bytes_ok [OF this len] a show ?thesis
    by (simp add: append_output_def)
qed

lemma append_all_inv:
  assumes "output_inv SCROLLBACK_LIMIT hist s" "length hist + length (concat bs) < 2 ^ 64"
  shows "output_inv SCROLLBACK_LIMIT (hist @ concat bs) (append_all advance bs s)"
  using assms
proof (induction bs arbitrary: hist s)
  case (Cons b bs)
  from Cons.prems have "length hist + length b < 2 ^ 64" by simp
  from append_output_ok [OF Cons.prems(1) this, of advance] obtain s' where
    s': "append_output advance b s = (Inr (os_next s), s')" "output_inv SCROLLBACK_LIMIT (hist @ b) s'"
    by blast
  have "output_inv SCROLLBACK_LIMIT ((hist @ b) @ concat bs) (append_all advance bs s')"
    using Cons.prems by (intro Cons.IH s') simp
  with s' show ?case by simp
qed simp

lemma snapshot_of_inv:
  fixes s :: "'p output_state"
  assumes inv: "output_inv limit hist s"
  shows "\<exists>sn. snapshot_with_vt_diagnostics after vt epoch reason s = Some sn \<and>
           sn_replay sn = drop (unat (sn_offset sn)) hist \<and>
           length hist - limit \<le> unat (sn_offset sn) \<and>
           unat (sn_offset sn) \<le> length hist \<and>
           unat (sn_next sn) = length hist \<and>
           (if \<exists>a. after = Some a \<and> length hist - limit \<le> unat a \<and> unat a \<le> length hist
            then after = Some (sn_offset sn) \<and> \<not> sn_reset sn \<and> sn_restore sn = None
            else sn_reset sn)"
proof -
  from inv have base: "unat (os_base s) = length hist - limit"
    and nx: "unat (os_next s) = length hist"
    and data: "os_scrollback s = drop (unat (os_base s)) hist"
    by (simp_all add: output_inv_def)
  have buf: "in_buffer s a \<longleftrightarrow> length hist - limit \<le> unat a \<and> unat a \<le> length hist" for a
    by (simp add: in_buffer_def word_le_nat_alt base nx)
  have base_in: "in_buffer s (os_base s)" by (simp add: buf base)
  let ?res = "case after of Some offset \<Rightarrow> in_buffer s offset | None \<Rightarrow> False"
  obtain v r where sel: "select_vt ?res vt epoch reason s = (v, r)" by force
  obtain off where off:
    "off = (if ?res then the after else (case v of Some v \<Rightarrow> vs_applied_offset v | None \<Rightarrow> os_base s))"
    by blast
  have v_in: "in_buffer s (vs_applied_offset x)" if "v = Some x" for x
    using sel that by (auto simp: select_vt_def split: if_splits option.splits)
  have none: "v = None" if ?res
    using sel that by (simp add: select_vt_def)
  have off_in: "in_buffer s off"
    using v_in base_in unfolding off by (auto split: option.splits)
  have uoff: "unat (off - os_base s) = unat off - unat (os_base s)"
    using off_in by (intro unat_sub) (simp add: in_buffer_def)
  have ge: "unat (os_base s) \<le> unat off"
    using off_in by (simp add: in_buffer_def word_le_nat_alt)
  have rep: "drop (unat (off - os_base s)) (os_scrollback s) = drop (unat off) hist"
    unfolding uoff data drop_drop using ge by simp
  have fits: "\<not> length (os_scrollback s) < unat (off - os_base s)"
    unfolding uoff data using off_in [unfolded buf] by (simp add: diff_le_mono not_less)
  let ?snap = "snapshot_with_vt_diagnostics after vt epoch reason s"
  have "\<exists>sn. ?snap = Some sn \<and> sn_offset sn = off \<and> sn_replay sn = drop (unat off) hist \<and>
      sn_next sn = os_next s \<and> sn_reset sn = (\<not> ?res) \<and> (?res \<longrightarrow> sn_restore sn = None)"
    using fits rep none unfolding snapshot_with_vt_diagnostics_def sel Let_def split off [symmetric] by auto
  then obtain sn where sn: "?snap = Some sn" "sn_offset sn = off"
    "sn_replay sn = drop (unat off) hist" "sn_next sn = os_next s"
    "sn_reset sn = (\<not> ?res)" "?res \<longrightarrow> sn_restore sn = None" by blast
  have "?res \<longleftrightarrow> (\<exists>a. after = Some a \<and> length hist - limit \<le> unat a \<and> unat a \<le> length hist)"
    using buf by (auto split: option.splits)
  moreover have "?res \<Longrightarrow> after = Some off" unfolding off by (auto split: option.splits)
  ultimately show ?thesis
    using sn off_in buf nx by auto
qed

text \<open>C27: After any chunks of output (less than 2\^64 bytes in all), a snapshot never fails, starts inside
  the buffered range, and its replay is exactly the stream from its offset to its end; a cursor that is
  still in the buffer is resumed there without a reset, and every other request is told to reset.\<close>

theorem snapshot_replays_the_stream:
  fixes p :: 'p and advance :: "'p \<Rightarrow> string \<Rightarrow> vte_event list \<times> 'p"
  assumes len: "length (concat bs) < 2 ^ 64"
  shows "\<exists>sn. snapshot_with_vt_diagnostics after vt epoch reason
             (append_all advance bs (output_init p)) = Some sn \<and>
           sn_replay sn = drop (unat (sn_offset sn)) (concat bs) \<and>
           length (concat bs) - SCROLLBACK_LIMIT \<le> unat (sn_offset sn) \<and>
           unat (sn_offset sn) \<le> length (concat bs) \<and>
           unat (sn_next sn) = length (concat bs) \<and>
           (if \<exists>a. after = Some a \<and> length (concat bs) - SCROLLBACK_LIMIT \<le> unat a \<and>
                    unat a \<le> length (concat bs)
            then after = Some (sn_offset sn) \<and> \<not> sn_reset sn \<and> sn_restore sn = None
            else sn_reset sn)"
proof -
  have "output_inv SCROLLBACK_LIMIT (concat bs) (append_all advance bs (output_init p))"
    using append_all_inv [OF output_inv_init, of bs advance p] len by simp
  then show ?thesis by (rule snapshot_of_inv)
qed

theorem snapshot_replays_the_stream_witness:
  "\<exists>sn. snapshot_with_vt_diagnostics (Some 3) None ''e'' ''r''
      (append_all (\<lambda>p b. ([], p)) [''abc'', ''de''] (output_init ())) = Some sn \<and>
    sn_replay sn = drop (unat (sn_offset sn)) (concat [''abc'', ''de''])"
proof -
  have "length (concat [''abc'', ''de'']) < 2 ^ 64" by simp
  from snapshot_replays_the_stream
    [OF this, where after = "Some 3" and vt = None and epoch = "''e''" and reason = "''r''"
      and advance = "\<lambda>p b. ([], p)" and p = "()"]
  show ?thesis by (elim exE conjE) (intro exI conjI)
qed

section \<open>Restoring the modes\<close>

lemmas mode_defs = terminal_state_default_def set_private_mode_def soft_reset_def hard_reset_def

definition untitled :: "terminal_state \<Rightarrow> terminal_state" where
  "untitled s = s\<lparr>ts_title := None\<rparr>"

definition enter_modes :: "nat list \<Rightarrow> terminal_state \<Rightarrow> terminal_state" where
  "enter_modes modes s = foldl (\<lambda>s mode. set_private_mode mode True s) s modes"

text \<open>The modes that the restore sequence sets bring a fresh terminal to the modes of the state it was
  written for; only the title is not part of it.\<close>

lemma restore_sequence_round_trip:
  "enter_modes (restore_modes s) terminal_state_default = untitled s"
  by (cases s; cases "ts_mouse_protocol s"; cases "ts_mouse_encoding s")
    (auto simp: enter_modes_def restore_modes_def mode_defs untitled_def)

text \<open>A callback either sets a field to a value of its own or keeps it.\<close>

definition assigns :: "(terminal_state \<Rightarrow> 'a) \<Rightarrow> (terminal_state \<Rightarrow> terminal_state) \<Rightarrow> bool" where
  "assigns f g \<longleftrightarrow> (\<exists>c. \<forall>s. f (g s) = c) \<or> (\<forall>s. f (g s) = f s)"

lemma assigns_id: "assigns f (\<lambda>s. s)"
  by (simp add: assigns_def)

lemma assigns_comp: "assigns f g \<Longrightarrow> assigns f h \<Longrightarrow> assigns f (\<lambda>s. h (g s))"
  unfolding assigns_def by metis

lemma assigns_foldl:
  "(\<And>x. assigns f (\<lambda>s. h s x)) \<Longrightarrow> assigns f (\<lambda>s. foldl h s xs)"
proof (induction xs rule: rev_induct)
  case (snoc x xs)
  have "assigns f (\<lambda>s. h (foldl h s xs) x)"
    by (rule assigns_comp [of f "\<lambda>s. foldl h s xs" "\<lambda>s. h s x"]) (use snoc in auto)
  then show ?case by simp
qed (simp add: assigns_id)

lemma assigns_fold:
  "(\<And>x. assigns f (h x)) \<Longrightarrow> assigns f (fold h xs)"
proof (induction xs)
  case (Cons x xs)
  have "assigns f (\<lambda>s. fold h xs (h x s))"
    by (rule assigns_comp [of f "h x" "fold h xs"]) (use Cons in auto)
  then show ?case by (simp add: comp_def)
qed (simp add: assigns_id id_def)

text \<open>The modes of a state, as one value each.\<close>

definition mode_fields :: "(terminal_state \<Rightarrow> nat) list" where
  "mode_fields =
     [\<lambda>s. of_bool (ts_application_cursor s), \<lambda>s. of_bool (ts_application_keypad s),
      \<lambda>s. of_bool (ts_alternate_screen s), \<lambda>s. of_bool (ts_focus_events s),
      \<lambda>s. (case ts_mouse_protocol s of MouseNone \<Rightarrow> 0 | MouseX10 \<Rightarrow> 1 | MouseNormal \<Rightarrow> 2
            | MouseButton \<Rightarrow> 3 | MouseAny \<Rightarrow> 4),
      \<lambda>s. (case ts_mouse_encoding s of EncDefault \<Rightarrow> 0 | EncSgr \<Rightarrow> 1 | EncSgrPixels \<Rightarrow> 2),
      \<lambda>s. of_bool (ts_bracketed_paste s)]"

lemma of_bool_inject: "(of_bool a :: nat) = of_bool b \<longleftrightarrow> a = b"
  by (cases a; cases b) auto

lemma untitled_eq_iff: "untitled s = untitled t \<longleftrightarrow> (\<forall>f\<in>set mode_fields. f s = f t)"
  by (cases s; cases t)
    (auto simp: untitled_def mode_fields_def of_bool_inject split: mouse_protocol.splits mouse_encoding.splits)

lemma assigns_set_private_mode: "f \<in> set mode_fields \<Longrightarrow> assigns f (set_private_mode mode enabled)"
  unfolding mode_fields_def assigns_def set_private_mode_def by auto

lemma assigns_soft_reset: "f \<in> set mode_fields \<Longrightarrow> assigns f soft_reset"
  unfolding mode_fields_def assigns_def soft_reset_def by auto

lemma assigns_csi: "f \<in> set mode_fields \<Longrightarrow> assigns f (csi_dispatch params im ign act)"
proof -
  assume f: "f \<in> set mode_fields"
  have "assigns f (\<lambda>s. case x of [] \<Rightarrow> s | mode # _ \<Rightarrow> set_private_mode mode (act = CHR ''h'') s)" for x :: "nat list"
    using assigns_set_private_mode [OF f] by (cases x) (auto simp: assigns_id)
  then have "assigns f (\<lambda>s. foldl (\<lambda>s x. case x of [] \<Rightarrow> s
      | mode # _ \<Rightarrow> set_private_mode mode (act = CHR ''h'') s) s params)"
    by (rule assigns_foldl)
  with assigns_soft_reset [OF f] show ?thesis
    unfolding csi_dispatch_def
    by (cases "\<not> ign \<and> im = ''!'' \<and> act = CHR ''p''"; cases "ign \<or> im \<noteq> ''?'' \<or> act \<notin> {CHR ''h'', CHR ''l''}")
      (auto simp only: if_True if_False simp_thms assigns_id)
qed

lemma assigns_esc: "f \<in> set mode_fields \<Longrightarrow> assigns f (esc_dispatch im ign b)"
  unfolding esc_dispatch_def hard_reset_def mode_fields_def assigns_def by auto

lemma assigns_osc: "f \<in> set mode_fields \<Longrightarrow> assigns f (osc_dispatch params)"
  unfolding osc_dispatch_def mode_fields_def assigns_def Let_def by auto

lemma assigns_perform: "f \<in> set mode_fields \<Longrightarrow> assigns f (perform e)"
proof (cases e)
  case (Osc p)
  moreover assume "f \<in> set mode_fields"
  ultimately show ?thesis using assigns_osc [of f p] by (simp add: assigns_def)
next
  case (Csi p i g a)
  moreover assume "f \<in> set mode_fields"
  ultimately show ?thesis using assigns_csi [of f p i g a] by (simp add: assigns_def)
next
  case (Esc i g b)
  moreover assume "f \<in> set mode_fields"
  ultimately show ?thesis using assigns_esc [of f i g b] by (simp add: assigns_def)
qed (simp add: assigns_def)

text \<open>What \<open>vte\<close> documents: it is fed with bytes as they come, and a private mode sequence in the ground state is
  one CSI callback with the mode as its parameter.\<close>

definition vte_parser :: "('p \<Rightarrow> string \<Rightarrow> vte_event list \<times> 'p) \<Rightarrow> 'p \<Rightarrow> bool" where
  "vte_parser advance ground \<longleftrightarrow>
     (\<forall>p. advance p [] = ([], p)) \<and>
     (\<forall>p x y. advance p (x @ y) = (case advance p x of (e, q) \<Rightarrow> case advance q y of (f, q') \<Rightarrow> (e @ f, q'))) \<and>
     (\<forall>mode < 65536. \<forall>c\<in>{CHR ''h'', CHR ''l''}.
        advance ground (CHR 0x1B # ''[?'' @ decimal mode @ [c]) = ([Csi [[mode]] ''?'' False c], ground))"

text \<open>A callback that sets no mode: text, control characters, titles.\<close>

definition no_mode :: "vte_event \<Rightarrow> bool" where
  "no_mode e \<longleftrightarrow> (case e of Osc params \<Rightarrow> True | OtherEvent \<Rightarrow> True | _ \<Rightarrow> False)"

lemma fold_no_mode: "\<forall>e\<in>set es. no_mode e \<Longrightarrow> untitled (fold perform es s) = untitled s"
proof (induction es arbitrary: s)
  case (Cons e es)
  have osc: "untitled (osc_dispatch params s) = untitled s" for params
    unfolding osc_dispatch_def Let_def untitled_def by simp
  have "no_mode e" using Cons.prems by simp
  then have "untitled (perform e s) = untitled s"
    using osc unfolding no_mode_def by (cases e) (simp_all only: perform.simps vte_event.case simp_thms)
  then show ?case using Cons by simp
qed simp

lemma restore_modes_small: "m \<in> set (restore_modes s) \<Longrightarrow> m < 65536"
proof -
  have f: "set (map snd (filter fst xs)) \<subseteq> snd ` set xs" for xs :: "(bool \<times> nat) list" by auto
  have a: "set (case ts_mouse_protocol s of MouseNone \<Rightarrow> [] | MouseX10 \<Rightarrow> [9] | MouseNormal \<Rightarrow> [1000] | MouseButton \<Rightarrow> [1002] | MouseAny \<Rightarrow> [1003]) \<subseteq> {9, 1000, 1002, 1003 :: nat}"
    by (cases "ts_mouse_protocol s") simp_all
  have b: "set (case ts_mouse_encoding s of EncDefault \<Rightarrow> [] | EncSgr \<Rightarrow> [1006] | EncSgrPixels \<Rightarrow> [1016]) \<subseteq> {1006, 1016 :: nat}"
    by (cases "ts_mouse_encoding s") simp_all
  assume "m \<in> set (restore_modes s)"
  then have "m \<in> {1, 47, 66, 1004, 2004} \<union> {9, 1000, 1002, 1003} \<union> {1006, 1016}"
    using f [of "[(ts_application_cursor s, 1), (ts_alternate_screen s, 47), (ts_application_keypad s, 66), (ts_focus_events s, 1004), (ts_bracketed_paste s, 2004)]"] a b
    unfolding restore_modes_def set_append by auto
  then show "m < 65536" by auto
qed

lemma advance_restore:
  assumes vte: "vte_parser advance ground"
  shows "advance ground (restore_sequence s) = (map (\<lambda>m. Csi [[m]] ''?'' False CHR ''h'') (restore_modes s), ground)"
proof -
  have "advance ground (concat (map (\<lambda>mode. CHR 0x1B # ''[?'' @ decimal mode @ ''h'') ms)) =
      (map (\<lambda>m. Csi [[m]] ''?'' False CHR ''h'') ms, ground)" if "\<forall>m\<in>set ms. m < 65536" for ms
    using that
  proof (induction ms)
    case (Cons m ms)
    have "advance ground (CHR 0x1B # ''[?'' @ decimal m @ ''h'') = ([Csi [[m]] ''?'' False CHR ''h''], ground)"
      using vte Cons.prems by (simp add: vte_parser_def)
    moreover have "advance ground ((CHR 0x1B # ''[?'' @ decimal m @ ''h'') @ concat (map (\<lambda>mode. CHR 0x1B # ''[?'' @ decimal mode @ ''h'') ms)) =
        (case advance ground (CHR 0x1B # ''[?'' @ decimal m @ ''h'') of (e, q) \<Rightarrow>
           case advance q (concat (map (\<lambda>mode. CHR 0x1B # ''[?'' @ decimal mode @ ''h'') ms)) of (f, q') \<Rightarrow> (e @ f, q'))"
      using vte unfolding vte_parser_def by blast
    ultimately show ?case using Cons by simp
  qed (use vte in \<open>simp add: vte_parser_def\<close>)
  then show ?thesis unfolding restore_sequence_def using restore_modes_small by blast
qed

lemma perform_restore:
  "fold perform (map (\<lambda>m. Csi [[m]] ''?'' False CHR ''h'') (restore_modes s)) terminal_state_default = untitled s"
proof -
  have "fold perform (map (\<lambda>m. Csi [[m]] ''?'' False CHR ''h'') ms) t = enter_modes ms t" for ms t
    by (induction ms arbitrary: t) (simp_all add: enter_modes_def csi_dispatch_def)
  then show ?thesis by (simp add: restore_sequence_round_trip)
qed

text \<open>The daemon's terminal after the whole output.\<close>

lemma append_all_terminal:
  assumes vte: "vte_parser advance ground" and "output_inv SCROLLBACK_LIMIT hist s" "length hist + length (concat bs) < 2 ^ 64"
  shows "os_terminal (append_all advance bs s) = fold perform (fst (advance (os_parser s) (concat bs))) (os_terminal s)"
  using assms(2,3)
proof (induction bs arbitrary: hist s)
  case Nil
  then show ?case using vte by (simp add: vte_parser_def)
next
  case (Cons b bs)
  have "length hist + length b < 2 ^ 64" using Cons.prems(2) by simp
  from append_output_ok [OF Cons.prems(1) this, of advance] obtain s' where
    s': "append_output advance b s = (Inr (os_next s), s')" "output_inv SCROLLBACK_LIMIT (hist @ b) s'"
      "os_terminal s' = fold perform (fst (advance (os_parser s) b)) (os_terminal s)"
      "os_parser s' = snd (advance (os_parser s) b)" by blast
  have "os_terminal (append_all advance bs s') = fold perform (fst (advance (os_parser s') (concat bs))) (os_terminal s')"
    using Cons.prems(2) by (intro Cons.IH [OF s'(2)]) simp
  moreover have "advance (os_parser s) (b @ concat bs) =
      (case advance (os_parser s) b of (e, q) \<Rightarrow> case advance q (concat bs) of (f, q') \<Rightarrow> (e @ f, q'))"
    using vte unfolding vte_parser_def by blast
  ultimately show ?case using s' by (simp split: prod.splits)
qed

lemma append_all_sound:
  assumes "vte_parser advance ground" "length (concat bs) < 2 ^ 64"
  shows "output_inv SCROLLBACK_LIMIT (concat bs) (append_all advance bs (output_init ground))"
    and "os_terminal (append_all advance bs (output_init ground)) = fold perform (fst (advance ground (concat bs))) terminal_state_default"
  using append_all_inv [OF output_inv_init, of bs advance ground] append_all_terminal [OF assms(1) output_inv_init, of bs ground] assms(2)
  by (simp_all add: output_init_def)

text \<open>C22: A terminal that is attached without a cursor and without a snapshot of the emulator shows the modes of the
  program that runs in it, even when the beginning of the output is lost: reading the restore sequence of the snapshot
  (nothing when nothing is lost) and then its replay from scratch gives the modes the daemon has tracked over the whole
  output. The cut may be in the middle of an escape sequence; it is only assumed that the rest \<open>x\<close> of that sequence, which the
  terminal reads as text, sets no mode and that both parsers agree behind it.\<close>

theorem truncated_replay_restores_modes:
  assumes vte: "vte_parser advance ground" and len: "length (concat bs) < 2 ^ 64"
    and sn: "snapshot_with_vt_diagnostics None None epoch reason (append_all advance bs (output_init ground)) = Some sn"
    and cut: "concat bs = lost @ x @ y" "length lost = unat (sn_offset sn)"
    and resumed: "snd (advance ground x) = snd (advance ground (lost @ x))" "\<forall>e\<in>set (fst (advance ground x)). no_mode e"
  shows "untitled (fold perform (fst (advance ground ((case sn_restore sn of None \<Rightarrow> [] | Some r \<Rightarrow> r) @ sn_replay sn))) terminal_state_default) =
    untitled (os_terminal (append_all advance bs (output_init ground)))"
proof -
  let ?s = "append_all advance bs (output_init ground)"
  note s = append_all_sound [OF vte len]
  have st: "fst (advance p (a @ b)) = fst (advance p a) @ fst (advance (snd (advance p a)) b)"
    "snd (advance p (a @ b)) = snd (advance (snd (advance p a)) b)" for p a b
    using vte unfolding vte_parser_def by (simp_all split: prod.splits)
  have off: "unat (os_base ?s) = length (concat bs) - SCROLLBACK_LIMIT" "os_scrollback ?s = drop (unat (os_base ?s)) (concat bs)"
    using s(1) by (simp_all add: output_inv_def)
  have sn': "sn_offset sn = os_base ?s" "sn_replay sn = os_scrollback ?s"
    "sn_restore sn = (if 0 < os_base ?s then Some (restore_sequence (os_terminal ?s)) else None)"
    using sn by (auto simp: snapshot_with_vt_diagnostics_def select_vt_def Let_def split: if_splits)
  have replay: "sn_replay sn = x @ y" using sn'(1,2) off(2) cut by simp
  have total: "os_terminal ?s = fold perform (fst (advance (snd (advance ground (lost @ x))) y)) (fold perform (fst (advance ground (lost @ x))) terminal_state_default)"
    unfolding s(2) cut(1) append_assoc [symmetric] st by simp
  show ?thesis
  proof (cases "0 < os_base ?s")
    case False
    then have "os_base ?s = 0" by (simp only: word_neq_0_conv [symmetric] not_not)
    then have "lost = []" using cut(2) sn'(1) by simp
    then show ?thesis using False sn'(3) s(2) replay cut(1) by simp
  next
    case True
    let ?t = "os_terminal ?s"
    let ?e = "fst (advance (snd (advance ground (lost @ x))) y)"
    have "fst (advance ground (restore_sequence ?t @ x @ y)) =
        map (\<lambda>m. Csi [[m]] ''?'' False CHR ''h'') (restore_modes ?t) @ fst (advance ground x) @ ?e"
      unfolding st advance_restore [OF vte] fst_conv snd_conv resumed(1) ..
    then have read: "fold perform (fst (advance ground ((case sn_restore sn of None \<Rightarrow> [] | Some r \<Rightarrow> r) @ sn_replay sn))) terminal_state_default =
        fold perform ?e (fold perform (fst (advance ground x)) (untitled ?t))"
      using True sn'(3) replay by (simp add: perform_restore)
    have mid: "untitled (fold perform (fst (advance ground x)) (untitled ?t)) = untitled ?t"
      using fold_no_mode [OF resumed(2), of "untitled ?t"] by (simp add: untitled_def)
    have "f (fold perform ?e (fold perform (fst (advance ground x)) (untitled ?t))) = f ?t" if f: "f \<in> set mode_fields" for f
    proof -
      have "assigns f (fold perform ?e)" using assigns_perform [OF f] by (rule assigns_fold)
      moreover have "f (fold perform (fst (advance ground x)) (untitled ?t)) = f ?t"
        using mid f unfolding untitled_eq_iff by blast
      moreover have "f ?t = f (fold perform ?e (fold perform (fst (advance ground (lost @ x))) terminal_state_default))"
        using total by simp
      ultimately show ?thesis unfolding assigns_def by metis
    qed
    then show ?thesis unfolding read untitled_eq_iff by blast
  qed
qed

text \<open>A parser of the control sequences that concern the modes, as an instance: the ground state, an escape, and the
  private parameters read so far.\<close>

datatype mini_vte = Ground | Escape | Bracket | Private nat

fun mini_step :: "mini_vte \<Rightarrow> char \<Rightarrow> vte_event list \<times> mini_vte" where
  "mini_step Ground c = (if c = CHR 0x1B then ([], Escape) else ([OtherEvent], Ground))"
| "mini_step Escape c = (if c = CHR ''['' then ([], Bracket) else ([OtherEvent], Ground))"
| "mini_step Bracket c = (if c = CHR ''?'' then ([], Private 0) else ([OtherEvent], Ground))"
| "mini_step (Private n) c =
     (if 48 \<le> (of_char c :: nat) \<and> (of_char c :: nat) \<le> 57 then ([], Private (10 * n + (of_char c - 48))) else ([Csi [[n]] ''?'' False c], Ground))"

fun mini_advance :: "mini_vte \<Rightarrow> string \<Rightarrow> vte_event list \<times> mini_vte" where
  "mini_advance p [] = ([], p)"
| "mini_advance p (c # cs) = (case mini_step p c of (e, q) \<Rightarrow> case mini_advance q cs of (f, q') \<Rightarrow> (e @ f, q'))"

lemma mini_advance_append:
  "mini_advance p (x @ y) = (case mini_advance p x of (e, q) \<Rightarrow> case mini_advance q y of (f, q') \<Rightarrow> (e @ f, q'))"
  by (induction x arbitrary: p) (simp_all split: prod.splits)

lemma mini_digit: "d < 10 \<Longrightarrow> mini_step (Private n) (digit_char d) = ([], Private (10 * n + d))"
  by (simp add: digit_char_def of_char_of)

lemma mini_decimal: "mini_advance (Private 0) (decimal m @ rest) = mini_advance (Private m) rest"
proof (induction m arbitrary: rest rule: decimal.induct)
  case (1 m)
  show ?case
  proof (cases "m < 10")
    case True
    then show ?thesis using mini_digit [OF True, of 0] by (simp add: decimal.simps [of m] del: mini_step.simps)
  next
    case False
    have "mini_advance (Private 0) (decimal m @ rest) = mini_advance (Private (m div 10)) (digit_char (m mod 10) # rest)"
      using 1 [OF False, of "digit_char (m mod 10) # rest"] False by (simp add: decimal.simps [of m])
    also have "\<dots> = mini_advance (Private m) rest" using mini_digit [of "m mod 10" "m div 10"] by (simp del: mini_step.simps)
    finally show ?thesis .
  qed
qed

lemma mini_vte_parser: "vte_parser mini_advance Ground"
proof -
  have "mini_advance Ground (CHR 0x1B # ''[?'' @ decimal m @ [c]) = ([Csi [[m]] ''?'' False c], Ground)"
    if "c \<in> {CHR ''h'', CHR ''l''}" for m c
  proof -
    have "mini_advance Ground (CHR 0x1B # ''[?'' @ decimal m @ [c]) = mini_advance (Private 0) (decimal m @ [c])" by simp
    also have "\<dots> = ([Csi [[m]] ''?'' False c], Ground)" using that by (auto simp: mini_decimal)
    finally show ?thesis .
  qed
  then show ?thesis unfolding vte_parser_def using mini_advance_append by simp
qed

lemma mini_text: "mini_advance Ground (replicate n CHR ''x'') = (replicate n OtherEvent, Ground)"
  by (induction n) simp_all

text \<open>A full scrollback cuts the sequence that turned on the application cursor keys in its middle.\<close>

theorem truncated_replay_restores_modes_witness:
  "\<exists>sn. snapshot_with_vt_diagnostics None None ''e'' ''r''
      (append_all mini_advance [CHR 0x1B # ''[?1h'', replicate (SCROLLBACK_LIMIT - 2) CHR ''x''] (output_init Ground)) = Some sn \<and>
    unat (sn_offset sn) = 3 \<and>
    ts_application_cursor (fold perform (fst (mini_advance Ground
      ((case sn_restore sn of None \<Rightarrow> [] | Some r \<Rightarrow> r) @ sn_replay sn))) terminal_state_default)"
proof -
  define n where "n = SCROLLBACK_LIMIT - 2"
  have n: "n + 2 = SCROLLBACK_LIMIT" "n < 2 ^ 63" by (simp_all add: n_def SCROLLBACK_LIMIT_def)
  let ?bs = "[CHR 0x1B # ''[?1h'', replicate n CHR ''x'']"
  let ?s = "append_all mini_advance ?bs (output_init Ground)"
  have len: "length (concat ?bs) < 2 ^ 64" using n by simp
  note s = append_all_sound [OF mini_vte_parser len]
  from snapshot_of_inv [OF s(1), of None None "''e''" "''r''"] obtain sn where
    sn: "snapshot_with_vt_diagnostics None None ''e'' ''r'' ?s = Some sn" by blast
  have "sn_offset sn = os_base ?s" using sn by (auto simp: snapshot_with_vt_diagnostics_def select_vt_def Let_def split: if_splits)
  then have off: "unat (sn_offset sn) = 3" using s(1) n by (simp add: output_inv_def)
  have "untitled (fold perform (fst (mini_advance Ground ((case sn_restore sn of None \<Rightarrow> [] | Some r \<Rightarrow> r) @ sn_replay sn))) terminal_state_default) =
      untitled (os_terminal ?s)"
    by (rule truncated_replay_restores_modes [OF mini_vte_parser len sn, of "CHR 0x1B # ''[?''" "''1h''" "replicate n CHR ''x''"])
      (use off in \<open>simp_all add: no_mode_def\<close>)
  moreover have "ts_application_cursor (os_terminal ?s)"
  proof -
    have "fold perform (replicate m OtherEvent) t = t" for m t by (induction m) simp_all
    then show ?thesis unfolding s(2) by (simp add: mini_text csi_dispatch_def set_private_mode_def)
  qed
  moreover have "ts_application_cursor t = ts_application_cursor (untitled t)" for t by (simp add: untitled_def)
  ultimately have "ts_application_cursor (fold perform (fst (mini_advance Ground
      ((case sn_restore sn of None \<Rightarrow> [] | Some r \<Rightarrow> r) @ sn_replay sn))) terminal_state_default)" by metis
  with sn off show ?thesis unfolding n_def by blast
qed

end
