(* ===== verification/Daemon_Control.thy ===== *)
theory Daemon_Control
  imports Daemon_Output
begin

text \<open>
  One runtime of the terminal daemon, \<open>crates/terminald/src/runtime/runtime/\<close>: its process
  metadata, the controller that may write input and resize, and the events its attachments receive.
  Every operation takes the runtime's locks, so it is one step; the answers of the pseudo terminal
  are parameters. The state also records the bytes the pseudo terminal took and the calls made to
  the VT worker, which the program hands to other components.
\<close>

section \<open>State\<close>

record owner =
  ow_attachment :: nat
  ow_generation :: u64

datatype runtime_event =
    EvOutput u64 string
  | EvOutputClosed
  | EvStatus pane_status "u32 option"
  | EvDeleted

datatype vt_call = VtWrite u64 string | VtResize u64 u16 u16 | VtDispose

record 'p runtime_obj =
  ro_id :: string
  ro_epoch :: string
  ro_spec :: runtime_spec
  ro_status :: pane_status
  ro_rows :: u16
  ro_cols :: u16
  ro_exit_code :: "u32 option"
  ro_deleted :: bool
  ro_output :: "'p output_state"
  ro_vt :: "vt_call list option"
  ro_events :: "runtime_event list"
  ro_generation :: u64
  ro_owner :: "owner option"
  ro_reaped :: bool
  ro_written :: "string list"
  ro_pty_size :: "u16 \<times> u16"

text \<open>The runtime \<open>spawn_runtime_blocking\<close> builds around a new child.\<close>

definition spawned_runtime :: "string \<Rightarrow> string \<Rightarrow> runtime_spec \<Rightarrow> bool \<Rightarrow> 'p \<Rightarrow> 'p runtime_obj" where
  "spawned_runtime rid epoch spec has_vt parser =
     \<lparr>ro_id = rid, ro_epoch = epoch, ro_spec = spec, ro_status = Running, ro_rows = rs_rows spec,
      ro_cols = rs_cols spec, ro_exit_code = None, ro_deleted = False, ro_output = output_init parser,
      ro_vt = (if has_vt then Some [] else None), ro_events = [], ro_generation = 0, ro_owner = None,
      ro_reaped = False, ro_written = [], ro_pty_size = (rs_rows spec, rs_cols spec)\<rparr>"

definition description :: "'p runtime_obj \<Rightarrow> runtime" where
  "description r =
     \<lparr>rt_id = ro_id r, rt_cwd = rs_cwd (ro_spec r), rt_shell = rs_shell (ro_spec r),
      rt_arguments = rs_arguments (ro_spec r), rt_environment = rs_environment (ro_spec r),
      rt_environment_remove = rs_environment_remove (ro_spec r), rt_status = ro_status r,
      rt_rows = ro_rows r, rt_cols = ro_cols r, rt_exit_code = ro_exit_code r\<rparr>"

definition emit :: "runtime_event \<Rightarrow> 'p runtime_obj \<Rightarrow> 'p runtime_obj" where
  "emit ev r = r\<lparr>ro_events := ro_events r @ [ev]\<rparr>"

definition vt_send :: "vt_call \<Rightarrow> 'p runtime_obj \<Rightarrow> 'p runtime_obj" where
  "vt_send c r = r\<lparr>ro_vt := map_option (\<lambda>cs. cs @ [c]) (ro_vt r)\<rparr>"

section \<open>Attaching\<close>

record claimed =
  cl_epoch :: string
  cl_offset :: u64
  cl_reset :: bool
  cl_replay :: string
  cl_replay_bytes :: nat
  cl_next :: u64
  cl_owner :: "owner option"
  cl_restore :: "string option"
  cl_restore_cols :: "u16 option"
  cl_restore_rows :: "u16 option"

datatype claim_outcome = Claimed claimed | Waiting | Unchanged

text \<open>The snapshot an attachment asks for; \<open>vt\<close> is what the VT session would return. A panic of the
  slice would poison the output lock.\<close>

definition attach_snapshot :: "u64 option \<Rightarrow> bool \<Rightarrow> vt_snapshot option \<Rightarrow> 'p runtime_obj
    \<Rightarrow> (terminald_error, output_snapshot) result" where
  "attach_snapshot after want_vt vt r =
     (let (v, reason) = (if \<not> want_vt then (None, ''capability_not_requested'')
                         else if ro_vt r \<noteq> None then (vt, ''snapshot_not_ready'')
                         else (None, ''worker_unavailable''))
      in ok_or (snapshot_with_vt_diagnostics after v (ro_epoch r) reason (ro_output r)) DPoisoned)"

definition attachment_of :: "string \<Rightarrow> output_snapshot \<Rightarrow> owner option \<Rightarrow> claimed" where
  "attachment_of epoch sn ow =
     \<lparr>cl_epoch = epoch, cl_offset = sn_offset sn, cl_reset = sn_reset sn, cl_replay = sn_replay sn,
      cl_replay_bytes = length (sn_replay sn), cl_next = sn_next sn, cl_owner = ow,
      cl_restore = sn_restore sn, cl_restore_cols = sn_restore_cols sn,
      cl_restore_rows = sn_restore_rows sn\<rparr>"

definition claim :: "nat \<Rightarrow> u64 option \<Rightarrow> bool \<Rightarrow> bool \<Rightarrow> vt_snapshot option \<Rightarrow> 'p runtime_obj
    \<Rightarrow> (terminald_error, claim_outcome) result \<times> 'p runtime_obj" where
  "claim attachment after force want_vt vt r =
     (if (case ro_owner r of Some ow \<Rightarrow> ow_attachment ow = attachment | None \<Rightarrow> False)
      then (Inr Unchanged, r)
      else if (case ro_owner r of Some ow \<Rightarrow> ow_attachment ow \<noteq> attachment | None \<Rightarrow> False) \<and> \<not> force
      then (Inr Waiting, r)
      else if ro_deleted r then (Inl (DNotFound (ro_id r)), r)
      else try_in (attach_snapshot after want_vt vt r) r (\<lambda>sn.
        case checked_add (ro_generation r) 1 of
          None \<Rightarrow> (Inl (DWorker ''controller generation overflow''), r)
        | Some g \<Rightarrow>
            let ow = \<lparr>ow_attachment = attachment, ow_generation = g\<rparr>
            in (Inr (Claimed (attachment_of (ro_epoch r) sn (Some ow))),
                r\<lparr>ro_generation := g, ro_owner := Some ow\<rparr>)))"

definition observe :: "u64 option \<Rightarrow> bool \<Rightarrow> vt_snapshot option \<Rightarrow> 'p runtime_obj
    \<Rightarrow> (terminald_error, claimed) result" where
  "observe after want_vt vt r =
     (if ro_deleted r then Inl (DNotFound (ro_id r))
      else rbind (attach_snapshot after want_vt vt r) (\<lambda>sn. Inr (attachment_of (ro_epoch r) sn None)))"

definition is_owner :: "owner \<Rightarrow> 'p runtime_obj \<Rightarrow> bool" where
  "is_owner ow r \<longleftrightarrow> ro_owner r = Some ow"

definition release :: "owner \<Rightarrow> 'p runtime_obj \<Rightarrow> 'p runtime_obj" where
  "release ow r = (if ro_owner r = Some ow then r\<lparr>ro_owner := None\<rparr> else r)"

section \<open>Input and output\<close>

text \<open>\<open>pty\<close> gives the bytes the pseudo terminal takes and the error, if any.\<close>

definition write_input :: "owner \<Rightarrow> string \<Rightarrow> (string \<Rightarrow> string \<times> string option) \<Rightarrow> 'p runtime_obj
    \<Rightarrow> (terminald_error, bool) result \<times> 'p runtime_obj" where
  "write_input ow bytes pty r =
     (if ro_owner r \<noteq> Some ow then (Inr False, r)
      else (case pty bytes of
          (taken, err) \<Rightarrow>
            let r' = r\<lparr>ro_written := ro_written r @ [taken]\<rparr>
            in (case err of Some e \<Rightarrow> (Inl (DIo e), r') | None \<Rightarrow> (Inr True, r'))))"

definition resize :: "owner \<Rightarrow> u16 \<Rightarrow> u16 \<Rightarrow> string option \<Rightarrow> 'p runtime_obj
    \<Rightarrow> (terminald_error, bool) result \<times> 'p runtime_obj" where
  "resize ow rows cols pty_error r =
     try_in (daemon_validate_dimensions rows cols) r (\<lambda>_.
     if ro_owner r \<noteq> Some ow then (Inr False, r)
     else if ro_status r \<noteq> Running then (Inl (DConflict (ro_id r)), r)
     else case pty_error of
       Some e \<Rightarrow> (Inl (DPty e), r)
     | None \<Rightarrow>
         (Inr True, (vt_send (VtResize (os_next (ro_output r)) cols rows) (r\<lparr>ro_pty_size := (rows, cols)\<rparr>))
                      \<lparr>ro_rows := rows, ro_cols := cols\<rparr>))"

definition runtime_append_output :: "('p \<Rightarrow> string \<Rightarrow> vte_event list \<times> 'p) \<Rightarrow> string \<Rightarrow> 'p runtime_obj
    \<Rightarrow> (terminald_error, unit) result \<times> 'p runtime_obj" where
  "runtime_append_output advance bytes r =
     (case append_output advance bytes (ro_output r) of
        (Inl e, s') \<Rightarrow> (Inl e, r\<lparr>ro_output := s'\<rparr>)
      | (Inr offset, s') \<Rightarrow>
          (Inr (), emit (EvOutput offset bytes) (vt_send (VtWrite offset bytes) (r\<lparr>ro_output := s'\<rparr>))))"

definition runtime_close_output :: "'p runtime_obj \<Rightarrow> 'p runtime_obj" where
  "runtime_close_output r = emit EvOutputClosed (r\<lparr>ro_output := close_output (ro_output r)\<rparr>)"

section \<open>Process lifecycle\<close>

definition mark_reaped :: "pane_status \<Rightarrow> u32 option \<Rightarrow> 'p runtime_obj \<Rightarrow> 'p runtime_obj" where
  "mark_reaped status exit_code r =
     (if \<not> ro_deleted r
      then (emit (EvStatus status exit_code) (r\<lparr>ro_status := status, ro_exit_code := exit_code\<rparr>))
             \<lparr>ro_reaped := True\<rparr>
      else r\<lparr>ro_reaped := True\<rparr>)"

definition notify_deleted :: "'p runtime_obj \<Rightarrow> 'p runtime_obj" where
  "notify_deleted r =
     (if ro_deleted r then r else emit EvDeleted (vt_send VtDispose (r\<lparr>ro_deleted := True\<rparr>)))"

text \<open>\<open>reaped_in_time\<close>: whether the child is reaped before the timeout of ten seconds.\<close>

definition force_delete_and_reap :: "bool \<Rightarrow> 'p runtime_obj \<Rightarrow> (terminald_error, unit) result \<times> 'p runtime_obj" where
  "force_delete_and_reap reaped_in_time r =
     (let r' = notify_deleted r
      in if ro_reaped r' then (Inr (), r')
         else if reaped_in_time then (Inr (), mark_reaped Interrupted None r')
         else (Inl (DWorker (''timed out reaping runtime '' @ ro_id r)), r'))"

section \<open>Runs\<close>

datatype 'p runtime_op =
    OpClaim nat "u64 option" bool bool "vt_snapshot option"
  | OpRelease owner
  | OpWrite owner string "string \<Rightarrow> string \<times> string option"
  | OpResize owner u16 u16 "string option"
  | OpOutput "'p \<Rightarrow> string \<Rightarrow> vte_event list \<times> 'p" string
  | OpClose
  | OpReaped pane_status "u32 option"
  | OpDelete

fun run_op :: "'p runtime_op \<Rightarrow> 'p runtime_obj \<Rightarrow> 'p runtime_obj" where
  "run_op (OpClaim a after force want vt) r = snd (claim a after force want vt r)"
| "run_op (OpRelease ow) r = release ow r"
| "run_op (OpWrite ow bytes pty) r = snd (write_input ow bytes pty r)"
| "run_op (OpResize ow rows cols e) r = snd (resize ow rows cols e r)"
| "run_op (OpOutput advance bytes) r = snd (runtime_append_output advance bytes r)"
| "run_op OpClose r = runtime_close_output r"
| "run_op (OpReaped status code) r = mark_reaped status code r"
| "run_op OpDelete r = notify_deleted r"

definition run_ops :: "'p runtime_op list \<Rightarrow> 'p runtime_obj \<Rightarrow> 'p runtime_obj" where
  "run_ops ops r = fold run_op ops r"

section \<open>Fencing\<close>

lemma run_ops_simps [simp]:
  "run_ops [] r = r" "run_ops (op # ops) r = run_ops ops (run_op op r)"
  by (simp_all add: run_ops_def)

lemma run_ops_append: "run_ops (xs @ ys) r = run_ops ys (run_ops xs r)"
  by (simp add: run_ops_def)

lemma run_ops_induct:
  assumes "P r" "\<And>op r. P r \<Longrightarrow> P (run_op op r)"
  shows "P (run_ops ops r)"
  using assms(1) by (induction ops arbitrary: r) (simp_all add: assms(2))

text \<open>What each operation does to the controller.\<close>

lemma claim_controller:
  "claim a after force want vt r = (res, r') \<Longrightarrow>
     (ro_owner r' = ro_owner r \<and> ro_generation r' = ro_generation r) \<or>
     (\<exists>g. checked_add (ro_generation r) 1 = Some g \<and> ro_generation r' = g \<and>
        ro_owner r' = Some \<lparr>ow_attachment = a, ow_generation = g\<rparr>)"
  by (auto simp: claim_def try_in_def Let_def split: if_splits option.splits sum.splits)

lemma controller_other_ops [simp]:
  "ro_owner (emit ev r) = ro_owner r" "ro_generation (emit ev r) = ro_generation r"
  "ro_owner (vt_send c r) = ro_owner r" "ro_generation (vt_send c r) = ro_generation r"
  by (simp_all add: emit_def vt_send_def)

lemma run_op_controller:
  "(ro_owner (run_op op r) = ro_owner r \<or> ro_owner (run_op op r) = None) \<and>
     ro_generation (run_op op r) = ro_generation r \<or>
   (\<exists>g a. checked_add (ro_generation r) 1 = Some g \<and> ro_generation (run_op op r) = g \<and>
      ro_owner (run_op op r) = Some \<lparr>ow_attachment = a, ow_generation = g\<rparr>)"
proof (cases op)
  case (OpClaim a after force want vt)
  obtain res r' where "claim a after force want vt r = (res, r')" by force
  with OpClaim claim_controller [OF this] show ?thesis by auto
next
  case (OpOutput advance bytes)
  then show ?thesis by (auto simp: runtime_append_output_def split: prod.splits sum.splits)
qed (auto simp: release_def write_input_def resize_def runtime_close_output_def mark_reaped_def
    notify_deleted_def try_in_def Let_def split: option.splits prod.splits sum.splits)

definition stale_owner :: "owner \<Rightarrow> 'p runtime_obj \<Rightarrow> bool" where
  "stale_owner ow r \<longleftrightarrow> ro_owner r \<noteq> Some ow \<and> ow_generation ow \<le> ro_generation r"

lemma generation_less: "checked_add (g :: u64) 1 = Some h \<Longrightarrow> g < h"
  using checked_add_Some [of g 1 h] by (simp add: word_less_nat_alt)

lemma stale_owner_run_op: "stale_owner ow r \<Longrightarrow> stale_owner ow (run_op op r)"
  using run_op_controller [of op r] generation_less [of "ro_generation r"]
  unfolding stale_owner_def by (auto dest: less_le_not_le [THEN iffD1])

lemma stale_owner_run_ops: "stale_owner ow r \<Longrightarrow> stale_owner ow (run_ops ops r)"
  by (rule run_ops_induct) (auto intro: stale_owner_run_op)

definition controller_inv :: "'p runtime_obj \<Rightarrow> bool" where
  "controller_inv r \<longleftrightarrow> (\<forall>ow. ro_owner r = Some ow \<longrightarrow> ow_generation ow \<le> ro_generation r)"

lemma controller_inv_run_op: "controller_inv r \<Longrightarrow> controller_inv (run_op op r)"
  using run_op_controller [of op r] unfolding controller_inv_def by auto

lemma controller_inv_run_ops: "controller_inv r \<Longrightarrow> controller_inv (run_ops ops r)"
  by (rule run_ops_induct) (auto intro: controller_inv_run_op)

lemma controller_inv_spawned: "controller_inv (spawned_runtime i e spec v p)"
  by (simp add: controller_inv_def spawned_runtime_def)

lemma claimed_stale:
  assumes inv: "controller_inv r" and ow: "ro_owner r = Some ow"
    and c: "claim a after force want vt r = (Inr (Claimed cl), r')"
  shows "stale_owner ow r'"
proof -
  from c obtain g where g: "checked_add (ro_generation r) 1 = Some g" "ro_generation r' = g"
    "ro_owner r' = Some \<lparr>ow_attachment = a, ow_generation = g\<rparr>"
    by (auto simp: claim_def try_in_def Let_def split: if_splits option.splits sum.splits)
  from inv ow have "ow_generation ow \<le> ro_generation r" by (simp add: controller_inv_def)
  with generation_less [OF g(1)] g show ?thesis
    by (auto simp: stale_owner_def dest: less_le_not_le [THEN iffD1])
qed

text \<open>C19: A controller that was replaced is fenced off: after another attachment has claimed the terminal,
  whatever operations follow, the old controller's input is refused and reaches the pseudo terminal
  not even in part, it cannot resize, and its release takes nothing from the new controller.\<close>

theorem superseded_controller_is_fenced:
  assumes r: "r = run_ops ops (spawned_runtime i e spec v p)"
    and old: "ro_owner r = Some ow"
    and c: "claim a after force want vt r = (Inr (Claimed cl), r')"
  shows "write_input ow bytes pty (run_ops ops' r') = (Inr False, run_ops ops' r') \<and>
    fst (resize ow rows cols err (run_ops ops' r')) \<noteq> Inr True \<and>
    snd (resize ow rows cols err (run_ops ops' r')) = run_ops ops' r' \<and>
    release ow (run_ops ops' r') = run_ops ops' r'"
proof (intro conjI)
  have "controller_inv r" unfolding r by (intro controller_inv_run_ops controller_inv_spawned)
  from stale_owner_run_ops [OF claimed_stale [OF this old c]]
  have ne: "ro_owner (run_ops ops' r') \<noteq> Some ow" by (simp add: stale_owner_def)
  then show "write_input ow bytes pty (run_ops ops' r') = (Inr False, run_ops ops' r')"
    "release ow (run_ops ops' r') = run_ops ops' r'"
    by (simp_all add: write_input_def release_def)
  from ne show "fst (resize ow rows cols err (run_ops ops' r')) \<noteq> Inr True"
    "snd (resize ow rows cols err (run_ops ops' r')) = run_ops ops' r'"
    by (auto simp: resize_def try_in_def split: sum.splits)
qed

definition sample_spec :: runtime_spec where
  "sample_spec = \<lparr>rs_cwd = ''/w'', rs_shell = ''/bin/sh'', rs_arguments = [], rs_environment = fmempty,
     rs_environment_remove = [], rs_rows = 24, rs_cols = 80\<rparr>"

lemmas sample_defs = sample_spec_def spawned_runtime_def claim_def attach_snapshot_def
  snapshot_with_vt_diagnostics_def select_vt_def output_init_def checked_add_def Let_def

theorem superseded_controller_is_fenced_witness:
  "let r = run_ops [OpClaim 1 None False False None] (spawned_runtime ''t'' ''e'' sample_spec False ());
       r' = snd (claim 2 None True False None r)
   in write_input \<lparr>ow_attachment = 1, ow_generation = 1\<rparr> ''ls'' (\<lambda>b. (b, None)) (run_ops [OpClose] r') =
      (Inr False, run_ops [OpClose] r')"
proof -
  let ?r = "run_ops [OpClaim 1 None False False None] (spawned_runtime ''t'' ''e'' sample_spec False ())"
  have old: "ro_owner ?r = Some \<lparr>ow_attachment = 1, ow_generation = 1\<rparr>"
    by (simp add: sample_defs)
  obtain cl r' where c: "claim 2 None True False None ?r = (Inr (Claimed cl), r')"
    by (simp add: sample_defs)
  from superseded_controller_is_fenced [OF refl old c, of "''ls''" "\<lambda>b. (b, None)" "[OpClose]", THEN conjunct1] c
  show ?thesis by (simp only: Let_def snd_conv)
qed

section \<open>Sizes\<close>

definition size_inv :: "'p runtime_obj \<Rightarrow> bool" where
  "size_inv r \<longleftrightarrow> daemon_validate_dimensions (ro_rows r) (ro_cols r) = Inr () \<and>
     ro_pty_size r = (ro_rows r, ro_cols r)"

lemma size_other_ops [simp]:
  "ro_rows (emit ev r) = ro_rows r" "ro_cols (emit ev r) = ro_cols r" "ro_pty_size (emit ev r) = ro_pty_size r"
  "ro_rows (vt_send c r) = ro_rows r" "ro_cols (vt_send c r) = ro_cols r"
  "ro_pty_size (vt_send c r) = ro_pty_size r"
  by (simp_all add: emit_def vt_send_def)

lemma size_inv_run_op: "size_inv r \<Longrightarrow> size_inv (run_op op r)"
proof (cases op)
  case (OpOutput advance bytes)
  moreover assume "size_inv r"
  ultimately show ?thesis
    by (auto simp: size_inv_def runtime_append_output_def split: prod.splits sum.splits)
qed (auto simp: size_inv_def claim_def release_def write_input_def resize_def runtime_close_output_def
    mark_reaped_def notify_deleted_def try_in_def Let_def split: option.splits prod.splits sum.splits)

text \<open>The size a runtime reports is always the size of its pseudo terminal, and between 1 and 1000 in
  both directions, from the validated creation on and over any operations.\<close>

lemma reported_size_is_pty_size:
  assumes "validate_spec fs spec = Inr ()"
  shows "let r = run_ops ops (spawned_runtime i e spec v p)
         in ro_pty_size r = (rt_rows (description r), rt_cols (description r)) \<and>
            1 \<le> ro_rows r \<and> ro_rows r \<le> 1000 \<and> 1 \<le> ro_cols r \<and> ro_cols r \<le> 1000"
proof -
  have "daemon_validate_dimensions (rs_rows spec) (rs_cols spec) = Inr ()"
    using assms by (auto simp: validate_spec_def result_simps)
  then have "size_inv (spawned_runtime i e spec v p)"
    by (simp add: size_inv_def spawned_runtime_def)
  then have "size_inv (run_ops ops (spawned_runtime i e spec v p))"
    by (rule run_ops_induct) (rule size_inv_run_op)
  then show ?thesis
    by (auto simp: size_inv_def Let_def description_def daemon_validate_dimensions_def split: if_splits)
qed

lemma reported_size_is_pty_size_witness:
  "validate_spec \<lparr>fs_dir = \<lambda>_. Inr True, fs_exec = \<lambda>_. Inr True\<rparr> sample_spec = Inr () \<and>
   (let r = run_ops [OpClaim 1 None False False None] (spawned_runtime ''t'' ''e'' sample_spec False ())
    in ro_pty_size r = (rt_rows (description r), rt_cols (description r)))"
proof
  show v: "validate_spec \<lparr>fs_dir = \<lambda>_. Inr True, fs_exec = \<lambda>_. Inr True\<rparr> sample_spec = Inr ()"
    by (simp add: validate_spec_def sample_spec_def daemon_validate_dimensions_def path_is_absolute_def
        fcard.rep_eq)
  show "let r = run_ops [OpClaim 1 None False False None] (spawned_runtime ''t'' ''e'' sample_spec False ())
    in ro_pty_size r = (rt_rows (description r), rt_cols (description r))"
    using reported_size_is_pty_size [OF v, of "[OpClaim 1 None False False None]" "''t''" "''e''" False "()"]
    by (simp only: Let_def simp_thms)
qed

end
