(* ===== verification/Daemon_Stream.thy ===== *)
theory Daemon_Stream
  imports Daemon_Control
begin

text \<open>
  The output side of an attachment, \<open>crates/terminald/src/runtime/websocket/\<close>:
  \<open>send.rs\<close>, \<open>replay.rs\<close>, \<open>initialization.rs\<close> and \<open>stream.rs\<close>. The
  runtime keeps running between any two steps of the attachment: \<open>world n\<close> is the runtime at the
  attachment's n-th access, and \<open>ok n\<close> says whether the send at that moment succeeds before its
  timeout. A broadcast receiver is the position in the runtime's event log of the next event it
  delivers; a lagging receiver has lost some events. The loop that catches up has no bound in the code; the
  model counts its passes with fuel, and running out of it (\<open>OutOfFuel\<close>) is a result of its own, never a normal end.
\<close>

section \<open>Sending\<close>

datatype message =
    MBinary string
  | MStream string u64 bool nat "string option" "u16 option" "u16 option"
  | MStatus pane_status "u32 option"
  | MError string

record session =
  ss_now :: nat
  ss_sent :: "message list"

definition tick :: "session \<Rightarrow> session" where
  "tick s = s\<lparr>ss_now := Suc (ss_now s)\<rparr>"

definition bounded_send :: "(nat \<Rightarrow> bool) \<Rightarrow> message \<Rightarrow> session \<Rightarrow> bool \<times> session" where
  "bounded_send ok m s =
     (if ok (ss_now s) then (True, tick (s\<lparr>ss_sent := ss_sent s @ [m]\<rparr>)) else (False, tick s))"

definition send_owned :: "(nat \<Rightarrow> 'p runtime_obj) \<Rightarrow> (nat \<Rightarrow> bool) \<Rightarrow> owner \<Rightarrow> message \<Rightarrow> session
    \<Rightarrow> bool \<times> session" where
  "send_owned world ok ow m s =
     (if \<not> is_owner ow (world (ss_now s))
      then (False, snd (bounded_send ok (MError ''attachment_superseded'') (tick s)))
      else bounded_send ok m (tick s))"

definition send_stream :: "(nat \<Rightarrow> 'p runtime_obj) \<Rightarrow> (nat \<Rightarrow> bool) \<Rightarrow> owner option \<Rightarrow> message \<Rightarrow> session
    \<Rightarrow> bool \<times> session" where
  "send_stream world ok owner m s =
     (case owner of Some ow \<Rightarrow> send_owned world ok ow m s | None \<Rightarrow> bounded_send ok m s)"

definition REPLAY_CHUNK_SIZE :: nat where "REPLAY_CHUNK_SIZE = 64 * 1024"

function chunks_of :: "nat \<Rightarrow> 'a list \<Rightarrow> 'a list list" where
  "chunks_of n xs = (if xs = [] \<or> n = 0 then [] else take n xs # chunks_of n (drop n xs))"
  by pat_completeness auto
termination by (relation "measure (\<lambda>(n, xs). length xs)") auto

declare chunks_of.simps [simp del]

definition replay_chunks :: "string \<Rightarrow> string list" where
  "replay_chunks replay = chunks_of REPLAY_CHUNK_SIZE replay"

section \<open>Catching up\<close>

text \<open>What a step of an attachment gives: it goes on, it ended, or the loop used up its fuel.\<close>

datatype 'a step = OutOfFuel | Ended session | Go 'a session

text \<open>The loop over the chunks, with the check for deletion before each of them.\<close>

fun send_chunks_checked :: "(nat \<Rightarrow> 'p runtime_obj) \<Rightarrow> (nat \<Rightarrow> bool) \<Rightarrow> owner option \<Rightarrow> string list
    \<Rightarrow> session \<Rightarrow> bool \<times> session" where
  "send_chunks_checked world ok owner [] s = (True, s)"
| "send_chunks_checked world ok owner (c # cs) s =
     (if ro_deleted (world (ss_now s))
      then (False, snd (send_stream world ok owner (MError ''terminal_deleted'') (tick s)))
      else (case send_stream world ok owner (MBinary c) (tick s) of
              (False, s') \<Rightarrow> (False, s')
            | (True, s') \<Rightarrow> send_chunks_checked world ok owner cs s'))"

fun send_chunks :: "(nat \<Rightarrow> 'p runtime_obj) \<Rightarrow> (nat \<Rightarrow> bool) \<Rightarrow> owner option \<Rightarrow> string list
    \<Rightarrow> session \<Rightarrow> bool \<times> session" where
  "send_chunks world ok owner [] s = (True, s)"
| "send_chunks world ok owner (c # cs) s =
     (case send_stream world ok owner (MBinary c) s of
        (False, s') \<Rightarrow> (False, s')
      | (True, s') \<Rightarrow> send_chunks world ok owner cs s')"

text \<open>\<open>snapshot_and_subscribe\<close>: the suffix and a receiver for everything after it.\<close>

definition snapshot_and_subscribe :: "u64 \<Rightarrow> 'p runtime_obj
    \<Rightarrow> (terminald_error, output_snapshot \<times> nat) result" where
  "snapshot_and_subscribe after r =
     (case snapshot_after after (ro_output r) of
        None \<Rightarrow> Inl DPoisoned | Some sn \<Rightarrow> Inr (sn, length (ro_events r)))"

fun catch_up_stream :: "nat \<Rightarrow> (nat \<Rightarrow> 'p runtime_obj) \<Rightarrow> (nat \<Rightarrow> bool) \<Rightarrow> owner option \<Rightarrow> u64
    \<Rightarrow> session \<Rightarrow> (u64 \<times> nat \<times> bool) step" where
  "catch_up_stream 0 world ok owner expected s = OutOfFuel"
| "catch_up_stream (Suc fuel) world ok owner expected s =
     (if ro_deleted (world (ss_now s))
      then Ended (snd (send_stream world ok owner (MError ''terminal_deleted'') (tick s)))
      else let s1 = tick s in
      case snapshot_and_subscribe expected (world (ss_now s1)) of
        Inl e \<Rightarrow> Ended (snd (send_stream world ok owner (MError ''output_gap'') (tick s1)))
      | Inr (sn, events) \<Rightarrow>
          let s2 = tick s1 in
          if ro_deleted (world (ss_now s2))
          then Ended (snd (send_stream world ok owner (MError ''terminal_deleted'') (tick s2)))
          else if sn_reset sn
          then Ended (snd (send_stream world ok owner (MError ''output_gap'') (tick s2)))
          else if sn_replay sn = [] then Go (sn_next sn, events, sn_closed sn) (tick s2)
          else (case send_chunks_checked world ok owner (replay_chunks (sn_replay sn)) (tick s2) of
                  (False, s3) \<Rightarrow> Ended s3
                | (True, s3) \<Rightarrow> catch_up_stream fuel world ok owner (sn_next sn) s3))"

section \<open>The active stream\<close>

record active_stream =
  ac_owner :: "owner option"
  ac_expected :: u64
  ac_closed :: bool
  ac_pending :: "(pane_status \<times> u32 option) option"
  ac_events :: nat

definition initialize :: "nat \<Rightarrow> (nat \<Rightarrow> 'p runtime_obj) \<Rightarrow> (nat \<Rightarrow> bool) \<Rightarrow> claimed \<Rightarrow> session
    \<Rightarrow> active_stream step" where
  "initialize fuel world ok cl s =
     (let owner = cl_owner cl in
      case send_stream world ok owner
          (MStream (cl_epoch cl) (cl_offset cl) (cl_reset cl) (cl_replay_bytes cl) (cl_restore cl)
            (cl_restore_cols cl) (cl_restore_rows cl)) s of
        (False, s1) \<Rightarrow> Ended s1
      | (True, s1) \<Rightarrow>
      (case send_chunks world ok owner (replay_chunks (cl_replay cl)) s1 of
         (False, s2) \<Rightarrow> Ended s2
       | (True, s2) \<Rightarrow>
      (case catch_up_stream fuel world ok owner (cl_next cl) s2 of
         OutOfFuel \<Rightarrow> OutOfFuel
       | Ended s3 \<Rightarrow> Ended s3
       | Go (expected, events, eof) s3 \<Rightarrow>
           let d = description (world (ss_now s3));
               s4 = tick s3;
               pending = (if rt_status d \<noteq> Running then Some (rt_status d, rt_exit_code d) else None);
               ac = \<lparr>ac_owner = owner, ac_expected = expected, ac_closed = eof,
                     ac_pending = pending, ac_events = events\<rparr>
           in if rt_status d = Running
              then (case send_stream world ok owner (MStatus (rt_status d) None) s4 of
                      (False, s5) \<Rightarrow> Ended s5
                    | (True, s5) \<Rightarrow> Go ac s5)
              else if eof
              then Ended (snd (send_stream world ok owner (MStatus (rt_status d) (rt_exit_code d)) s4))
              else Go ac s4)))"

datatype received = RecvEvent runtime_event | RecvLagged | RecvClosed

definition handle_runtime_event :: "nat \<Rightarrow> (nat \<Rightarrow> 'p runtime_obj) \<Rightarrow> (nat \<Rightarrow> bool) \<Rightarrow> received
    \<Rightarrow> active_stream \<Rightarrow> session \<Rightarrow> active_stream step" where
  "handle_runtime_event fuel world ok ev ac s =
     (let fin = (\<lambda>m s. Ended (snd (send_stream world ok (ac_owner ac) m s))) in
      case ev of
        RecvEvent (EvOutput offset bytes) \<Rightarrow>
          if offset \<noteq> ac_expected ac then fin (MError ''output_gap'') s
          else (case (if length bytes < 2 ^ 64 then checked_add (ac_expected ac) (of_nat (length bytes)) else None) of
             None \<Rightarrow> fin (MError ''output_gap'') s
           | Some nx \<Rightarrow>
               (case send_stream world ok (ac_owner ac) (MBinary bytes) s of
                  (False, s') \<Rightarrow> Ended s'
                | (True, s') \<Rightarrow> Go (ac\<lparr>ac_expected := nx\<rparr>) s'))
      | RecvEvent (EvStatus status code) \<Rightarrow>
          if ac_closed ac then fin (MStatus status code) s
          else Go (ac\<lparr>ac_pending := Some (status, code)\<rparr>) s
      | RecvEvent EvOutputClosed \<Rightarrow>
          (case ac_pending ac of
             Some (status, code) \<Rightarrow> fin (MStatus status code) s
           | None \<Rightarrow> Go (ac\<lparr>ac_closed := True\<rparr>) s)
      | RecvEvent EvDeleted \<Rightarrow> fin (MError ''terminal_deleted'') s
      | RecvClosed \<Rightarrow> Ended s
      | RecvLagged \<Rightarrow>
          (case catch_up_stream fuel world ok (ac_owner ac) (ac_expected ac) s of
             OutOfFuel \<Rightarrow> OutOfFuel
           | Ended s1 \<Rightarrow> Ended s1
           | Go (expected, events, eof) s1 \<Rightarrow>
               let ac1 = ac\<lparr>ac_expected := expected, ac_events := events,
                            ac_closed := (ac_closed ac \<or> eof)\<rparr>
               in if ro_deleted (world (ss_now s1))
                  then fin (MError ''terminal_deleted'') (tick s1)
                  else let s2 = tick s1;
                           d = description (world (ss_now s2));
                           s3 = tick s2;
                           pending = (if rt_status d \<noteq> Running then Some (rt_status d, rt_exit_code d)
                                      else ac_pending ac1)
                       in (case (ac_closed ac1, pending) of
                             (True, Some (status, code)) \<Rightarrow> fin (MStatus status code) s3
                           | _ \<Rightarrow> Go (ac1\<lparr>ac_pending := pending\<rparr>) s3)))"

text \<open>The receiver delivers the event at its position, or reports that it lagged.\<close>

definition receive :: "(nat \<Rightarrow> 'p runtime_obj) \<Rightarrow> bool \<Rightarrow> active_stream \<Rightarrow> session
    \<Rightarrow> (received \<times> active_stream \<times> session) option" where
  "receive world lagged ac s =
     (let events = ro_events (world (ss_now s))
      in if \<not> ac_events ac < length events then None
         else if lagged then Some (RecvLagged, ac, tick s)
         else Some (RecvEvent (events ! ac_events ac), ac\<lparr>ac_events := Suc (ac_events ac)\<rparr>, tick s))"

text \<open>The event side of the socket loop: \<open>turns\<close> says for each turn whether the receiver lagged; a
  turn without an event leaves the stream as it is.\<close>

fun stream_events :: "nat \<Rightarrow> (nat \<Rightarrow> 'p runtime_obj) \<Rightarrow> (nat \<Rightarrow> bool) \<Rightarrow> bool list \<Rightarrow> active_stream
    \<Rightarrow> session \<Rightarrow> active_stream step" where
  "stream_events fuel world ok [] ac s = Go ac s"
| "stream_events fuel world ok (lagged # turns) ac s =
     (case receive world lagged ac s of
        None \<Rightarrow> stream_events fuel world ok turns ac (tick s)
      | Some (ev, ac', s') \<Rightarrow>
          (case handle_runtime_event fuel world ok ev ac' s' of
             OutOfFuel \<Rightarrow> OutOfFuel
           | Ended s'' \<Rightarrow> Ended s''
           | Go ac'' s'' \<Rightarrow> stream_events fuel world ok turns ac'' s''))"

section \<open>The event log is the stream\<close>

definition event_bytes :: "runtime_event \<Rightarrow> string" where
  "event_bytes ev = (case ev of EvOutput off b \<Rightarrow> b | _ \<Rightarrow> [])"

definition payload :: "runtime_event list \<Rightarrow> string" where
  "payload evs = concat (map event_bytes evs)"

lemma payload_simps [simp]:
  "payload [] = []" "payload (ev # evs) = event_bytes ev @ payload evs"
  "payload (xs @ ys) = payload xs @ payload ys"
  by (simp_all add: payload_def)

lemma event_bytes_simps [simp]:
  "event_bytes (EvOutput off b) = b" "event_bytes EvOutputClosed = []"
  "event_bytes (EvStatus st c) = []" "event_bytes EvDeleted = []"
  by (simp_all add: event_bytes_def)

text \<open>Every output event carries the position of its bytes in the stream.\<close>

definition offsets_ok :: "runtime_event list \<Rightarrow> bool" where
  "offsets_ok evs \<longleftrightarrow> (\<forall>i<length evs. \<forall>off b. evs ! i = EvOutput off b \<longrightarrow>
     unat off = length (payload (take i evs)))"

lemma offsets_ok_snoc:
  "offsets_ok (evs @ [ev]) \<longleftrightarrow> offsets_ok evs \<and>
     (\<forall>off b. ev = EvOutput off b \<longrightarrow> unat off = length (payload evs))"
  unfolding offsets_ok_def length_append_singleton All_less_Suc
  by (auto simp: nth_append)

definition log_inv :: "'p runtime_obj \<Rightarrow> bool" where
  "log_inv r \<longleftrightarrow> output_inv SCROLLBACK_LIMIT (payload (ro_events r)) (ro_output r) \<and>
     offsets_ok (ro_events r)"

lemma log_other_ops [simp]:
  "ro_events (emit ev r) = ro_events r @ [ev]" "ro_output (emit ev r) = ro_output r"
  "ro_events (vt_send c r) = ro_events r" "ro_output (vt_send c r) = ro_output r"
  by (simp_all add: emit_def vt_send_def)

lemma output_inv_close [simp]: "output_inv l h (close_output s) = output_inv l h s"
  by (simp add: output_inv_def close_output_def)

lemma output_inv_parser: "output_inv l h (s\<lparr>os_parser := q, os_terminal := t\<rparr>) = output_inv l h s"
  by (simp add: output_inv_def)

lemma append_output_fails:
  assumes "output_inv SCROLLBACK_LIMIT hist s" "2 ^ 64 \<le> length hist + length bytes"
  shows "\<exists>e q t. append_output advance bytes s = (Inl e, s\<lparr>os_parser := q, os_terminal := t\<rparr>)"
proof -
  obtain ev q where a: "advance (os_parser s) bytes = (ev, q)" by force
  show ?thesis
    unfolding append_output_def a Let_def prod.case
    using append_bytes_overflow [OF _ assms(2), of SCROLLBACK_LIMIT
        "s\<lparr>os_parser := q, os_terminal := fold perform ev (os_terminal s)\<rparr>"] assms(1)
    by (auto simp: output_inv_parser)
qed

lemma log_inv_append:
  assumes "log_inv r"
  shows "log_inv (snd (runtime_append_output advance bytes r)) \<and>
    (\<exists>evs. ro_events (snd (runtime_append_output advance bytes r)) = ro_events r @ evs)"
proof -
  let ?h = "payload (ro_events r)"
  from assms have inv: "output_inv SCROLLBACK_LIMIT ?h (ro_output r)" and off: "offsets_ok (ro_events r)"
    by (simp_all add: log_inv_def)
  show ?thesis
  proof (cases "length ?h + length bytes < 2 ^ 64")
    case True
    from append_output_ok [OF inv this, of advance] obtain s' where
      s': "append_output advance bytes (ro_output r) = (Inr (os_next (ro_output r)), s')"
        "output_inv SCROLLBACK_LIMIT (?h @ bytes) s'" by blast
    from inv have "unat (os_next (ro_output r)) = length ?h" by (simp add: output_inv_def)
    with s' off show ?thesis
      by (simp add: runtime_append_output_def log_inv_def offsets_ok_snoc)
  next
    case False
    then have "2 ^ 64 \<le> length ?h + length bytes" by simp
    from append_output_fails [OF inv this, of advance] inv off show ?thesis
      by (auto simp: runtime_append_output_def log_inv_def output_inv_parser)
  qed
qed

lemma log_inv_run_op:
  assumes "log_inv r"
  shows "log_inv (run_op op r) \<and> (\<exists>evs. ro_events (run_op op r) = ro_events r @ evs)"
proof (cases op)
  case (OpOutput advance bytes)
  with log_inv_append [OF assms] show ?thesis by simp
next
  case (OpResize ow rows cols e)
  with assms show ?thesis
    by (auto simp: resize_def try_in_def log_inv_def split: sum.splits option.splits)
next
  case (OpReaped st c)
  with assms show ?thesis
    by (auto simp: mark_reaped_def log_inv_def offsets_ok_snoc)
next
  case OpDelete
  with assms show ?thesis
    by (auto simp: notify_deleted_def log_inv_def offsets_ok_snoc)
qed (use assms in \<open>auto simp: claim_def release_def write_input_def runtime_close_output_def try_in_def
      log_inv_def offsets_ok_snoc Let_def split: option.splits prod.splits sum.splits\<close>)

lemma log_inv_run_ops:
  "log_inv r \<Longrightarrow> log_inv (run_ops ops r) \<and> (\<exists>evs. ro_events (run_ops ops r) = ro_events r @ evs)"
proof (induction ops arbitrary: r)
  case (Cons op ops)
  from log_inv_run_op [OF Cons.prems, of op] obtain evs where
    "log_inv (run_op op r)" "ro_events (run_op op r) = ro_events r @ evs" by blast
  with Cons.IH [of "run_op op r"] show ?case by auto
qed simp

lemma log_inv_spawned: "log_inv (spawned_runtime i e spec v p)"
  by (simp add: log_inv_def spawned_runtime_def output_inv_init offsets_ok_def)

text \<open>A schedule: the runtime at the successive accesses of an attachment, with any operations between
  two of them.\<close>

definition schedule :: "(nat \<Rightarrow> 'p runtime_obj) \<Rightarrow> bool" where
  "schedule world \<longleftrightarrow>
     (\<exists>i e spec v p ops. world 0 = run_ops ops (spawned_runtime i e spec v p)) \<and>
     (\<forall>n. \<exists>ops. world (Suc n) = run_ops ops (world n))"

lemma schedule_log_inv: "schedule world \<Longrightarrow> log_inv (world n)"
proof (induction n)
  case 0
  then obtain i e spec v p ops where "world 0 = run_ops ops (spawned_runtime i e spec v p)"
    by (auto simp: schedule_def)
  with log_inv_run_ops [OF log_inv_spawned, of ops i e spec v p] show ?case by simp
next
  case (Suc n)
  then obtain ops where "world (Suc n) = run_ops ops (world n)" by (auto simp: schedule_def)
  with log_inv_run_ops [of "world n" ops] Suc show ?case by simp
qed

definition events_at :: "(nat \<Rightarrow> 'p runtime_obj) \<Rightarrow> nat \<Rightarrow> runtime_event list" where
  "events_at world n = ro_events (world n)"

lemma schedule_extends:
  assumes "schedule world" "n \<le> m"
  shows "\<exists>evs. events_at world m = events_at world n @ evs"
  using assms(2)
proof (induction m rule: dec_induct)
  case (step m)
  from assms(1) obtain ops where "world (Suc m) = run_ops ops (world m)" by (auto simp: schedule_def)
  with log_inv_run_ops [OF schedule_log_inv [OF assms(1), of m], of ops] step.IH show ?case
    by (auto simp: events_at_def)
qed simp

lemma schedule_take:
  "schedule world \<Longrightarrow> n \<le> m \<Longrightarrow> k \<le> length (events_at world n) \<Longrightarrow>
     take k (events_at world m) = take k (events_at world n)"
  using schedule_extends [of world n m] by auto

lemma schedule_length: "schedule world \<Longrightarrow> n \<le> m \<Longrightarrow> length (events_at world n) \<le> length (events_at world m)"
  using schedule_extends [of world n m] by auto

lemma schedule_payload_prefix:
  "schedule world \<Longrightarrow> n \<le> m \<Longrightarrow> prefix (payload (events_at world n)) (payload (events_at world m))"
  using schedule_extends [of world n m] by auto

section \<open>What an attachment has received\<close>

definition message_bytes :: "message \<Rightarrow> string" where
  "message_bytes m = (case m of MBinary b \<Rightarrow> b | _ \<Rightarrow> [])"

definition received_bytes :: "session \<Rightarrow> string" where
  "received_bytes s = concat (map message_bytes (ss_sent s))"

lemma message_bytes_simps [simp]:
  "message_bytes (MBinary b) = b" "message_bytes (MStream x1 x2 x3 x4 x5 x6 x7) = []"
  "message_bytes (MStatus st c) = []" "message_bytes (MError e) = []"
  by (simp_all add: message_bytes_def)

lemma tick_simps [simp]:
  "ss_now (tick s) = Suc (ss_now s)" "received_bytes (tick s) = received_bytes s"
  by (simp_all add: tick_def received_bytes_def)

lemma bounded_send_effect:
  "bounded_send ok m s = (b, s') \<Longrightarrow> ss_now s' = Suc (ss_now s) \<and>
     received_bytes s' = (if b then received_bytes s @ message_bytes m else received_bytes s)"
  by (auto simp: bounded_send_def tick_def received_bytes_def split: if_splits)

lemma send_stream_effect:
  assumes "send_stream world ok owner m s = (b, s')"
  shows "ss_now s \<le> ss_now s'"
    and "received_bytes s' = (if b then received_bytes s @ message_bytes m else received_bytes s)"
proof -
  have "ss_now s \<le> ss_now s' \<and>
    received_bytes s' = (if b then received_bytes s @ message_bytes m else received_bytes s)"
  proof (cases owner)
    case None
    with assms bounded_send_effect [of ok m s b s'] show ?thesis by (simp add: send_stream_def)
  next
    case (Some ow)
    show ?thesis
    proof (cases "is_owner ow (world (ss_now s))")
      case True
      with Some assms bounded_send_effect [of ok m "tick s" b s'] show ?thesis
        by (simp add: send_stream_def send_owned_def)
    next
      case False
      obtain b' t where t: "bounded_send ok (MError ''attachment_superseded'') (tick s) = (b', t)" by force
      from bounded_send_effect [OF this] Some False assms t show ?thesis
        by (auto simp: send_stream_def send_owned_def split: if_splits)
    qed
  qed
  then show "ss_now s \<le> ss_now s'"
    "received_bytes s' = (if b then received_bytes s @ message_bytes m else received_bytes s)" by auto
qed

lemma send_stream_later: "ss_now s \<le> ss_now (snd (send_stream world ok owner m s))"
  using send_stream_effect(1) [of world ok owner m s] by (metis prod.collapse)

lemma send_stream_final:
  "message_bytes m = [] \<Longrightarrow> received_bytes (snd (send_stream world ok owner m s)) = received_bytes s"
  using send_stream_effect(2) [of world ok owner m s] by (metis append_Nil2 prod.collapse)

lemma concat_chunks_of: "0 < n \<Longrightarrow> concat (chunks_of n xs) = xs"
  by (induction n xs rule: chunks_of.induct) (simp add: chunks_of.simps)

lemma concat_replay_chunks [simp]: "concat (replay_chunks xs) = xs"
  by (simp add: replay_chunks_def concat_chunks_of REPLAY_CHUNK_SIZE_def)

lemma send_chunks_checked_effect:
  "send_chunks_checked world ok owner cs s = (b, s') \<Longrightarrow> ss_now s \<le> ss_now s' \<and>
     (\<exists>k. received_bytes s' = received_bytes s @ take k (concat cs)) \<and>
     (b \<longrightarrow> received_bytes s' = received_bytes s @ concat cs)"
proof (induction cs arbitrary: s)
  case (Cons c cs)
  show ?case
  proof (cases "ro_deleted (world (ss_now s))")
    case True
    with Cons.prems have "b = False"
      "s' = snd (send_stream world ok owner (MError ''terminal_deleted'') (tick s))" by auto
    with send_stream_later [of "tick s" world ok owner "MError ''terminal_deleted''"]
    show ?thesis by (auto simp: send_stream_final intro: exI [of _ 0])
  next
    case False
    obtain b1 s1 where s1: "send_stream world ok owner (MBinary c) (tick s) = (b1, s1)" by force
    note e = send_stream_effect [OF s1]
    show ?thesis
    proof (cases b1)
      case True
      with Cons.prems False s1 have "send_chunks_checked world ok owner cs s1 = (b, s')" by simp
      from Cons.IH [OF this] obtain k where k: "ss_now s1 \<le> ss_now s'"
        "received_bytes s' = received_bytes s1 @ take k (concat cs)"
        "b \<longrightarrow> received_bytes s' = received_bytes s1 @ concat cs" by blast
      have "received_bytes s' = received_bytes s @ take (length c + k) (concat (c # cs))"
        using k(2) e(2) True by simp
      then have "\<exists>k. received_bytes s' = received_bytes s @ take k (concat (c # cs))" ..
      with k e True show ?thesis by simp
    next
      case no: False
      with Cons.prems False s1 have "b = False" "s' = s1" by auto
      with e no show ?thesis by (auto intro: exI [of _ 0])
    qed
  qed
qed auto

lemma send_chunks_effect:
  "send_chunks world ok owner cs s = (b, s') \<Longrightarrow> ss_now s \<le> ss_now s' \<and>
     (\<exists>k. received_bytes s' = received_bytes s @ take k (concat cs)) \<and>
     (b \<longrightarrow> received_bytes s' = received_bytes s @ concat cs)"
proof (induction cs arbitrary: s)
  case (Cons c cs)
  obtain b1 s1 where s1: "send_stream world ok owner (MBinary c) s = (b1, s1)" by force
  note e = send_stream_effect [OF s1]
  show ?case
  proof (cases b1)
    case True
    with Cons.prems s1 have "send_chunks world ok owner cs s1 = (b, s')" by simp
    from Cons.IH [OF this] obtain k where k: "ss_now s1 \<le> ss_now s'"
      "received_bytes s' = received_bytes s1 @ take k (concat cs)"
      "b \<longrightarrow> received_bytes s' = received_bytes s1 @ concat cs" by blast
    have "received_bytes s' = received_bytes s @ take (length c + k) (concat (c # cs))"
      using k(2) e(2) True by simp
    then have "\<exists>k. received_bytes s' = received_bytes s @ take k (concat (c # cs))" ..
    with k e True show ?thesis by simp
  next
    case False
    with Cons.prems s1 have "b = False" "s' = s1" by auto
    with e False show ?thesis by (auto intro: exI [of _ 0])
  qed
qed auto

text \<open>\<open>at_offset\<close>: by the n-th access the bytes from \<open>start\<close> up to \<open>off\<close> have been received.\<close>

definition at_offset :: "(nat \<Rightarrow> 'p runtime_obj) \<Rightarrow> nat \<Rightarrow> nat \<Rightarrow> session \<Rightarrow> bool" where
  "at_offset world start off s \<longleftrightarrow> start \<le> off \<and> off \<le> length (payload (events_at world (ss_now s))) \<and>
     received_bytes s = drop start (take off (payload (events_at world (ss_now s))))"

definition part_of_stream :: "(nat \<Rightarrow> 'p runtime_obj) \<Rightarrow> nat \<Rightarrow> session \<Rightarrow> bool" where
  "part_of_stream world start s \<longleftrightarrow>
     prefix (received_bytes s) (drop start (payload (events_at world (ss_now s))))"

lemma take_prefix: "prefix xs ys \<Longrightarrow> n \<le> length xs \<Longrightarrow> take n ys = take n xs"
  by (auto simp: prefix_def)

lemma at_offset_later:
  assumes "schedule world" "at_offset world start off s" "ss_now s \<le> ss_now s'"
    "received_bytes s' = received_bytes s"
  shows "at_offset world start off s'"
proof -
  note pre = schedule_payload_prefix [OF assms(1,3)]
  have "off \<le> length (payload (events_at world (ss_now s)))" using assms(2) by (simp add: at_offset_def)
  with take_prefix [OF pre this] prefix_length_le [OF pre] assms(2,4) show ?thesis
    by (simp add: at_offset_def)
qed

lemma at_offset_extend:
  assumes sch: "schedule world" and at: "at_offset world start off s" and le: "n \<le> ss_now s'"
    and now: "ss_now s \<le> n"
    and rec: "received_bytes s' = received_bytes s @ take k (drop off (payload (events_at world n)))"
    and fits: "off + k \<le> length (payload (events_at world n))"
  shows "at_offset world start (off + k) s'"
proof -
  let ?p = "payload (events_at world n)" and ?q = "payload (events_at world (ss_now s'))"
  from at_offset_later [OF sch at, of "s\<lparr>ss_now := n\<rparr>"] now have at': "start \<le> off"
    "received_bytes s = drop start (take off ?p)" by (simp_all add: at_offset_def received_bytes_def)
  have q: "take (off + k) ?q = take (off + k) ?p" "off + k \<le> length ?q"
    using take_prefix [OF schedule_payload_prefix [OF sch le] fits]
      prefix_length_le [OF schedule_payload_prefix [OF sch le]] fits by simp_all
  have "received_bytes s' = drop start (take off ?p @ take k (drop off ?p))"
    unfolding rec at'(2) using at'(1) fits by (simp only: drop_append) simp
  then have "received_bytes s' = drop start (take (off + k) ?q)"
    unfolding q(1) by (simp only: take_add)
  with at'(1) q(2) show ?thesis by (simp add: at_offset_def)
qed

lemma at_offset_part: "at_offset world start off s \<Longrightarrow> part_of_stream world start s"
  by (simp add: at_offset_def part_of_stream_def drop_take take_is_prefix)

lemma at_offset_part_later:
  "schedule world \<Longrightarrow> at_offset world start off s \<Longrightarrow> ss_now s \<le> ss_now s' \<Longrightarrow>
     received_bytes s' = received_bytes s \<Longrightarrow> part_of_stream world start s'"
  by (blast intro: at_offset_part at_offset_later)

lemma at_offset_part_final:
  "schedule world \<Longrightarrow> at_offset world start off s \<Longrightarrow> message_bytes m = [] \<Longrightarrow>
     part_of_stream world start (snd (send_stream world ok owner m s))"
  by (rule at_offset_part_later) (auto simp: send_stream_final send_stream_later)

text \<open>The loop \<open>catch_up_stream\<close>: its receiver starts exactly where its last chunk ended.\<close>

definition positioned :: "(nat \<Rightarrow> 'p runtime_obj) \<Rightarrow> nat \<Rightarrow> u64 \<Rightarrow> nat \<Rightarrow> session \<Rightarrow> bool" where
  "positioned world start expected pos s \<longleftrightarrow>
     at_offset world start (unat expected) s \<and> pos \<le> length (events_at world (ss_now s)) \<and>
     unat expected = length (payload (take pos (events_at world (ss_now s))))"

lemma positioned_later:
  assumes "schedule world" "positioned world start expected pos s" "ss_now s \<le> ss_now s'"
    "received_bytes s' = received_bytes s"
  shows "positioned world start expected pos s'"
  using assms at_offset_later [OF assms(1) _ assms(3,4)] schedule_take [OF assms(1,3), of pos]
    schedule_length [OF assms(1,3)]
  by (auto simp: positioned_def)

lemma snapshot_at:
  assumes "schedule world" "unat expected \<le> length (payload (events_at world n))"
  shows "\<exists>sn. snapshot_and_subscribe expected (world n) = Inr (sn, length (events_at world n)) \<and>
    unat (sn_next sn) = length (payload (events_at world n)) \<and>
    (\<not> sn_reset sn \<longrightarrow> sn_replay sn = drop (unat expected) (payload (events_at world n)))"
proof -
  have "output_inv SCROLLBACK_LIMIT (payload (events_at world n)) (ro_output (world n))"
    using schedule_log_inv [OF assms(1), of n] by (simp add: log_inv_def events_at_def)
  from snapshot_of_inv [OF this, of "Some expected" None "[]" "''snapshot_not_ready''"] show ?thesis
    by (auto simp: snapshot_and_subscribe_def snapshot_after_def events_at_def split: if_splits)
qed

lemma catch_up_effect:
  assumes sch: "schedule world"
  shows "at_offset world start (unat expected) s \<Longrightarrow>
    (case catch_up_stream fuel world ok owner expected s of
       OutOfFuel \<Rightarrow> True
     | Ended s' \<Rightarrow> part_of_stream world start s'
     | Go (expected', pos, eof) s' \<Rightarrow> ss_now s \<le> ss_now s' \<and> positioned world start expected' pos s')"
proof (induction fuel arbitrary: expected s)
  case (Suc fuel)
  let ?s1 = "tick s" and ?s2 = "tick (tick s)" and ?s3 = "tick (tick (tick s))"
  let ?n = "ss_now (tick s)"
  have at1: "at_offset world start (unat expected) ?s1" and at2: "at_offset world start (unat expected) ?s2"
    and at3: "at_offset world start (unat expected) ?s3"
    using Suc.prems by (auto intro!: at_offset_later [OF sch Suc.prems])
  have fin: "part_of_stream world start (snd (send_stream world ok owner (MError e) ?s1))"
    "part_of_stream world start (snd (send_stream world ok owner (MError e) ?s2))"
    "part_of_stream world start (snd (send_stream world ok owner (MError e) ?s3))" for e
    using at_offset_part_final [OF sch at1] at_offset_part_final [OF sch at2]
      at_offset_part_final [OF sch at3] by auto
  have le: "unat expected \<le> length (payload (events_at world ?n))"
    using at1 by (simp add: at_offset_def)
  obtain sn where sn: "snapshot_and_subscribe expected (world ?n) = Inr (sn, length (events_at world ?n))"
    "unat (sn_next sn) = length (payload (events_at world ?n))"
    "\<not> sn_reset sn \<longrightarrow> sn_replay sn = drop (unat expected) (payload (events_at world ?n))"
    using snapshot_at [OF sch le] by blast
  consider "ro_deleted (world (ss_now s)) \<or> ro_deleted (world (ss_now ?s2)) \<or> sn_reset sn"
    | (empty) "\<not> ro_deleted (world (ss_now s))" "\<not> ro_deleted (world (ss_now ?s2))" "\<not> sn_reset sn"
        "sn_replay sn = []"
    | (more) "\<not> ro_deleted (world (ss_now s))" "\<not> ro_deleted (world (ss_now ?s2))" "\<not> sn_reset sn"
        "sn_replay sn \<noteq> []" by blast
  then show ?case
  proof cases
    case 1
    with sn(1) fin show ?thesis by (auto simp: Let_def)
  next
    case empty
    with sn have "unat (sn_next sn) = unat expected" using le by simp
    then have "positioned world start (sn_next sn) (length (events_at world ?n)) ?s1"
      using at1 sn(2) by (simp add: positioned_def)
    from positioned_later [OF sch this, of ?s3] empty sn(1) show ?thesis by (simp add: Let_def)
  next
    case more
    obtain b s4 where s4: "send_chunks_checked world ok owner (replay_chunks (sn_replay sn)) ?s3 = (b, s4)"
      by force
    have replay: "sn_replay sn = drop (unat expected) (payload (events_at world ?n))"
      using more sn(3) by simp
    note e = send_chunks_checked_effect [OF s4, unfolded concat_replay_chunks replay]
    have now: "ss_now ?s1 \<le> ?n" "?n \<le> ss_now s4" using e by auto
    have ext: "at_offset world start (unat expected + k) s4"
      if "received_bytes s4 = received_bytes ?s1 @ take k (drop (unat expected) (payload (events_at world ?n)))"
        "unat expected + k \<le> length (payload (events_at world ?n))" for k
      by (rule at_offset_extend [OF sch at1 now(2,1) that])
    show ?thesis
    proof (cases b)
      case False
      from e obtain k where k: "received_bytes s4 =
          received_bytes ?s1 @ take k (drop (unat expected) (payload (events_at world ?n)))" by auto
      let ?k = "min k (length (payload (events_at world ?n)) - unat expected)"
      have "take k (drop (unat expected) (payload (events_at world ?n))) =
          take ?k (drop (unat expected) (payload (events_at world ?n)))" by (simp add: min_def)
      with k have "at_offset world start (unat expected + ?k) s4"
        using le by (intro ext) auto
      with False more sn(1) s4 show ?thesis by (auto simp: Let_def intro: at_offset_part)
    next
      case True
      let ?k = "length (payload (events_at world ?n)) - unat expected"
      have "at_offset world start (unat expected + ?k) s4"
        using e True le by (intro ext) auto
      then have "at_offset world start (unat (sn_next sn)) s4" using sn(2) le by simp
      from Suc.IH [OF this] more sn(1) s4 True e show ?thesis
        by (auto simp: Let_def split: step.splits)
    qed
  qed
qed simp

section \<open>The events of the stream\<close>

lemma event_at_position:
  assumes sch: "schedule world" and pos: "positioned world start expected pos s"
    and lt: "pos < length (events_at world (ss_now s))"
    and ev: "events_at world (ss_now s) ! pos = EvOutput off b"
  shows "off = expected"
    and "length b < 2 ^ 64 \<and> checked_add expected (of_nat (length b)) = Some (expected + of_nat (length b))"
    and "unat (expected + of_nat (length b)) = unat expected + length b"
    and "take (length b) (drop (unat expected) (payload (events_at world (ss_now s)))) = b"
    and "unat expected + length b \<le> length (payload (events_at world (ss_now s)))"
    and "unat expected + length b = length (payload (take (Suc pos) (events_at world (ss_now s))))"
proof -
  let ?E = "events_at world (ss_now s)"
  have inv: "log_inv (world (ss_now s))" by (rule schedule_log_inv [OF sch])
  have split: "payload ?E = payload (take pos ?E) @ b @ payload (drop (Suc pos) ?E)"
    using arg_cong [OF id_take_nth_drop [OF lt], of payload] ev by simp
  have e: "unat expected = length (payload (take pos ?E))" using pos by (simp add: positioned_def)
  have "unat off = length (payload (take pos ?E))"
    using inv lt ev by (simp add: log_inv_def offsets_ok_def events_at_def)
  with e show "off = expected" by (simp add: word_unat_eq_iff)
  have le: "unat expected + length b \<le> length (payload ?E)" using split e by simp
  then show "unat expected + length b \<le> length (payload ?E)" .
  have "length (payload ?E) = unat (os_next (ro_output (world (ss_now s))))"
    using inv by (simp add: log_inv_def output_inv_def events_at_def)
  with le have lt64: "unat expected + length b < 2 ^ 64"
    using unsigned_less [of "os_next (ro_output (world (ss_now s)))", where ?'a = nat] by simp
  then have ub: "unat (of_nat (length b) :: u64) = length b" by (intro unat_of_nat_small) simp
  show c: "length b < 2 ^ 64 \<and> checked_add expected (of_nat (length b)) = Some (expected + of_nat (length b))"
    using lt64 ub by (simp add: checked_add_def)
  show "unat (expected + of_nat (length b)) = unat expected + length b"
    using checked_add_Some [OF conjunct2 [OF c]] ub by simp
  show "take (length b) (drop (unat expected) (payload ?E)) = b"
    unfolding e split by simp
  show "unat expected + length b = length (payload (take (Suc pos) ?E))"
    using e lt ev by (simp add: take_Suc_conv_app_nth)
qed

definition stream_step_ok :: "(nat \<Rightarrow> 'p runtime_obj) \<Rightarrow> nat \<Rightarrow> active_stream step \<Rightarrow> bool" where
  "stream_step_ok world start res =
     (case res of OutOfFuel \<Rightarrow> True
      | Ended s \<Rightarrow> part_of_stream world start s
      | Go ac s \<Rightarrow> positioned world start (ac_expected ac) (ac_events ac) s)"

lemma stream_step_ok_simps [simp]:
  "stream_step_ok world start OutOfFuel"
  "stream_step_ok world start (Ended s) = part_of_stream world start s"
  "stream_step_ok world start (Go ac s) = positioned world start (ac_expected ac) (ac_events ac) s"
  by (simp_all add: stream_step_ok_def)

lemma positioned_at: "positioned world start e p s \<Longrightarrow> at_offset world start (unat e) s"
  unfolding positioned_def by (elim conjE)

lemma handle_event_effect:
  assumes sch: "schedule world"
    and pos: "positioned world start (ac_expected ac) pos s"
    and lt: "pos < length (events_at world (ss_now s))"
    and nxt: "ac_events ac = Suc pos"
  shows "stream_step_ok world start
    (handle_runtime_event fuel world ok (RecvEvent (events_at world (ss_now s) ! pos)) ac s)"
proof -
  note at = positioned_at [OF pos]
  have fin: "part_of_stream world start (snd (send_stream world ok (ac_owner ac) m s))"
    if "message_bytes m = []" for m
    by (rule at_offset_part_final [OF sch at that])
  have keep: "positioned world start (ac_expected ac) (Suc pos) s"
    if "event_bytes (events_at world (ss_now s) ! pos) = []"
    using pos lt that at unfolding positioned_def by (auto simp: take_Suc_conv_app_nth)
  show ?thesis
  proof (cases "events_at world (ss_now s) ! pos")
    case (EvOutput off b)
    note e = event_at_position [OF sch pos lt EvOutput]
    obtain sent s' where s': "send_stream world ok (ac_owner ac) (MBinary b) s = (sent, s')" by force
    note f = send_stream_effect [OF s']
    show ?thesis
    proof (cases sent)
      case True
      have "at_offset world start (unat (ac_expected ac) + length b) s'"
        by (rule at_offset_extend [OF sch at f(1) order_refl]) (use f(2) True e in simp_all)
      moreover have "Suc pos \<le> length (events_at world (ss_now s'))"
        using lt schedule_length [OF sch f(1)] by simp
      moreover have "take (Suc pos) (events_at world (ss_now s')) = take (Suc pos) (events_at world (ss_now s))"
        using lt by (intro schedule_take [OF sch f(1)]) simp
      ultimately show ?thesis
        using EvOutput e s' True nxt
        by (simp add: handle_runtime_event_def positioned_def)
    next
      case False
      with at_offset_part_later [OF sch at f(1)] f(2) EvOutput e s' show ?thesis
        by (simp add: handle_runtime_event_def)
    qed
  next
    case EvOutputClosed
    with keep fin nxt show ?thesis
      by (auto simp: handle_runtime_event_def split: option.splits)
  next
    case (EvStatus st c)
    with keep fin nxt show ?thesis by (simp add: handle_runtime_event_def)
  next
    case EvDeleted
    with fin show ?thesis by (simp add: handle_runtime_event_def)
  qed
qed

lemma handle_lagged_effect:
  assumes sch: "schedule world" and at: "at_offset world start (unat (ac_expected ac)) s"
  shows "stream_step_ok world start (handle_runtime_event fuel world ok RecvLagged ac s)"
proof (cases "catch_up_stream fuel world ok (ac_owner ac) (ac_expected ac) s")
  case OutOfFuel
  then show ?thesis by (simp add: handle_runtime_event_def)
next
  case (Ended s')
  with catch_up_effect [OF sch at, of fuel ok "ac_owner ac"] show ?thesis
    by (simp add: handle_runtime_event_def)
next
  case (Go x s1)
  obtain e p c where x: "x = (e, p, c)" by (cases x) auto
  from catch_up_effect [OF sch at, of fuel ok "ac_owner ac"] Go x
  have pos: "positioned world start e p s1" by simp
  have pos2: "positioned world start e p (tick (tick s1))"
    by (rule positioned_later [OF sch pos]) simp_all
  have fin: "part_of_stream world start (snd (send_stream world ok (ac_owner ac) m (tick s1)))"
    "part_of_stream world start (snd (send_stream world ok (ac_owner ac) m (tick (tick s1))))"
    if "message_bytes m = []" for m
    using that positioned_at [OF positioned_later [OF sch pos, of "tick s1"]] positioned_at [OF pos2]
    by (auto intro!: at_offset_part_final [OF sch])
  show ?thesis
    using Go x pos2 fin by (auto simp: handle_runtime_event_def Let_def split: option.splits bool.splits)
qed

lemma stream_events_effect:
  assumes sch: "schedule world"
  shows "positioned world start (ac_expected ac) (ac_events ac) s \<Longrightarrow>
    stream_step_ok world start (stream_events fuel world ok turns ac s)"
proof (induction turns arbitrary: ac s)
  case (Cons lagged turns)
  have pos1: "positioned world start (ac_expected ac) (ac_events ac) (tick s)"
    by (rule positioned_later [OF sch Cons.prems]) simp_all
  show ?case
  proof (cases "receive world lagged ac s")
    case None
    with Cons.IH [OF pos1] show ?thesis by simp
  next
    case (Some x)
    have lt: "ac_events ac < length (events_at world (ss_now s))"
      using Some by (auto simp: receive_def events_at_def Let_def split: if_splits)
    have lt1: "ac_events ac < length (events_at world (ss_now (tick s)))"
      using lt schedule_length [OF sch, of "ss_now s" "ss_now (tick s)"] by simp
    have same: "events_at world (ss_now (tick s)) ! ac_events ac = events_at world (ss_now s) ! ac_events ac"
      using schedule_extends [OF sch, of "ss_now s" "ss_now (tick s)"] lt by (auto simp: nth_append)
    have "stream_step_ok world start (handle_runtime_event fuel world ok (fst x) (fst (snd x)) (snd (snd x)))"
    proof (cases lagged)
      case True
      with Some lt have "x = (RecvLagged, ac, tick s)"
        by (simp add: receive_def events_at_def Let_def)
      with handle_lagged_effect [OF sch positioned_at [OF pos1]] show ?thesis by simp
    next
      case False
      let ?ac = "ac\<lparr>ac_events := Suc (ac_events ac)\<rparr>"
      from False Some lt have "x = (RecvEvent (events_at world (ss_now s) ! ac_events ac), ?ac, tick s)"
        by (simp add: receive_def events_at_def Let_def)
      with handle_event_effect [OF sch, of start ?ac "ac_events ac" "tick s" fuel ok] pos1 lt1 same
      show ?thesis by simp
    qed
    with Some Cons.IH show ?thesis
      by (auto split: prod.splits step.splits)
  qed
qed simp

lemma initialize_effect:
  assumes sch: "schedule world" and now: "n \<le> ss_now s" and rec: "received_bytes s = []"
    and off: "unat (cl_offset cl) \<le> length (payload (events_at world n))"
    and replay: "cl_replay cl = drop (unat (cl_offset cl)) (payload (events_at world n))"
    and nx: "unat (cl_next cl) = length (payload (events_at world n))"
  shows "stream_step_ok world (unat (cl_offset cl)) (initialize fuel world ok cl s)"
proof -
  let ?start = "unat (cl_offset cl)" and ?P = "payload (events_at world n)"
  let ?m = "MStream (cl_epoch cl) (cl_offset cl) (cl_reset cl) (cl_replay_bytes cl) (cl_restore cl)
            (cl_restore_cols cl) (cl_restore_rows cl)"
  obtain b1 s1 where s1: "send_stream world ok (cl_owner cl) ?m s = (b1, s1)" by force
  note f1 = send_stream_effect [OF s1]
  let ?s0 = "s\<lparr>ss_now := n\<rparr>"
  have at0: "at_offset world ?start ?start ?s0"
    using off rec by (simp add: at_offset_def received_bytes_def)
  have r1: "received_bytes s1 = received_bytes ?s0"
    using f1(2) by (simp add: received_bytes_def split: if_splits)
  have n1: "n \<le> ss_now s1" using f1(1) now by simp
  have part1: "part_of_stream world ?start s1"
    by (rule at_offset_part_later [OF sch at0]) (use n1 r1 in simp_all)
  obtain b2 s2 where s2: "send_chunks world ok (cl_owner cl) (replay_chunks (cl_replay cl)) s1 = (b2, s2)"
    by force
  note f2 = send_chunks_effect [OF s2, unfolded concat_replay_chunks replay]
  have ext: "at_offset world ?start (?start + k) s2"
    if "received_bytes s2 = received_bytes ?s0 @ take k (drop ?start ?P)" "?start + k \<le> length ?P" for k
    by (rule at_offset_extend [OF sch at0, of n]) (use that f2 n1 in auto)
  have part2: "part_of_stream world ?start s2"
  proof -
    from f2 obtain k where "received_bytes s2 = received_bytes s1 @ take k (drop ?start ?P)" by blast
    then have "received_bytes s2 = received_bytes ?s0 @ take (min k (length ?P - ?start)) (drop ?start ?P)"
      using r1 by (simp add: min_def)
    from at_offset_part [OF ext [OF this]] off show ?thesis by simp
  qed
  have at2: "at_offset world ?start (unat (cl_next cl)) s2" if b2
  proof -
    have "at_offset world ?start (?start + (length ?P - ?start)) s2"
      by (rule ext) (use f2 that r1 off in simp_all)
    with off nx show ?thesis by simp
  qed
  show ?thesis
  proof (cases "b1 \<and> b2")
    case False
    with s1 s2 part1 part2 show ?thesis by (cases b1) (auto simp: initialize_def Let_def)
  next
    case True
    show ?thesis
    proof (cases "catch_up_stream fuel world ok (cl_owner cl) (cl_next cl) s2")
      case OutOfFuel
      with True s1 s2 show ?thesis by (simp add: initialize_def Let_def)
    next
      case (Ended s3)
      with True s1 s2 catch_up_effect [OF sch at2, of fuel ok "cl_owner cl"] show ?thesis
        by (simp add: initialize_def Let_def)
    next
      case (Go x s3)
      obtain e p c where x: "x = (e, p, c)" by (cases x) auto
      from catch_up_effect [OF sch at2, of fuel ok "cl_owner cl"] Go x True
      have pos: "positioned world ?start e p s3" by simp
      have pos4: "positioned world ?start e p (tick s3)"
        by (rule positioned_later [OF sch pos]) simp_all
      have fin: "part_of_stream world ?start (snd (send_stream world ok (cl_owner cl) (MStatus a b) (tick s3)))"
        for a b by (rule at_offset_part_final [OF sch positioned_at [OF pos4]]) simp
      obtain b5 s5 where s5: "send_stream world ok (cl_owner cl)
          (MStatus (rt_status (description (world (ss_now s3)))) None) (tick s3) = (b5, s5)" by force
      have pos5: "positioned world ?start e p s5"
        by (rule positioned_later [OF sch pos4]) (use send_stream_effect [OF s5] in simp_all)
      from True s1 s2 Go x pos4 fin s5 pos5 at_offset_part [OF positioned_at [OF pos5]] show ?thesis
        by (cases b5) (auto simp: initialize_def Let_def)
    qed
  qed
qed

section \<open>The stream an attachment receives\<close>

text \<open>The event side of an attachment from its claim on.\<close>

definition attachment_run :: "nat \<Rightarrow> (nat \<Rightarrow> 'p runtime_obj) \<Rightarrow> (nat \<Rightarrow> bool) \<Rightarrow> bool list \<Rightarrow> claimed
    \<Rightarrow> session \<Rightarrow> active_stream step" where
  "attachment_run fuel world ok turns cl s =
     (case initialize fuel world ok cl s of
        OutOfFuel \<Rightarrow> OutOfFuel
      | Ended s' \<Rightarrow> Ended s'
      | Go ac s' \<Rightarrow> stream_events fuel world ok turns ac s')"

lemma attach_snapshot_effect:
  assumes "schedule world" "attach_snapshot after want vt (world n) = Inr sn"
  shows "unat (sn_offset sn) \<le> length (payload (events_at world n)) \<and>
    sn_replay sn = drop (unat (sn_offset sn)) (payload (events_at world n)) \<and>
    unat (sn_next sn) = length (payload (events_at world n))"
proof -
  obtain v reason where "snapshot_with_vt_diagnostics after v (ro_epoch (world n)) reason (ro_output (world n)) = Some sn"
    using assms(2) by (auto simp: attach_snapshot_def Let_def ok_or_Inr_iff split: if_splits)
  moreover have "output_inv SCROLLBACK_LIMIT (payload (events_at world n)) (ro_output (world n))"
    using schedule_log_inv [OF assms(1), of n] by (simp add: log_inv_def events_at_def)
  ultimately show ?thesis
    using snapshot_of_inv [where after = after and vt = v and epoch = "ro_epoch (world n)" and reason = reason
        and s = "ro_output (world n)"] by fastforce
qed

lemma claim_snapshot:
  "fst (claim a after force want vt r) = Inr (Claimed cl) \<Longrightarrow>
     \<exists>sn. attach_snapshot after want vt r = Inr sn \<and> cl_offset cl = sn_offset sn \<and>
       cl_replay cl = sn_replay sn \<and> cl_next cl = sn_next sn"
  by (cases "attach_snapshot after want vt r")
    (auto simp: claim_def attachment_of_def Let_def split: if_splits option.splits)

lemma observe_snapshot:
  "observe after want vt r = Inr cl \<Longrightarrow>
     \<exists>sn. attach_snapshot after want vt r = Inr sn \<and> cl_offset cl = sn_offset sn \<and>
       cl_replay cl = sn_replay sn \<and> cl_next cl = sn_next sn"
  by (auto simp: observe_def attachment_of_def result_simps split: if_splits)

text \<open>C7: An attachment, as controller or as observer, receives the runtime's output from its announced
  offset on without a gap, a repetition or a reordering, whatever the runtime, other attachments, lagging
  receivers and failing sends do: while it runs it has exactly the bytes up to its expected offset, and
  when it ends it has an initial part of the stream.\<close>

theorem attachment_receives_contiguous_stream:
  assumes sch: "schedule world"
    and att: "fst (claim a after force want vt (world n)) = Inr (Claimed cl) \<or>
              observe after want vt (world n) = Inr cl"
  shows "case attachment_run fuel world ok turns cl \<lparr>ss_now = Suc n, ss_sent = []\<rparr> of
      OutOfFuel \<Rightarrow> True
    | Ended s \<Rightarrow> prefix (received_bytes s)
        (drop (unat (cl_offset cl)) (payload (ro_events (world (ss_now s)))))
    | Go ac s \<Rightarrow> received_bytes s = drop (unat (cl_offset cl))
        (take (unat (ac_expected ac)) (payload (ro_events (world (ss_now s)))))"
proof -
  from att obtain sn where sn: "attach_snapshot after want vt (world n) = Inr sn"
    "cl_offset cl = sn_offset sn" "cl_replay cl = sn_replay sn" "cl_next cl = sn_next sn"
    using claim_snapshot observe_snapshot by blast
  note e = attach_snapshot_effect [OF sch sn(1)]
  let ?s = "\<lparr>ss_now = Suc n, ss_sent = []\<rparr>"
  have init: "stream_step_ok world (unat (cl_offset cl)) (initialize fuel world ok cl ?s)"
    by (rule initialize_effect [OF sch, of n]) (use sn e in \<open>simp_all add: received_bytes_def\<close>)
  have "stream_step_ok world (unat (cl_offset cl)) (attachment_run fuel world ok turns cl ?s)"
    using init stream_events_effect [OF sch]
    by (auto simp: attachment_run_def split: step.splits)
  then show ?thesis
    by (auto simp: stream_step_ok_def part_of_stream_def positioned_def at_offset_def events_at_def
        split: step.splits)
qed

text \<open>C21: Catching up ends as soon as the runtime writes nothing more: two passes are enough.\<close>

theorem catch_up_needs_two_passes:
  assumes sch: "schedule world"
    and quiet: "\<forall>m\<ge>ss_now s. ro_events (world m) = ro_events (world (ss_now s))"
    and at: "unat expected \<le> length (payload (ro_events (world (ss_now s))))"
  shows "catch_up_stream (Suc (Suc fuel)) world ok owner expected s \<noteq> OutOfFuel"
proof -
  let ?P = "payload (ro_events (world (ss_now s)))"
  have P: "payload (events_at world m) = ?P" if "ss_now s \<le> m" for m
    using quiet [rule_format, OF that] by (simp only: events_at_def)
  have snap: "\<exists>sn k. snapshot_and_subscribe e (world m) = Inr (sn, k) \<and> unat (sn_next sn) = length ?P \<and>
      (\<not> sn_reset sn \<longrightarrow> sn_replay sn = drop (unat e) ?P)"
    if "ss_now s \<le> m" "unat e \<le> length ?P" for e m
    using snapshot_at [OF sch, of e m] P [OF that(1)] that(2) by auto
  have second: "catch_up_stream (Suc fuel) world ok owner e t \<noteq> OutOfFuel"
    if e: "unat e = length ?P" and t: "ss_now s \<le> ss_now t" for e t
  proof -
    have "ss_now s \<le> ss_now (tick t)" using t by simp
    from snap [OF this, of e] e obtain sn k where
      "snapshot_and_subscribe e (world (ss_now (tick t))) = Inr (sn, k)"
      "\<not> sn_reset sn \<longrightarrow> sn_replay sn = []" by auto
    then show ?thesis by (auto simp: Let_def)
  qed
  have "ss_now s \<le> ss_now (tick s)" by simp
  from snap [OF this at] obtain sn k where
    sn: "snapshot_and_subscribe expected (world (ss_now (tick s))) = Inr (sn, k)"
      "unat (sn_next sn) = length ?P" by blast
  obtain b t where t: "send_chunks_checked world ok owner (replay_chunks (sn_replay sn)) (tick (tick (tick s))) = (b, t)"
    by force
  have "ss_now s \<le> ss_now t" using send_chunks_checked_effect [OF t] by simp
  from second [OF sn(2) this] sn(1) t show ?thesis
    unfolding catch_up_stream.simps(2) [of "Suc fuel"] Let_def
    by (cases b) (auto simp del: catch_up_stream.simps)
qed

definition sample_world :: "nat \<Rightarrow> unit runtime_obj" where
  "sample_world n = run_ops [OpOutput (\<lambda>p b. ([], p)) ''hello''] (spawned_runtime ''t'' ''e'' sample_spec False ())"

lemma sample_schedule: "schedule sample_world"
  unfolding schedule_def
proof
  show "\<exists>i e spec v p ops. sample_world 0 = run_ops ops (spawned_runtime i e spec v p)"
    unfolding sample_world_def by blast
  have "sample_world (Suc n) = run_ops [] (sample_world n)" for n by (simp add: sample_world_def)
  then show "\<forall>n. \<exists>ops. sample_world (Suc n) = run_ops ops (sample_world n)" by blast
qed

lemma sample_observe: "\<exists>cl. observe None False None (sample_world 0) = Inr cl"
  by (simp add: sample_world_def sample_defs observe_def runtime_append_output_def append_output_def
      append_bytes_def emit_def vt_send_def SCROLLBACK_LIMIT_def)

theorem attachment_receives_contiguous_stream_witness:
  "\<exists>cl. observe None False None (sample_world 0) = Inr cl \<and>
    (case attachment_run 2 sample_world (\<lambda>_. True) [False] cl \<lparr>ss_now = Suc 0, ss_sent = []\<rparr> of
      OutOfFuel \<Rightarrow> True
    | Ended s \<Rightarrow> prefix (received_bytes s)
        (drop (unat (cl_offset cl)) (payload (ro_events (sample_world (ss_now s)))))
    | Go ac s \<Rightarrow> received_bytes s = drop (unat (cl_offset cl))
        (take (unat (ac_expected ac)) (payload (ro_events (sample_world (ss_now s))))))"
proof -
  obtain cl where cl: "observe None False None (sample_world 0) = Inr cl" using sample_observe by blast
  from attachment_receives_contiguous_stream [OF sample_schedule disjI2 [OF cl]] cl show ?thesis by blast
qed

theorem catch_up_needs_two_passes_witness:
  "catch_up_stream (Suc (Suc 0)) sample_world (\<lambda>_. True) None 2 \<lparr>ss_now = 0, ss_sent = []\<rparr> \<noteq> OutOfFuel"
proof (rule catch_up_needs_two_passes [OF sample_schedule])
  show "\<forall>m\<ge>ss_now \<lparr>ss_now = 0, ss_sent = []\<rparr>. ro_events (sample_world m) =
      ro_events (sample_world (ss_now \<lparr>ss_now = 0, ss_sent = []\<rparr>))"
    by (simp add: sample_world_def)
  show "unat (2 :: u64) \<le> length (payload (ro_events (sample_world (ss_now \<lparr>ss_now = 0, ss_sent = []\<rparr>))))"
    by (simp add: sample_world_def sample_defs runtime_append_output_def append_output_def
        append_bytes_def emit_def vt_send_def SCROLLBACK_LIMIT_def)
qed

end
