(* ===== verification/Daemon_Registry.thy ===== *)
theory Daemon_Registry
  imports Daemon_Control "HOL-Library.AList" "HOL-Library.Multiset" "HOL-Library.List_Lexorder"
    "HOL-Library.Char_ord"
begin

text \<open>
  The registry of the terminal daemon, \<open>crates/terminald/src/runtime/state/\<close>, with
  \<open>compare_existing\<close> and the cleanup of uncommitted runtimes of \<open>process/mod.rs\<close>. Runtimes are
  shared objects: they live in a heap, and the registry, the requests and the cleanup threads hold
  their addresses. A request gives up the registry lock while it waits, so it is a task of the
  transition system below; the outcome of starting the child process is a parameter.
\<close>

section \<open>State\<close>

record 'p daemon =
  dm_instance :: string
  dm_shutting_down :: bool
  dm_in_flight :: nat
  dm_runtimes :: "(string \<times> nat) list"
  dm_heap :: "nat \<Rightarrow> 'p runtime_obj option"
  dm_next :: nat

definition daemon_new :: "string \<Rightarrow> 'p daemon" where
  "daemon_new instance_id =
     \<lparr>dm_instance = instance_id, dm_shutting_down = False, dm_in_flight = 0, dm_runtimes = [],
      dm_heap = \<lambda>_. None, dm_next = 0\<rparr>"

datatype create_outcome = Created runtime | Existing runtime

definition heap_update :: "nat \<Rightarrow> ('p runtime_obj \<Rightarrow> 'p runtime_obj) \<Rightarrow> 'p daemon \<Rightarrow> 'p daemon" where
  "heap_update a f d = d\<lparr>dm_heap := (dm_heap d)(a := map_option f (dm_heap d a))\<rparr>"

definition lookup_runtime :: "string \<Rightarrow> 'p daemon \<Rightarrow> 'p runtime_obj option" where
  "lookup_runtime i d = Option.bind (map_of (dm_runtimes d) i) (dm_heap d)"

definition compare_existing :: "string \<Rightarrow> 'p runtime_obj \<Rightarrow> runtime_spec
    \<Rightarrow> (terminald_error, create_outcome) result" where
  "compare_existing i r spec =
     (if ro_deleted r then Inl (DConflict i)
      else if ro_spec r = spec then Inr (Existing (description r))
      else Inl (DConflict i))"

section \<open>Queries\<close>

definition list_runtimes :: "'p daemon \<Rightarrow> runtime list" where
  "list_runtimes d =
     sort_key rt_id (map description (filter (\<lambda>r. \<not> ro_deleted r)
       (List.map_filter (\<lambda>(i, a). dm_heap d a) (dm_runtimes d))))"

definition get_runtime :: "string \<Rightarrow> 'p daemon \<Rightarrow> (terminald_error, runtime) result" where
  "get_runtime i d =
     (case lookup_runtime i d of
        None \<Rightarrow> Inl (DNotFound i)
      | Some r \<Rightarrow> if ro_deleted r then Inl (DNotFound i) else Inr (description r))"

text \<open>\<open>attach\<close>: the cursor counts only for the same stream epoch.\<close>

definition attach_runtime :: "string \<Rightarrow> string option \<Rightarrow> u64 option \<Rightarrow> 'p daemon
    \<Rightarrow> (terminald_error, 'p runtime_obj \<times> u64 option) result" where
  "attach_runtime i epoch after d =
     (case lookup_runtime i d of
        None \<Rightarrow> Inl (DNotFound i)
      | Some r \<Rightarrow> if ro_deleted r then Inl (DNotFound (ro_id r))
                  else Inr (r, if epoch = Some (ro_epoch r) then after else None))"

section \<open>Creation\<close>

text \<open>Up to the spawn permit: \<^term>\<open>Inr None\<close> means that the request goes on and holds a permit.\<close>

definition create_begin :: "string \<Rightarrow> runtime_spec \<Rightarrow> 'p daemon
    \<Rightarrow> (terminald_error, create_outcome option) result \<times> 'p daemon" where
  "create_begin i spec d =
     (if dm_shutting_down d then (Inl DShuttingDown, d)
      else try_in (validate_runtime_id i) d (\<lambda>_.
        case lookup_runtime i d of
          Some r \<Rightarrow> (case compare_existing i r spec of
              Inl e \<Rightarrow> (Inl e, d) | Inr outcome \<Rightarrow> (Inr (Some outcome), d))
        | None \<Rightarrow> (Inr None, d\<lparr>dm_in_flight := Suc (dm_in_flight d)\<rparr>)))"

definition drop_permit :: "'p daemon \<Rightarrow> 'p daemon" where
  "drop_permit d = d\<lparr>dm_in_flight := dm_in_flight d - 1\<rparr>"

text \<open>Validation and the blocking spawn: the address of the new runtime, or an error, which gives the
  permit back. \<open>spawn\<close> is the child process, its stream epoch and its parser, or why there is none.\<close>

definition create_spawn :: "file_metadata \<Rightarrow> bool \<Rightarrow> (terminald_error, string \<times> 'p) result \<Rightarrow> string
    \<Rightarrow> runtime_spec \<Rightarrow> 'p daemon \<Rightarrow> (terminald_error, nat) result \<times> 'p daemon" where
  "create_spawn fs has_vt spawn i spec d =
     (case rbind (validate_spec fs spec) (\<lambda>_. spawn) of
        Inl e \<Rightarrow> (Inl e, drop_permit d)
      | Inr (epoch, parser) \<Rightarrow>
          (Inr (dm_next d),
           d\<lparr>dm_heap := (dm_heap d)(dm_next d \<mapsto> spawned_runtime i epoch spec has_vt parser),
             dm_next := Suc (dm_next d)\<rparr>))"

text \<open>The last critical section: \<^term>\<open>True\<close> says that the spawned runtime is dropped, which marks it
  deleted and leaves its permit to the cleanup thread.\<close>

definition create_commit :: "string \<Rightarrow> runtime_spec \<Rightarrow> nat \<Rightarrow> 'p daemon
    \<Rightarrow> (terminald_error, create_outcome) result \<times> bool \<times> 'p daemon" where
  "create_commit i spec a d =
     (if dm_shutting_down d then (Inl DShuttingDown, True, heap_update a notify_deleted d)
      else case lookup_runtime i d of
        Some r \<Rightarrow> (compare_existing i r spec, True, heap_update a notify_deleted d)
      | None \<Rightarrow>
          (case dm_heap d a of
             None \<Rightarrow> (Inl DPoisoned, False, d)
           | Some r \<Rightarrow> (Inr (Created (description r)), False,
               drop_permit (d\<lparr>dm_runtimes := AList.update i a (dm_runtimes d)\<rparr>))))"

text \<open>A request that is canceled while it holds a spawned runtime drops it.\<close>

definition discard_spawned :: "nat \<Rightarrow> 'p daemon \<Rightarrow> 'p daemon" where
  "discard_spawned a d = heap_update a notify_deleted d"

text \<open>The cleanup thread of a dropped runtime, when its child has been waited for.\<close>

definition discard_reaped :: "nat \<Rightarrow> u32 option \<Rightarrow> 'p daemon \<Rightarrow> 'p daemon" where
  "discard_reaped a code d = drop_permit (heap_update a (mark_reaped Interrupted code) d)"

section \<open>Deletion and shutdown\<close>

definition delete_mark :: "string \<Rightarrow> 'p daemon \<Rightarrow> nat option \<times> 'p daemon" where
  "delete_mark i d =
     (case map_of (dm_runtimes d) i of
        None \<Rightarrow> (None, d)
      | Some a \<Rightarrow> (Some a, heap_update a notify_deleted d))"

definition delete_finish :: "string \<Rightarrow> nat \<Rightarrow> bool \<Rightarrow> 'p daemon
    \<Rightarrow> (terminald_error, unit) result \<times> 'p daemon" where
  "delete_finish i a reaped_in_time d =
     (case dm_heap d a of
        None \<Rightarrow> (Inl DPoisoned, d)
      | Some r \<Rightarrow>
          (case force_delete_and_reap reaped_in_time r of
             (res, r') \<Rightarrow>
               let d' = d\<lparr>dm_heap := (dm_heap d)(a \<mapsto> r')\<rparr>
               in (case res of
                     Inl e \<Rightarrow> (Inl e, d')
                   | Inr _ \<Rightarrow> (Inr (), if map_of (dm_runtimes d') i = Some a
                        then d'\<lparr>dm_runtimes := AList.delete i (dm_runtimes d')\<rparr> else d'))))"

text \<open>\<open>shutdown_all\<close> up to the reaping: the gate, the drain, and the kill of everything drained.\<close>

definition shutdown_begin :: "'p daemon \<Rightarrow> nat list \<times> 'p daemon" where
  "shutdown_begin d =
     (let addrs = map snd (dm_runtimes d)
      in (addrs, fold (\<lambda>a. heap_update a notify_deleted) addrs
            (d\<lparr>dm_shutting_down := True, dm_runtimes := []\<rparr>)))"

definition shutdown_reap :: "nat \<Rightarrow> bool \<Rightarrow> 'p daemon \<Rightarrow> (terminald_error, unit) result \<times> 'p daemon" where
  "shutdown_reap a reaped_in_time d =
     (case dm_heap d a of
        None \<Rightarrow> (Inl DPoisoned, d)
      | Some r \<Rightarrow> (case force_delete_and_reap reaped_in_time r of
          (res, r') \<Rightarrow> (res, d\<lparr>dm_heap := (dm_heap d)(a \<mapsto> r')\<rparr>)))"

text \<open>\<open>wait_zero\<close> of the spawn tracker.\<close>

definition spawns_finished :: "'p daemon \<Rightarrow> bool" where
  "spawns_finished d \<longleftrightarrow> dm_in_flight d = 0"

section \<open>Requests without interleaving\<close>

definition daemon_create :: "file_metadata \<Rightarrow> bool \<Rightarrow> (terminald_error, string \<times> 'p) result \<Rightarrow> string
    \<Rightarrow> runtime_spec \<Rightarrow> 'p daemon \<Rightarrow> (terminald_error, runtime) result \<times> 'p daemon" where
  "daemon_create fs has_vt spawn i spec d =
     (case create_begin i spec d of
        (Inl e, d1) \<Rightarrow> (Inl e, d1)
      | (Inr (Some (Created rt)), d1) \<Rightarrow> (Inr rt, d1)
      | (Inr (Some (Existing rt)), d1) \<Rightarrow> (Inr rt, d1)
      | (Inr None, d1) \<Rightarrow>
          (case create_spawn fs has_vt spawn i spec d1 of
             (Inl e, d2) \<Rightarrow> (Inl e, d2)
           | (Inr a, d2) \<Rightarrow>
               (case create_commit i spec a d2 of
                  (Inl e, dropped, d3) \<Rightarrow> (Inl e, d3)
                | (Inr (Created rt), dropped, d3) \<Rightarrow> (Inr rt, d3)
                | (Inr (Existing rt), dropped, d3) \<Rightarrow> (Inr rt, d3))))"

definition daemon_delete :: "bool \<Rightarrow> string \<Rightarrow> 'p daemon \<Rightarrow> (terminald_error, unit) result \<times> 'p daemon" where
  "daemon_delete reaped_in_time i d =
     (case delete_mark i d of
        (None, d1) \<Rightarrow> (Inr (), d1)
      | (Some a, d1) \<Rightarrow> delete_finish i a reaped_in_time d1)"

section \<open>The system\<close>

datatype task =
    TSpawn string runtime_spec
  | TCommit string runtime_spec nat
  | TDiscard nat
  | TDelete string nat
  | TReap nat

record 'p system =
  sy_daemon :: "'p daemon"
  sy_tasks :: "task multiset"

inductive system_step :: "'p system \<Rightarrow> 'p system \<Rightarrow> bool" where
  step_create: "create_begin i spec (sy_daemon s) = (Inr None, d) \<Longrightarrow>
     system_step s \<lparr>sy_daemon = d, sy_tasks = add_mset (TSpawn i spec) (sy_tasks s)\<rparr>"
| step_cancel_spawn: "sy_tasks s = add_mset (TSpawn i spec) ts \<Longrightarrow>
     system_step s \<lparr>sy_daemon = drop_permit (sy_daemon s), sy_tasks = ts\<rparr>"
| step_spawn: "sy_tasks s = add_mset (TSpawn i spec) ts \<Longrightarrow>
     create_spawn fs has_vt spawn i spec (sy_daemon s) = (Inr a, d) \<Longrightarrow>
     system_step s \<lparr>sy_daemon = d, sy_tasks = add_mset (TCommit i spec a) ts\<rparr>"
| step_spawn_failed: "sy_tasks s = add_mset (TSpawn i spec) ts \<Longrightarrow>
     create_spawn fs has_vt spawn i spec (sy_daemon s) = (Inl e, d) \<Longrightarrow>
     system_step s \<lparr>sy_daemon = d, sy_tasks = ts\<rparr>"
| step_commit: "sy_tasks s = add_mset (TCommit i spec a) ts \<Longrightarrow>
     create_commit i spec a (sy_daemon s) = (res, dropped, d) \<Longrightarrow>
     system_step s \<lparr>sy_daemon = d, sy_tasks = (if dropped then add_mset (TDiscard a) ts else ts)\<rparr>"
| step_cancel_commit: "sy_tasks s = add_mset (TCommit i spec a) ts \<Longrightarrow>
     system_step s \<lparr>sy_daemon = discard_spawned a (sy_daemon s), sy_tasks = add_mset (TDiscard a) ts\<rparr>"
| step_discarded: "sy_tasks s = add_mset (TDiscard a) ts \<Longrightarrow>
     system_step s \<lparr>sy_daemon = discard_reaped a code (sy_daemon s), sy_tasks = ts\<rparr>"
| step_delete: "delete_mark i (sy_daemon s) = (Some a, d) \<Longrightarrow>
     system_step s \<lparr>sy_daemon = d, sy_tasks = add_mset (TDelete i a) (sy_tasks s)\<rparr>"
| step_delete_finish: "sy_tasks s = add_mset (TDelete i a) ts \<Longrightarrow>
     delete_finish i a in_time (sy_daemon s) = (res, d) \<Longrightarrow>
     system_step s \<lparr>sy_daemon = d, sy_tasks = ts\<rparr>"
| step_shutdown: "shutdown_begin (sy_daemon s) = (addrs, d) \<Longrightarrow>
     system_step s \<lparr>sy_daemon = d, sy_tasks = mset (map TReap addrs) + sy_tasks s\<rparr>"
| step_reap: "sy_tasks s = add_mset (TReap a) ts \<Longrightarrow>
     shutdown_reap a in_time (sy_daemon s) = (res, d) \<Longrightarrow>
     system_step s \<lparr>sy_daemon = d, sy_tasks = ts\<rparr>"
| step_runtime: "system_step s (s\<lparr>sy_daemon := heap_update a (run_op op) (sy_daemon s)\<rparr>)"

inductive system_reachable :: "string \<Rightarrow> 'p system \<Rightarrow> bool" for instance_id where
  reach_init: "system_reachable instance_id \<lparr>sy_daemon = daemon_new instance_id, sy_tasks = {#}\<rparr>"
| reach_step: "system_reachable instance_id s \<Longrightarrow> system_step s s' \<Longrightarrow> system_reachable instance_id s'"

section \<open>The registry invariant\<close>

definition permits :: "task multiset \<Rightarrow> nat" where
  "permits ts = size (filter_mset (\<lambda>t. case t of TSpawn _ _ \<Rightarrow> True | TCommit _ _ _ \<Rightarrow> True
     | TDiscard _ \<Rightarrow> True | _ \<Rightarrow> False) ts)"

definition commits :: "task multiset \<Rightarrow> nat multiset" where
  "commits ts = sum_mset (image_mset (\<lambda>t. case t of TCommit _ _ a \<Rightarrow> {#a#} | _ \<Rightarrow> {#}) ts)"

lemma task_counts [simp]:
  "permits {#} = 0" "commits {#} = {#}"
  "permits (add_mset (TSpawn i spec) ts) = Suc (permits ts)"
  "permits (add_mset (TCommit i spec a) ts) = Suc (permits ts)"
  "permits (add_mset (TDiscard a) ts) = Suc (permits ts)"
  "permits (add_mset (TDelete i a) ts) = permits ts" "permits (add_mset (TReap a) ts) = permits ts"
  "commits (add_mset (TSpawn i spec) ts) = commits ts" "commits (add_mset (TDiscard a) ts) = commits ts"
  "commits (add_mset (TCommit i spec a) ts) = add_mset a (commits ts)"
  "commits (add_mset (TDelete i a) ts) = commits ts" "commits (add_mset (TReap a) ts) = commits ts"
  by (simp_all add: permits_def commits_def)

lemma reap_counts [simp]:
  "permits (image_mset TReap addrs + ts) = permits ts" "commits (image_mset TReap addrs + ts) = commits ts"
  by (induction addrs) simp_all

definition registered_ok :: "'p daemon \<Rightarrow> bool" where
  "registered_ok d \<longleftrightarrow> (\<forall>e\<in>set (dm_runtimes d). \<exists>r. dm_heap d (snd e) = Some r \<and> ro_id r = fst e)"

definition fresh_ok :: "'p daemon \<Rightarrow> bool" where
  "fresh_ok d \<longleftrightarrow> (\<forall>a\<ge>dm_next d. dm_heap d a = None)"

fun task_ok :: "'p daemon \<Rightarrow> task \<Rightarrow> bool" where
  "task_ok d (TCommit i spec a) = (a \<notin> snd ` set (dm_runtimes d) \<and>
     (\<exists>r. dm_heap d a = Some r \<and> ro_id r = i \<and> ro_spec r = spec))"
| "task_ok d _ = True"

definition commits_ok :: "'p daemon \<Rightarrow> task multiset \<Rightarrow> bool" where
  "commits_ok d ts \<longleftrightarrow> (\<forall>t\<in>#ts. task_ok d t)"

lemma commits_ok_mono:
  "commits_ok d ts \<Longrightarrow> (\<And>t. task_ok d t \<Longrightarrow> task_ok d' t) \<Longrightarrow> commits_ok d' ts"
  by (simp add: commits_ok_def)

definition live_ok :: "'p daemon \<Rightarrow> task multiset \<Rightarrow> bool" where
  "live_ok d ts \<longleftrightarrow> (\<forall>a r. dm_heap d a = Some r \<longrightarrow> \<not> ro_deleted r \<longrightarrow>
     a \<in> snd ` set (dm_runtimes d) \<or> a \<in># commits ts)"

definition heap_ok :: "'p daemon \<Rightarrow> task multiset \<Rightarrow> bool" where
  "heap_ok d ts \<longleftrightarrow> registered_ok d \<and> fresh_ok d \<and> commits_ok d ts \<and> live_ok d ts"

definition reg_inv :: "'p system \<Rightarrow> bool" where
  "reg_inv s \<longleftrightarrow>
     dm_in_flight (sy_daemon s) = permits (sy_tasks s) \<and>
     distinct (map fst (dm_runtimes (sy_daemon s))) \<and> distinct (map snd (dm_runtimes (sy_daemon s))) \<and>
     (\<forall>a. count (commits (sy_tasks s)) a \<le> 1) \<and>
     (dm_shutting_down (sy_daemon s) \<longrightarrow> dm_runtimes (sy_daemon s) = []) \<and>
     heap_ok (sy_daemon s) (sy_tasks s)"

definition keeps_runtime :: "('p runtime_obj \<Rightarrow> 'p runtime_obj) \<Rightarrow> bool" where
  "keeps_runtime f \<longleftrightarrow> (\<forall>r. ro_id (f r) = ro_id r \<and> ro_spec (f r) = ro_spec r \<and>
     (ro_deleted r \<longrightarrow> ro_deleted (f r)))"

lemma keeps_emit [simp]:
  "ro_id (emit ev r) = ro_id r" "ro_spec (emit ev r) = ro_spec r" "ro_deleted (emit ev r) = ro_deleted r"
  "ro_id (vt_send c r) = ro_id r" "ro_spec (vt_send c r) = ro_spec r" "ro_deleted (vt_send c r) = ro_deleted r"
  by (simp_all add: emit_def vt_send_def)

lemma keeps_notify [simp]: "keeps_runtime notify_deleted"
  by (auto simp: keeps_runtime_def notify_deleted_def)

lemma keeps_reaped [simp]: "keeps_runtime (mark_reaped st c)"
  by (auto simp: keeps_runtime_def mark_reaped_def)

lemma notify_deleted_deleted [simp]: "ro_deleted (notify_deleted r)"
  by (simp add: notify_deleted_def)

lemma force_delete_keeps [simp]: "keeps_runtime (\<lambda>r. snd (force_delete_and_reap t r))"
  by (auto simp: keeps_runtime_def force_delete_and_reap_def notify_deleted_def mark_reaped_def Let_def)

lemma force_delete_deleted [simp]: "ro_deleted (snd (force_delete_and_reap t r))"
  by (auto simp: force_delete_and_reap_def notify_deleted_def mark_reaped_def Let_def)

lemma keeps_run_op [simp]: "keeps_runtime (run_op op)"
proof (cases op)
  case (OpOutput adv b)
  then show ?thesis
    by (auto simp: keeps_runtime_def runtime_append_output_def split: prod.splits sum.splits)
qed (auto simp: keeps_runtime_def claim_def release_def write_input_def resize_def
      runtime_close_output_def mark_reaped_def notify_deleted_def try_in_def Let_def
    split: option.splits prod.splits sum.splits)

lemma heap_update_simps [simp]:
  "dm_runtimes (heap_update a f d) = dm_runtimes d" "dm_next (heap_update a f d) = dm_next d"
  "dm_in_flight (heap_update a f d) = dm_in_flight d"
  "dm_shutting_down (heap_update a f d) = dm_shutting_down d"
  "dm_heap (heap_update a f d) b = (if b = a then map_option f (dm_heap d a) else dm_heap d b)"
  by (simp_all add: heap_update_def)

lemma drop_permit_simps [simp]:
  "dm_runtimes (drop_permit d) = dm_runtimes d" "dm_next (drop_permit d) = dm_next d"
  "dm_in_flight (drop_permit d) = dm_in_flight d - 1"
  "dm_shutting_down (drop_permit d) = dm_shutting_down d" "dm_heap (drop_permit d) = dm_heap d"
  by (simp_all add: drop_permit_def)

lemma keeps_runtimeD:
  "keeps_runtime f \<Longrightarrow> ro_id (f r) = ro_id r" "keeps_runtime f \<Longrightarrow> ro_spec (f r) = ro_spec r"
  "keeps_runtime f \<Longrightarrow> ro_deleted r \<Longrightarrow> ro_deleted (f r)"
  by (simp_all add: keeps_runtime_def)

lemma registered_ok_update: "registered_ok d \<Longrightarrow> keeps_runtime f \<Longrightarrow> registered_ok (heap_update a f d)"
  unfolding registered_ok_def heap_update_simps by (auto simp: keeps_runtimeD)

lemma fresh_ok_update: "fresh_ok d \<Longrightarrow> fresh_ok (heap_update a f d)"
  by (auto simp: fresh_ok_def)

lemma task_ok_update: "keeps_runtime f \<Longrightarrow> task_ok d t \<Longrightarrow> task_ok (heap_update a f d) t"
  by (cases t) (auto simp: keeps_runtimeD)

lemma commits_ok_update: "commits_ok d ts \<Longrightarrow> keeps_runtime f \<Longrightarrow> commits_ok (heap_update a f d) ts"
  by (erule commits_ok_mono) (rule task_ok_update)

lemma live_ok_update: "live_ok d ts \<Longrightarrow> keeps_runtime f \<Longrightarrow> live_ok (heap_update a f d) ts"
  unfolding live_ok_def heap_update_simps using keeps_runtimeD(3) [of f] by (auto split: if_splits)

lemma heap_ok_update: "heap_ok d ts \<Longrightarrow> keeps_runtime f \<Longrightarrow> heap_ok (heap_update a f d) ts"
  by (simp add: heap_ok_def registered_ok_update fresh_ok_update commits_ok_update live_ok_update)

lemma heap_ok_tasks [simp]:
  "heap_ok d (add_mset (TSpawn i spec) ts) = heap_ok d ts" "heap_ok d (add_mset (TDiscard a) ts) = heap_ok d ts"
  "heap_ok d (add_mset (TDelete i a) ts) = heap_ok d ts" "heap_ok d (add_mset (TReap a) ts) = heap_ok d ts"
  "heap_ok d (image_mset TReap addrs + ts) = heap_ok d ts"
  by (auto simp: heap_ok_def commits_ok_def live_ok_def)

lemma task_ok_cong:
  "dm_heap d' = dm_heap d \<Longrightarrow> dm_runtimes d' = dm_runtimes d \<Longrightarrow> task_ok d' t = task_ok d t"
  by (cases t) auto

lemma heap_ok_cong:
  "dm_heap d' = dm_heap d \<Longrightarrow> dm_runtimes d' = dm_runtimes d \<Longrightarrow> dm_next d' = dm_next d \<Longrightarrow>
     heap_ok d' ts = heap_ok d ts"
  using task_ok_cong [of d' d]
  by (simp add: heap_ok_def registered_ok_def fresh_ok_def commits_ok_def live_ok_def)

lemma heap_ok_drop_permit [simp]: "heap_ok (drop_permit d) ts = heap_ok d ts"
  by (rule heap_ok_cong) simp_all

text \<open>A commit task whose runtime is deleted can go; so can a registry entry.\<close>

lemma heap_ok_drop_commit:
  assumes ok: "heap_ok d (add_mset (TCommit i spec a) ts)"
    and del: "\<And>r. dm_heap d a = Some r \<Longrightarrow> ro_deleted r"
  shows "heap_ok d ts"
proof -
  from ok have l: "live_ok d (add_mset (TCommit i spec a) ts)" by (simp add: heap_ok_def)
  have "live_ok d ts"
    unfolding live_ok_def
  proof (intro allI impI)
    fix b r assume h: "dm_heap d b = Some r" "\<not> ro_deleted r"
    with del have "b \<noteq> a" by auto
    with l h show "b \<in> snd ` set (dm_runtimes d) \<or> b \<in># commits ts"
      by (fastforce simp: live_ok_def)
  qed
  with ok show ?thesis by (simp add: heap_ok_def commits_ok_def)
qed

lemma heap_ok_unregister:
  assumes ok: "heap_ok d ts"
    and del: "\<And>a r. a \<in> A \<Longrightarrow> dm_heap d a = Some r \<Longrightarrow> ro_deleted r"
    and sub: "set runtimes \<subseteq> set (dm_runtimes d)"
    and rest: "snd ` set (dm_runtimes d) \<subseteq> A \<union> snd ` set runtimes"
  shows "heap_ok (d\<lparr>dm_runtimes := runtimes\<rparr>) ts"
proof -
  from ok have "registered_ok d" "fresh_ok d" and c: "commits_ok d ts" and l: "live_ok d ts"
    by (simp_all add: heap_ok_def)
  then have "registered_ok (d\<lparr>dm_runtimes := runtimes\<rparr>)" "fresh_ok (d\<lparr>dm_runtimes := runtimes\<rparr>)"
    using sub by (auto simp: registered_ok_def fresh_ok_def)
  moreover have "commits_ok (d\<lparr>dm_runtimes := runtimes\<rparr>) ts"
  proof (rule commits_ok_mono [OF c])
    fix t assume "task_ok d t"
    then show "task_ok (d\<lparr>dm_runtimes := runtimes\<rparr>) t"
      using image_mono [OF sub, of snd] by (cases t) auto
  qed
  moreover have "live_ok (d\<lparr>dm_runtimes := runtimes\<rparr>) ts"
    unfolding live_ok_def
  proof (intro allI impI)
    fix b r assume h: "dm_heap (d\<lparr>dm_runtimes := runtimes\<rparr>) b = Some r" and nd: "\<not> ro_deleted r"
    with del have "b \<notin> A" by auto
    moreover from l h nd have "b \<in> snd ` set (dm_runtimes d) \<or> b \<in># commits ts"
      by (auto simp: live_ok_def)
    ultimately show "b \<in> snd ` set (dm_runtimes (d\<lparr>dm_runtimes := runtimes\<rparr>)) \<or> b \<in># commits ts"
      using rest by auto
  qed
  ultimately show ?thesis by (simp add: heap_ok_def)
qed

lemma commits_mem_iff: "a \<in># commits ts \<longleftrightarrow> (\<exists>i spec. TCommit i spec a \<in># ts)"
proof (induction ts)
  case (add t ts)
  then show ?case by (cases t) auto
qed simp

lemma commits_task: "heap_ok d ts \<Longrightarrow> a \<in># commits ts \<Longrightarrow> \<exists>i spec. task_ok d (TCommit i spec a)"
  unfolding commits_mem_iff heap_ok_def commits_ok_def by blast

lemma commits_allocated: "heap_ok d ts \<Longrightarrow> a \<in># commits ts \<Longrightarrow> \<exists>r. dm_heap d a = Some r"
  by (drule (1) commits_task) auto

lemma commits_unregistered: "heap_ok d ts \<Longrightarrow> a \<in># commits ts \<Longrightarrow> a \<notin> snd ` set (dm_runtimes d)"
  by (drule (1) commits_task) auto

lemma heap_ok_spawn:
  assumes ok: "heap_ok d ts"
    and r: "ro_id r = i" "ro_spec r = spec"
    and d': "d' = d\<lparr>dm_heap := (dm_heap d)(dm_next d \<mapsto> r), dm_next := Suc (dm_next d)\<rparr>"
  shows "heap_ok d' (add_mset (TCommit i spec (dm_next d)) ts)" and "count (commits ts) (dm_next d) = 0"
proof -
  have none: "dm_heap d (dm_next d) = None" using ok by (simp add: heap_ok_def fresh_ok_def)
  have reg: "dm_next d \<notin> snd ` set (dm_runtimes d)"
    using ok none by (fastforce simp: heap_ok_def registered_ok_def)
  show "count (commits ts) (dm_next d) = 0"
    using commits_allocated [OF ok, of "dm_next d"] none by (auto intro: ccontr simp: count_eq_zero_iff)
  have "registered_ok d'"
    using ok none unfolding heap_ok_def registered_ok_def d' by fastforce
  moreover have "fresh_ok d'" using ok by (simp add: heap_ok_def fresh_ok_def d')
  moreover have "commits_ok d' (add_mset (TCommit i spec (dm_next d)) ts)"
    unfolding commits_ok_def
  proof
    fix t assume t: "t \<in># add_mset (TCommit i spec (dm_next d)) ts"
    show "task_ok d' t"
    proof (cases "t = TCommit i spec (dm_next d)")
      case True
      with reg r show ?thesis by (simp add: d')
    next
      case False
      with t ok have "task_ok d t" by (simp add: heap_ok_def commits_ok_def)
      with none show ?thesis by (cases t) (auto simp: d')
    qed
  qed
  moreover have "live_ok d' (add_mset (TCommit i spec (dm_next d)) ts)"
    using ok by (auto simp: heap_ok_def live_ok_def d')
  ultimately show "heap_ok d' (add_mset (TCommit i spec (dm_next d)) ts)" by (simp add: heap_ok_def)
qed

lemma heap_ok_register:
  assumes ok: "heap_ok d (add_mset (TCommit i spec a) ts)"
    and once: "count (commits (add_mset (TCommit i spec a) ts)) a \<le> 1"
    and new: "i \<notin> fst ` set (dm_runtimes d)"
  shows "heap_ok (d\<lparr>dm_runtimes := AList.update i a (dm_runtimes d)\<rparr>) ts"
proof -
  let ?d = "d\<lparr>dm_runtimes := AList.update i a (dm_runtimes d)\<rparr>"
  from ok obtain r where r: "dm_heap d a = Some r" "ro_id r = i" by (auto simp: heap_ok_def commits_ok_def)
  from once have "a \<notin># commits ts" by (simp add: count_eq_zero_iff)
  then have not_task: "TCommit j spec' a \<notin># ts" for j spec' by (auto simp: commits_mem_iff)
  have upd: "set (AList.update i a (dm_runtimes d)) = insert (i, a) (set (dm_runtimes d))"
  proof -
    have "AList.update i a xs = xs @ [(i, a)]" if "i \<notin> fst ` set xs" for xs :: "(string \<times> nat) list"
      using that by (induction xs) auto
    from this [OF new] show ?thesis by simp
  qed
  have "registered_ok ?d"
    using ok r unfolding heap_ok_def registered_ok_def by (auto simp: upd)
  moreover have "fresh_ok ?d" using ok by (simp add: heap_ok_def fresh_ok_def)
  moreover have "commits_ok ?d ts"
    unfolding commits_ok_def
  proof
    fix t assume t: "t \<in># ts"
    with ok have "task_ok d t" by (simp add: heap_ok_def commits_ok_def)
    with t not_task show "task_ok ?d t" by (cases t) (auto simp: upd)
  qed
  moreover have "live_ok ?d ts"
    using ok by (auto simp: heap_ok_def live_ok_def upd)
  ultimately show ?thesis by (simp add: heap_ok_def)
qed

lemma lookup_registered:
  assumes "heap_ok d ts"
  shows "lookup_runtime i d = None \<longleftrightarrow> i \<notin> fst ` set (dm_runtimes d)"
proof (cases "map_of (dm_runtimes d) i")
  case None
  then have "i \<notin> fst ` set (dm_runtimes d)" by (simp only: map_of_eq_None_iff not_False_eq_True)
  with None show ?thesis by (simp add: lookup_runtime_def)
next
  case (Some a)
  note m = map_of_SomeD [OF Some]
  with assms have "\<exists>r. dm_heap d a = Some r" by (fastforce simp: heap_ok_def registered_ok_def)
  with Some m show ?thesis by (force simp: lookup_runtime_def)
qed

lemma commit_count:
  assumes "\<forall>b. count (commits (add_mset (TCommit i spec a) ts)) b \<le> 1"
  shows "\<forall>b. count (commits ts) b \<le> 1"
proof
  fix b
  have "count (commits ts) b \<le> count (commits (add_mset (TCommit i spec a) ts)) b" by simp
  with assms show "count (commits ts) b \<le> 1" using le_trans by blast
qed

lemma reg_inv_commit:
  assumes inv: "reg_inv s" and ts: "sy_tasks s = add_mset (TCommit i spec a) ts"
    and c: "create_commit i spec a (sy_daemon s) = (res, dropped, d)"
  shows "reg_inv \<lparr>sy_daemon = d, sy_tasks = (if dropped then add_mset (TDiscard a) ts else ts)\<rparr>"
proof -
  let ?d = "sy_daemon s"
  from inv ts have ok: "heap_ok ?d (add_mset (TCommit i spec a) ts)"
    and cnt: "\<forall>b. count (commits (add_mset (TCommit i spec a) ts)) b \<le> 1" by (simp_all add: reg_inv_def)
  have drop: "heap_ok (heap_update a notify_deleted ?d) ts"
    by (rule heap_ok_drop_commit [OF heap_ok_update [OF ok keeps_notify]]) auto
  from ok obtain r where r: "dm_heap ?d a = Some r" by (auto simp: heap_ok_def commits_ok_def)
  show ?thesis
  proof (cases "dm_shutting_down ?d \<or> lookup_runtime i ?d \<noteq> None")
    case True
    with c have "dropped" "d = heap_update a notify_deleted ?d"
      by (auto simp: create_commit_def split: if_splits option.splits)
    with inv ts drop commit_count [OF cnt] show ?thesis by (simp add: reg_inv_def)
  next
    case False
    with c r have nd: "\<not> dropped" "d = drop_permit (?d\<lparr>dm_runtimes := AList.update i a (dm_runtimes ?d)\<rparr>)"
      by (auto simp: create_commit_def split: option.splits)
    from False lookup_registered [OF ok] have new: "i \<notin> fst ` set (dm_runtimes ?d)" by auto
    have "a \<notin> snd ` set (dm_runtimes ?d)" using commits_unregistered [OF ok, of a] by simp
    then have "distinct (map snd (AList.update i a (dm_runtimes ?d)))"
      "distinct (map fst (AList.update i a (dm_runtimes ?d)))"
    proof -
      have "AList.update i a xs = xs @ [(i, a)]" if "i \<notin> fst ` set xs" for xs :: "(string \<times> nat) list"
        using that by (induction xs) auto
      from this [OF new] \<open>a \<notin> _\<close> inv new
      show "distinct (map snd (AList.update i a (dm_runtimes ?d)))"
        "distinct (map fst (AList.update i a (dm_runtimes ?d)))" by (auto simp: reg_inv_def)
    qed
    with nd False inv ts commit_count [OF cnt] heap_ok_register [OF ok spec [OF cnt] new] show ?thesis
      by (simp add: reg_inv_def)
  qed
qed

lemma distinct_delete:
  "distinct (map fst xs) \<Longrightarrow> distinct (map fst (AList.delete k xs))"
  "distinct (map snd xs) \<Longrightarrow> distinct (map snd (AList.delete k xs))"
  by (induction xs) (auto simp: AList.delete_eq dest: in_set_takeD)

lemma reg_inv_heap:
  "reg_inv s \<Longrightarrow> keeps_runtime f \<Longrightarrow> reg_inv (s\<lparr>sy_daemon := heap_update a f (sy_daemon s)\<rparr>)"
  by (simp add: reg_inv_def heap_ok_update)

lemma delete_finish_cases:
  assumes "delete_finish i a t d = (res, d')"
  shows "d' = d \<or> d' = heap_update a (\<lambda>r. snd (force_delete_and_reap t r)) d \<or>
    (map_of (dm_runtimes d) i = Some a \<and>
     d' = (heap_update a (\<lambda>r. snd (force_delete_and_reap t r)) d)
            \<lparr>dm_runtimes := AList.delete i (dm_runtimes d)\<rparr>)"
  using assms by (auto simp: delete_finish_def heap_update_def Let_def
      split: option.splits prod.splits sum.splits if_splits)

lemma reg_inv_delete_finish:
  assumes inv: "reg_inv s" and ts: "sy_tasks s = add_mset (TDelete i a) ts"
    and f: "delete_finish i a t (sy_daemon s) = (res, d)"
  shows "reg_inv \<lparr>sy_daemon = d, sy_tasks = ts\<rparr>"
proof -
  let ?d = "sy_daemon s" and ?f = "\<lambda>r. snd (force_delete_and_reap t r)"
  from inv ts have ok: "heap_ok ?d ts" by (simp add: reg_inv_def)
  from delete_finish_cases [OF f] consider "d = ?d" | "d = heap_update a ?f ?d"
    | "map_of (dm_runtimes ?d) i = Some a" "d = (heap_update a ?f ?d)\<lparr>dm_runtimes := AList.delete i (dm_runtimes ?d)\<rparr>"
    by blast
  then show ?thesis
  proof cases
    case 1
    with inv ts show ?thesis by (simp add: reg_inv_def)
  next
    case 2
    with inv ts heap_ok_update [OF ok force_delete_keeps] show ?thesis by (simp add: reg_inv_def)
  next
    case 3
    have "heap_ok d ts"
      unfolding 3(2)
    proof (rule heap_ok_unregister [OF heap_ok_update [OF ok force_delete_keeps], where A = "{a}"])
      show "\<And>b r. b \<in> {a} \<Longrightarrow> dm_heap (heap_update a ?f ?d) b = Some r \<Longrightarrow> ro_deleted r" by auto
      show "set (AList.delete i (dm_runtimes ?d)) \<subseteq> set (dm_runtimes (heap_update a ?f ?d))"
        by (auto simp: AList.delete_eq)
      show "snd ` set (dm_runtimes (heap_update a ?f ?d)) \<subseteq> {a} \<union> snd ` set (AList.delete i (dm_runtimes ?d))"
      proof
        fix b assume "b \<in> snd ` set (dm_runtimes (heap_update a ?f ?d))"
        then obtain j where j: "(j, b) \<in> set (dm_runtimes ?d)" by auto
        have "map_of (dm_runtimes ?d) j = Some b"
          using inv j by (simp add: reg_inv_def)
        with 3(1) j show "b \<in> {a} \<union> snd ` set (AList.delete i (dm_runtimes ?d))"
          by (cases "j = i") (force simp: AList.delete_eq)+
      qed
    qed
    with 3 inv ts distinct_delete show ?thesis by (auto simp: reg_inv_def)
  qed
qed

lemma fold_notify_simps [simp]:
  "dm_runtimes (fold (\<lambda>a. heap_update a notify_deleted) addrs d) = dm_runtimes d"
  "dm_in_flight (fold (\<lambda>a. heap_update a notify_deleted) addrs d) = dm_in_flight d"
  "dm_shutting_down (fold (\<lambda>a. heap_update a notify_deleted) addrs d) = dm_shutting_down d"
  "dm_next (fold (\<lambda>a. heap_update a notify_deleted) addrs d) = dm_next d"
  by (induction addrs arbitrary: d) simp_all

lemma fold_notify_drain:
  "fold (\<lambda>a. heap_update a notify_deleted) addrs (d\<lparr>dm_shutting_down := b, dm_runtimes := rs\<rparr>) =
   (fold (\<lambda>a. heap_update a notify_deleted) addrs d)\<lparr>dm_shutting_down := b, dm_runtimes := rs\<rparr>"
proof (induction addrs arbitrary: d)
  case (Cons a addrs)
  have "heap_update a notify_deleted (d\<lparr>dm_shutting_down := b, dm_runtimes := rs\<rparr>) =
      (heap_update a notify_deleted d)\<lparr>dm_shutting_down := b, dm_runtimes := rs\<rparr>"
    by (simp add: heap_update_def)
  with Cons.IH show ?case by simp
qed simp

lemma fold_notify_deleted:
  "\<forall>r. dm_heap d a = Some r \<longrightarrow> a \<in> A \<longrightarrow> ro_deleted r \<Longrightarrow> a \<in> A \<union> set addrs \<Longrightarrow>
     dm_heap (fold (\<lambda>a. heap_update a notify_deleted) addrs d) a = Some r \<Longrightarrow> ro_deleted r"
proof (induction addrs arbitrary: d A)
  case (Cons b addrs)
  show ?case
  proof (rule Cons.IH [where d = "heap_update b notify_deleted d" and A = "insert b A"])
    show "\<forall>r. dm_heap (heap_update b notify_deleted d) a = Some r \<longrightarrow> a \<in> insert b A \<longrightarrow> ro_deleted r"
      using Cons.prems(1) by auto
  qed (use Cons.prems in auto)
qed auto

lemma heap_ok_fold_notify:
  "heap_ok d ts \<Longrightarrow> heap_ok (fold (\<lambda>a. heap_update a notify_deleted) addrs d) ts"
  by (induction addrs arbitrary: d) (simp_all add: heap_ok_update)

lemma reg_inv_shutdown:
  assumes inv: "reg_inv s" and sd: "shutdown_begin (sy_daemon s) = (addrs, d)"
  shows "reg_inv \<lparr>sy_daemon = d, sy_tasks = mset (map TReap addrs) + sy_tasks s\<rparr>"
proof -
  let ?d = "sy_daemon s" and ?n = "\<lambda>a. heap_update a notify_deleted"
  let ?e = "fold ?n addrs ?d"
  have addrs: "addrs = map snd (dm_runtimes ?d)"
    and d: "d = ?e\<lparr>dm_shutting_down := True, dm_runtimes := []\<rparr>"
    using sd by (auto simp: shutdown_begin_def Let_def fold_notify_drain)
  from inv have ok: "heap_ok ?d (sy_tasks s)" by (simp add: reg_inv_def)
  have "heap_ok (?e\<lparr>dm_runtimes := []\<rparr>) (sy_tasks s)"
  proof (rule heap_ok_unregister [OF heap_ok_fold_notify [OF ok], where A = "set addrs"])
    show "\<And>a r. a \<in> set addrs \<Longrightarrow> dm_heap ?e a = Some r \<Longrightarrow> ro_deleted r"
      by (rule fold_notify_deleted [where d = ?d and A = "{}"]) auto
  qed (auto simp: addrs)
  then have "heap_ok d (sy_tasks s)"
    unfolding d by (subst heap_ok_cong [where d = "?e\<lparr>dm_runtimes := []\<rparr>"]) simp_all
  with inv show ?thesis by (simp add: reg_inv_def d)
qed

lemma shutdown_reap_cases:
  "shutdown_reap a t d = (res, d') \<Longrightarrow> d' = d \<or> d' = heap_update a (\<lambda>r. snd (force_delete_and_reap t r)) d"
  by (auto simp: shutdown_reap_def heap_update_def split: option.splits prod.splits)

lemma create_begin_permit:
  "create_begin i spec d = (Inr None, d') \<Longrightarrow>
     d' = d\<lparr>dm_in_flight := Suc (dm_in_flight d)\<rparr> \<and> \<not> dm_shutting_down d \<and> lookup_runtime i d = None"
  by (auto simp: create_begin_def result_simps split: if_splits option.splits sum.splits)

lemma reg_inv_step: "system_step s s' \<Longrightarrow> reg_inv s \<Longrightarrow> reg_inv s'"
proof (induction rule: system_step.induct)
  case (step_create i spec s d)
  from create_begin_permit [OF step_create.hyps] step_create.prems
  have "heap_ok d (sy_tasks s)"
    by (subst heap_ok_cong [where d = "sy_daemon s"]) (simp_all add: reg_inv_def)
  with create_begin_permit [OF step_create.hyps] step_create.prems show ?case by (simp add: reg_inv_def)
next
  case (step_spawn s i spec ts fs has_vt spawn a d)
  then obtain epoch parser where a: "a = dm_next (sy_daemon s)"
    and d: "d = (sy_daemon s)\<lparr>dm_heap := (dm_heap (sy_daemon s))(dm_next (sy_daemon s) \<mapsto>
              spawned_runtime i epoch spec has_vt parser), dm_next := Suc (dm_next (sy_daemon s))\<rparr>"
    by (auto simp: create_spawn_def split: sum.splits)
  from step_spawn have ok: "heap_ok (sy_daemon s) ts" by (simp add: reg_inv_def)
  from step_spawn a d heap_ok_spawn [OF ok _ _ d] show ?case
    by (simp add: reg_inv_def spawned_runtime_def)
next
  case (step_spawn_failed s i spec ts fs has_vt spawn e d)
  then have "d = drop_permit (sy_daemon s)" by (auto simp: create_spawn_def split: sum.splits prod.splits)
  with step_spawn_failed show ?case by (simp add: reg_inv_def)
next
  case (step_commit s i spec a ts res dropped d)
  then show ?case by (intro reg_inv_commit)
next
  case (step_cancel_commit s i spec a ts)
  have "heap_ok (heap_update a notify_deleted (sy_daemon s)) ts"
    by (rule heap_ok_drop_commit [of _ i spec a]) (use step_cancel_commit in \<open>auto simp: reg_inv_def heap_ok_update\<close>)
  with step_cancel_commit commit_count [of i spec a ts] show ?case
    by (simp add: reg_inv_def discard_spawned_def)
next
  case (step_discarded s a ts code)
  then show ?case by (simp add: reg_inv_def discard_reaped_def heap_ok_update)
next
  case (step_delete i s a d)
  then have "d = heap_update a notify_deleted (sy_daemon s)" by (auto simp: delete_mark_def split: option.splits)
  with step_delete show ?case by (simp add: reg_inv_def heap_ok_update)
next
  case (step_delete_finish s i a ts t res d)
  then show ?case by (intro reg_inv_delete_finish)
next
  case (step_shutdown s addrs d)
  then show ?case by (intro reg_inv_shutdown)
next
  case (step_reap s a ts t res d)
  with shutdown_reap_cases [of a t "sy_daemon s" res d] show ?case by (auto simp: reg_inv_def heap_ok_update)
next
  case (step_runtime s a op)
  then show ?case by (intro reg_inv_heap keeps_run_op)
qed (auto simp: reg_inv_def)

lemma reg_inv_init: "reg_inv \<lparr>sy_daemon = daemon_new i, sy_tasks = {#}\<rparr>"
  by (simp add: reg_inv_def daemon_new_def heap_ok_def registered_ok_def fresh_ok_def commits_ok_def live_ok_def)

lemma reachable_inv: "system_reachable i s \<Longrightarrow> reg_inv s"
  by (induction rule: system_reachable.induct) (auto intro: reg_inv_init reg_inv_step)

section \<open>What the registry guarantees\<close>

lemma map_filter_ids:
  assumes "\<forall>e\<in>set xs. \<exists>r. h (snd e) = Some r \<and> ro_id r = fst e"
  shows "map ro_id (List.map_filter (\<lambda>(i, a). h a) xs) = map fst xs"
    and "set (List.map_filter (\<lambda>(i, a). h a) xs) = {r. \<exists>(i, a)\<in>set xs. h a = Some r}"
  using assms by (induction xs) (auto simp: List.map_filter_def)

lemma distinct_map_filterI: "distinct (map f xs) \<Longrightarrow> distinct (map f (filter p xs))"
  by (induction xs) auto

text \<open>In every reachable state the daemon lists each visible runtime once, sorted by identifier, and a
  lookup finds exactly the listed runtimes, each under its own identifier.\<close>

lemma listing_agrees_with_lookup:
  assumes "system_reachable inst s"
  shows "let d = sy_daemon s in
     distinct (map rt_id (list_runtimes d)) \<and> sorted (map rt_id (list_runtimes d)) \<and>
     (\<forall>i rt. get_runtime i d = Inr rt \<longleftrightarrow> rt \<in> set (list_runtimes d) \<and> rt_id rt = i)"
proof -
  let ?d = "sy_daemon s" and ?rs = "dm_runtimes (sy_daemon s)"
  from reachable_inv [OF assms] have reg: "\<forall>e\<in>set ?rs. \<exists>r. dm_heap ?d (snd e) = Some r \<and> ro_id r = fst e"
    and dist: "distinct (map fst ?rs)"
    by (simp_all add: reg_inv_def heap_ok_def registered_ok_def)
  let ?all = "List.map_filter (\<lambda>(i, a). dm_heap ?d a) ?rs"
  note ids = map_filter_ids [OF reg]
  have "map rt_id (map description (filter (\<lambda>r. \<not> ro_deleted r) ?all)) =
      map ro_id (filter (\<lambda>r. \<not> ro_deleted r) ?all)" by (simp add: description_def)
  also have "distinct \<dots>" using ids(1) dist by (intro distinct_map_filterI) simp
  finally have d: "distinct (map rt_id (list_runtimes ?d))"
    unfolding list_runtimes_def
    by (subst mset_eq_imp_distinct_iff [where ys = "map rt_id (map description (filter (\<lambda>r. \<not> ro_deleted r) ?all))"])
      (simp_all add: image_mset.compositionality)
  have s: "sorted (map rt_id (list_runtimes ?d))" by (simp add: list_runtimes_def)
  have "get_runtime i ?d = Inr rt \<longleftrightarrow> rt \<in> set (list_runtimes ?d) \<and> rt_id rt = i" for i rt
  proof -
    have "get_runtime i ?d = Inr rt \<longleftrightarrow>
        (\<exists>a r. map_of ?rs i = Some a \<and> dm_heap ?d a = Some r \<and> \<not> ro_deleted r \<and> rt = description r)"
      by (auto simp: get_runtime_def lookup_runtime_def Option.bind_eq_Some_conv split: option.splits if_splits)
    also have "\<dots> \<longleftrightarrow> (\<exists>a r. (i, a) \<in> set ?rs \<and> dm_heap ?d a = Some r \<and> \<not> ro_deleted r \<and> rt = description r)"
      using dist by simp
    also have "\<dots> \<longleftrightarrow> rt \<in> set (list_runtimes ?d) \<and> rt_id rt = i"
      using reg by (fastforce simp: list_runtimes_def ids(2) description_def)
    finally show ?thesis .
  qed
  with d s show ?thesis by simp
qed

text \<open>C20: Shutdown leaves nothing running: once the gate is closed and the last spawn permit is given back,
  every runtime that was ever started has been marked deleted and killed, none is listed, and no request
  can create one.\<close>

theorem shutdown_leaves_no_runtime:
  assumes "system_reachable inst s" "dm_shutting_down (sy_daemon s)" "spawns_finished (sy_daemon s)"
  shows "(\<forall>a r. dm_heap (sy_daemon s) a = Some r \<longrightarrow> ro_deleted r) \<and>
    list_runtimes (sy_daemon s) = [] \<and>
    create_begin i spec (sy_daemon s) = (Inl DShuttingDown, sy_daemon s)"
proof (intro conjI)
  from reachable_inv [OF assms(1)] assms(2,3) have "permits (sy_tasks s) = 0" "dm_runtimes (sy_daemon s) = []"
    "live_ok (sy_daemon s) (sy_tasks s)"
    by (simp_all add: reg_inv_def spawns_finished_def heap_ok_def)
  moreover from this(1) have "a \<notin># commits (sy_tasks s)" for a
    unfolding commits_mem_iff by (auto dest!: multi_member_split)
  ultimately show "\<forall>a r. dm_heap (sy_daemon s) a = Some r \<longrightarrow> ro_deleted r"
    "list_runtimes (sy_daemon s) = []"
    by (auto simp: live_ok_def list_runtimes_def List.map_filter_def)
  show "create_begin i spec (sy_daemon s) = (Inl DShuttingDown, sy_daemon s)"
    using assms(2) by (simp add: create_begin_def)
qed

section \<open>Creation and deletion as operations\<close>

text \<open>The state that the operations keep, without other requests in flight.\<close>

definition daemon_ok :: "'p daemon \<Rightarrow> bool" where
  "daemon_ok d \<longleftrightarrow> distinct (map fst (dm_runtimes d)) \<and> distinct (map snd (dm_runtimes d)) \<and>
     registered_ok d \<and> fresh_ok d"

lemma reachable_daemon_ok: "system_reachable inst s \<Longrightarrow> daemon_ok (sy_daemon s)"
  using reachable_inv [of inst s] by (simp add: daemon_ok_def reg_inv_def heap_ok_def)

definition visible :: "'p daemon \<Rightarrow> string \<Rightarrow> 'p runtime_obj \<Rightarrow> bool" where
  "visible d i r \<longleftrightarrow> lookup_runtime i d = Some r \<and> \<not> ro_deleted r"

lemma create_cases:
  assumes ok: "daemon_ok d" and c: "daemon_create fs has_vt spawn i spec d = (Inr rt, d')"
  shows "(\<exists>r. visible d i r \<and> ro_spec r = spec \<and> rt = description r \<and> d' = d) \<or>
    (\<exists>r epoch p. lookup_runtime i d = None \<and> r = spawned_runtime i epoch spec has_vt p \<and> rt = description r \<and>
       d' = d\<lparr>dm_heap := (dm_heap d)(dm_next d \<mapsto> r), dm_next := Suc (dm_next d),
              dm_runtimes := AList.update i (dm_next d) (dm_runtimes d)\<rparr> \<and>
       \<not> dm_shutting_down d \<and> validate_runtime_id i = Inr () \<and> validate_spec fs spec = Inr ())"
proof (cases "lookup_runtime i d")
  case (Some r)
  then have "create_begin i spec d \<noteq> (Inr None, d1)" "create_begin i spec d \<noteq> (Inr (Some (Created x)), d1)" for d1 x
    by (auto simp: create_begin_def compare_existing_def result_simps split: sum.splits if_splits)
  with Some c have "visible d i r \<and> ro_spec r = spec \<and> rt = description r \<and> d' = d"
    by (auto simp: daemon_create_def create_begin_def compare_existing_def visible_def result_simps
        split: prod.splits sum.splits option.splits create_outcome.splits if_splits)
  then show ?thesis by blast
next
  case None
  have none: "dm_heap d (dm_next d) = None" using ok by (simp add: daemon_ok_def fresh_ok_def)
  have reg: "lookup_runtime i (d\<lparr>dm_heap := (dm_heap d)(dm_next d \<mapsto> r), dm_next := n, dm_in_flight := k\<rparr>) = None"
    for r n k
  proof (cases "map_of (dm_runtimes d) i")
    case (Some a)
    then have "(i, a) \<in> set (dm_runtimes d)" by (rule map_of_SomeD)
    with ok obtain q where "dm_heap d a = Some q" by (fastforce simp: daemon_ok_def registered_ok_def)
    with Some None show ?thesis by (simp add: lookup_runtime_def)
  qed (simp add: lookup_runtime_def)
  from None c obtain d1 where b: "create_begin i spec d = (Inr None, d1)" and nsd: "\<not> dm_shutting_down d"
    and vid: "validate_runtime_id i = Inr ()"
    by (cases "dm_shutting_down d"; cases "validate_runtime_id i")
      (auto simp: daemon_create_def create_begin_def split: prod.splits)
  from create_begin_permit [OF b] have d1: "d1 = d\<lparr>dm_in_flight := Suc (dm_in_flight d)\<rparr>" by simp
  from c b obtain epoch p where sp: "validate_spec fs spec = Inr ()" "spawn = Inr (epoch, p)"
    by (auto simp: daemon_create_def create_spawn_def result_simps split: prod.splits sum.splits)
  let ?r = "spawned_runtime i epoch spec has_vt p"
  let ?d2 = "d1\<lparr>dm_heap := (dm_heap d)(dm_next d \<mapsto> ?r), dm_next := Suc (dm_next d)\<rparr>"
  have s2: "create_spawn fs has_vt spawn i spec d1 = (Inr (dm_next d), ?d2)"
    using sp by (simp add: create_spawn_def d1)
  have l2: "lookup_runtime i ?d2 = None"
    using reg [where r = ?r and n = "Suc (dm_next d)" and k = "Suc (dm_in_flight d)"] by (simp add: d1 lookup_runtime_def)
  have c2: "create_commit i spec (dm_next d) ?d2 = (Inr (Created (description ?r)), False,
      drop_permit (?d2\<lparr>dm_runtimes := AList.update i (dm_next d) (dm_runtimes d)\<rparr>))"
    using nsd l2 by (simp add: create_commit_def d1)
  from c b s2 c2 have "rt = description ?r"
    "d' = drop_permit (?d2\<lparr>dm_runtimes := AList.update i (dm_next d) (dm_runtimes d)\<rparr>)"
    by (simp_all add: daemon_create_def)
  then have "d' = d\<lparr>dm_heap := (dm_heap d)(dm_next d \<mapsto> ?r), dm_next := Suc (dm_next d),
              dm_runtimes := AList.update i (dm_next d) (dm_runtimes d)\<rparr>"
    by (simp add: d1 drop_permit_def)
  with None \<open>rt = description ?r\<close> nsd vid sp show ?thesis by blast
qed

lemma daemon_ok_create:
  assumes ok: "daemon_ok d" and c: "daemon_create fs has_vt spawn i spec d = (Inr rt, d')"
  shows "daemon_ok d'" and "\<exists>r. visible d' i r \<and> ro_spec r = spec \<and> rt = description r"
    and "j \<noteq> i \<Longrightarrow> lookup_runtime j d' = lookup_runtime j d"
proof -
  have "daemon_ok d' \<and> (\<exists>r. visible d' i r \<and> ro_spec r = spec \<and> rt = description r) \<and>
    (\<forall>j. j \<noteq> i \<longrightarrow> lookup_runtime j d' = lookup_runtime j d)"
    using create_cases [OF ok c]
  proof (elim disjE exE conjE)
    fix r assume "visible d i r" "ro_spec r = spec" "rt = description r" "d' = d"
    with ok show ?thesis by blast
  next
    fix r epoch p
    assume l: "lookup_runtime i d = None" and r: "r = spawned_runtime i epoch spec has_vt p"
      and rt: "rt = description r"
      and d': "d' = d\<lparr>dm_heap := (dm_heap d)(dm_next d \<mapsto> r), dm_next := Suc (dm_next d),
              dm_runtimes := AList.update i (dm_next d) (dm_runtimes d)\<rparr>"
    have "heap_ok d {#}" if "live_ok d {#}" using ok that by (simp add: heap_ok_def daemon_ok_def commits_ok_def)
    have none: "dm_heap d (dm_next d) = None" using ok by (simp add: daemon_ok_def fresh_ok_def)
    have alloc: "b \<noteq> dm_next d" if "(j, b) \<in> set (dm_runtimes d)" for j b
      using ok that none by (fastforce simp: daemon_ok_def registered_ok_def)
    have new: "i \<notin> fst ` set (dm_runtimes d)"
    proof
      assume "i \<in> fst ` set (dm_runtimes d)"
      then obtain b where b: "(i, b) \<in> set (dm_runtimes d)" by auto
      then have "map_of (dm_runtimes d) i = Some b" using ok by (simp add: daemon_ok_def)
      with l b ok show False by (fastforce simp: lookup_runtime_def daemon_ok_def registered_ok_def)
    qed
    have upd: "AList.update i (dm_next d) xs = xs @ [(i, dm_next d)]" if "i \<notin> fst ` set xs" for xs
      using that by (induction xs) auto
    have "daemon_ok d'"
      using ok new none alloc unfolding daemon_ok_def registered_ok_def fresh_ok_def d'
      by (auto simp: upd [OF new] r spawned_runtime_def)
    moreover have "visible d' i r" by (simp add: visible_def lookup_runtime_def d' update_conv' r spawned_runtime_def)
    moreover have "lookup_runtime j d' = lookup_runtime j d" if "j \<noteq> i" for j
    proof (cases "map_of (dm_runtimes d) j")
      case (Some b)
      with alloc [OF map_of_SomeD [OF Some]] that show ?thesis
        by (simp add: lookup_runtime_def d' update_conv')
    qed (use that in \<open>simp add: lookup_runtime_def d' update_conv'\<close>)
    ultimately show ?thesis using rt r by (auto simp: spawned_runtime_def)
  qed
  then show "daemon_ok d'" "\<exists>r. visible d' i r \<and> ro_spec r = spec \<and> rt = description r"
    "j \<noteq> i \<Longrightarrow> lookup_runtime j d' = lookup_runtime j d" by blast+
qed

lemma visible_create:
  "visible d i r \<Longrightarrow> \<not> dm_shutting_down d \<Longrightarrow> validate_runtime_id i = Inr () \<Longrightarrow>
     daemon_create fs has_vt spawn i spec d =
       ((if ro_spec r = spec then Inr (description r) else Inl (DConflict i)), d)"
  by (simp add: daemon_create_def create_begin_def visible_def compare_existing_def)

text \<open>Creation is idempotent: after a creation has returned a runtime, repeating it with the same
  specification returns the same runtime and changes nothing, whatever has become of the directory or
  the shell since, and any other specification under this identifier is a conflict.\<close>

lemma creation_is_idempotent:
  assumes reach: "system_reachable inst s"
    and c: "daemon_create fs has_vt spawn i spec (sy_daemon s) = (Inr rt, d)"
    and up: "\<not> dm_shutting_down d" "validate_runtime_id i = Inr ()"
  shows "daemon_create fs' has_vt' spawn' i spec d = (Inr rt, d) \<and>
    (spec' \<noteq> spec \<longrightarrow> daemon_create fs' has_vt' spawn' i spec' d = (Inl (DConflict i), d)) \<and>
    get_runtime i d = Inr rt"
proof (intro conjI impI)
  obtain r where r: "visible d i r" "ro_spec r = spec" "rt = description r"
    using daemon_ok_create(2) [OF reachable_daemon_ok [OF reach] c] by blast
  note v = visible_create [OF r(1) up]
  show "daemon_create fs' has_vt' spawn' i spec d = (Inr rt, d)" "get_runtime i d = Inr rt"
    using r v by (auto simp: get_runtime_def visible_def)
  assume "spec' \<noteq> spec"
  then show "daemon_create fs' has_vt' spawn' i spec' d = (Inl (DConflict i), d)" using r v by auto
qed

lemma delete_effect:
  assumes ok: "daemon_ok d" and del: "daemon_delete t i d = (Inr (), d')"
  shows "daemon_ok d'" and "lookup_runtime i d' = None"
    and "j \<noteq> i \<Longrightarrow> lookup_runtime j d' = lookup_runtime j d"
proof -
  have "daemon_ok d' \<and> lookup_runtime i d' = None \<and> (\<forall>j. j \<noteq> i \<longrightarrow> lookup_runtime j d' = lookup_runtime j d)"
  proof (cases "map_of (dm_runtimes d) i")
    case None
    with del ok show ?thesis by (simp add: daemon_delete_def delete_mark_def lookup_runtime_def)
  next
    case (Some a)
    let ?f = "\<lambda>r. snd (force_delete_and_reap t (notify_deleted r))"
    from map_of_SomeD [OF Some] ok obtain r where r: "dm_heap d a = Some r"
      by (fastforce simp: daemon_ok_def registered_ok_def)
    have d': "d' = (heap_update a ?f d)\<lparr>dm_runtimes := AList.delete i (dm_runtimes d)\<rparr>"
      using del Some r
      by (auto simp: daemon_delete_def delete_mark_def delete_finish_def heap_update_def Let_def
          split: prod.splits sum.splits)
    have other: "map_of (dm_runtimes d) j \<noteq> Some a" if "j \<noteq> i" for j
    proof
      assume "map_of (dm_runtimes d) j = Some a"
      with Some have "(j, a) \<in> set (dm_runtimes d)" "(i, a) \<in> set (dm_runtimes d)" by (auto dest: map_of_SomeD)
      moreover from ok have "inj_on snd (set (dm_runtimes d))" by (simp add: daemon_ok_def distinct_map)
      ultimately have "(j, a) = (i, a)" by (intro inj_onD [of snd "set (dm_runtimes d)"]) simp_all
      with that show False by simp
    qed
    have k: "keeps_runtime ?f"
      using keeps_notify force_delete_keeps [of t] unfolding keeps_runtime_def by metis
    have "daemon_ok d'"
      using ok registered_ok_update [OF _ k, of d a] fresh_ok_update [of d a ?f] distinct_delete
      unfolding daemon_ok_def d' registered_ok_def fresh_ok_def
      by (auto simp: AList.delete_eq)
    moreover have "lookup_runtime i d' = None" by (simp add: lookup_runtime_def d' delete_conv')
    moreover have "lookup_runtime j d' = lookup_runtime j d" if "j \<noteq> i" for j
      using that other [OF that] by (cases "map_of (dm_runtimes d) j") (auto simp: lookup_runtime_def d' delete_conv')
    ultimately show ?thesis by blast
  qed
  then show "daemon_ok d'" "lookup_runtime i d' = None" "j \<noteq> i \<Longrightarrow> lookup_runtime j d' = lookup_runtime j d"
    by blast+
qed

text \<open>A deletion that succeeds removes this runtime and no other one, and can be repeated; one whose
  process cannot be reaped in time keeps the identifier occupied, invisible but not free, so that it
  can be deleted again and is not created anew meanwhile.\<close>

lemma deletion_removes_exactly_one:
  assumes reach: "system_reachable inst s" and d: "daemon_delete in_time i (sy_daemon s) = (res, d')"
  shows "(res = Inr () \<longrightarrow> get_runtime i d' = Inl (DNotFound i) \<and> daemon_delete t i d' = (Inr (), d') \<and>
            (\<forall>j. j \<noteq> i \<longrightarrow> get_runtime j d' = get_runtime j (sy_daemon s))) \<and>
    (res \<noteq> Inr () \<longrightarrow> get_runtime i d' = Inl (DNotFound i) \<and>
            (\<exists>e. daemon_create fs v sp i spec d' = (Inl e, d')))"
proof (rule conjI; rule impI)
  let ?d = "sy_daemon s"
  note ok = reachable_daemon_ok [OF reach]
  show "get_runtime i d' = Inl (DNotFound i) \<and> daemon_delete t i d' = (Inr (), d') \<and>
      (\<forall>j. j \<noteq> i \<longrightarrow> get_runtime j d' = get_runtime j ?d)" if "res = Inr ()"
  proof -
    from d that have d: "daemon_delete in_time i ?d = (Inr (), d')" by simp
    note e = delete_effect [OF ok d]
    from e(1,2) have "map_of (dm_runtimes d') i = None"
      by (cases "map_of (dm_runtimes d') i")
        (fastforce simp: lookup_runtime_def daemon_ok_def registered_ok_def dest: map_of_SomeD)+
    with e show ?thesis by (simp add: get_runtime_def daemon_delete_def delete_mark_def)
  qed
  show "get_runtime i d' = Inl (DNotFound i) \<and> (\<exists>e. daemon_create fs v sp i spec d' = (Inl e, d'))"
    if "res \<noteq> Inr ()"
  proof (cases "map_of (dm_runtimes ?d) i")
    case None
    with d that show ?thesis by (simp add: daemon_delete_def delete_mark_def)
  next
    case (Some a)
    from map_of_SomeD [OF Some] ok obtain r where r: "dm_heap ?d a = Some r"
      by (fastforce simp: daemon_ok_def registered_ok_def)
    let ?r = "snd (force_delete_and_reap in_time (notify_deleted r))"
    have "lookup_runtime i d' = Some ?r"
      using d Some r that
      by (auto simp: daemon_delete_def delete_mark_def delete_finish_def lookup_runtime_def Let_def
          split: prod.splits sum.splits)
    moreover have "ro_deleted ?r" by simp
    ultimately show ?thesis
      by (auto simp: get_runtime_def daemon_create_def create_begin_def compare_existing_def try_in_def
          split: sum.splits)
  qed
qed

section \<open>Witnesses\<close>

definition sample_fs :: file_metadata where
  "sample_fs = \<lparr>fs_dir = \<lambda>_. Inr True, fs_exec = \<lambda>_. Inr True\<rparr>"

lemma sample_spec_valid: "validate_spec sample_fs sample_spec = Inr ()"
  by (simp add: validate_spec_def sample_spec_def sample_fs_def daemon_validate_dimensions_def
      path_is_absolute_def fcard.rep_eq)

definition sample_daemon :: "unit daemon" where
  "sample_daemon = snd (daemon_create sample_fs False (Inr (''e'', ())) ''t'' sample_spec (daemon_new ''i''))"

lemma sample_id_valid: "validate_runtime_id ''t'' = Inr ()"
proof -
  have "chars ''t'' = [''t'']" by simp
  then show ?thesis
    by (simp add: validate_runtime_id_def MAX_RUNTIME_ID_BYTES_def is_control_def code_point_def byte_of_def)
qed

lemmas sample_daemon_defs = daemon_create_def create_begin_def create_spawn_def create_commit_def
  sample_spec_valid sample_id_valid lookup_runtime_def daemon_new_def drop_permit_def heap_update_def

lemma sample_create:
  "daemon_create sample_fs False (Inr (''e'', ())) ''t'' sample_spec (daemon_new ''i'') =
     (Inr (description (spawned_runtime ''t'' ''e'' sample_spec False ())), sample_daemon)"
  by (simp add: sample_daemon_def sample_daemon_defs)

lemma sample_initial: "system_reachable ''i'' \<lparr>sy_daemon = daemon_new ''i'', sy_tasks = {#}\<rparr>"
  by (rule reach_init)

lemma listing_agrees_with_lookup_witness:
  "let d = daemon_new ''i'' :: unit daemon in
     distinct (map rt_id (list_runtimes d)) \<and> sorted (map rt_id (list_runtimes d)) \<and>
     (\<forall>i rt. get_runtime i d = Inr rt \<longleftrightarrow> rt \<in> set (list_runtimes d) \<and> rt_id rt = i)"
  using listing_agrees_with_lookup [OF sample_initial] by simp

text \<open>A registered runtime, reached through the three steps of its creation.\<close>

lemma sample_reachable: "system_reachable ''i'' \<lparr>sy_daemon = sample_daemon, sy_tasks = {#}\<rparr>"
proof -
  let ?d0 = "daemon_new ''i'' :: unit daemon"
  let ?d1 = "?d0\<lparr>dm_in_flight := Suc 0\<rparr>"
  let ?d2 = "snd (create_spawn sample_fs False (Inr (''e'', ())) ''t'' sample_spec ?d1)"
  let ?s1 = "\<lparr>sy_daemon = ?d1, sy_tasks = {#TSpawn ''t'' sample_spec#}\<rparr>"
  let ?s2 = "\<lparr>sy_daemon = ?d2, sy_tasks = {#TCommit ''t'' sample_spec 0#}\<rparr>"
  have "system_reachable ''i'' ?s1"
    using step_create [of "''t''" sample_spec "\<lparr>sy_daemon = ?d0, sy_tasks = {#}\<rparr>" ?d1]
    by (intro reach_step [OF reach_init]) (simp add: sample_daemon_defs)
  moreover have "system_step ?s1 ?s2"
    using step_spawn [of ?s1 "''t''" sample_spec "{#}" sample_fs False "Inr (''e'', ())" 0 ?d2]
    by (simp add: sample_daemon_defs)
  moreover have "system_step ?s2 \<lparr>sy_daemon = sample_daemon, sy_tasks = {#}\<rparr>"
    using step_commit [of ?s2 "''t''" sample_spec 0 "{#}" _ False sample_daemon]
    by (simp add: sample_daemon_def sample_daemon_defs)
  ultimately show ?thesis by (blast intro: reach_step)
qed

theorem shutdown_leaves_no_runtime_witness:
  "let s = \<lparr>sy_daemon = snd (shutdown_begin sample_daemon), sy_tasks = {#TReap 0#}\<rparr>
   in dm_shutting_down (sy_daemon s) \<and> spawns_finished (sy_daemon s) \<and>
      (\<forall>a r. dm_heap (sy_daemon s) a = Some r \<longrightarrow> ro_deleted r)"
proof -
  let ?s = "\<lparr>sy_daemon = snd (shutdown_begin sample_daemon), sy_tasks = {#TReap 0#}\<rparr>"
  have "system_reachable ''i'' ?s"
    using step_shutdown [of "\<lparr>sy_daemon = sample_daemon, sy_tasks = {#}\<rparr>" "[0]" "snd (shutdown_begin sample_daemon)"]
    by (intro reach_step [OF sample_reachable])
      (simp add: shutdown_begin_def sample_daemon_def sample_daemon_defs)
  moreover have "dm_shutting_down (sy_daemon ?s)" "spawns_finished (sy_daemon ?s)"
    by (simp_all add: shutdown_begin_def sample_daemon_def sample_daemon_defs spawns_finished_def)
  ultimately show ?thesis using shutdown_leaves_no_runtime [of "''i''" ?s] by simp
qed

end
