(* ===== verification/Term_Manager.thy ===== *)
theory Term_Manager
  imports Term_Layout "HOL-Library.Multiset"
begin

text \<open>
  The terminal manager of the server: \<open>state.rs\<close>, \<open>lifecycle/state.rs\<close>,
  \<open>tabs/mutations.rs\<close>, \<open>tabs/queries.rs\<close>, \<open>tabs/workspace.rs\<close>,
  \<open>tabs/creation\<close>, \<open>panes/mutations\<close> and \<open>project_dock\<close> under
  \<open>crates/server/src/terminal/\<close>. The state holds the tabs, the workspaces that are being
  removed, and the tab list last published to subscribers. Parameters: \<open>save\<close>, the outcome of
  writing the metadata file; the time; fresh identifiers; the answers of the terminal daemon. An
  operation that waits for the daemon between two critical sections is a pair of steps.
\<close>

record manager =
  m_tabs :: "tab list"
  m_removing :: "string set"
  m_published :: "tab list option"
  m_sync_revision :: u64

type_synonym saver = "tab list \<Rightarrow> terminal_error option"
type_synonym 'a step_result = "(terminal_error, 'a) result \<times> manager"

definition manager_default :: manager where
  "manager_default = \<lparr>m_tabs = [], m_removing = {}, m_published = None, m_sync_revision = 0\<rparr>"

section \<open>State helpers\<close>

definition ensure_workspace_available :: "manager \<Rightarrow> string \<Rightarrow> (terminal_error, unit) result" where
  "ensure_workspace_available st path =
     (if \<exists>wroot\<in>m_removing st. path_starts_with path wroot
      then Inl (TInvalid ''server.worktree_is_being_cleaned_up_cannot_create_resources_yet'')
      else Inr ())"

definition tab_index :: "manager \<Rightarrow> string \<Rightarrow> (terminal_error, nat) result" where
  "tab_index st tid = ok_or (position (\<lambda>t. tab_id t = tid) (m_tabs st)) (TabNotFound tid)"

definition touch_tab :: "string \<Rightarrow> tab \<Rightarrow> tab" where
  "touch_tab now t = t\<lparr>tab_revision := saturating_add (tab_revision t) 1, tab_updated_at := now\<rparr>"

text \<open>\<open>TerminalSync::publish_tabs\<close>: subscribers see a new snapshot only when the tabs differ.\<close>

definition publish_tabs :: "tab list \<Rightarrow> manager \<Rightarrow> manager" where
  "publish_tabs tabs st =
     (if m_published st = Some tabs then st
      else st\<lparr>m_published := Some tabs, m_sync_revision := m_sync_revision st + 1\<rparr>)"

definition persist_locked :: "saver \<Rightarrow> manager \<Rightarrow> (terminal_error, manager) result" where
  "persist_locked save st =
     (case save (m_tabs st) of
        Some e \<Rightarrow> Inl e
      | None \<Rightarrow> Inr (publish_tabs (m_tabs st) st))"

text \<open>\<open>if let Err(error) = self.persist_locked(&state) { restore; return Err(error) }\<close>.\<close>

definition persist_or :: "saver \<Rightarrow> manager \<Rightarrow> manager \<Rightarrow> 'a \<Rightarrow> 'a step_result" where
  "persist_or save st restored x =
     (case persist_locked save st of Inl e \<Rightarrow> (Inl e, restored) | Inr st' \<Rightarrow> (Inr x, st'))"

definition set_tab :: "nat \<Rightarrow> tab \<Rightarrow> manager \<Rightarrow> manager" where
  "set_tab i t st = st\<lparr>m_tabs := (m_tabs st)[i := t]\<rparr>"

section \<open>Queries\<close>

definition list_snapshot :: "string option \<Rightarrow> manager \<Rightarrow> tab list" where
  "list_snapshot workspace_root st =
     filter (\<lambda>t. case workspace_root of Some wroot \<Rightarrow> tab_workspace_root t = wroot | None \<Rightarrow> True)
       (m_tabs st)"

definition get_snapshot :: "string \<Rightarrow> manager \<Rightarrow> (terminal_error, tab) result" where
  "get_snapshot tid st = ok_or (find (\<lambda>t. tab_id t = tid) (m_tabs st)) (TabNotFound tid)"

definition ensure_pane :: "string \<Rightarrow> string \<Rightarrow> manager \<Rightarrow> (terminal_error, unit) result" where
  "ensure_pane tid pid st =
     rbind (ok_or (find (\<lambda>t. tab_id t = tid) (m_tabs st)) (TabNotFound tid)) (\<lambda>t.
       if \<exists>p\<in>set (tab_panes t). pane_id p = pid then Inr () else Inl (PaneNotFound pid))"

definition is_agent_tab :: "tab \<Rightarrow> bool" where
  "is_agent_tab t \<longleftrightarrow> (\<exists>p\<in>set (tab_panes t). pane_kind p = AgentKind)"

definition workspace_tab_counts :: "string \<Rightarrow> manager \<Rightarrow> nat \<times> nat" where
  "workspace_tab_counts wroot st =
     foldl (\<lambda>(terminal_tabs, agent_tabs) t.
         if is_agent_tab t then (terminal_tabs, agent_tabs + 1) else (terminal_tabs + 1, agent_tabs))
       (0, 0) (filter (\<lambda>t. tab_workspace_root t = wroot) (m_tabs st))"

definition set_workspace_removing :: "string \<Rightarrow> bool \<Rightarrow> manager \<Rightarrow> manager" where
  "set_workspace_removing wroot removing st =
     (if removing then st\<lparr>m_removing := insert wroot (m_removing st)\<rparr>
      else st\<lparr>m_removing := m_removing st - {wroot}\<rparr>)"

section \<open>Renaming and reordering\<close>

definition update_tab :: "saver \<Rightarrow> string \<Rightarrow> string \<Rightarrow> string option \<Rightarrow> manager \<Rightarrow> tab step_result" where
  "update_tab save now tid request_name st =
     (case request_name of
        None \<Rightarrow> (Inl (TInvalid ''validation.terminal_update_must_include_name''), st)
      | Some n \<Rightarrow>
          try_in (validate_name n) st (\<lambda>name.
          try_in (tab_index st tid) st (\<lambda>index.
            let old = m_tabs st ! index
            in if \<exists>p\<in>set (tab_panes old). pane_agent_terminal p \<noteq> None
               then (Inl (TInvalid ''validation.cli_created_terminal_tabs_cannot_be_renamed''), st)
               else let t = touch_tab now (old\<lparr>tab_name := name, tab_name_is_custom := Some True\<rparr>);
                        st' = set_tab index t st
                    in persist_or save st' (set_tab index old st') t)))"

text \<open>The assignment loop of \<open>reorder\<close>; \<^term>\<open>None\<close> is the panic of \<open>expect\<close>.\<close>

fun place_tabs :: "(nat \<times> string) list \<Rightarrow> (string \<Rightarrow> tab option) \<Rightarrow> tab list \<Rightarrow> tab list option" where
  "place_tabs [] reordered tabs = Some tabs"
| "place_tabs ((index, tid) # rest) reordered tabs =
     (case reordered tid of
        None \<Rightarrow> None
      | Some t \<Rightarrow> place_tabs rest reordered (tabs[index := t]))"

definition workspace_indices :: "string \<Rightarrow> tab list \<Rightarrow> nat list" where
  "workspace_indices wroot tabs =
     filter (\<lambda>index. tab_workspace_root (tabs ! index) = wroot) [0..<length tabs]"

definition reorder_tabs :: "saver \<Rightarrow> string \<Rightarrow> string list \<Rightarrow> manager \<Rightarrow> tab list step_result" where
  "reorder_tabs save workspace_root tab_ids st =
     (if trim workspace_root = []
      then (Inl (TInvalid ''validation.workspace_root_cannot_be_empty''), st)
      else if card (set tab_ids) \<noteq> length tab_ids
      then (Inl (TInvalid ''validation.terminal_order_contains_duplicate_tab_ids''), st)
      else
        let tabs = m_tabs st;
            indices = workspace_indices workspace_root tabs;
            current_ids = set (map (\<lambda>index. tab_id (tabs ! index)) indices);
            requested_ids = set tab_ids
        in if card requested_ids \<noteq> card current_ids \<or> \<not> requested_ids \<subseteq> current_ids
           then (Inl (TConflict ''terminal order is stale; refresh the terminal list and try again''), st)
           else if map (\<lambda>index. tab_id (tabs ! index)) indices = tab_ids
           then (Inr (map ((!) tabs) indices), st)
           else
             let reordered = map_of (rev (map (\<lambda>t. (tab_id t, t))
                   (filter (\<lambda>t. tab_workspace_root t = workspace_root) tabs)))
             in case place_tabs (zip indices tab_ids) reordered tabs of
                  None \<Rightarrow> (Inl TPoisoned, st)
                | Some tabs' \<Rightarrow>
                    persist_or save (st\<lparr>m_tabs := tabs'\<rparr>) (st\<lparr>m_tabs := tabs\<rparr>)
                      (map ((!) tabs') indices))"

section \<open>Layout, deletion\<close>

definition update_layout :: "saver \<Rightarrow> string \<Rightarrow> string \<Rightarrow> layout \<Rightarrow> u64 option \<Rightarrow> manager \<Rightarrow> tab step_result" where
  "update_layout save now tid new_layout revision st =
     try_in (tab_index st tid) st (\<lambda>index.
       let old = m_tabs st ! index
       in if (case revision of Some r \<Rightarrow> r \<noteq> tab_revision old | None \<Rightarrow> False)
          then (Inl (TConflict ''layout revision is stale''), st)
          else try_in (validate_layout new_layout (tab_panes old)) st (\<lambda>_.
            let t = touch_tab now (old\<lparr>tab_layout := new_layout\<rparr>);
                st' = set_tab index t st
            in persist_or save st' (set_tab index old st') t))"

text \<open>Stopping runtimes one after the other; the first failure is returned.\<close>

fun delete_runtimes :: "(string \<Rightarrow> terminal_error option) \<Rightarrow> string list \<Rightarrow> (terminal_error, unit) result" where
  "delete_runtimes delete [] = Inr ()"
| "delete_runtimes delete (p # ps) =
     (case delete p of Some e \<Rightarrow> Inl e | None \<Rightarrow> delete_runtimes delete ps)"

definition delete_tab_state :: "saver \<Rightarrow> string \<Rightarrow> manager \<Rightarrow> string list step_result" where
  "delete_tab_state save tid st =
     try_in (tab_index st tid) st (\<lambda>index.
       let t = m_tabs st ! index;
           st' = st\<lparr>m_tabs := vec_remove index (m_tabs st)\<rparr>
       in persist_or save st' (st'\<lparr>m_tabs := vec_insert index t (m_tabs st')\<rparr>)
            (map pane_id (tab_panes t)))"

definition delete_tab :: "saver \<Rightarrow> (string \<Rightarrow> terminal_error option) \<Rightarrow> string \<Rightarrow> manager \<Rightarrow> unit step_result" where
  "delete_tab save delete tid st =
     (case delete_tab_state save tid st of
        (Inl e, st') \<Rightarrow> (Inl e, st')
      | (Inr pane_ids, st') \<Rightarrow> (delete_runtimes delete pane_ids, st'))"

definition delete_pane_state :: "saver \<Rightarrow> string \<Rightarrow> string \<Rightarrow> string \<Rightarrow> manager \<Rightarrow> tab option step_result" where
  "delete_pane_state save now tid pid st =
     try_in (tab_index st tid) st (\<lambda>index.
       let old = m_tabs st ! index
       in if \<not> (\<exists>p\<in>set (tab_panes old). pane_id p = pid) then (Inl (PaneNotFound pid), st)
          else if length (tab_panes old) = 1
          then let st' = st\<lparr>m_tabs := vec_remove index (m_tabs st)\<rparr>
               in persist_or save st' (st'\<lparr>m_tabs := vec_insert index old (m_tabs st')\<rparr>) None
          else try_in (ok_or (remove_layout_leaf (tab_layout old) pid)
                        (TInvalid ''validation.layout_cannot_be_empty'')) st (\<lambda>l.
            let t = touch_tab now (old\<lparr>tab_layout := l,
                      tab_panes := filter (\<lambda>p. pane_id p \<noteq> pid) (tab_panes old)\<rparr>);
                st' = set_tab index t st
            in persist_or save st' (set_tab index old st') (Some t)))"

definition delete_pane :: "saver \<Rightarrow> (string \<Rightarrow> terminal_error option) \<Rightarrow> string \<Rightarrow> string \<Rightarrow> string
    \<Rightarrow> manager \<Rightarrow> tab option step_result" where
  "delete_pane save delete now tid pid st =
     (case delete_pane_state save now tid pid st of
        (Inl e, st') \<Rightarrow> (Inl e, st')
      | (Inr result, st') \<Rightarrow>
          (case delete pid of Some e \<Rightarrow> (Inl e, st') | None \<Rightarrow> (Inr result, st')))"

text \<open>\<open>delete_workspace\<close>: the runtimes are stopped first, and the tabs of the snapshot taken
  before are removed from the state found after that.\<close>

definition delete_workspace_commit :: "saver \<Rightarrow> string set \<Rightarrow> 'a \<Rightarrow> manager \<Rightarrow> 'a step_result" where
  "delete_workspace_commit save tab_ids counts st =
     (let old = m_tabs st;
          st' = st\<lparr>m_tabs := filter (\<lambda>t. tab_id t \<notin> tab_ids) (m_tabs st)\<rparr>
      in persist_or save st' (st'\<lparr>m_tabs := old\<rparr>) counts)"

definition delete_workspace :: "saver \<Rightarrow> (string \<Rightarrow> terminal_error option) \<Rightarrow> (manager \<Rightarrow> manager)
    \<Rightarrow> string \<Rightarrow> manager \<Rightarrow> (nat \<times> nat) step_result" where
  "delete_workspace save delete meanwhile wroot st =
     (let tabs = filter (\<lambda>t. tab_workspace_root t = wroot) (m_tabs st);
          agent_tabs = length (filter is_agent_tab tabs);
          tab_ids = set (map tab_id tabs);
          pane_ids = concat (map (\<lambda>t. map pane_id (tab_panes t)) tabs);
          terminal_tabs = length tabs - agent_tabs
      in if tab_ids = {} then (Inr (0, 0), st)
         else (case delete_runtimes delete pane_ids of
            Inl e \<Rightarrow> (Inl e, meanwhile st)
          | Inr _ \<Rightarrow> delete_workspace_commit save tab_ids (terminal_tabs, agent_tabs) (meanwhile st)))"

end
