(* ===== verification/Term_Lifecycle.thy ===== *)
theory Term_Lifecycle
  imports Term_Manager Runtime_Protocol
begin

text \<open>
  The operations of the terminal manager that talk to the terminal daemon or change the metadata
  of single panes: \<open>tabs/creation/terminal.rs\<close>, \<open>panes/mutations/split.rs\<close>,
  \<open>project_dock/mod.rs\<close>, \<open>panes/attachment.rs\<close>, \<open>rebuild.rs\<close>, \<open>runtime.rs\<close>,
  \<open>lifecycle/reconcile.rs\<close>, \<open>lifecycle/state.rs\<close>, \<open>hosting/state.rs\<close> and
  \<open>agent_control/lifecycle.rs\<close> under \<open>crates/server/src/terminal/\<close>. The state lock is
  released while the daemon is asked, so an operation is a sequence of critical sections; the
  changes other operations make meanwhile are functions on the state.
\<close>

section \<open>Requests and the host\<close>

record create_request =
  cr_name :: "string option"
  cr_cwd :: "string option"
  cr_workspace_root :: "string option"
  cr_shell :: "string option"
  cr_agent_id :: "string option"
  cr_resume_session_id :: "string option"
  cr_rows :: "u16 option"
  cr_cols :: "u16 option"

record split_request =
  sp_target_pane_id :: string
  sp_axis :: split_axis
  sp_ratio :: "f32 option"
  sp_cwd :: "string option"
  sp_shell :: "string option"
  sp_rows :: "u16 option"
  sp_cols :: "u16 option"

text \<open>What the operations read of the process and of the file system.\<close>

record host =
  host_current_dir :: string
  host_is_dir :: "string \<Rightarrow> (string, bool) result"
  host_env_shell :: "string option"
  host_bash_is_file :: bool

section \<open>The daemon's side\<close>

datatype client_error = CIo string | CHyper string | CHttp string | CJson string | CWebSocket string
  | CHttpStatus nat string

definition client_error_message :: "client_error \<Rightarrow> string" where
  "client_error_message e = (case e of CIo m \<Rightarrow> m | CHyper m \<Rightarrow> m | CHttp m \<Rightarrow> m | CJson m \<Rightarrow> m
     | CWebSocket m \<Rightarrow> m | CHttpStatus _ m \<Rightarrow> m)"

definition map_client_error :: "client_error \<Rightarrow> terminal_error" where
  "map_client_error e =
     (case e of
        CIo m \<Rightarrow> DaemonUnavailable m
      | CHyper m \<Rightarrow> DaemonUnavailable m
      | CWebSocket m \<Rightarrow> DaemonUnavailable m
      | CHttpStatus status m \<Rightarrow> if status = 409 then TConflict m else DaemonError m
      | _ \<Rightarrow> DaemonError (client_error_message e))"

definition map_create_error :: "client_error \<Rightarrow> terminal_error" where
  "map_create_error e =
     (case map_client_error e of DaemonError message \<Rightarrow> RuntimeCreate message | error \<Rightarrow> error)"

definition push_unique :: "string \<Rightarrow> string list \<Rightarrow> string list" where
  "push_unique key xs = (if key \<in> set xs then xs else xs @ [key])"

definition configure_runtime_environment :: "string \<Rightarrow> runtime_spec \<Rightarrow> runtime_spec" where
  "configure_runtime_environment pid spec =
     foldl (\<lambda>s key. s\<lparr>rs_environment := fmdrop key (rs_environment s),
                    rs_environment_remove := push_unique key (rs_environment_remove s)\<rparr>)
       (spec\<lparr>rs_environment := fmupd ''AOW_INSTANCE'' (''terminal:'' @ pid) (rs_environment spec)\<rparr>)
       [''AOW_SESSION_ID'', ''AOW_ACP_CONNECTION_ID'']"

definition runtime_spec_of :: "pane \<Rightarrow> runtime_spec" where
  "runtime_spec_of p =
     configure_runtime_environment (pane_id p)
       \<lparr>rs_cwd = pane_cwd p, rs_shell = pane_shell p, rs_arguments = pane_arguments p,
        rs_environment = fmempty, rs_environment_remove = [], rs_rows = pane_rows p,
        rs_cols = pane_cols p\<rparr>"

definition apply_runtime :: "string \<Rightarrow> pane \<Rightarrow> runtime \<Rightarrow> pane \<times> bool" where
  "apply_runtime now p r =
     (if pane_status p = rt_status r \<and> pane_exit_code p = rt_exit_code r \<and>
         pane_rows p = rt_rows r \<and> pane_cols p = rt_cols r
      then (p, False)
      else (p\<lparr>pane_status := rt_status r, pane_exit_code := rt_exit_code r, pane_rows := rt_rows r,
              pane_cols := rt_cols r, pane_updated_at := now\<rparr>, True))"

section \<open>Creating a terminal\<close>

text \<open>\<open>existing_project_dock\<close>: the dock of the project, or the adoption of an older tab.\<close>

definition existing_project_dock :: "saver \<Rightarrow> string \<Rightarrow> string \<Rightarrow> string \<Rightarrow> string option \<Rightarrow> manager
    \<Rightarrow> tab option step_result" where
  "existing_project_dock save now project_id wroot legacy_id st =
     (case find (\<lambda>t. tab_dock_project_id t = Some project_id \<and> tab_workspace_root t = wroot) (m_tabs st) of
        Some t \<Rightarrow> (Inr (Some t), st)
      | None \<Rightarrow>
        (case Option.bind legacy_id (\<lambda>i. position (\<lambda>t. tab_id t = i) (m_tabs st)) of
           None \<Rightarrow> (Inr None, st)
         | Some index \<Rightarrow>
            let old = m_tabs st ! index
            in if tab_workspace_root old \<noteq> wroot \<or> tab_dock_project_id old \<noteq> None \<or>
                  (\<exists>p\<in>set (tab_panes old). pane_kind p \<noteq> TerminalKind \<or> pane_agent_terminal p \<noteq> None)
               then (Inl (TInvalid ''validation.legacy_project_terminal_does_not_belong_to_this_project''), st)
               else let t = touch_tab now (old\<lparr>tab_dock_project_id := Some project_id\<rparr>);
                        st' = set_tab index t st
                    in persist_or save st' (set_tab index old st') (Some t)))"

definition ensure_creation_available :: "create_request \<Rightarrow> manager \<Rightarrow> (terminal_error, unit) result" where
  "ensure_creation_available req st =
     rbind (case cr_workspace_root req of Some r \<Rightarrow> ensure_workspace_available st r | None \<Rightarrow> Inr ()) (\<lambda>_.
       case cr_cwd req of Some c \<Rightarrow> ensure_workspace_available st c | None \<Rightarrow> Inr ())"

definition opt_validate_name :: "string option \<Rightarrow> (terminal_error, string option) result" where
  "opt_validate_name n =
     (case n of None \<Rightarrow> Inr None | Some x \<Rightarrow> rbind (validate_name x) (\<lambda>y. Inr (Some y)))"

definition new_shell_pane :: "string \<Rightarrow> string \<Rightarrow> string \<Rightarrow> string \<Rightarrow> u16 \<Rightarrow> u16 \<Rightarrow> pane" where
  "new_shell_pane pid now cwd shell rows cols =
     \<lparr>pane_id = pid, pane_parent = None, pane_name = default_pane_name cwd shell, pane_cwd = cwd,
      pane_shell = shell, pane_arguments = [], pane_kind = TerminalKind, pane_agent_id = None,
      pane_agent_profile_id = None, pane_agent_terminal = None, pane_hosting = None,
      pane_restart = True, pane_status = Running, pane_rows = rows, pane_cols = cols,
      pane_exit_code = None, pane_created_at = now, pane_updated_at = now\<rparr>"

text \<open>The checks of \<open>create_shell\<close> after the dock lookup: the name, the workspace and the pane.\<close>

definition prepare_shell :: "host \<Rightarrow> string \<Rightarrow> string \<Rightarrow> create_request
    \<Rightarrow> (terminal_error, string option \<times> string \<times> pane) result" where
  "prepare_shell h pid now req =
     rbind (opt_validate_name (cr_name req)) (\<lambda>name.
     rbind (resolve_cwd (host_current_dir h) (cr_cwd req) (cr_workspace_root req)) (\<lambda>cwd.
     rbind (validate_directory (host_is_dir h) cwd) (\<lambda>_.
     let wroot = (case cr_workspace_root req of Some r \<Rightarrow> if trim r \<noteq> [] then r else cwd | None \<Rightarrow> cwd)
     in rbind (validate_directory (host_is_dir h) wroot) (\<lambda>_.
     rbind (normalize_shell (host_env_shell h) (host_bash_is_file h) (cr_shell req)) (\<lambda>shell.
     if cr_agent_id req \<noteq> None
     then Inl (TInvalid ''validation.agent_id_is_only_accepted_by_the_aow_terminal_endpoint'')
     else rbind (terminal_size (cr_rows req) (cr_cols req)) (\<lambda>(rows, cols).
       Inr (name, wroot, new_shell_pane pid now cwd shell rows cols)))))))"

definition commit_tab :: "saver \<Rightarrow> tab \<Rightarrow> manager \<Rightarrow> tab step_result" where
  "commit_tab save t st =
     (let st' = st\<lparr>m_tabs := m_tabs st @ [t]\<rparr>
      in persist_or save st' (st'\<lparr>m_tabs := butlast (m_tabs st')\<rparr>) t)"

definition create_shell_commit :: "saver \<Rightarrow> string \<Rightarrow> string \<Rightarrow> string option \<Rightarrow> string option \<times> string \<times> pane
    \<Rightarrow> manager \<Rightarrow> tab step_result" where
  "create_shell_commit save tid now dock prepared st =
     (case prepared of (requested_name, wroot, p) \<Rightarrow>
        try_in (ensure_workspace_available st wroot) st (\<lambda>_.
        try_in (ensure_workspace_available st (pane_cwd p)) st (\<lambda>_.
          commit_tab save
            \<lparr>tab_id = tid,
             tab_name = (case requested_name of Some n \<Rightarrow> n
                         | None \<Rightarrow> ''Terminal '' @ decimal (length (m_tabs st) + 1)),
             tab_name_is_custom = Some (requested_name \<noteq> None),
             tab_dock_project_id = dock,
             tab_workspace_root = wroot,
             tab_layout = Pane (pane_id p),
             tab_panes = [p],
             tab_revision = 1,
             tab_created_at = now,
             tab_updated_at = now\<rparr> st)))"

definition rollback_created_tab :: "saver \<Rightarrow> string \<Rightarrow> manager \<Rightarrow> unit step_result" where
  "rollback_created_tab save tid st =
     (case position (\<lambda>t. tab_id t = tid) (m_tabs st) of
        None \<Rightarrow> (Inr (), st)
      | Some index \<Rightarrow>
          let t = m_tabs st ! index;
              st' = st\<lparr>m_tabs := vec_remove index (m_tabs st)\<rparr>
          in persist_or save st' (st'\<lparr>m_tabs := vec_insert index t (m_tabs st')\<rparr>) ())"

text \<open>After the daemon has answered: keep the tab when it was created or a second request with the
  same specification succeeds, else remove it again and return the daemon's error.\<close>

definition create_shell_finish :: "saver \<Rightarrow> client_error option \<Rightarrow> bool \<Rightarrow> tab \<Rightarrow> manager \<Rightarrow> tab step_result" where
  "create_shell_finish save answer retry_matches t st =
     (case answer of
        None \<Rightarrow> (Inr t, st)
      | Some e \<Rightarrow>
          if retry_matches then (Inr t, st)
          else (case rollback_created_tab save (tab_id t) st of
                  (Inl e', st') \<Rightarrow> (Inl e', st')
                | (Inr _, st') \<Rightarrow> (Inl (map_create_error e), st')))"

text \<open>The composition. \<open>reconcile\<close> is the reconciliation before the operation lock,
  \<open>between1\<close> and \<open>between2\<close> what other tasks do to the state while directories are checked and
  while the daemon is asked.\<close>

definition create_shell :: "saver \<Rightarrow> host \<Rightarrow> (manager \<Rightarrow> unit step_result) \<Rightarrow> (manager \<Rightarrow> manager)
    \<Rightarrow> (manager \<Rightarrow> manager) \<Rightarrow> (runtime_spec \<Rightarrow> client_error option) \<Rightarrow> (runtime_spec \<Rightarrow> bool)
    \<Rightarrow> string \<Rightarrow> string \<Rightarrow> string \<Rightarrow> create_request \<Rightarrow> (string \<times> string option) option
    \<Rightarrow> manager \<Rightarrow> tab step_result" where
  "create_shell save h reconcile between1 between2 create matches pid tid now req dock st =
     try_in (ensure_creation_available req st) st (\<lambda>_.
     if cr_resume_session_id req \<noteq> None
     then (Inl (TInvalid ''validation.resume_session_id_requires_agent_id''), st)
     else case reconcile st of
       (Inl e, st1) \<Rightarrow> (Inl e, st1)
     | (Inr _, st1) \<Rightarrow>
       (case (case dock of None \<Rightarrow> (Inr None, st1)
              | Some (project_id, legacy) \<Rightarrow>
                  existing_project_dock save now project_id
                    (case cr_workspace_root req of Some r \<Rightarrow> r | None \<Rightarrow> []) legacy st1) of
          (Inl e, st2) \<Rightarrow> (Inl e, st2)
        | (Inr (Some t), st2) \<Rightarrow> (Inr t, st2)
        | (Inr None, st2) \<Rightarrow>
            try_in (prepare_shell h pid now req) (between1 st2) (\<lambda>prepared.
              case create_shell_commit save tid now (map_option fst dock) prepared (between1 st2) of
                (Inl e, st3) \<Rightarrow> (Inl e, st3)
              | (Inr t, st3) \<Rightarrow>
                  (let spec = runtime_spec_of (snd (snd prepared))
                   in create_shell_finish save (create spec) (matches spec) t (between2 st3)))))"

section \<open>Splitting a pane\<close>

definition split_prepare :: "host \<Rightarrow> string \<Rightarrow> string \<Rightarrow> string \<Rightarrow> split_request \<Rightarrow> manager
    \<Rightarrow> (terminal_error, f32 \<times> pane \<times> u64) result" where
  "split_prepare h pid now tid req st =
     rbind (ok_or (find (\<lambda>t. tab_id t = tid) (m_tabs st)) (TabNotFound tid)) (\<lambda>t.
     if MAX_PANES_PER_TAB \<le> length (tab_panes t)
     then Inl (TInvalid ''a tab may contain at most 64 panes'')
     else rbind (ok_or (find (\<lambda>p. pane_id p = sp_target_pane_id req) (tab_panes t))
                  (PaneNotFound (sp_target_pane_id req))) (\<lambda>target.
       rbind (validate_ratio (case sp_ratio req of Some r \<Rightarrow> r | None \<Rightarrow> F32 (1 / 2))) (\<lambda>ratio.
       let cwd = (case sp_cwd req of Some c \<Rightarrow> c | None \<Rightarrow> pane_cwd target)
       in rbind (validate_directory (host_is_dir h) cwd) (\<lambda>_.
       let inherited_shell = (if pane_kind target = TerminalKind then Some (pane_shell target) else None)
       in rbind (normalize_shell (host_env_shell h) (host_bash_is_file h)
                   (case sp_shell req of Some s \<Rightarrow> Some s | None \<Rightarrow> inherited_shell)) (\<lambda>shell.
       rbind (terminal_size
                (case sp_rows req of Some r \<Rightarrow> Some r | None \<Rightarrow> Some (pane_rows target))
                (case sp_cols req of Some c \<Rightarrow> Some c | None \<Rightarrow> Some (pane_cols target))) (\<lambda>(rows, cols).
       Inr (ratio, new_shell_pane pid now cwd shell rows cols, tab_revision t)))))))"

definition split_commit :: "saver \<Rightarrow> string \<Rightarrow> string \<Rightarrow> split_request \<Rightarrow> f32 \<times> pane \<times> u64
    \<Rightarrow> manager \<Rightarrow> (tab \<times> tab) step_result" where
  "split_commit save now tid req prepared st =
     (case prepared of (ratio, p, target_revision) \<Rightarrow>
        try_in (tab_index st tid) st (\<lambda>index.
        let old = m_tabs st ! index
        in try_in (ensure_workspace_available st (tab_workspace_root old)) st (\<lambda>_.
           try_in (ensure_workspace_available st (pane_cwd p)) st (\<lambda>_.
           if tab_revision old \<noteq> target_revision
           then (Inl (TConflict ''terminal layout changed while the new pane was being prepared''), st)
           else
             let replacement = Split (sp_axis req) ratio (Pane (sp_target_pane_id req)) (Pane (pane_id p))
             in case replace_layout_leaf (tab_layout old) (sp_target_pane_id req) replacement of
                  (l, False) \<Rightarrow>
                    (Inl (TConflict ''the target pane changed while the new pane was being prepared''), st)
                | (l, True) \<Rightarrow>
                    (let t = touch_tab now (old\<lparr>tab_layout := l, tab_panes := tab_panes old @ [p]\<rparr>);
                         st' = set_tab index t st
                     in persist_or save st' (set_tab index old st') (t, old))))))"

text \<open>The loop of \<open>rollback_split\<close> over the panes that are restored.\<close>

definition keep_runtime_metadata :: "pane list \<Rightarrow> pane \<Rightarrow> pane" where
  "keep_runtime_metadata current p =
     (case find (\<lambda>item. pane_id item = pane_id p) current of
        None \<Rightarrow> p
      | Some c \<Rightarrow> p\<lparr>pane_status := pane_status c, pane_rows := pane_rows c, pane_cols := pane_cols c,
                    pane_exit_code := pane_exit_code c, pane_updated_at := pane_updated_at c\<rparr>)"

definition restored_tab :: "tab \<Rightarrow> tab \<Rightarrow> tab \<Rightarrow> tab" where
  "restored_tab failed created previous =
     (let r = previous\<lparr>tab_panes := map (keep_runtime_metadata (tab_panes failed)) (tab_panes previous)\<rparr>
      in if tab_updated_at failed \<noteq> tab_updated_at created
         then r\<lparr>tab_updated_at := tab_updated_at failed\<rparr> else r)"

definition rollback_split :: "saver \<Rightarrow> string \<Rightarrow> string \<Rightarrow> string \<Rightarrow> tab \<Rightarrow> tab \<Rightarrow> manager
    \<Rightarrow> unit step_result" where
  "rollback_split save now tid pid created previous st =
     try_in (tab_index st tid) st (\<lambda>index.
       let failed = m_tabs st ! index
       in if tab_revision failed = tab_revision created
          then let st' = set_tab index (restored_tab failed created previous) st
               in persist_or save st' (set_tab index failed st') ()
          else try_in (ok_or (remove_layout_leaf (tab_layout failed) pid)
                        (TConflict ''failed terminal pane disappeared during split rollback'')) st (\<lambda>l.
            let t = touch_tab now (failed\<lparr>tab_layout := l,
                      tab_panes := filter (\<lambda>p. pane_id p \<noteq> pid) (tab_panes failed)\<rparr>);
                st' = set_tab index t st
            in persist_or save st' (set_tab index failed st') ()))"

definition split_finish :: "saver \<Rightarrow> client_error option \<Rightarrow> bool \<Rightarrow> string \<Rightarrow> string \<Rightarrow> string
    \<Rightarrow> tab \<times> tab \<Rightarrow> manager \<Rightarrow> tab step_result" where
  "split_finish save answer retry_matches now tid pid tabs st =
     (case answer of
        None \<Rightarrow> (Inr (fst tabs), st)
      | Some e \<Rightarrow>
          if retry_matches then (Inr (fst tabs), st)
          else (case rollback_split save now tid pid (fst tabs) (snd tabs) st of
                  (Inl e', st') \<Rightarrow> (Inl e', st')
                | (Inr _, st') \<Rightarrow> (Inl (map_create_error e), st')))"

definition split_pane :: "saver \<Rightarrow> host \<Rightarrow> (manager \<Rightarrow> unit step_result) \<Rightarrow> (manager \<Rightarrow> manager)
    \<Rightarrow> (manager \<Rightarrow> manager) \<Rightarrow> (runtime_spec \<Rightarrow> client_error option) \<Rightarrow> (runtime_spec \<Rightarrow> bool)
    \<Rightarrow> string \<Rightarrow> string \<Rightarrow> string \<Rightarrow> split_request \<Rightarrow> manager \<Rightarrow> tab step_result" where
  "split_pane save h reconcile between1 between2 create matches pid now tid req st =
     (case reconcile st of
        (Inl e, st1) \<Rightarrow> (Inl e, st1)
      | (Inr _, st1) \<Rightarrow>
        (case split_prepare h pid now tid req st1 of
           Inl e \<Rightarrow> (Inl e, between1 st1)
         | Inr prepared \<Rightarrow>
           (case split_commit save now tid req prepared (between1 st1) of
              (Inl e, st2) \<Rightarrow> (Inl e, st2)
            | (Inr tabs, st2) \<Rightarrow>
                (let spec = runtime_spec_of (fst (snd prepared))
                 in split_finish save (create spec) (matches spec) now tid pid tabs (between2 st2)))))"

section \<open>Metadata of single panes\<close>

fun find_pane :: "tab list \<Rightarrow> string \<Rightarrow> (nat \<times> nat) option" where
  "find_pane [] pid = None"
| "find_pane (t # ts) pid =
     (case position (\<lambda>p. pane_id p = pid) (tab_panes t) of
        Some index \<Rightarrow> Some (0, index)
      | None \<Rightarrow> map_option (\<lambda>(i, j). (Suc i, j)) (find_pane ts pid))"

definition set_pane :: "nat \<Rightarrow> pane \<Rightarrow> tab \<Rightarrow> tab" where
  "set_pane j p t = t\<lparr>tab_panes := (tab_panes t)[j := p]\<rparr>"

definition hosting_of :: "string \<Rightarrow> manager \<Rightarrow> (terminal_error, terminal_hosting option) result" where
  "hosting_of pid st =
     rbind (ok_or (find_pane (m_tabs st) pid) (PaneNotFound pid))
       (\<lambda>(i, j). Inr (pane_hosting (tab_panes (m_tabs st ! i) ! j)))"

definition set_hosting :: "saver \<Rightarrow> string \<Rightarrow> string \<Rightarrow> string option \<Rightarrow> terminal_hosting option \<Rightarrow> manager
    \<Rightarrow> bool step_result" where
  "set_hosting save now pid expected hosting st =
     try_in (ok_or (find_pane (m_tabs st) pid) (PaneNotFound pid)) st (\<lambda>(i, j).
       let old = m_tabs st ! i;
           p = tab_panes old ! j
       in if (case expected of None \<Rightarrow> False
              | Some g \<Rightarrow> (case pane_hosting p of None \<Rightarrow> True | Some current \<Rightarrow> h_id current \<noteq> g))
          then (Inr False, st)
          else let t = touch_tab now (set_pane j (p\<lparr>pane_hosting := hosting\<rparr>) old);
                   st' = set_tab i t st
               in persist_or save st' (set_tab i old st') True)"

definition set_agent_state :: "saver \<Rightarrow> string \<Rightarrow> string \<Rightarrow> agent_terminal_state \<Rightarrow> manager \<Rightarrow> unit step_result" where
  "set_agent_state save now pid agent st =
     try_in (ok_or (find_pane (m_tabs st) pid) (PaneNotFound pid)) st (\<lambda>(i, j).
       let old = m_tabs st ! i;
           p = tab_panes old ! j;
           t = touch_tab now (set_pane j (p\<lparr>pane_agent_terminal := Some agent\<rparr>) old);
           st' = set_tab i t st
       in persist_or save st' (set_tab i old st') ())"

definition apply_attach_status :: "saver \<Rightarrow> string \<Rightarrow> string \<Rightarrow> pane_status \<Rightarrow> u32 option \<Rightarrow> manager
    \<Rightarrow> unit step_result" where
  "apply_attach_status save now pid status exit_code st =
     (case find_pane (m_tabs st) pid of
        None \<Rightarrow> (Inr (), st)
      | Some (i, j) \<Rightarrow>
          let old = m_tabs st ! i;
              p = tab_panes old ! j
          in if pane_status p = status \<and> pane_exit_code p = exit_code then (Inr (), st)
             else let p' = p\<lparr>pane_status := status, pane_exit_code := exit_code, pane_updated_at := now\<rparr>;
                      t = (set_pane j p' old)\<lparr>tab_updated_at := now\<rparr>;
                      st' = set_tab i t st
                  in persist_or save st' (set_tab i old st') ())"

section \<open>Reconciliation with the daemon\<close>

text \<open>One tab of the loops of \<open>apply_runtime_statuses\<close> and \<open>mark_missing_nonrestart_panes\<close>: the new
  tab and whether it changed.\<close>

definition apply_runtimes_to_tab :: "string \<Rightarrow> (string \<Rightarrow> runtime option) \<Rightarrow> tab \<Rightarrow> tab \<times> bool" where
  "apply_runtimes_to_tab now runtimes t =
     (let results = map (\<lambda>p. case runtimes (pane_id p) of None \<Rightarrow> (p, False)
                             | Some r \<Rightarrow> apply_runtime now p r) (tab_panes t);
          changed = (\<exists>r\<in>set results. snd r);
          t' = t\<lparr>tab_panes := map fst results\<rparr>
      in (if changed then t'\<lparr>tab_updated_at := now\<rparr> else t', changed))"

definition persist_if_changed :: "saver \<Rightarrow> (tab \<times> bool) list \<Rightarrow> manager \<Rightarrow> unit step_result" where
  "persist_if_changed save results st =
     (let st' = st\<lparr>m_tabs := map fst results\<rparr>
      in if \<exists>r\<in>set results. snd r then persist_or save st' (st'\<lparr>m_tabs := m_tabs st\<rparr>) ()
         else (Inr (), st'))"

definition apply_runtime_statuses :: "saver \<Rightarrow> string \<Rightarrow> (string \<Rightarrow> runtime option) \<Rightarrow> manager
    \<Rightarrow> unit step_result" where
  "apply_runtime_statuses save now runtimes st =
     persist_if_changed save (map (apply_runtimes_to_tab now runtimes) (m_tabs st)) st"

definition interrupt_pane :: "string \<Rightarrow> string set \<Rightarrow> pane \<Rightarrow> pane \<times> bool" where
  "interrupt_pane now missing p =
     (if pane_id p \<in> missing \<and> pane_status p = Running
      then (p\<lparr>pane_status := Interrupted, pane_exit_code := None, pane_updated_at := now\<rparr>, True)
      else (p, False))"

definition interrupt_tab :: "string \<Rightarrow> string set \<Rightarrow> tab \<Rightarrow> tab \<times> bool" where
  "interrupt_tab now missing t =
     (let results = map (interrupt_pane now missing) (tab_panes t);
          changed = (\<exists>r\<in>set results. snd r);
          t' = t\<lparr>tab_panes := map fst results\<rparr>
      in (if changed then t'\<lparr>tab_updated_at := now\<rparr> else t', changed))"

definition missing_nonrestart :: "pane list \<Rightarrow> (string \<Rightarrow> runtime option) \<Rightarrow> string set" where
  "missing_nonrestart desired actual =
     set (map pane_id (filter (\<lambda>p. \<not> pane_restart p \<and> actual (pane_id p) = None) desired))"

definition mark_missing_nonrestart_panes :: "saver \<Rightarrow> string \<Rightarrow> pane list \<Rightarrow> (string \<Rightarrow> runtime option)
    \<Rightarrow> manager \<Rightarrow> unit step_result" where
  "mark_missing_nonrestart_panes save now desired actual st =
     (let missing = missing_nonrestart desired actual
      in if missing = {} then (Inr (), st)
         else persist_if_changed save (map (interrupt_tab now missing) (m_tabs st)) st)"

section \<open>Rebuilding finished terminals\<close>

definition ensure_rebuildable :: "tab \<Rightarrow> (terminal_error, unit) result" where
  "ensure_rebuildable t =
     (if tab_panes t = [] \<or> (\<exists>p\<in>set (tab_panes t). pane_status p = Running)
      then Inl (TConflict ''server.only_exited_or_interrupted_terminals_can_be_rebuilt_refresh'')
      else Inr ())"

text \<open>\<open>for pane in &panes { check(pane)?; }\<close>.\<close>

fun check_each :: "('a \<Rightarrow> (terminal_error, unit) result) \<Rightarrow> 'a list \<Rightarrow> (terminal_error, unit) result" where
  "check_each f [] = Inr ()"
| "check_each f (x # xs) = rbind (f x) (\<lambda>_. check_each f xs)"

text \<open>\<open>get\<close> is the daemon's answer for a pane.\<close>

definition rebuild_prepare :: "host \<Rightarrow> (string \<Rightarrow> (client_error, runtime option) result) \<Rightarrow> tab \<Rightarrow> manager
    \<Rightarrow> (terminal_error, tab) result" where
  "rebuild_prepare h get previous st =
     rbind (get_snapshot (tab_id previous) st) (\<lambda>current.
     rbind (ensure_rebuildable current) (\<lambda>_.
     if map pane_id (tab_panes current) \<noteq> map pane_id (tab_panes previous)
     then Inl (TConflict ''server.terminal_changed_refresh_the_list'')
     else rbind (ensure_workspace_available st (tab_workspace_root current)) (\<lambda>_.
     rbind (check_each (\<lambda>p. ensure_workspace_available st (pane_cwd p)) (tab_panes current)) (\<lambda>_.
     rbind (validate_directory (host_is_dir h) (tab_workspace_root current)) (\<lambda>_.
     rbind (check_each (\<lambda>p. rbind (validate_directory (host_is_dir h) (pane_cwd p)) (\<lambda>_.
         case get (pane_id p) of
           Inl e \<Rightarrow> Inl (map_client_error e)
         | Inr (Some r) \<Rightarrow> if rt_status r = Running
             then Inl (TConflict ''server.terminal_is_still_running_refresh_the_list'') else Inr ()
         | Inr None \<Rightarrow> Inr ())) (tab_panes current)) (\<lambda>_.
       Inr current))))))"

text \<open>The new panes. \<open>arguments\<close> are those the adapters of Codex and Pi give to a pane, if it has one.\<close>

definition rebuilt_pane :: "(pane \<Rightarrow> string list option) \<Rightarrow> string \<Rightarrow> string \<Rightarrow> pane \<Rightarrow> pane" where
  "rebuilt_pane arguments now pid p =
     (let q = p\<lparr>pane_id := pid, pane_hosting := None, pane_status := Running, pane_exit_code := None,
               pane_agent_terminal := map_option (\<lambda>_. \<lparr>at_phase = AgentStarting, at_error = None,
                 at_task_submitted = False\<rparr>) (pane_agent_terminal p),
               pane_created_at := now, pane_updated_at := now\<rparr>
      in (case arguments q of Some args \<Rightarrow> q\<lparr>pane_arguments := args\<rparr> | None \<Rightarrow> q))"

text \<open>The loop of the commit over old and new panes.\<close>

fun replace_leaves :: "layout \<Rightarrow> (pane \<times> pane) list \<Rightarrow> layout" where
  "replace_leaves l [] = l"
| "replace_leaves l ((before, after) # ps) =
     replace_leaves (fst (replace_layout_leaf l (pane_id before) (Pane (pane_id after)))) ps"

definition rebuild_commit :: "saver \<Rightarrow> string \<Rightarrow> tab \<Rightarrow> pane list \<Rightarrow> manager \<Rightarrow> tab step_result" where
  "rebuild_commit save now current panes st =
     try_in (tab_index st (tab_id current)) st (\<lambda>index.
       let old = m_tabs st ! index;
           rebuilt = touch_tab now (old\<lparr>tab_layout := replace_leaves (tab_layout old)
                       (zip (tab_panes current) panes), tab_panes := panes\<rparr>);
           st' = set_tab index rebuilt st
       in persist_or save st' (set_tab index old st') rebuilt)"

section \<open>Loading\<close>

text \<open>\<open>display_name\<close> is the name the agent registry gives to an agent identifier.\<close>

definition migrate_terminal_names :: "(string \<Rightarrow> string option) \<Rightarrow> tab \<Rightarrow> tab" where
  "migrate_terminal_names display_name t =
     (if tab_name_is_custom t \<noteq> None then t
      else let numbered = (prefix ''Terminal '' (tab_name t) \<and>
                 parse_unsigned (2 ^ 64) (drop 9 (tab_name t)) \<noteq> None);
               generated = (numbered \<or> (\<exists>p\<in>set (tab_panes t).
                 Option.bind (pane_agent_id p) display_name = Some (tab_name t)))
           in t\<lparr>tab_name_is_custom := Some (\<not> generated)\<rparr>)"

definition load_pane :: "pane \<Rightarrow> pane" where
  "load_pane p =
     (let q = p\<lparr>pane_name := default_pane_name (pane_cwd p) (pane_shell p)\<rparr>
      in (case pane_agent_terminal q of
            Some agent \<Rightarrow>
              if at_phase agent = AgentStarting
              then q\<lparr>pane_agent_terminal := Some (agent\<lparr>at_phase := AgentFailed,
                     at_error := Some ''AoW restarted during agent initialization''\<rparr>)\<rparr>
              else q
          | None \<Rightarrow> q))"

definition load_tab :: "(string \<Rightarrow> string option) \<Rightarrow> tab \<Rightarrow> tab" where
  "load_tab display_name t =
     migrate_terminal_names display_name (t\<lparr>tab_panes := map load_pane (tab_panes t)\<rparr>)"

text \<open>\<open>persistent\<close> after the metadata file has been read: its version and its tabs, if it exists.\<close>

definition METADATA_VERSION :: nat where "METADATA_VERSION = 1"

definition load_manager :: "(string \<Rightarrow> string option) \<Rightarrow> (nat \<times> tab list) option
    \<Rightarrow> (terminal_error, manager) result" where
  "load_manager display_name file =
     rbind (case file of
              None \<Rightarrow> Inr []
            | Some (version, tabs) \<Rightarrow>
                if version \<noteq> METADATA_VERSION
                then Inl (TInvalid ''unsupported terminal metadata version'') else Inr tabs) (\<lambda>tabs.
     let tabs' = map (load_tab display_name) tabs
     in rbind (validate_persisted_tabs tabs') (\<lambda>_.
        Inr (manager_default\<lparr>m_tabs := tabs'\<rparr>)))"

section \<open>Errors for HTTP clients\<close>

definition terminal_http_error :: "terminal_error \<Rightarrow> nat \<times> string" where
  "terminal_http_error e =
     (case e of
        TabNotFound _ \<Rightarrow> (404, ''terminal_not_found'')
      | PaneNotFound _ \<Rightarrow> (404, ''terminal_not_found'')
      | TInvalid _ \<Rightarrow> (400, ''invalid_terminal_request'')
      | TConflict _ \<Rightarrow> (409, ''terminal_conflict'')
      | ForbiddenOrigin _ \<Rightarrow> (403, ''forbidden_websocket_origin'')
      | ClipboardImageTooLarge \<Rightarrow> (413, ''clipboard_image_too_large'')
      | UnsupportedClipboardImage \<Rightarrow> (415, ''unsupported_clipboard_image'')
      | ClipboardQuotaExceeded \<Rightarrow> (507, ''clipboard_image_quota_exceeded'')
      | DaemonUnavailable _ \<Rightarrow> (503, ''terminald_unavailable'')
      | RuntimeCreate _ \<Rightarrow> (500, ''terminal_spawn_failed'')
      | _ \<Rightarrow> (500, ''internal_error''))"

end
