(* ===== verification/Term_Invariant.thy ===== *)
theory Term_Invariant
  imports Term_Lifecycle
begin

text \<open>
  The invariant of the terminal manager: the tabs are what \<open>validate_persisted_tabs\<close> accepts but for
  the generated pane names, and the published list is the list of the state. Every operation of the
  manager keeps it or leaves the state as it was.
\<close>

section \<open>Well-formed tabs\<close>

definition pane_ids :: "tab list \<Rightarrow> string list" where
  "pane_ids ts = concat (map (\<lambda>t. map pane_id (tab_panes t)) ts)"

definition tab_ok :: "tab \<Rightarrow> bool" where
  "tab_ok t \<longleftrightarrow> tab_panes t \<noteq> [] \<and> layout_ok (tab_layout t) (tab_panes t)"

definition tabs_ok :: "tab list \<Rightarrow> bool" where
  "tabs_ok ts \<longleftrightarrow> distinct (map tab_id ts) \<and> distinct (pane_ids ts) \<and> (\<forall>t\<in>set ts. tab_ok t)"

lemma pane_ids_simps [simp]:
  "pane_ids [] = []" "pane_ids (t # ts) = map pane_id (tab_panes t) @ pane_ids ts"
  "pane_ids (xs @ ys) = pane_ids xs @ pane_ids ys"
  by (simp_all add: pane_ids_def)

lemma check_panes_iff:
  "check_panes ps seen = Inr seen' \<longleftrightarrow> distinct (map pane_id ps) \<and> set (map pane_id ps) \<inter> seen = {} \<and>
     (\<forall>p\<in>set ps. \<exists>n. validate_name (pane_name p) = Inr n) \<and> seen' = set (map pane_id ps) \<union> seen"
proof (induction ps arbitrary: seen)
  case (Cons p ps)
  then show ?case by (auto simp: rbind_Inr_iff)
qed auto

lemma check_tabs_iff:
  "check_tabs ts tids pids = Inr u \<longleftrightarrow>
     distinct (map tab_id ts) \<and> set (map tab_id ts) \<inter> tids = {} \<and>
     distinct (pane_ids ts) \<and> set (pane_ids ts) \<inter> pids = {} \<and> (\<forall>t\<in>set ts. tab_ok t) \<and>
     (\<forall>t\<in>set ts. \<forall>p\<in>set (tab_panes t). \<exists>n. validate_name (pane_name p) = Inr n)"
proof (induction ts arbitrary: tids pids)
  case (Cons t ts)
  have "check_tabs (t # ts) tids pids = Inr u \<longleftrightarrow>
      tab_id t \<notin> tids \<and> tab_panes t \<noteq> [] \<and> layout_ok (tab_layout t) (tab_panes t) \<and>
      (distinct (map pane_id (tab_panes t)) \<and> set (map pane_id (tab_panes t)) \<inter> pids = {} \<and>
       (\<forall>p\<in>set (tab_panes t). \<exists>n. validate_name (pane_name p) = Inr n)) \<and>
      check_tabs ts (insert (tab_id t) tids) (set (map pane_id (tab_panes t)) \<union> pids) = Inr u"
    by (auto simp: rbind_Inr_iff check_panes_iff validate_layout_iff)
  then show ?case
    unfolding Cons.IH by (auto simp: tab_ok_def)
qed simp

lemma validate_persisted_tabs_iff:
  "validate_persisted_tabs ts = Inr u \<longleftrightarrow> tabs_ok ts \<and>
     (\<forall>t\<in>set ts. \<forall>p\<in>set (tab_panes t). \<exists>n. validate_name (pane_name p) = Inr n)"
  by (auto simp: validate_persisted_tabs_def check_tabs_iff tabs_ok_def)

text \<open>What the invariant sees of a tab.\<close>

definition shape :: "tab \<Rightarrow> string \<times> layout \<times> string list" where
  "shape t = (tab_id t, tab_layout t, map pane_id (tab_panes t))"

lemma tab_ok_shape: "shape t = shape t' \<Longrightarrow> tab_ok t = tab_ok t'"
  unfolding shape_def tab_ok_def layout_ok_def by (metis Pair_inject map_is_Nil_conv)

lemma tabs_ok_shape:
  assumes "map shape ts = map shape ts'"
  shows "tabs_ok ts = tabs_ok ts'"
proof -
  have "map tab_id ts = map tab_id ts'"
    using arg_cong [OF assms, of "map fst"] by (simp add: shape_def comp_def)
  moreover have "pane_ids ts = pane_ids ts'"
    using arg_cong [OF assms, of "\<lambda>xs. concat (map (snd \<circ> snd) xs)"] by (simp add: shape_def pane_ids_def comp_def)
  moreover have "list_all tab_ok ts = list_all tab_ok ts'"
    using assms
  proof (induction ts ts' rule: list_induct2')
    case (4 x xs y ys)
    then show ?case using tab_ok_shape [of x y] by simp
  qed simp_all
  ultimately show ?thesis by (simp add: tabs_ok_def list_all_iff)
qed

lemma tabs_ok_same_shape:
  assumes "tabs_ok ts" "i < length ts" "shape t = shape (ts ! i)"
  shows "tabs_ok (ts[i := t])"
proof -
  have "map shape (ts[i := t]) = (map shape ts)[i := map shape ts ! i]"
    using assms(2,3) by (simp add: map_update)
  then have "map shape (ts[i := t]) = map shape ts" by simp
  with assms(1) show ?thesis using tabs_ok_shape by blast
qed

text \<open>Replacing a tab by one with new or fewer panes.\<close>

lemma tabs_ok_replace:
  assumes ok: "tabs_ok ts" and i: "i < length ts" and "tab_id t = tab_id (ts ! i)" and "tab_ok t"
    and dist: "distinct (map pane_id (tab_panes t))"
    and fresh: "set (map pane_id (tab_panes t)) \<subseteq> set (map pane_id (tab_panes (ts ! i))) \<union> (- set (pane_ids ts))"
  shows "tabs_ok (ts[i := t])"
proof -
  let ?a = "take i ts" and ?b = "drop (Suc i) ts" and ?o = "ts ! i"
  have ts: "ts = ?a @ ?o # ?b" using i by (rule id_take_nth_drop)
  have upd: "ts[i := t] = ?a @ t # ?b" using i by (rule upd_conv_take_nth_drop)
  from ok have d: "distinct (pane_ids ?a @ map pane_id (tab_panes ?o) @ pane_ids ?b)"
    by (subst (asm) ts) (simp add: tabs_ok_def del: take_drop)
  have p: "set (pane_ids ts) = set (pane_ids ?a) \<union> set (map pane_id (tab_panes ?o)) \<union> set (pane_ids ?b)"
    by (subst ts) auto
  have "distinct (pane_ids (?a @ t # ?b))"
    using d fresh [unfolded p] dist by auto
  moreover have "map tab_id (ts[i := t]) = map tab_id ts"
    using assms(3) by (metis list_update_id map_update)
  moreover have "\<forall>t'\<in>set (ts[i := t]). tab_ok t'"
    using ok assms(4) set_update_subset_insert [of ts i t] by (auto simp: tabs_ok_def)
  ultimately show ?thesis using ok by (simp add: tabs_ok_def upd)
qed

lemma tabs_ok_append:
  "tabs_ok ts \<Longrightarrow> tab_ok t \<Longrightarrow> tab_id t \<notin> set (map tab_id ts) \<Longrightarrow> distinct (map pane_id (tab_panes t)) \<Longrightarrow>
     set (map pane_id (tab_panes t)) \<inter> set (pane_ids ts) = {} \<Longrightarrow> tabs_ok (ts @ [t])"
  by (auto simp: tabs_ok_def)

lemma tabs_ok_remove:
  assumes "tabs_ok ts"
  shows "tabs_ok (vec_remove i ts)"
proof (cases "i < length ts")
  case True
  have "tabs_ok (a @ b)" if "tabs_ok (a @ t # b)" for a b t
    using that by (auto simp: tabs_ok_def)
  with assms id_take_nth_drop [OF True] show ?thesis by (metis vec_remove_def)
qed (use assms in \<open>simp add: vec_remove_def\<close>)

lemma tabs_ok_filter:
  assumes "tabs_ok ts"
  shows "tabs_ok (filter P ts)"
proof -
  have "distinct (pane_ids xs) \<Longrightarrow> distinct (pane_ids (filter P xs)) \<and> set (pane_ids (filter P xs)) \<subseteq> set (pane_ids xs)" for xs
    by (induction xs) auto
  then show ?thesis using assms by (auto simp: tabs_ok_def distinct_map inj_on_def)
qed

lemma tabs_ok_mset:
  assumes "mset ts = mset ts'"
  shows "tabs_ok ts = tabs_ok ts'"
proof -
  have "mset (map tab_id ts) = mset (map tab_id ts')" using assms by simp
  moreover have "mset (pane_ids xs) = (\<Sum>t\<in>#mset xs. mset (map pane_id (tab_panes t)))" for xs
    by (induction xs) simp_all
  then have "mset (pane_ids ts) = mset (pane_ids ts')" using assms by simp
  moreover have "set ts = set ts'" using assms by (rule mset_eq_setD)
  ultimately show ?thesis
    using mset_eq_imp_distinct_iff unfolding tabs_ok_def by metis
qed

section \<open>The manager invariant\<close>

definition mgr_inv :: "manager \<Rightarrow> bool" where
  "mgr_inv st \<longleftrightarrow> tabs_ok (m_tabs st) \<and> (m_published st = None \<or> m_published st = Some (m_tabs st))"

lemma publish_simps [simp]:
  "m_tabs (publish_tabs ts st) = m_tabs st" "m_removing (publish_tabs ts st) = m_removing st"
  "m_published (publish_tabs ts st) = Some ts"
  by (simp_all add: publish_tabs_def)

lemma set_tab_simps [simp]:
  "m_tabs (set_tab i t st) = (m_tabs st)[i := t]" "m_removing (set_tab i t st) = m_removing st"
  by (simp_all add: set_tab_def)

lemma set_tab_restore [simp]: "set_tab i (m_tabs st ! i) (set_tab i t st) = st"
  by (simp add: set_tab_def)

lemma persist_or_cases:
  "persist_or save st restored x = (r, s') \<Longrightarrow>
     (r = Inr x \<and> save (m_tabs st) = None \<and> s' = publish_tabs (m_tabs st) st) \<or>
     (\<exists>e. r = Inl e \<and> save (m_tabs st) = Some e \<and> s' = restored)"
  by (auto simp: persist_or_def persist_locked_def split: option.splits)

lemma persist_or_Inr:
  "persist_or save st restored x = (Inr y, s') \<longleftrightarrow>
     save (m_tabs st) = None \<and> y = x \<and> s' = publish_tabs (m_tabs st) st"
  by (auto simp: persist_or_def persist_locked_def split: option.splits)

lemma persist_or_Inl:
  "persist_or save st restored x = (Inl e, s') \<longleftrightarrow> save (m_tabs st) = Some e \<and> s' = restored"
  by (auto simp: persist_or_def persist_locked_def split: option.splits)

lemmas persist_or_iffs = persist_or_Inr persist_or_Inl

lemma mgr_inv_publish: "tabs_ok (m_tabs st) \<Longrightarrow> mgr_inv (publish_tabs (m_tabs st) st)"
  by (simp add: mgr_inv_def)

lemma mgr_inv_tabs: "mgr_inv st \<Longrightarrow> tabs_ok (m_tabs st)"
  by (simp add: mgr_inv_def)

lemma tab_index_Inr:
  "tab_index st tid = Inr i \<Longrightarrow> i < length (m_tabs st) \<and> tab_id (m_tabs st ! i) = tid"
  by (auto simp: tab_index_def ok_or_Inr_iff dest: position_Some)

lemma touch_tab_simps [simp]:
  "tab_id (touch_tab now t) = tab_id t" "tab_layout (touch_tab now t) = tab_layout t"
  "tab_panes (touch_tab now t) = tab_panes t" "tab_workspace_root (touch_tab now t) = tab_workspace_root t"
  "tab_name (touch_tab now t) = tab_name t"
  by (simp_all add: touch_tab_def)

text \<open>A step that touches metadata of one tab.\<close>

lemma inv_same_shape:
  "mgr_inv st \<Longrightarrow> i < length (m_tabs st) \<Longrightarrow> shape t = shape (m_tabs st ! i) \<Longrightarrow>
     mgr_inv (publish_tabs ((m_tabs st)[i := t]) (set_tab i t st))"
  using tabs_ok_same_shape [OF mgr_inv_tabs] mgr_inv_publish [of "set_tab i t st"] by simp

interpretation update_tab: transactional "update_tab save now tid name" mgr_inv for save now tid name
proof
  fix s x s' assume "mgr_inv s" "update_tab save now tid name s = (Inr x, s')"
  then show "mgr_inv s'"
    by (auto simp: update_tab_def Let_def try_in_Inr persist_or_iffs shape_def dest!: tab_index_Inr
        split: option.splits if_splits intro!: inv_same_shape)
next
  fix s e s' assume "update_tab save now tid name s = (Inl e, s')"
  then show "s' = s"
    by (auto simp: update_tab_def Let_def try_in_Inl persist_or_iffs split: option.splits if_splits)
qed

interpretation update_layout: transactional "update_layout save now tid l rev" mgr_inv for save now tid l rev
proof
  fix s x s' assume inv: "mgr_inv s" and u: "update_layout save now tid l rev s = (Inr x, s')"
  then obtain i where i: "tab_index s tid = Inr i" and ok: "layout_ok l (tab_panes (m_tabs s ! i))"
    and s': "s' = publish_tabs ((m_tabs s)[i := touch_tab now ((m_tabs s ! i)\<lparr>tab_layout := l\<rparr>)])
      (set_tab i (touch_tab now ((m_tabs s ! i)\<lparr>tab_layout := l\<rparr>)) s)"
    by (auto simp: update_layout_def Let_def try_in_Inr persist_or_iffs validate_layout_iff
        split: option.splits if_splits)
  let ?t = "touch_tab now ((m_tabs s ! i)\<lparr>tab_layout := l\<rparr>)"
  have len: "i < length (m_tabs s)" using tab_index_Inr [OF i] by simp
  then have "m_tabs s ! i \<in> set (m_tabs s)" by simp
  then have old: "tab_ok (m_tabs s ! i)" "distinct (map pane_id (tab_panes (m_tabs s ! i)))"
    using mgr_inv_tabs [OF inv] by (auto simp: tabs_ok_def pane_ids_def distinct_concat_iff)
  have "tabs_ok ((m_tabs s)[i := ?t])"
    by (rule tabs_ok_replace [OF mgr_inv_tabs [OF inv] len]) (use old ok in \<open>auto simp: tab_ok_def\<close>)
  then show "mgr_inv s'" using mgr_inv_publish [of "set_tab i ?t s"] by (simp add: s')
next
  fix s e s' assume "update_layout save now tid l rev s = (Inl e, s')"
  then show "s' = s"
    by (auto simp: update_layout_def Let_def try_in_Inl persist_or_iffs split: option.splits if_splits)
qed

interpretation delete_tab_state: transactional "delete_tab_state save tid" mgr_inv for save tid
proof
  fix s x s' assume "mgr_inv s" "delete_tab_state save tid s = (Inr x, s')"
  then show "mgr_inv s'"
    by (auto simp: delete_tab_state_def Let_def try_in_Inr persist_or_iffs mgr_inv_def intro: tabs_ok_remove)
next
  fix s e s' assume "delete_tab_state save tid s = (Inl e, s')"
  then show "s' = s"
    by (auto simp: delete_tab_state_def Let_def try_in_Inl try_in_Inr persist_or_iffs vec_insert_remove
        dest!: tab_index_Inr)
qed

interpretation delete_workspace_commit: transactional "delete_workspace_commit save ids c" mgr_inv for save ids c
proof
  fix s x s' assume "mgr_inv s" "delete_workspace_commit save ids c s = (Inr x, s')"
  then show "mgr_inv s'"
    by (auto simp: delete_workspace_commit_def Let_def persist_or_iffs mgr_inv_def intro: tabs_ok_filter)
next
  fix s e s' assume "delete_workspace_commit save ids c s = (Inl e, s')"
  then show "s' = s" by (simp add: delete_workspace_commit_def Let_def persist_or_iffs)
qed

interpretation project_dock: transactional "existing_project_dock save now pid wroot legacy" mgr_inv
  for save now pid wroot legacy
proof
  fix s x s' assume "mgr_inv s" "existing_project_dock save now pid wroot legacy s = (Inr x, s')"
  then show "mgr_inv s'"
    by (auto simp: existing_project_dock_def Let_def persist_or_iffs shape_def Option.bind_eq_Some_conv
        split: option.splits if_splits intro!: inv_same_shape dest: position_lessI)
next
  fix s e s' assume "existing_project_dock save now pid wroot legacy s = (Inl e, s')"
  then show "s' = s"
    by (auto simp: existing_project_dock_def Let_def persist_or_iffs split: option.splits if_splits)
qed

interpretation rollback_created_tab: transactional "rollback_created_tab save tid" mgr_inv for save tid
proof
  fix s x s' assume "mgr_inv s" "rollback_created_tab save tid s = (Inr x, s')"
  then show "mgr_inv s'"
    by (auto simp: rollback_created_tab_def Let_def persist_or_iffs mgr_inv_def intro: tabs_ok_remove
        split: option.splits)
next
  fix s e s' assume "rollback_created_tab save tid s = (Inl e, s')"
  then show "s' = s"
    by (auto simp: rollback_created_tab_def Let_def persist_or_iffs vec_insert_remove
        split: option.splits dest: position_lessI)
qed

lemma tab_at_ok:
  assumes "tabs_ok ts" "i < length ts"
  shows "tab_ok (ts ! i)" and "distinct (map pane_id (tab_panes (ts ! i)))"
proof -
  have "ts ! i \<in> set ts" using assms(2) by simp
  with assms(1) show "tab_ok (ts ! i)" "distinct (map pane_id (tab_panes (ts ! i)))"
    by (auto simp: tabs_ok_def pane_ids_def distinct_concat_iff)
qed

text \<open>Removing a pane and its leaf.\<close>

lemma tab_ok_remove_pane:
  assumes "tab_ok t" "distinct (map pane_id (tab_panes t))" "remove_layout_leaf (tab_layout t) pid = Some l"
  shows "tab_ok (touch_tab now (t\<lparr>tab_layout := l, tab_panes := filter (\<lambda>p. pane_id p \<noteq> pid) (tab_panes t)\<rparr>))"
proof -
  from assms(1) have l: "height (tab_layout t) \<le> MAX_LAYOUT_DEPTH" "ratios_ok (tab_layout t)"
    "distinct (leaves (tab_layout t))" "set (leaves (tab_layout t)) = set (map pane_id (tab_panes t))"
    by (simp_all add: tab_ok_def layout_ok_def)
  have lv: "leaves l = remove1 pid (leaves (tab_layout t))" by (rule remove_layout_leaf_Some [OF assms(3)])
  have set_l: "set (leaves l) = set (map pane_id (tab_panes t)) - {pid}"
    unfolding lv using l(3,4) by simp
  moreover obtain x where "x \<in> set (leaves l)" using leaves_nonempty [of l] by (meson last_in_set)
  ultimately obtain p where "p \<in> set (tab_panes t)" "pane_id p \<noteq> pid" by auto
  then have "filter (\<lambda>p. pane_id p \<noteq> pid) (tab_panes t) \<noteq> []" by (auto simp: filter_empty_conv)
  moreover have "height l \<le> MAX_LAYOUT_DEPTH" "ratios_ok l"
    using remove_layout_leaf_bounds [OF assms(3)] l by auto
  moreover have "distinct (leaves l)" unfolding lv using l(3) by simp
  moreover have "set (leaves l) = set (map pane_id (filter (\<lambda>p. pane_id p \<noteq> pid) (tab_panes t)))"
    unfolding set_l by auto
  ultimately show ?thesis by (simp add: tab_ok_def layout_ok_def)
qed

lemma inv_remove_pane:
  assumes inv: "mgr_inv st" and i: "i < length (m_tabs st)"
    and l: "remove_layout_leaf (tab_layout (m_tabs st ! i)) pid = Some l"
    and t: "t = touch_tab now ((m_tabs st ! i)\<lparr>tab_layout := l,
      tab_panes := filter (\<lambda>p. pane_id p \<noteq> pid) (tab_panes (m_tabs st ! i))\<rparr>)"
  shows "mgr_inv (publish_tabs ((m_tabs st)[i := t]) (set_tab i t st))"
proof -
  note ok = mgr_inv_tabs [OF inv] note at = tab_at_ok [OF ok i]
  have "tabs_ok ((m_tabs st)[i := t])"
  proof (rule tabs_ok_replace [OF ok i])
    show "tab_ok t" unfolding t by (rule tab_ok_remove_pane [OF at l])
    show "distinct (map pane_id (tab_panes t))" unfolding t using distinct_map_filter [OF at(2)] by simp
  qed (auto simp: t)
  then show ?thesis using mgr_inv_publish [of "set_tab i t st"] by simp
qed

interpretation delete_pane_state: transactional "delete_pane_state save now tid pid" mgr_inv for save now tid pid
proof
  fix s x s' assume inv: "mgr_inv s" and d: "delete_pane_state save now tid pid s = (Inr x, s')"
  then obtain i where i: "tab_index s tid = Inr i"
    by (auto simp: delete_pane_state_def try_in_Inr)
  note len = conjunct1 [OF tab_index_Inr [OF i]]
  show "mgr_inv s'"
  proof (cases "length (tab_panes (m_tabs s ! i)) = 1")
    case True
    with d i have "s' = publish_tabs (vec_remove i (m_tabs s)) (s\<lparr>m_tabs := vec_remove i (m_tabs s)\<rparr>)"
      by (auto simp: delete_pane_state_def Let_def persist_or_iffs split: if_splits)
    with tabs_ok_remove [OF mgr_inv_tabs [OF inv]] show ?thesis by (simp add: mgr_inv_def)
  next
    case False
    with d i obtain l where l: "remove_layout_leaf (tab_layout (m_tabs s ! i)) pid = Some l"
      by (auto simp: delete_pane_state_def Let_def try_in_Inr ok_or_Inr_iff split: if_splits)
    with d i False inv_remove_pane [OF inv len l refl] show ?thesis
      by (auto simp: delete_pane_state_def Let_def persist_or_iffs split: if_splits)
  qed
next
  fix s e s' assume d: "delete_pane_state save now tid pid s = (Inl e, s')"
  show "s' = s"
  proof (cases "tab_index s tid")
    case (Inr i)
    with conjunct1 [OF tab_index_Inr [OF Inr]] d show ?thesis
      by (auto simp: delete_pane_state_def Let_def try_in_Inl persist_or_iffs vec_insert_remove split: if_splits)
  qed (use d in \<open>simp add: delete_pane_state_def\<close>)
qed

text \<open>Metadata of a pane.\<close>

lemma find_pane_Some:
  "find_pane ts pid = Some (i, j) \<Longrightarrow> i < length ts \<and> j < length (tab_panes (ts ! i)) \<and>
     pane_id (tab_panes (ts ! i) ! j) = pid"
proof (induction ts arbitrary: i)
  case (Cons t ts)
  then show ?case by (auto split: option.splits dest: position_Some)
qed simp

lemma shape_set_pane:
  assumes "j < length (tab_panes t)" "pane_id p = pane_id (tab_panes t ! j)"
  shows "shape (set_pane j p t) = shape t"
proof -
  have "map pane_id ((tab_panes t)[j := p]) = (map pane_id (tab_panes t))[j := map pane_id (tab_panes t) ! j]"
    using assms by (simp add: map_update)
  then show ?thesis by (simp add: shape_def set_pane_def)
qed

lemma shape_simps [simp]:
  "shape (touch_tab now t) = shape t" "shape (t\<lparr>tab_updated_at := u\<rparr>) = shape t"
  by (simp_all add: shape_def)

interpretation set_hosting: transactional "set_hosting save now pid expected h" mgr_inv for save now pid expected h
proof
  fix s x s' assume inv: "mgr_inv s" and u: "set_hosting save now pid expected h s = (Inr x, s')"
  then obtain i j where ij: "find_pane (m_tabs s) pid = Some (i, j)"
    by (auto simp: set_hosting_def try_in_Inr ok_or_Inr_iff)
  note f = find_pane_Some [OF ij]
  let ?t = "touch_tab now (set_pane j ((tab_panes (m_tabs s ! i) ! j)\<lparr>pane_hosting := h\<rparr>) (m_tabs s ! i))"
  have "mgr_inv (publish_tabs ((m_tabs s)[i := ?t]) (set_tab i ?t s))"
    by (rule inv_same_shape [OF inv]) (use f in \<open>auto intro: shape_set_pane\<close>)
  with u ij inv show "mgr_inv s'"
    by (auto simp: set_hosting_def Let_def persist_or_iffs split: if_splits)
next
  fix s e s' assume "set_hosting save now pid expected h s = (Inl e, s')"
  then show "s' = s"
    by (auto simp: set_hosting_def Let_def try_in_Inl persist_or_iffs split: if_splits)
qed

interpretation set_agent_state: transactional "set_agent_state save now pid a" mgr_inv for save now pid a
proof
  fix s x s' assume inv: "mgr_inv s" and u: "set_agent_state save now pid a s = (Inr x, s')"
  then obtain i j where ij: "find_pane (m_tabs s) pid = Some (i, j)"
    by (auto simp: set_agent_state_def try_in_Inr ok_or_Inr_iff)
  note f = find_pane_Some [OF ij]
  let ?t = "touch_tab now (set_pane j ((tab_panes (m_tabs s ! i) ! j)\<lparr>pane_agent_terminal := Some a\<rparr>) (m_tabs s ! i))"
  have "mgr_inv (publish_tabs ((m_tabs s)[i := ?t]) (set_tab i ?t s))"
    by (rule inv_same_shape [OF inv]) (use f in \<open>auto intro: shape_set_pane\<close>)
  with u ij show "mgr_inv s'"
    by (auto simp: set_agent_state_def Let_def persist_or_iffs)
next
  fix s e s' assume "set_agent_state save now pid a s = (Inl e, s')"
  then show "s' = s"
    by (auto simp: set_agent_state_def Let_def try_in_Inl persist_or_iffs)
qed

interpretation attach_status: transactional "apply_attach_status save now pid st code" mgr_inv for save now pid st code
proof
  fix s x s' assume inv: "mgr_inv s" and u: "apply_attach_status save now pid st code s = (Inr x, s')"
  show "mgr_inv s'"
  proof (cases "find_pane (m_tabs s) pid")
    case None
    with u inv show ?thesis by (simp add: apply_attach_status_def)
  next
    case (Some ij)
    obtain i j where ij: "ij = (i, j)" by force
    note f = find_pane_Some [OF Some [unfolded ij]]
    let ?p = "(tab_panes (m_tabs s ! i) ! j)\<lparr>pane_status := st, pane_exit_code := code, pane_updated_at := now\<rparr>"
    let ?t = "(set_pane j ?p (m_tabs s ! i))\<lparr>tab_updated_at := now\<rparr>"
    have "mgr_inv (publish_tabs ((m_tabs s)[i := ?t]) (set_tab i ?t s))"
      by (rule inv_same_shape [OF inv]) (use f in \<open>auto intro: shape_set_pane\<close>)
    with u inv Some ij show ?thesis
      by (auto simp: apply_attach_status_def Let_def persist_or_iffs split: if_splits)
  qed
next
  fix s e s' assume "apply_attach_status save now pid st code s = (Inl e, s')"
  then show "s' = s"
    by (auto simp: apply_attach_status_def Let_def persist_or_iffs split: option.splits if_splits)
qed

text \<open>Statuses of all panes.\<close>

lemma persist_if_changed_inv:
  assumes inv: "mgr_inv s" and shapes: "map shape (map fst results) = map shape (m_tabs s)"
    and same: "\<forall>r\<in>set results. \<not> snd r \<Longrightarrow> map fst results = m_tabs s"
    and p: "persist_if_changed save results s = (Inr x, s')"
  shows "mgr_inv s'"
proof -
  have ok: "tabs_ok (map fst results)" using tabs_ok_shape [OF shapes] mgr_inv_tabs [OF inv] by simp
  show ?thesis
  proof (cases "\<exists>r\<in>set results. snd r")
    case True
    with p ok show ?thesis by (auto simp: persist_if_changed_def Let_def persist_or_iffs mgr_inv_def)
  next
    case False
    with p same have "s' = s" by (auto simp: persist_if_changed_def Let_def)
    with inv show ?thesis by simp
  qed
qed

lemma persist_if_changed_error: "persist_if_changed save results s = (Inl e, s') \<Longrightarrow> s' = s"
  by (auto simp: persist_if_changed_def Let_def persist_or_iffs split: if_splits)

lemma map_fst_unchanged:
  "\<forall>x\<in>set xs. \<not> snd (f x) \<longrightarrow> fst (f x) = x \<Longrightarrow> \<forall>r\<in>set (map f xs). \<not> snd r \<Longrightarrow> map fst (map f xs) = xs"
  by (induction xs) auto

lemma persist_map_inv:
  assumes inv: "mgr_inv s" and f: "\<And>t. shape (fst (f t)) = shape t" "\<And>t. \<not> snd (f t) \<Longrightarrow> fst (f t) = t"
    and p: "persist_if_changed save (map f (m_tabs s)) s = (Inr x, s')"
  shows "mgr_inv s'"
proof (rule persist_if_changed_inv [OF inv _ _ p])
  show "map shape (map fst (map f (m_tabs s))) = map shape (m_tabs s)" by (simp add: f(1))
  show "map fst (map f (m_tabs s)) = m_tabs s" if "\<forall>r\<in>set (map f (m_tabs s)). \<not> snd r"
    by (rule map_fst_unchanged [OF _ that]) (simp add: f(2))
qed

lemma runtimes_to_tab_shape: "shape (fst (apply_runtimes_to_tab now rts t)) = shape t"
  by (auto simp: apply_runtimes_to_tab_def shape_def Let_def apply_runtime_def split: option.splits)

lemma runtimes_to_tab_same: "\<not> snd (apply_runtimes_to_tab now rts t) \<Longrightarrow> fst (apply_runtimes_to_tab now rts t) = t"
proof -
  let ?f = "\<lambda>p. case rts (pane_id p) of None \<Rightarrow> (p, False) | Some r \<Rightarrow> apply_runtime now p r"
  assume "\<not> snd (apply_runtimes_to_tab now rts t)"
  moreover have "\<not> snd (?f p) \<longrightarrow> fst (?f p) = p" for p by (simp add: apply_runtime_def split: option.splits)
  ultimately show ?thesis
    using map_fst_unchanged [of "tab_panes t" ?f] by (auto simp: apply_runtimes_to_tab_def Let_def)
qed

interpretation runtime_statuses: transactional "apply_runtime_statuses save now rts" mgr_inv for save now rts
proof
  fix s x s' assume "mgr_inv s" "apply_runtime_statuses save now rts s = (Inr x, s')"
  then show "mgr_inv s'"
    unfolding apply_runtime_statuses_def
    by (elim persist_map_inv) (auto intro: runtimes_to_tab_shape runtimes_to_tab_same)
next
  fix s e s' assume "apply_runtime_statuses save now rts s = (Inl e, s')"
  then show "s' = s" unfolding apply_runtime_statuses_def by (rule persist_if_changed_error)
qed

lemma interrupt_tab_shape: "shape (fst (interrupt_tab now missing t)) = shape t"
  by (auto simp: interrupt_tab_def shape_def Let_def interrupt_pane_def)

lemma interrupt_tab_same: "\<not> snd (interrupt_tab now missing t) \<Longrightarrow> fst (interrupt_tab now missing t) = t"
proof -
  assume "\<not> snd (interrupt_tab now missing t)"
  moreover have "\<not> snd (interrupt_pane now missing p) \<longrightarrow> fst (interrupt_pane now missing p) = p" for p
    by (simp add: interrupt_pane_def)
  ultimately show ?thesis
    using map_fst_unchanged [of "tab_panes t" "interrupt_pane now missing"]
    by (auto simp: interrupt_tab_def Let_def)
qed

interpretation missing_panes: transactional "mark_missing_nonrestart_panes save now desired actual" mgr_inv
  for save now desired actual
proof
  fix s x s' assume inv: "mgr_inv s" and m: "mark_missing_nonrestart_panes save now desired actual s = (Inr x, s')"
  show "mgr_inv s'"
  proof (cases "missing_nonrestart desired actual = {}")
    case False
    with m have "persist_if_changed save (map (interrupt_tab now (missing_nonrestart desired actual)) (m_tabs s)) s = (Inr x, s')"
      by (simp add: mark_missing_nonrestart_panes_def Let_def)
    with inv show ?thesis by (elim persist_map_inv) (auto intro: interrupt_tab_shape interrupt_tab_same)
  qed (use inv m in \<open>simp add: mark_missing_nonrestart_panes_def Let_def\<close>)
next
  fix s e s' assume "mark_missing_nonrestart_panes save now desired actual s = (Inl e, s')"
  then show "s' = s"
    by (auto simp: mark_missing_nonrestart_panes_def Let_def dest: persist_if_changed_error split: if_splits)
qed

section \<open>Reordering\<close>

definition place :: "nat list \<Rightarrow> 'a list \<Rightarrow> 'a list \<Rightarrow> 'a list" where
  "place ws ts xs = fold (\<lambda>(i, t) xs. xs[i := t]) (zip ws ts) xs"

lemma place_simps [simp]:
  "place [] ts xs = xs" "place (w # ws) (t # ts) xs = place ws ts (xs[w := t])"
  by (simp_all add: place_def)

lemma length_place [simp]: "length ws = length ts \<Longrightarrow> length (place ws ts xs) = length xs"
  by (induction ws ts arbitrary: xs rule: list_induct2) simp_all

lemma place_tabs_place:
  "length ws = length ids \<Longrightarrow> \<forall>i\<in>set ids. r i \<noteq> None \<Longrightarrow>
     place_tabs (zip ws ids) r tabs = Some (place ws (map (the \<circ> r) ids) tabs)"
  by (induction ws ids arbitrary: tabs rule: list_induct2) auto

lemma place_nth:
  "length ws = length ts \<Longrightarrow> distinct ws \<Longrightarrow> \<forall>w\<in>set ws. w < length xs \<Longrightarrow>
     (\<forall>k. k \<notin> set ws \<longrightarrow> place ws ts xs ! k = xs ! k) \<and> (\<forall>j<length ws. place ws ts xs ! (ws ! j) = ts ! j)"
proof (induction ws ts arbitrary: xs rule: list_induct2)
  case (Cons w ws t ts)
  then have IH: "\<forall>k. k \<notin> set ws \<longrightarrow> place ws ts (xs[w := t]) ! k = xs[w := t] ! k"
    "\<forall>j<length ws. place ws ts (xs[w := t]) ! (ws ! j) = ts ! j" by simp_all
  with Cons.prems show ?case by (auto simp: nth_Cons less_Suc_eq_0_disj split: nat.splits)
qed simp

lemma place_mset:
  "length ws = length ts \<Longrightarrow> distinct ws \<Longrightarrow> \<forall>w\<in>set ws. w < length xs \<Longrightarrow>
     mset (place ws ts xs) + mset (map ((!) xs) ws) = mset xs + mset ts"
proof (induction ws ts arbitrary: xs rule: list_induct2)
  case (Cons w ws t ts)
  have same: "map ((!) (xs[w := t])) ws = map ((!) xs) ws"
    using Cons.prems by (intro map_cong refl nth_list_update_neq) auto
  have w: "w < length xs" using Cons.prems by simp
  have "mset (place ws ts (xs[w := t])) + mset (map ((!) xs) ws) = mset (xs[w := t]) + mset ts"
    using Cons.IH [of "xs[w := t]"] Cons.prems by (simp add: same)
  moreover have "mset (xs[w := t]) + {#xs ! w#} = mset xs + {#t#}"
    using w by (simp add: mset_update)
  ultimately show ?case by (simp add: ac_simps)
qed simp

lemma workspace_indices_props:
  "set (workspace_indices w tabs) = {i. i < length tabs \<and> tab_workspace_root (tabs ! i) = w}"
  "distinct (workspace_indices w tabs)"
  by (auto simp: workspace_indices_def)

lemma workspace_tabs:
  "map ((!) tabs) (workspace_indices w tabs) = filter (\<lambda>t. tab_workspace_root t = w) tabs"
proof -
  have "filter (\<lambda>t. tab_workspace_root t = w) (map ((!) tabs) [0..<length tabs]) =
      map ((!) tabs) (workspace_indices w tabs)"
    by (simp add: workspace_indices_def filter_map comp_def)
  then show ?thesis by (simp add: map_nth)
qed

text \<open>The effect of a reordering that passes the checks.\<close>

lemma reorder_effect:
  assumes ok: "tabs_ok tabs" and dist: "distinct tids"
    and ids: "set tids = set (map tab_id (filter (\<lambda>t. tab_workspace_root t = w) tabs))"
  defines "r \<equiv> map_of (rev (map (\<lambda>t. (tab_id t, t)) (filter (\<lambda>t. tab_workspace_root t = w) tabs)))"
  defines "tabs' \<equiv> place (workspace_indices w tabs) (map (the \<circ> r) tids) tabs"
  shows "place_tabs (zip (workspace_indices w tabs) tids) r tabs = Some tabs'"
    and "mset tabs' = mset tabs"
    and "map tab_id (filter (\<lambda>t. tab_workspace_root t = w) tabs') = tids"
    and "\<forall>k<length tabs. tab_workspace_root (tabs ! k) \<noteq> w \<longrightarrow> tabs' ! k = tabs ! k"
    and "map ((!) tabs') (workspace_indices w tabs) = filter (\<lambda>t. tab_workspace_root t = w) tabs'"
proof -
  let ?F = "filter (\<lambda>t. tab_workspace_root t = w) tabs" and ?W = "workspace_indices w tabs"
  have dF: "distinct (map tab_id ?F)" using ok by (intro distinct_map_filter) (simp add: tabs_ok_def)
  have lenW: "length ?W = length ?F" using arg_cong [OF workspace_tabs [where w = w and tabs = tabs], of length] by simp
  have len: "length ?W = length tids"
    using distinct_card [OF dist] distinct_card [OF dF] ids lenW by simp
  have r: "r (tab_id t) = Some t" if "t \<in> set ?F" for t
  proof -
    have "distinct (map fst (rev (map (\<lambda>t. (tab_id t, t)) ?F)))"
      using dF by (simp add: rev_map [symmetric] comp_def)
    with that show ?thesis unfolding r_def by (intro map_of_is_SomeI) auto
  qed
  have rs: "\<exists>t\<in>set ?F. r i = Some t \<and> tab_id t = i" if "i \<in> set tids" for i
    using that ids r by auto
  then show pt: "place_tabs (zip ?W tids) r tabs = Some tabs'"
    unfolding tabs'_def by (intro place_tabs_place len) fastforce
  let ?T = "map (the \<circ> r) tids"
  have setT: "set ?T = set ?F"
  proof
    show "set ?T \<subseteq> set ?F" using rs by fastforce
    show "set ?F \<subseteq> set ?T"
    proof
      fix t assume t: "t \<in> set ?F"
      with ids have "tab_id t \<in> set tids" by auto
      with r [OF t] show "t \<in> set ?T" by (force intro: rev_image_eqI)
    qed
  qed
  have idT: "map tab_id ?T = tids"
  proof -
    have "(tab_id \<circ> (the \<circ> r)) i = i" if "i \<in> set tids" for i using rs [OF that] by auto
    then show ?thesis by (simp add: map_idI)
  qed
  have "distinct ?T" using dist idT by (metis distinct_map)
  moreover have "distinct ?F" using dF by (simp add: distinct_map)
  ultimately have mT: "mset ?T = mset ?F" using setT by (simp only: set_eq_iff_mset_eq_distinct)
  have W: "\<forall>i\<in>set ?W. i < length tabs" "distinct ?W" by (simp_all add: workspace_indices_props)
  have lT: "length ?W = length ?T" using len by simp
  show m: "mset tabs' = mset tabs"
    using place_mset [OF lT W(2,1)] mT unfolding workspace_tabs tabs'_def by simp
  note nth = place_nth [OF lT W(2,1), folded tabs'_def]
  have lt: "length tabs' = length tabs" unfolding tabs'_def by (rule length_place [OF lT])
  show other: "\<forall>k<length tabs. tab_workspace_root (tabs ! k) \<noteq> w \<longrightarrow> tabs' ! k = tabs ! k"
    using nth by (simp add: workspace_indices_props)
  have mapW: "map ((!) tabs') ?W = ?T"
    using nth lT by (intro nth_equalityI) auto
  have inW: "tab_workspace_root (tabs' ! i) = w" if "i \<in> set ?W" for i
  proof -
    have "tabs' ! i \<in> set ?T" using that mapW by (metis image_eqI list.set_map)
    with setT show ?thesis by auto
  qed
  have "workspace_indices w tabs' = ?W"
    unfolding workspace_indices_def lt
  proof (rule filter_cong)
    fix i assume "i \<in> set [0..<length tabs]"
    then have i: "i < length tabs" by simp
    show "tab_workspace_root (tabs' ! i) = w \<longleftrightarrow> tab_workspace_root (tabs ! i) = w"
    proof (cases "tab_workspace_root (tabs ! i) = w")
      case True
      with i inW show ?thesis by (simp add: workspace_indices_props)
    next
      case False
      with other i show ?thesis by simp
    qed
  qed simp
  then show fl: "map ((!) tabs') ?W = filter (\<lambda>t. tab_workspace_root t = w) tabs'"
    using workspace_tabs [where w = w and tabs = tabs'] by simp
  show "map tab_id (filter (\<lambda>t. tab_workspace_root t = w) tabs') = tids"
    using fl mapW idT by simp
qed

lemma workspace_ids: "map (\<lambda>index. tab_id (tabs ! index)) (workspace_indices w tabs) =
    map tab_id (filter (\<lambda>t. tab_workspace_root t = w) tabs)"
  using arg_cong [OF workspace_tabs [where w = w and tabs = tabs], of "map tab_id"] by (simp add: comp_def)

text \<open>A request that passes the checks names every tab of the workspace once.\<close>

lemma reorder_checks:
  assumes ok: "tabs_ok (m_tabs st)" and r: "reorder_tabs save w tids st = (Inr ts, st')"
  shows "distinct tids \<and> set tids = set (map tab_id (filter (\<lambda>t. tab_workspace_root t = w) (m_tabs st)))"
proof -
  let ?c = "set (map (\<lambda>index. tab_id (m_tabs st ! index)) (workspace_indices w (m_tabs st)))"
  from r have "card (set tids) = length tids" "card (set tids) = card ?c" "set tids \<subseteq> ?c"
    by (auto simp: reorder_tabs_def Let_def split: if_splits)
  moreover from this have "set tids = ?c" by (intro card_subset_eq) simp_all
  ultimately have "distinct tids" "set tids = ?c" by (auto intro: card_distinct)
  then show ?thesis unfolding workspace_ids by blast
qed

lemma reorder_Inr:
  assumes ok: "tabs_ok (m_tabs st)" and r: "reorder_tabs save w tids st = (Inr ts, st')"
  shows "mset (m_tabs st') = mset (m_tabs st) \<and> m_removing st' = m_removing st \<and>
     map tab_id (list_snapshot (Some w) st') = tids \<and> ts = list_snapshot (Some w) st' \<and>
     (\<forall>k<length (m_tabs st). tab_workspace_root (m_tabs st ! k) \<noteq> w \<longrightarrow> m_tabs st' ! k = m_tabs st ! k) \<and>
     (st' = st \<or> m_published st' = Some (m_tabs st'))"
proof -
  let ?tabs = "m_tabs st" and ?W = "workspace_indices w (m_tabs st)"
  let ?r = "map_of (rev (map (\<lambda>t. (tab_id t, t)) (filter (\<lambda>t. tab_workspace_root t = w) ?tabs)))"
  let ?T = "place ?W (map (the \<circ> ?r) tids) ?tabs"
  note c = reorder_checks [OF ok r]
  note e = reorder_effect [OF ok conjunct1 [OF c] conjunct2 [OF c]]
  show ?thesis
  proof (cases "map (\<lambda>index. tab_id (?tabs ! index)) ?W = tids")
    case True
    with r have "st' = st" "ts = map ((!) ?tabs) ?W"
      by (auto simp: reorder_tabs_def Let_def split: if_splits)
    with True show ?thesis by (simp add: list_snapshot_def workspace_tabs workspace_ids)
  next
    case False
    with r e(1) have "st' = publish_tabs ?T (st\<lparr>m_tabs := ?T\<rparr>)" "ts = map ((!) ?T) ?W"
      by (auto simp: reorder_tabs_def Let_def persist_or_iffs split: if_splits)
    with e show ?thesis by (simp add: list_snapshot_def)
  qed
qed

interpretation reorder: transactional "reorder_tabs save w tids" mgr_inv for save w tids
proof
  fix s x s' assume inv: "mgr_inv s" and r: "reorder_tabs save w tids s = (Inr x, s')"
  from reorder_Inr [OF mgr_inv_tabs [OF inv] r] tabs_ok_mset [of "m_tabs s'" "m_tabs s"] inv
  show "mgr_inv s'" by (auto simp: mgr_inv_def)
next
  fix s e s' assume "reorder_tabs save w tids s = (Inl e, s')"
  then show "s' = s"
    by (auto simp: reorder_tabs_def Let_def persist_or_iffs split: if_splits option.splits)
qed

section \<open>New panes and tabs\<close>

lemma tab_index_first:
  "tabs_ok (m_tabs st) \<Longrightarrow> i < length (m_tabs st) \<Longrightarrow> tab_id (m_tabs st ! i) = tid \<Longrightarrow> tab_index st tid = Inr i"
proof -
  assume ok: "tabs_ok (m_tabs st)" and i: "i < length (m_tabs st)" "tab_id (m_tabs st ! i) = tid"
  have "position (\<lambda>t. tab_id t = tid) (m_tabs st) \<noteq> None"
    using i by (auto simp: position_None_iff)
  then obtain j where j: "position (\<lambda>t. tab_id t = tid) (m_tabs st) = Some j" by auto
  from position_Some [OF j] i ok have "j = i"
    by (auto simp: tabs_ok_def distinct_conv_nth) 
  with j show ?thesis by (simp add: tab_index_def)
qed

lemma inv_commit_tab:
  assumes "mgr_inv st" "tab_ok t" "tab_id t \<notin> set (map tab_id (m_tabs st))"
    "distinct (map pane_id (tab_panes t))" "set (map pane_id (tab_panes t)) \<inter> set (pane_ids (m_tabs st)) = {}"
    "commit_tab save t st = (r, st')"
  shows "mgr_inv st'" and "r = Inl e \<Longrightarrow> st' = st"
proof -
  have "tabs_ok (m_tabs st @ [t])" using assms(1-5) mgr_inv_tabs by (intro tabs_ok_append) auto
  with assms(1,6) show "mgr_inv st'"
    by (auto simp: commit_tab_def Let_def mgr_inv_def dest!: persist_or_cases)
  from assms(6) show "r = Inl e \<Longrightarrow> st' = st" by (auto simp: commit_tab_def Let_def persist_or_iffs)
qed

lemma leaf_tab_ok: "tab_panes t = [p] \<Longrightarrow> tab_layout t = Pane (pane_id p) \<Longrightarrow> tab_ok t"
  by (simp add: tab_ok_def layout_ok_def)

lemma create_commit_inv:
  assumes inv: "mgr_inv st" and c: "create_shell_commit save tid now dock (n, w, p) st = (r, st')"
    and fresh: "tid \<notin> set (map tab_id (m_tabs st))" "pane_id p \<notin> set (pane_ids (m_tabs st))"
  shows "mgr_inv st'" and "r = Inl e \<Longrightarrow> st' = st"
proof -
  have "mgr_inv st' \<and> (r = Inl e \<longrightarrow> st' = st)"
  proof (cases "is_ok (ensure_workspace_available st w) \<and> is_ok (ensure_workspace_available st (pane_cwd p))")
    case False
    with c inv show ?thesis
      by (auto simp: create_shell_commit_def try_in_def is_ok_def split: sum.splits)
  next
    case True
    with c obtain t where t: "commit_tab save t st = (r, st')" "tab_panes t = [p]"
      "tab_layout t = Pane (pane_id p)" "tab_id t = tid"
      by (auto simp: create_shell_commit_def try_in_def is_ok_def split: sum.splits)
    show ?thesis
      using inv_commit_tab [OF inv leaf_tab_ok [OF t(2,3)] _ _ _ t(1)] fresh t by auto
  qed
  then show "mgr_inv st'" "r = Inl e \<Longrightarrow> st' = st" by auto
qed

end
