(* ===== verification/Term_System.thy ===== *)
theory Term_System
  imports Term_Invariant
begin

text \<open>
  The terminal manager as a transition system. The operations that create or remove panes hold the
  operation lock of \<open>ManagerInner\<close> from their first to their last critical section; the others only
  take the state lock and may run in between. \<open>op_lock\<close> is what the holder of the operation lock has
  computed so far.
\<close>

section \<open>Splitting\<close>

lemma leaves_count:
  assumes "tab_ok t" "distinct (map pane_id (tab_panes t))"
  shows "length (leaves (tab_layout t)) = length (tab_panes t)"
proof -
  from assms(1) have "distinct (leaves (tab_layout t))" "set (leaves (tab_layout t)) = set (map pane_id (tab_panes t))"
    by (simp_all add: tab_ok_def layout_ok_def)
  with distinct_card [OF this(1)] distinct_card [OF assms(2)] show ?thesis by simp
qed

lemma subst_first_pair:
  "p \<in> set xs \<Longrightarrow> set (subst_first p [p, q] xs) = insert q (set xs) \<and>
     length (subst_first p [p, q] xs) = Suc (length xs) \<and>
     (distinct xs \<longrightarrow> q \<notin> set xs \<longrightarrow> distinct (subst_first p [p, q] xs))"
  by (induction xs) auto

lemma tab_ok_split:
  assumes ok: "tab_ok t" and dist: "distinct (map pane_id (tab_panes t))"
    and few: "length (tab_panes t) < MAX_PANES_PER_TAB"
    and r: "validate_ratio ratio = Inr ratio" and new: "pane_id p \<notin> set (map pane_id (tab_panes t))"
    and rep: "replace_layout_leaf (tab_layout t) target (Split axis ratio (Pane target) (Pane (pane_id p))) = (l, True)"
  shows "tab_ok (touch_tab now (t\<lparr>tab_layout := l, tab_panes := tab_panes t @ [p]\<rparr>))"
proof -
  from ok have lo: "ratios_ok (tab_layout t)" "distinct (leaves (tab_layout t))"
    "set (leaves (tab_layout t)) = set (map pane_id (tab_panes t))"
    by (simp_all add: tab_ok_def layout_ok_def)
  from replace_layout_leaf_leaves [OF rep] have target: "target \<in> set (leaves (tab_layout t))"
    and lv: "leaves l = subst_first target [target, pane_id p] (leaves (tab_layout t))" by simp_all
  note s = subst_first_pair [OF target, of "pane_id p"]
  have "length (leaves l) \<le> MAX_PANES_PER_TAB"
    using s lv leaves_count [OF ok dist] few by simp
  then have "height l \<le> MAX_LAYOUT_DEPTH"
    using height_less_leaves [of l] by (simp add: MAX_PANES_PER_TAB_def MAX_LAYOUT_DEPTH_def)
  moreover have "ratios_ok l" by (rule replace_layout_leaf_ratios [OF rep lo(1)]) (simp add: r)
  moreover have "distinct (leaves l)" "set (leaves l) = insert (pane_id p) (set (map pane_id (tab_panes t)))"
    using s lv lo new by simp_all
  ultimately show ?thesis by (simp add: tab_ok_def layout_ok_def)
qed

text \<open>What the operation lock protects: the panes of every tab.\<close>

definition view :: "tab list \<Rightarrow> (string, string list) map" where
  "view ts = map_of (map (\<lambda>t. (tab_id t, map pane_id (tab_panes t))) ts)"

lemma view_Some_iff:
  "distinct (map tab_id ts) \<Longrightarrow> view ts tid = Some ids \<longleftrightarrow>
     (\<exists>t\<in>set ts. tab_id t = tid \<and> map pane_id (tab_panes t) = ids)"
  unfolding view_def by (subst map_of_eq_Some_iff) (auto simp: comp_def)

lemma view_dom: "dom (view ts) = set (map tab_id ts)"
  by (auto simp: view_def dom_map_of_conv_image_fst image_comp comp_def)

lemma view_panes:
  assumes "distinct (map tab_id ts)"
  shows "set (pane_ids ts) = (\<Union>ids\<in>ran (view ts). set ids)"
proof (intro set_eqI iffI)
  fix x assume "x \<in> set (pane_ids ts)"
  then obtain t where "t \<in> set ts" "x \<in> set (map pane_id (tab_panes t))" by (auto simp: pane_ids_def)
  moreover from this(1) have "view ts (tab_id t) = Some (map pane_id (tab_panes t))"
    using view_Some_iff [OF assms] by blast
  ultimately show "x \<in> (\<Union>ids\<in>ran (view ts). set ids)" by (blast intro: ranI)
next
  fix x assume "x \<in> (\<Union>ids\<in>ran (view ts). set ids)"
  then obtain tid ids where "view ts tid = Some ids" "x \<in> set ids" by (auto simp: ran_def)
  with view_Some_iff [OF assms, of tid ids] obtain t where "t \<in> set ts" "x \<in> set (map pane_id (tab_panes t))"
    by auto
  then show "x \<in> set (pane_ids ts)" by (auto simp: pane_ids_def)
qed

lemma view_nth:
  "distinct (map tab_id ts) \<Longrightarrow> i < length ts \<Longrightarrow> view ts (tab_id (ts ! i)) = Some (map pane_id (tab_panes (ts ! i)))"
  using view_Some_iff [of ts "tab_id (ts ! i)"] nth_mem by blast

lemma view_shapes: "map shape ts = map shape ts' \<Longrightarrow> view ts = view ts'"
proof -
  assume "map shape ts = map shape ts'"
  from arg_cong [OF this, of "map (\<lambda>(a, b, c). (a, c))"] show ?thesis
    by (simp add: shape_def view_def comp_def)
qed

lemma view_mset: "distinct (map tab_id ts) \<Longrightarrow> mset ts = mset ts' \<Longrightarrow> view ts = view ts'"
proof -
  assume d: "distinct (map tab_id ts)" and m: "mset ts = mset ts'"
  then have d': "distinct (map tab_id ts')" using mset_eq_imp_distinct_iff [of "map tab_id ts" "map tab_id ts'"] by simp
  have "set ts = set ts'" using m by (rule mset_eq_setD)
  then show ?thesis
    unfolding view_def using d d' by (intro map_of_inject_set [THEN iffD2]) (simp_all add: comp_def)
qed

section \<open>Operations that keep the panes\<close>

lemma view_same_shape:
  "i < length ts \<Longrightarrow> shape t = shape (ts ! i) \<Longrightarrow> view (ts[i := t]) = view ts"
  by (rule view_shapes) (metis list_update_id map_update nth_map)

lemma view_replace:
  assumes "i < length ts" "tab_id t = tab_id (ts ! i)" "map pane_id (tab_panes t) = map pane_id (tab_panes (ts ! i))"
  shows "view (ts[i := t]) = view ts"
proof -
  have "map (\<lambda>t. (tab_id t, map pane_id (tab_panes t))) (ts[i := t]) =
      (map (\<lambda>t. (tab_id t, map pane_id (tab_panes t))) ts)
        [i := map (\<lambda>t. (tab_id t, map pane_id (tab_panes t))) ts ! i]"
    using assms by (simp add: map_update)
  then show ?thesis by (simp add: view_def)
qed

text \<open>\<open>keeps_view\<close>: a step of a task that does not hold the operation lock.\<close>

definition keeps_view :: "(manager \<Rightarrow> ('e, 'a) result \<times> manager) \<Rightarrow> bool" where
  "keeps_view run \<longleftrightarrow> (\<forall>st. mgr_inv st \<longrightarrow>
     mgr_inv (snd (run st)) \<and> view (m_tabs (snd (run st))) = view (m_tabs st))"

lemma keeps_viewI:
  assumes "transactional run mgr_inv"
    and "\<And>st x st'. mgr_inv st \<Longrightarrow> run st = (Inr x, st') \<Longrightarrow> view (m_tabs st') = view (m_tabs st)"
  shows "keeps_view run"
  unfolding keeps_view_def
proof (intro allI impI conjI)
  fix st assume inv: "mgr_inv st"
  show "mgr_inv (snd (run st))" by (rule transactional.preserves [OF assms(1) inv])
  show "view (m_tabs (snd (run st))) = view (m_tabs st)"
  proof (cases "fst (run st)")
    case (Inl e)
    then have "run st = (Inl e, snd (run st))" by (metis prod.collapse)
    then show ?thesis using transactional.failure_unchanged [OF assms(1)] by metis
  next
    case (Inr x)
    then have "run st = (Inr x, snd (run st))" by (metis prod.collapse)
    then show ?thesis by (rule assms(2) [OF inv])
  qed
qed

lemma keeps_update_tab: "keeps_view (update_tab save now tid name)"
  by (rule keeps_viewI [OF update_tab.transactional_axioms])
    (auto simp: update_tab_def Let_def try_in_Inr persist_or_iffs dest!: tab_index_Inr
      split: option.splits if_splits intro!: view_replace)

lemma keeps_update_layout: "keeps_view (update_layout save now tid l revision)"
proof (rule keeps_viewI [OF update_layout.transactional_axioms])
  fix st x st' assume "update_layout save now tid l revision st = (Inr x, st')"
  then obtain i where "tab_index st tid = Inr i"
    "m_tabs st' = (m_tabs st)[i := touch_tab now ((m_tabs st ! i)\<lparr>tab_layout := l\<rparr>)]"
    by (cases revision)
      (auto simp: update_layout_def Let_def try_in_Inr persist_or_iffs split: if_splits)
  then show "view (m_tabs st') = view (m_tabs st)"
    by (auto dest!: tab_index_Inr intro!: view_replace)
qed

lemma keeps_reorder: "keeps_view (reorder_tabs save w tids)"
proof (rule keeps_viewI [OF reorder.transactional_axioms])
  fix st x st' assume inv: "mgr_inv st" and r: "reorder_tabs save w tids st = (Inr x, st')"
  note ok = mgr_inv_tabs [OF inv]
  have "distinct (map tab_id (m_tabs st))" using ok by (simp add: tabs_ok_def)
  then show "view (m_tabs st') = view (m_tabs st)"
    using view_mset [of "m_tabs st" "m_tabs st'"] reorder_Inr [OF ok r] by simp
qed

lemma pane_ids_set_pane:
  "j < length (tab_panes t) \<Longrightarrow> pane_id p = pane_id (tab_panes t ! j) \<Longrightarrow>
     map pane_id (tab_panes (set_pane j p t)) = map pane_id (tab_panes t) \<and> tab_id (set_pane j p t) = tab_id t"
  using shape_set_pane [of j t p] by (simp add: shape_def)

lemma view_set_pane:
  assumes "find_pane ts pid = Some (i, j)" "pane_id p = pane_id (tab_panes (ts ! i) ! j)"
    "tab_id t = tab_id (set_pane j p (ts ! i))" "tab_panes t = tab_panes (set_pane j p (ts ! i))"
  shows "view (ts[i := t]) = view ts"
  using find_pane_Some [OF assms(1)] pane_ids_set_pane [of j "ts ! i" p] assms(2-4)
  by (intro view_replace) simp_all

lemma view_touch_pane:
  "find_pane ts pid = Some (i, j) \<Longrightarrow> pane_id p = pane_id (tab_panes (ts ! i) ! j) \<Longrightarrow>
     view (ts[i := touch_tab now (set_pane j p (ts ! i))]) = view ts"
  "find_pane ts pid = Some (i, j) \<Longrightarrow> pane_id p = pane_id (tab_panes (ts ! i) ! j) \<Longrightarrow>
     view (ts[i := (set_pane j p (ts ! i))\<lparr>tab_updated_at := now\<rparr>]) = view ts"
  by (auto intro: view_set_pane)

lemma keeps_set_hosting: "keeps_view (set_hosting save now pid expected h)"
  by (rule keeps_viewI [OF set_hosting.transactional_axioms])
    (auto simp: set_hosting_def Let_def try_in_Inr ok_or_Inr_iff persist_or_iffs
      view_touch_pane split: if_splits)

lemma keeps_set_agent_state: "keeps_view (set_agent_state save now pid a)"
  by (rule keeps_viewI [OF set_agent_state.transactional_axioms])
    (auto simp: set_agent_state_def Let_def try_in_Inr ok_or_Inr_iff persist_or_iffs view_touch_pane)

lemma keeps_attach_status: "keeps_view (apply_attach_status save now pid st code)"
  by (rule keeps_viewI [OF attach_status.transactional_axioms])
    (auto simp: apply_attach_status_def Let_def persist_or_iffs view_touch_pane
      split: option.splits if_splits)

lemma view_map_results:
  "(\<And>t. shape (fst (f t)) = shape t) \<Longrightarrow> persist_if_changed save (map f (m_tabs st)) st = (Inr x, st') \<Longrightarrow>
     view (m_tabs st') = view (m_tabs st)"
  by (rule view_shapes)
    (auto simp: persist_if_changed_def Let_def persist_or_iffs comp_def split: if_splits)

lemma keeps_runtime_statuses: "keeps_view (apply_runtime_statuses save now rts)"
  by (rule keeps_viewI [OF runtime_statuses.transactional_axioms])
    (auto simp: apply_runtime_statuses_def intro!: runtimes_to_tab_shape elim!: view_map_results [rotated])

lemma keeps_missing_panes: "keeps_view (mark_missing_nonrestart_panes save now desired actual)"
  by (rule keeps_viewI [OF missing_panes.transactional_axioms])
    (auto simp: mark_missing_nonrestart_panes_def Let_def intro!: interrupt_tab_shape
      elim!: view_map_results [rotated] split: if_splits)

lemma keeps_project_dock: "keeps_view (existing_project_dock save now pid wroot legacy)"
  by (rule keeps_viewI [OF project_dock.transactional_axioms])
    (auto simp: existing_project_dock_def Let_def persist_or_iffs Option.bind_eq_Some_conv
      split: option.splits if_splits intro!: view_replace dest: position_lessI)

lemma keeps_removing: "keeps_view (\<lambda>st. (Inr (), set_workspace_removing w b st))"
  by (simp add: keeps_view_def set_workspace_removing_def mgr_inv_def)

section \<open>The system\<close>

datatype op_lock =
    Free
  | Splitting string split_request "f32 \<times> pane \<times> u64"
  | SplitWaiting string string tab tab
  | Creating string "string option" "string option \<times> string \<times> pane"
  | CreateWaiting tab
  | Rebuilding tab "pane list"

record terminal_system =
  ts_mgr :: manager
  ts_lock :: op_lock

inductive terminal_step :: "terminal_system \<Rightarrow> terminal_system \<Rightarrow> bool" where
  any_rename: "terminal_step s (s\<lparr>ts_mgr := snd (update_tab save now tid name (ts_mgr s))\<rparr>)"
| any_reorder: "terminal_step s (s\<lparr>ts_mgr := snd (reorder_tabs save w tids (ts_mgr s))\<rparr>)"
| any_layout: "terminal_step s (s\<lparr>ts_mgr := snd (update_layout save now tid l revision (ts_mgr s))\<rparr>)"
| any_hosting: "terminal_step s (s\<lparr>ts_mgr := snd (set_hosting save now pid expected h (ts_mgr s))\<rparr>)"
| any_agent: "terminal_step s (s\<lparr>ts_mgr := snd (set_agent_state save now pid a (ts_mgr s))\<rparr>)"
| any_attach: "terminal_step s (s\<lparr>ts_mgr := snd (apply_attach_status save now pid st code (ts_mgr s))\<rparr>)"
| any_status: "terminal_step s (s\<lparr>ts_mgr := snd (apply_runtime_statuses save now rts (ts_mgr s))\<rparr>)"
| any_removing: "terminal_step s (s\<lparr>ts_mgr := set_workspace_removing w b (ts_mgr s)\<rparr>)"
| reconcile_missing: "ts_lock s = Free \<Longrightarrow>
    terminal_step s (s\<lparr>ts_mgr := snd (mark_missing_nonrestart_panes save now desired actual (ts_mgr s))\<rparr>)"
| open_dock: "ts_lock s = Free \<Longrightarrow>
    terminal_step s (s\<lparr>ts_mgr := snd (existing_project_dock save now pid wroot legacy (ts_mgr s))\<rparr>)"
| remove_tab: "ts_lock s = Free \<Longrightarrow>
    terminal_step s (s\<lparr>ts_mgr := snd (delete_tab_state save tid (ts_mgr s))\<rparr>)"
| remove_pane: "ts_lock s = Free \<Longrightarrow>
    terminal_step s (s\<lparr>ts_mgr := snd (delete_pane_state save now tid pid (ts_mgr s))\<rparr>)"
| remove_workspace: "ts_lock s = Free \<Longrightarrow>
    terminal_step s (s\<lparr>ts_mgr := snd (delete_workspace_commit save ids () (ts_mgr s))\<rparr>)"
| split_start: "ts_lock s = Free \<Longrightarrow> pid \<notin> set (pane_ids (m_tabs (ts_mgr s))) \<Longrightarrow>
    split_prepare h pid now tid req (ts_mgr s) = Inr prepared \<Longrightarrow>
    terminal_step s (s\<lparr>ts_lock := Splitting tid req prepared\<rparr>)"
| split_done: "ts_lock s = Splitting tid req prepared \<Longrightarrow>
    split_commit save now tid req prepared (ts_mgr s) = (Inr (created, old), st') \<Longrightarrow>
    terminal_step s \<lparr>ts_mgr = st', ts_lock = SplitWaiting tid (pane_id (fst (snd prepared))) created old\<rparr>"
| split_failed: "ts_lock s = Splitting tid req prepared \<Longrightarrow>
    split_commit save now tid req prepared (ts_mgr s) = (Inl e, st') \<Longrightarrow>
    terminal_step s \<lparr>ts_mgr = st', ts_lock = Free\<rparr>"
| split_answered: "ts_lock s = SplitWaiting tid pid created old \<Longrightarrow>
    split_finish save answer matches now tid pid (created, old) (ts_mgr s) = (r, st') \<Longrightarrow>
    terminal_step s \<lparr>ts_mgr = st', ts_lock = Free\<rparr>"
| create_start: "ts_lock s = Free \<Longrightarrow> pid \<notin> set (pane_ids (m_tabs (ts_mgr s))) \<Longrightarrow>
    tid \<notin> set (map tab_id (m_tabs (ts_mgr s))) \<Longrightarrow> prepare_shell h pid now req = Inr prepared \<Longrightarrow>
    terminal_step s (s\<lparr>ts_lock := Creating tid dock prepared\<rparr>)"
| create_done: "ts_lock s = Creating tid dock prepared \<Longrightarrow>
    create_shell_commit save tid now dock prepared (ts_mgr s) = (Inr t, st') \<Longrightarrow>
    terminal_step s \<lparr>ts_mgr = st', ts_lock = CreateWaiting t\<rparr>"
| create_failed: "ts_lock s = Creating tid dock prepared \<Longrightarrow>
    create_shell_commit save tid now dock prepared (ts_mgr s) = (Inl e, st') \<Longrightarrow>
    terminal_step s \<lparr>ts_mgr = st', ts_lock = Free\<rparr>"
| create_answered: "ts_lock s = CreateWaiting t \<Longrightarrow>
    create_shell_finish save answer matches t (ts_mgr s) = (r, st') \<Longrightarrow>
    terminal_step s \<lparr>ts_mgr = st', ts_lock = Free\<rparr>"
| rebuild_start: "ts_lock s = Free \<Longrightarrow> rebuild_prepare h get previous (ts_mgr s) = Inr current \<Longrightarrow>
    length pids = length (tab_panes current) \<Longrightarrow> distinct pids \<Longrightarrow>
    set pids \<inter> set (pane_ids (m_tabs (ts_mgr s))) = {} \<Longrightarrow>
    terminal_step s (s\<lparr>ts_lock := Rebuilding current (map2 (rebuilt_pane arguments now) pids (tab_panes current))\<rparr>)"
| rebuild_done: "ts_lock s = Rebuilding current panes \<Longrightarrow>
    rebuild_commit save now current panes (ts_mgr s) = (r, st') \<Longrightarrow>
    terminal_step s \<lparr>ts_mgr = st', ts_lock = Free\<rparr>"
| operation_gives_up: "(\<forall>tid pid created old. ts_lock s \<noteq> SplitWaiting tid pid created old) \<Longrightarrow>
    (\<forall>t. ts_lock s \<noteq> CreateWaiting t) \<Longrightarrow> terminal_step s (s\<lparr>ts_lock := Free\<rparr>)"

inductive terminal_reachable :: "terminal_system \<Rightarrow> bool" where
  loaded: "load_manager display_name file = Inr st \<Longrightarrow> terminal_reachable \<lparr>ts_mgr = st, ts_lock = Free\<rparr>"
| stepped: "terminal_reachable s \<Longrightarrow> terminal_step s s' \<Longrightarrow> terminal_reachable s'"

section \<open>Rebuilding\<close>

lemma replace_leaf_by_leaf:
  "replace_layout_leaf l a (Pane b) = (l', c) \<Longrightarrow> height l' = height l \<and> (ratios_ok l \<longrightarrow> ratios_ok l')"
  by (induction l arbitrary: l' c) (auto split: prod.splits bool.splits if_splits)

lemma subst_first_one:
  "a \<in> set xs \<Longrightarrow> distinct xs \<Longrightarrow> b \<notin> set xs \<Longrightarrow>
     distinct (subst_first a [b] xs) \<and> set (subst_first a [b] xs) = insert b (set xs - {a})"
  by (induction xs) auto

lemma replace_leaves_bounds:
  "height (replace_leaves l ps) = height l \<and> (ratios_ok l \<longrightarrow> ratios_ok (replace_leaves l ps))"
proof (induction l ps rule: replace_leaves.induct)
  case (2 l before after ps)
  then show ?case
    using replace_leaf_by_leaf [of l "pane_id before" "pane_id after"] by (metis prod.collapse replace_leaves.simps(2))
qed simp

lemma replace_leaves_set:
  "distinct (leaves l) \<Longrightarrow> distinct (map (pane_id \<circ> fst) ps) \<Longrightarrow> distinct (map (pane_id \<circ> snd) ps) \<Longrightarrow>
     set (map (pane_id \<circ> fst) ps) \<subseteq> set (leaves l) \<Longrightarrow>
     set (map (pane_id \<circ> snd) ps) \<inter> set (leaves l) = {} \<Longrightarrow>
     distinct (leaves (replace_leaves l ps)) \<and>
     set (leaves (replace_leaves l ps)) =
       (set (leaves l) - set (map (pane_id \<circ> fst) ps)) \<union> set (map (pane_id \<circ> snd) ps)"
proof (induction l ps rule: replace_leaves.induct)
  case (2 l before after ps)
  let ?l = "fst (replace_layout_leaf l (pane_id before) (Pane (pane_id after)))"
  have lv: "leaves ?l = subst_first (pane_id before) [pane_id after] (leaves l)"
    using replace_layout_leaf_leaves [of l "pane_id before" "Pane (pane_id after)"] by (metis leaves.simps(1) prod.collapse)
  obtain F G where F: "map (pane_id \<circ> fst) ps = F" and G: "map (pane_id \<circ> snd) ps = G" by simp
  have p: "pane_id before \<notin> set F" "distinct F" "pane_id after \<notin> set G" "distinct G"
    "pane_id before \<in> set (leaves l)" "set F \<subseteq> set (leaves l)"
    "pane_id after \<notin> set (leaves l)" "set G \<inter> set (leaves l) = {}"
    using "2.prems" unfolding F [symmetric] G [symmetric] by (auto simp: comp_def)
  note s = subst_first_one [OF p(5) "2.prems"(1) p(7)]
  then have d: "distinct (leaves ?l)" "set (leaves ?l) = insert (pane_id after) (set (leaves l) - {pane_id before})"
    by (simp_all add: lv)
  have "set F \<subseteq> set (leaves ?l)" "set G \<inter> set (leaves ?l) = {}" unfolding d(2) using p by auto
  from "2.IH" [unfolded F G, OF d(1) p(2,4) this] have "distinct (leaves (replace_leaves ?l ps))"
    "set (leaves (replace_leaves ?l ps)) = (set (leaves ?l) - set F) \<union> set G" by blast+
  moreover have "(set (leaves ?l) - set F) \<union> set G =
      (set (leaves l) - insert (pane_id before) (set F)) \<union> insert (pane_id after) (set G)"
    unfolding d(2) using p by auto
  moreover have "map (pane_id \<circ> fst) ((before, after) # ps) = pane_id before # F"
    "map (pane_id \<circ> snd) ((before, after) # ps) = pane_id after # G" using F G by simp_all
  ultimately show ?case by (simp only: replace_leaves.simps list.set)
qed simp

lemma tab_ok_rebuilt:
  assumes ok: "tab_ok old" and dist: "distinct (map pane_id (tab_panes old))"
    and same: "map pane_id (tab_panes old) = map pane_id olds" and len: "length news = length olds"
    and new: "distinct (map pane_id news)" "set (map pane_id news) \<inter> set (map pane_id olds) = {}"
  shows "tab_ok (touch_tab now (old\<lparr>tab_layout := replace_leaves (tab_layout old) (zip olds news),
                                  tab_panes := news\<rparr>))"
proof -
  let ?l = "replace_leaves (tab_layout old) (zip olds news)"
  have m: "map (pane_id \<circ> fst) (zip olds news) = map pane_id olds"
    "map (pane_id \<circ> snd) (zip olds news) = map pane_id news"
    using len by (simp_all add: map_map [symmetric])
  from ok have lo: "height (tab_layout old) \<le> MAX_LAYOUT_DEPTH" "ratios_ok (tab_layout old)"
    "distinct (leaves (tab_layout old))" "set (leaves (tab_layout old)) = set (map pane_id olds)"
    by (simp_all only: tab_ok_def layout_ok_def same)
  have "distinct (leaves ?l) \<and> set (leaves ?l) =
      (set (leaves (tab_layout old)) - set (map (pane_id \<circ> fst) (zip olds news))) \<union> set (map (pane_id \<circ> snd) (zip olds news))"
    by (rule replace_leaves_set [OF lo(3)]) (unfold m lo(4), use dist same new in \<open>simp_all add: Int_commute\<close>)
  then have "distinct (leaves ?l)" "set (leaves ?l) = set (map pane_id news)" unfolding m lo(4) by simp_all
  moreover have "news \<noteq> []" using ok same len by (auto simp: tab_ok_def)
  moreover note replace_leaves_bounds [of "tab_layout old" "zip olds news"] lo(1,2)
  ultimately show ?thesis by (simp add: tab_ok_def layout_ok_def)
qed

section \<open>What the holder of the operation lock relies on\<close>

definition panes_of :: "(string, string list) map \<Rightarrow> string set" where
  "panes_of v = (\<Union>ids\<in>ran v. set ids)"

definition split_ready :: "string \<Rightarrow> f32 \<times> pane \<times> u64 \<Rightarrow> (string, string list) map \<Rightarrow> bool" where
  "split_ready tid prepared v \<longleftrightarrow> (case prepared of (ratio, p, rv) \<Rightarrow>
     validate_ratio ratio = Inr ratio \<and> pane_id p \<notin> panes_of v \<and>
     (\<forall>ids. v tid = Some ids \<longrightarrow> length ids < MAX_PANES_PER_TAB))"

definition split_pending :: "string \<Rightarrow> string \<Rightarrow> tab \<Rightarrow> (string, string list) map \<Rightarrow> bool" where
  "split_pending tid pid old v \<longleftrightarrow> tab_id old = tid \<and> tab_ok old \<and>
     distinct (map pane_id (tab_panes old)) \<and> v tid = Some (map pane_id (tab_panes old) @ [pid])"

definition create_ready :: "string \<Rightarrow> string option \<times> string \<times> pane \<Rightarrow> (string, string list) map \<Rightarrow> bool" where
  "create_ready tid prepared v \<longleftrightarrow> tid \<notin> dom v \<and> pane_id (snd (snd prepared)) \<notin> panes_of v"

definition rebuild_ready :: "tab \<Rightarrow> pane list \<Rightarrow> (string, string list) map \<Rightarrow> bool" where
  "rebuild_ready current panes v \<longleftrightarrow> v (tab_id current) = Some (map pane_id (tab_panes current)) \<and>
     length panes = length (tab_panes current) \<and> distinct (map pane_id panes) \<and>
     set (map pane_id panes) \<inter> panes_of v = {}"

definition lock_ok :: "op_lock \<Rightarrow> (string, string list) map \<Rightarrow> bool" where
  "lock_ok l v \<longleftrightarrow>
     (case l of Free \<Rightarrow> True | CreateWaiting t \<Rightarrow> True
      | Splitting tid req prepared \<Rightarrow> split_ready tid prepared v
      | SplitWaiting tid pid created old \<Rightarrow> split_pending tid pid old v
      | Creating tid dock prepared \<Rightarrow> create_ready tid prepared v
      | Rebuilding current panes \<Rightarrow> rebuild_ready current panes v)"

lemma lock_ok_simps [simp]:
  "lock_ok Free v" "lock_ok (CreateWaiting t) v"
  "lock_ok (Splitting tid req prepared) v = split_ready tid prepared v"
  "lock_ok (SplitWaiting tid pid created old) v = split_pending tid pid old v"
  "lock_ok (Creating tid dock cprepared) v = create_ready tid cprepared v"
  "lock_ok (Rebuilding current panes) v = rebuild_ready current panes v"
  by (simp_all add: lock_ok_def)

definition sys_inv :: "terminal_system \<Rightarrow> bool" where
  "sys_inv s \<longleftrightarrow> mgr_inv (ts_mgr s) \<and> lock_ok (ts_lock s) (view (m_tabs (ts_mgr s)))"

lemma panes_of_view: "tabs_ok ts \<Longrightarrow> panes_of (view ts) = set (pane_ids ts)"
  using view_panes [of ts] by (simp add: panes_of_def tabs_ok_def)

lemma sys_inv_keeps:
  "sys_inv s \<Longrightarrow> keeps_view run \<Longrightarrow> sys_inv (s\<lparr>ts_mgr := snd (run (ts_mgr s))\<rparr>)"
  by (simp add: sys_inv_def keeps_view_def)

lemma sys_inv_free:
  "sys_inv s \<Longrightarrow> ts_lock s = Free \<Longrightarrow> transactional run mgr_inv \<Longrightarrow> sys_inv (s\<lparr>ts_mgr := snd (run (ts_mgr s))\<rparr>)"
  using transactional.preserves [of run mgr_inv "ts_mgr s"] by (simp add: sys_inv_def)

section \<open>The critical sections of the operations that change the panes\<close>

lemma split_prepare_Inr:
  assumes "split_prepare h pid now tid req st = Inr (ratio, p, rv)"
  shows "validate_ratio ratio = Inr ratio \<and> pane_id p = pid \<and>
     (\<exists>t\<in>set (m_tabs st). tab_id t = tid \<and> length (tab_panes t) < MAX_PANES_PER_TAB)"
proof -
  from assms obtain t where t: "find (\<lambda>t. tab_id t = tid) (m_tabs st) = Some t"
    "length (tab_panes t) < MAX_PANES_PER_TAB"
    by (auto simp: split_prepare_def rbind_Inr_iff ok_or_Inr_iff not_le split: if_splits)
  from assms have r: "pane_id p = pid" "\<exists>r. validate_ratio r = Inr ratio"
    by (auto simp: split_prepare_def rbind_Inr_iff Let_def new_shell_pane_def split: if_splits)
  from r(2) have "validate_ratio ratio = Inr ratio"
    using validate_ratio_cases by (metis Inl_Inr_False sum.inject(2))
  with t r(1) find_SomeD [OF t(1)] show ?thesis by auto
qed

lemma split_commit_Inr:
  assumes "split_commit save now tid req (ratio, p, rv) st = (Inr (created, old), st')"
  obtains i l where "tab_index st tid = Inr i" "old = m_tabs st ! i" "tab_revision old = rv"
    "replace_layout_leaf (tab_layout old) (sp_target_pane_id req)
       (Split (sp_axis req) ratio (Pane (sp_target_pane_id req)) (Pane (pane_id p))) = (l, True)"
    "created = touch_tab now (old\<lparr>tab_layout := l, tab_panes := tab_panes old @ [p]\<rparr>)"
    "save ((m_tabs st)[i := created]) = None"
    "st' = publish_tabs ((m_tabs st)[i := created]) (set_tab i created st)"
  using assms
  by (auto simp: split_commit_def Let_def try_in_Inr persist_or_iffs split: if_splits prod.splits bool.splits)

lemma split_commit_Inl:
  "split_commit save now tid req prepared st = (Inl e, st') \<Longrightarrow> st' = st"
  by (cases prepared)
    (auto simp: split_commit_def Let_def try_in_Inl persist_or_iffs split: if_splits prod.splits bool.splits)

lemma split_commit_inv:
  assumes inv: "mgr_inv st" and ready: "split_ready tid (ratio, p, rv) (view (m_tabs st))"
    and c: "split_commit save now tid req (ratio, p, rv) st = (Inr (created, old), st')"
  shows "mgr_inv st' \<and> split_pending tid (pane_id p) old (view (m_tabs st'))"
proof -
  from c obtain i l where i: "tab_index st tid = Inr i" and old: "old = m_tabs st ! i"
    and l: "replace_layout_leaf (tab_layout old) (sp_target_pane_id req)
       (Split (sp_axis req) ratio (Pane (sp_target_pane_id req)) (Pane (pane_id p))) = (l, True)"
    and created: "created = touch_tab now (old\<lparr>tab_layout := l, tab_panes := tab_panes old @ [p]\<rparr>)"
    and st': "st' = publish_tabs ((m_tabs st)[i := created]) (set_tab i created st)"
    by (rule split_commit_Inr)
  note ok = mgr_inv_tabs [OF inv] note at = tab_index_Inr [OF i]
  have len: "i < length (m_tabs st)" using at by simp
  note o = tab_at_ok [OF ok len, folded old]
  have d: "distinct (map tab_id (m_tabs st))" using ok by (simp add: tabs_ok_def)
  have few: "length (tab_panes old) < MAX_PANES_PER_TAB"
    using ready view_nth [OF d len] at by (auto simp: split_ready_def old)
  have new: "pane_id p \<notin> set (pane_ids (m_tabs st))"
    using ready by (simp add: split_ready_def panes_of_view [OF ok])
  then have new': "pane_id p \<notin> set (map pane_id (tab_panes old))"
    using len by (auto simp: pane_ids_def old)
  have cok: "tab_ok created"
    unfolding created by (rule tab_ok_split [OF o few _ new' l]) (use ready in \<open>simp add: split_ready_def\<close>)
  have ts: "tabs_ok ((m_tabs st)[i := created])"
    by (rule tabs_ok_replace [OF ok len _ cok]) (use o new new' old in \<open>auto simp: created\<close>)
  then have inv': "mgr_inv st'" using mgr_inv_publish [of "set_tab i created st"] by (simp add: st')
  have tid: "tab_id created = tid" using at by (simp add: created old)
  have "distinct (map tab_id ((m_tabs st)[i := created]))" using ts by (simp add: tabs_ok_def)
  from view_nth [OF this, of i] len tid
  have "view ((m_tabs st)[i := created]) tid = Some (map pane_id (tab_panes old) @ [pane_id p])"
    by (simp add: created)
  with inv' o at show ?thesis by (simp add: split_pending_def st' old)
qed

lemma rollback_split_cases:
  assumes "rollback_split save now tid pid created previous st = (r, st')"
  obtains (failed) e where "r = Inl e" "st' = st"
  | (same) i where "tab_index st tid = Inr i" "r = Inr ()"
      "tab_revision (m_tabs st ! i) = tab_revision created"
      "st' = publish_tabs ((m_tabs st)[i := restored_tab (m_tabs st ! i) created previous])
        (set_tab i (restored_tab (m_tabs st ! i) created previous) st)"
  | (changed) i l t where "tab_index st tid = Inr i" "r = Inr ()"
      "remove_layout_leaf (tab_layout (m_tabs st ! i)) pid = Some l"
      "t = touch_tab now ((m_tabs st ! i)\<lparr>tab_layout := l,
        tab_panes := filter (\<lambda>p. pane_id p \<noteq> pid) (tab_panes (m_tabs st ! i))\<rparr>)"
      "st' = publish_tabs ((m_tabs st)[i := t]) (set_tab i t st)"
proof (cases "tab_index st tid")
  case (Inl e)
  with assms show thesis by (intro failed [of e]) (simp_all add: rollback_split_def)
next
  case i: (Inr i)
  show thesis
  proof (cases "tab_revision (m_tabs st ! i) = tab_revision created")
    case True
    with assms i show thesis
      by (auto simp: rollback_split_def Let_def intro: failed same dest!: persist_or_cases)
  next
    case False
    show thesis
    proof (cases "remove_layout_leaf (tab_layout (m_tabs st ! i)) pid")
      case None
      with assms i False show thesis by (intro failed) (auto simp: rollback_split_def Let_def)
    next
      case (Some l)
      with assms i False show thesis
        by (auto simp: rollback_split_def Let_def intro: failed changed dest!: persist_or_cases)
    qed
  qed
qed

lemma restored_tab_simps [simp]:
  "tab_id (restored_tab failed created previous) = tab_id previous"
  "tab_layout (restored_tab failed created previous) = tab_layout previous"
  "map pane_id (tab_panes (restored_tab failed created previous)) = map pane_id (tab_panes previous)"
  by (auto simp: restored_tab_def Let_def keep_runtime_metadata_def split: option.splits)

lemma rollback_split_inv:
  assumes inv: "mgr_inv st" and pending: "split_pending tid pid previous (view (m_tabs st))"
    and r: "rollback_split save now tid pid created previous st = (r, st')"
  shows "mgr_inv st'"
  using r
proof (cases rule: rollback_split_cases)
  case (same i)
  note ok = mgr_inv_tabs [OF inv] note at = tab_index_Inr [OF same(1)]
  let ?t = "restored_tab (m_tabs st ! i) created previous"
  have d: "distinct (map tab_id (m_tabs st))" using ok by (simp add: tabs_ok_def)
  have v: "map pane_id (tab_panes (m_tabs st ! i)) = map pane_id (tab_panes previous) @ [pid]"
    using pending view_nth [OF d conjunct1 [OF at]] at by (simp add: split_pending_def)
  have "shape ?t = shape previous" by (simp add: shape_def)
  from tab_ok_shape [OF this] pending have tok: "tab_ok ?t" by (simp add: split_pending_def)
  have "tabs_ok ((m_tabs st)[i := ?t])"
  proof (rule tabs_ok_replace [OF ok conjunct1 [OF at] _ tok])
    show "tab_id ?t = tab_id (m_tabs st ! i)" using pending at by (simp add: split_pending_def)
    show "distinct (map pane_id (tab_panes ?t))" using pending by (simp add: split_pending_def)
  qed (simp only: restored_tab_simps v, auto)
  then show ?thesis using mgr_inv_publish [of "set_tab i ?t st"] by (simp add: same(4))
next
  case (changed i l t)
  show ?thesis
    unfolding changed(5) by (rule inv_remove_pane [OF inv conjunct1 [OF tab_index_Inr [OF changed(1)]] changed(3,4)])
qed (use inv in simp)

lemma split_finish_inv:
  assumes "mgr_inv st" "split_pending tid pid old (view (m_tabs st))"
    "split_finish save answer matches now tid pid (created, old) st = (r, st')"
  shows "mgr_inv st'"
proof -
  obtain r1 st1 where r1: "rollback_split save now tid pid created old st = (r1, st1)" by force
  note rollback_split_inv [OF assms(1,2) r1]
  with assms(1,3) r1 show ?thesis
    by (auto simp: split_finish_def split: option.splits if_splits sum.splits)
qed

lemma create_finish_inv:
  assumes "mgr_inv st" "create_shell_finish save answer matches t st = (r, st')"
  shows "mgr_inv st'"
proof -
  obtain r1 st1 where r1: "rollback_created_tab save (tab_id t) st = (r1, st1)" by force
  note rollback_created_tab.preserves_eq [OF assms(1) r1]
  with assms r1 show ?thesis
    by (auto simp: create_shell_finish_def split: option.splits if_splits sum.splits)
qed

lemma rebuild_commit_inv:
  assumes inv: "mgr_inv st" and ready: "rebuild_ready current panes (view (m_tabs st))"
    and r: "rebuild_commit save now current panes st = (r, st')"
  shows "mgr_inv st'"
proof (cases "tab_index st (tab_id current)")
  case (Inl e)
  with r inv show ?thesis by (simp add: rebuild_commit_def)
next
  case (Inr i)
  note ok = mgr_inv_tabs [OF inv] note at = tab_index_Inr [OF Inr]
  note o = tab_at_ok [OF ok conjunct1 [OF at]]
  let ?old = "m_tabs st ! i"
  let ?t = "touch_tab now (?old\<lparr>tab_layout := replace_leaves (tab_layout ?old) (zip (tab_panes current) panes),
    tab_panes := panes\<rparr>)"
  have d: "distinct (map tab_id (m_tabs st))" using ok by (simp add: tabs_ok_def)
  have v: "map pane_id (tab_panes ?old) = map pane_id (tab_panes current)"
    using ready view_nth [OF d conjunct1 [OF at]] at by (simp add: rebuild_ready_def)
  have new: "set (map pane_id panes) \<inter> set (pane_ids (m_tabs st)) = {}" "distinct (map pane_id panes)"
    "length panes = length (tab_panes current)"
    using ready by (simp_all add: rebuild_ready_def panes_of_view [OF ok])
  have sub: "set (map pane_id (tab_panes ?old)) \<subseteq> set (pane_ids (m_tabs st))"
  proof
    fix x assume "x \<in> set (map pane_id (tab_panes ?old))"
    moreover have "?old \<in> set (m_tabs st)" using at by simp
    ultimately have "x \<in> (\<Union>t\<in>set (m_tabs st). set (map pane_id (tab_panes t)))" by (rule UN_I [rotated])
    then show "x \<in> set (pane_ids (m_tabs st))" by (simp add: pane_ids_def)
  qed
  have disj: "set (map pane_id panes) \<inter> set (map pane_id (tab_panes current)) = {}"
    using new(1) sub unfolding v by blast
  have tok: "tab_ok ?t" by (rule tab_ok_rebuilt [OF o v new(3,2) disj])
  have "tabs_ok ((m_tabs st)[i := ?t])"
    by (rule tabs_ok_replace [OF ok conjunct1 [OF at] _ tok]) (use new in auto)
  then have "mgr_inv (publish_tabs ((m_tabs st)[i := ?t]) (set_tab i ?t st))"
    using mgr_inv_publish [of "set_tab i ?t st"] by simp
  with r Inr inv show ?thesis
    by (auto simp: rebuild_commit_def Let_def dest!: persist_or_cases)
qed

section \<open>The invariant of the system\<close>

lemma split_start_ready:
  assumes ok: "tabs_ok (m_tabs st)" and fresh: "pid \<notin> set (pane_ids (m_tabs st))"
    and p: "split_prepare h pid now tid req st = Inr prepared"
  shows "split_ready tid prepared (view (m_tabs st))"
proof -
  obtain ratio q rv where pr: "prepared = (ratio, q, rv)" by (rule prod_cases3)
  note s = split_prepare_Inr [OF p [unfolded pr]]
  from s obtain t where t: "t \<in> set (m_tabs st)" "tab_id t = tid" "length (tab_panes t) < MAX_PANES_PER_TAB" by auto
  have d: "distinct (map tab_id (m_tabs st))" using ok by (simp add: tabs_ok_def)
  then have "view (m_tabs st) tid = Some (map pane_id (tab_panes t))"
    using t view_Some_iff [OF d] by blast
  with s t fresh show ?thesis by (simp add: split_ready_def pr panes_of_view [OF ok])
qed

lemma prepare_shell_Inr:
  "prepare_shell h pid now req = Inr (n, w, p) \<Longrightarrow> pane_id p = pid"
  by (auto simp: prepare_shell_def rbind_Inr_iff Let_def new_shell_pane_def split: if_splits)

lemma rebuild_prepare_Inr:
  assumes "rebuild_prepare h get previous st = Inr current"
  shows "current \<in> set (m_tabs st)"
proof -
  from assms have "get_snapshot (tab_id previous) st = Inr current"
    by (auto simp: rebuild_prepare_def rbind_Inr_iff split: if_splits)
  then show ?thesis by (auto simp: get_snapshot_def ok_or_Inr_iff dest: find_SomeD)
qed

lemma map_rebuilt_pane_id:
  "length pids = length ps \<Longrightarrow> map pane_id (map2 (rebuilt_pane arguments now) pids ps) = pids"
  by (induction pids ps rule: list_induct2) (simp_all add: rebuilt_pane_def Let_def split: option.splits)

lemma rebuild_start_ready:
  assumes ok: "tabs_ok (m_tabs st)" and c: "current \<in> set (m_tabs st)"
    and pids: "length pids = length (tab_panes current)" "distinct pids" "set pids \<inter> set (pane_ids (m_tabs st)) = {}"
  shows "rebuild_ready current (map2 (rebuilt_pane arguments now) pids (tab_panes current)) (view (m_tabs st))"
proof -
  have "distinct (map tab_id (m_tabs st))" using ok by (simp add: tabs_ok_def)
  with c have "view (m_tabs st) (tab_id current) = Some (map pane_id (tab_panes current))"
    using view_Some_iff by blast
  then show ?thesis
    using pids unfolding rebuild_ready_def map_rebuilt_pane_id [OF pids(1)] panes_of_view [OF ok] by simp
qed

lemma create_ready_fresh:
  assumes "mgr_inv st" "create_ready tid (n, w, p) (view (m_tabs st))"
  shows "tid \<notin> set (map tab_id (m_tabs st))" "pane_id p \<notin> set (pane_ids (m_tabs st))"
  using assms(2) unfolding create_ready_def view_dom panes_of_view [OF mgr_inv_tabs [OF assms(1)]] by simp_all

lemma task_steps_inv:
  assumes "sys_inv s"
  shows "sys_inv (s\<lparr>ts_mgr := snd (update_tab save now tid name (ts_mgr s))\<rparr>)"
    "sys_inv (s\<lparr>ts_mgr := snd (reorder_tabs save w tids (ts_mgr s))\<rparr>)"
    "sys_inv (s\<lparr>ts_mgr := snd (update_layout save now tid l revision (ts_mgr s))\<rparr>)"
    "sys_inv (s\<lparr>ts_mgr := snd (set_hosting save now pid expected h (ts_mgr s))\<rparr>)"
    "sys_inv (s\<lparr>ts_mgr := snd (set_agent_state save now pid a (ts_mgr s))\<rparr>)"
    "sys_inv (s\<lparr>ts_mgr := snd (apply_attach_status save now pid st code (ts_mgr s))\<rparr>)"
    "sys_inv (s\<lparr>ts_mgr := snd (apply_runtime_statuses save now rts (ts_mgr s))\<rparr>)"
    "sys_inv (s\<lparr>ts_mgr := set_workspace_removing w b (ts_mgr s)\<rparr>)"
    "sys_inv (s\<lparr>ts_mgr := snd (mark_missing_nonrestart_panes save now desired actual (ts_mgr s))\<rparr>)"
    "sys_inv (s\<lparr>ts_mgr := snd (existing_project_dock save now pid wroot legacy (ts_mgr s))\<rparr>)"
  by (rule sys_inv_keeps [OF assms keeps_update_tab] sys_inv_keeps [OF assms keeps_reorder]
      sys_inv_keeps [OF assms keeps_update_layout] sys_inv_keeps [OF assms keeps_set_hosting]
      sys_inv_keeps [OF assms keeps_set_agent_state] sys_inv_keeps [OF assms keeps_attach_status]
      sys_inv_keeps [OF assms keeps_runtime_statuses] sys_inv_keeps [OF assms keeps_removing, simplified]
      sys_inv_keeps [OF assms keeps_missing_panes] sys_inv_keeps [OF assms keeps_project_dock])+

lemma operation_steps_inv:
  assumes "sys_inv s" "ts_lock s = Free"
  shows "sys_inv (s\<lparr>ts_mgr := snd (delete_tab_state save tid (ts_mgr s))\<rparr>)"
    "sys_inv (s\<lparr>ts_mgr := snd (delete_pane_state save now tid pid (ts_mgr s))\<rparr>)"
    "sys_inv (s\<lparr>ts_mgr := snd (delete_workspace_commit save ids c (ts_mgr s))\<rparr>)"
  by (rule sys_inv_free [OF assms delete_tab_state.transactional_axioms]
      sys_inv_free [OF assms delete_pane_state.transactional_axioms]
      sys_inv_free [OF assms delete_workspace_commit.transactional_axioms])+

lemma terminal_step_inv:
  assumes "terminal_step s s'" "sys_inv s"
  shows "sys_inv s'"
  using assms
proof (cases rule: terminal_step.cases)
  case (split_start pid h now tid req prepared)
  with assms(2) split_start_ready [OF mgr_inv_tabs split_start(3,4)] show ?thesis by (simp add: sys_inv_def)
next
  case (split_done tid req prepared save now created old st')
  obtain ratio p rv where pr: "prepared = (ratio, p, rv)" by (rule prod_cases3)
  from assms(2) split_done(2) have "mgr_inv (ts_mgr s)" "split_ready tid (ratio, p, rv) (view (m_tabs (ts_mgr s)))"
    by (simp_all add: sys_inv_def pr)
  from split_commit_inv [OF this split_done(3) [unfolded pr]] show ?thesis
    by (simp add: sys_inv_def split_done(1) pr)
next
  case (split_failed tid req prepared save now e st')
  with assms(2) split_commit_Inl [OF split_failed(3)] show ?thesis by (simp add: sys_inv_def)
next
  case (split_answered tid pid created old save answer matches now r st')
  with assms(2) split_finish_inv [OF _ _ split_answered(3)] show ?thesis by (simp add: sys_inv_def)
next
  case (create_start pid tid h now req prepared dock)
  obtain n w p where pr: "prepared = (n, w, p)" by (rule prod_cases3)
  with create_start assms(2) prepare_shell_Inr [OF create_start(5) [unfolded pr]] show ?thesis
    by (simp add: sys_inv_def create_ready_def view_dom panes_of_view mgr_inv_tabs)
next
  case (create_done tid dock prepared save now t st')
  obtain n w p where pr: "prepared = (n, w, p)" by (rule prod_cases3)
  from assms(2) create_done(2) have inv: "mgr_inv (ts_mgr s)"
    "create_ready tid (n, w, p) (view (m_tabs (ts_mgr s)))"
    by (simp_all add: sys_inv_def pr)
  from create_commit_inv(1) [OF inv(1) create_done(3) [unfolded pr] create_ready_fresh [OF inv]] show ?thesis
    by (simp add: sys_inv_def create_done(1))
next
  case (create_failed tid dock prepared save now e st')
  obtain n w p where pr: "prepared = (n, w, p)" by (rule prod_cases3)
  from assms(2) create_failed(2) have inv: "mgr_inv (ts_mgr s)"
    "create_ready tid (n, w, p) (view (m_tabs (ts_mgr s)))"
    by (simp_all add: sys_inv_def pr)
  from create_commit_inv(1) [OF inv(1) create_failed(3) [unfolded pr] create_ready_fresh [OF inv]] show ?thesis
    by (simp add: sys_inv_def create_failed(1))
next
  case (create_answered t save answer matches r st')
  with assms(2) create_finish_inv [OF _ create_answered(3)] show ?thesis by (simp add: sys_inv_def)
next
  case (rebuild_start h get previous current pids arguments now)
  with assms(2) rebuild_start_ready [OF mgr_inv_tabs rebuild_prepare_Inr [OF rebuild_start(3)]] show ?thesis
    by (simp add: sys_inv_def)
next
  case (rebuild_done current panes save now r st')
  with assms(2) rebuild_commit_inv [OF _ _ rebuild_done(3)] show ?thesis by (simp add: sys_inv_def)
qed (simp_all only: task_steps_inv [OF assms(2)] operation_steps_inv [OF assms(2)],
    use assms(2) in \<open>simp add: sys_inv_def\<close>)

section \<open>Loading what was saved\<close>

lemma load_tab_shape [simp]: "shape (load_tab d t) = shape t"
proof -
  have "pane_id (load_pane p) = pane_id p" for p
    by (simp add: load_pane_def Let_def split: option.splits)
  then show ?thesis by (simp add: load_tab_def migrate_terminal_names_def shape_def Let_def comp_def)
qed

lemma load_tab_names:
  "set (tab_panes (load_tab d t)) = load_pane ` set (tab_panes t)"
  by (simp add: load_tab_def migrate_terminal_names_def Let_def)

lemma load_pane_name [simp]: "pane_name (load_pane p) = default_pane_name (pane_cwd p) (pane_shell p)"
  by (simp add: load_pane_def Let_def split: option.splits)

definition names_ok :: "tab list \<Rightarrow> bool" where
  "names_ok ts \<longleftrightarrow> (\<forall>t\<in>set ts. \<forall>p\<in>set (tab_panes t).
     is_ok (validate_name (default_pane_name (pane_cwd p) (pane_shell p))))"

lemma load_manager_Inr:
  "load_manager d (Some (METADATA_VERSION, ts)) = Inr st \<longleftrightarrow>
     tabs_ok ts \<and> names_ok ts \<and> st = manager_default\<lparr>m_tabs := map (load_tab d) ts\<rparr>"
proof -
  have "tabs_ok (map (load_tab d) ts) = tabs_ok ts" by (rule tabs_ok_shape) simp
  moreover have "(\<forall>t\<in>set (map (load_tab d) ts). \<forall>p\<in>set (tab_panes t). \<exists>n. validate_name (pane_name p) = Inr n) =
      names_ok ts" by (simp add: names_ok_def load_tab_names is_ok_iff)
  ultimately show ?thesis
    using validate_persisted_tabs_iff [of "map (load_tab d) ts"]
    by (auto simp: load_manager_def Let_def rbind_Inr_iff)
qed

lemma load_manager_inv: "load_manager d stored = Inr st \<Longrightarrow> mgr_inv st"
proof (cases stored)
  case None
  then show "load_manager d stored = Inr st \<Longrightarrow> mgr_inv st"
    by (auto simp: load_manager_def rbind_Inr_iff validate_persisted_tabs_iff mgr_inv_def manager_default_def)
next
  case (Some f)
  assume l: "load_manager d stored = Inr st"
  obtain v ts where f: "f = (v, ts)" by force
  with l Some have v: "v = METADATA_VERSION" by (auto simp: load_manager_def split: if_splits)
  from l [unfolded Some f v load_manager_Inr] have ts: "tabs_ok ts"
    and st: "st = manager_default\<lparr>m_tabs := map (load_tab d) ts\<rparr>" by simp_all
  have "tabs_ok (map (load_tab d) ts) = tabs_ok ts" by (rule tabs_ok_shape) simp
  with ts show "mgr_inv st" unfolding st by (simp add: mgr_inv_def manager_default_def)
qed

lemma terminal_reachable_inv: "terminal_reachable s \<Longrightarrow> sys_inv s"
  by (induction rule: terminal_reachable.induct)
    (auto simp: sys_inv_def dest: load_manager_inv terminal_step_inv [unfolded sys_inv_def])

end
