(* ===== verification/Term_Properties.thy ===== *)
theory Term_Properties
  imports Term_System
begin

text \<open>
  What the terminal manager guarantees: the state of every reachable configuration, the effect of
  failures, of reordering and of a restart.
\<close>

section \<open>Concrete inputs\<close>

definition sample_host :: host where
  "sample_host = \<lparr>host_current_dir = ''/work'', host_is_dir = (\<lambda>_. Inr True), host_env_shell = None,
     host_bash_is_file = True\<rparr>"

definition sample_tab :: "string \<Rightarrow> string \<Rightarrow> string \<Rightarrow> tab" where
  "sample_tab tid p1 p2 =
     \<lparr>tab_id = tid, tab_name = ''Terminal 1'', tab_name_is_custom = Some False,
      tab_dock_project_id = None, tab_workspace_root = ''/work'',
      tab_layout = Split Row (F32 (1 / 2)) (Pane p1) (Pane p2),
      tab_panes = [new_shell_pane p1 ''t0'' ''/work'' ''/bin/bash'' 24 80,
                   new_shell_pane p2 ''t0'' ''/work'' ''/bin/bash'' 24 80],
      tab_revision = 1, tab_created_at = ''t0'', tab_updated_at = ''t0''\<rparr>"

definition sample_tabs :: "tab list" where
  "sample_tabs = [sample_tab ''T1'' ''p1'' ''p2'', sample_tab ''T2'' ''p3'' ''p4'']"


definition sample_create :: "string option \<Rightarrow> create_request" where
  "sample_create cwd = \<lparr>cr_name = None, cr_cwd = cwd, cr_workspace_root = None, cr_shell = None,
     cr_agent_id = None, cr_resume_session_id = None, cr_rows = None, cr_cols = None\<rparr>"


lemma sample_loads:
  "load_manager (\<lambda>_. None) (Some (METADATA_VERSION, sample_tabs)) =
     Inr (manager_default\<lparr>m_tabs := map (load_tab (\<lambda>_. None)) sample_tabs\<rparr>)"
  by code_simp

lemma sample_ok: "tabs_ok sample_tabs" "names_ok sample_tabs"
  using sample_loads load_manager_Inr by blast+

section \<open>A failed daemon request\<close>












section \<open>Properties\<close>

text \<open>C3: In every state the terminal manager can reach from a metadata file that loads, by the
  operations in any order and with any failing saves, the tab identifiers are distinct, the pane
  identifiers are distinct over all tabs, every tab has panes and a layout \<open>validate_layout\<close>
  accepts for them, and subscribers have seen nothing or exactly the current tabs.\<close>

theorem reachable_tabs_well_formed:
  assumes "terminal_reachable s"
  shows "distinct (map tab_id (m_tabs (ts_mgr s))) \<and>
    distinct (concat (map (\<lambda>t. map pane_id (tab_panes t)) (m_tabs (ts_mgr s)))) \<and>
    list_all (\<lambda>t. tab_panes t \<noteq> [] \<and> validate_layout (tab_layout t) (tab_panes t) = Inr ()) (m_tabs (ts_mgr s)) \<and>
    m_published (ts_mgr s) \<in> {None, Some (m_tabs (ts_mgr s))}"
  using terminal_reachable_inv [OF assms]
  by (auto simp: sys_inv_def mgr_inv_def tabs_ok_def tab_ok_def validate_layout_iff pane_ids_def list_all_iff)

theorem reachable_tabs_well_formed_witness:
  "\<exists>s. terminal_reachable s \<and> length (m_tabs (ts_mgr s)) = 2 \<and>
     distinct (concat (map (\<lambda>t. map pane_id (tab_panes t)) (m_tabs (ts_mgr s))))"
proof (intro exI conjI)
  let ?s = "\<lparr>ts_mgr = manager_default\<lparr>m_tabs := map (load_tab (\<lambda>_. None)) sample_tabs\<rparr>, ts_lock = Free\<rparr>"
  show r: "terminal_reachable ?s" by (rule loaded [OF sample_loads])
  show "length (m_tabs (ts_mgr ?s)) = 2" by (simp add: sample_tabs_def)
  from reachable_tabs_well_formed [OF r]
  show "distinct (concat (map (\<lambda>t. map pane_id (tab_panes t)) (m_tabs (ts_mgr ?s))))" by (elim conjE)
qed

text \<open>What a restart keeps of a pane and of a tab: everything but generated names and agents that were starting.\<close>

definition same_pane :: "pane \<Rightarrow> pane \<Rightarrow> bool" where
  "same_pane p q \<longleftrightarrow>
     q = p\<lparr>pane_name := default_pane_name (pane_cwd p) (pane_shell p), pane_agent_terminal := pane_agent_terminal q\<rparr> \<and>
     pane_agent_terminal q =
       (case pane_agent_terminal p of None \<Rightarrow> None
        | Some a \<Rightarrow> Some (if at_phase a = AgentStarting
            then a\<lparr>at_phase := AgentFailed, at_error := Some ''AoW restarted during agent initialization''\<rparr> else a))"

definition same_tab :: "tab \<Rightarrow> tab \<Rightarrow> bool" where
  "same_tab t u \<longleftrightarrow>
     u = t\<lparr>tab_panes := tab_panes u, tab_name_is_custom := tab_name_is_custom u\<rparr> \<and>
     list_all2 same_pane (tab_panes t) (tab_panes u) \<and>
     (case tab_name_is_custom t of None \<Rightarrow> tab_name_is_custom u \<noteq> None | Some c \<Rightarrow> tab_name_is_custom u = Some c)"

lemma load_pane_same: "same_pane p (load_pane p)"
  by (cases p; cases "pane_agent_terminal p") (auto simp: same_pane_def load_pane_def Let_def)

lemma load_tab_same: "same_tab t (load_tab d t)"
proof -
  have "list_all2 same_pane ps (map load_pane ps)" for ps
    by (simp add: list_all2_conv_all_nth load_pane_same)
  then show ?thesis
    by (auto simp: same_tab_def load_tab_def migrate_terminal_names_def Let_def split: option.split)
qed

text \<open>C26: A state the manager reaches can be loaded again after it was saved, provided that the default name of every
  pane is a valid name: the loaded manager has the same tabs in the same order, with every field of theirs and of their
  panes, except that pane names are the default ones, that an agent that was starting has failed, and that a tab of an
  older version is marked as named by hand or not.\<close>

theorem reachable_state_reloads:
  assumes "terminal_reachable s"
    and "\<forall>t\<in>set (m_tabs (ts_mgr s)). \<forall>p\<in>set (tab_panes t).
      is_ok (validate_name (default_pane_name (pane_cwd p) (pane_shell p)))"
  shows "\<exists>tabs. load_manager d (Some (METADATA_VERSION, m_tabs (ts_mgr s))) = Inr (manager_default\<lparr>m_tabs := tabs\<rparr>) \<and>
    list_all2 same_tab (m_tabs (ts_mgr s)) tabs"
proof -
  have "tabs_ok (m_tabs (ts_mgr s))" using terminal_reachable_inv [OF assms(1)] by (simp add: sys_inv_def mgr_inv_def)
  then have "load_manager d (Some (METADATA_VERSION, m_tabs (ts_mgr s))) =
      Inr (manager_default\<lparr>m_tabs := map (load_tab d) (m_tabs (ts_mgr s))\<rparr>)"
    using assms(2) by (simp add: load_manager_Inr names_ok_def)
  moreover have "list_all2 same_tab (m_tabs (ts_mgr s)) (map (load_tab d) (m_tabs (ts_mgr s)))"
    by (simp add: list_all2_conv_all_nth load_tab_same)
  ultimately show ?thesis by blast
qed

theorem reachable_state_reloads_witness:
  "\<exists>s tabs. terminal_reachable s \<and> length (m_tabs (ts_mgr s)) = 2 \<and>
     load_manager (\<lambda>_. None) (Some (METADATA_VERSION, m_tabs (ts_mgr s))) = Inr (manager_default\<lparr>m_tabs := tabs\<rparr>) \<and>
     list_all2 same_tab (m_tabs (ts_mgr s)) tabs"
proof -
  let ?s = "\<lparr>ts_mgr = manager_default\<lparr>m_tabs := map (load_tab (\<lambda>_. None)) sample_tabs\<rparr>, ts_lock = Free\<rparr>"
  have r: "terminal_reachable ?s" by (rule loaded [OF sample_loads])
  have "names_ok (m_tabs (ts_mgr ?s))" by code_simp
  then have "\<forall>t\<in>set (m_tabs (ts_mgr ?s)). \<forall>p\<in>set (tab_panes t).
      is_ok (validate_name (default_pane_name (pane_cwd p) (pane_shell p)))" unfolding names_ok_def .
  moreover have "length (m_tabs (ts_mgr ?s)) = 2" by (simp add: sample_tabs_def)
  ultimately show ?thesis using reachable_state_reloads [OF r, of "\<lambda>_. None"] r by blast
qed

text \<open>Without that condition the saved state may not load: a terminal created in a directory whose
  last component is a blank is accepted and saved, and the next start of the server rejects the whole
  metadata file.\<close>

lemma blank_directory_prevents_restart:
  "case create_shell (\<lambda>_. None) sample_host (\<lambda>st. (Inr (), st)) (\<lambda>st. st) (\<lambda>st. st) (\<lambda>_. None) (\<lambda>_. True)
       ''p1'' ''T1'' ''t0'' (sample_create (Some ''/work/ '')) None manager_default of
     (r, st) \<Rightarrow> is_ok r \<and>
       load_manager (\<lambda>_. None) (Some (METADATA_VERSION, m_tabs st)) =
         Inl (TInvalid ''validation.terminal_name_cannot_be_empty'')"
  by code_simp







text \<open>C25: A reordering that succeeds permutes the tabs of that workspace into the requested order and
  leaves the tabs of every other workspace at their places; no tab is lost or duplicated.\<close>

theorem reordering_permutes_one_workspace:
  assumes "tabs_ok (m_tabs st)" and "reorder_tabs save w tids st = (Inr ts, st')"
  shows "mset (m_tabs st') = mset (m_tabs st) \<and> map tab_id (list_snapshot (Some w) st') = tids \<and>
    ts = list_snapshot (Some w) st' \<and>
    (\<forall>k<length (m_tabs st). tab_workspace_root (m_tabs st ! k) \<noteq> w \<longrightarrow> m_tabs st' ! k = m_tabs st ! k)"
  using reorder_Inr [OF assms] by blast

theorem reordering_permutes_one_workspace_witness:
  "\<exists>ts st'. reorder_tabs (\<lambda>_. None) ''/work'' [''T2'', ''T1''] (manager_default\<lparr>m_tabs := sample_tabs\<rparr>) = (Inr ts, st') \<and>
     mset (m_tabs st') = mset sample_tabs \<and> map tab_id (list_snapshot (Some ''/work'') st') = [''T2'', ''T1'']"
proof -
  let ?st = "manager_default\<lparr>m_tabs := sample_tabs\<rparr>"
  have "is_ok (fst (reorder_tabs (\<lambda>_. None) ''/work'' [''T2'', ''T1''] ?st))" by code_simp
  then obtain ts st' where r: "reorder_tabs (\<lambda>_. None) ''/work'' [''T2'', ''T1''] ?st = (Inr ts, st')"
    unfolding is_ok_iff by (metis prod.collapse)
  from reordering_permutes_one_workspace [OF _ this] sample_ok show ?thesis
    by (intro exI [of _ ts] exI [of _ st']) (simp add: r)
qed

end
