(* ===== verification/Auto_Schedule.thy ===== *)
theory Auto_Schedule
  imports Rust_Str "HOL-Library.Code_Target_Numeral"
begin

text \<open>
  Cron schedules, \<open>crates/automations/src/schedule/\<close>: parsing of the five fields, the days they
  select, the next run, and the rendering for launchd and systemd. Errors are named after their
  message. Dates and the local time zone are those of the library \<open>chrono\<close>, a parameter: days
  are counted by integers, instants are integers on a time line. When launchd starts a job is written out after
  its manual page.
\<close>

section \<open>Fields\<close>

datatype cron_error = InvalidStep | OutsideRange nat nat | EmptyField | ParseInt | TooLong | NotFiveFields
  | TooManyEntries

record field =
  fd_values :: "nat list"
  fd_wildcard :: bool

definition parse_u32 :: "string \<Rightarrow> (cron_error, nat) result" where
  "parse_u32 s = ok_or (parse_unsigned (2 ^ 32) s) ParseInt"

text \<open>\<open>(start..=end).step_by(step)\<close>.\<close>

definition step_range :: "nat \<Rightarrow> nat \<Rightarrow> nat \<Rightarrow> nat list" where
  "step_range start stop step = map (\<lambda>i. start + i * step) [0..<(stop - start) div step + 1]"

definition parse_piece :: "nat \<Rightarrow> nat \<Rightarrow> string \<Rightarrow> (cron_error, nat list) result" where
  "parse_piece mn mx piece =
     rbind (case split_once CHR ''/'' piece of
              Some (rg, step) \<Rightarrow> rbind (parse_u32 step) (\<lambda>n. Inr (rg, n))
            | None \<Rightarrow> Inr (piece, 1)) (\<lambda>(rg, step).
     rbind (ensure (0 < step \<and> step \<le> mx + 1) InvalidStep) (\<lambda>_.
     rbind (if rg = ''*'' then Inr (mn, mx)
            else (case split_once CHR ''-'' rg of
              Some (a, b) \<Rightarrow> rbind (parse_u32 a) (\<lambda>start. rbind (parse_u32 b) (\<lambda>stop. Inr (start, stop)))
            | None \<Rightarrow> rbind (parse_u32 rg) (\<lambda>start.
                Inr (start, if CHR ''/'' \<in> set piece then mx else start)))) (\<lambda>(start, stop).
     rbind (ensure (mn \<le> start \<and> stop \<le> mx \<and> start \<le> stop) (OutsideRange mn mx)) (\<lambda>_.
       Inr (step_range start stop step)))))"

fun parse_pieces :: "nat \<Rightarrow> nat \<Rightarrow> string list \<Rightarrow> (cron_error, nat list) result" where
  "parse_pieces mn mx [] = Inr []"
| "parse_pieces mn mx (p # ps) =
     rbind (parse_piece mn mx p) (\<lambda>vs. rbind (parse_pieces mn mx ps) (\<lambda>ws. Inr (vs @ ws)))"

definition sort_dedup :: "nat list \<Rightarrow> nat list" where
  "sort_dedup vs = remdups_adj (sort vs)"

definition parse_field :: "nat \<Rightarrow> nat \<Rightarrow> string \<Rightarrow> (cron_error, field) result" where
  "parse_field mn mx text =
     rbind (parse_pieces mn mx (split_char CHR '','' text)) (\<lambda>vs.
       let vals = sort_dedup vs
       in rbind (ensure (vals \<noteq> []) EmptyField) (\<lambda>_.
            Inr \<lparr>fd_values = vals, fd_wildcard = prefix ''*'' text\<rparr>))"

definition field_contains :: "field \<Rightarrow> nat \<Rightarrow> bool" where
  "field_contains f v \<longleftrightarrow> v \<in> set (fd_values f)"

section \<open>Schedules\<close>

record schedule =
  sc_minute :: field
  sc_hour :: field
  sc_day :: field
  sc_month :: field
  sc_weekday :: field

definition parse_schedule :: "string \<Rightarrow> (cron_error, schedule) result" where
  "parse_schedule s =
     rbind (ensure (length s \<le> 256) TooLong) (\<lambda>_.
     let fields = split_whitespace s
     in rbind (ensure (length fields = 5) NotFiveFields) (\<lambda>_.
     rbind (parse_field 0 7 (fields ! 4)) (\<lambda>w.
     let weekday = w\<lparr>fd_values := sort_dedup (map (\<lambda>v. if v = 7 then 0 else v) (fd_values w))\<rparr>
     in rbind (parse_field 0 59 (fields ! 0)) (\<lambda>minute.
     rbind (parse_field 0 23 (fields ! 1)) (\<lambda>hour.
     rbind (parse_field 1 31 (fields ! 2)) (\<lambda>day.
     rbind (parse_field 1 12 (fields ! 3)) (\<lambda>month.
       Inr \<lparr>sc_minute = minute, sc_hour = hour, sc_day = day, sc_month = month, sc_weekday = weekday\<rparr>)))))))"

text \<open>The calendar: \<open>instants d h m\<close> are the earliest and the latest instant that the local clock
  shows as day \<open>d\<close>, hour \<open>h\<close>, minute \<open>m\<close>.\<close>

record calendar =
  cal_local_date :: "int \<Rightarrow> int"
  cal_add_days :: "int \<Rightarrow> nat \<Rightarrow> int option"
  cal_month :: "int \<Rightarrow> nat"
  cal_day :: "int \<Rightarrow> nat"
  cal_weekday :: "int \<Rightarrow> nat"
  cal_instants :: "int \<Rightarrow> nat \<Rightarrow> nat \<Rightarrow> int option \<times> int option"

definition day_fires :: "schedule \<Rightarrow> nat \<Rightarrow> nat \<Rightarrow> nat \<Rightarrow> bool" where
  "day_fires s month day weekday \<longleftrightarrow>
     field_contains (sc_month s) month \<and>
     (if \<not> fd_wildcard (sc_day s) \<and> \<not> fd_wildcard (sc_weekday s)
      then field_contains (sc_day s) day \<or> field_contains (sc_weekday s) weekday
      else field_contains (sc_day s) day \<and> field_contains (sc_weekday s) weekday)"

definition date_matches :: "calendar \<Rightarrow> schedule \<Rightarrow> int \<Rightarrow> bool" where
  "date_matches cal s d = day_fires s (cal_month cal d) (cal_day cal d) (cal_weekday cal d)"

text \<open>The innermost loop: keep the earliest instant after \<open>after\<close>.\<close>

definition keep_best :: "int \<Rightarrow> int option \<Rightarrow> int \<Rightarrow> int option" where
  "keep_best after best utc =
     (if after < utc \<and> (case best of None \<Rightarrow> True | Some current \<Rightarrow> utc < current) then Some utc else best)"

definition day_instants :: "calendar \<Rightarrow> schedule \<Rightarrow> int \<Rightarrow> int list" where
  "day_instants cal s d =
     concat (map (\<lambda>hour. concat (map (\<lambda>minute.
       (case cal_instants cal d hour minute of (a, b) \<Rightarrow>
          (case a of Some x \<Rightarrow> [x] | None \<Rightarrow> []) @ (case b of Some x \<Rightarrow> [x] | None \<Rightarrow> [])))
       (fd_values (sc_minute s)))) (fd_values (sc_hour s)))"

fun next_run_loop :: "calendar \<Rightarrow> schedule \<Rightarrow> int \<Rightarrow> int \<Rightarrow> nat list \<Rightarrow> int option" where
  "next_run_loop cal s after start [] = None"
| "next_run_loop cal s after start (offset # offsets) =
     (case cal_add_days cal start offset of
        None \<Rightarrow> None
      | Some d \<Rightarrow>
          if \<not> date_matches cal s d then next_run_loop cal s after start offsets
          else (case foldl (keep_best after) None (day_instants cal s d) of
                  Some utc \<Rightarrow> Some utc
                | None \<Rightarrow> next_run_loop cal s after start offsets))"

definition next_after :: "calendar \<Rightarrow> schedule \<Rightarrow> int \<Rightarrow> int option" where
  "next_after cal s after = next_run_loop cal s after (cal_local_date cal after) [0..<366 * 8]"

section \<open>Rendering\<close>

definition two_digits :: "nat \<Rightarrow> string" where
  "two_digits v = (if v < 10 then CHR ''0'' # decimal v else decimal v)"

fun join_strings :: "string \<Rightarrow> string list \<Rightarrow> string" where
  "join_strings sep [] = []"
| "join_strings sep [x] = x"
| "join_strings sep (x # xs) = x @ sep @ join_strings sep xs"

definition field_calendar :: "nat \<Rightarrow> nat \<Rightarrow> field \<Rightarrow> string" where
  "field_calendar mn mx f =
     (if length (fd_values f) = mx - mn + 1 then ''*''
      else join_strings '','' (map two_digits (fd_values f)))"

definition plist_values :: "nat \<Rightarrow> nat \<Rightarrow> field \<Rightarrow> nat option list" where
  "plist_values mn mx f =
     (if length (fd_values f) = mx - mn + 1 then [None] else map Some (fd_values f))"

definition date_alternatives :: "schedule \<Rightarrow> (field option \<times> field option) list" where
  "date_alternatives s =
     (if \<not> fd_wildcard (sc_day s) \<and> \<not> fd_wildcard (sc_weekday s)
      then [(Some (sc_day s), None), (None, Some (sc_weekday s))]
      else [(Some (sc_day s), Some (sc_weekday s))])"

definition weekday_names :: "string list" where
  "weekday_names = [''Sun'', ''Mon'', ''Tue'', ''Wed'', ''Thu'', ''Fri'', ''Sat'']"

definition systemd_calendars :: "schedule \<Rightarrow> string list" where
  "systemd_calendars s =
     map (\<lambda>(day, weekday).
       (case weekday of
          Some f \<Rightarrow> if length (fd_values f) \<noteq> 7
            then join_strings '','' (map ((!) weekday_names) (fd_values f)) @ '' '' else []
        | None \<Rightarrow> []) @
       ''*-'' @ field_calendar 1 12 (sc_month s) @ ''-'' @
       (case day of Some f \<Rightarrow> field_calendar 1 31 f | None \<Rightarrow> ''*'') @ '' '' @
       field_calendar 0 23 (sc_hour s) @ '':'' @ field_calendar 0 59 (sc_minute s) @ '':00'')
     (date_alternatives s)"

text \<open>An entry of the launchd calendar: minute, hour, month, day and weekday, each present or not.\<close>

type_synonym plist_entry = "nat option \<times> nat option \<times> nat option \<times> nat option \<times> nat option"

definition plist_entries :: "schedule \<Rightarrow> plist_entry list" where
  "plist_entries s =
     concat (map (\<lambda>(day, weekday).
       concat (map (\<lambda>minute. concat (map (\<lambda>hour. concat (map (\<lambda>month. concat (map (\<lambda>d.
         map (\<lambda>w. (minute, hour, month, d, w))
           (case weekday of Some f \<Rightarrow> plist_values 0 6 f | None \<Rightarrow> [None]))
         (case day of Some f \<Rightarrow> plist_values 1 31 f | None \<Rightarrow> [None])))
         (plist_values 1 12 (sc_month s))))
         (plist_values 0 23 (sc_hour s))))
         (plist_values 0 59 (sc_minute s))))
     (date_alternatives s))"

definition plist_key :: "string \<Rightarrow> nat option \<Rightarrow> string" where
  "plist_key key v =
     (case v of Some n \<Rightarrow> ''<key>'' @ key @ ''</key><integer>'' @ decimal n @ ''</integer>'' | None \<Rightarrow> [])"

definition plist_dict :: "plist_entry \<Rightarrow> string" where
  "plist_dict e =
     (case e of (minute, hour, month, day, weekday) \<Rightarrow>
        ''<dict>'' @ plist_key ''Minute'' minute @ plist_key ''Hour'' hour @ plist_key ''Month'' month @
        plist_key ''Day'' day @ plist_key ''Weekday'' weekday @ ''</dict>'')"

definition launchd_calendar_xml :: "schedule \<Rightarrow> (cron_error, string) result" where
  "launchd_calendar_xml s =
     (if 4096 < length (plist_entries s) then Inl TooManyEntries
      else Inr (''<array>'' @ concat (map plist_dict (plist_entries s)) @ ''</array>''))"

section \<open>Fields have the values of their range\<close>

lemma set_sort_dedup [simp]: "set (sort_dedup vs) = set vs"
  by (simp add: sort_dedup_def)

lemma sort_dedup_Nil [simp]: "sort_dedup vs = [] \<longleftrightarrow> vs = []"
  using set_sort_dedup [of vs] by (metis set_empty)

lemma sorted_remdups_adj_strict: "sorted (xs :: nat list) \<Longrightarrow> sorted_wrt (<) (remdups_adj xs)"
proof (induction xs rule: remdups_adj.induct)
  case (3 x y xs)
  then show ?case by (cases "x = y") (auto simp: le_neq_implies_less)
qed simp_all

lemma sort_dedup_sorted: "sorted_wrt (<) (sort_dedup vs)"
  by (simp add: sort_dedup_def sorted_remdups_adj_strict)

lemma step_range_bounds:
  "0 < step \<Longrightarrow> start \<le> stop \<Longrightarrow> v \<in> set (step_range start stop step) \<longleftrightarrow>
     start \<le> v \<and> v \<le> stop \<and> step dvd v - start"
proof
  assume "0 < step" "start \<le> stop" "v \<in> set (step_range start stop step)"
  then obtain i where i: "v = start + i * step" "i \<le> (stop - start) div step"
    by (auto simp: step_range_def)
  from i(2) have "i * step \<le> (stop - start) div step * step" by simp
  also have "\<dots> \<le> stop - start" by simp
  finally show "start \<le> v \<and> v \<le> stop \<and> step dvd v - start" using i(1) \<open>start \<le> stop\<close> by simp
next
  assume a: "0 < step" "start \<le> stop" "start \<le> v \<and> v \<le> stop \<and> step dvd v - start"
  then obtain i where i: "v - start = step * i" by blast
  with a have "i = (v - start) div step" by simp
  also have "\<dots> \<le> (stop - start) div step" using a by (intro div_le_mono) arith
  finally have "i \<in> set [0..<(stop - start) div step + 1]" by auto
  moreover have "v = start + i * step" using i a by (metis le_add_diff_inverse mult.commute)
  ultimately show "v \<in> set (step_range start stop step)" by (auto simp: step_range_def)
qed

definition field_ok :: "nat \<Rightarrow> nat \<Rightarrow> field \<Rightarrow> bool" where
  "field_ok mn mx f \<longleftrightarrow> fd_values f \<noteq> [] \<and> sorted_wrt (<) (fd_values f) \<and>
     (\<forall>v\<in>set (fd_values f). mn \<le> v \<and> v \<le> mx)"

lemma parse_piece_bounds:
  "parse_piece mn mx p = Inr vs \<Longrightarrow> v \<in> set vs \<Longrightarrow> mn \<le> v \<and> v \<le> mx"
  by (auto simp: parse_piece_def rbind_Inr_iff step_range_bounds)

lemma parse_pieces_bounds:
  "parse_pieces mn mx ps = Inr vs \<Longrightarrow> v \<in> set vs \<Longrightarrow> mn \<le> v \<and> v \<le> mx"
  by (induction ps arbitrary: vs) (auto simp: rbind_Inr_iff dest: parse_piece_bounds)

lemma parse_field_ok: "parse_field mn mx text = Inr f \<Longrightarrow> field_ok mn mx f"
  by (auto simp: parse_field_def rbind_Inr_iff Let_def field_ok_def sort_dedup_sorted
      dest: parse_pieces_bounds)

definition schedule_ok :: "schedule \<Rightarrow> bool" where
  "schedule_ok s \<longleftrightarrow> field_ok 0 59 (sc_minute s) \<and> field_ok 0 23 (sc_hour s) \<and>
     field_ok 1 31 (sc_day s) \<and> field_ok 1 12 (sc_month s) \<and> field_ok 0 6 (sc_weekday s)"

lemma parse_schedule_ok: "parse_schedule text = Inr s \<Longrightarrow> schedule_ok s"
proof -
  assume "parse_schedule text = Inr s"
  then obtain w a b c d where w: "parse_field 0 7 (split_whitespace text ! 4) = Inr w"
    and f: "parse_field 0 59 (split_whitespace text ! 0) = Inr a" "parse_field 0 23 (split_whitespace text ! 1) = Inr b"
    "parse_field 1 31 (split_whitespace text ! 2) = Inr c" "parse_field 1 12 (split_whitespace text ! 3) = Inr d"
    and s: "s = \<lparr>sc_minute = a, sc_hour = b, sc_day = c, sc_month = d,
      sc_weekday = w\<lparr>fd_values := sort_dedup (map (\<lambda>v. if v = 7 then 0 else v) (fd_values w))\<rparr>\<rparr>"
    by (auto simp: parse_schedule_def rbind_Inr_iff Let_def)
  note ok = parse_field_ok [OF w]
  have "\<forall>v\<in>set (fd_values w). v \<le> 7" using ok by (simp add: field_ok_def)
  moreover have "u \<le> 7 \<Longrightarrow> (if u = 7 then 0 else u) \<le> 6" for u :: nat by simp
  ultimately have "\<forall>v\<in>set (fd_values (sc_weekday s)). v \<le> 6" unfolding s by fastforce
  moreover have "fd_values (sc_weekday s) \<noteq> []"
    using ok by (simp add: s field_ok_def)
  ultimately have "field_ok 0 6 (sc_weekday s)" by (simp add: field_ok_def sort_dedup_sorted s)
  then show ?thesis using f [THEN parse_field_ok] by (simp add: schedule_ok_def s)
qed

section \<open>The launchd calendar\<close>

text \<open>When launchd starts a job, as launchd.plist(5) documents it: an absent key matches every time, a
  present one its own value, and when an entry has both a day of the month and a day of the week, one of
  the two is enough.\<close>

definition date_keys_fire :: "nat \<Rightarrow> nat \<Rightarrow> nat option \<Rightarrow> nat option \<Rightarrow> bool" where
  "date_keys_fire day weekday d w =
     (case (d, w) of
        (Some x, Some y) \<Rightarrow> x = day \<or> y = weekday
      | _ \<Rightarrow> d \<in> {None, Some day} \<and> w \<in> {None, Some weekday})"

definition entry_fires :: "nat \<Rightarrow> nat \<Rightarrow> nat \<Rightarrow> nat \<Rightarrow> nat \<Rightarrow> plist_entry \<Rightarrow> bool" where
  "entry_fires minute hour month day weekday e =
     (case e of (m, h, mo, d, w) \<Rightarrow>
        m \<in> {None, Some minute} \<and> h \<in> {None, Some hour} \<and> mo \<in> {None, Some month} \<and>
        date_keys_fire day weekday d w)"

text \<open>A schedule whose entries carry both keys: one of the two fields starts with a star, so that cron
  requires both to match, and yet neither selects its whole range (\<open>*/2\<close> does not).\<close>

definition both_date_keys :: "schedule \<Rightarrow> bool" where
  "both_date_keys s \<longleftrightarrow> (fd_wildcard (sc_day s) \<or> fd_wildcard (sc_weekday s)) \<and>
     length (fd_values (sc_day s)) \<noteq> 31 \<and> length (fd_values (sc_weekday s)) \<noteq> 7"

lemma full_field:
  assumes "field_ok mn mx f" "length (fd_values f) = mx - mn + 1" "mn \<le> v" "v \<le> mx"
  shows "v \<in> set (fd_values f)"
proof -
  have "set (fd_values f) \<subseteq> {mn..mx}" using assms(1) by (auto simp: field_ok_def)
  moreover have "card (set (fd_values f)) = card {mn..mx}"
    using assms by (simp add: field_ok_def distinct_card strict_sorted_iff)
  ultimately have "set (fd_values f) = {mn..mx}" by (intro card_subset_eq) simp_all
  with assms show ?thesis by simp
qed

lemma plist_values_fire:
  "field_ok mn mx f \<Longrightarrow> mn \<le> v \<Longrightarrow> v \<le> mx \<Longrightarrow>
     (\<exists>x\<in>set (plist_values mn mx f). x \<in> {None, Some v}) \<longleftrightarrow> field_contains f v"
  using full_field [of mn mx f v] by (auto simp: plist_values_def field_contains_def)

lemma bex_concat_map: "(\<exists>e\<in>set (concat (map f xs)). P e) \<longleftrightarrow> (\<exists>x\<in>set xs. \<exists>e\<in>set (f x). P e)"
  by auto

lemma bex_map: "(\<exists>e\<in>set (map f xs). P e) \<longleftrightarrow> (\<exists>x\<in>set xs. P (f x))"
  by auto

lemma bex_entries:
  "(\<exists>e\<in>set (concat (map (\<lambda>minute. concat (map (\<lambda>hour. concat (map (\<lambda>month. concat (map (\<lambda>d.
      map (\<lambda>w. (minute, hour, month, d, w)) ws) ds)) mos)) hs)) ms)).
      entry_fires minute hour month day weekday e) \<longleftrightarrow>
   (\<exists>x\<in>set ms. x \<in> {None, Some minute}) \<and> (\<exists>x\<in>set hs. x \<in> {None, Some hour}) \<and>
   (\<exists>x\<in>set mos. x \<in> {None, Some month}) \<and> (\<exists>d\<in>set ds. \<exists>w\<in>set ws. date_keys_fire day weekday d w)"
  unfolding bex_concat_map bex_map entry_fires_def prod.case by blast

lemma date_keys_fire_simps [simp]:
  "date_keys_fire day weekday d None \<longleftrightarrow> d \<in> {None, Some day}"
  "date_keys_fire day weekday None w \<longleftrightarrow> w \<in> {None, Some weekday}"
  "date_keys_fire day weekday (Some x) (Some y) \<longleftrightarrow> x = day \<or> y = weekday"
  by (auto simp: date_keys_fire_def split: option.splits)

text \<open>The day keys of an entry that has both alternatives of its fields.\<close>

lemma date_keys_of_fields:
  assumes "field_ok 1 31 f" "field_ok 0 6 g" "1 \<le> day \<and> day \<le> 31" "weekday \<le> 6"
  shows "(\<exists>d\<in>set (plist_values 1 31 f). \<exists>w\<in>set (plist_values 0 6 g). date_keys_fire day weekday d w) \<longleftrightarrow>
    (if length (fd_values f) \<noteq> 31 \<and> length (fd_values g) \<noteq> 7
     then field_contains f day \<or> field_contains g weekday
     else field_contains f day \<and> field_contains g weekday)"
proof -
  have ne: "fd_values f \<noteq> []" "fd_values g \<noteq> []" using assms(1,2) by (simp_all add: field_ok_def)
  have f: "length (fd_values f) = 31 \<Longrightarrow> field_contains f day"
    using full_field [OF assms(1), of day] assms(3) by (simp add: field_contains_def)
  have g: "length (fd_values g) = 7 \<Longrightarrow> field_contains g weekday"
    using full_field [OF assms(2), of weekday] assms(4) by (simp add: field_contains_def)
  show ?thesis
  proof (cases "length (fd_values f) = 31")
    case True
    with f g show ?thesis by (auto simp: plist_values_def field_contains_def)
  next
    case f31: False
    show ?thesis
    proof (cases "length (fd_values g) = 7")
      case True
      with f31 g show ?thesis by (auto simp: plist_values_def field_contains_def)
    next
      case False
      obtain a as b bs where "fd_values f = a # as" "fd_values g = b # bs" using ne by (meson list.exhaust)
      then have "(\<exists>x\<in>set (fd_values f). \<exists>y\<in>set (fd_values g). x = day \<or> y = weekday) \<longleftrightarrow>
          day \<in> set (fd_values f) \<or> weekday \<in> set (fd_values g)"
        by auto
      with f31 False show ?thesis by (simp add: plist_values_def field_contains_def)
    qed
  qed
qed

text \<open>C31: The calendar handed to launchd, for a parsed schedule and a time in range. Launchd starts the job
  at every local time the cron expression selects, and at no other, unless an entry carries both a day of the
  month and a day of the week; then it starts the job in the selected minutes, hours and months on the
  days that match one of the two, where cron requires both. An expression that needs more than 4096 entries
  is rejected.\<close>

theorem launchd_calendar_fires_as_cron:
  assumes "parse_schedule text = Inr s"
    and "minute \<le> 59" "hour \<le> 23" "1 \<le> day \<and> day \<le> 31" "1 \<le> month \<and> month \<le> 12" "weekday \<le> 6"
  shows "((\<exists>e\<in>set (plist_entries s). entry_fires minute hour month day weekday e) \<longleftrightarrow>
      field_contains (sc_minute s) minute \<and> field_contains (sc_hour s) hour \<and>
      (day_fires s month day weekday \<or>
       both_date_keys s \<and> field_contains (sc_month s) month \<and>
         (field_contains (sc_day s) day \<or> field_contains (sc_weekday s) weekday))) \<and>
    (launchd_calendar_xml s = Inl TooManyEntries \<longleftrightarrow> 4096 < length (plist_entries s))"
proof
  have ok: "field_ok 0 59 (sc_minute s)" "field_ok 0 23 (sc_hour s)" "field_ok 1 31 (sc_day s)"
    "field_ok 1 12 (sc_month s)" "field_ok 0 6 (sc_weekday s)"
    using parse_schedule_ok [OF assms(1)] by (simp_all add: schedule_ok_def)
  note fires = plist_values_fire [OF ok(1), of minute] plist_values_fire [OF ok(2), of hour]
    plist_values_fire [OF ok(3), of day] plist_values_fire [OF ok(4), of month] plist_values_fire [OF ok(5), of weekday]
  note both = date_keys_of_fields [OF ok(3,5) assms(4,6)]
  have day: "(\<exists>d\<in>set ds. \<exists>w\<in>set [None]. date_keys_fire day weekday d w) \<longleftrightarrow> (\<exists>x\<in>set ds. x \<in> {None, Some day})" for ds
    by simp
  have week: "(\<exists>d\<in>set [None]. \<exists>w\<in>set ws. date_keys_fire day weekday d w) \<longleftrightarrow> (\<exists>x\<in>set ws. x \<in> {None, Some weekday})" for ws
    by simp
  show "(\<exists>e\<in>set (plist_entries s). entry_fires minute hour month day weekday e) \<longleftrightarrow>
      field_contains (sc_minute s) minute \<and> field_contains (sc_hour s) hour \<and>
      (day_fires s month day weekday \<or>
       both_date_keys s \<and> field_contains (sc_month s) month \<and>
         (field_contains (sc_day s) day \<or> field_contains (sc_weekday s) weekday))"
  proof (cases "\<not> fd_wildcard (sc_day s) \<and> \<not> fd_wildcard (sc_weekday s)")
    case True
    then have alts: "date_alternatives s = [(Some (sc_day s), None), (None, Some (sc_weekday s))]"
      by (simp add: date_alternatives_def)
    show ?thesis
      unfolding plist_entries_def alts bex_concat_map [of _ "[_, _]"] list.set bex_simps prod.case option.case
        bex_entries day week
      using fires assms(2-) True unfolding day_fires_def both_date_keys_def by (simp del: insert_iff) blast
  next
    case False
    then have alts: "date_alternatives s = [(Some (sc_day s), Some (sc_weekday s))]"
      by (simp add: date_alternatives_def)
    show ?thesis
      unfolding plist_entries_def alts bex_concat_map [of _ "[_]"] list.set bex_simps prod.case option.case bex_entries both
      using fires assms(2-) False unfolding day_fires_def both_date_keys_def by (simp del: insert_iff) blast
  qed
qed (simp add: launchd_calendar_xml_def)

theorem launchd_calendar_fires_as_cron_witness:
  "\<exists>s. parse_schedule ''0 9 1 * 1'' = Inr s \<and>
     (\<exists>e\<in>set (plist_entries s). entry_fires 0 9 5 3 1 e) \<and>
     \<not> (\<exists>e\<in>set (plist_entries s). entry_fires 0 9 5 3 2 e)"
proof -
  obtain s where s: "parse_schedule ''0 9 1 * 1'' = Inr s"
    and f: "field_contains (sc_minute s) 0" "field_contains (sc_hour s) 9" "day_fires s 5 3 1" "\<not> day_fires s 5 3 2"
      "\<not> both_date_keys s"
  proof -
    have "(case parse_schedule ''0 9 1 * 1'' of Inl _ \<Rightarrow> False | Inr s \<Rightarrow>
        field_contains (sc_minute s) 0 \<and> field_contains (sc_hour s) 9 \<and> day_fires s 5 3 1 \<and> \<not> day_fires s 5 3 2 \<and>
        \<not> both_date_keys s)"
      by code_simp
    then show ?thesis using that by (auto split: sum.splits)
  qed
  have "\<exists>e\<in>set (plist_entries s). entry_fires 0 9 5 3 1 e"
    using launchd_calendar_fires_as_cron [OF s, of 0 9 3 5 1] f by simp
  moreover have "\<not> (\<exists>e\<in>set (plist_entries s). entry_fires 0 9 5 3 2 e)"
    using launchd_calendar_fires_as_cron [OF s, of 0 9 3 5 2] f by simp
  ultimately show ?thesis using s by blast
qed

text \<open>The two semantics do differ. \<open>0 9 */2 * 1\<close> is, for cron and for the next run the application shows,
  nine o'clock on the Mondays that fall on an odd day; launchd is given entries with both keys and also
  starts the job on Tuesday the third.\<close>

lemma stepped_day_fires_on_other_weekdays:
  "(case parse_schedule ''0 9 */2 * 1'' of
      Inl _ \<Rightarrow> False
    | Inr s \<Rightarrow> \<not> day_fires s 5 3 2 \<and> (\<exists>e\<in>set (plist_entries s). entry_fires 0 9 5 3 2 e))"
  by code_simp

section \<open>The next run\<close>

text \<open>What the calculation relies on, as chrono documents it: adding \<open>n\<close> days gives the day \<open>n\<close> later,
  unless that is out of range; an instant found for a local day lies on that day.\<close>

definition calendar_ok :: "calendar \<Rightarrow> bool" where
  "calendar_ok cal \<longleftrightarrow>
     (\<forall>d n. cal_add_days cal d n \<in> {None, Some (d + int n)}) \<and>
     (\<forall>d h m t. (fst (cal_instants cal d h m) = Some t \<or> snd (cal_instants cal d h m) = Some t) \<longrightarrow>
        cal_local_date cal t = d)"

text \<open>The schedule fires at the earliest and at the latest instant that the local clock shows as one of its
  minutes, of one of its hours, of a day it selects.\<close>

definition fires_at :: "calendar \<Rightarrow> schedule \<Rightarrow> int \<Rightarrow> bool" where
  "fires_at cal s t \<longleftrightarrow> date_matches cal s (cal_local_date cal t) \<and>
     (\<exists>h\<in>set (fd_values (sc_hour s)). \<exists>m\<in>set (fd_values (sc_minute s)).
        fst (cal_instants cal (cal_local_date cal t) h m) = Some t \<or>
        snd (cal_instants cal (cal_local_date cal t) h m) = Some t)"

definition first_after :: "int \<Rightarrow> int set \<Rightarrow> int option \<Rightarrow> bool" where
  "first_after after ts r \<longleftrightarrow>
     (case r of None \<Rightarrow> \<forall>t\<in>ts. \<not> after < t | Some t \<Rightarrow> after < t \<and> t \<in> ts \<and> (\<forall>t'\<in>ts. after < t' \<longrightarrow> t \<le> t'))"

lemma keep_best_first: "first_after after ts b \<Longrightarrow> first_after after (insert x ts) (keep_best after b x)"
  by (auto simp: first_after_def keep_best_def split: option.splits)

lemma foldl_keep_best:
  "first_after after ts b \<Longrightarrow> first_after after (ts \<union> set xs) (foldl (keep_best after) b xs)"
proof (induction xs arbitrary: b ts)
  case (Cons x xs)
  from Cons.IH [OF keep_best_first [OF Cons.prems], of x] show ?case by simp
qed simp

lemma best_of_day: "first_after after (set (day_instants cal s d)) (foldl (keep_best after) None (day_instants cal s d))"
  using foldl_keep_best [of after "{}" None] by (simp add: first_after_def)

lemma set_day_instants:
  "t \<in> set (day_instants cal s d) \<longleftrightarrow>
     (\<exists>h\<in>set (fd_values (sc_hour s)). \<exists>m\<in>set (fd_values (sc_minute s)).
        fst (cal_instants cal d h m) = Some t \<or> snd (cal_instants cal d h m) = Some t)"
proof -
  have one: "t \<in> set (case p of (a, b) \<Rightarrow> (case a of Some x \<Rightarrow> [x] | None \<Rightarrow> []) @ (case b of Some x \<Rightarrow> [x] | None \<Rightarrow> [])) \<longleftrightarrow>
      fst p = Some t \<or> snd p = Some t" for p :: "int option \<times> int option"
    by (cases p) (auto split: option.splits)
  show ?thesis unfolding day_instants_def by (simp only: set_concat set_map UN_iff image_image one)
qed

lemma day_instants_on_day:
  assumes "calendar_ok cal" "t \<in> set (day_instants cal s d)"
  shows "cal_local_date cal t = d"
  using assms unfolding set_day_instants calendar_ok_def by blast

lemma fires_at_iff: "fires_at cal s t \<longleftrightarrow> date_matches cal s (cal_local_date cal t) \<and>
    t \<in> set (day_instants cal s (cal_local_date cal t))"
  by (simp add: fires_at_def set_day_instants)

text \<open>The loop looks at the days in order; \<open>lo\<close> is the first day not looked at. The instants are ordered by
  their local day first: a clock put back across midnight returns to a day it had left.\<close>

definition day_first :: "calendar \<Rightarrow> int \<Rightarrow> int \<Rightarrow> bool" where
  "day_first cal t t' \<longleftrightarrow> cal_local_date cal t < cal_local_date cal t' \<or>
     cal_local_date cal t = cal_local_date cal t' \<and> t \<le> t'"

definition next_ok :: "calendar \<Rightarrow> schedule \<Rightarrow> int \<Rightarrow> int \<Rightarrow> int \<Rightarrow> int \<Rightarrow> int option \<Rightarrow> bool" where
  "next_ok cal s after start lo hi r \<longleftrightarrow>
     (case r of
        Some t \<Rightarrow> after < t \<and> fires_at cal s t \<and> lo \<le> cal_local_date cal t \<and> cal_local_date cal t < hi \<and>
          (\<forall>t'. after < t' \<longrightarrow> fires_at cal s t' \<longrightarrow> lo \<le> cal_local_date cal t' \<longrightarrow> day_first cal t t')
      | None \<Rightarrow> \<forall>t'. after < t' \<longrightarrow> fires_at cal s t' \<longrightarrow> lo \<le> cal_local_date cal t' \<longrightarrow>
          hi \<le> cal_local_date cal t' \<or>
          (\<exists>n. cal_add_days cal start n = None \<and> start + int n \<le> cal_local_date cal t' \<and> start + int n < hi))"

lemma next_ok_skip:
  assumes "next_ok cal s after start (lo + 1) hi r"
    and "\<And>t. fires_at cal s t \<Longrightarrow> cal_local_date cal t = lo \<Longrightarrow> \<not> after < t"
  shows "next_ok cal s after start lo hi r"
proof -
  have later: "lo + 1 \<le> cal_local_date cal t" if "after < t" "fires_at cal s t" "lo \<le> cal_local_date cal t" for t
    using that assms(2) by force
  show ?thesis
    using assms(1) later unfolding next_ok_def by (cases r) auto
qed

lemma next_run_loop_ok:
  assumes cal: "calendar_ok cal"
  shows "next_ok cal s after start (start + int k) (start + int (k + n)) (next_run_loop cal s after start [k..<k + n])"
proof (induction n arbitrary: k)
  case 0
  then show ?case by (simp add: next_ok_def)
next
  case (Suc n)
  let ?d = "start + int k"
  let ?best = "foldl (keep_best after) None (day_instants cal s ?d)"
  have upt: "[k..<k + Suc n] = k # [Suc k..<Suc k + n]" by (simp add: upt_rec)
  have IH: "next_ok cal s after start (?d + 1) (start + int (k + Suc n)) (next_run_loop cal s after start [Suc k..<Suc k + n])"
    using Suc.IH [of "Suc k"] by (simp add: algebra_simps)
  note best = best_of_day [of after cal s ?d]
  consider (ended) "cal_add_days cal start k = None" | (day) "cal_add_days cal start k = Some ?d"
  proof -
    from cal have "cal_add_days cal start k \<in> {None, Some ?d}" by (simp add: calendar_ok_def)
    then show ?thesis using ended day by blast
  qed
  then show ?case
  proof cases
    case ended
    then have "next_run_loop cal s after start [k..<k + Suc n] = None" unfolding upt by simp
    then show ?thesis unfolding next_ok_def using ended by auto
  next
    case add: day
    show ?thesis
    proof (cases "date_matches cal s ?d \<and> ?best \<noteq> None")
      case True
      then obtain t where t: "?best = Some t" by auto
      with best have "after < t" "t \<in> set (day_instants cal s ?d)"
        and least: "\<forall>t'\<in>set (day_instants cal s ?d). after < t' \<longrightarrow> t \<le> t'" by (simp_all add: first_after_def)
      with day_instants_on_day [OF cal] True have day: "cal_local_date cal t = ?d" "fires_at cal s t"
        by (auto simp: fires_at_iff)
      have "day_first cal t t'" if "after < t'" "fires_at cal s t'" "?d \<le> cal_local_date cal t'" for t'
        using that least day(1) by (auto simp: day_first_def fires_at_iff)
      moreover have "next_run_loop cal s after start [k..<k + Suc n] = Some t"
        unfolding upt using True t by (simp add: add)
      moreover have "?d \<le> cal_local_date cal t" "cal_local_date cal t < start + int (k + Suc n)" using day(1) by simp_all
      ultimately show ?thesis using \<open>after < t\<close> day(2) by (simp only: next_ok_def option.case) blast
    next
      case False
      have none: "\<not> after < t" if "fires_at cal s t" "cal_local_date cal t = ?d" for t
      proof (cases "date_matches cal s ?d")
        case True
        with False have "?best = None" by simp
        with best that show ?thesis by (simp add: first_after_def fires_at_iff)
      qed (use that in \<open>simp add: fires_at_iff\<close>)
      from False have "next_run_loop cal s after start [k..<k + Suc n] = next_run_loop cal s after start [Suc k..<Suc k + n]"
        unfolding upt by (auto simp: add)
      with next_ok_skip [OF IH none] show ?thesis by simp
    qed
  qed
qed

text \<open>C32: The next run of a schedule. The instant returned is after the given one, the schedule fires at it,
  and among the later instants at which it fires, from the given one's local day on, it is the first one
  of the first local day. Where the local date does not go back after the given instant, it
  is the first of all. If none is returned, the schedule does not fire later on the 2928 days that begin with the local day
  of that instant, or not before the end of the calendar if that comes first.\<close>

theorem next_run_is_the_first:
  assumes "calendar_ok cal"
  shows "(\<forall>t. next_after cal s after = Some t \<longrightarrow>
      after < t \<and> fires_at cal s t \<and>
      (\<forall>t'. after < t' \<longrightarrow> fires_at cal s t' \<longrightarrow> cal_local_date cal after \<le> cal_local_date cal t' \<longrightarrow>
         day_first cal t t') \<and>
      ((\<forall>u v. after \<le> u \<longrightarrow> u \<le> v \<longrightarrow> cal_local_date cal u \<le> cal_local_date cal v) \<longrightarrow>
         (\<forall>t'. after < t' \<longrightarrow> fires_at cal s t' \<longrightarrow> t \<le> t'))) \<and>
    (next_after cal s after = None \<longrightarrow>
      (\<forall>t'. after < t' \<longrightarrow> fires_at cal s t' \<longrightarrow> cal_local_date cal after \<le> cal_local_date cal t' \<longrightarrow>
         cal_local_date cal after + 2928 \<le> cal_local_date cal t' \<or>
         (\<exists>n. cal_add_days cal (cal_local_date cal after) n = None \<and>
            cal_local_date cal after + int n \<le> cal_local_date cal t')))"
proof (cases "next_after cal s after")
  let ?ld = "cal_local_date cal"
  have range: "next_ok cal s after (?ld after) (?ld after) (?ld after + 2928) (next_after cal s after)"
    using next_run_loop_ok [OF assms, of s after "?ld after" 0 2928] by (simp add: next_after_def)
  {
    case None
    then show ?thesis using range unfolding next_ok_def by auto
  next
    case (Some t)
    with range have t: "after < t" "fires_at cal s t"
      and first: "\<And>t'. after < t' \<Longrightarrow> fires_at cal s t' \<Longrightarrow> ?ld after \<le> ?ld t' \<Longrightarrow> day_first cal t t'"
      by (simp_all add: next_ok_def)
    have "t \<le> t'" if mono: "\<forall>u v. after \<le> u \<longrightarrow> u \<le> v \<longrightarrow> ?ld u \<le> ?ld v" and t': "after < t'" "fires_at cal s t'" for t'
    proof -
      have "?ld after \<le> ?ld t'" using mono t'(1) by simp
      with first t' have "day_first cal t t'" by blast
      moreover have "t' \<le> t \<longrightarrow> ?ld t' \<le> ?ld t" using mono t'(1) by simp
      ultimately show ?thesis unfolding day_first_def by linarith
    qed
    with t first Some show ?thesis by simp
  }
qed

text \<open>A calendar without months: days of 86400 seconds at UTC.\<close>

definition sample_calendar :: calendar where
  "sample_calendar =
     \<lparr>cal_local_date = (\<lambda>t. t div 86400), cal_add_days = (\<lambda>d n. Some (d + int n)), cal_month = (\<lambda>_. 1),
      cal_day = (\<lambda>_. 1), cal_weekday = (\<lambda>d. nat ((d + 4) mod 7)),
      cal_instants = (\<lambda>d h m. let t = d * 86400 + int (min h 23) * 3600 + int (min m 59) * 60 in (Some t, Some t))\<rparr>"

lemma sample_calendar_ok: "calendar_ok sample_calendar"
proof -
  have "(d * 86400 + int (min h 23) * 3600 + int (min m 59) * 60) div 86400 = d" for d :: int and h m :: nat
  proof -
    have "int (min h 23) * 3600 + int (min m 59) * 60 < 86400" by linarith
    then have "(int (min h 23) * 3600 + int (min m 59) * 60) div 86400 = 0" by (intro div_pos_pos_trivial) simp_all
    moreover have "(d * 86400 + (int (min h 23) * 3600 + int (min m 59) * 60)) div 86400 =
        d + (int (min h 23) * 3600 + int (min m 59) * 60) div 86400" by simp
    ultimately show ?thesis by (simp add: add.assoc)
  qed
  then show ?thesis
    by (auto simp: calendar_ok_def sample_calendar_def Let_def intro: zdiv_mono1)
qed

lemma next_run_loop_append:
  "next_run_loop cal s after start xs = Some t \<Longrightarrow> next_run_loop cal s after start (xs @ ys) = Some t"
  by (induction xs) (auto split: option.splits if_splits)

theorem next_run_is_the_first_witness:
  "\<exists>s t. parse_schedule ''30 9 * * 4'' = Inr s \<and> next_after sample_calendar s 40000 = Some t \<and> 40000 < t \<and>
     fires_at sample_calendar s t \<and> {t'. 40000 < t' \<and> fires_at sample_calendar s t'} \<subseteq> {t..}"
proof -
  have mono: "\<forall>u v. 40000 \<le> u \<longrightarrow> u \<le> v \<longrightarrow> cal_local_date sample_calendar u \<le> cal_local_date sample_calendar v"
    by (auto simp: sample_calendar_def intro: zdiv_mono1)
  have "(case parse_schedule ''30 9 * * 4'' of Inl _ \<Rightarrow> False
      | Inr s \<Rightarrow> next_run_loop sample_calendar s 40000 (cal_local_date sample_calendar 40000) [0..<8] = Some 639000)"
    by code_simp
  then obtain s where s: "parse_schedule ''30 9 * * 4'' = Inr s"
    and r: "next_run_loop sample_calendar s 40000 (cal_local_date sample_calendar 40000) [0..<8] = Some 639000"
    by (auto split: sum.splits)
  have "[0..<366 * 8] = [0..<8] @ [8..<366 * 8]" using upt_add_eq_append [of 0 8 2920] by simp
  then have "next_after sample_calendar s 40000 = Some 639000"
    unfolding next_after_def by (simp only: next_run_loop_append [OF r])
  then have "40000 < (639000 :: int) \<and> fires_at sample_calendar s 639000 \<and>
      (\<forall>t'. 40000 < t' \<longrightarrow> fires_at sample_calendar s t' \<longrightarrow> 639000 \<le> t')"
    using next_run_is_the_first [OF sample_calendar_ok, of s 40000] mono by simp
  with s \<open>next_after sample_calendar s 40000 = Some 639000\<close> show ?thesis by blast
qed

end
