(* ===== verification/Auto_Task.thy ===== *)
theory Auto_Task
  imports Auto_Schedule "HOL-Library.Finite_Map"
begin

text \<open>
  Automation tasks: \<open>crates/automations/src/model/task.rs\<close> with the workspace configuration of
  \<open>crates/workspaces/src/config.rs\<close>, the identifiers of \<open>store/files.rs\<close>, and the review
  marker of \<open>hosting/mod.rs\<close>. Messages are named by their key. \<open>Panic\<close> is the panic of a
  string slice that is not at character boundaries.
\<close>

datatype task_error = Msg string | Cron cron_error | Panic

section \<open>Workspaces\<close>

datatype workspace_mode = Existing_Mode | New_Worktree | Temporary | Dynamic

record workspace_config =
  wc_mode :: workspace_mode
  wc_path :: string
  wc_base_branch :: string

definition has_control :: "string \<Rightarrow> bool" where
  "has_control s \<longleftrightarrow> (\<exists>c\<in>set (chars s). is_control c)"

definition validate_workspace :: "workspace_config \<Rightarrow> (task_error, unit) result" where
  "validate_workspace w =
     rbind (ensure (\<not> has_control (wc_path w)) (Msg ''workspaces.workspace_path_contains_control_characters'')) (\<lambda>_.
       case wc_mode w of
         Existing_Mode \<Rightarrow> ensure (path_is_absolute (wc_path w))
           (Msg ''workspaces.choose_a_worktree_with_an_absolute_path'')
       | New_Worktree \<Rightarrow> ensure (trim (wc_base_branch w) \<noteq> [] \<and> length (wc_base_branch w) \<le> 1024 \<and>
             \<not> prefix ''-'' (trim (wc_base_branch w)) \<and> \<not> has_control (wc_base_branch w))
           (Msg ''workspaces.choose_a_valid_base_branch_up_to_1024_bytes'')
       | Temporary \<Rightarrow> Inr ()
       | Dynamic \<Rightarrow> ensure (wc_path w = [])
           (Msg ''workspaces.dynamic_workspace_directory_must_be_provided_at_runtime''))"

section \<open>Tasks\<close>

datatype task_kind = Scheduled | Manual

record prompt_binding =
  pb_name :: string
  pb_placeholder :: string
  pb_start :: nat
  pb_end :: nat

datatype failure_notification = Feishu | Wechat

text \<open>\<open>AgentKind\<close> is the name of a kind of agent.\<close>

record task_input =
  ti_name :: string
  ti_prompt :: string
  ti_kind :: task_kind
  ti_bindings :: "prompt_binding list"
  ti_agent :: string
  ti_agent_id :: "string option"
  ti_project_id :: string
  ti_workspace :: workspace_config
  ti_cleanup_worktree :: bool
  ti_cron :: string
  ti_interval :: "nat option"
  ti_max_concurrent_runs :: nat
  ti_enabled :: bool
  ti_yolo :: bool
  ti_failure_notification :: "failure_notification option"

definition validate_schedule :: "task_input \<Rightarrow> (task_error, unit) result" where
  "validate_schedule t =
     (if ti_kind t = Manual
      then ensure (ti_cron t = [] \<and> ti_interval t = None)
             (Msg ''automations.manual_tasks_do_not_require_a_schedule'')
      else (case ti_interval t of
          Some seconds \<Rightarrow> ensure (1 \<le> seconds \<and> seconds \<le> 2678400)
            (Msg ''automations.run_interval_must_be_between_1_second_and_31'')
        | None \<Rightarrow> (case parse_schedule (ti_cron t) of Inl e \<Rightarrow> Inl (Cron e) | Inr _ \<Rightarrow> Inr ())))"

fun check_bindings :: "string \<Rightarrow> nat \<Rightarrow> prompt_binding list \<Rightarrow> (task_error, unit) result" where
  "check_bindings prompt previous_end [] = Inr ()"
| "check_bindings prompt previous_end (b # bs) =
     rbind (ensure (trim (pb_name b) \<noteq> [] \<and> previous_end \<le> pb_start b \<and> pb_start b < pb_end b \<and>
         str_get prompt (pb_start b) (pb_end b) = Some (pb_placeholder b))
       (Msg ''automations.variable_configuration_does_not_match_task_content_edit_and'')) (\<lambda>_.
     check_bindings prompt (pb_end b) bs)"

definition validate_bindings :: "task_input \<Rightarrow> (task_error, unit) result" where
  "validate_bindings t =
     rbind (ensure (ti_kind t = Manual \<or> ti_bindings t = [])
       (Msg ''automations.only_manual_tasks_support_input_variables'')) (\<lambda>_.
     check_bindings (ti_prompt t) 0 (ti_bindings t))"

definition validate_task :: "task_input \<Rightarrow> (task_error, unit) result" where
  "validate_task t =
     rbind (ensure (trim (ti_name t) \<noteq> [] \<and> length (ti_name t) \<le> 200)
       (Msg ''automations.name_must_not_be_empty_or_exceed_200_bytes'')) (\<lambda>_.
     rbind (ensure (trim (ti_prompt t) \<noteq> [] \<and> length (ti_prompt t) \<le> 64 * 1024)
       (Msg ''automations.task_content_must_not_be_empty_or_exceed_64'')) (\<lambda>_.
     rbind (validate_workspace (ti_workspace t)) (\<lambda>_.
     rbind (ensure (wc_mode (ti_workspace t) \<noteq> Dynamic \<or> ti_kind t = Manual)
       (Msg ''automations.only_manual_tasks_support_dynamic_workspaces'')) (\<lambda>_.
     rbind (ensure (1 \<le> ti_max_concurrent_runs t \<and> ti_max_concurrent_runs t \<le> 10)
       (Msg ''automations.maximum_concurrency_must_be_between_1_and_10'')) (\<lambda>_.
     rbind (validate_schedule t) (\<lambda>_. validate_bindings t))))))"

definition resolve_workspace :: "string option \<Rightarrow> task_input \<Rightarrow> (task_error, task_input) result" where
  "resolve_workspace path t =
     (if wc_mode (ti_workspace t) \<noteq> Dynamic
      then rbind (ensure (path = None)
             (Msg ''automations.only_dynamic_tasks_accept_a_workspace_directory_at_runtime'')) (\<lambda>_. Inr t)
      else rbind (ensure (ti_kind t = Manual)
             (Msg ''automations.only_manual_tasks_support_dynamic_workspaces'')) (\<lambda>_.
           rbind (ok_or (case path of Some p \<Rightarrow> if p \<noteq> [] then Some p else None | None \<Rightarrow> None)
             (Msg ''automations.specify_a_workspace_directory_for_this_run'')) (\<lambda>p.
           let w = \<lparr>wc_mode = Existing_Mode, wc_path = p, wc_base_branch = []\<rparr>
           in rbind (validate_workspace w) (\<lambda>_. Inr (t\<lparr>ti_workspace := w\<rparr>)))))"

text \<open>The loop of \<open>render_prompt\<close>: the prompt built so far and the offset behind the last binding.\<close>

fun render_loop :: "string \<Rightarrow> (string, string) fmap \<Rightarrow> string \<Rightarrow> nat \<Rightarrow> prompt_binding list
    \<Rightarrow> (task_error, string) result" where
  "render_loop template vals prompt offset [] =
     (case str_get template offset (length template) of
        None \<Rightarrow> Inl Panic
      | Some tail \<Rightarrow> rbind (ensure (length (prompt @ tail) \<le> 64 * 1024)
          (Msg ''automations.expanded_task_content_must_not_exceed_64_kib'')) (\<lambda>_. Inr (prompt @ tail)))"
| "render_loop template vals prompt offset (b # bs) =
     (case fmlookup vals (pb_name b) of
        None \<Rightarrow> Inl (Msg ''automations.enter_a_value_for_variable'')
      | Some v \<Rightarrow>
          if trim v = [] then Inl (Msg ''automations.enter_a_value_for_variable'')
          else (case str_get template offset (pb_start b) of
              None \<Rightarrow> Inl Panic
            | Some text \<Rightarrow>
                rbind (ensure (length (prompt @ text @ v) \<le> 64 * 1024)
                  (Msg ''automations.expanded_task_content_must_not_exceed_64_kib'')) (\<lambda>_.
                render_loop template vals (prompt @ text @ v) (pb_end b) bs)))"

definition render_prompt :: "task_input \<Rightarrow> (string, string) fmap \<Rightarrow> (task_error, string) result" where
  "render_prompt t vals =
     rbind (validate_bindings t) (\<lambda>_.
     rbind (ensure (fBall (fmdom vals) (\<lambda>n. n \<in> set (map pb_name (ti_bindings t))))
       (Msg ''automations.contains_unconfigured_variables'')) (\<lambda>_.
     render_loop (ti_prompt t) vals [] 0 (ti_bindings t)))"

definition valid_component :: "string \<Rightarrow> bool" where
  "valid_component s \<longleftrightarrow> s \<noteq> [] \<and> length s \<le> 96 \<and>
     list_all (\<lambda>c. (48 \<le> byte_of c \<and> byte_of c \<le> 57) \<or> (65 \<le> byte_of c \<and> byte_of c \<le> 90) \<or>
       (97 \<le> byte_of c \<and> byte_of c \<le> 122) \<or> c = CHR ''-'' \<or> c = CHR ''_'') s"

section \<open>The review marker\<close>

definition FINISH_MARKER :: string where "FINISH_MARKER = ''[AOW_HOSTING_DONE]''"

text \<open>\<open>str::lines\<close>.\<close>

definition str_lines :: "string \<Rightarrow> string list" where
  "str_lines s =
     (let parts = split_char (char_of (10 :: nat)) s;
          body = (if last parts = [] then butlast parts else parts)
      in map (\<lambda>l. if l \<noteq> [] \<and> last l = char_of (13 :: nat) then butlast l else l) body)"

type_synonym fence = "(string \<times> nat) option"

definition review_line :: "string \<Rightarrow> fence \<times> bool \<Rightarrow> fence \<times> bool" where
  "review_line raw st =
     (case st of (fence, _) \<Rightarrow>
        let line = trim raw;
            passed = (line = FINISH_MARKER \<and> fence = None \<and> \<not> prefix ''    '' raw \<and>
              \<not> prefix [char_of (9 :: nat)] raw);
            first = hd (chars line)
        in if first \<noteq> ''`'' \<and> first \<noteq> ''~'' then (fence, passed)
           else let n = length (takeWhile (\<lambda>c. c = first) (chars line))
                in (case fence of
                      Some (marker, opening) \<Rightarrow>
                        (if first = marker \<and> opening \<le> n \<and> trim (drop n line) = [] then None else fence, passed)
                    | None \<Rightarrow> (if 3 \<le> n then Some (first, n) else None, passed)))"

definition review_passed :: "string \<Rightarrow> bool" where
  "review_passed out = snd (fold review_line (filter (\<lambda>l. trim l \<noteq> []) (str_lines out)) (None, False))"

section \<open>Rendering\<close>

text \<open>The text with every binding replaced.\<close>

fun expand :: "string \<Rightarrow> (string \<Rightarrow> string) \<Rightarrow> nat \<Rightarrow> prompt_binding list \<Rightarrow> string" where
  "expand template value offset [] = drop offset template"
| "expand template value offset (b # bs) =
     take (pb_start b - offset) (drop offset template) @ value (pb_name b) @
     expand template value (pb_end b) bs"

lemma render_loop_spec:
  "check_bindings template offset bs = Inr u \<Longrightarrow> is_boundary template offset \<Longrightarrow>
     render_loop template vals prompt offset bs \<noteq> Inl Panic \<and>
     (\<forall>out. render_loop template vals prompt offset bs = Inr out \<longrightarrow>
        out = prompt @ expand template (\<lambda>n. the (fmlookup vals n)) offset bs \<and> length out \<le> 65536 \<and>
        (\<forall>b\<in>set bs. \<exists>v. fmlookup vals (pb_name b) = Some v \<and> trim v \<noteq> []))"
proof (induction bs arbitrary: offset prompt u)
  case Nil
  then have "str_get template offset (length template) = Some (drop offset template)"
    by (simp add: str_get_Some boundary_le)
  then show ?case by (auto simp: rbind_Inr_iff rbind_Inl_iff)
next
  case (Cons b bs)
  from Cons.prems have b: "offset \<le> pb_start b" "is_boundary template (pb_start b)" "is_boundary template (pb_end b)"
    "check_bindings template (pb_end b) bs = Inr ()"
    by (auto simp: rbind_Inr_iff str_get_Some)
  have g: "str_get template offset (pb_start b) = Some (take (pb_start b - offset) (drop offset template))"
    using b Cons.prems(2) by (simp add: str_get_Some)
  note IH = Cons.IH [OF b(4,3)]
  show ?case
  proof (cases "fmlookup vals (pb_name b)")
    case (Some v)
    with g IH [of "prompt @ take (pb_start b - offset) (drop offset template) @ v"] show ?thesis
      by (auto simp: rbind_Inr_iff rbind_Inl_iff)
  qed simp
qed

lemma render_prompt_cases:
  assumes "validate_bindings t = Inr ()"
  shows "render_prompt t vals = (if fBall (fmdom vals) (\<lambda>n. n \<in> set (map pb_name (ti_bindings t)))
      then render_loop (ti_prompt t) vals [] 0 (ti_bindings t)
      else Inl (Msg ''automations.contains_unconfigured_variables''))"
  using assms by (simp add: render_prompt_def ensure_def)

lemma validate_bindings_check: "validate_bindings t = Inr u \<Longrightarrow> check_bindings (ti_prompt t) 0 (ti_bindings t) = Inr ()"
  by (auto simp: validate_bindings_def rbind_Inr_iff)

text \<open>Replacing every placeholder by itself.\<close>

lemma expand_placeholders:
  "check_bindings template offset bs = Inr u \<Longrightarrow> offset \<le> length template \<Longrightarrow>
     \<forall>b\<in>set bs. value (pb_name b) = pb_placeholder b \<Longrightarrow> expand template value offset bs = drop offset template"
proof (induction bs arbitrary: offset u)
  case (Cons b bs)
  from Cons.prems have b: "offset \<le> pb_start b" "pb_start b < pb_end b" "is_boundary template (pb_end b)"
    "check_bindings template (pb_end b) bs = Inr ()"
    "pb_placeholder b = take (pb_end b - pb_start b) (drop (pb_start b) template)"
    by (auto simp: rbind_Inr_iff str_get_Some)
  from Cons.IH [OF b(4) boundary_le [OF b(3)]] Cons.prems(3)
  have e: "expand template value (pb_end b) bs = drop (pb_end b) template" by simp
  let ?d = "drop offset template"
  have "?d = take (pb_start b - offset) ?d @ drop (pb_start b) template"
    using b(1) by (metis append_take_drop_id drop_drop le_add_diff_inverse2)
  moreover have "drop (pb_start b) template = pb_placeholder b @ drop (pb_end b) template"
    using b(2,5) by (metis append_take_drop_id drop_drop le_add_diff_inverse2 less_imp_le)
  ultimately show ?case using e Cons.prems(3) by simp
qed simp

text \<open>The loop of \<open>render_prompt\<close> succeeds exactly when every variable has a text that is not blank and the
  result fits.\<close>

lemma render_loop_Inr:
  "check_bindings template offset bs = Inr u \<Longrightarrow> is_boundary template offset \<Longrightarrow>
     \<forall>b\<in>set bs. \<exists>v. fmlookup vals (pb_name b) = Some v \<and> trim v \<noteq> [] \<Longrightarrow>
     length (prompt @ expand template (\<lambda>n. the (fmlookup vals n)) offset bs) \<le> 65536 \<Longrightarrow>
     render_loop template vals prompt offset bs = Inr (prompt @ expand template (\<lambda>n. the (fmlookup vals n)) offset bs)"
proof (induction bs arbitrary: offset prompt u)
  case Nil
  then have "str_get template offset (length template) = Some (drop offset template)"
    by (simp add: str_get_Some boundary_le)
  with Nil.prems show ?case by (simp add: ensure_def)
next
  case (Cons b bs)
  from Cons.prems(1) have b: "offset \<le> pb_start b" "is_boundary template (pb_start b)" "is_boundary template (pb_end b)"
    "check_bindings template (pb_end b) bs = Inr ()"
    by (auto simp: rbind_Inr_iff str_get_Some)
  have g: "str_get template offset (pb_start b) = Some (take (pb_start b - offset) (drop offset template))"
    using b Cons.prems(2) by (simp add: str_get_Some)
  from Cons.prems(3) obtain v where v: "fmlookup vals (pb_name b) = Some v" "trim v \<noteq> []" by auto
  let ?p = "prompt @ take (pb_start b - offset) (drop offset template) @ v"
  from Cons.prems(4) v have l: "length (?p @ expand template (\<lambda>n. the (fmlookup vals n)) (pb_end b) bs) \<le> 65536" by simp
  from Cons.prems(3) have n: "\<forall>b\<in>set bs. \<exists>v. fmlookup vals (pb_name b) = Some v \<and> trim v \<noteq> []" by simp
  from Cons.IH [OF b(4,3) n l] g v l show ?case by (simp add: ensure_def)
qed

definition supplies :: "task_input \<Rightarrow> (string, string) fmap \<Rightarrow> bool" where
  "supplies t vals \<longleftrightarrow> fset (fmdom vals) = pb_name ` set (ti_bindings t) \<and>
     list_all (\<lambda>b. trim (the (fmlookup vals (pb_name b))) \<noteq> []) (ti_bindings t)"

definition expanded :: "task_input \<Rightarrow> (string, string) fmap \<Rightarrow> string" where
  "expanded t vals = expand (ti_prompt t) (\<lambda>n. the (fmlookup vals n)) 0 (ti_bindings t)"

lemma supplies_iff:
  "supplies t vals \<longleftrightarrow> fBall (fmdom vals) (\<lambda>n. n \<in> set (map pb_name (ti_bindings t))) \<and>
     (\<forall>b\<in>set (ti_bindings t). \<exists>v. fmlookup vals (pb_name b) = Some v \<and> trim v \<noteq> [])"
  by (force simp: supplies_def list_all_iff fmdomI fmdom.rep_eq dom_def)

text \<open>C33: For a task whose bindings pass validation, rendering the prompt never slices a string off its
  character boundaries, and it succeeds exactly when the texts supplied are those of the task's variables,
  none of them is blank and the expanded prompt has at most 64 KiB; the result is then the prompt with every
  placeholder replaced.\<close>

theorem render_prompt_substitutes:
  assumes "validate_bindings t = Inr ()"
  shows "render_prompt t vals \<noteq> Inl Panic \<and>
    (render_prompt t vals = Inr out \<longleftrightarrow>
       supplies t vals \<and> length (expanded t vals) \<le> 64 * 1024 \<and> out = expanded t vals)"
proof -
  have c: "check_bindings (ti_prompt t) 0 (ti_bindings t) = Inr ()" by (rule validate_bindings_check [OF assms])
  note spec = render_loop_spec [OF c, of vals "[]", simplified]
  note succ = render_loop_Inr [OF c, of vals "[]", simplified]
  show ?thesis
    using spec succ by (auto simp: render_prompt_cases [OF assms] supplies_iff expanded_def)
qed

definition greeting_task :: task_input where
  "greeting_task = \<lparr>ti_name = ''greet'', ti_prompt = ''Say {x} and {y}!'', ti_kind = Manual,
     ti_bindings = [\<lparr>pb_name = ''x'', pb_placeholder = ''{x}'', pb_start = 4, pb_end = 7\<rparr>,
       \<lparr>pb_name = ''y'', pb_placeholder = ''{y}'', pb_start = 12, pb_end = 15\<rparr>],
     ti_agent = ''codex'', ti_agent_id = None, ti_project_id = ''p'',
     ti_workspace = \<lparr>wc_mode = Temporary, wc_path = [], wc_base_branch = []\<rparr>, ti_cleanup_worktree = True, ti_cron = [], ti_interval = None,
     ti_max_concurrent_runs = 1, ti_enabled = True, ti_yolo = True, ti_failure_notification = None\<rparr>"

definition greeting_values :: "(string, string) fmap" where
  "greeting_values = fmap_of_list [(''x'', ''hello''), (''y'', ''bye'')]"

lemma greeting_ok: "validate_bindings greeting_task = Inr ()" by code_simp

lemma greeting_supplies:
  "supplies greeting_task greeting_values \<and> length (expanded greeting_task greeting_values) \<le> 64 * 1024 \<and>
     expanded greeting_task greeting_values = ''Say hello and bye!''"
proof -
  have "trim ''hello'' \<noteq> []" "trim ''bye'' \<noteq> []" by code_simp+
  moreover have "expanded greeting_task greeting_values = ''Say hello and bye!''"
    by (simp add: expanded_def greeting_task_def greeting_values_def)
  ultimately show ?thesis
    by (simp add: supplies_def greeting_task_def greeting_values_def)
qed

theorem render_prompt_substitutes_witness:
  "render_prompt greeting_task greeting_values = Inr ''Say hello and bye!''"
  using render_prompt_substitutes [OF greeting_ok, of greeting_values "''Say hello and bye!''"] greeting_supplies by simp

section \<open>Quoted markers\<close>

text \<open>A line that opens a code fence of \<open>n\<close> marks and a line that closes it.\<close>

definition fence_marks :: "string \<Rightarrow> string \<Rightarrow> nat" where
  "fence_marks mark raw = length (takeWhile (\<lambda>c. c = mark) (chars (trim raw)))"

definition closes_fence :: "string \<Rightarrow> nat \<Rightarrow> string \<Rightarrow> bool" where
  "closes_fence mark n raw \<longleftrightarrow> n \<le> fence_marks mark raw \<and> trim (drop (fence_marks mark raw) (trim raw)) = []"

lemma review_line_inside:
  assumes "trim raw \<noteq> []" "\<not> closes_fence mark n raw"
  shows "review_line raw (Some (mark, n), b) = (Some (mark, n), False)"
  using assms by (auto simp: review_line_def closes_fence_def fence_marks_def Let_def)

lemma review_inside:
  "\<forall>l\<in>set ls. trim l \<noteq> [] \<and> \<not> closes_fence mark n l \<Longrightarrow>
     fold review_line ls (Some (mark, n), False) = (Some (mark, n), False)"
  by (induction ls) (simp_all add: review_line_inside)

lemma review_line_opens:
  assumes "mark = ''`'' \<or> mark = ''~''" "3 \<le> fence_marks mark raw"
  shows "review_line raw (None, b) = (Some (mark, fence_marks mark raw), False)"
proof -
  have c: "chars (trim raw) \<noteq> []" "hd (chars (trim raw)) = mark"
    using assms(2) by (cases "chars (trim raw)"; simp add: fence_marks_def split: if_splits)+
  have "trim raw \<noteq> FINISH_MARKER"
  proof
    assume "trim raw = FINISH_MARKER"
    moreover have "hd (chars FINISH_MARKER) = ''[''" by code_simp
    ultimately have "hd (chars (trim raw)) = ''[''" by simp
    with c(2) assms(1) show False by auto
  qed
  with assms c show ?thesis by (auto simp: review_line_def Let_def fence_marks_def)
qed

text \<open>A completion marker that the agent only quotes is not taken for its verdict: when the lines of an
  output that are not blank end with a code fence opened outside any fence and never closed, the review has not
  passed, whatever stands inside.\<close>

lemma quoted_marker_is_no_verdict:
  assumes "filter (\<lambda>l. trim l \<noteq> []) (str_lines out) = before @ opening # quoted"
    and "fst (fold review_line before (None, False)) = None"
    and "mark = ''`'' \<or> mark = ''~''" "3 \<le> fence_marks mark opening"
    and "list_all (\<lambda>l. \<not> closes_fence mark (fence_marks mark opening) l) quoted"
  shows "\<not> review_passed out"
proof -
  obtain b where b: "fold review_line before (None, False) = (None, b)"
    using assms(2) by (cases "fold review_line before (None, False)") simp
  have "\<forall>l\<in>set (filter (\<lambda>l. trim l \<noteq> []) (str_lines out)). trim l \<noteq> []" by simp
  then have "\<forall>l\<in>set quoted. trim l \<noteq> []" by (simp add: assms(1))
  with assms(5) have "fold review_line quoted (Some (mark, fence_marks mark opening), False) =
      (Some (mark, fence_marks mark opening), False)"
    by (intro review_inside) (auto simp: list_all_iff)
  then show ?thesis
    by (simp add: review_passed_def assms(1) b review_line_opens [OF assms(3,4)])
qed

end
