(* ===== verification/Auto_Journal.thy ===== *)
theory Auto_Journal
  imports Auto_Task
begin

text \<open>
  The journal of an automation run: \<open>crates/automations/src/model/run.rs\<close>,
  \<open>store/writer/mod.rs\<close>, \<open>store/runs.rs\<close> and \<open>store/history/read.rs\<close>. A journal is a
  file of one JSON record a line. \<open>serde_json\<close> is a parameter (\<open>to_vec\<close> and
  \<open>parse\<close>), the file system gives what an \<open>open\<close> returns, and \<open>flock\<close> tells
  whether a writer holds the file. Times are nanoseconds since the epoch.
\<close>

datatype history_error = Not_Found | Io_Error | Invalid_Json | Rejected string

section \<open>Runs and their events\<close>

datatype run_source = From_Schedule | From_User
datatype run_status = Preparing | Run_Running | Completed | Failed | Skipped | Interrupted
datatype run_output = Stdio | Stderr

definition terminal :: "run_status \<Rightarrow> bool" where
  "terminal s \<longleftrightarrow> \<not> (s = Preparing \<or> s = Run_Running)"

definition filename :: "run_output \<Rightarrow> string" where
  "filename f = (case f of Stdio \<Rightarrow> ''stdio'' | Stderr \<Rightarrow> ''stderr'')"

text \<open>\<open>AgentKind\<close> is the name of a kind of agent.\<close>

record run =
  rn_id :: string
  rn_task_id :: string
  rn_task_revision :: u64
  rn_task_name :: string
  rn_agent :: string
  rn_source :: run_source
  rn_variables :: "(string \<times> string) list option"
  rn_status :: run_status
  rn_started_at :: int
  rn_finished_at :: "int option"
  rn_workspace_path :: "string option"
  rn_branch :: "string option"
  rn_session_id :: "string option"
  rn_agent_pid :: "u32 option"
  rn_agent_command :: "string list option"
  rn_exit_code :: "int option"
  rn_message :: "string option"
  rn_preparation_ms :: "u64 option"
  rn_session_acquired_ms :: "u64 option"
  rn_duration_ms :: "u64 option"

datatype run_event =
    Started run task_input
  | Workspace string "string option" u64
  | Agent_Started u32 "string list"
  | Session string u64
  | Finished int run_status "int option" "string option" u64
  | Output_Truncated run_output u64

datatype stored_event =
    Stored_Started run task_input
  | Stored_Workspace string "string option" u64
  | Stored_Agent_Started u32 "string list"
  | Stored_Session string u64
  | Stored_Finished int run_status "int option" "string option" u64
  | Stored_Output_Truncated

record run_detail =
  rd_run :: run
  rd_configuration :: task_input
  rd_stdout_path :: string
  rd_stderr_path :: string

section \<open>Paths\<close>

definition check_component :: "string \<Rightarrow> (history_error, unit) result" where
  "check_component s = ensure (valid_component s) (Rejected ''automations.invalid_task_or_run_id'')"

definition run_path :: "string \<Rightarrow> string \<Rightarrow> string \<Rightarrow> (history_error, string) result" where
  "run_path root_dir task_id run_id =
     rbind (check_component task_id) (\<lambda>_.
     rbind (check_component run_id) (\<lambda>_.
     Inr (root_dir @ ''/runs/'' @ task_id @ ''/'' @ run_id)))"

definition run_events_path :: "string \<Rightarrow> string \<Rightarrow> string \<Rightarrow> (history_error, string) result" where
  "run_events_path root_dir task_id run_id =
     rbind (run_path root_dir task_id run_id) (\<lambda>p. Inr (p @ ''/events.jsonl''))"

definition run_output_path :: "string \<Rightarrow> string \<Rightarrow> string \<Rightarrow> run_output \<Rightarrow> (history_error, string) result" where
  "run_output_path root_dir task_id run_id f =
     rbind (run_path root_dir task_id run_id) (\<lambda>p. Inr (p @ ''/'' @ filename f))"

section \<open>The writer\<close>

text \<open>The bytes of the file and the failure the writer remembers. What the file system does with a line is
  \<open>Inr ()\<close>, all of it written and synchronized, or \<open>Inl (k, msg)\<close>, an error \<open>msg\<close>
  after \<open>k\<close> bytes.\<close>

record run_writer =
  rw_bytes :: string
  rw_failure :: "string option"

type_synonym persist = "(nat \<times> string, unit) result"

definition newline :: char where "newline = char_of (10 :: nat)"

definition append_with :: "(run_event \<Rightarrow> (history_error, string) result) \<Rightarrow> run_event \<Rightarrow> persist \<Rightarrow> run_writer
    \<Rightarrow> (history_error, unit) result \<times> run_writer" where
  "append_with to_vec event persist w =
     (case rw_failure w of
        Some e \<Rightarrow> (Inl (Rejected ''automations.run_record_previously_failed_to_write_appending_stopped''), w)
      | None \<Rightarrow> try_in (to_vec event) w (\<lambda>json.
          let line = json @ [newline]
          in case persist of
               Inr _ \<Rightarrow> (Inr (), w\<lparr>rw_bytes := rw_bytes w @ line\<rparr>)
             | Inl (k, msg) \<Rightarrow>
                 (Inl Io_Error, w\<lparr>rw_bytes := rw_bytes w @ take k line, rw_failure := Some msg\<rparr>)))"

section \<open>Reading a journal\<close>

text \<open>What an open file holds, and whether its writer has the exclusive lock.\<close>

record run_file =
  rf_regular :: bool
  rf_bytes :: string
  rf_writer :: bool

definition MAX_RUN_EVENTS_BYTES :: nat where "MAX_RUN_EVENTS_BYTES = 1024 * 1024"

text \<open>\<open>split_inclusive\<close> at the newline.\<close>

fun split_inclusive :: "string \<Rightarrow> string list" where
  "split_inclusive [] = []"
| "split_inclusive (c # cs) =
     (if c = newline then [c] # split_inclusive cs
      else (case split_inclusive cs of [] \<Rightarrow> [[c]] | l # ls \<Rightarrow> (c # l) # ls))"

definition ends_line :: "string \<Rightarrow> bool" where
  "ends_line l \<longleftrightarrow> l \<noteq> [] \<and> last l = newline"

definition apply_event :: "stored_event \<Rightarrow> run \<Rightarrow> run" where
  "apply_event e r =
     (case e of
        Stored_Workspace path branch ms \<Rightarrow>
          r\<lparr>rn_workspace_path := Some path, rn_branch := branch, rn_preparation_ms := Some ms\<rparr>
      | Stored_Agent_Started pid command \<Rightarrow>
          r\<lparr>rn_agent_pid := Some pid, rn_agent_command := Some command, rn_status := Run_Running\<rparr>
      | Stored_Session session ms \<Rightarrow> r\<lparr>rn_session_id := Some session, rn_session_acquired_ms := Some ms\<rparr>
      | Stored_Finished at st code message ms \<Rightarrow>
          r\<lparr>rn_finished_at := Some at, rn_status := st, rn_exit_code := code, rn_message := message,
            rn_duration_ms := Some ms\<rparr>
      | Stored_Output_Truncated \<Rightarrow> r
      | Stored_Started _ _ \<Rightarrow> r)"

fun read_events :: "(string \<Rightarrow> (history_error, stored_event) result) \<Rightarrow> string list \<Rightarrow> (run \<times> task_input) option
    \<Rightarrow> (history_error, (run \<times> task_input) option) result" where
  "read_events parse [] acc = Inr acc"
| "read_events parse (line # ls) acc =
     (if \<not> ends_line line then Inr acc
      else rbind (parse line) (\<lambda>event.
        case event of
          Stored_Started r input \<Rightarrow>
            rbind (ensure (acc = None) (Rejected ''automations.run_record_contains_duplicate_start_events'')) (\<lambda>_.
            read_events parse ls (Some (r, input)))
        | _ \<Rightarrow> read_events parse ls (map_option (\<lambda>(r, input). (apply_event event r, input)) acc)))"

definition settle_status :: "bool \<Rightarrow> run \<Rightarrow> run" where
  "settle_status live r =
     (if \<not> terminal (rn_status r) \<and> \<not> live
      then r\<lparr>rn_status := Interrupted,
             rn_message := Some ''automations.execution_process_ended_without_a_completion_record''\<rparr>
      else r)"

definition read_run_detail :: "(string \<Rightarrow> (history_error, stored_event) result) \<Rightarrow> string \<Rightarrow> string \<Rightarrow> string
    \<Rightarrow> (history_error, run_file) result \<Rightarrow> (history_error, run_detail option) result" where
  "read_run_detail parse root_dir task_id run_id opened =
     rbind (run_events_path root_dir task_id run_id) (\<lambda>_.
     rbind opened (\<lambda>file.
     let live = rf_writer file in
     rbind (ensure (length (rf_bytes file) \<le> MAX_RUN_EVENTS_BYTES)
       (Rejected ''automations.run_record_exceeds_size_limit'')) (\<lambda>_.
     rbind (ensure (rf_regular file) (Rejected ''automations.run_record_is_not_a_regular_file'')) (\<lambda>_.
     let bytes = take (MAX_RUN_EVENTS_BYTES + 1) (rf_bytes file) in
     rbind (ensure (length bytes \<le> MAX_RUN_EVENTS_BYTES)
       (Rejected ''automations.run_record_exceeds_size_limit'')) (\<lambda>_.
     rbind (read_events parse (split_inclusive bytes) None) (\<lambda>acc.
     case acc of
       None \<Rightarrow> Inr None
     | Some (r, input) \<Rightarrow>
         rbind (ensure (rn_id r = run_id \<and> rn_task_id r = task_id) (Rejected ''automations.run_file_id_mismatch'')) (\<lambda>_.
         rbind (run_output_path root_dir task_id run_id Stdio) (\<lambda>out.
         rbind (run_output_path root_dir task_id run_id Stderr) (\<lambda>err.
         Inr (Some \<lparr>rd_run = settle_status live r, rd_configuration = input,
           rd_stdout_path = out, rd_stderr_path = err\<rparr>))))))))))"

definition read_run :: "(string \<Rightarrow> (history_error, stored_event) result) \<Rightarrow> string \<Rightarrow> string \<Rightarrow> string
    \<Rightarrow> (history_error, run_file) result \<Rightarrow> (history_error, run option) result" where
  "read_run parse root_dir task_id run_id opened =
     rbind (read_run_detail parse root_dir task_id run_id opened) (\<lambda>d. Inr (map_option rd_run d))"

section \<open>Lines\<close>

lemma split_inclusive_line:
  "newline \<notin> set l \<Longrightarrow> split_inclusive (l @ newline # bs) = (l @ [newline]) # split_inclusive bs"
  by (induction l) auto

lemma split_inclusive_open:
  "newline \<notin> set l \<Longrightarrow> split_inclusive l = (if l = [] then [] else [l])"
  by (induction l) auto

lemma split_inclusive_lines:
  "\<forall>l\<in>set ls. newline \<notin> set l \<Longrightarrow> newline \<notin> set rest \<Longrightarrow>
     split_inclusive (concat (map (\<lambda>l. l @ [newline]) ls) @ rest) =
       map (\<lambda>l. l @ [newline]) ls @ (if rest = [] then [] else [rest])"
  by (induction ls) (simp_all add: split_inclusive_line split_inclusive_open)

lemma ends_line_simps [simp]: "ends_line (l @ [newline])"
  by (simp add: ends_line_def)

lemma not_ends_line: "newline \<notin> set l \<Longrightarrow> \<not> ends_line l"
  by (cases "l = []") (auto simp: ends_line_def dest: last_in_set)

lemma apply_event_keeps [simp]:
  "rn_id (apply_event e r) = rn_id r" "rn_task_id (apply_event e r) = rn_task_id r"
  "rn_started_at (apply_event e r) = rn_started_at r"
  by (cases e; simp add: apply_event_def)+

lemma settle_status_keeps [simp]:
  "rn_id (settle_status live r) = rn_id r" "rn_task_id (settle_status live r) = rn_task_id r"
  "rn_started_at (settle_status live r) = rn_started_at r"
  by (simp_all add: settle_status_def)

lemma fold_apply_keeps [simp]:
  "rn_id (fold apply_event es r) = rn_id r" "rn_task_id (fold apply_event es r) = rn_task_id r"
  "rn_started_at (fold apply_event es r) = rn_started_at r"
  by (induction es arbitrary: r) simp_all

section \<open>Torn writes\<close>

text \<open>A writer that appends events one after another: the events whose append returned \<open>Ok\<close> and the
  final state of the file.\<close>

fun append_all :: "(run_event \<Rightarrow> (history_error, string) result) \<Rightarrow> (run_event \<times> persist) list \<Rightarrow> run_writer
    \<Rightarrow> run_event list \<times> run_writer" where
  "append_all to_vec [] w = ([], w)"
| "append_all to_vec ((e, p) # evs) w =
     (case append_with to_vec e p w of (res, w') \<Rightarrow>
      case append_all to_vec evs w' of (acks, w'') \<Rightarrow> (if is_ok res then e # acks else acks, w''))"

definition stored_of :: "run_event \<Rightarrow> stored_event" where
  "stored_of e = (case e of Started r input \<Rightarrow> Stored_Started r input
     | Workspace p b ms \<Rightarrow> Stored_Workspace p b ms | Agent_Started pid c \<Rightarrow> Stored_Agent_Started pid c
     | Session s ms \<Rightarrow> Stored_Session s ms | Finished at st c m ms \<Rightarrow> Stored_Finished at st c m ms
     | Output_Truncated f n \<Rightarrow> Stored_Output_Truncated)"

definition starts :: "run_event \<Rightarrow> bool" where
  "starts e = (case e of Started _ _ \<Rightarrow> True | _ \<Rightarrow> False)"

text \<open>What the journal relies on of \<open>serde_json\<close>: an event is written without a newline and read back.\<close>

definition codec_ok :: "(run_event \<Rightarrow> (history_error, string) result)
    \<Rightarrow> (string \<Rightarrow> (history_error, stored_event) result) \<Rightarrow> run_event \<Rightarrow> bool" where
  "codec_ok to_vec parse e =
     (case to_vec e of Inl _ \<Rightarrow> False
      | Inr j \<Rightarrow> newline \<notin> set j \<and> parse (j @ [newline]) = Inr (stored_of e))"

definition json_of :: "(run_event \<Rightarrow> (history_error, string) result) \<Rightarrow> run_event \<Rightarrow> string" where
  "json_of to_vec e = (case to_vec e of Inl _ \<Rightarrow> [] | Inr j \<Rightarrow> j)"

lemma codec_okD:
  "codec_ok to_vec parse e \<Longrightarrow> to_vec e = Inr (json_of to_vec e) \<and> newline \<notin> set (json_of to_vec e) \<and>
     parse (json_of to_vec e @ [newline]) = Inr (stored_of e)"
  by (simp add: codec_ok_def json_of_def split: sum.splits)

lemma append_all_failed: "rw_failure w = Some msg \<Longrightarrow> append_all to_vec evs w = ([], w)"
proof (induction evs)
  case (Cons a evs)
  then show ?case by (cases a) (simp add: append_with_def)
qed simp

text \<open>The file holds whole lines, those of the acknowledged events first, and at most a part of one more.\<close>

lemma append_all_bytes:
  "list_all (codec_ok to_vec parse) (map fst evs) \<Longrightarrow> rw_failure w = None \<Longrightarrow> append_all to_vec evs w = (acks, w') \<Longrightarrow>
     \<exists>es rest. prefix acks es \<and> prefix es (map fst evs) \<and> length es \<le> length acks + 1 \<and> newline \<notin> set rest \<and>
       rw_bytes w' = rw_bytes w @ concat (map (\<lambda>l. l @ [newline]) (map (json_of to_vec) es)) @ rest"
proof (induction evs arbitrary: w acks w')
  case Nil
  then show ?case by (intro exI [of _ "[]"]) simp
next
  case (Cons a evs)
  obtain e p where a: "a = (e, p)" by (cases a)
  let ?j = "json_of to_vec e"
  from Cons.prems(1) a have j: "to_vec e = Inr ?j" "newline \<notin> set ?j" using codec_okD [of to_vec parse e] by auto
  show ?case
  proof (cases p)
    case (Inr u)
    let ?w = "w\<lparr>rw_bytes := rw_bytes w @ ?j @ [newline]\<rparr>"
    obtain acks0 where r: "append_all to_vec evs ?w = (acks0, w')" "acks = e # acks0"
      using Cons.prems(2,3) a Inr j(1) by (auto simp: append_with_def split: prod.splits)
    from Cons.IH [OF _ _ r(1)] Cons.prems(1,2) obtain es rest where
      "prefix acks0 es" "prefix es (map fst evs)" "length es \<le> length acks0 + 1" "newline \<notin> set rest"
      "rw_bytes w' = rw_bytes ?w @ concat (map (\<lambda>l. l @ [newline]) (map (json_of to_vec) es)) @ rest"
      by auto
    then show ?thesis using r(2) a by (intro exI [of _ "e # es"] exI [of _ rest]) simp
  next
    case (Inl f)
    obtain k msg where f: "f = (k, msg)" by (cases f)
    let ?w = "w\<lparr>rw_bytes := rw_bytes w @ take k (?j @ [newline]), rw_failure := Some msg\<rparr>"
    have "append_all to_vec evs ?w = ([], ?w)" by (rule append_all_failed) simp
    then have r: "acks = []" "w' = ?w"
      using Cons.prems(2,3) a Inl f j(1) by (auto simp: append_with_def)
    show ?thesis
    proof (cases "length ?j < k")
      case True
      then show ?thesis using r a by (intro exI [of _ "[e]"] exI [of _ "[]"]) simp
    next
      case False
      have "newline \<notin> set (take k ?j)" using j(2) by (auto dest: in_set_takeD)
      with False show ?thesis using r by (intro exI [of _ "[]"] exI [of _ "take k ?j"]) simp
    qed
  qed
qed

lemma read_events_appended:
  "list_all (codec_ok to_vec parse) es \<Longrightarrow> list_all (\<lambda>e. \<not> starts e) es \<Longrightarrow> \<forall>l\<in>set rs. \<not> ends_line l \<Longrightarrow>
     read_events parse (map (\<lambda>l. l @ [newline]) (map (json_of to_vec) es) @ rs) (Some (r, input)) =
       Inr (Some (fold apply_event (map stored_of es) r, input))"
proof (induction es arbitrary: r)
  case Nil
  then show ?case by (cases rs) simp_all
next
  case (Cons e es)
  from Cons.prems(1) have p: "parse (json_of to_vec e @ [newline]) = Inr (stored_of e)"
    using codec_okD [of to_vec parse e] by simp
  from Cons.prems(2) have "\<forall>x y. stored_of e \<noteq> Stored_Started x y"
    by (cases e) (simp_all add: stored_of_def starts_def)
  then have "read_events parse (map (\<lambda>l. l @ [newline]) (map (json_of to_vec) (e # es)) @ rs) (Some (r, input)) =
      read_events parse (map (\<lambda>l. l @ [newline]) (map (json_of to_vec) es) @ rs)
        (Some (apply_event (stored_of e) r, input))"
    by (cases "stored_of e") (simp_all add: p)
  also have "\<dots> = Inr (Some (fold apply_event (map stored_of es) (apply_event (stored_of e) r), input))"
    using Cons.prems by (intro Cons.IH) simp_all
  finally show ?case by simp
qed

text \<open>C5: A run record survives a writer that is killed or runs out of space in the middle of a record: whatever
  each append did to the file, reading the journal gives the started run with exactly the acknowledged events
  applied, in order, and at most one more, written whole before its error. A run whose writer is gone without a
  completion record reads as interrupted.\<close>

theorem journal_survives_torn_writes:
  assumes "list_all (codec_ok to_vec parse) (Started r input # map fst evs)"
    and "list_all (\<lambda>(e, p). \<not> starts e) evs"
    and "append_all to_vec ((Started r input, Inr ()) # evs) \<lparr>rw_bytes = [], rw_failure = None\<rparr> = (acks, w)"
    and "length (rw_bytes w) \<le> MAX_RUN_EVENTS_BYTES"
    and "valid_component (rn_task_id r)" "valid_component (rn_id r)"
  shows "\<exists>es. prefix (tl acks) es \<and> prefix es (map fst evs) \<and> length es \<le> length (tl acks) + 1 \<and>
    read_run parse root_dir (rn_task_id r) (rn_id r) (Inr \<lparr>rf_regular = True, rf_bytes = rw_bytes w, rf_writer = live\<rparr>) =
      Inr (Some (settle_status live (fold apply_event (map stored_of es) r)))"
proof -
  let ?line = "\<lambda>e. json_of to_vec e @ [newline]"
  let ?e0 = "Started r input"
  from assms(1) have j0: "to_vec ?e0 = Inr (json_of to_vec ?e0)" "newline \<notin> set (json_of to_vec ?e0)"
    "parse (?line ?e0) = Inr (Stored_Started r input)"
    using codec_okD [of to_vec parse ?e0] by (auto simp: stored_of_def)
  let ?w0 = "\<lparr>rw_bytes = ?line ?e0, rw_failure = None\<rparr>"
  have a: "append_all to_vec evs ?w0 = (tl acks, w)"
    using assms(3) j0(1) by (auto simp: append_with_def split: prod.splits)
  from assms(1) have c: "list_all (codec_ok to_vec parse) (map fst evs)" by simp
  from append_all_bytes [OF c _ a] obtain es rest where es: "prefix (tl acks) es" "prefix es (map fst evs)"
    "length es \<le> length (tl acks) + 1" "newline \<notin> set rest"
    "rw_bytes w = ?line ?e0 @ concat (map (\<lambda>l. l @ [newline]) (map (json_of to_vec) es)) @ rest" by auto
  have sub: "set es \<subseteq> set (map fst evs)" using set_mono_prefix [OF es(2)] .
  have ce: "list_all (codec_ok to_vec parse) es" "list_all (\<lambda>e. \<not> starts e) es"
    using c assms(2) sub by (fastforce simp: list_all_iff)+
  have jn: "\<forall>e\<in>set es. newline \<notin> set (json_of to_vec e)"
    using ce(1) codec_okD [of to_vec parse] by (simp add: list_all_iff)
  let ?tl = "if rest = [] then [] else [rest]"
  have "split_inclusive (rw_bytes w) = ?line ?e0 # map (\<lambda>l. l @ [newline]) (map (json_of to_vec) es) @ ?tl"
    using split_inclusive_lines [of "json_of to_vec ?e0 # map (json_of to_vec) es" rest] es(4) j0(2)
    by (simp add: es(5) jn)
  moreover have "\<forall>l\<in>set ?tl. \<not> ends_line l" using es(4) by (simp add: not_ends_line)
  ultimately have "read_events parse (split_inclusive (rw_bytes w)) None =
      Inr (Some (fold apply_event (map stored_of es) r, input))"
    using read_events_appended [OF ce, of ?tl r input] j0(3) by simp
  moreover have "take (Suc MAX_RUN_EVENTS_BYTES) (rw_bytes w) = rw_bytes w" using assms(4) by simp
  ultimately have "read_run parse root_dir (rn_task_id r) (rn_id r)
        (Inr \<lparr>rf_regular = True, rf_bytes = rw_bytes w, rf_writer = live\<rparr>) =
      Inr (Some (settle_status live (fold apply_event (map stored_of es) r)))"
    using assms(4-6)
    by (simp add: read_run_def read_run_detail_def run_events_path_def run_output_path_def run_path_def
        check_component_def ensure_def)
  with es(1-3) show ?thesis by blast
qed

text \<open>A run whose second append is torn after two bytes.\<close>

definition sample_run :: run where
  "sample_run = \<lparr>rn_id = ''r1'', rn_task_id = ''t1'', rn_task_revision = 1, rn_task_name = ''greet'',
     rn_agent = ''codex'', rn_source = From_User, rn_variables = None, rn_status = Preparing, rn_started_at = 7,
     rn_finished_at = None, rn_workspace_path = None, rn_branch = None, rn_session_id = None, rn_agent_pid = None,
     rn_agent_command = None, rn_exit_code = None, rn_message = None, rn_preparation_ms = None,
     rn_session_acquired_ms = None, rn_duration_ms = None\<rparr>"

definition sample_to_vec :: "run_event \<Rightarrow> (history_error, string) result" where
  "sample_to_vec e = (case e of Started _ _ \<Rightarrow> Inr ''start'' | Workspace _ _ _ \<Rightarrow> Inr ''workspace''
     | Finished _ _ _ _ _ \<Rightarrow> Inr ''finish'' | _ \<Rightarrow> Inl Invalid_Json)"

definition sample_parse :: "string \<Rightarrow> (history_error, stored_event) result" where
  "sample_parse l = (if l = ''start'' @ [newline] then Inr (Stored_Started sample_run greeting_task)
     else if l = ''workspace'' @ [newline] then Inr (Stored_Workspace ''/w'' None 5)
     else if l = ''finish'' @ [newline] then Inr (Stored_Finished 9 Completed None None 2) else Inl Invalid_Json)"

definition sample_appends :: "(run_event \<times> persist) list" where
  "sample_appends = [(Workspace ''/w'' None 5, Inr ()), (Finished 9 Completed None None 2, Inl (2, ''ENOSPC'')),
     (Finished 9 Completed None None 2, Inr ())]"

theorem journal_survives_torn_writes_witness:
  "\<exists>es. prefix [Workspace ''/w'' None 5] es \<and> prefix es (map fst sample_appends) \<and> length es \<le> 2 \<and>
    read_run sample_parse ''/s'' ''t1'' ''r1''
      (Inr \<lparr>rf_regular = True, rf_bytes = ''start'' @ [newline] @ ''workspace'' @ [newline] @ ''fi'', rf_writer = False\<rparr>) =
      Inr (Some (settle_status False (fold apply_event (map stored_of es) sample_run)))"
proof -
  let ?e0 = "Started sample_run greeting_task"
  let ?w = "\<lparr>rw_bytes = ''start'' @ [newline] @ ''workspace'' @ [newline] @ ''fi'', rw_failure = Some ''ENOSPC''\<rparr>"
  have n: "newline = CHR 0x0A" by code_simp
  have c: "list_all (codec_ok sample_to_vec sample_parse) (?e0 # map fst sample_appends)"
    by (simp add: sample_appends_def codec_ok_def sample_to_vec_def sample_parse_def stored_of_def n)
  have s: "list_all (\<lambda>(e, p). \<not> starts e) sample_appends" by (simp add: sample_appends_def starts_def)
  have a: "append_all sample_to_vec ((?e0, Inr ()) # sample_appends) \<lparr>rw_bytes = [], rw_failure = None\<rparr> =
      ([?e0, Workspace ''/w'' None 5], ?w)"
    by (simp add: sample_appends_def append_with_def sample_to_vec_def eval_nat_numeral)
  have l: "length (rw_bytes ?w) \<le> MAX_RUN_EVENTS_BYTES" by (simp add: MAX_RUN_EVENTS_BYTES_def)
  have v: "valid_component (rn_task_id sample_run)" "valid_component (rn_id sample_run)" by code_simp+
  from journal_survives_torn_writes [OF c s a l v, of "''/s''" False]
  have "\<exists>es. prefix [Workspace ''/w'' None 5] es \<and> prefix es (map fst sample_appends) \<and> length es \<le> 1 + 1 \<and>
      read_run sample_parse ''/s'' (rn_task_id sample_run) (rn_id sample_run)
        (Inr \<lparr>rf_regular = True, rf_bytes = rw_bytes ?w, rf_writer = False\<rparr>) =
      Inr (Some (settle_status False (fold apply_event (map stored_of es) sample_run)))"
    by (simp only: list.sel list.size add_0 One_nat_def)
  moreover have "rn_task_id sample_run = ''t1''" "rn_id sample_run = ''r1''" by (simp_all add: sample_run_def)
  ultimately show ?thesis by (simp only: run_writer.simps one_add_one)
qed

end
