(* ===== verification/Auto_History.thy ===== *)
theory Auto_History
  imports Auto_Journal "HOL-Library.Char_ord" "HOL-Library.List_Lexorder" "HOL-Library.Product_Lexorder"
    "HOL-Library.Multiset"
begin

text \<open>
  The history of an automation task: \<open>crates/automations/src/store/history/{cursor,order,prune}.rs\<close>,
  \<open>Store::runs\<close> of \<open>read.rs\<close> and \<open>AutomationQuery::runs\<close> of \<open>query.rs\<close>. The
  directory of a task is the list of its entries in the order \<open>read_dir\<close> gives them. The two JSON
  decoders and the RFC 3339 functions of chrono are parameters. Only \<open>EWOULDBLOCK\<close> fails \<open>flock\<close>.
\<close>

datatype file_type = Directory | Symlink | Other_File

record dir_entry =
  de_name :: string
  de_type :: "(history_error, file_type) result"
  de_events :: "(history_error, run_file) result"

record task_dir =
  td_entries :: "dir_entry list"
  td_active :: "string list"

record started_event =
  se_kind :: string
  se_id :: string
  se_task_id :: string
  se_started_at :: int

type_synonym header_parser = "string \<Rightarrow> (history_error, started_event) result"

section \<open>Cursors\<close>

record run_cursor =
  cu_started_at :: int
  cu_id :: string

definition run_cursor_of :: "run \<Rightarrow> run_cursor" where
  "run_cursor_of r = \<lparr>cu_started_at = rn_started_at r, cu_id = rn_id r\<rparr>"

definition cursor_to_string :: "(int \<Rightarrow> string) \<Rightarrow> run_cursor \<Rightarrow> string" where
  "cursor_to_string to_rfc3339 c = to_rfc3339 (cu_started_at c) @ ''/'' @ cu_id c"

definition cursor_error :: history_error where
  "cursor_error = Rejected ''automations.invalid_run_pagination_cursor''"

definition cursor_from_str :: "(string \<Rightarrow> int option) \<Rightarrow> string \<Rightarrow> (history_error, run_cursor) result" where
  "cursor_from_str parse_time s =
     rbind (ensure (length s \<le> 256) cursor_error) (\<lambda>_.
     rbind (ok_or (split_once CHR ''/'' s) cursor_error) (\<lambda>(time, rid).
     rbind (ensure (valid_component rid) cursor_error) (\<lambda>_.
     rbind (ok_or (parse_time time) cursor_error) (\<lambda>t.
     Inr \<lparr>cu_started_at = t, cu_id = rid\<rparr>))))"

section \<open>The order of the history\<close>

text \<open>\<open>read_until(b'\n')\<close>.\<close>

fun read_until :: "string \<Rightarrow> string" where
  "read_until [] = []"
| "read_until (c # cs) = (if c = newline then [c] else c # read_until cs)"

definition run_started_at :: "header_parser \<Rightarrow> string \<Rightarrow> string \<Rightarrow> string \<Rightarrow> (history_error, run_file) result
    \<Rightarrow> (history_error, int option) result" where
  "run_started_at parse_header root_dir task_id run_id opened =
     rbind (run_events_path root_dir task_id run_id) (\<lambda>_.
     rbind opened (\<lambda>file.
     rbind (ensure (rf_regular file) (Rejected ''automations.run_record_is_not_a_regular_file'')) (\<lambda>_.
     let line = read_until (take (MAX_RUN_EVENTS_BYTES + 1) (rf_bytes file)) in
     rbind (ensure (length line \<le> MAX_RUN_EVENTS_BYTES) (Rejected ''automations.run_record_exceeds_size_limit'')) (\<lambda>_.
     if \<not> ends_line line then Inr None
     else rbind (parse_header line) (\<lambda>event.
          rbind (ensure (se_kind event = ''started'') (Rejected ''automations.run_record_is_missing_a_start_event'')) (\<lambda>_.
          rbind (ensure (se_id event = run_id \<and> se_task_id event = task_id)
            (Rejected ''automations.run_file_id_mismatch'')) (\<lambda>_.
          Inr (Some (se_started_at event)))))))))"

text \<open>The callback \<open>on_error\<close> acts on a state of its own and may stop the scan.\<close>

type_synonym 's on_error = "string \<Rightarrow> history_error \<Rightarrow> 's \<Rightarrow> (history_error, unit) result \<times> 's"

fun collect_runs :: "header_parser \<Rightarrow> string \<Rightarrow> string \<Rightarrow> 's on_error \<Rightarrow> (history_error, dir_entry) result list
    \<Rightarrow> (int \<times> string) list \<Rightarrow> 's \<Rightarrow> (history_error, (int \<times> string) list) result \<times> 's" where
  "collect_runs ph root_dir task_id on_error [] runs s = (Inr runs, s)"
| "collect_runs ph root_dir task_id on_error (Inl e # es) runs s = (Inl e, s)"
| "collect_runs ph root_dir task_id on_error (Inr de # es) runs s =
     (let report = (\<lambda>e. case on_error (de_name de) e s of
            (Inl e', s') \<Rightarrow> (Inl e', s')
          | (Inr _, s') \<Rightarrow> collect_runs ph root_dir task_id on_error es runs s')
      in case de_type de of
           Inl e \<Rightarrow> if e = Not_Found then collect_runs ph root_dir task_id on_error es runs s else report e
         | Inr ft \<Rightarrow>
             if ft \<noteq> Directory \<or> \<not> valid_component (de_name de)
             then collect_runs ph root_dir task_id on_error es runs s
             else (case run_started_at ph root_dir task_id (de_name de) (de_events de) of
                 Inr (Some t) \<Rightarrow> collect_runs ph root_dir task_id on_error es (runs @ [(t, de_name de)]) s
               | Inr None \<Rightarrow> collect_runs ph root_dir task_id on_error es runs s
               | Inl e \<Rightarrow> if e = Not_Found then collect_runs ph root_dir task_id on_error es runs s else report e))"

type_synonym listing = "(history_error, (history_error, dir_entry) result list) result"

definition run_ids_with_errors :: "header_parser \<Rightarrow> (string \<Rightarrow> int option) \<Rightarrow> string \<Rightarrow> listing \<Rightarrow> string
    \<Rightarrow> string option \<Rightarrow> 's on_error \<Rightarrow> 's \<Rightarrow> (history_error, string list) result \<times> 's" where
  "run_ids_with_errors ph parse_time root_dir listing task_id before on_error s =
     try_in (check_component task_id) s (\<lambda>_.
     try_in (case before of None \<Rightarrow> Inr None
             | Some c \<Rightarrow> rbind (cursor_from_str parse_time c) (\<lambda>c. Inr (Some c))) s (\<lambda>cursor.
     try_in (case listing of Inl e \<Rightarrow> (if e = Not_Found then Inr [] else Inl e) | Inr es \<Rightarrow> Inr es) s (\<lambda>entries.
     case collect_runs ph root_dir task_id on_error entries [] s of
       (Inl e, s') \<Rightarrow> (Inl e, s')
     | (Inr runs, s') \<Rightarrow>
         let runs = rev (sort runs);
             runs = (case cursor of None \<Rightarrow> runs
               | Some c \<Rightarrow> filter (\<lambda>r. r < (cu_started_at c, cu_id c)) runs)
         in (Inr (map snd runs), s'))))"

definition run_ids :: "header_parser \<Rightarrow> (string \<Rightarrow> int option) \<Rightarrow> string \<Rightarrow> listing \<Rightarrow> string \<Rightarrow> string option
    \<Rightarrow> (history_error, string list) result" where
  "run_ids ph parse_time root_dir listing task_id before =
     fst (run_ids_with_errors ph parse_time root_dir listing task_id before (\<lambda>_ e s. (Inl e, s)) ())"

section \<open>Pages of the history\<close>

type_synonym event_parser = "string \<Rightarrow> (history_error, stored_event) result"

definition listing_of :: "task_dir \<Rightarrow> listing" where
  "listing_of d = Inr (map Inr (td_entries d))"

definition open_run :: "task_dir \<Rightarrow> string \<Rightarrow> (history_error, run_file) result" where
  "open_run d rid = (case find (\<lambda>e. de_name e = rid) (td_entries d) of None \<Rightarrow> Inl Not_Found | Some e \<Rightarrow> de_events e)"

text \<open>The loop of \<open>Store::runs\<close>.\<close>

fun take_runs :: "(string \<Rightarrow> (history_error, run option) result) \<Rightarrow> nat \<Rightarrow> string list \<Rightarrow> run list
    \<Rightarrow> (history_error, run list) result" where
  "take_runs read limit [] runs = Inr runs"
| "take_runs read limit (rid # ids) runs =
     (case read rid of
        Inr (Some r) \<Rightarrow> if min limit 500 \<le> length (runs @ [r]) then Inr (runs @ [r]) else take_runs read limit ids (runs @ [r])
      | Inr None \<Rightarrow> take_runs read limit ids runs
      | Inl e \<Rightarrow> if e = Not_Found then take_runs read limit ids runs else Inl e)"

definition store_runs :: "header_parser \<Rightarrow> event_parser \<Rightarrow> (string \<Rightarrow> int option) \<Rightarrow> string \<Rightarrow> task_dir \<Rightarrow> string
    \<Rightarrow> string option \<Rightarrow> nat \<Rightarrow> (history_error, run list) result" where
  "store_runs ph parse parse_time root_dir d task_id before limit =
     (if limit = 0 then Inr []
      else rbind (run_ids ph parse_time root_dir (listing_of d) task_id before) (\<lambda>ids.
        take_runs (\<lambda>rid. read_run parse root_dir task_id rid (open_run d rid)) limit ids []))"

text \<open>The loop of \<open>AutomationQuery::runs\<close>, which reads one run more than the page holds.\<close>

fun page_items :: "(string \<Rightarrow> (history_error, run_detail option) result) \<Rightarrow> nat \<Rightarrow> string list \<Rightarrow> run_detail list
    \<Rightarrow> (history_error, run_detail list) result" where
  "page_items read limit [] items = Inr items"
| "page_items read limit (rid # ids) items =
     (case read rid of
        Inr (Some r) \<Rightarrow> if limit < length (items @ [r]) then Inr (items @ [r]) else page_items read limit ids (items @ [r])
      | Inr None \<Rightarrow> page_items read limit ids items
      | Inl e \<Rightarrow> if e = Not_Found then page_items read limit ids items else Inl e)"

record run_page =
  pg_items :: "run_detail list"
  pg_next_cursor :: "string option"

definition query_runs :: "header_parser \<Rightarrow> event_parser \<Rightarrow> (string \<Rightarrow> int option) \<Rightarrow> (int \<Rightarrow> string) \<Rightarrow> string
    \<Rightarrow> (string \<Rightarrow> (history_error, 't) result) \<Rightarrow> task_dir \<Rightarrow> string \<Rightarrow> string option \<Rightarrow> nat
    \<Rightarrow> (history_error, run_page) result" where
  "query_runs ph parse parse_time to_rfc3339 root_dir get_task d task_id before limit =
     rbind (ensure (1 \<le> limit \<and> limit \<le> 500) (Rejected ''limit must be between 1 and 500'')) (\<lambda>_.
     rbind (get_task task_id) (\<lambda>_.
     rbind (run_ids ph parse_time root_dir (listing_of d) task_id before) (\<lambda>ids.
     rbind (page_items (\<lambda>rid. read_run_detail parse root_dir task_id rid (open_run d rid)) limit ids []) (\<lambda>items.
     Inr (if limit < length items
          then let items = butlast items
               in \<lparr>pg_items = items,
                   pg_next_cursor = (if items = [] then None
                     else Some (cursor_to_string to_rfc3339 (run_cursor_of (rd_run (last items)))))\<rparr>
          else \<lparr>pg_items = items, pg_next_cursor = None\<rparr>)))))"

section \<open>Pruning\<close>

definition lock_inactive_run :: "string \<Rightarrow> string \<Rightarrow> string \<Rightarrow> task_dir \<Rightarrow> (history_error, bool) result" where
  "lock_inactive_run root_dir task_id run_id d =
     rbind (run_events_path root_dir task_id run_id) (\<lambda>_.
     case open_run d run_id of
       Inl e \<Rightarrow> if e = Not_Found then Inr False else Inl e
     | Inr file \<Rightarrow> Inr (rf_regular file \<and> \<not> rf_writer file))"

text \<open>The faults of the file system: the link below \<open>.active\<close> cannot be removed, or the removal of a
  directory stops with an error, after which opening its journal gives the named result.\<close>

record fs_faults =
  ff_active :: "string \<Rightarrow> bool"
  ff_dir :: "string \<Rightarrow> (history_error, run_file) result option"

definition remove_locked_run :: "fs_faults \<Rightarrow> string \<Rightarrow> string \<Rightarrow> string \<Rightarrow> task_dir
    \<Rightarrow> (history_error, bool) result \<times> task_dir" where
  "remove_locked_run faults root_dir task_id run_id d =
     try_in (run_path root_dir task_id run_id) d (\<lambda>_.
     if ff_active faults run_id then (Inl Io_Error, d)
     else let d = d\<lparr>td_active := removeAll run_id (td_active d)\<rparr>
          in if find (\<lambda>e. de_name e = run_id) (td_entries d) = None then (Inr False, d)
             else (case ff_dir faults run_id of
                 None \<Rightarrow> (Inr True, d\<lparr>td_entries := filter (\<lambda>e. de_name e \<noteq> run_id) (td_entries d)\<rparr>)
               | Some left \<Rightarrow>
                   (Inl Io_Error, d\<lparr>td_entries := map (\<lambda>e. if de_name e = run_id then e\<lparr>de_events := left\<rparr> else e)
                      (td_entries d)\<rparr>)))"

fun prune_runs :: "fs_faults \<Rightarrow> string \<Rightarrow> string \<Rightarrow> (string \<Rightarrow> string \<Rightarrow> bool) \<Rightarrow> 's on_error \<Rightarrow> string list \<Rightarrow> nat
    \<Rightarrow> task_dir \<Rightarrow> 's \<Rightarrow> (history_error, nat) result \<times> task_dir \<times> 's" where
  "prune_runs faults root_dir task_id can_remove on_error [] removed d s = (Inr removed, d, s)"
| "prune_runs faults root_dir task_id can_remove on_error (run_id # ids) removed d s =
     (if \<not> can_remove task_id run_id then prune_runs faults root_dir task_id can_remove on_error ids removed d s
      else case (case lock_inactive_run root_dir task_id run_id d of
                   Inl e \<Rightarrow> (Inl e, d)
                 | Inr locked \<Rightarrow> if locked then remove_locked_run faults root_dir task_id run_id d else (Inr False, d)) of
          (Inr True, d') \<Rightarrow> prune_runs faults root_dir task_id can_remove on_error ids (Suc removed) d' s
        | (Inr False, d') \<Rightarrow> prune_runs faults root_dir task_id can_remove on_error ids removed d' s
        | (Inl e, d') \<Rightarrow> (case on_error run_id e s of
              (Inl e', s') \<Rightarrow> (Inl e', d', s')
            | (Inr _, s') \<Rightarrow> prune_runs faults root_dir task_id can_remove on_error ids removed d' s'))"

definition prune_task_run_history :: "header_parser \<Rightarrow> (string \<Rightarrow> int option) \<Rightarrow> fs_faults \<Rightarrow> string \<Rightarrow> string \<Rightarrow> nat
    \<Rightarrow> (string \<Rightarrow> string \<Rightarrow> bool) \<Rightarrow> 's on_error \<Rightarrow> task_dir \<Rightarrow> 's
    \<Rightarrow> (history_error, nat) result \<times> task_dir \<times> 's" where
  "prune_task_run_history ph parse_time faults root_dir task_id retain can_remove on_error d s =
     (case run_ids_with_errors ph parse_time root_dir (listing_of d) task_id None on_error s of
        (Inl e, s') \<Rightarrow> (Inl e, d, s')
      | (Inr ids, s') \<Rightarrow> prune_runs faults root_dir task_id can_remove on_error (drop retain ids) 0 d s')"

record root_entry =
  re_name :: string
  re_type :: "(history_error, file_type) result"
  re_dir :: task_dir

fun prune_tasks :: "header_parser \<Rightarrow> (string \<Rightarrow> int option) \<Rightarrow> fs_faults \<Rightarrow> string \<Rightarrow> nat
    \<Rightarrow> (string \<Rightarrow> string \<Rightarrow> bool) \<Rightarrow> (string \<Rightarrow> 's on_error) \<Rightarrow> root_entry list \<Rightarrow> nat \<Rightarrow> 's
    \<Rightarrow> (history_error, nat) result \<times> root_entry list \<times> 's" where
  "prune_tasks ph parse_time faults root_dir retain can_remove on_error [] removed s = (Inr removed, [], s)"
| "prune_tasks ph parse_time faults root_dir retain can_remove on_error (re # res) removed s =
     (case re_type re of
        Inl e \<Rightarrow> (Inl e, re # res, s)
      | Inr ft \<Rightarrow>
          if ft \<noteq> Directory \<or> \<not> valid_component (re_name re)
          then (case prune_tasks ph parse_time faults root_dir retain can_remove on_error res removed s of
                  (r, res', s') \<Rightarrow> (r, re # res', s'))
          else (case prune_task_run_history ph parse_time faults root_dir (re_name re) retain can_remove
                       (on_error (re_name re)) (re_dir re) s of
              (Inr n, d, s') \<Rightarrow>
                (case prune_tasks ph parse_time faults root_dir retain can_remove on_error res (removed + n) s' of
                  (r, res', s'') \<Rightarrow> (r, re\<lparr>re_dir := d\<rparr> # res', s''))
            | (Inl e, d, s') \<Rightarrow>
                (case on_error (re_name re) [] e s' of
                  (Inl e', s'') \<Rightarrow> (Inl e', re\<lparr>re_dir := d\<rparr> # res, s'')
                | (Inr _, s'') \<Rightarrow>
                    (case prune_tasks ph parse_time faults root_dir retain can_remove on_error res removed s'' of
                      (r, res', s3) \<Rightarrow> (r, re\<lparr>re_dir := d\<rparr> # res', s3)))))"

definition prune_history :: "header_parser \<Rightarrow> (string \<Rightarrow> int option) \<Rightarrow> fs_faults \<Rightarrow> string \<Rightarrow> nat
    \<Rightarrow> (string \<Rightarrow> string \<Rightarrow> bool) \<Rightarrow> (string \<Rightarrow> 's on_error) \<Rightarrow> root_entry list \<Rightarrow> 's
    \<Rightarrow> (history_error, nat) result \<times> root_entry list \<times> 's" where
  "prune_history ph parse_time faults root_dir retain can_remove on_error roots s =
     prune_tasks ph parse_time faults root_dir retain can_remove on_error roots 0 s"

section \<open>The order of a task's runs\<close>

definition header_of :: "header_parser \<Rightarrow> string \<Rightarrow> string \<Rightarrow> dir_entry \<Rightarrow> (int \<times> string) option" where
  "header_of ph root_dir task_id e =
     (if de_type e = Inr Directory \<and> valid_component (de_name e)
      then (case run_started_at ph root_dir task_id (de_name e) (de_events e) of
          Inr (Some t) \<Rightarrow> Some (t, de_name e) | _ \<Rightarrow> None)
      else None)"

definition history_keys :: "header_parser \<Rightarrow> string \<Rightarrow> string \<Rightarrow> task_dir \<Rightarrow> (int \<times> string) list" where
  "history_keys ph root_dir task_id d =
     rev (sort (List.map_filter (header_of ph root_dir task_id) (td_entries d)))"

lemma header_of_name: "header_of ph root_dir task_id e = Some k \<Longrightarrow> snd k = de_name e"
  by (auto simp: header_of_def split: if_splits sum.splits option.splits)

lemma collect_runs_Inr:
  "collect_runs ph root_dir task_id on_error (map Inr ds) runs s = (Inr rs, s') \<Longrightarrow>
     rs = runs @ List.map_filter (header_of ph root_dir task_id) ds"
proof (induction ds arbitrary: runs s)
  case (Cons de ds)
  from Cons.prems show ?case
    by (auto simp: header_of_def Let_def dest!: Cons.IH split: sum.splits option.splits if_splits prod.splits)
qed simp

lemma run_ids_with_errors_Inr:
  assumes "run_ids_with_errors ph parse_time root_dir (listing_of d) task_id None on_error s = (Inr ids, s')"
  shows "ids = map snd (history_keys ph root_dir task_id d)"
  using assms
  by (auto simp: run_ids_with_errors_def listing_of_def try_in_def history_keys_def check_component_def Let_def
      dest!: collect_runs_Inr split: sum.splits prod.splits)

section \<open>What pruning keeps\<close>

definition has_writer :: "dir_entry \<Rightarrow> bool" where
  "has_writer e = (case de_events e of Inr f \<Rightarrow> rf_writer f | Inl _ \<Rightarrow> False)"

text \<open>A run is old when \<open>retain\<close> runs of its task are newer.\<close>

definition is_old :: "header_parser \<Rightarrow> string \<Rightarrow> string \<Rightarrow> nat \<Rightarrow> task_dir \<Rightarrow> dir_entry \<Rightarrow> bool" where
  "is_old ph root_dir task_id retain d e \<longleftrightarrow> de_name e \<in> set (map snd (drop retain (history_keys ph root_dir task_id d)))"

definition names_distinct :: "task_dir \<Rightarrow> bool" where
  "names_distinct d \<longleftrightarrow> distinct (map de_name (td_entries d))"

lemma names_distinct_find:
  "names_distinct d \<Longrightarrow> e \<in> set (td_entries d) \<Longrightarrow> find (\<lambda>x. de_name x = de_name e) (td_entries d) = Some e"
  unfolding names_distinct_def by (rule find_key_distinct)

lemma remove_locked_run_names:
  assumes "remove_locked_run faults root_dir task_id rid d = (r, d')" "names_distinct d"
  shows "names_distinct d'"
proof -
  have "de_name \<circ> (\<lambda>e :: dir_entry. if de_name e = rid then e\<lparr>de_events := left\<rparr> else e) = de_name" for left
    by (rule ext) simp
  with assms show ?thesis
    by (auto simp: remove_locked_run_def names_distinct_def try_in_def Let_def distinct_map_filter
        split: sum.splits if_splits option.splits)
qed

lemma remove_locked_run_keeps:
  assumes "remove_locked_run faults root_dir task_id rid d = (r, d')" "e \<in> set (td_entries d)" "de_name e \<noteq> rid"
  shows "e \<in> set (td_entries d')"
  using assms by (auto simp: remove_locked_run_def try_in_def Let_def image_iff split: sum.splits if_splits option.splits)

text \<open>One iteration of the loop: what it does to the directory.\<close>

definition prune_one :: "fs_faults \<Rightarrow> string \<Rightarrow> string \<Rightarrow> string \<Rightarrow> task_dir \<Rightarrow> (history_error, bool) result \<times> task_dir" where
  "prune_one faults root_dir task_id rid d =
     (case lock_inactive_run root_dir task_id rid d of
        Inl e \<Rightarrow> (Inl e, d)
      | Inr locked \<Rightarrow> if locked then remove_locked_run faults root_dir task_id rid d else (Inr False, d))"

lemma prune_one_names:
  "prune_one faults root_dir task_id rid d = (r, d') \<Longrightarrow> names_distinct d \<Longrightarrow> names_distinct d'"
  by (auto simp: prune_one_def dest: remove_locked_run_names split: sum.splits if_splits)

lemma prune_one_keeps:
  assumes "prune_one faults root_dir task_id rid d = (r, d')" "e \<in> set (td_entries d)" "names_distinct d"
    and "de_name e \<noteq> rid \<or> has_writer e"
  shows "e \<in> set (td_entries d')"
proof (cases "de_name e = rid")
  case True
  with assms(4) have w: "has_writer e" by simp
  from names_distinct_find [OF assms(3,2)] True have "open_run d rid = de_events e" by (simp add: open_run_def)
  with w have "lock_inactive_run root_dir task_id rid d \<noteq> Inr True"
    by (auto simp: lock_inactive_run_def has_writer_def rbind_def split: sum.splits)
  with assms(1,2) show ?thesis by (auto simp: prune_one_def split: sum.splits)
next
  case False
  with assms(1,2) show ?thesis by (auto simp: prune_one_def dest: remove_locked_run_keeps split: sum.splits if_splits)
qed

lemma prune_runs_keeps:
  "prune_runs faults root_dir task_id can_remove on_error ids removed d s = (r, d', s') \<Longrightarrow>
     e \<in> set (td_entries d) \<Longrightarrow> names_distinct d \<Longrightarrow>
     de_name e \<notin> set ids \<or> \<not> can_remove task_id (de_name e) \<or> has_writer e \<Longrightarrow> e \<in> set (td_entries d')"
proof (induction ids arbitrary: removed d s)
  case (Cons rid ids)
  show ?case
  proof (cases "can_remove task_id rid")
    case False
    with Cons.prems show ?thesis by (intro Cons.IH [of removed d s]) auto
  next
    case True
    obtain res d1 where one: "prune_one faults root_dir task_id rid d = (res, d1)" by (cases "prune_one faults root_dir task_id rid d")
    with Cons.prems True have e: "e \<in> set (td_entries d1)" "names_distinct d1"
      by (auto dest: prune_one_names intro: prune_one_keeps [OF one])
    have k: "de_name e \<notin> set ids \<or> \<not> can_remove task_id (de_name e) \<or> has_writer e" using Cons.prems(4) by auto
    note next_step = Cons.IH [OF _ e k]
    from Cons.prems(1) True one [unfolded prune_one_def] next_step e(1) show ?thesis
      by (auto split: sum.splits bool.splits prod.splits)
  qed
qed simp

lemma prune_task_keeps:
  assumes "prune_task_run_history ph parse_time faults root_dir task_id retain can_remove on_error d s = (r, d', s')"
    and "e \<in> set (td_entries d)" "names_distinct d"
    and "\<not> is_old ph root_dir task_id retain d e \<or> \<not> can_remove task_id (de_name e) \<or> has_writer e"
  shows "e \<in> set (td_entries d')"
  using assms
  by (auto simp: prune_task_run_history_def is_old_def drop_map dest!: run_ids_with_errors_Inr
      intro: prune_runs_keeps [OF _ assms(2,3)] split: sum.splits prod.splits)

definition kept_runs :: "header_parser \<Rightarrow> string \<Rightarrow> nat \<Rightarrow> (string \<Rightarrow> string \<Rightarrow> bool) \<Rightarrow> root_entry \<Rightarrow> dir_entry list" where
  "kept_runs ph root_dir retain can_remove re =
     filter (\<lambda>e. \<not> is_old ph root_dir (re_name re) retain (re_dir re) e \<or> \<not> can_remove (re_name re) (de_name e) \<or> has_writer e)
       (td_entries (re_dir re))"

definition still_has :: "header_parser \<Rightarrow> string \<Rightarrow> nat \<Rightarrow> (string \<Rightarrow> string \<Rightarrow> bool) \<Rightarrow> root_entry \<Rightarrow> root_entry \<Rightarrow> bool" where
  "still_has ph root_dir retain can_remove re re' \<longleftrightarrow>
     re_name re' = re_name re \<and> set (kept_runs ph root_dir retain can_remove re) \<subseteq> set (td_entries (re_dir re'))"

lemma still_has_refl [simp]: "still_has ph root_dir retain can_remove re re"
  by (auto simp: still_has_def kept_runs_def)

lemma still_has_all [simp]: "list_all2 (still_has ph root_dir retain can_remove) res res"
  by (simp add: list_all2_refl)

lemma still_has_pruned:
  assumes "prune_task_run_history ph parse_time faults root_dir (re_name re) retain can_remove on_error (re_dir re) s = (r, d', s')"
    and "names_distinct (re_dir re)"
  shows "still_has ph root_dir retain can_remove re (re\<lparr>re_dir := d'\<rparr>)"
  using prune_task_keeps [OF assms(1) _ assms(2)] by (auto simp: still_has_def kept_runs_def)

lemma prune_tasks_still_has:
  "list_all (\<lambda>re. names_distinct (re_dir re)) roots \<Longrightarrow>
     prune_tasks ph parse_time faults root_dir retain can_remove on_error roots removed s = (r, roots', s') \<Longrightarrow>
     list_all2 (still_has ph root_dir retain can_remove) roots roots'"
proof (induction roots arbitrary: removed s r roots' s')
  case (Cons re roots)
  from Cons.prems(1) have n: "names_distinct (re_dir re)" and ns: "list_all (\<lambda>re. names_distinct (re_dir re)) roots" by auto
  note IH = Cons.IH [OF ns] and one = still_has_pruned [OF _ n]
  from Cons.prems(2) show ?case
    by (auto split: sum.splits prod.splits if_splits dest: IH one)
qed simp


section \<open>A sample history\<close>

text \<open>Three runs of the task \<open>t1\<close>, of which the oldest still has its writer, and a link.\<close>

definition sample_header :: header_parser where
  "sample_header l = (case l of [] \<Rightarrow> Inl Invalid_Json
     | c # _ \<Rightarrow> Inr \<lparr>se_kind = ''started'', se_id = ''r'' @ [c], se_task_id = ''t1'', se_started_at = int (byte_of c)\<rparr>)"

definition sample_entry :: "char \<Rightarrow> bool \<Rightarrow> dir_entry" where
  "sample_entry c w = \<lparr>de_name = ''r'' @ [c], de_type = Inr Directory,
     de_events = Inr \<lparr>rf_regular = True, rf_bytes = [c, newline], rf_writer = w\<rparr>\<rparr>"

definition sample_link :: dir_entry where
  "sample_link = \<lparr>de_name = ''r9'', de_type = Inr Symlink, de_events = Inl Io_Error\<rparr>"

definition sample_dir :: task_dir where
  "sample_dir = \<lparr>td_entries = [sample_entry CHR ''2'' False, sample_entry CHR ''3'' False, sample_link,
     sample_entry CHR ''1'' True], td_active = [''r1'']\<rparr>"

definition sample_parse_time :: "string \<Rightarrow> int option" where
  "sample_parse_time s = (case s of [c] \<Rightarrow> Some (int (byte_of c)) | _ \<Rightarrow> None)"

definition pruned_dir :: task_dir where
  "pruned_dir = \<lparr>td_entries = [sample_entry CHR ''3'' False, sample_link, sample_entry CHR ''1'' True], td_active = [''r1'']\<rparr>"

definition sample_roots :: "root_entry list" where
  "sample_roots = [\<lparr>re_name = ''t1'', re_type = Inr Directory, re_dir = sample_dir\<rparr>]"

definition strict :: "unit on_error" where "strict = (\<lambda>_ e s. (Inl e, s))"

lemma sample_names: "names_distinct sample_dir"
  by (simp add: names_distinct_def sample_dir_def sample_entry_def sample_link_def)

lemma sample_ids:
  "run_ids_with_errors sample_header sample_parse_time ''/s'' (listing_of sample_dir) ''t1'' None strict () =
     (Inr [''r3'', ''r2'', ''r1''], ())"
  by code_simp

definition no_faults :: fs_faults where
  "no_faults = \<lparr>ff_active = (\<lambda>_. False), ff_dir = (\<lambda>_. None)\<rparr>"

text \<open>C29: Pruning the history, with any fault of the file system and whether it succeeds or fails, keeps every run
  that is among the newest \<open>retain\<close> of its task, that its consumer wants to keep or whose writer still
  holds the journal, and every entry whose start it cannot read.\<close>

theorem prune_keeps_recent_and_active:
  assumes "list_all (\<lambda>re. names_distinct (re_dir re)) roots"
    and "prune_history ph parse_time faults root_dir retain can_remove on_error roots s = (r, roots', s')"
  shows "list_all2 (still_has ph root_dir retain can_remove) roots roots'"
  using prune_tasks_still_has [OF assms(1) assms(2) [unfolded prune_history_def]] .

theorem prune_keeps_recent_and_active_witness:
  "list_all2 (still_has sample_header ''/s'' 1 (\<lambda>_ _. True)) sample_roots
     [\<lparr>re_name = ''t1'', re_type = Inr Directory, re_dir = pruned_dir\<rparr>] \<and>
   map de_name (kept_runs sample_header ''/s'' 1 (\<lambda>_ _. True) (hd sample_roots)) = [''r3'', ''r9'', ''r1'']"
proof -
  have "list_all (\<lambda>re. names_distinct (re_dir re)) sample_roots"
    by (simp add: sample_roots_def sample_names)
  moreover have "prune_history sample_header sample_parse_time no_faults ''/s'' 1 (\<lambda>_ _. True) (\<lambda>_. strict) sample_roots () =
      (Inr 1, [\<lparr>re_name = ''t1'', re_type = Inr Directory, re_dir = pruned_dir\<rparr>], ())"
    by code_simp
  ultimately have "list_all2 (still_has sample_header ''/s'' 1 (\<lambda>_ _. True)) sample_roots
      [\<lparr>re_name = ''t1'', re_type = Inr Directory, re_dir = pruned_dir\<rparr>]"
    by (rule prune_keeps_recent_and_active)
  moreover have "map de_name (kept_runs sample_header ''/s'' 1 (\<lambda>_ _. True) (hd sample_roots)) = [''r3'', ''r9'', ''r1'']"
    by code_simp
  ultimately show ?thesis by blast
qed

section \<open>What pruning removes\<close>

lemma prune_one_exact:
  assumes "names_distinct d" "e \<in> set (td_entries d)" "de_events e = Inr f" "rf_regular f"
    and "valid_component task_id" "valid_component (de_name e)"
  shows "\<exists>d'. prune_one no_faults root_dir task_id (de_name e) d = (Inr (\<not> rf_writer f), d') \<and>
    td_entries d' = (if rf_writer f then td_entries d else filter (\<lambda>x. de_name x \<noteq> de_name e) (td_entries d))"
  using assms names_distinct_find [OF assms(1,2)]
  by (auto simp: prune_one_def lock_inactive_run_def remove_locked_run_def run_events_path_def run_path_def
      check_component_def open_run_def no_faults_def Let_def)

lemma filter_name:
  assumes "names_distinct d" "e \<in> set (td_entries d)"
  shows "Suc (length (filter (\<lambda>x. de_name x \<noteq> de_name e) (td_entries d))) = length (td_entries d)"
proof -
  have "distinct (map de_name es) \<Longrightarrow> e \<in> set es \<Longrightarrow> Suc (length (filter (\<lambda>x. de_name x \<noteq> de_name e) es)) = length es"
    for es :: "dir_entry list"
  proof (induction es)
    case (Cons a es)
    show ?case
    proof (cases "a = e")
      case True
      with Cons.prems(1) have "de_name e \<notin> de_name ` set es" by simp
      then have "\<forall>x\<in>set es. de_name x \<noteq> de_name e" by (metis imageI)
      with True show ?thesis by (simp add: filter_id_conv)
    next
      case False
      with Cons show ?thesis by auto
    qed
  qed simp
  with assms show ?thesis by (simp add: names_distinct_def)
qed

lemma prune_runs_exact:
  "distinct ids \<Longrightarrow> names_distinct d \<Longrightarrow> valid_component task_id \<Longrightarrow>
     \<forall>rid\<in>set ids. valid_component rid \<and> (\<exists>e\<in>set (td_entries d). de_name e = rid \<and> (\<exists>f. de_events e = Inr f \<and> rf_regular f)) \<Longrightarrow>
     \<exists>n d'. prune_runs no_faults root_dir task_id can_remove on_error ids removed d s = (Inr n, d', s) \<and>
       n + length (td_entries d') = removed + length (td_entries d) \<and>
       td_entries d' = filter (\<lambda>e. de_name e \<notin> set ids \<or> \<not> can_remove task_id (de_name e) \<or> has_writer e) (td_entries d)"
proof (induction ids arbitrary: removed d)
  case (Cons rid ids)
  from Cons.prems(4) obtain e f where e: "e \<in> set (td_entries d)" "de_name e = rid" "de_events e = Inr f" "rf_regular f"
    and v: "valid_component rid" by auto
  have only: "x = e" if "x \<in> set (td_entries d)" "de_name x = rid" for x
    using that e Cons.prems(2) by (auto simp: names_distinct_def distinct_map inj_on_def)
  have h: "has_writer e = rf_writer f" by (simp add: has_writer_def e(3))
  have rest: "\<forall>rid\<in>set ids. valid_component rid \<and>
      (\<exists>e\<in>set (td_entries d). de_name e = rid \<and> (\<exists>f. de_events e = Inr f \<and> rf_regular f))" using Cons.prems(4) by simp
  show ?case
  proof (cases "can_remove task_id rid \<and> \<not> rf_writer f")
    case False
    from Cons.IH [of d removed] Cons.prems rest obtain n d' where ih:
      "prune_runs no_faults root_dir task_id can_remove on_error ids removed d s = (Inr n, d', s)"
      "n + length (td_entries d') = removed + length (td_entries d)"
      "td_entries d' = filter (\<lambda>e. de_name e \<notin> set ids \<or> \<not> can_remove task_id (de_name e) \<or> has_writer e) (td_entries d)"
      by auto
    have "prune_runs no_faults root_dir task_id can_remove on_error (rid # ids) removed d s = (Inr n, d', s)"
    proof (cases "can_remove task_id rid")
      case True
      with False have w: "rf_writer f" by simp
      from prune_one_exact [OF Cons.prems(2) e(1,3,4) Cons.prems(3)] v e(2) w obtain d1 where
        "prune_one no_faults root_dir task_id rid d = (Inr False, d1)" by auto
      moreover have "lock_inactive_run root_dir task_id rid d = Inr False"
        using names_distinct_find [OF Cons.prems(2) e(1)] e w v Cons.prems(3)
        by (simp add: lock_inactive_run_def run_events_path_def run_path_def check_component_def open_run_def)
      ultimately show ?thesis using True ih(1) by simp
    qed (simp add: ih(1))
    moreover have "td_entries d' = filter (\<lambda>e. de_name e \<notin> set (rid # ids) \<or> \<not> can_remove task_id (de_name e) \<or> has_writer e) (td_entries d)"
      unfolding ih(3) using False only e(2) h by (intro filter_cong refl) auto
    ultimately show ?thesis using ih(2) by blast
  next
    case True
    with prune_one_exact [OF Cons.prems(2) e(1,3,4) Cons.prems(3)] v e(2) obtain d1 where d1:
      "prune_one no_faults root_dir task_id rid d = (Inr True, d1)"
      "td_entries d1 = filter (\<lambda>x. de_name x \<noteq> rid) (td_entries d)" by auto
    from Cons.prems(1) have nin: "rid \<notin> set ids" by simp
    from rest nin have rest1: "\<forall>rid\<in>set ids. valid_component rid \<and>
      (\<exists>e\<in>set (td_entries d1). de_name e = rid \<and> (\<exists>f. de_events e = Inr f \<and> rf_regular f))"
      by (fastforce simp: d1(2))
    from Cons.IH [of d1 "Suc removed"] Cons.prems rest1 prune_one_names [OF d1(1)] obtain n d' where ih:
      "prune_runs no_faults root_dir task_id can_remove on_error ids (Suc removed) d1 s = (Inr n, d', s)"
      "n + length (td_entries d') = Suc removed + length (td_entries d1)"
      "td_entries d' = filter (\<lambda>e. de_name e \<notin> set ids \<or> \<not> can_remove task_id (de_name e) \<or> has_writer e) (td_entries d1)"
      by auto
    have "prune_runs no_faults root_dir task_id can_remove on_error (rid # ids) removed d s = (Inr n, d', s)"
      using True ih(1) d1(1) by (simp add: prune_one_def)
    moreover have "n + length (td_entries d') = removed + length (td_entries d)"
      using ih(2) filter_name [OF Cons.prems(2) e(1)] by (simp add: d1(2) e(2))
    moreover have "td_entries d' = filter (\<lambda>e. de_name e \<notin> set (rid # ids) \<or> \<not> can_remove task_id (de_name e) \<or> has_writer e) (td_entries d)"
      unfolding ih(3) d1(2) filter_filter using True only e(2) h nin by (intro filter_cong refl) auto
    ultimately show ?thesis by blast
  qed
qed simp

lemma run_started_at_Some:
  "run_started_at ph root_dir task_id rid opened = Inr (Some t) \<Longrightarrow> \<exists>f. opened = Inr f \<and> rf_regular f"
  by (auto simp: run_started_at_def rbind_Inr_iff Let_def split: if_splits)

lemma header_of_SomeD:
  assumes "header_of ph root_dir task_id e = Some k"
  shows "snd k = de_name e \<and> valid_component (de_name e) \<and> (\<exists>f. de_events e = Inr f \<and> rf_regular f) \<and>
    run_started_at ph root_dir task_id (de_name e) (de_events e) = Inr (Some (fst k))"
  using assms run_started_at_Some
  by (auto simp: header_of_def split: if_splits sum.splits option.splits)

lemma set_history_keys:
  "set (history_keys ph root_dir task_id d) = {k. \<exists>e\<in>set (td_entries d). header_of ph root_dir task_id e = Some k}"
  by (auto simp: history_keys_def List.map_filter_def image_iff) force

lemma distinct_headers:
  assumes "names_distinct d"
  shows "distinct (map snd (List.map_filter (header_of ph root_dir task_id) (td_entries d)))"
proof -
  have "distinct (map de_name es) \<Longrightarrow> distinct (map snd (List.map_filter (header_of ph root_dir task_id) es))" for es
  proof (induction es)
    case (Cons e es)
    have "de_name e \<notin> snd ` set (List.map_filter (header_of ph root_dir task_id) es)"
      using Cons.prems header_of_name by (fastforce simp: List.map_filter_def)
    moreover have "distinct (map snd (List.map_filter (header_of ph root_dir task_id) es))" using Cons by simp
    ultimately show ?case
      by (cases "header_of ph root_dir task_id e") (simp_all add: map_filter_simps header_of_name)
  qed simp
  with assms show ?thesis by (simp add: names_distinct_def)
qed

lemma distinct_history:
  assumes "names_distinct d"
  shows "distinct (map snd (history_keys ph root_dir task_id d))"
proof -
  let ?hs = "List.map_filter (header_of ph root_dir task_id) (td_entries d)"
  have "mset (map snd (history_keys ph root_dir task_id d)) = mset (map snd ?hs)"
    by (simp add: history_keys_def)
  then show ?thesis using distinct_headers [OF assms] mset_eq_imp_distinct_iff by blast
qed

text \<open>C30: When the file system does not fail, pruning removes every run that has at least \<open>retain\<close> newer
  ones, whose consumer lets it go and whose writer is gone, and nothing else, and it reports their number.\<close>

theorem prune_removes_old_runs:
  assumes "names_distinct d"
    and "run_ids_with_errors ph parse_time root_dir (listing_of d) task_id None on_error s = (Inr ids, s')"
  shows "\<exists>n d'. prune_task_run_history ph parse_time no_faults root_dir task_id retain can_remove on_error d s = (Inr n, d', s') \<and>
    n + length (td_entries d') = length (td_entries d) \<and>
    td_entries d' = filter (\<lambda>e. \<not> is_old ph root_dir task_id retain d e \<or> \<not> can_remove task_id (de_name e) \<or> has_writer e)
      (td_entries d)"
proof -
  let ?ids = "drop retain ids"
  have ids: "ids = map snd (history_keys ph root_dir task_id d)" by (rule run_ids_with_errors_Inr [OF assms(2)])
  have v: "valid_component task_id"
    using assms(2) by (auto simp: run_ids_with_errors_def check_component_def ensure_def split: if_splits)
  have "\<forall>rid\<in>set ids. valid_component rid \<and> (\<exists>e\<in>set (td_entries d). de_name e = rid \<and> (\<exists>f. de_events e = Inr f \<and> rf_regular f))"
    unfolding ids set_map set_history_keys by (auto dest!: header_of_SomeD)
  then have r: "\<forall>rid\<in>set ?ids. valid_component rid \<and> (\<exists>e\<in>set (td_entries d). de_name e = rid \<and> (\<exists>f. de_events e = Inr f \<and> rf_regular f))"
    by (blast dest: in_set_dropD)
  have "distinct ?ids" using distinct_history [OF assms(1)] by (simp add: ids)
  from prune_runs_exact [OF this assms(1) v r, of root_dir can_remove on_error 0 s'] show ?thesis
    by (simp add: prune_task_run_history_def assms(2) is_old_def ids drop_map)
qed

theorem prune_removes_old_runs_witness:
  "\<exists>n d'. prune_task_run_history sample_header sample_parse_time no_faults ''/s'' ''t1'' 1 (\<lambda>_ _. True) strict sample_dir () =
      (Inr n, d', ()) \<and> n + length (td_entries d') = 4 \<and>
    map de_name (td_entries d') = [''r3'', ''r9'', ''r1'']"
proof -
  have "map de_name (filter (\<lambda>e. \<not> is_old sample_header ''/s'' ''t1'' 1 sample_dir e \<or> \<not> True \<or> has_writer e)
      (td_entries sample_dir)) = [''r3'', ''r9'', ''r1'']" by code_simp
  moreover have "length (td_entries sample_dir) = 4" by (simp add: sample_dir_def)
  ultimately show ?thesis
    using prune_removes_old_runs [OF sample_names sample_ids, of 1 "\<lambda>_ _. True"] by auto
qed

end
