(* ===== verification/Auto_Pages.thy ===== *)
theory Auto_Pages
  imports Auto_History
begin

text \<open>
  Paging through the history of a task: what a client sees that follows the cursors of \<open>AutomationQuery::runs\<close> while
  the directory of the task changes between its requests. Within one request the directory does not change, except that a listed
  run may be gone when it is read.
\<close>

section \<open>Cursors\<close>

definition time_ok :: "(int \<Rightarrow> string) \<Rightarrow> (string \<Rightarrow> int option) \<Rightarrow> int \<Rightarrow> bool" where
  "time_ok to_rfc3339 parse_time t \<longleftrightarrow> parse_time (to_rfc3339 t) = Some t \<and> CHR ''/'' \<notin> set (to_rfc3339 t) \<and>
     length (to_rfc3339 t) \<le> 159"

lemma cursor_roundtrip:
  assumes "time_ok to_rfc3339 parse_time (cu_started_at c)" "valid_component (cu_id c)"
  shows "cursor_from_str parse_time (cursor_to_string to_rfc3339 c) = Inr c"
proof -
  from assms have "split_once CHR ''/'' (cursor_to_string to_rfc3339 c) = Some (to_rfc3339 (cu_started_at c), cu_id c)"
    by (simp add: split_once_Some cursor_to_string_def time_ok_def)
  with assms show ?thesis
    by (simp add: cursor_from_str_def time_ok_def valid_component_def cursor_to_string_def ensure_def)
qed

section \<open>One page\<close>

definition run_key :: "run_detail \<Rightarrow> int \<times> string" where
  "run_key x = (rn_started_at (rd_run x), rn_id (rd_run x))"

definition readable :: "(string \<Rightarrow> (history_error, run_detail option) result) \<Rightarrow> string \<Rightarrow> run_detail option" where
  "readable read rid = (case read rid of Inr (Some x) \<Rightarrow> Some x | _ \<Rightarrow> None)"

lemma page_items_Inr:
  "page_items read limit ids items = Inr r \<Longrightarrow> length items \<le> limit \<Longrightarrow>
     r = take (Suc limit) (items @ List.map_filter (readable read) ids)"
proof (induction ids arbitrary: items)
  case (Cons rid ids)
  show ?case
  proof (cases "readable read rid")
    case None
    with Cons show ?thesis
      by (auto simp: readable_def map_filter_simps split: sum.splits option.splits if_splits)
  next
    case (Some x)
    then have x: "read rid = Inr (Some x)" by (auto simp: readable_def split: sum.splits option.splits)
    show ?thesis
    proof (cases "limit < length (items @ [x])")
      case True
      with Cons.prems(2) have "limit = length items" by simp
      with x Some True Cons.prems(1) show ?thesis by (simp add: map_filter_simps)
    next
      case False
      with Cons.prems Cons.IH [of "items @ [x]"] x Some show ?thesis by (simp add: map_filter_simps)
    qed
  qed
qed simp

lemma page_items_Inl:
  "page_items read limit ids items = Inl e \<Longrightarrow> \<exists>rid\<in>set ids. read rid = Inl e \<and> e \<noteq> Not_Found"
  by (induction ids arbitrary: items) (auto split: sum.splits option.splits if_splits)

text \<open>The elements below the last one of a page are the rest of the list.\<close>

lemma filter_below_nth:
  fixes f :: "'a \<Rightarrow> 'k :: linorder"
  assumes "sorted_wrt (\<lambda>x y. f y < f x) xs" "0 < n" "n \<le> length xs"
  shows "filter (\<lambda>x. f x < f (xs ! (n - 1))) xs = drop n xs"
proof -
  have "filter (\<lambda>x. f x < f (xs ! (n - 1))) (take n xs) = []"
  proof -
    have "\<not> f (take n xs ! i) < f (xs ! (n - 1))" if "i < n" for i
    proof (cases "i = n - 1")
      case False
      with that assms(2,3) have "f (xs ! (n - 1)) < f (xs ! i)"
        by (intro sorted_wrt_nth_less [OF assms(1)]) simp_all
      then have "\<not> f (xs ! i) < f (xs ! (n - 1))" by (simp add: not_less)
      with that show ?thesis by simp
    qed (use that in simp)
    then show ?thesis using assms(3) by (auto simp: filter_empty_conv in_set_conv_nth)
  qed
  moreover have "filter (\<lambda>x. f x < f (xs ! (n - 1))) (drop n xs) = drop n xs"
  proof -
    have "f (drop n xs ! i) < f (xs ! (n - 1))" if "i < length xs - n" for i
      using assms that sorted_wrt_nth_less [OF assms(1), of "n - 1" "n + i"] by simp
    then show ?thesis by (auto simp: filter_id_conv in_set_conv_nth)
  qed
  ultimately show ?thesis by (metis append_Nil append_take_drop_id filter_append)
qed

section \<open>The order of the history\<close>

lemma history_sorted:
  assumes "names_distinct d"
  shows "sorted_wrt (\<lambda>x y. y < x) (history_keys ph root_dir task_id d)"
proof -
  have "distinct (history_keys ph root_dir task_id d)"
    using distinct_history [OF assms] by (simp add: distinct_map)
  then have "sorted_wrt (<) (sort (List.map_filter (header_of ph root_dir task_id) (td_entries d)))"
    by (simp add: history_keys_def strict_sorted_iff)
  then show ?thesis by (simp add: history_keys_def sorted_wrt_rev)
qed

lemma run_ids_before:
  assumes "run_ids ph parse_time root_dir (listing_of d) task_id None = Inr ids"
    and "before = Some (cursor_to_string to_rfc3339 c)" "time_ok to_rfc3339 parse_time (cu_started_at c)"
    and "valid_component (cu_id c)"
  shows "run_ids ph parse_time root_dir (listing_of d) task_id before =
    Inr (map snd (filter (\<lambda>r. r < (cu_started_at c, cu_id c)) (history_keys ph root_dir task_id d)))"
proof -
  let ?collect = "collect_runs ph root_dir task_id (\<lambda>_ e s. (Inl e, s)) (map Inr (td_entries d)) [] ()"
  from assms(1) obtain rs s' where c: "?collect = (Inr rs, s')" and v: "check_component task_id = Inr ()"
    by (auto simp: run_ids_def run_ids_with_errors_def listing_of_def try_in_def split: sum.splits prod.splits)
  from collect_runs_Inr [OF c] have "rev (sort rs) = history_keys ph root_dir task_id d" by (simp add: history_keys_def)
  with c v show ?thesis
    by (simp add: run_ids_def run_ids_with_errors_def listing_of_def assms(2) cursor_roundtrip [OF assms(3,4)] Let_def)
qed

section \<open>Headers and journals\<close>

text \<open>The header of a journal is its first line, and the two decoders agree on it.\<close>

definition header_agrees :: "header_parser \<Rightarrow> event_parser \<Rightarrow> dir_entry \<Rightarrow> bool" where
  "header_agrees ph parse e =
     (case de_events e of
        Inl _ \<Rightarrow> True
      | Inr f \<Rightarrow>
          let l = read_until (rf_bytes f)
          in (case ph l of
                Inl err \<Rightarrow> err \<noteq> Not_Found
              | Inr se \<Rightarrow> se_kind se = ''started'' \<longrightarrow>
                  (case parse l of
                     Inl _ \<Rightarrow> True
                   | Inr (Stored_Started r _) \<Rightarrow> rn_started_at r = se_started_at se
                   | Inr _ \<Rightarrow> False)))"

lemma split_inclusive_first: "bs \<noteq> [] \<Longrightarrow> \<exists>ls. split_inclusive bs = read_until bs # ls"
proof (induction bs)
  case (Cons c cs)
  show ?case
  proof (cases "cs = []")
    case False
    with Cons.IH obtain ls where "split_inclusive cs = read_until cs # ls" by auto
    then show ?thesis by simp
  qed simp
qed simp

lemma read_until_length: "length (read_until bs) \<le> length bs"
  by (induction bs) simp_all

lemma read_events_start_time:
  "read_events parse ls (Some (r, i)) = Inr (Some (r', i')) \<Longrightarrow> rn_started_at r' = rn_started_at r"
proof (induction ls arbitrary: r i)
  case (Cons l ls)
  show ?case
  proof (cases "ends_line l")
    case True
    with Cons.prems obtain ev where ev: "parse l = Inr ev" by (auto simp: rbind_Inr_iff)
    show ?thesis
    proof (cases ev)
      case (Stored_Started x y)
      with Cons.prems True ev show ?thesis by simp
    qed (use Cons.prems True ev Cons.IH in fastforce)+
  qed (use Cons.prems in simp)
qed simp

lemma read_run_detail_Some:
  assumes "read_run_detail parse root_dir task_id rid opened = Inr (Some x)"
  obtains f r i where "opened = Inr f" "rf_regular f" "length (rf_bytes f) \<le> MAX_RUN_EVENTS_BYTES"
    "read_events parse (split_inclusive (rf_bytes f)) None = Inr (Some (r, i))" "rn_id r = rid"
    "rd_run x = settle_status (rf_writer f) r"
proof -
  from assms obtain f where f: "opened = Inr f" "rf_regular f" "length (rf_bytes f) \<le> MAX_RUN_EVENTS_BYTES"
    by (auto simp: read_run_detail_def rbind_Inr_iff Let_def)
  then have t: "take (Suc MAX_RUN_EVENTS_BYTES) (rf_bytes f) = rf_bytes f" by simp
  from assms f t obtain r i where "read_events parse (split_inclusive (rf_bytes f)) None = Inr (Some (r, i))"
    "rn_id r = rid" "rd_run x = settle_status (rf_writer f) r"
    by (auto simp: read_run_detail_def rbind_Inr_iff Let_def split: option.splits)
  with f that show ?thesis by blast
qed

lemma readable_header:
  assumes "read_run_detail parse root_dir task_id rid opened = Inr (Some x)" "opened = de_events e"
    and "run_started_at ph root_dir task_id rid opened = Inr t" "header_agrees ph parse e"
  shows "t = Some (rn_started_at (rd_run x)) \<and> rn_id (rd_run x) = rid"
proof -
  from assms(1) obtain f r i where f: "opened = Inr f" "rf_regular f" "length (rf_bytes f) \<le> MAX_RUN_EVENTS_BYTES"
    "read_events parse (split_inclusive (rf_bytes f)) None = Inr (Some (r, i))" "rn_id r = rid"
    "rd_run x = settle_status (rf_writer f) r" by (rule read_run_detail_Some)
  let ?l = "read_until (rf_bytes f)"
  from f(4) have "rf_bytes f \<noteq> []" by auto
  then obtain ls where ls: "split_inclusive (rf_bytes f) = ?l # ls" using split_inclusive_first by blast
  with f(4) have el: "ends_line ?l" by (auto split: if_splits)
  from f(4) ls el obtain ev where ev: "parse ?l = Inr ev" by (auto simp: rbind_Inr_iff)
  have tk: "take (Suc MAX_RUN_EVENTS_BYTES) (rf_bytes f) = rf_bytes f" using f(3) by simp
  from assms(3) el obtain se where se: "ph ?l = Inr se" "se_kind se = ''started''" "t = Some (se_started_at se)"
    by (auto simp: run_started_at_def f(1) tk rbind_Inr_iff Let_def)
  from assms(4) se ev have "\<exists>r0 i0. ev = Stored_Started r0 i0 \<and> rn_started_at r0 = se_started_at se"
    by (auto simp: header_agrees_def assms(2) [symmetric] f(1) split: stored_event.splits)
  then obtain r0 i0 where ev0: "ev = Stored_Started r0 i0" "rn_started_at r0 = se_started_at se" by blast
  from f(4) ls el ev ev0 have "read_events parse ls (Some (r0, i0)) = Inr (Some (r, i))" by simp
  from read_events_start_time [OF this] ev0(2) se(3) f(5,6) show ?thesis by simp
qed

section \<open>Following the cursors\<close>

text \<open>A client that asks for the first page and then for each following one, with fuel: the pages it gets and the error
  that ends them, if any. Its \<open>n\<close>-th request finds the directory as it is by then.\<close>

fun follow_pages :: "(nat \<Rightarrow> string option \<Rightarrow> (history_error, run_page) result) \<Rightarrow> nat \<Rightarrow> nat \<Rightarrow> string option
    \<Rightarrow> (run_detail list list \<times> history_error option) option" where
  "follow_pages query 0 n before = None"
| "follow_pages query (Suc fuel) n before =
     (case query n before of
        Inl e \<Rightarrow> Some ([], Some e)
      | Inr page \<Rightarrow> (case pg_next_cursor page of
            None \<Rightarrow> Some ([pg_items page], None)
          | Some c \<Rightarrow> map_option (\<lambda>(ps, e). (pg_items page # ps, e)) (follow_pages query fuel (Suc n) (Some c))))"

lemma map_filter_keys:
  "\<forall>k\<in>set ks. \<forall>x. g (snd k) = Some x \<longrightarrow> run_key x = k \<Longrightarrow>
     List.map_filter g (map snd (filter P ks)) = filter (\<lambda>x. P (run_key x)) (List.map_filter g (map snd ks))"
  by (induction ks) (auto simp: map_filter_simps split: option.splits)

lemma map_filter_sorted:
  "\<forall>k\<in>set ks. \<forall>x. g (snd k) = Some x \<longrightarrow> run_key x = k \<Longrightarrow> sorted_wrt (\<lambda>x y. y < x) ks \<Longrightarrow>
     sorted_wrt (\<lambda>x y. run_key y < run_key x) (List.map_filter g (map snd ks))"
proof (induction ks)
  case (Cons k ks)
  have "\<forall>y\<in>set (List.map_filter g (map snd ks)). run_key y \<in> set ks"
    using Cons.prems(1) by (auto simp: List.map_filter_def)
  with Cons show ?case by (auto simp: map_filter_simps split: option.splits)
qed simp

text \<open>The requests of a client over a list \<open>h\<close> sorted by decreasing keys, of which the cursor at a run
  selects the part below it.\<close>

definition page_of :: "(int \<Rightarrow> string) \<Rightarrow> nat \<Rightarrow> run_detail list \<Rightarrow> run_page" where
  "page_of to_rfc3339 limit xs =
     (if limit < length xs
      then \<lparr>pg_items = take limit xs,
             pg_next_cursor = Some (cursor_to_string to_rfc3339 (run_cursor_of (rd_run (xs ! (limit - 1)))))\<rparr>
      else \<lparr>pg_items = xs, pg_next_cursor = None\<rparr>)"

lemma page_of_items:
  assumes "1 \<le> limit"
  shows "(let items = take (Suc limit) xs in
      if limit < length items
      then let items = butlast items
           in \<lparr>pg_items = items,
               pg_next_cursor = (if items = [] then None
                 else Some (cursor_to_string to_rfc3339 (run_cursor_of (rd_run (last items)))))\<rparr>
      else \<lparr>pg_items = items, pg_next_cursor = None\<rparr>) = page_of to_rfc3339 limit xs"
proof (cases "limit < length xs")
  case True
  then have "butlast (take (Suc limit) xs) = take limit xs" by (simp add: butlast_take)
  moreover have ne: "take limit xs \<noteq> []" using True assms by auto
  moreover have "last (take limit xs) = xs ! (limit - 1)"
    using True assms by (simp add: last_conv_nth [OF ne] min_def)
  ultimately show ?thesis using True by (simp add: page_of_def)
qed (simp add: page_of_def)

definition history_of :: "header_parser \<Rightarrow> event_parser \<Rightarrow> string \<Rightarrow> task_dir \<Rightarrow> string \<Rightarrow> run_detail list" where
  "history_of ph parse root_dir d task_id =
     List.map_filter (readable (\<lambda>rid. read_run_detail parse root_dir task_id rid (open_run d rid)))
       (map snd (history_keys ph root_dir task_id d))"

lemma run_ids_None:
  assumes "run_ids ph parse_time root_dir (listing_of d) task_id None = Inr ids"
  shows "ids = map snd (history_keys ph root_dir task_id d)"
proof -
  from assms obtain s' where
    "run_ids_with_errors ph parse_time root_dir (listing_of d) task_id None (\<lambda>_ e s. (Inl e, s)) () = (Inr ids, s')"
    by (metis prod.collapse run_ids_def)
  then show ?thesis by (rule run_ids_with_errors_Inr)
qed

lemma readable_key:
  assumes "names_distinct d" "list_all (header_agrees ph parse) (td_entries d)"
    and "k \<in> set (history_keys ph root_dir task_id d)"
    and "readable (\<lambda>rid. read_run_detail parse root_dir task_id rid (open_run d rid)) (snd k) = Some x"
  shows "run_key x = k"
proof -
  from assms(3) obtain e where e: "e \<in> set (td_entries d)" "header_of ph root_dir task_id e = Some k"
    by (auto simp: set_history_keys)
  note h = header_of_SomeD [OF e(2)]
  with names_distinct_find [OF assms(1) e(1)] have o: "open_run d (snd k) = de_events e" by (simp add: open_run_def)
  with assms(4) have "read_run_detail parse root_dir task_id (snd k) (de_events e) = Inr (Some x)"
    by (auto simp: readable_def split: sum.splits option.splits)
  moreover have "run_started_at ph root_dir task_id (snd k) (de_events e) = Inr (Some (fst k))" using h by simp
  moreover have "header_agrees ph parse e" using assms(2) e(1) by (simp add: list_all_iff)
  ultimately have "Some (fst k) = Some (rn_started_at (rd_run x)) \<and> rn_id (rd_run x) = snd k"
    by (intro readable_header) simp_all
  then show ?thesis by (simp add: run_key_def prod_eq_iff)
qed

text \<open>The strict scan found a header or nothing to read for every run directory.\<close>

lemma collect_runs_strict:
  "collect_runs ph root_dir task_id (\<lambda>_ e s. (Inl e, s)) (map Inr ds) runs s = (Inr rs, s') \<Longrightarrow>
     e \<in> set ds \<Longrightarrow> de_type e = Inr Directory \<Longrightarrow> valid_component (de_name e) \<Longrightarrow>
     (\<exists>t. run_started_at ph root_dir task_id (de_name e) (de_events e) = Inr t) \<or>
     run_started_at ph root_dir task_id (de_name e) (de_events e) = Inl Not_Found"
proof (induction ds arbitrary: runs s)
  case (Cons de ds)
  show ?case
  proof (cases "e = de")
    case True
    with Cons.prems show ?thesis
      by (cases "run_started_at ph root_dir task_id (de_name e) (de_events e)") (auto simp: Let_def split: if_splits)
  next
    case False
    with Cons.prems have "e \<in> set ds" by simp
    from Cons.IH [OF _ this Cons.prems(3,4)] Cons.prems(1) show ?thesis
      by (auto simp: Let_def split: sum.splits option.splits if_splits)
  qed
qed simp

lemma readable_has_key:
  assumes "collect_runs ph root_dir task_id (\<lambda>_ e s. (Inl e, s)) (map Inr (td_entries d)) [] () = (Inr rs, s')"
    and "e \<in> set (td_entries d)" "de_type e = Inr Directory" "valid_component (de_name e)" "header_agrees ph parse e"
    and "read_run_detail parse root_dir task_id (de_name e) (de_events e) = Inr (Some x)"
  shows "header_of ph root_dir task_id e = Some (run_key x)"
proof -
  from assms(6) obtain f where f: "de_events e = Inr f" "rf_regular f" "length (rf_bytes f) \<le> MAX_RUN_EVENTS_BYTES"
    by (rule read_run_detail_Some)
  have tk: "take (Suc MAX_RUN_EVENTS_BYTES) (rf_bytes f) = rf_bytes f" using f(3) by simp
  from assms(5) have n: "ph (read_until (rf_bytes f)) \<noteq> Inl Not_Found"
    by (auto simp: header_agrees_def f(1) Let_def)
  have "run_started_at ph root_dir task_id (de_name e) (de_events e) \<noteq> Inl Not_Found"
    using n by (auto simp: run_started_at_def run_events_path_def run_path_def check_component_def f(1) tk rbind_Inl_iff Let_def)
  with collect_runs_strict [OF assms(1-4)] obtain t where
    t: "run_started_at ph root_dir task_id (de_name e) (de_events e) = Inr t" by blast
  from readable_header [OF assms(6) refl t assms(5)] t assms(3,4) show ?thesis
    by (simp add: header_of_def run_key_def)
qed

lemma set_history_of:
  assumes "names_distinct d" "run_ids ph parse_time root_dir (listing_of d) task_id None = Inr ids"
    and "list_all (header_agrees ph parse) (td_entries d)"
  shows "set (history_of ph parse root_dir d task_id) =
    {x. \<exists>e\<in>set (td_entries d). de_type e = Inr Directory \<and> valid_component (de_name e) \<and>
       read_run_detail parse root_dir task_id (de_name e) (de_events e) = Inr (Some x)}" (is "?l = ?r")
proof
  show "?l \<subseteq> ?r"
  proof
    fix x
    assume "x \<in> ?l"
    then obtain k where k: "k \<in> set (history_keys ph root_dir task_id d)"
      "readable (\<lambda>rid. read_run_detail parse root_dir task_id rid (open_run d rid)) (snd k) = Some x"
      by (auto simp: history_of_def List.map_filter_def)
    from k(1) obtain e where e: "e \<in> set (td_entries d)" "header_of ph root_dir task_id e = Some k"
      by (auto simp: set_history_keys)
    note h = header_of_SomeD [OF e(2)]
    with names_distinct_find [OF assms(1) e(1)] have "open_run d (snd k) = de_events e" by (simp add: open_run_def)
    with k(2) h have "read_run_detail parse root_dir task_id (de_name e) (de_events e) = Inr (Some x)"
      by (auto simp: readable_def split: sum.splits option.splits)
    moreover from e(2) have "de_type e = Inr Directory" "valid_component (de_name e)"
      by (auto simp: header_of_def split: if_splits)
    ultimately show "x \<in> ?r" using e(1) by blast
  qed
  from assms(2) obtain rs s' where
    c: "collect_runs ph root_dir task_id (\<lambda>_ e s. (Inl e, s)) (map Inr (td_entries d)) [] () = (Inr rs, s')"
    by (auto simp: run_ids_def run_ids_with_errors_def listing_of_def try_in_def split: sum.splits prod.splits)
  show "?r \<subseteq> ?l"
  proof
    fix x
    assume "x \<in> ?r"
    then obtain e where e: "e \<in> set (td_entries d)" "de_type e = Inr Directory" "valid_component (de_name e)"
      "read_run_detail parse root_dir task_id (de_name e) (de_events e) = Inr (Some x)" by blast
    with assms(3) have "header_of ph root_dir task_id e = Some (run_key x)"
      by (intro readable_has_key [OF c]) (simp_all add: list_all_iff)
    then have k: "run_key x \<in> set (history_keys ph root_dir task_id d)" "snd (run_key x) = de_name e"
      using e(1) by (auto simp: set_history_keys dest: header_of_name)
    moreover have "readable (\<lambda>rid. read_run_detail parse root_dir task_id rid (open_run d rid)) (de_name e) = Some x"
      using names_distinct_find [OF assms(1) e(1)] e(4) by (simp add: readable_def open_run_def)
    ultimately show "x \<in> ?l" by (force simp: history_of_def List.map_filter_def image_iff)
  qed
qed

section \<open>A client of a history that changes\<close>

text \<open>A run that can be read, and a directory in which something cannot: a header, or a journal that is not merely gone.\<close>

definition run_in :: "event_parser \<Rightarrow> string \<Rightarrow> string \<Rightarrow> task_dir \<Rightarrow> run_detail \<Rightarrow> bool" where
  "run_in parse root_dir task_id d x \<longleftrightarrow> (\<exists>e\<in>set (td_entries d). de_type e = Inr Directory \<and> valid_component (de_name e) \<and>
     read_run_detail parse root_dir task_id (de_name e) (de_events e) = Inr (Some x))"

definition damaged :: "header_parser \<Rightarrow> event_parser \<Rightarrow> (string \<Rightarrow> int option) \<Rightarrow> string \<Rightarrow> string \<Rightarrow> task_dir \<Rightarrow> bool" where
  "damaged ph parse parse_time root_dir task_id d \<longleftrightarrow>
     (case run_ids ph parse_time root_dir (listing_of d) task_id None of
        Inl _ \<Rightarrow> True
      | Inr ids \<Rightarrow> list_ex (\<lambda>rid. case read_run_detail parse root_dir task_id rid (open_run d rid) of
          Inl e \<Rightarrow> e \<noteq> Not_Found | Inr _ \<Rightarrow> False) ids)"

definition dir_ok :: "header_parser \<Rightarrow> event_parser \<Rightarrow> (string \<Rightarrow> int option) \<Rightarrow> (int \<Rightarrow> string) \<Rightarrow> string \<Rightarrow> string \<Rightarrow> task_dir \<Rightarrow> bool" where
  "dir_ok ph parse parse_time to_rfc3339 root_dir task_id d \<longleftrightarrow> names_distinct d \<and> list_all (header_agrees ph parse) (td_entries d) \<and>
     list_all (time_ok to_rfc3339 parse_time) (map fst (history_keys ph root_dir task_id d))"

definition below :: "(int \<times> string) option \<Rightarrow> int \<times> string \<Rightarrow> bool" where
  "below b k \<longleftrightarrow> (case b of None \<Rightarrow> True | Some c \<Rightarrow> k < c)"

lemma below_simps: "below None = (\<lambda>_. True)" "below (Some c) = (\<lambda>k. k < c)"
  by (simp_all add: below_def fun_eq_iff)

lemma below_trans: "below b c \<Longrightarrow> k < c \<Longrightarrow> below b k"
  using order.strict_trans [of k c] by (cases b) (auto simp only: below_simps)

text \<open>A cursor and the key it stands for.\<close>

definition cursor_at :: "(int \<Rightarrow> string) \<Rightarrow> (string \<Rightarrow> int option) \<Rightarrow> string option \<Rightarrow> (int \<times> string) option \<Rightarrow> bool" where
  "cursor_at to_rfc3339 parse_time before b \<longleftrightarrow>
     (case b of None \<Rightarrow> before = None
      | Some (t, i) \<Rightarrow> before = Some (cursor_to_string to_rfc3339 \<lparr>cu_started_at = t, cu_id = i\<rparr>) \<and>
          time_ok to_rfc3339 parse_time t \<and> valid_component i)"

lemma history_key:
  assumes "dir_ok ph parse parse_time to_rfc3339 root_dir task_id d" "x \<in> set (history_of ph parse root_dir d task_id)"
  shows "run_key x \<in> set (history_keys ph root_dir task_id d)"
    and "cursor_at to_rfc3339 parse_time (Some (cursor_to_string to_rfc3339 (run_cursor_of (rd_run x)))) (Some (run_key x))"
proof -
  from assms(2) obtain k where k: "k \<in> set (history_keys ph root_dir task_id d)"
    "readable (\<lambda>rid. read_run_detail parse root_dir task_id rid (open_run d rid)) (snd k) = Some x"
    by (auto simp: history_of_def List.map_filter_def)
  then have kx: "run_key x = k" using assms(1) readable_key [of d ph parse k] by (simp add: dir_ok_def)
  with k show "run_key x \<in> set (history_keys ph root_dir task_id d)" by simp
  have "valid_component (snd k)" using k(1) by (auto simp: set_history_keys dest!: header_of_SomeD)
  moreover have "time_ok to_rfc3339 parse_time (fst k)" using assms(1) k(1) by (auto simp: dir_ok_def list_all_iff)
  ultimately show "cursor_at to_rfc3339 parse_time (Some (cursor_to_string to_rfc3339 (run_cursor_of (rd_run x)))) (Some (run_key x))"
    using kx by (auto simp: cursor_at_def run_key_def run_cursor_of_def)
qed

lemma history_of_sorted:
  assumes "dir_ok ph parse parse_time to_rfc3339 root_dir task_id d"
  shows "sorted_wrt (\<lambda>x y. run_key y < run_key x) (history_of ph parse root_dir d task_id)"
  unfolding history_of_def
  by (rule map_filter_sorted [OF _ history_sorted]) (use assms readable_key in \<open>auto simp: dir_ok_def\<close>)

text \<open>One request: an error, and then there is damage, or the next runs below the cursor.\<close>

lemma query_cases:
  assumes ok: "dir_ok ph parse parse_time to_rfc3339 root_dir task_id d" and c: "cursor_at to_rfc3339 parse_time before b"
    and lim: "1 \<le> limit" "limit \<le> 500" "get_task task_id = Inr tk"
  obtains (err) e where "query_runs ph parse parse_time to_rfc3339 root_dir get_task d task_id before limit = Inl e"
      "damaged ph parse parse_time root_dir task_id d"
  | (page) ids where "run_ids ph parse_time root_dir (listing_of d) task_id None = Inr ids"
      "query_runs ph parse parse_time to_rfc3339 root_dir get_task d task_id before limit =
        Inr (page_of to_rfc3339 limit (filter (\<lambda>x. below b (run_key x)) (history_of ph parse root_dir d task_id)))"
proof (cases "run_ids ph parse_time root_dir (listing_of d) task_id None")
  case (Inl e)
  then have dmg: "damaged ph parse parse_time root_dir task_id d" by (simp add: damaged_def)
  show thesis
  proof (cases "run_ids ph parse_time root_dir (listing_of d) task_id before")
    case l: (Inl e')
    then show thesis using lim dmg by (intro err) (auto simp: query_runs_def ensure_def)
  next
    case (Inr ids)
    have False
    proof -
      let ?c = "collect_runs ph root_dir task_id (\<lambda>_ e s. (Inl e, s)) (map Inr (td_entries d)) [] ()"
      have "(\<exists>e. fst ?c = Inl e) \<or> (\<exists>e. check_component task_id = Inl e)"
        using Inl by (cases ?c) (auto simp: run_ids_def run_ids_with_errors_def listing_of_def try_in_def Let_def split: sum.splits prod.splits)
      then show False
        using Inr by (cases ?c) (auto simp: run_ids_def run_ids_with_errors_def listing_of_def try_in_def Let_def split: sum.splits prod.splits option.splits)
    qed
    then show thesis ..
  qed
next
  case (Inr ids)
  let ?K = "history_keys ph root_dir task_id d"
  let ?read = "\<lambda>rid. read_run_detail parse root_dir task_id rid (open_run d rid)"
  have ids: "ids = map snd ?K" by (rule run_ids_None [OF Inr])
  have before: "run_ids ph parse_time root_dir (listing_of d) task_id before = Inr (map snd (filter (below b) ?K))"
  proof (cases b)
    case None
    then have "before = None" "filter (below b) ?K = ?K" using c by (simp_all add: cursor_at_def below_def)
    then show ?thesis using Inr ids by simp
  next
    case (Some k)
    obtain t i where k: "k = (t, i)" by force
    have "before = Some (cursor_to_string to_rfc3339 \<lparr>cu_started_at = t, cu_id = i\<rparr>)" "time_ok to_rfc3339 parse_time t" "valid_component i"
      using c by (simp_all add: cursor_at_def Some k)
    from run_ids_before [OF Inr this(1)] this(2,3) show ?thesis by (simp add: below_simps Some k)
  qed
  have sub: "set (map snd (filter (below b) ?K)) \<subseteq> set ids" by (auto simp: ids)
  have key: "\<forall>k\<in>set ?K. \<forall>x. readable ?read (snd k) = Some x \<longrightarrow> run_key x = k"
    using ok readable_key [of d ph parse] by (simp add: dir_ok_def)
  show thesis
  proof (cases "page_items ?read limit (map snd (filter (below b) ?K)) []")
    case (Inl e)
    from page_items_Inl [OF this] obtain rid where "rid \<in> set ids" "?read rid = Inl e" "e \<noteq> Not_Found" using sub by blast
    then have "damaged ph parse parse_time root_dir task_id d" using Inr by (auto simp: damaged_def list_ex_iff intro: bexI [of _ rid])
    then show thesis using lim before Inl by (intro err [of e]) (auto simp: query_runs_def ensure_def)
  next
    case i: (Inr items)
    have "items = take (Suc limit) (filter (\<lambda>x. below b (run_key x)) (history_of ph parse root_dir d task_id))"
      using page_items_Inr [OF i] map_filter_keys [OF key, of "below b"] by (simp add: history_of_def)
    then show thesis
      using lim before i page_of_items [OF lim(1), symmetric] by (intro page [OF Inr]) (simp add: query_runs_def ensure_def Let_def)
  qed
qed

lemma set_history_run_in:
  assumes "dir_ok ph parse parse_time to_rfc3339 root_dir task_id d" "run_ids ph parse_time root_dir (listing_of d) task_id None = Inr ids"
  shows "x \<in> set (history_of ph parse root_dir d task_id) \<longleftrightarrow> run_in parse root_dir task_id d x"
  using set_history_of [of d ph parse_time root_dir task_id ids parse] assms by (simp add: dir_ok_def run_in_def)

text \<open>What a client has seen when it followed the cursors from \<open>b\<close> on, its first request finding the directory \<open>ds n\<close>.\<close>

definition client_ok :: "(nat \<Rightarrow> run_detail \<Rightarrow> bool) \<Rightarrow> (nat \<Rightarrow> bool) \<Rightarrow> nat \<Rightarrow> nat \<Rightarrow> (int \<times> string) option
    \<Rightarrow> run_detail list list \<times> history_error option \<Rightarrow> bool" where
  "client_ok present bad limit n b result \<longleftrightarrow> (case result of (ps, err) \<Rightarrow>
     sorted_wrt (\<lambda>x y. run_key y < run_key x) (concat ps) \<and> (\<forall>x\<in>set (concat ps). below b (run_key x)) \<and>
     (\<forall>p\<in>set ps. length p \<le> limit) \<and>
     (\<forall>i<length ps. \<forall>x\<in>set (ps ! i). present (n + i) x) \<and>
     (\<forall>k. below b k \<longrightarrow> (\<forall>i<length ps. \<exists>x. present (n + i) x \<and> run_key x = k) \<longrightarrow>
        k \<in> run_key ` set (concat ps) \<or> err \<noteq> None \<and> (\<forall>y\<in>set (concat ps). k < run_key y)) \<and>
     (err \<noteq> None \<longrightarrow> bad (n + length ps)))"

lemma client_ok_page:
  assumes xs: "xs = filter (\<lambda>x. below b (run_key x)) h" and h: "sorted_wrt (\<lambda>x y. run_key y < run_key x) h" "\<And>x. x \<in> set h \<longleftrightarrow> present n x"
    and lim: "0 < limit" "limit < length xs" and rest: "client_ok present bad limit (Suc n) (Some (run_key (xs ! (limit - 1)))) (ps, err)"
  shows "client_ok present bad limit n b (take limit xs # ps, err)"
proof -
  let ?y = "xs ! (limit - 1)"
  have s: "sorted_wrt (\<lambda>x y. run_key y < run_key x) xs" using h(1) by (simp add: xs sorted_wrt_filter)
  have d: "filter (\<lambda>x. run_key x < run_key ?y) xs = drop limit xs" using lim by (intro filter_below_nth [OF s]) simp_all
  have yb: "below b (run_key ?y)" using lim nth_mem [of "limit - 1" xs] by (auto simp: xs)
  have top: "run_key ?y \<le> run_key x" if x: "x \<in> set (take limit xs)" for x
  proof -
    obtain i where i: "i < limit" "x = xs ! i" using x lim by (auto simp: in_set_conv_nth)
    show ?thesis
    proof (cases "i = limit - 1")
      case False
      then have "i < limit - 1" using i(1) by simp
      then have "run_key ?y < run_key (xs ! i)" using lim by (intro sorted_wrt_nth_less [OF s]) simp_all
      then show ?thesis unfolding i(2) by (rule less_imp_le)
    qed (simp add: i)
  qed
  note c1 = rest [unfolded client_ok_def prod.case below_simps] note c2 = conjunct2 [OF c1] note c3 = conjunct2 [OF c2]
  note c4 = conjunct2 [OF c3] note c5 = conjunct2 [OF c4]
  note r = conjunct1 [OF c1] bspec [OF conjunct1 [OF c2]] bspec [OF conjunct1 [OF c3]] bspec [OF mp [OF spec [OF conjunct1 [OF c4]]]]
    mp [OF mp [OF spec [OF conjunct1 [OF c5]]]] mp [OF conjunct2 [OF c5]]
  have sorted: "sorted_wrt (\<lambda>x y. run_key y < run_key x) (concat (take limit xs # ps))"
    using r(1) sorted_wrt_take [OF s, of limit] top r(2) by (fastforce simp: sorted_wrt_append simp del: set_concat)
  have bel: "below b (run_key x)" if "x \<in> set (concat (take limit xs # ps))" for x
  proof (cases "x \<in> set (take limit xs)")
    case True
    then show ?thesis using in_set_takeD xs by fastforce
  next
    case False
    then have "run_key x < run_key ?y" using that r(2) by auto
    then show ?thesis by (rule below_trans [OF yb])
  qed
  have pres: "present (n + i) x" if "i < length (take limit xs # ps)" "x \<in> set ((take limit xs # ps) ! i)" for i x
  proof (cases i)
    case 0
    then show ?thesis using that h(2) in_set_takeD [of x limit xs] by (auto simp: xs)
  next
    case (Suc j)
    then show ?thesis using that r(4) [of j x] by simp
  qed
  have gap: "k \<in> run_key ` set (concat (take limit xs # ps)) \<or> err \<noteq> None \<and> (\<forall>y\<in>set (concat (take limit xs # ps)). k < run_key y)"
    if k: "below b k" "\<forall>i<length (take limit xs # ps). \<exists>x. present (n + i) x \<and> run_key x = k" for k
  proof -
    obtain x where x: "x \<in> set h" "run_key x = k" using k(2) [rule_format, of 0] h(2) by auto
    then have xx: "x \<in> set xs" using k(1) by (simp add: xs)
    show ?thesis
    proof (cases "x \<in> set (take limit xs)")
      case True
      then show ?thesis using x(2) by auto
    next
      case False
      then have "x \<in> set (drop limit xs)" using xx by (metis Un_iff append_take_drop_id set_append)
      then have "x \<in> set (filter (\<lambda>x. run_key x < run_key ?y) xs)" unfolding d .
      then have lt: "k < run_key ?y" using x(2) by simp
      have "\<forall>i<length ps. \<exists>x. present (Suc n + i) x \<and> run_key x = k"
        using k(2) by (metis add_Suc_shift length_Cons Suc_less_eq)
      from r(5) [OF lt this] show ?thesis
      proof
        assume "k \<in> run_key ` set (concat ps)"
        then show ?thesis by auto
      next
        assume e: "err \<noteq> None \<and> (\<forall>y\<in>set (concat ps). k < run_key y)"
        have "k < run_key y" if "y \<in> set (concat (take limit xs # ps))" for y
          using that e top [of y] lt by (cases "y \<in> set (take limit xs)") (auto intro: order.strict_trans2)
        then show ?thesis using e by blast
      qed
    qed
  qed
  show ?thesis unfolding client_ok_def prod.case
    using sorted bel pres gap r(3,6) by (intro conjI) (simp_all add: min_def)
qed

lemma follow_pages_ok:
  assumes ok: "\<And>n. dir_ok ph parse parse_time to_rfc3339 root_dir task_id (ds n)"
    and U: "finite U" "\<And>n. set (history_keys ph root_dir task_id (ds n)) \<subseteq> U"
    and lim: "1 \<le> limit" "limit \<le> 500" "get_task task_id = Inr tk"
  shows "cursor_at to_rfc3339 parse_time before b \<Longrightarrow> card {k \<in> U. below b k} < fuel \<Longrightarrow>
    \<exists>r. follow_pages (\<lambda>n before. query_runs ph parse parse_time to_rfc3339 root_dir get_task (ds n) task_id before limit) fuel n before = Some r \<and>
      client_ok (\<lambda>n. run_in parse root_dir task_id (ds n)) (\<lambda>n. damaged ph parse parse_time root_dir task_id (ds n)) limit n b r"
proof (induction fuel arbitrary: n before b)
  case (Suc fuel)
  let ?xs = "filter (\<lambda>x. below b (run_key x)) (history_of ph parse root_dir (ds n) task_id)"
  from ok [of n] Suc.prems(1) lim show ?case
  proof (cases rule: query_cases)
    case (err e)
    then show ?thesis by (simp add: client_ok_def)
  next
    case (page ids)
    note run = set_history_run_in [OF ok page(1)]
    show ?thesis
    proof (cases "limit < length ?xs")
      case False
      have q: "follow_pages (\<lambda>n before. query_runs ph parse parse_time to_rfc3339 root_dir get_task (ds n) task_id before limit) (Suc fuel) n before =
          Some ([?xs], None)" using page(2) False by (simp add: page_of_def)
      have "client_ok (\<lambda>n. run_in parse root_dir task_id (ds n)) (\<lambda>n. damaged ph parse parse_time root_dir task_id (ds n)) limit n b ([?xs], None)"
        unfolding client_ok_def using history_of_sorted [OF ok] False run by (auto simp: sorted_wrt_filter image_iff)
      with q show ?thesis by blast
    next
      case True
      let ?y = "?xs ! (limit - 1)"
      have y: "?y \<in> set (history_of ph parse root_dir (ds n) task_id)" "below b (run_key ?y)"
        using nth_mem [of "limit - 1" ?xs] True by auto
      note hk = history_key [OF ok y(1)]
      have "card {k \<in> U. below (Some (run_key ?y)) k} < card {k \<in> U. below b k}"
      proof (rule psubset_card_mono)
        show "finite {k \<in> U. below b k}" using U(1) by simp
        have "run_key ?y \<in> {k \<in> U. below b k}" using hk(1) U(2) y(2) by blast
        moreover have "run_key ?y \<notin> {k \<in> U. below (Some (run_key ?y)) k}" by (simp add: below_def)
        moreover have "{k \<in> U. below (Some (run_key ?y)) k} \<subseteq> {k \<in> U. below b k}"
          unfolding below_simps using below_trans [OF y(2)] by blast
        ultimately show "{k \<in> U. below (Some (run_key ?y)) k} \<subset> {k \<in> U. below b k}" by blast
      qed
      then have "card {k \<in> U. below (Some (run_key ?y)) k} < fuel" using Suc.prems(2) by simp
      from Suc.IH [OF hk(2) this, of "Suc n"] obtain ps e where
        r: "follow_pages (\<lambda>n before. query_runs ph parse parse_time to_rfc3339 root_dir get_task (ds n) task_id before limit) fuel (Suc n)
          (Some (cursor_to_string to_rfc3339 (run_cursor_of (rd_run ?y)))) = Some (ps, e)"
        "client_ok (\<lambda>n. run_in parse root_dir task_id (ds n)) (\<lambda>n. damaged ph parse parse_time root_dir task_id (ds n)) limit (Suc n)
          (Some (run_key ?y)) (ps, e)" by auto
      from client_ok_page [OF refl history_of_sorted [OF ok] run _ True r(2)] lim(1)
      have "client_ok (\<lambda>n. run_in parse root_dir task_id (ds n)) (\<lambda>n. damaged ph parse parse_time root_dir task_id (ds n)) limit n b
          (take limit ?xs # ps, e)" by simp
      with page(2) True r(1) show ?thesis by (simp add: page_of_def)
    qed
  qed
qed simp

text \<open>C28: A client that follows the cursors of the run pages of a task while runs are started, finished and removed comes
  to an end after at most as many requests as there ever are runs, and one more. It gets the runs from the newest to the
  oldest, none twice, at most \<open>limit\<close> on a page and each as it was readable when its page was asked for. No run that is
  readable all the time is skipped: it is on one of the pages, or it is older than all that is on them and the last request
  has failed. A request fails only if the listing fails or the journal of a listed run cannot be read.\<close>

theorem paging_visits_every_run_once:
  assumes "\<forall>n. dir_ok ph parse parse_time to_rfc3339 root_dir task_id (ds n)"
    and "finite U" "\<forall>n. set (history_keys ph root_dir task_id (ds n)) \<subseteq> U"
    and "1 \<le> limit" "limit \<le> 500" "get_task task_id = Inr tk"
  shows "\<exists>ps err. follow_pages (\<lambda>n before. query_runs ph parse parse_time to_rfc3339 root_dir get_task (ds n) task_id before limit)
      (Suc (card U)) 0 None = Some (ps, err) \<and>
    sorted_wrt (\<lambda>x y. run_key y < run_key x) (concat ps) \<and> (\<forall>p\<in>set ps. length p \<le> limit) \<and>
    (\<forall>i<length ps. \<forall>x\<in>set (ps ! i). run_in parse root_dir task_id (ds i) x) \<and>
    (\<forall>k. (\<forall>i<length ps. \<exists>x. run_in parse root_dir task_id (ds i) x \<and> run_key x = k) \<longrightarrow>
       k \<in> run_key ` set (concat ps) \<or> err \<noteq> None \<and> (\<forall>y\<in>set (concat ps). k < run_key y)) \<and>
    (err \<noteq> None \<longrightarrow> damaged ph parse parse_time root_dir task_id (ds (length ps)))"
proof -
  have "card {k \<in> U. below None k} < Suc (card U)" by (simp add: below_def)
  moreover have "cursor_at to_rfc3339 parse_time None None" by (simp add: cursor_at_def)
  ultimately obtain r where
    "follow_pages (\<lambda>n before. query_runs ph parse parse_time to_rfc3339 root_dir get_task (ds n) task_id before limit) (Suc (card U)) 0 None = Some r"
    "client_ok (\<lambda>n. run_in parse root_dir task_id (ds n)) (\<lambda>n. damaged ph parse parse_time root_dir task_id (ds n)) limit 0 None r"
    using follow_pages_ok [of ph parse parse_time to_rfc3339 root_dir task_id ds U limit get_task tk None None "Suc (card U)" 0] assms by blast
  then show ?thesis by (cases r) (auto simp: client_ok_def below_def)
qed

definition sample_events :: event_parser where
  "sample_events l = (case l of [] \<Rightarrow> Inl Invalid_Json
     | c # _ \<Rightarrow> Inr (Stored_Started (sample_run\<lparr>rn_id := ''r'' @ [c], rn_started_at := int (byte_of c)\<rparr>) greeting_task))"

definition sample_rfc3339 :: "int \<Rightarrow> string" where
  "sample_rfc3339 t = [char_of (nat t)]"

text \<open>A run is removed between the requests, and a newer one appears.\<close>

definition later_dir :: task_dir where
  "later_dir = \<lparr>td_entries = [sample_entry CHR ''4'' True, sample_entry CHR ''3'' False, sample_link, sample_entry CHR ''1'' True], td_active = [''r1'']\<rparr>"

definition sample_dirs :: "nat \<Rightarrow> task_dir" where
  "sample_dirs n = (if n = 0 then sample_dir else later_dir)"

definition sample_pages :: "nat \<Rightarrow> (run_detail list list \<times> history_error option) option" where
  "sample_pages fuel = follow_pages (\<lambda>n before. query_runs sample_header sample_events sample_parse_time sample_rfc3339 ''/s''
     (\<lambda>_. Inr ()) (sample_dirs n) ''t1'' before 1) fuel 0 None"

theorem paging_visits_every_run_once_witness:
  "(\<exists>ps err. sample_pages 5 = Some (ps, err) \<and> sorted_wrt (\<lambda>x y. run_key y < run_key x) (concat ps)) \<and>
   map_option (\<lambda>(ps, err). (map (map (rn_id \<circ> rd_run)) ps, err)) (sample_pages 5) = Some ([[''r3''], [''r1'']], None)"
proof -
  let ?ok = "dir_ok sample_header sample_events sample_parse_time sample_rfc3339 ''/s'' ''t1''"
  have "?ok sample_dir" "?ok later_dir" unfolding dir_ok_def names_distinct_def by code_simp+
  then have ok: "\<forall>n. ?ok (sample_dirs n)" by (simp add: sample_dirs_def)
  define U where "U = {(49 :: int, ''r1''), (50, ''r2''), (51, ''r3''), (52, ''r4'')}"
  have "set (history_keys sample_header ''/s'' ''t1'' sample_dir) \<subseteq> U" "set (history_keys sample_header ''/s'' ''t1'' later_dir) \<subseteq> U"
    unfolding U_def by code_simp+
  then have keys: "\<forall>n. set (history_keys sample_header ''/s'' ''t1'' (sample_dirs n)) \<subseteq> U" by (simp add: sample_dirs_def)
  have "finite U" "Suc (card U) = 5" by (simp_all add: U_def)
  with paging_visits_every_run_once [OF ok _ keys, of 1 "\<lambda>_. Inr ()" "()"]
  have "\<exists>ps err. sample_pages 5 = Some (ps, err) \<and> sorted_wrt (\<lambda>x y. run_key y < run_key x) (concat ps)"
    unfolding sample_pages_def by (metis (no_types, lifting) le_refl one_le_numeral)
  moreover have "map_option (\<lambda>(ps, err). (map (map (rn_id \<circ> rd_run)) ps, err)) (sample_pages 5) = Some ([[''r3''], [''r1'']], None)"
    by code_simp
  ultimately show ?thesis by blast
qed

end
