(* ===== verification/Inbox_Model.thy ===== *)
theory Inbox_Model
  imports Auto_Task Snowflake_Id
begin

text \<open>
  The requirement inbox: the data of \<open>crates/server/src/inbox/model.rs\<close>, the validation and the document
  changes of \<open>store.rs\<close>, the context of \<open>context.rs\<close>. \<open>lower\<close> is \<open>str::to_lowercase\<close>
  (the Unicode tables), \<open>md5\<close> the fingerprint of a text; new identifiers and the current time are arguments.
\<close>

datatype inbox_error = Inbox_Invalid string | Inbox_Conflict string | Inbox_Missing | Inbox_Internal string

definition inbox_status :: "inbox_error \<Rightarrow> nat \<times> string" where
  "inbox_status e = (case e of
     Inbox_Invalid _ \<Rightarrow> (400, ''invalid_inbox'') | Inbox_Conflict _ \<Rightarrow> (409, ''inbox_conflict'')
   | Inbox_Missing \<Rightarrow> (404, ''inbox_not_found'') | Inbox_Internal _ \<Rightarrow> (500, ''internal_error''))"

section \<open>Data\<close>

record label =
  lb_id :: string
  lb_name :: string
  lb_color :: string

record item =
  it_id :: string
  it_markdown :: string
  it_project_id :: "string option"
  it_label_ids :: "string list"
  it_revision :: u64
  it_created_at :: string
  it_updated_at :: string

record document =
  dc_version :: u32
  dc_revision :: u64
  dc_labels :: "label list"
  dc_items :: "item list"
  dc_captures :: "(string, string \<times> string) fmap"

definition document_default :: document where
  "document_default = \<lparr>dc_version = 1, dc_revision = 0,
     dc_labels = map (\<lambda>(i, n, c). \<lparr>lb_id = i, lb_name = n, lb_color = c\<rparr>)
       [(''todo'', ''TODO'', ''#94a3b8''), (''in-progress'', ''InProgress'', ''#60a5fa''),
        (''review'', ''Review'', ''#c4b5fd''), (''done'', ''Done'', ''#86cfa5'')],
     dc_items = [], dc_captures = fmempty\<rparr>"

record capture_request =
  cp_request_key :: string
  cp_markdown :: string

record update_request =
  up_expected_revision :: u64
  up_markdown :: string
  up_project_id :: "string option"
  up_label_ids :: "string list"

record reorder_request =
  rr_expected_revision :: u64
  rr_item_id :: string
  rr_before_id :: "string option"

record labels_request =
  lr_expected_revision :: u64
  lr_labels :: "label list"

section \<open>Validation\<close>

definition validate_id :: "string \<Rightarrow> (inbox_error, unit) result" where
  "validate_id s = ensure (is_valid_id s) (Inbox_Invalid ''server.invalid_id'')"

definition validate_markdown :: "string \<Rightarrow> (inbox_error, unit) result" where
  "validate_markdown s =
     ensure (\<not> (trim s = [] \<or> 128 * 1024 < length s \<or> char_of (0 :: nat) \<in> set s))
       (Inbox_Invalid ''server.enter_a_requirement_up_to_128_kib_of_text'')"

definition check_revision :: "u64 \<Rightarrow> u64 \<Rightarrow> (inbox_error, unit) result" where
  "check_revision current expected =
     ensure (current = expected) (Inbox_Conflict ''server.content_was_updated_in_another_page_check_the_latest'')"

definition is_hexdigit :: "char \<Rightarrow> bool" where
  "is_hexdigit c \<longleftrightarrow> (48 \<le> byte_of c \<and> byte_of c \<le> 57) \<or> (65 \<le> byte_of c \<and> byte_of c \<le> 70) \<or>
     (97 \<le> byte_of c \<and> byte_of c \<le> 102)"

fun check_labels :: "(string \<Rightarrow> string) \<Rightarrow> string list \<Rightarrow> string list \<Rightarrow> label list \<Rightarrow> (inbox_error, unit) result" where
  "check_labels lower ids names [] = Inr ()"
| "check_labels lower ids names (l # ls) =
     rbind (validate_id (lb_id l)) (\<lambda>_.
     if lb_id l \<in> set ids \<or> trim (lb_name l) = [] \<or> 40 < char_count (lb_name l) \<or>
        lower (trim (lb_name l)) \<in> set names \<or> length (lb_color l) \<noteq> 7 \<or> \<not> prefix ''#'' (lb_color l) \<or>
        \<not> list_all is_hexdigit (tl (lb_color l))
     then Inl (Inbox_Invalid ''server.label_names_must_be_unique_and_at_most_40'')
     else check_labels lower (lb_id l # ids) (lower (trim (lb_name l)) # names) ls)"

definition validate_labels :: "(string \<Rightarrow> string) \<Rightarrow> label list \<Rightarrow> (inbox_error, unit) result" where
  "validate_labels lower ls =
     rbind (ensure (length ls \<le> 64) (Inbox_Invalid ''server.at_most_64_labels_are_allowed'')) (\<lambda>_.
     check_labels lower [] [] ls)"

fun check_items :: "string list \<Rightarrow> string list \<Rightarrow> item list \<Rightarrow> (inbox_error, unit) result" where
  "check_items labels ids [] = Inr ()"
| "check_items labels ids (i # items) =
     rbind (validate_id (it_id i)) (\<lambda>_.
     rbind (validate_markdown (it_markdown i)) (\<lambda>_.
     rbind (case it_project_id i of None \<Rightarrow> Inr () | Some p \<Rightarrow> validate_id p) (\<lambda>_.
     if it_id i \<in> set ids \<or> \<not> distinct (it_label_ids i) \<or> \<not> list_all (\<lambda>l. l \<in> set labels) (it_label_ids i)
     then Inl (Inbox_Invalid ''server.invalid_requirement_id_or_labels'')
     else check_items labels (it_id i # ids) items)))"

definition validate_document :: "(string \<Rightarrow> string) \<Rightarrow> document \<Rightarrow> (inbox_error, unit) result" where
  "validate_document lower doc =
     rbind (validate_labels lower (dc_labels doc)) (\<lambda>_.
     check_items (map lb_id (dc_labels doc)) [] (dc_items doc))"

section \<open>Changes of the document\<close>

text \<open>The closures handed to \<open>mutate\<close>: the result and the changed document.\<close>

type_synonym 'a change = "document \<Rightarrow> (inbox_error, 'a \<times> document) result"

definition find_item :: "string \<Rightarrow> document \<Rightarrow> (inbox_error, item) result" where
  "find_item i doc = ok_or (find (\<lambda>x. it_id x = i) (dc_items doc)) Inbox_Missing"

definition capture_change :: "(string \<Rightarrow> string) \<Rightarrow> string \<Rightarrow> string \<Rightarrow> capture_request \<Rightarrow> item change" where
  "capture_change md5 new_id now req doc =
     (case fmlookup (dc_captures doc) (cp_request_key req) of
        Some (i, previous) \<Rightarrow>
          if previous \<noteq> md5 (cp_markdown req)
          then Inl (Inbox_Conflict ''server.this_entry_was_submitted_refresh_the_list_to_confirm'')
          else (case find (\<lambda>x. it_id x = i) (dc_items doc) of
              None \<Rightarrow> Inl (Inbox_Conflict ''server.this_entry_was_deleted'')
            | Some x \<Rightarrow> Inr (x, doc))
      | None \<Rightarrow>
          let x = \<lparr>it_id = new_id, it_markdown = cp_markdown req, it_project_id = None, it_label_ids = [],
                   it_revision = 1, it_created_at = now, it_updated_at = now\<rparr>
          in Inr (x, doc\<lparr>dc_captures := fmupd (cp_request_key req) (new_id, md5 (cp_markdown req)) (dc_captures doc),
                         dc_items := dc_items doc @ [x]\<rparr>))"

definition update_change :: "string \<Rightarrow> string \<Rightarrow> update_request \<Rightarrow> item change" where
  "update_change now i req doc =
     (case position (\<lambda>x. it_id x = i) (dc_items doc) of
        None \<Rightarrow> Inl Inbox_Missing
      | Some k \<Rightarrow>
          let x = dc_items doc ! k
          in rbind (check_revision (it_revision x) (up_expected_revision req)) (\<lambda>_.
             let x' = x\<lparr>it_markdown := up_markdown req, it_project_id := up_project_id req,
                        it_label_ids := up_label_ids req, it_revision := it_revision x + 1, it_updated_at := now\<rparr>
             in Inr (x', doc\<lparr>dc_items := (dc_items doc)[k := x']\<rparr>)))"

definition delete_change :: "string \<Rightarrow> u64 \<Rightarrow> unit change" where
  "delete_change i expected doc =
     (case position (\<lambda>x. it_id x = i) (dc_items doc) of
        None \<Rightarrow> Inl Inbox_Missing
      | Some k \<Rightarrow>
          rbind (check_revision (it_revision (dc_items doc ! k)) expected) (\<lambda>_.
          Inr ((), doc\<lparr>dc_items := vec_remove k (dc_items doc)\<rparr>)))"

definition reorder_change :: "reorder_request \<Rightarrow> unit change" where
  "reorder_change req doc =
     rbind (check_revision (dc_revision doc) (rr_expected_revision req)) (\<lambda>_.
     case position (\<lambda>x. it_id x = rr_item_id req) (dc_items doc) of
       None \<Rightarrow> Inl Inbox_Missing
     | Some k \<Rightarrow>
         if rr_before_id req = Some (rr_item_id req) then Inr ((), doc)
         else
           let x = dc_items doc ! k;
               rest = vec_remove k (dc_items doc)
           in rbind (case rr_before_id req of
                 Some b \<Rightarrow> ok_or (position (\<lambda>y. it_id y = b) rest) Inbox_Missing
               | None \<Rightarrow> Inr (length rest)) (\<lambda>to.
              Inr ((), doc\<lparr>dc_items := vec_insert to x rest\<rparr>)))"

definition drop_labels :: "string \<Rightarrow> string list \<Rightarrow> item \<Rightarrow> item" where
  "drop_labels now ids x =
     (let kept = filter (\<lambda>l. l \<in> set ids) (it_label_ids x)
      in if length (it_label_ids x) \<noteq> length kept
         then x\<lparr>it_label_ids := kept, it_revision := it_revision x + 1, it_updated_at := now\<rparr>
         else x\<lparr>it_label_ids := kept\<rparr>)"

definition labels_change :: "(string \<Rightarrow> string) \<Rightarrow> string \<Rightarrow> labels_request \<Rightarrow> unit change" where
  "labels_change lower now req doc =
     rbind (check_revision (dc_revision doc) (lr_expected_revision req)) (\<lambda>_.
     rbind (validate_labels lower (lr_labels req)) (\<lambda>_.
     Inr ((), doc\<lparr>dc_items := map (drop_labels now (map lb_id (lr_labels req))) (dc_items doc),
                  dc_labels := lr_labels req\<rparr>)))"

section \<open>The context of an execution\<close>

text \<open>\<open>str::replace\<close> of one character.\<close>

definition replace_char :: "char \<Rightarrow> string \<Rightarrow> string \<Rightarrow> string" where
  "replace_char c r s = concat (map (\<lambda>x. if x = c then r else [x]) s)"

definition xml :: "string \<Rightarrow> string" where
  "xml s = replace_char (CHR 0x27) ''&apos;'' (replace_char (CHR 0x22) ''&quot;'' (replace_char CHR ''>'' ''&gt;''
     (replace_char CHR ''<'' ''&lt;'' (replace_char CHR ''&'' ''&amp;'' s))))"

definition context_task :: "string \<Rightarrow> string \<Rightarrow> string \<Rightarrow> string" where
  "context_task requirement_id execution_id markdown =
     (let nl = char_of (10 :: nat); q = char_of (34 :: nat) in
      ''<aow-inbox>'' @ [nl] @ ''  <requirement id='' @ [q] @ xml requirement_id @ [q] @ '' />'' @ [nl] @
      ''  <execution id='' @ [q] @ xml execution_id @ [q] @ '' />'' @ [nl] @
      ''  <description>'' @ xml ''This task comes from AoW Inbox. You can use aow-cli inbox commands to retrieve requirements and comments, update requirements, and append comments.'' @
      ''</description>'' @ [nl] @ ''</aow-inbox>'' @ [nl, nl] @ markdown)"

text \<open>The escapes read by an XML parser.\<close>

definition xml_char :: "char \<Rightarrow> string" where
  "xml_char c = (if c = CHR ''&'' then ''&amp;'' else if c = CHR ''<'' then ''&lt;'' else if c = CHR ''>'' then ''&gt;''
     else if c = CHR 0x22 then ''&quot;'' else if c = CHR 0x27 then ''&apos;'' else [c])"

fun unescape :: "string \<Rightarrow> string" where
  "unescape [] = []"
| "unescape (c # cs) =
     (if c = CHR ''&'' then
        (if prefix ''amp;'' cs then CHR ''&'' # unescape (drop 4 cs)
         else if prefix ''lt;'' cs then CHR ''<'' # unescape (drop 3 cs)
         else if prefix ''gt;'' cs then CHR ''>'' # unescape (drop 3 cs)
         else if prefix ''quot;'' cs then CHR 0x22 # unescape (drop 5 cs)
         else if prefix ''apos;'' cs then CHR 0x27 # unescape (drop 5 cs)
         else c # unescape cs)
      else c # unescape cs)"

lemma replace_char_append [simp]: "replace_char c r (a @ b) = replace_char c r a @ replace_char c r b"
  by (simp add: replace_char_def)

lemma xml_concat: "xml s = concat (map xml_char s)"
proof (induction s)
  case (Cons c s)
  have "xml (c # s) = xml [c] @ xml s"
    by (simp add: xml_def flip: replace_char_append)
  moreover have "xml [c] = xml_char c"
    by (simp add: xml_def xml_char_def replace_char_def)
  ultimately show ?case using Cons by simp
qed (simp add: xml_def replace_char_def)

lemma unescape_xml_char: "unescape (xml_char c @ s) = c # unescape s"
  by (simp add: xml_char_def eval_nat_numeral)

text \<open>An identifier escaped for the context of an execution cannot leave its attribute: it contains no angle
  bracket and no quote, and an XML parser reads exactly the identifier back.\<close>

lemma xml_escapes_attributes:
  "unescape (xml s) = s \<and> list_all (\<lambda>c. c \<notin> set (xml s)) [CHR ''<'', CHR ''>'', CHR 0x22, CHR 0x27]"
proof -
  have "unescape (concat (map xml_char s)) = s"
    by (induction s) (simp_all add: unescape_xml_char)
  moreover have "set (xml_char c) \<inter> {CHR ''<'', CHR ''>'', CHR 0x22, CHR 0x27} = {}" for c
    by (simp add: xml_char_def)
  ultimately show ?thesis by (auto simp: xml_concat)
qed

section \<open>Document changes keep the document valid\<close>

lemma find_Some_set: "find p xs = Some x \<Longrightarrow> x \<in> set xs \<and> p x"
  by (rule find_SomeD)

lemma check_items_iff:
  "check_items labels ids items = Inr () \<longleftrightarrow>
     distinct (map it_id items) \<and> set ids \<inter> set (map it_id items) = {} \<and>
     (\<forall>i\<in>set items. is_valid_id (it_id i) \<and> validate_markdown (it_markdown i) = Inr () \<and>
        (\<forall>p. it_project_id i = Some p \<longrightarrow> is_valid_id p) \<and> distinct (it_label_ids i) \<and> set (it_label_ids i) \<subseteq> set labels)"
proof (induction items arbitrary: ids)
  case (Cons i items)
  show ?case
    by (cases "it_project_id i")
      (auto simp: Cons.IH rbind_Inr_iff validate_id_def list_all_iff validate_markdown_def)
qed simp

lemma check_labels_distinct: "check_labels lower ids names ls = Inr u \<Longrightarrow> distinct (map lb_id ls) \<and> set ids \<inter> set (map lb_id ls) = {}"
  by (induction ls arbitrary: ids names) (fastforce simp: rbind_Inr_iff split: if_splits)+

lemma validate_document_items:
  "validate_document lower doc = Inr () \<Longrightarrow> distinct (map it_id (dc_items doc))"
  by (auto simp: validate_document_def rbind_Inr_iff check_items_iff)

lemma validate_document_labels:
  "validate_document lower doc = Inr () \<Longrightarrow> distinct (map lb_id (dc_labels doc))"
  by (auto simp: validate_document_def validate_labels_def rbind_Inr_iff dest: check_labels_distinct)

end
