(* ===== verification/Inbox_Disk.thy ===== *)
theory Inbox_Disk
  imports Inbox_Model "HOL-Library.Char_ord" "HOL-Library.List_Lexorder"
begin

text \<open>
  The files of the inbox: \<open>crates/server/src/inbox/persistence.rs\<close>. The disk holds \<open>labels.json\<close> and a
  directory with two files for every requirement, active or deleted. Each operation of the file system takes the next
  outcome of a sequence: it is done, it fails, or it is done and reports an error (a synchronization after the rename
  of a new file). \<open>serde_json\<close> is a parameter; \<open>names\<close> is the order in which \<open>read_dir\<close> lists
  the active directory. Creating the directories that hold all this, and temporary files that a failed write leaves, are not modelled.
\<close>

datatype outcome = Op_Done | Op_Failed | Op_Late

type_synonym faults = "nat \<Rightarrow> outcome"

record registry =
  rg_version :: u32
  rg_revision :: u64
  rg_labels :: "label list"
  rg_order :: "string list"
  rg_captures :: "(string, string \<times> string) fmap"

record inbox_codec =
  ic_enc_item :: "item \<Rightarrow> string"
  ic_dec_item :: "string \<Rightarrow> item option"
  ic_enc_registry :: "registry \<Rightarrow> string"
  ic_dec_registry :: "string \<Rightarrow> registry option"

record req_dir =
  rq_item :: "string option"
  rq_comments :: "string option"

record inbox_disk =
  dk_registry :: "string option"
  dk_active :: "(string, req_dir) fmap"
  dk_deleted :: "(string, req_dir) fmap"

datatype inbox_path = Registry_File | Item_File string | Comments_File string

definition get_file :: "inbox_path \<Rightarrow> inbox_disk \<Rightarrow> string option" where
  "get_file p d = (case p of
     Registry_File \<Rightarrow> dk_registry d
   | Item_File n \<Rightarrow> (case fmlookup (dk_active d) n of None \<Rightarrow> None | Some rq \<Rightarrow> rq_item rq)
   | Comments_File n \<Rightarrow> (case fmlookup (dk_active d) n of None \<Rightarrow> None | Some rq \<Rightarrow> rq_comments rq))"

text \<open>Writing a file creates its parent directory, removing one keeps it.\<close>

definition set_file :: "inbox_path \<Rightarrow> string option \<Rightarrow> inbox_disk \<Rightarrow> inbox_disk" where
  "set_file p b d =
     (let dir = (\<lambda>n. case fmlookup (dk_active d) n of None \<Rightarrow> \<lparr>rq_item = None, rq_comments = None\<rparr> | Some rq \<Rightarrow> rq)
      in case p of
           Registry_File \<Rightarrow> d\<lparr>dk_registry := b\<rparr>
         | Item_File n \<Rightarrow> d\<lparr>dk_active := fmupd n ((dir n)\<lparr>rq_item := b\<rparr>) (dk_active d)\<rparr>
         | Comments_File n \<Rightarrow> d\<lparr>dk_active := fmupd n ((dir n)\<lparr>rq_comments := b\<rparr>) (dk_active d)\<rparr>)"

section \<open>Undo\<close>

datatype undo = Undo_File inbox_path "string option" | Undo_Directory string | Undo_Move string

definition undo_apply :: "undo \<Rightarrow> inbox_disk \<Rightarrow> inbox_disk option" where
  "undo_apply u d = (case u of
     Undo_File p (Some b) \<Rightarrow> Some (set_file p (Some b) d)
   | Undo_File p None \<Rightarrow> Some (if get_file p d = None then d else set_file p None d)
   | Undo_Directory n \<Rightarrow>
       if fmlookup (dk_active d) n = Some \<lparr>rq_item = None, rq_comments = None\<rparr>
       then Some (d\<lparr>dk_active := fmdrop n (dk_active d)\<rparr>) else None
   | Undo_Move n \<Rightarrow> (case fmlookup (dk_deleted d) n of
         None \<Rightarrow> None
       | Some rq \<Rightarrow> if fmlookup (dk_active d) n \<noteq> None then None
           else Some (d\<lparr>dk_active := fmupd n rq (dk_active d), dk_deleted := fmdrop n (dk_deleted d)\<rparr>)))"

fun rollback :: "faults \<Rightarrow> nat \<Rightarrow> undo list \<Rightarrow> inbox_disk \<Rightarrow> (string, unit) result \<times> inbox_disk" where
  "rollback faults k [] d = (Inr (), d)"
| "rollback faults k (u # us) d =
     (case undo_apply u d of
        None \<Rightarrow> (Inl ''io'', d)
      | Some d' \<Rightarrow> (case faults k of
            Op_Done \<Rightarrow> rollback faults (Suc k) us d'
          | Op_Failed \<Rightarrow> (Inl ''io'', d)
          | Op_Late \<Rightarrow> (Inl ''io'', d')))"

section \<open>Saving\<close>

text \<open>The disk, the operations to undo (the latest first) and the number of operations done.\<close>

record work =
  wk_disk :: inbox_disk
  wk_undo :: "undo list"
  wk_clock :: nat

definition and_then :: "(string, unit) result \<times> work \<Rightarrow> (work \<Rightarrow> (string, unit) result \<times> work)
    \<Rightarrow> (string, unit) result \<times> work" where
  "and_then m k = (case m of (Inl e, w) \<Rightarrow> (Inl e, w) | (Inr _, w) \<Rightarrow> k w)"

definition work_tick :: "work \<Rightarrow> work" where
  "work_tick w = w\<lparr>wk_clock := Suc (wk_clock w)\<rparr>"

definition inspect :: "faults \<Rightarrow> work \<Rightarrow> (string, unit) result \<times> work" where
  "inspect faults w = (if faults (wk_clock w) = Op_Done then (Inr (), work_tick w) else (Inl ''io'', work_tick w))"

definition inbox_write_bytes :: "faults \<Rightarrow> inbox_path \<Rightarrow> string \<Rightarrow> work \<Rightarrow> (string, unit) result \<times> work" where
  "inbox_write_bytes faults p b w =
     (let written = (work_tick w)\<lparr>wk_disk := set_file p (Some b) (wk_disk w)\<rparr>
      in case faults (wk_clock w) of
           Op_Done \<Rightarrow> (Inr (), written)
         | Op_Failed \<Rightarrow> (Inl ''io'', work_tick w)
         | Op_Late \<Rightarrow> (Inl ''io'', written))"

definition replace_file :: "faults \<Rightarrow> inbox_path \<Rightarrow> string \<Rightarrow> work \<Rightarrow> (string, unit) result \<times> work" where
  "replace_file faults p b w =
     and_then (inspect faults w) (\<lambda>w.
       let previous = get_file p (wk_disk w)
       in if previous = Some b then (Inr (), w)
          else inbox_write_bytes faults p b (w\<lparr>wk_undo := Undo_File p previous # wk_undo w\<rparr>))"

fun move_deleted :: "faults \<Rightarrow> string list \<Rightarrow> string list \<Rightarrow> work \<Rightarrow> (string, unit) result \<times> work" where
  "move_deleted faults ids [] w = (Inr (), w)"
| "move_deleted faults ids (n # ns) w =
     (if n \<in> set ids then move_deleted faults ids ns w
      else if fmlookup (dk_deleted (wk_disk w)) n \<noteq> None then (Inl ''inbox.deleted_requirement_exists'', w)
      else case fmlookup (dk_active (wk_disk w)) n of
        None \<Rightarrow> (Inl ''io'', w)
      | Some rq \<Rightarrow> and_then (inspect faults w) (\<lambda>w.
          move_deleted faults ids ns
            (w\<lparr>wk_disk := (wk_disk w)\<lparr>dk_active := fmdrop n (dk_active (wk_disk w)),
                                     dk_deleted := fmupd n rq (dk_deleted (wk_disk w))\<rparr>,
               wk_undo := Undo_Move n # wk_undo w\<rparr>)))"

definition ensure_directory :: "faults \<Rightarrow> string \<Rightarrow> work \<Rightarrow> (string, unit) result \<times> work" where
  "ensure_directory faults n w =
     (if fmlookup (dk_active (wk_disk w)) n \<noteq> None then (Inr (), w)
      else if fmlookup (dk_deleted (wk_disk w)) n \<noteq> None then (Inl ''inbox.requirement_is_already_deleted'', w)
      else and_then (inspect faults w) (\<lambda>w.
        (Inr (), w\<lparr>wk_disk := (wk_disk w)\<lparr>dk_active := fmupd n \<lparr>rq_item = None, rq_comments = None\<rparr> (dk_active (wk_disk w))\<rparr>,
                   wk_undo := Undo_Directory n # wk_undo w\<rparr>)))"

definition save_item :: "inbox_codec \<Rightarrow> faults \<Rightarrow> item \<Rightarrow> work \<Rightarrow> (string, unit) result \<times> work" where
  "save_item codec faults x w =
     and_then (ensure_directory faults (it_id x) w) (\<lambda>w.
     and_then (replace_file faults (Item_File (it_id x)) (ic_enc_item codec x) w) (\<lambda>w.
     if get_file (Comments_File (it_id x)) (wk_disk w) \<noteq> None then (Inr (), w)
     else replace_file faults (Comments_File (it_id x)) [] w))"

fun save_items :: "inbox_codec \<Rightarrow> faults \<Rightarrow> item list \<Rightarrow> work \<Rightarrow> (string, unit) result \<times> work" where
  "save_items codec faults [] w = (Inr (), w)"
| "save_items codec faults (x # xs) w = and_then (save_item codec faults x w) (save_items codec faults xs)"

definition registry_of :: "document \<Rightarrow> registry" where
  "registry_of doc = \<lparr>rg_version = dc_version doc, rg_revision = dc_revision doc, rg_labels = dc_labels doc,
     rg_order = map it_id (dc_items doc), rg_captures = dc_captures doc\<rparr>"

definition requirement_directories :: "faults \<Rightarrow> string list \<Rightarrow> work \<Rightarrow> (string, unit) result \<times> work" where
  "requirement_directories faults names w =
     and_then (inspect faults w) (\<lambda>w.
       if list_all is_valid_id names then (Inr (), w) else (Inl ''inbox.invalid_requirement_directory'', w))"

definition save_body :: "inbox_codec \<Rightarrow> faults \<Rightarrow> string list \<Rightarrow> document \<Rightarrow> work \<Rightarrow> (string, unit) result \<times> work" where
  "save_body codec faults names doc w =
     and_then (requirement_directories faults names w) (\<lambda>w.
     and_then (move_deleted faults (map it_id (dc_items doc)) names w) (\<lambda>w.
     and_then (save_items codec faults (dc_items doc) w) (\<lambda>w.
     and_then (replace_file faults Registry_File (ic_enc_registry codec (registry_of doc)) w) (\<lambda>w.
     and_then (inspect faults w) (inspect faults)))))"

definition save_document_files :: "inbox_codec \<Rightarrow> faults \<Rightarrow> faults \<Rightarrow> string list \<Rightarrow> document \<Rightarrow> inbox_disk
    \<Rightarrow> (string, unit) result \<times> inbox_disk" where
  "save_document_files codec faults undo_faults names doc d =
     (if faults 0 \<noteq> Op_Done \<or> faults 1 \<noteq> Op_Done then (Inl ''io'', d)
      else case save_body codec faults names doc \<lparr>wk_disk = d, wk_undo = [], wk_clock = 2\<rparr> of
             (Inr _, w) \<Rightarrow> (Inr (), wk_disk w)
           | (Inl e, w) \<Rightarrow> (case rollback undo_faults 0 (wk_undo w) (wk_disk w) of
                 (Inl e', d') \<Rightarrow> (Inl e', d')
               | (Inr _, d') \<Rightarrow> (Inl e, d')))"

section \<open>Loading\<close>

definition load_item :: "inbox_codec \<Rightarrow> inbox_disk \<Rightarrow> string \<Rightarrow> (string, item) result" where
  "load_item codec d n =
     rbind (ok_or (get_file (Item_File n) d) ''io'') (\<lambda>bytes.
     rbind (ok_or (ic_dec_item codec bytes) ''inbox.invalid_file'') (\<lambda>x.
     rbind (ensure (it_id x = n) ''inbox.inbox_directory_and_requirement_id_differ'') (\<lambda>_. Inr x)))"

fun load_items :: "inbox_codec \<Rightarrow> inbox_disk \<Rightarrow> string list \<Rightarrow> (string, item list) result" where
  "load_items codec d [] = Inr []"
| "load_items codec d (n # ns) =
     rbind (load_item codec d n) (\<lambda>x. rbind (load_items codec d ns) (\<lambda>xs. Inr (x # xs)))"

text \<open>The requirements in the saved order; the list stands for the map that is emptied on the way.\<close>

fun order_items :: "string list \<Rightarrow> string list \<Rightarrow> item list \<Rightarrow> (string, item list) result" where
  "order_items seen [] items = Inr (sort_key it_id items)"
| "order_items seen (i # order) items =
     (if i \<in> set seen then Inl ''inbox.duplicate_inbox_order_id''
      else rbind (order_items (i # seen) order (filter (\<lambda>x. it_id x \<noteq> i) items)) (\<lambda>rest.
        Inr ((case find (\<lambda>x. it_id x = i) items of None \<Rightarrow> [] | Some x \<Rightarrow> [x]) @ rest)))"

definition load_document :: "(string \<Rightarrow> string) \<Rightarrow> inbox_codec \<Rightarrow> string list \<Rightarrow> inbox_disk \<Rightarrow> (string, document) result" where
  "load_document lower codec names d =
     rbind (ok_or (dk_registry d) ''io'') (\<lambda>bytes.
     rbind (ok_or (ic_dec_registry codec bytes) ''inbox.invalid_file'') (\<lambda>reg.
     rbind (ensure (rg_version reg = 1) ''inbox.unsupported_inbox_data_version'') (\<lambda>_.
     rbind (ensure (list_all is_valid_id names) ''inbox.invalid_requirement_directory'') (\<lambda>_.
     rbind (load_items codec d names) (\<lambda>items.
     rbind (order_items [] (rg_order reg) items) (\<lambda>ordered.
     let doc = \<lparr>dc_version = rg_version reg, dc_revision = rg_revision reg, dc_labels = rg_labels reg,
                dc_items = ordered, dc_captures = rg_captures reg\<rparr>
     in (case validate_document lower doc of Inl _ \<Rightarrow> Inl ''server.invalid_inbox'' | Inr _ \<Rightarrow> Inr doc)))))))"

section \<open>A failed save is undone\<close>

fun rollback_all :: "undo list \<Rightarrow> inbox_disk \<Rightarrow> inbox_disk option" where
  "rollback_all [] d = Some d"
| "rollback_all (u # us) d = (case undo_apply u d of None \<Rightarrow> None | Some d' \<Rightarrow> rollback_all us d')"

lemma rollback_done: "rollback_all us d = Some d0 \<Longrightarrow> rollback (\<lambda>_. Op_Done) k us d = (Inr (), d0)"
  by (induction us arbitrary: d k) (auto split: option.splits)

text \<open>The recorded operations lead back to the disk before the save.\<close>

definition undoes :: "inbox_disk \<Rightarrow> work \<Rightarrow> bool" where
  "undoes d0 w \<longleftrightarrow> rollback_all (wk_undo w) (wk_disk w) = Some d0"

lemma undoes_tick [simp]: "undoes d0 (work_tick w) \<longleftrightarrow> undoes d0 w"
  by (simp add: undoes_def work_tick_def)

lemma work_tick_simps [simp]: "wk_disk (work_tick w) = wk_disk w" "wk_undo (work_tick w) = wk_undo w"
  by (simp_all add: work_tick_def)

lemma inspect_simps [simp]: "wk_disk (snd (inspect faults w)) = wk_disk w" "undoes d0 (snd (inspect faults w)) \<longleftrightarrow> undoes d0 w"
  by (simp_all add: inspect_def)

lemma inspect_Inr: "inspect faults w = (Inr u, w') \<Longrightarrow> w' = work_tick w"
  by (simp add: inspect_def split: if_splits)

lemma inspect_disk: "inspect faults w = (Inr u, w') \<Longrightarrow> wk_disk w' = wk_disk w"
  by (auto dest: inspect_Inr)

lemma and_then_undoes:
  assumes "undoes d0 (snd m)" "\<And>w. m = (Inr (), w) \<Longrightarrow> undoes d0 w \<Longrightarrow> undoes d0 (snd (k w))"
  shows "undoes d0 (snd (and_then m k))"
  using assms by (cases m) (auto simp: and_then_def split: sum.splits)

lemma and_then_Inr: "and_then m k = (Inr u, w') \<longleftrightarrow> (\<exists>w. m = (Inr (), w) \<and> k w = (Inr u, w'))"
  by (cases m) (auto simp: and_then_def split: sum.splits)

text \<open>A path whose directory exists.\<close>

definition has_parent :: "inbox_path \<Rightarrow> inbox_disk \<Rightarrow> bool" where
  "has_parent p d = (case p of Registry_File \<Rightarrow> True
     | Item_File n \<Rightarrow> fmlookup (dk_active d) n \<noteq> None | Comments_File n \<Rightarrow> fmlookup (dk_active d) n \<noteq> None)"

lemma fmupd_same: "fmlookup m k = Some v \<Longrightarrow> fmupd k v m = m"
  by (rule fmap_ext) auto

lemma set_file_undo:
  "has_parent p d \<Longrightarrow> set_file p (get_file p d) (set_file p b d) = d"
  "has_parent p d \<Longrightarrow> set_file p (get_file p d) d = d"
  "has_parent p d \<Longrightarrow> get_file p (set_file p b d) = b"
  by (cases p; auto simp: set_file_def get_file_def has_parent_def Let_def fmupd_same)+

lemma undo_apply_file:
  assumes "has_parent p d"
  shows "undo_apply (Undo_File p (get_file p d)) (set_file p (Some b) d) = Some d"
    and "undo_apply (Undo_File p (get_file p d)) d = Some d"
  using set_file_undo [OF assms] by (auto simp: undo_apply_def split: option.splits)

lemma replace_file_undoes:
  assumes "undoes d0 w" "has_parent p (wk_disk w)"
  shows "undoes d0 (snd (replace_file faults p b w))"
  unfolding replace_file_def
proof (rule and_then_undoes)
  fix w1
  assume "inspect faults w = (Inr (), w1)" "undoes d0 w1"
  moreover from this have "wk_disk w1 = wk_disk w" by (auto dest: inspect_disk)
  ultimately show "undoes d0 (snd (let previous = get_file p (wk_disk w1) in
      if previous = Some b then (Inr (), w1)
      else inbox_write_bytes faults p b (w1\<lparr>wk_undo := Undo_File p previous # wk_undo w1\<rparr>)))"
    using undo_apply_file [OF assms(2)]
    by (auto simp: inbox_write_bytes_def Let_def undoes_def work_tick_def split: outcome.splits)
qed (use assms(1) in simp)

lemma move_deleted_undoes: "undoes d0 w \<Longrightarrow> undoes d0 (snd (move_deleted faults ids ns w))"
proof (induction ns arbitrary: w)
  case (Cons n ns)
  show ?case
  proof (cases "n \<in> set ids \<or> fmlookup (dk_deleted (wk_disk w)) n \<noteq> None \<or> fmlookup (dk_active (wk_disk w)) n = None")
    case False
    then obtain rq where rq: "fmlookup (dk_active (wk_disk w)) n = Some rq" by auto
    have "undoes d0 (snd (and_then (inspect faults w) (\<lambda>w.
          move_deleted faults ids ns
            (w\<lparr>wk_disk := (wk_disk w)\<lparr>dk_active := fmdrop n (dk_active (wk_disk w)),
                                     dk_deleted := fmupd n rq (dk_deleted (wk_disk w))\<rparr>,
               wk_undo := Undo_Move n # wk_undo w\<rparr>))))"
    proof (rule and_then_undoes)
      fix w1
      assume "inspect faults w = (Inr (), w1)" "undoes d0 w1"
      moreover from this have d: "wk_disk w1 = wk_disk w" by (auto dest: inspect_disk)
      moreover have "fmupd n rq (fmdrop n (dk_active (wk_disk w))) = dk_active (wk_disk w)"
        using rq by (intro fmap_ext) auto
      moreover have "fmdrop n (fmupd n rq (dk_deleted (wk_disk w))) = dk_deleted (wk_disk w)"
        using False by (intro fmap_ext) auto
      ultimately show "undoes d0 (snd (move_deleted faults ids ns
            (w1\<lparr>wk_disk := (wk_disk w1)\<lparr>dk_active := fmdrop n (dk_active (wk_disk w1)),
                                     dk_deleted := fmupd n rq (dk_deleted (wk_disk w1))\<rparr>,
               wk_undo := Undo_Move n # wk_undo w1\<rparr>)))"
        by (intro Cons.IH) (simp add: undoes_def undo_apply_def)
    qed (use Cons.prems in simp)
    with False rq show ?thesis by simp
  qed (use Cons in \<open>auto split: option.splits\<close>)
qed simp

lemma ensure_directory_undoes:
  assumes "undoes d0 w"
  shows "undoes d0 (snd (ensure_directory faults n w))"
proof -
  have "undoes d0 (snd (and_then (inspect faults w) (\<lambda>w.
        (Inr (), w\<lparr>wk_disk := (wk_disk w)\<lparr>dk_active := fmupd n \<lparr>rq_item = None, rq_comments = None\<rparr> (dk_active (wk_disk w))\<rparr>,
                   wk_undo := Undo_Directory n # wk_undo w\<rparr>))))"
    if "fmlookup (dk_active (wk_disk w)) n = None"
  proof (rule and_then_undoes)
    fix w1
    assume "inspect faults w = (Inr (), w1)" "undoes d0 w1"
    moreover from this have "wk_disk w1 = wk_disk w" by (auto dest: inspect_disk)
    moreover have "fmdrop n (fmupd n \<lparr>rq_item = None, rq_comments = None\<rparr> (dk_active (wk_disk w))) = dk_active (wk_disk w)"
      using that by (intro fmap_ext) auto
    ultimately show "undoes d0 (snd (Inr () :: (string, unit) result, w1\<lparr>wk_disk := (wk_disk w1)\<lparr>dk_active :=
        fmupd n \<lparr>rq_item = None, rq_comments = None\<rparr> (dk_active (wk_disk w1))\<rparr>, wk_undo := Undo_Directory n # wk_undo w1\<rparr>))"
      by (simp add: undoes_def undo_apply_def)
  qed (use assms in simp)
  with assms show ?thesis by (auto simp: ensure_directory_def)
qed

lemma ensure_directory_Inr:
  "ensure_directory faults n w = (Inr u, w') \<Longrightarrow> fmlookup (dk_active (wk_disk w')) n \<noteq> None"
  by (auto simp: ensure_directory_def and_then_Inr split: if_splits)

lemma inbox_write_bytes_disk:
  "inbox_write_bytes faults p b w = (Inr u, w') \<Longrightarrow> wk_disk w' = set_file p (Some b) (wk_disk w)"
  by (auto simp: inbox_write_bytes_def Let_def split: outcome.splits)

lemma replace_file_disk:
  assumes "replace_file faults p b w = (Inr u, w')"
  shows "wk_disk w' = (if get_file p (wk_disk w) = Some b then wk_disk w else set_file p (Some b) (wk_disk w))"
proof -
  from assms obtain w1 where w1: "inspect faults w = (Inr (), w1)"
    "(let previous = get_file p (wk_disk w1) in
      if previous = Some b then (Inr (), w1)
      else inbox_write_bytes faults p b (w1\<lparr>wk_undo := Undo_File p previous # wk_undo w1\<rparr>)) = (Inr u, w')"
    unfolding replace_file_def and_then_Inr by blast
  from inspect_disk [OF w1(1)] w1(2) show ?thesis
    by (auto simp: Let_def dest: inbox_write_bytes_disk split: if_splits)
qed

lemma set_file_keeps_directory:
  "fmlookup (dk_active d) n \<noteq> None \<Longrightarrow> fmlookup (dk_active (set_file p b d)) n \<noteq> None"
  by (cases p) (auto simp: set_file_def Let_def)

lemma save_item_undoes:
  assumes "undoes d0 w"
  shows "undoes d0 (snd (save_item codec faults x w))"
  unfolding save_item_def
proof (rule and_then_undoes [OF ensure_directory_undoes [OF assms]])
  fix w1
  assume 1: "ensure_directory faults (it_id x) w = (Inr (), w1)" "undoes d0 w1"
  note dir = ensure_directory_Inr [OF 1(1)]
  show "undoes d0 (snd (and_then (replace_file faults (Item_File (it_id x)) (ic_enc_item codec x) w1) (\<lambda>w.
     if get_file (Comments_File (it_id x)) (wk_disk w) \<noteq> None then (Inr (), w)
     else replace_file faults (Comments_File (it_id x)) [] w)))"
  proof (rule and_then_undoes)
    show "undoes d0 (snd (replace_file faults (Item_File (it_id x)) (ic_enc_item codec x) w1))"
      using dir by (intro replace_file_undoes [OF 1(2)]) (simp add: has_parent_def)
    fix w2
    assume 2: "replace_file faults (Item_File (it_id x)) (ic_enc_item codec x) w1 = (Inr (), w2)" "undoes d0 w2"
    have "fmlookup (dk_active (wk_disk w2)) (it_id x) \<noteq> None"
      using dir set_file_keeps_directory by (simp add: replace_file_disk [OF 2(1)])
    then show "undoes d0 (snd (if get_file (Comments_File (it_id x)) (wk_disk w2) \<noteq> None then (Inr (), w2)
        else replace_file faults (Comments_File (it_id x)) [] w2))"
      using 2(2) by (simp add: replace_file_undoes has_parent_def)
  qed
qed

lemma save_items_undoes: "undoes d0 w \<Longrightarrow> undoes d0 (snd (save_items codec faults xs w))"
  by (induction xs arbitrary: w) (auto intro!: and_then_undoes save_item_undoes)

lemma save_body_undoes: "undoes d0 w \<Longrightarrow> undoes d0 (snd (save_body codec faults names doc w))"
  unfolding save_body_def requirement_directories_def
  by (intro and_then_undoes move_deleted_undoes save_items_undoes replace_file_undoes)
    (auto simp: has_parent_def)

lemma failed_save_is_undone_aux:
  assumes "save_document_files codec faults (\<lambda>_. Op_Done) names doc d = (Inl e, d')"
  shows "d' = d"
proof -
  obtain r w where b: "save_body codec faults names doc \<lparr>wk_disk = d, wk_undo = [], wk_clock = 2\<rparr> = (r, w)"
    by (cases "save_body codec faults names doc \<lparr>wk_disk = d, wk_undo = [], wk_clock = 2\<rparr>")
  have "undoes d \<lparr>wk_disk = d, wk_undo = [], wk_clock = 2\<rparr>" by (simp add: undoes_def)
  from save_body_undoes [OF this, of codec faults names doc] b have "undoes d w" by simp
  then have "rollback (\<lambda>_. Op_Done) 0 (wk_undo w) (wk_disk w) = (Inr (), d)"
    by (simp add: undoes_def rollback_done)
  with assms b show ?thesis
    by (auto simp: save_document_files_def split: if_splits sum.splits)
qed

section \<open>A sample inbox\<close>

definition sample_item :: item where
  "sample_item = \<lparr>it_id = ''i1'', it_markdown = ''Fix it'', it_project_id = None, it_label_ids = [], it_revision = 1,
     it_created_at = ''t'', it_updated_at = ''t''\<rparr>"

definition sample_document :: document where
  "sample_document = document_default\<lparr>dc_items := [sample_item], dc_revision := 1,
     dc_captures := fmap_of_list [(''k1'', (''i1'', ''Fix it''))]\<rparr>"

definition sample_codec :: inbox_codec where
  "sample_codec = \<lparr>ic_enc_item = (\<lambda>_. ''i''), ic_dec_item = (\<lambda>_. Some sample_item),
     ic_enc_registry = (\<lambda>r. if rg_order r = [] then ''0'' else ''1''),
     ic_dec_registry = (\<lambda>s. if s = ''0'' then Some (registry_of document_default) else Some (registry_of sample_document))\<rparr>"

definition empty_disk :: inbox_disk where
  "empty_disk = \<lparr>dk_registry = Some ''0'', dk_active = fmempty, dk_deleted = fmempty\<rparr>"

definition sample_disk :: inbox_disk where
  "sample_disk = \<lparr>dk_registry = Some ''1'',
     dk_active = fmap_of_list [(''i1'', \<lparr>rq_item = Some ''i'', rq_comments = Some []\<rparr>)], dk_deleted = fmempty\<rparr>"

lemma default_valid: "validate_document (\<lambda>s. s) document_default = Inr ()" by code_simp
lemma sample_valid: "validate_document (\<lambda>s. s) sample_document = Inr ()" by code_simp

text \<open>C4: Saving the inbox is a transaction: whatever operation of the file system fails, when the operations that
  undo the work succeed, an error of the save leaves all files and directories as they were. In particular no undo
  is applied to a directory that is not empty or to a missing file.\<close>

theorem failed_save_is_undone:
  assumes "save_document_files codec faults (\<lambda>_. Op_Done) names doc d = (Inl e, d')"
  shows "d' = d"
  using assms by (rule failed_save_is_undone_aux)

theorem failed_save_is_undone_witness:
  "snd (save_document_files sample_codec (\<lambda>n. if n = 6 then Op_Late else Op_Done) (\<lambda>_. Op_Done) [] sample_document empty_disk) =
     empty_disk"
proof -
  let ?save = "save_document_files sample_codec (\<lambda>n. if n = 6 then Op_Late else Op_Done) (\<lambda>_. Op_Done) [] sample_document empty_disk"
  have "fst ?save = Inl ''io''" by code_simp
  then have "?save = (Inl ''io'', snd ?save)" by (metis prod.collapse)
  then show ?thesis by (rule failed_save_is_undone)
qed

section \<open>A saved document loads again\<close>

definition is_listing :: "string list \<Rightarrow> inbox_disk \<Rightarrow> bool" where
  "is_listing names d \<longleftrightarrow> distinct names \<and> fset_of_list names = fmdom (dk_active d)"

lemma is_listing_iff: "is_listing names d \<longleftrightarrow> distinct names \<and> (\<forall>n. n \<in> set names \<longleftrightarrow> fmlookup (dk_active d) n \<noteq> None)"
  by (auto simp: is_listing_def fset_eq_iff fset_of_list_elem fmlookup_dom_iff)

text \<open>What a change of a file leaves.\<close>

lemma get_set_other:
  "p \<noteq> q \<Longrightarrow> get_file p (set_file q b d) = get_file p d"
  by (cases p; cases q) (auto simp: get_file_def set_file_def Let_def split: option.splits)

lemma active_set_file:
  "fmlookup (dk_active (set_file p b d)) n \<noteq> None \<longleftrightarrow>
     fmlookup (dk_active d) n \<noteq> None \<or> p = Item_File n \<or> p = Comments_File n"
  by (cases p) (auto simp: set_file_def Let_def)

lemma replace_file_get:
  assumes "replace_file faults p b w = (Inr u, w')"
  shows "get_file p (wk_disk w') = Some b"
    and "q \<noteq> p \<Longrightarrow> get_file q (wk_disk w') = get_file q (wk_disk w)"
    and "has_parent p (wk_disk w) \<Longrightarrow> fmlookup (dk_active (wk_disk w')) n \<noteq> None \<longleftrightarrow> fmlookup (dk_active (wk_disk w)) n \<noteq> None"
proof -
  have "get_file p (set_file p (Some b) d) = Some b" for d
    by (cases p) (auto simp: get_file_def set_file_def Let_def)
  then show "get_file p (wk_disk w') = Some b"
    by (simp add: replace_file_disk [OF assms])
  show "get_file q (wk_disk w') = get_file q (wk_disk w)" if "q \<noteq> p"
    using that by (simp add: replace_file_disk [OF assms] get_set_other)
  show "fmlookup (dk_active (wk_disk w')) n \<noteq> None \<longleftrightarrow> fmlookup (dk_active (wk_disk w)) n \<noteq> None"
    if "has_parent p (wk_disk w)"
    using that active_set_file [of p "Some b" "wk_disk w" n]
    by (auto simp: replace_file_disk [OF assms] has_parent_def)
qed

lemma move_deleted_Inr:
  "move_deleted faults ids ns w = (Inr u, w') \<Longrightarrow>
     fmlookup (dk_active (wk_disk w')) n \<noteq> None \<longleftrightarrow> fmlookup (dk_active (wk_disk w)) n \<noteq> None \<and> (n \<in> set ns \<longrightarrow> n \<in> set ids)"
proof (induction ns arbitrary: w)
  case (Cons m ns)
  show ?case
  proof (cases "m \<in> set ids")
    case True
    with Cons show ?thesis by auto
  next
    case False
    with Cons.prems obtain rq w1 where w1: "inspect faults w = (Inr (), w1)"
      "move_deleted faults ids ns
            (w1\<lparr>wk_disk := (wk_disk w1)\<lparr>dk_active := fmdrop m (dk_active (wk_disk w1)),
                                     dk_deleted := fmupd m rq (dk_deleted (wk_disk w1))\<rparr>,
               wk_undo := Undo_Move m # wk_undo w1\<rparr>) = (Inr u, w')"
      by (auto simp: and_then_Inr split: if_splits option.splits)
    from Cons.IH [OF w1(2)] inspect_disk [OF w1(1)] False show ?thesis by auto
  qed
qed auto

lemma ensure_directory_get:
  assumes "ensure_directory faults m w = (Inr u, w')"
  shows "fmlookup (dk_active (wk_disk w')) n \<noteq> None \<longleftrightarrow> fmlookup (dk_active (wk_disk w)) n \<noteq> None \<or> n = m"
    and "get_file p (wk_disk w') = get_file p (wk_disk w)"
  using assms
  by (auto simp: ensure_directory_def and_then_Inr get_file_def dest!: inspect_disk
      split: if_splits inbox_path.splits option.splits)

lemma save_item_Inr:
  assumes "save_item codec faults x w = (Inr u, w')"
  shows "fmlookup (dk_active (wk_disk w')) n \<noteq> None \<longleftrightarrow> fmlookup (dk_active (wk_disk w)) n \<noteq> None \<or> n = it_id x"
    and "get_file (Item_File (it_id x)) (wk_disk w') = Some (ic_enc_item codec x)"
    and "n \<noteq> it_id x \<Longrightarrow> get_file (Item_File n) (wk_disk w') = get_file (Item_File n) (wk_disk w)"
proof -
  from assms obtain w1 w2 where w: "ensure_directory faults (it_id x) w = (Inr (), w1)"
    "replace_file faults (Item_File (it_id x)) (ic_enc_item codec x) w1 = (Inr (), w2)"
    "(if get_file (Comments_File (it_id x)) (wk_disk w2) \<noteq> None then (Inr (), w2)
      else replace_file faults (Comments_File (it_id x)) [] w2) = (Inr u, w')"
    unfolding save_item_def and_then_Inr by blast
  note e = ensure_directory_get [OF w(1)] and r = replace_file_get [OF w(2)]
  have p1: "has_parent (Item_File (it_id x)) (wk_disk w1)"
    using e(1) [of "it_id x"] by (simp add: has_parent_def)
  have p2: "has_parent (Comments_File (it_id x)) (wk_disk w2)"
    using e(1) [of "it_id x"] r(3) [OF p1, of "it_id x"] by (simp add: has_parent_def)
  have c: "get_file (Item_File m) (wk_disk w') = get_file (Item_File m) (wk_disk w2)" for m
    using w(3) replace_file_get(2) [of faults "Comments_File (it_id x)" "[]" w2 u w' "Item_File m"]
    by (auto split: if_splits)
  have a: "fmlookup (dk_active (wk_disk w')) m \<noteq> None \<longleftrightarrow> fmlookup (dk_active (wk_disk w2)) m \<noteq> None" for m
  proof (cases "get_file (Comments_File (it_id x)) (wk_disk w2) = None")
    case True
    with w(3) have "replace_file faults (Comments_File (it_id x)) [] w2 = (Inr u, w')" by simp
    from replace_file_get(3) [OF this p2] show ?thesis .
  qed (use w(3) in auto)
  show "fmlookup (dk_active (wk_disk w')) n \<noteq> None \<longleftrightarrow> fmlookup (dk_active (wk_disk w)) n \<noteq> None \<or> n = it_id x"
    using a [of n] r(3) [OF p1, of n] e(1) [of n] by blast
  show "get_file (Item_File (it_id x)) (wk_disk w') = Some (ic_enc_item codec x)" using c r(1) by simp
  show "get_file (Item_File n) (wk_disk w') = get_file (Item_File n) (wk_disk w)" if "n \<noteq> it_id x"
    using c r(2) [of "Item_File n"] e(2) that by simp
qed

lemma save_items_Inr:
  "save_items codec faults xs w = (Inr u, w') \<Longrightarrow> distinct (map it_id xs) \<Longrightarrow>
     (\<forall>n. fmlookup (dk_active (wk_disk w')) n \<noteq> None \<longleftrightarrow> fmlookup (dk_active (wk_disk w)) n \<noteq> None \<or> n \<in> set (map it_id xs)) \<and>
     (\<forall>x\<in>set xs. get_file (Item_File (it_id x)) (wk_disk w') = Some (ic_enc_item codec x)) \<and>
     (\<forall>n. n \<notin> set (map it_id xs) \<longrightarrow> get_file (Item_File n) (wk_disk w') = get_file (Item_File n) (wk_disk w))"
proof (induction xs arbitrary: w)
  case (Cons x xs)
  from Cons.prems(1) obtain w1 where w1: "save_item codec faults x w = (Inr (), w1)" "save_items codec faults xs w1 = (Inr u, w')"
    by (auto simp: and_then_Inr)
  note one = save_item_Inr [OF w1(1)]
  have "distinct (map it_id xs)" using Cons.prems(2) by simp
  note IH = Cons.IH [OF w1(2) this]
  note ih = IH [THEN conjunct1, rule_format] IH [THEN conjunct2, THEN conjunct1, rule_format]
    IH [THEN conjunct2, THEN conjunct2, rule_format]
  have x: "it_id x \<notin> set (map it_id xs)" using Cons.prems(2) by simp
  show ?case
  proof (intro conjI allI ballI impI)
    fix n
    show "fmlookup (dk_active (wk_disk w')) n \<noteq> None \<longleftrightarrow>
        fmlookup (dk_active (wk_disk w)) n \<noteq> None \<or> n \<in> set (map it_id (x # xs))"
      unfolding ih(1) [of n] one(1) [of n] by auto
    show "get_file (Item_File n) (wk_disk w') = get_file (Item_File n) (wk_disk w)" if "n \<notin> set (map it_id (x # xs))"
      using that ih(3) [of n] one(3) [of n] by simp
  next
    fix y
    assume "y \<in> set (x # xs)"
    then show "get_file (Item_File (it_id y)) (wk_disk w') = Some (ic_enc_item codec y)"
      using ih(2,3) one(2) x by auto
  qed
qed simp

lemma save_body_Inr:
  assumes "save_body codec faults names doc w = (Inr u, w')" "is_listing names (wk_disk w)"
    and "distinct (map it_id (dc_items doc))"
  shows "dk_registry (wk_disk w') = Some (ic_enc_registry codec (registry_of doc))"
    and "fmlookup (dk_active (wk_disk w')) n \<noteq> None \<longleftrightarrow> n \<in> set (map it_id (dc_items doc))"
    and "x \<in> set (dc_items doc) \<Longrightarrow> get_file (Item_File (it_id x)) (wk_disk w') = Some (ic_enc_item codec x)"
proof -
  let ?ids = "map it_id (dc_items doc)"
  from assms(1) obtain w1 w2 w3 w4 w5 where w: "requirement_directories faults names w = (Inr (), w1)"
    "move_deleted faults ?ids names w1 = (Inr (), w2)" "save_items codec faults (dc_items doc) w2 = (Inr (), w3)"
    "replace_file faults Registry_File (ic_enc_registry codec (registry_of doc)) w3 = (Inr (), w4)"
    "inspect faults w4 = (Inr (), w5)" "inspect faults w5 = (Inr u, w')"
    unfolding save_body_def and_then_Inr by blast
  have d1: "wk_disk w1 = wk_disk w"
    using w(1) by (auto simp: requirement_directories_def and_then_Inr dest: inspect_disk split: if_splits)
  have d5: "wk_disk w' = wk_disk w4" using inspect_disk [OF w(5)] inspect_disk [OF w(6)] by simp
  note s = save_items_Inr [OF w(3) assms(3)] and r = replace_file_get [OF w(4)]
  show "dk_registry (wk_disk w') = Some (ic_enc_registry codec (registry_of doc))"
    using r(1) by (simp add: d5 get_file_def)
  have a4: "fmlookup (dk_active (wk_disk w4)) n \<noteq> None \<longleftrightarrow> fmlookup (dk_active (wk_disk w3)) n \<noteq> None"
    by (rule r(3)) (simp add: has_parent_def)
  have a3: "fmlookup (dk_active (wk_disk w3)) n \<noteq> None \<longleftrightarrow> fmlookup (dk_active (wk_disk w2)) n \<noteq> None \<or> n \<in> set ?ids"
    by (rule s [THEN conjunct1, rule_format])
  have a2: "fmlookup (dk_active (wk_disk w2)) n \<noteq> None \<longleftrightarrow>
      fmlookup (dk_active (wk_disk w1)) n \<noteq> None \<and> (n \<in> set names \<longrightarrow> n \<in> set ?ids)"
    by (rule move_deleted_Inr [OF w(2)])
  have a1: "n \<in> set names \<longleftrightarrow> fmlookup (dk_active (wk_disk w1)) n \<noteq> None"
    using assms(2) d1 by (simp add: is_listing_iff)
  show "fmlookup (dk_active (wk_disk w')) n \<noteq> None \<longleftrightarrow> n \<in> set ?ids"
    unfolding d5 a4 a3 a2 a1 by blast
  show "get_file (Item_File (it_id x)) (wk_disk w') = Some (ic_enc_item codec x)" if "x \<in> set (dc_items doc)"
    using s [THEN conjunct2, THEN conjunct1, rule_format, OF that] r(2) [of "Item_File (it_id x)"] by (simp add: d5)
qed

definition codec_roundtrip :: "inbox_codec \<Rightarrow> document \<Rightarrow> bool" where
  "codec_roundtrip codec doc \<longleftrightarrow>
     list_all (\<lambda>x. ic_dec_item codec (ic_enc_item codec x) = Some x) (dc_items doc) \<and>
     ic_dec_registry codec (ic_enc_registry codec (registry_of doc)) = Some (registry_of doc)"

lemma load_items_stored:
  assumes "\<And>x. x \<in> set items \<Longrightarrow> get_file (Item_File (it_id x)) d = Some (ic_enc_item codec x)"
    and "\<And>x. x \<in> set items \<Longrightarrow> ic_dec_item codec (ic_enc_item codec x) = Some x"
  shows "set names \<subseteq> set (map it_id items) \<Longrightarrow>
    \<exists>xs. load_items codec d names = Inr xs \<and> map it_id xs = names \<and> set xs \<subseteq> set items"
proof (induction names)
  case (Cons n names)
  then obtain x where x: "x \<in> set items" "it_id x = n" by auto
  with assms have "load_item codec d n = Inr x" by (auto simp: load_item_def)
  moreover from Cons obtain xs where "load_items codec d names = Inr xs" "map it_id xs = names" "set xs \<subseteq> set items" by auto
  ultimately show ?case using x by (intro exI [of _ "x # xs"]) simp
qed simp

lemma order_items_same:
  "set l = set xs \<Longrightarrow> distinct (map it_id xs) \<Longrightarrow> distinct (map it_id l) \<Longrightarrow> set seen \<inter> set (map it_id xs) = {} \<Longrightarrow>
     order_items seen (map it_id xs) l = Inr xs"
proof (induction xs arbitrary: seen l)
  case (Cons x xs)
  have x: "find (\<lambda>y. it_id y = it_id x) l = Some x"
    using Cons.prems(1) by (intro find_key_distinct [OF Cons.prems(3)]) simp
  have "set (filter (\<lambda>y. it_id y \<noteq> it_id x) l) = set xs"
    using Cons.prems(1,2) by (auto simp: image_iff)
  moreover have "distinct (map it_id (filter (\<lambda>y. it_id y \<noteq> it_id x) l))"
    using Cons.prems(3) by (rule distinct_map_filter)
  ultimately have "order_items (it_id x # seen) (map it_id xs) (filter (\<lambda>y. it_id y \<noteq> it_id x) l) = Inr xs"
    using Cons.prems(2,4) by (intro Cons.IH) auto
  with x Cons.prems(4) show ?case by simp
qed simp

lemma saved_loads:
  assumes "dk_registry d = Some (ic_enc_registry codec (registry_of doc))"
    and "\<And>n. fmlookup (dk_active d) n \<noteq> None \<longleftrightarrow> n \<in> set (map it_id (dc_items doc))"
    and "\<And>x. x \<in> set (dc_items doc) \<Longrightarrow> get_file (Item_File (it_id x)) d = Some (ic_enc_item codec x)"
    and "codec_roundtrip codec doc" "validate_document lower doc = Inr ()" "dc_version doc = 1" "is_listing names d"
  shows "load_document lower codec names d = Inr doc"
proof -
  have items: "distinct (map it_id (dc_items doc))" by (rule validate_document_items [OF assms(5)])
  have names: "distinct names" "set names = set (map it_id (dc_items doc))"
    using assms(7) assms(2) by (auto simp: is_listing_iff)
  have dec: "x \<in> set (dc_items doc) \<Longrightarrow> ic_dec_item codec (ic_enc_item codec x) = Some x" for x
    using assms(4) by (simp add: codec_roundtrip_def list_all_iff)
  have "\<exists>xs. load_items codec d names = Inr xs \<and> map it_id xs = names \<and> set xs \<subseteq> set (dc_items doc)"
    using names(2) by (intro load_items_stored [OF assms(3) dec]) simp_all
  then obtain xs where xs:
    "load_items codec d names = Inr xs" "map it_id xs = names" "set xs \<subseteq> set (dc_items doc)" by auto
  have "set (dc_items doc) \<subseteq> set xs"
  proof
    fix x
    assume x: "x \<in> set (dc_items doc)"
    then have "it_id x \<in> set (map it_id xs)" using xs(2) names(2) by simp
    then obtain y where y: "y \<in> set xs" "it_id y = it_id x" by auto
    with x xs(3) items have "y = x" by (auto simp: distinct_map inj_on_def)
    with y show "x \<in> set xs" by simp
  qed
  with xs(3) have set_xs: "set xs = set (dc_items doc)" by blast
  have "list_all is_valid_id names"
    using assms(5) names(2)
    by (auto simp: validate_document_def rbind_Inr_iff check_items_iff list_all_iff)
  moreover have "order_items [] (map it_id (dc_items doc)) xs = Inr (dc_items doc)"
    using set_xs items xs(2) names(1) by (intro order_items_same) simp_all
  moreover have "ic_dec_registry codec (ic_enc_registry codec (registry_of doc)) = Some (registry_of doc)"
    using assms(4) by (simp add: codec_roundtrip_def)
  moreover have rg: "rg_version (registry_of doc) = 1" "rg_order (registry_of doc) = map it_id (dc_items doc)"
    using assms(6) by (simp_all add: registry_of_def)
  moreover have same: "\<lparr>dc_version = 1, dc_revision = rg_revision (registry_of doc), dc_labels = rg_labels (registry_of doc),
      dc_items = dc_items doc, dc_captures = rg_captures (registry_of doc)\<rparr> = doc"
    using assms(6) by (cases doc) (simp add: registry_of_def)
  ultimately show ?thesis
    using assms(1,5,6) xs(1) by (simp add: load_document_def same rg Let_def)
qed

lemma saved_document_loads_aux:
  assumes "save_document_files codec faults undo_faults names doc d = (Inr (), d')"
    and "is_listing names d" "is_listing names' d'"
    and "validate_document lower doc = Inr ()" "dc_version doc = 1" "codec_roundtrip codec doc"
  shows "load_document lower codec names' d' = Inr doc"
proof -
  obtain w where w: "save_body codec faults names doc \<lparr>wk_disk = d, wk_undo = [], wk_clock = 2\<rparr> = (Inr (), w)" "d' = wk_disk w"
    using assms(1) by (auto simp: save_document_files_def split: if_splits sum.splits prod.splits)
  have l: "is_listing names (wk_disk \<lparr>wk_disk = d, wk_undo = [], wk_clock = 2\<rparr>)" using assms(2) by simp
  note b = save_body_Inr [OF w(1) l validate_document_items [OF assms(4)]]
  show ?thesis
    unfolding w(2) using assms(3) [unfolded w(2)] by (intro saved_loads [OF b assms(6,4,5)])
qed

text \<open>C34: A document that was saved without an error loads again, in whatever order the directory is listed, as
  exactly the same document: the same requirements in the same order, the same labels, revision and receipts.\<close>

theorem saved_document_loads:
  assumes "save_document_files codec faults undo_faults names doc d = (Inr (), d')"
    and "is_listing names d" "is_listing names' d'"
    and "validate_document lower doc = Inr ()" "dc_version doc = 1" "codec_roundtrip codec doc"
  shows "load_document lower codec names' d' = Inr doc"
  using assms by (rule saved_document_loads_aux)

theorem saved_document_loads_witness:
  "load_document (\<lambda>s. s) sample_codec [''i1''] sample_disk = Inr sample_document"
proof -
  have "save_document_files sample_codec (\<lambda>_. Op_Done) (\<lambda>_. Op_Done) [] sample_document empty_disk = (Inr (), sample_disk)"
    by code_simp
  moreover have "is_listing [] empty_disk" "is_listing [''i1''] sample_disk" by code_simp+
  moreover have "dc_version sample_document = 1" "codec_roundtrip sample_codec sample_document" by code_simp+
  ultimately show ?thesis by (intro saved_document_loads) (simp_all only: sample_valid)
qed

section \<open>A save without faults\<close>

text \<open>When the file system does not fail, a document with the requirements that are on disk is saved.\<close>

lemma inspect_done [simp]: "inspect (\<lambda>_. Op_Done) w = (Inr (), work_tick w)"
  by (simp add: inspect_def)

lemma and_then_done [simp]: "and_then (Inr u, w) k = k w"
  by (simp add: and_then_def)

lemma replace_file_done: "\<exists>w'. replace_file (\<lambda>_. Op_Done) p b w = (Inr (), w')"
  by (simp add: replace_file_def inbox_write_bytes_def Let_def)

lemma move_deleted_none: "set names \<subseteq> set ids \<Longrightarrow> move_deleted faults ids names w = (Inr (), w)"
  by (induction names) simp_all

lemma replace_file_keeps_directories:
  assumes "replace_file faults p b w = (Inr u, w')" "fmlookup (dk_active (wk_disk w)) n \<noteq> None"
  shows "fmlookup (dk_active (wk_disk w')) n \<noteq> None"
  using set_file_keeps_directory [OF assms(2)] assms(2) by (simp add: replace_file_disk [OF assms(1)])

lemma save_item_done:
  assumes "fmlookup (dk_active (wk_disk w)) (it_id x) \<noteq> None"
  shows "\<exists>w'. save_item codec (\<lambda>_. Op_Done) x w = (Inr (), w') \<and>
    (\<forall>n. fmlookup (dk_active (wk_disk w)) n \<noteq> None \<longrightarrow> fmlookup (dk_active (wk_disk w')) n \<noteq> None)"
proof -
  obtain w1 where w1: "replace_file (\<lambda>_. Op_Done) (Item_File (it_id x)) (ic_enc_item codec x) w = (Inr (), w1)"
    using replace_file_done by blast
  obtain w2 where w2: "replace_file (\<lambda>_. Op_Done) (Comments_File (it_id x)) [] w1 = (Inr (), w2)"
    using replace_file_done by blast
  have "save_item codec (\<lambda>_. Op_Done) x w =
      (if get_file (Comments_File (it_id x)) (wk_disk w1) \<noteq> None then (Inr (), w1) else (Inr (), w2))"
    using assms w1 w2 by (simp add: save_item_def ensure_directory_def)
  then show ?thesis
    using replace_file_keeps_directories [OF w1] replace_file_keeps_directories [OF w2]
    by (cases "get_file (Comments_File (it_id x)) (wk_disk w1) = None") auto
qed

lemma save_items_done:
  "(\<And>x. x \<in> set xs \<Longrightarrow> fmlookup (dk_active (wk_disk w)) (it_id x) \<noteq> None) \<Longrightarrow>
     \<exists>w'. save_items codec (\<lambda>_. Op_Done) xs w = (Inr (), w')"
proof (induction xs arbitrary: w)
  case (Cons x xs)
  have "fmlookup (dk_active (wk_disk w)) (it_id x) \<noteq> None" by (rule Cons.prems) simp
  from save_item_done [OF this, of codec] obtain w1 where w1: "save_item codec (\<lambda>_. Op_Done) x w = (Inr (), w1)"
    and keep: "\<forall>n. fmlookup (dk_active (wk_disk w)) n \<noteq> None \<longrightarrow> fmlookup (dk_active (wk_disk w1)) n \<noteq> None" by blast
  have "\<exists>w'. save_items codec (\<lambda>_. Op_Done) xs w1 = (Inr (), w')"
    by (rule Cons.IH) (use keep Cons.prems in simp)
  with w1 show ?case by simp
qed simp

lemma load_items_ids: "load_items codec d names = Inr xs \<Longrightarrow> map it_id xs = names"
proof (induction names arbitrary: xs)
  case (Cons n names)
  then obtain x ys where "load_item codec d n = Inr x" "load_items codec d names = Inr ys" "xs = x # ys"
    by (auto simp: rbind_Inr_iff)
  moreover from this(1) have "it_id x = n" by (auto simp: load_item_def rbind_Inr_iff ensure_def split: if_splits)
  ultimately show ?case using Cons.IH by simp
qed simp

lemma order_items_ids: "order_items seen order items = Inr ys \<Longrightarrow> it_id ` set ys = it_id ` set items"
proof (induction seen order items arbitrary: ys rule: order_items.induct)
  case (2 seen i order items)
  then obtain rest where rest: "order_items (i # seen) order (filter (\<lambda>x. it_id x \<noteq> i) items) = Inr rest"
    "ys = (case find (\<lambda>x. it_id x = i) items of None \<Rightarrow> [] | Some x \<Rightarrow> [x]) @ rest"
    by (auto simp: rbind_Inr_iff split: if_splits)
  have "it_id ` set rest = it_id ` set (filter (\<lambda>x. it_id x \<noteq> i) items)"
    using 2 rest(1) by (auto split: if_splits)
  moreover have "it_id ` set items = it_id ` {x \<in> set items. it_id x \<noteq> i} \<union>
      (case find (\<lambda>x. it_id x = i) items of None \<Rightarrow> {} | Some x \<Rightarrow> {it_id x})"
  proof (cases "find (\<lambda>x. it_id x = i) items")
    case None
    then have "\<forall>x\<in>set items. it_id x \<noteq> i" by (auto simp: find_None_iff)
    with None show ?thesis by auto
  next
    case (Some x)
    with find_SomeD [OF Some] show ?thesis by auto
  qed
  ultimately show ?case using rest(2) by (cases "find (\<lambda>x. it_id x = i) items") auto
qed simp

lemma check_case_Inr:
  fixes r :: "('e, unit) result"
  shows "(case r of Inl _ \<Rightarrow> Inl e | Inr _ \<Rightarrow> Inr x) = Inr y \<longleftrightarrow> r = Inr () \<and> x = y"
  by (cases r) auto

lemma loaded_ids:
  assumes "load_document lower codec names d = Inr doc"
  shows "list_all is_valid_id names" "set (map it_id (dc_items doc)) = set names"
proof -
  from assms show "list_all is_valid_id names"
    by (auto simp: load_document_def rbind_Inr_iff ensure_def Let_def split: if_splits)
  from assms have "\<exists>items order. load_items codec d names = Inr items \<and> order_items [] order items = Inr (dc_items doc)"
    by (auto simp: load_document_def rbind_Inr_iff Let_def check_case_Inr)
  then obtain order items where i: "load_items codec d names = Inr items"
    "order_items [] order items = Inr (dc_items doc)" by blast
  show "set (map it_id (dc_items doc)) = set names"
    using load_items_ids [OF i(1)] order_items_ids [OF i(2)] by auto
qed

lemma save_loaded_done:
  assumes "load_document lower codec names d = Inr doc" "is_listing names d" "dc_items doc' = dc_items doc"
  shows "\<exists>d'. save_document_files codec (\<lambda>_. Op_Done) undo_faults names doc' d = (Inr (), d')"
proof -
  let ?w = "work_tick \<lparr>wk_disk = d, wk_undo = [], wk_clock = 2\<rparr>"
  note ids = loaded_ids [OF assms(1)]
  have "fmlookup (dk_active (wk_disk ?w)) (it_id x) \<noteq> None" if "x \<in> set (dc_items doc')" for x
    using that ids(2) assms(2,3) by (auto simp: is_listing_iff)
  from save_items_done [OF this, of "dc_items doc'" codec] obtain w1 where
    w1: "save_items codec (\<lambda>_. Op_Done) (dc_items doc') ?w = (Inr (), w1)" by blast
  obtain w2 where w2: "replace_file (\<lambda>_. Op_Done) Registry_File (ic_enc_registry codec (registry_of doc')) w1 = (Inr (), w2)"
    using replace_file_done by blast
  have "save_body codec (\<lambda>_. Op_Done) names doc' \<lparr>wk_disk = d, wk_undo = [], wk_clock = 2\<rparr> = (Inr (), work_tick (work_tick w2))"
    using ids assms(3) w1 w2 by (simp add: save_body_def requirement_directories_def move_deleted_none)
  then show ?thesis by (simp add: save_document_files_def)
qed

end
