(* ===== verification/Inbox_Store.thy ===== *)
theory Inbox_Store
  imports Inbox_Disk
begin

text \<open>
  The inbox service: \<open>InboxStore\<close> of \<open>crates/server/src/inbox/store.rs\<close> over the files of
  \<open>Inbox_Disk\<close>, and the executions of a requirement. A store keeps the document, the runs and the comments in
  memory; every change is saved before it becomes visible.
\<close>

datatype run_phase = Phase_Starting | Phase_Submitted | Phase_Failed | Phase_Interrupted

record inbox_run =
  ir_id :: string
  ir_item_id :: string
  ir_request_key :: string
  ir_execution_fingerprint :: string
  ir_item_revision :: u64
  ir_agent :: string
  ir_project_id :: string
  ir_cwd :: string
  ir_workspace_mode :: workspace_mode
  ir_markdown :: string
  ir_phase :: run_phase
  ir_tab_id :: "string option"
  ir_pane_id :: "string option"
  ir_error :: "string option"
  ir_created_at :: string

record execute_request =
  ex_expected_revision :: u64
  ex_request_key :: string
  ex_agent :: string
  ex_append_prompt :: string
  ex_workspace :: workspace_config

definition final_task :: "execute_request \<Rightarrow> string \<Rightarrow> string" where
  "final_task req requirement =
     (if ex_append_prompt req = [] then requirement
      else requirement @ [char_of (10 :: nat), char_of (10 :: nat)] @ ex_append_prompt req)"

record inbox_state =
  ib_document :: document
  ib_runs :: "inbox_run list"

section \<open>Changes are saved first\<close>

text \<open>The persistence of a store: saving and loading documents on a medium, or none for a store in memory.\<close>

type_synonym 'd persistence = "(document \<Rightarrow> 'd \<Rightarrow> (string, unit) result \<times> 'd) \<times> ('d \<Rightarrow> (string, document) result)"

definition mutate :: "(string \<Rightarrow> string) \<Rightarrow> 'd persistence option \<Rightarrow> 'a change \<Rightarrow> inbox_state \<times> 'd
    \<Rightarrow> (inbox_error, 'a) result \<times> inbox_state \<times> 'd" where
  "mutate lower persistence change s =
     (case s of (st, d) \<Rightarrow>
        try_in (change (ib_document st)) s (\<lambda>(x, doc).
        let next_doc = doc\<lparr>dc_revision := dc_revision doc + 1\<rparr>
        in try_in (validate_document lower next_doc) s (\<lambda>_.
           case persistence of
             None \<Rightarrow> (Inr x, st\<lparr>ib_document := next_doc\<rparr>, d)
           | Some (save, load) \<Rightarrow>
               (case save next_doc d of
                  (Inr _, d') \<Rightarrow> (Inr x, st\<lparr>ib_document := next_doc\<rparr>, d')
                | (Inl e, d') \<Rightarrow>
                    (Inl (Inbox_Internal e),
                     (case load d' of Inr durable \<Rightarrow> st\<lparr>ib_document := durable\<rparr> | Inl _ \<Rightarrow> st), d')))))"

definition capture :: "(string \<Rightarrow> string) \<Rightarrow> (string \<Rightarrow> string) \<Rightarrow> 'd persistence option \<Rightarrow> string \<Rightarrow> string
    \<Rightarrow> capture_request \<Rightarrow> inbox_state \<times> 'd \<Rightarrow> (inbox_error, item) result \<times> inbox_state \<times> 'd" where
  "capture lower md5 persistence new_id now req s =
     try_in (validate_id (cp_request_key req)) s (\<lambda>_.
     try_in (validate_markdown (cp_markdown req)) s (\<lambda>_.
     mutate lower persistence (capture_change md5 new_id now req) s))"

definition update_item :: "(string \<Rightarrow> string) \<Rightarrow> 'd persistence option \<Rightarrow> string \<Rightarrow> string \<Rightarrow> update_request
    \<Rightarrow> inbox_state \<times> 'd \<Rightarrow> (inbox_error, item) result \<times> inbox_state \<times> 'd" where
  "update_item lower persistence now i req s = mutate lower persistence (update_change now i req) s"

definition delete_item :: "(string \<Rightarrow> string) \<Rightarrow> 'd persistence option \<Rightarrow> string \<Rightarrow> u64
    \<Rightarrow> inbox_state \<times> 'd \<Rightarrow> (inbox_error, unit) result \<times> inbox_state \<times> 'd" where
  "delete_item lower persistence i expected s = mutate lower persistence (delete_change i expected) s"

definition reorder_items :: "(string \<Rightarrow> string) \<Rightarrow> 'd persistence option \<Rightarrow> reorder_request
    \<Rightarrow> inbox_state \<times> 'd \<Rightarrow> (inbox_error, unit) result \<times> inbox_state \<times> 'd" where
  "reorder_items lower persistence req s = mutate lower persistence (reorder_change req) s"

definition set_labels :: "(string \<Rightarrow> string) \<Rightarrow> 'd persistence option \<Rightarrow> string \<Rightarrow> labels_request
    \<Rightarrow> inbox_state \<times> 'd \<Rightarrow> (inbox_error, unit) result \<times> inbox_state \<times> 'd" where
  "set_labels lower persistence now req s = mutate lower persistence (labels_change lower now req) s"

section \<open>Executions\<close>

text \<open>\<open>fingerprint\<close> is the digest of the serialized request.\<close>

definition existing_run :: "(execute_request \<Rightarrow> (string, string) result) \<Rightarrow> inbox_run list \<Rightarrow> string \<Rightarrow> execute_request
    \<Rightarrow> (inbox_error, inbox_run option) result" where
  "existing_run fingerprint runs item_id req =
     (case fingerprint req of
        Inl e \<Rightarrow> Inl (Inbox_Internal e)
      | Inr fp \<Rightarrow>
          (case find (\<lambda>r. ir_request_key r = ex_request_key req) runs of
             None \<Rightarrow> Inr None
           | Some r \<Rightarrow>
               if ir_item_id r \<noteq> item_id \<or> ir_agent r \<noteq> ex_agent req \<or> ir_item_revision r \<noteq> ex_expected_revision req \<or>
                  (ir_execution_fingerprint r \<noteq> [] \<and> ir_execution_fingerprint r \<noteq> fp)
               then Inl (Inbox_Conflict ''server.execution_request_already_used_refresh_and_try_again'')
               else Inr (Some r)))"

text \<open>\<open>saved\<close> is what writing the runs gives.\<close>

definition begin_run :: "(execute_request \<Rightarrow> (string, string) result) \<Rightarrow> string \<Rightarrow> string \<Rightarrow> (string, unit) result
    \<Rightarrow> item \<Rightarrow> execute_request \<Rightarrow> string \<Rightarrow> string \<Rightarrow> string \<Rightarrow> inbox_state
    \<Rightarrow> (inbox_error, inbox_run \<times> bool) result \<times> inbox_state" where
  "begin_run fingerprint new_id now saved x req cwd markdown execution_fingerprint st =
     try_in (existing_run fingerprint (ib_runs st) (it_id x) req) st (\<lambda>existing.
     case existing of
       Some r \<Rightarrow> (Inr (r, False), st)
     | None \<Rightarrow>
         try_in (find_item (it_id x) (ib_document st)) st (\<lambda>current.
         try_in (check_revision (it_revision current) (ex_expected_revision req)) st (\<lambda>_.
         if list_ex (\<lambda>r. ir_item_id r = it_id x \<and> ir_phase r = Phase_Starting) (ib_runs st)
         then (Inl (Inbox_Conflict ''server.an_agent_is_starting_for_this_requirement_wait_for''), st)
         else
           let task = context_task (it_id x) new_id markdown
           in if 128 * 1024 < length task
              then (Inl (Inbox_Invalid ''server.combined_requirement_additional_prompt_and_inbox_context_must_not''), st)
              else try_in (ok_or (it_project_id x) (Inbox_Invalid ''server.bind_a_project_first'')) st (\<lambda>project.
                let r = \<lparr>ir_id = new_id, ir_item_id = it_id x, ir_request_key = ex_request_key req,
                         ir_execution_fingerprint = execution_fingerprint, ir_item_revision = it_revision x,
                         ir_agent = ex_agent req, ir_project_id = project, ir_cwd = cwd,
                         ir_workspace_mode = wc_mode (ex_workspace req), ir_markdown = task, ir_phase = Phase_Starting,
                         ir_tab_id = None, ir_pane_id = None, ir_error = None, ir_created_at = now\<rparr>
                in (case saved of
                      Inl e \<Rightarrow> (Inl (Inbox_Internal e), st)
                    | Inr _ \<Rightarrow> (Inr (r, True), st\<lparr>ib_runs := ib_runs st @ [r]\<rparr>))))))"

definition set_run_cwd :: "(string, unit) result \<Rightarrow> string \<Rightarrow> string \<Rightarrow> inbox_state
    \<Rightarrow> (inbox_error, unit) result \<times> inbox_state" where
  "set_run_cwd saved i cwd st =
     (case position (\<lambda>r. ir_id r = i) (ib_runs st) of
        None \<Rightarrow> (Inl Inbox_Missing, st)
      | Some k \<Rightarrow> (case saved of
            Inl e \<Rightarrow> (Inl (Inbox_Internal e), st)
          | Inr _ \<Rightarrow> (Inr (), st\<lparr>ib_runs := (ib_runs st)[k := (ib_runs st ! k)\<lparr>ir_cwd := cwd\<rparr>]\<rparr>)))"

record agent_info =
  ai_tab_id :: string
  ai_pane_id :: string
  ai_task_submitted :: bool
  ai_error :: "string option"

definition finished :: "(string, agent_info) result \<Rightarrow> inbox_run \<Rightarrow> inbox_run" where
  "finished info r =
     (case info of
        Inr a \<Rightarrow>
          let phase = (if ai_task_submitted a then Phase_Submitted else Phase_Failed)
          in r\<lparr>ir_tab_id := Some (ai_tab_id a), ir_pane_id := Some (ai_pane_id a), ir_phase := phase,
               ir_error := (case ai_error a of Some e \<Rightarrow> Some e | None \<Rightarrow>
                 if phase = Phase_Failed then Some ''server.requirement_not_submitted_check_the_terminal'' else None)\<rparr>
      | Inl e \<Rightarrow> r\<lparr>ir_phase := Phase_Failed, ir_error := Some e\<rparr>)"

definition finish_run :: "(string, unit) result \<Rightarrow> string \<Rightarrow> (string, agent_info) result \<Rightarrow> inbox_state
    \<Rightarrow> (inbox_error, unit) result \<times> inbox_state" where
  "finish_run saved i info st =
     (case position (\<lambda>r. ir_id r = i) (ib_runs st) of
        None \<Rightarrow> (Inl Inbox_Missing, st)
      | Some k \<Rightarrow>
          ((case saved of Inl e \<Rightarrow> Inl (Inbox_Internal e) | Inr _ \<Rightarrow> Inr ()),
           st\<lparr>ib_runs := (ib_runs st)[k := finished info (ib_runs st ! k)]\<rparr>))"

text \<open>The loop of \<open>Persistence::open\<close> over the runs it has read.\<close>

definition interrupt_run :: "inbox_run \<Rightarrow> inbox_run" where
  "interrupt_run r =
     (if ir_phase r = Phase_Starting
      then r\<lparr>ir_phase := Phase_Interrupted,
             ir_error := Some ''server.service_restarted_execution_result_is_unconfirmed_check_the_terminal''\<rparr>
      else r)"

definition is_temporary_workspace :: "string \<Rightarrow> inbox_state \<Rightarrow> bool" where
  "is_temporary_workspace path st \<longleftrightarrow>
     list_ex (\<lambda>r. ir_workspace_mode r = Temporary \<and> ir_tab_id r \<noteq> None \<and> path \<noteq> [] \<and> ir_cwd r = path) (ib_runs st)"

text \<open>The latest run of every requirement that still exists.\<close>

fun latest_runs :: "string list \<Rightarrow> string list \<Rightarrow> inbox_run list \<Rightarrow> inbox_run list" where
  "latest_runs items seen [] = []"
| "latest_runs items seen (r # rs) =
     (if ir_item_id r \<in> set seen then latest_runs items seen rs
      else if ir_item_id r \<in> set items then r # latest_runs items (ir_item_id r # seen) rs
      else latest_runs items (ir_item_id r # seen) rs)"

definition snapshot_executions :: "inbox_state \<Rightarrow> inbox_run list" where
  "snapshot_executions st = latest_runs (map it_id (dc_items (ib_document st))) [] (rev (ib_runs st))"

section \<open>Memory and medium agree\<close>

text \<open>What the store relies on: a document that was saved loads again, and a failed save changes nothing.\<close>

locale document_medium =
  fixes save :: "document \<Rightarrow> 'd \<Rightarrow> (string, unit) result \<times> 'd"
    and load :: "'d \<Rightarrow> (string, document) result"
    and storable :: "document \<Rightarrow> bool"
  assumes saved_loads_again: "storable doc \<Longrightarrow> save doc d = (Inr (), d') \<Longrightarrow> load d' = Inr doc"
    and failed_save_keeps: "save doc d = (Inl e, d') \<Longrightarrow> load d' = load d"
begin

definition agrees :: "inbox_state \<times> 'd \<Rightarrow> bool" where
  "agrees s \<longleftrightarrow> load (snd s) = Inr (ib_document (fst s))"

lemma mutate_agrees:
  assumes "agrees s" "mutate lower (Some (save, load)) change s = (r, s')"
    and "\<And>x doc. change (ib_document (fst s)) = Inr (x, doc) \<Longrightarrow>
      validate_document lower (doc\<lparr>dc_revision := dc_revision doc + 1\<rparr>) = Inr () \<Longrightarrow>
      storable (doc\<lparr>dc_revision := dc_revision doc + 1\<rparr>)"
  shows "agrees s'"
proof -
  obtain st d where s: "s = (st, d)" by (cases s)
  show ?thesis
  proof (cases "change (ib_document st)")
    case (Inl e)
    with assms(1,2) s show ?thesis by (auto simp: mutate_def)
  next
    case (Inr y)
    obtain x doc where y: "y = (x, doc)" by (cases y)
    let ?next = "doc\<lparr>dc_revision := dc_revision doc + 1\<rparr>"
    show ?thesis
    proof (cases "validate_document lower ?next")
      case (Inl e)
      with assms(1,2) s Inr y show ?thesis by (auto simp: mutate_def Let_def)
    next
      case v: (Inr u)
      obtain rs d' where sv: "save ?next d = (rs, d')" by (cases "save ?next d")
      show ?thesis
      proof (cases rs)
        case (Inl e)
        from failed_save_keeps [of ?next d e d'] sv Inl assms(1) s have "load d' = Inr (ib_document st)"
          by (simp add: agrees_def)
        with assms(2) s Inr y v sv Inl show ?thesis by (auto simp: mutate_def Let_def agrees_def)
      next
        case w: (Inr w)
        from assms(3) [of x doc] s Inr y v have "storable ?next" by simp
        from saved_loads_again [OF this, of d d'] sv w have "load d' = Inr ?next" by simp
        with assms(2) s Inr y v sv w show ?thesis by (auto simp: mutate_def Let_def agrees_def)
      qed
    qed
  qed
qed

end

text \<open>The files of the inbox are such a medium.\<close>

definition list_active :: "inbox_disk \<Rightarrow> string list" where
  "list_active d = sorted_list_of_fset (fmdom (dk_active d))"

lemma list_active_listing: "is_listing (list_active d) d"
  by (auto simp: is_listing_iff list_active_def fmlookup_dom_iff sorted_list_of_fset.rep_eq)

definition disk_save :: "inbox_codec \<Rightarrow> faults \<Rightarrow> document \<Rightarrow> inbox_disk \<Rightarrow> (string, unit) result \<times> inbox_disk" where
  "disk_save codec faults doc d = save_document_files codec faults (\<lambda>_. Op_Done) (list_active d) doc d"

definition disk_load :: "(string \<Rightarrow> string) \<Rightarrow> inbox_codec \<Rightarrow> inbox_disk \<Rightarrow> (string, document) result" where
  "disk_load lower codec d = load_document lower codec (list_active d) d"

definition storable_document :: "(string \<Rightarrow> string) \<Rightarrow> inbox_codec \<Rightarrow> document \<Rightarrow> bool" where
  "storable_document lower codec doc \<longleftrightarrow>
     validate_document lower doc = Inr () \<and> dc_version doc = 1 \<and> codec_roundtrip codec doc"

interpretation disk: document_medium "disk_save codec faults" "disk_load lower codec" "storable_document lower codec"
  for codec faults lower
proof
  show "disk_load lower codec d' = Inr doc" if "storable_document lower codec doc" "disk_save codec faults doc d = (Inr (), d')"
    for doc d d'
    using that saved_document_loads_aux [OF _ list_active_listing list_active_listing]
    by (auto simp: disk_save_def disk_load_def storable_document_def)
  show "disk_load lower codec d' = disk_load lower codec d" if "disk_save codec faults doc d = (Inl e, d')" for doc d e d'
    using failed_save_is_undone_aux [OF that [unfolded disk_save_def]] by simp
qed

section \<open>Everything that can happen to the document\<close>

datatype inbox_op =
    Do_Capture string string capture_request
  | Do_Update string string update_request
  | Do_Delete string u64
  | Do_Reorder reorder_request
  | Do_Labels string labels_request

text \<open>The change an operation hands to \<open>mutate\<close>, its result forgotten.\<close>

definition op_change :: "(string \<Rightarrow> string) \<Rightarrow> (string \<Rightarrow> string) \<Rightarrow> inbox_op \<Rightarrow> document \<Rightarrow> document option" where
  "op_change lower md5 op doc =
     (case op of
           Do_Capture new_id now req \<Rightarrow> (case capture_change md5 new_id now req doc of Inl _ \<Rightarrow> None | Inr (_, d) \<Rightarrow> Some d)
         | Do_Update now i req \<Rightarrow> (case update_change now i req doc of Inl _ \<Rightarrow> None | Inr (_, d) \<Rightarrow> Some d)
         | Do_Delete i expected \<Rightarrow> (case delete_change i expected doc of Inl _ \<Rightarrow> None | Inr (_, d) \<Rightarrow> Some d)
         | Do_Reorder req \<Rightarrow> (case reorder_change req doc of Inl _ \<Rightarrow> None | Inr (_, d) \<Rightarrow> Some d)
         | Do_Labels now req \<Rightarrow> (case labels_change lower now req doc of Inl _ \<Rightarrow> None | Inr (_, d) \<Rightarrow> Some d))"

definition run_op :: "(string \<Rightarrow> string) \<Rightarrow> (string \<Rightarrow> string) \<Rightarrow> inbox_codec \<Rightarrow> faults \<Rightarrow> inbox_op \<Rightarrow> inbox_state \<times> inbox_disk
    \<Rightarrow> (inbox_error, unit) result \<times> inbox_state \<times> inbox_disk" where
  "run_op lower md5 codec faults op s =
     (let p = Some (disk_save codec faults, disk_load lower codec)
      in case op of
           Do_Capture new_id now req \<Rightarrow> (case capture lower md5 p new_id now req s of (Inl e, s') \<Rightarrow> (Inl e, s') | (Inr _, s') \<Rightarrow> (Inr (), s'))
         | Do_Update now i req \<Rightarrow> (case update_item lower p now i req s of (Inl e, s') \<Rightarrow> (Inl e, s') | (Inr _, s') \<Rightarrow> (Inr (), s'))
         | Do_Delete i expected \<Rightarrow> delete_item lower p i expected s
         | Do_Reorder req \<Rightarrow> reorder_items lower p req s
         | Do_Labels now req \<Rightarrow> set_labels lower p now req s)"

text \<open>A service that starts from its files and runs operations; every operation meets its own faults. The premise on
  the codec is what \<open>serde_json\<close> promises for the document that is written.\<close>

inductive inbox_reachable :: "(string \<Rightarrow> string) \<Rightarrow> (string \<Rightarrow> string) \<Rightarrow> inbox_codec \<Rightarrow> inbox_state \<times> inbox_disk \<Rightarrow> bool"
  for lower md5 codec where
  started: "disk_load lower codec d = Inr doc \<Longrightarrow>
    inbox_reachable lower md5 codec (\<lparr>ib_document = doc, ib_runs = runs\<rparr>, d)"
| operated: "inbox_reachable lower md5 codec s \<Longrightarrow> run_op lower md5 codec faults op s = (r, s') \<Longrightarrow>
    (case op_change lower md5 op (ib_document (fst s)) of None \<Rightarrow> True
     | Some doc \<Rightarrow> codec_roundtrip codec (doc\<lparr>dc_revision := dc_revision doc + 1\<rparr>)) \<Longrightarrow>
    inbox_reachable lower md5 codec s'"

lemma load_document_storable:
  "load_document lower codec names d = Inr doc \<Longrightarrow> validate_document lower doc = Inr () \<and> dc_version doc = 1"
  by (auto simp: load_document_def rbind_Inr_iff Let_def check_case_Inr)

lemma changes_keep_version:
  "capture_change md5 new_id now req1 doc = Inr (x, doc') \<Longrightarrow> dc_version doc' = dc_version doc"
  "update_change now i req2 doc = Inr (x, doc') \<Longrightarrow> dc_version doc' = dc_version doc"
  "delete_change i expected doc = Inr (u, doc') \<Longrightarrow> dc_version doc' = dc_version doc"
  "reorder_change req3 doc = Inr (u, doc') \<Longrightarrow> dc_version doc' = dc_version doc"
  "labels_change lower now req4 doc = Inr (u, doc') \<Longrightarrow> dc_version doc' = dc_version doc"
  by (auto simp: capture_change_def update_change_def delete_change_def reorder_change_def labels_change_def
      rbind_Inr_iff Let_def split: option.splits if_splits prod.splits)

text \<open>One operation of a service whose memory agrees with its files.\<close>

lemma mutate_disk_agrees:
  assumes "disk.agrees lower codec s"
    and "mutate lower (Some (disk_save codec faults, disk_load lower codec)) change s = (r, s')"
    and "\<And>x doc. change (ib_document (fst s)) = Inr (x, doc) \<Longrightarrow> dc_version doc = dc_version (ib_document (fst s))"
    and "\<And>x doc. change (ib_document (fst s)) = Inr (x, doc) \<Longrightarrow> codec_roundtrip codec (doc\<lparr>dc_revision := dc_revision doc + 1\<rparr>)"
  shows "disk.agrees lower codec s'"
proof (rule disk.mutate_agrees [OF assms(1,2)])
  fix x doc
  assume c: "change (ib_document (fst s)) = Inr (x, doc)"
    and v: "validate_document lower (doc\<lparr>dc_revision := dc_revision doc + 1\<rparr>) = Inr ()"
  have "dc_version (ib_document (fst s)) = 1"
    using assms(1) load_document_storable by (auto simp: disk.agrees_def disk_load_def)
  with assms(3,4) [OF c] v show "storable_document lower codec (doc\<lparr>dc_revision := dc_revision doc + 1\<rparr>)"
    by (simp add: storable_document_def)
qed

lemma run_op_agrees:
  assumes "disk.agrees lower codec s" "run_op lower md5 codec faults op s = (r, s')"
    and "case op_change lower md5 op (ib_document (fst s)) of None \<Rightarrow> True
     | Some doc \<Rightarrow> codec_roundtrip codec (doc\<lparr>dc_revision := dc_revision doc + 1\<rparr>)"
  shows "disk.agrees lower codec s'"
proof (cases op)
  case (Do_Capture new_id now req)
  let ?m = "mutate lower (Some (disk_save codec faults, disk_load lower codec)) (capture_change md5 new_id now req) s"
  from assms(2) Do_Capture have "s' = s \<or> s' = snd ?m"
    by (auto simp: run_op_def capture_def try_in_def Let_def split: sum.splits prod.splits)
  moreover have "disk.agrees lower codec (snd ?m)"
    using assms(3) Do_Capture
    by (intro mutate_disk_agrees [OF assms(1) surjective_pairing])
      (auto simp: op_change_def dest: changes_keep_version(1))
  ultimately show ?thesis using assms(1) by blast
next
  case (Do_Update now i req)
  let ?m = "mutate lower (Some (disk_save codec faults, disk_load lower codec)) (update_change now i req) s"
  from assms(2) Do_Update have "s' = snd ?m"
    by (auto simp: run_op_def update_item_def Let_def split: sum.splits prod.splits)
  moreover have "disk.agrees lower codec (snd ?m)"
    using assms(3) Do_Update
    by (intro mutate_disk_agrees [OF assms(1) surjective_pairing])
      (auto simp: op_change_def dest: changes_keep_version(2))
  ultimately show ?thesis by simp
next
  case (Do_Delete i expected)
  let ?m = "mutate lower (Some (disk_save codec faults, disk_load lower codec)) (delete_change i expected) s"
  from assms(2) Do_Delete have "s' = snd ?m" by (simp add: run_op_def delete_item_def)
  moreover have "disk.agrees lower codec (snd ?m)"
    using assms(3) Do_Delete
    by (intro mutate_disk_agrees [OF assms(1) surjective_pairing])
      (auto simp: op_change_def dest: changes_keep_version(3))
  ultimately show ?thesis by simp
next
  case (Do_Reorder req)
  let ?m = "mutate lower (Some (disk_save codec faults, disk_load lower codec)) (reorder_change req) s"
  from assms(2) Do_Reorder have "s' = snd ?m" by (simp add: run_op_def reorder_items_def)
  moreover have "disk.agrees lower codec (snd ?m)"
    using assms(3) Do_Reorder
    by (intro mutate_disk_agrees [OF assms(1) surjective_pairing])
      (auto simp: op_change_def dest: changes_keep_version(4))
  ultimately show ?thesis by simp
next
  case (Do_Labels now req)
  let ?m = "mutate lower (Some (disk_save codec faults, disk_load lower codec)) (labels_change lower now req) s"
  from assms(2) Do_Labels have "s' = snd ?m" by (simp add: run_op_def set_labels_def)
  moreover have "disk.agrees lower codec (snd ?m)"
    using assms(3) Do_Labels
    by (intro mutate_disk_agrees [OF assms(1) surjective_pairing])
      (auto simp: op_change_def dest: changes_keep_version(5))
  ultimately show ?thesis by simp
qed

lemma inbox_memory_agrees: "inbox_reachable lower md5 codec s \<Longrightarrow> disk.agrees lower codec s"
  by (induction rule: inbox_reachable.induct) (auto simp: disk.agrees_def intro: run_op_agrees [unfolded disk.agrees_def])

text \<open>C12: In every state a running inbox can reach, with any operations, refused or not, and any faults of the file
  system on the way, the document in memory is valid and is exactly what a restart would load from the files.\<close>

theorem inbox_memory_is_durable:
  assumes "inbox_reachable lower md5 codec s"
  shows "disk_load lower codec (snd s) = Inr (ib_document (fst s)) \<and>
    validate_document lower (ib_document (fst s)) = Inr () \<and> distinct (map it_id (dc_items (ib_document (fst s))))"
proof -
  from inbox_memory_agrees [OF assms] have l: "disk_load lower codec (snd s) = Inr (ib_document (fst s))" by (simp add: disk.agrees_def)
  then have "validate_document lower (ib_document (fst s)) = Inr ()"
    using load_document_storable by (auto simp: disk_load_def)
  with l validate_document_items show ?thesis by blast
qed

definition sample_capture :: capture_request where
  "sample_capture = \<lparr>cp_request_key = ''k1'', cp_markdown = ''Fix it''\<rparr>"

theorem inbox_memory_is_durable_witness:
  "disk_load (\<lambda>s. s) sample_codec sample_disk = Inr sample_document"
proof -
  let ?s0 = "(\<lparr>ib_document = document_default, ib_runs = []\<rparr>, empty_disk)"
  let ?s1 = "(\<lparr>ib_document = sample_document, ib_runs = []\<rparr>, sample_disk)"
  let ?op = "Do_Capture ''i1'' ''t'' sample_capture"
  have "disk_load (\<lambda>s. s) sample_codec empty_disk = Inr document_default" by code_simp
  then have "inbox_reachable (\<lambda>s. s) (\<lambda>s. s) sample_codec ?s0" by (rule started)
  moreover have "run_op (\<lambda>s. s) (\<lambda>s. s) sample_codec (\<lambda>_. Op_Done) ?op ?s0 = (Inr (), ?s1)" by code_simp
  moreover have "case op_change (\<lambda>s. s) (\<lambda>s. s) ?op (ib_document (fst ?s0)) of None \<Rightarrow> True
     | Some doc \<Rightarrow> codec_roundtrip sample_codec (doc\<lparr>dc_revision := dc_revision doc + 1\<rparr>)" by code_simp
  ultimately have "inbox_reachable (\<lambda>s. s) (\<lambda>s. s) sample_codec ?s1" by (rule operated)
  from inbox_memory_is_durable [OF this] show ?thesis by simp
qed

section \<open>Repeated requests\<close>

text \<open>What an operation leaves as the document: the old one, or the changed one if it succeeds.\<close>

lemma mutate_disk_document:
  assumes "disk.agrees lower codec s"
    and "mutate lower (Some (disk_save codec faults, disk_load lower codec)) change s = (r, s')"
  shows "(\<exists>e. r = Inl e) \<and> ib_document (fst s') = ib_document (fst s) \<or>
    (\<exists>x doc. r = Inr x \<and> change (ib_document (fst s)) = Inr (x, doc) \<and>
       ib_document (fst s') = doc\<lparr>dc_revision := dc_revision doc + 1\<rparr>)"
proof -
  obtain st d where s: "s = (st, d)" by (cases s)
  have durable: "disk_load lower codec d' = Inr (ib_document st)" if "disk_save codec faults doc d = (Inl e, d')" for doc e d'
    using disk.failed_save_keeps [OF that, of lower] assms(1) by (simp add: disk.agrees_def s)
  show ?thesis
    using assms(2) unfolding s mutate_def
    by (auto simp: try_in_def Let_def durable split: sum.splits prod.splits)
qed

lemma run_op_document:
  assumes "disk.agrees lower codec s" "run_op lower md5 codec faults op s = (r, s')"
  shows "ib_document (fst s') = ib_document (fst s) \<or>
    (\<exists>doc. op_change lower md5 op (ib_document (fst s)) = Some doc \<and>
       ib_document (fst s') = doc\<lparr>dc_revision := dc_revision doc + 1\<rparr>)"
proof -
  let ?p = "Some (disk_save codec faults, disk_load lower codec)"
  note m = mutate_disk_document [OF assms(1) surjective_pairing, where faults = faults]
  show ?thesis
  proof (cases op)
    case (Do_Capture new_id now req)
    from assms(2) Do_Capture have "s' = s \<or> s' = snd (mutate lower ?p (capture_change md5 new_id now req) s)"
      by (auto simp: run_op_def capture_def try_in_def Let_def split: sum.splits prod.splits)
    with m [of "capture_change md5 new_id now req"] show ?thesis by (auto simp: op_change_def Do_Capture)
  next
    case (Do_Update now i req)
    from assms(2) Do_Update have "s' = snd (mutate lower ?p (update_change now i req) s)"
      by (auto simp: run_op_def update_item_def Let_def split: sum.splits prod.splits)
    with m [of "update_change now i req"] show ?thesis by (auto simp: op_change_def Do_Update)
  next
    case (Do_Delete i expected)
    from assms(2) Do_Delete have "s' = snd (mutate lower ?p (delete_change i expected) s)"
      by (simp add: run_op_def delete_item_def)
    with m [of "delete_change i expected"] show ?thesis by (auto simp: op_change_def Do_Delete)
  next
    case (Do_Reorder req)
    from assms(2) Do_Reorder have "s' = snd (mutate lower ?p (reorder_change req) s)"
      by (simp add: run_op_def reorder_items_def)
    with m [of "reorder_change req"] show ?thesis by (auto simp: op_change_def Do_Reorder)
  next
    case (Do_Labels now req)
    from assms(2) Do_Labels have "s' = snd (mutate lower ?p (labels_change lower now req) s)"
      by (simp add: run_op_def set_labels_def)
    with m [of "labels_change lower now req"] show ?thesis by (auto simp: op_change_def Do_Labels)
  qed
qed

lemma op_change_captures:
  assumes "op_change lower md5 op doc = Some doc'" "fmlookup (dc_captures doc) key = Some p"
  shows "fmlookup (dc_captures doc') key = Some p"
  using assms
  by (cases op) (auto simp: op_change_def capture_change_def update_change_def delete_change_def reorder_change_def
      labels_change_def rbind_Inr_iff Let_def split: sum.splits option.splits if_splits prod.splits)

text \<open>What can follow a state: operations with their own faults, and restarts.\<close>

inductive inbox_later :: "(string \<Rightarrow> string) \<Rightarrow> (string \<Rightarrow> string) \<Rightarrow> inbox_codec \<Rightarrow> inbox_state \<times> inbox_disk
    \<Rightarrow> inbox_state \<times> inbox_disk \<Rightarrow> bool"
  for lower md5 codec s where
  at_once: "inbox_later lower md5 codec s s"
| after_operation: "inbox_later lower md5 codec s t \<Longrightarrow> run_op lower md5 codec faults op t = (r, t') \<Longrightarrow>
    (case op_change lower md5 op (ib_document (fst t)) of None \<Rightarrow> True
     | Some doc \<Rightarrow> codec_roundtrip codec (doc\<lparr>dc_revision := dc_revision doc + 1\<rparr>)) \<Longrightarrow>
    inbox_later lower md5 codec s t'"
| after_restart: "inbox_later lower md5 codec s (st, d) \<Longrightarrow> disk_load lower codec d = Inr doc \<Longrightarrow>
    inbox_later lower md5 codec s (\<lparr>ib_document = doc, ib_runs = runs\<rparr>, d)"

lemma inbox_later_keeps:
  assumes "inbox_later lower md5 codec s t" "disk.agrees lower codec s"
    and "fmlookup (dc_captures (ib_document (fst s))) key = Some p"
  shows "disk.agrees lower codec t \<and> fmlookup (dc_captures (ib_document (fst t))) key = Some p"
  using assms
proof induction
  case (after_operation t faults op r t')
  then have t: "disk.agrees lower codec t" "fmlookup (dc_captures (ib_document (fst t))) key = Some p" by simp_all
  from run_op_document [OF t(1) after_operation.hyps(2)]
  have "fmlookup (dc_captures (ib_document (fst t'))) key = Some p"
  proof (elim disjE exE conjE)
    fix doc
    assume "op_change lower md5 op (ib_document (fst t)) = Some doc"
      and "ib_document (fst t') = doc\<lparr>dc_revision := dc_revision doc + 1\<rparr>"
    with op_change_captures [OF this(1) t(2)] show ?thesis by simp
  qed (use t(2) in simp)
  with run_op_agrees [OF t(1) after_operation.hyps(2,3)] show ?case by blast
next
  case (after_restart st d doc runs)
  then show ?case by (simp add: disk.agrees_def)
qed simp

lemma capture_change_found:
  assumes "capture_change md5 new_id now req doc = Inr (x, doc')" "distinct (map it_id (dc_items doc'))"
  shows "fmlookup (dc_captures doc') (cp_request_key req) = Some (it_id x, md5 (cp_markdown req)) \<and>
    find (\<lambda>y. it_id y = it_id x) (dc_items doc') = Some x"
proof (cases "fmlookup (dc_captures doc) (cp_request_key req)")
  case None
  with assms(1) have d: "doc' = doc\<lparr>dc_captures := fmupd (cp_request_key req) (new_id, md5 (cp_markdown req)) (dc_captures doc),
      dc_items := dc_items doc @ [x]\<rparr>" "it_id x = new_id"
    by (auto simp: capture_change_def Let_def)
  have "find (\<lambda>y. it_id y = it_id x) (dc_items doc') = Some x"
    by (rule find_key_distinct [OF assms(2)]) (simp add: d)
  with d show ?thesis by simp
next
  case (Some p)
  obtain i fp where "p = (i, fp)" by (cases p)
  with Some assms(1) show ?thesis
    by (auto simp: capture_change_def split: option.splits if_splits dest: find_SomeD)
qed

text \<open>A change that leaves labels and requirements as they are, on a store that agrees with its files.\<close>

lemma mutate_unchanged:
  assumes "disk.agrees lower codec s" "change (ib_document (fst s)) = Inr (x, ib_document (fst s))"
    and "mutate lower (Some (disk_save codec faults, disk_load lower codec)) change s = (r, s')"
  shows "dc_items (ib_document (fst s')) = dc_items (ib_document (fst s)) \<and>
    (r = Inr x \<or> faults \<noteq> (\<lambda>_. Op_Done) \<and> (\<exists>e. r = Inl (Inbox_Internal e)))"
proof -
  obtain st d where s: "s = (st, d)" by (cases s)
  let ?next = "(ib_document st)\<lparr>dc_revision := dc_revision (ib_document st) + 1\<rparr>"
  have l: "load_document lower codec (list_active d) d = Inr (ib_document st)"
    using assms(1) by (simp add: disk.agrees_def disk_load_def s)
  then have v: "validate_document lower ?next = Inr ()"
    using load_document_storable [OF l] by (simp add: validate_document_def)
  obtain rs d' where sv: "disk_save codec faults ?next d = (rs, d')" by (cases "disk_save codec faults ?next d")
  have m: "mutate lower (Some (disk_save codec faults, disk_load lower codec)) change s =
      (case rs of
         Inr _ \<Rightarrow> (Inr x, st\<lparr>ib_document := ?next\<rparr>, d')
       | Inl e \<Rightarrow> (Inl (Inbox_Internal e), (case disk_load lower codec d' of Inr durable \<Rightarrow> st\<lparr>ib_document := durable\<rparr> | Inl _ \<Rightarrow> st), d'))"
    using assms(2) v sv by (simp add: mutate_def s Let_def split: sum.splits)
  show ?thesis
  proof (cases rs)
    case (Inl e)
    from disk.failed_save_keeps [of codec faults ?next d e d' lower] sv Inl l
    have "disk_load lower codec d' = Inr (ib_document st)" by (simp add: disk_load_def)
    moreover have "faults \<noteq> (\<lambda>_. Op_Done)"
      using save_loaded_done [OF l list_active_listing, of ?next "\<lambda>_. Op_Done"] sv Inl by (auto simp: disk_save_def)
    ultimately show ?thesis using assms(3) m Inl s by auto
  qed (use assms(3) m s in auto)
qed

text \<open>C35: Repeating a capture is harmless, whatever happened since. Once a running inbox has captured a
  requirement, then after any later operations, failed writes and restarts the same request adds no requirement
  and leaves the others as they are. While the captured requirement exists, the request returns it as it is
  now, or reports a failed write, which it never does when the file system does not fail; once it has been deleted,
  the request is refused for that reason.\<close>

theorem repeated_capture_returns_the_item:
  assumes "inbox_reachable lower md5 codec s"
    and "capture lower md5 (Some (disk_save codec faults, disk_load lower codec)) new_id now req s = (Inr x, s1)"
    and "codec_roundtrip codec (ib_document (fst s1))"
    and "inbox_later lower md5 codec s1 s2"
    and "capture lower md5 (Some (disk_save codec faults', disk_load lower codec)) new_id' now' req s2 = (r, s3)"
  shows "find (\<lambda>y. it_id y = it_id x) (dc_items (ib_document (fst s1))) = Some x \<and>
    dc_items (ib_document (fst s3)) = dc_items (ib_document (fst s2)) \<and>
    (case find (\<lambda>y. it_id y = it_id x) (dc_items (ib_document (fst s2))) of
       Some y \<Rightarrow> r = Inr y \<or> faults' \<noteq> (\<lambda>_. Op_Done) \<and> (\<exists>e. r = Inl (Inbox_Internal e))
     | None \<Rightarrow> r = Inl (Inbox_Conflict ''server.this_entry_was_deleted''))"
proof -
  let ?find = "\<lambda>t. find (\<lambda>y. it_id y = it_id x) (dc_items (ib_document (fst t)))"
  have s: "disk.agrees lower codec s" using inbox_memory_agrees [OF assms(1)] .
  from assms(2) have v: "validate_id (cp_request_key req) = Inr ()" "validate_markdown (cp_markdown req) = Inr ()"
    and m: "mutate lower (Some (disk_save codec faults, disk_load lower codec)) (capture_change md5 new_id now req) s = (Inr x, s1)"
    by (auto simp: capture_def try_in_def split: sum.splits)
  from mutate_disk_document [OF s m] obtain doc where
    doc: "capture_change md5 new_id now req (ib_document (fst s)) = Inr (x, doc)"
      "ib_document (fst s1) = doc\<lparr>dc_revision := dc_revision doc + 1\<rparr>" by auto
  have s1: "disk.agrees lower codec s1"
    by (rule mutate_disk_agrees [OF s m]) (use doc assms(3) in \<open>auto dest: changes_keep_version(1)\<close>)
  then have "validate_document lower (ib_document (fst s1)) = Inr ()"
    using load_document_storable by (auto simp: disk.agrees_def disk_load_def)
  then have "distinct (map it_id (dc_items doc))" using validate_document_items doc(2) by fastforce
  from capture_change_found [OF doc(1) this]
  have found: "?find s1 = Some x"
    "fmlookup (dc_captures (ib_document (fst s1))) (cp_request_key req) = Some (it_id x, md5 (cp_markdown req))"
    by (simp_all add: doc(2))
  from inbox_later_keeps [OF assms(4) s1 found(2)] have s2: "disk.agrees lower codec s2"
    "fmlookup (dc_captures (ib_document (fst s2))) (cp_request_key req) = Some (it_id x, md5 (cp_markdown req))" by simp_all
  have m2: "mutate lower (Some (disk_save codec faults', disk_load lower codec)) (capture_change md5 new_id' now' req) s2 = (r, s3)"
    using assms(5) v by (simp add: capture_def)
  show ?thesis
  proof (cases "?find s2")
    case None
    with s2(2) have "capture_change md5 new_id' now' req (ib_document (fst s2)) = Inl (Inbox_Conflict ''server.this_entry_was_deleted'')"
      by (simp add: capture_change_def)
    with m2 None found(1) show ?thesis by (auto simp: mutate_def split: prod.splits)
  next
    case (Some y)
    with s2(2) have "capture_change md5 new_id' now' req (ib_document (fst s2)) = Inr (y, ib_document (fst s2))"
      by (simp add: capture_change_def)
    from mutate_unchanged [OF s2(1) this m2] Some found(1) show ?thesis by simp
  qed
qed

theorem repeated_capture_returns_the_item_witness:
  "fst (capture (\<lambda>s. s) (\<lambda>s. s) (Some (disk_save sample_codec (\<lambda>_. Op_Done), disk_load (\<lambda>s. s) sample_codec)) ''i2'' ''u''
     sample_capture (\<lparr>ib_document = sample_document, ib_runs = []\<rparr>, sample_disk)) = Inr sample_item"
proof -
  let ?p = "Some (disk_save sample_codec (\<lambda>_. Op_Done), disk_load (\<lambda>s. s) sample_codec)"
  let ?s0 = "(\<lparr>ib_document = document_default, ib_runs = []\<rparr>, empty_disk)"
  let ?s1 = "(\<lparr>ib_document = sample_document, ib_runs = []\<rparr>, sample_disk)"
  have "disk_load (\<lambda>s. s) sample_codec empty_disk = Inr document_default" by code_simp
  then have 0: "inbox_reachable (\<lambda>s. s) (\<lambda>s. s) sample_codec ?s0" by (rule started)
  have 1: "capture (\<lambda>s. s) (\<lambda>s. s) ?p ''i1'' ''t'' sample_capture ?s0 = (Inr sample_item, ?s1)" by code_simp
  have 2: "codec_roundtrip sample_codec (ib_document (fst ?s1))" by code_simp
  have "disk_load (\<lambda>s. s) sample_codec sample_disk = Inr sample_document" by code_simp
  then have 3: "inbox_later (\<lambda>s. s) (\<lambda>s. s) sample_codec ?s1 ?s1" by (rule after_restart [OF at_once])
  have "find (\<lambda>y. it_id y = it_id sample_item) (dc_items sample_document) = Some sample_item" by code_simp
  with repeated_capture_returns_the_item [OF 0 1 2 3 surjective_pairing, of "\<lambda>_. Op_Done" "''i2''" "''u''"]
  show ?thesis by simp
qed

section \<open>Executions of a requirement\<close>

text \<open>The runs of a service and their file. A write that fails leaves the old file or the new one. The document may
  change in any way between the steps; a restart reads the file and interrupts what was starting.\<close>

inductive runs_reachable :: "(execute_request \<Rightarrow> (string, string) result) \<Rightarrow> inbox_state \<Rightarrow> inbox_run list \<Rightarrow> bool"
  for fingerprint where
  no_runs: "runs_reachable fingerprint \<lparr>ib_document = doc, ib_runs = []\<rparr> []"
| begun: "runs_reachable fingerprint st journal \<Longrightarrow>
    begin_run fingerprint new_id now saved x req cwd markdown fp st = (r, st') \<Longrightarrow>
    begin_run fingerprint new_id now (Inr ()) x req cwd markdown fp st = (r0, st0) \<Longrightarrow>
    journal' = journal \<or> journal' = ib_runs st0 \<Longrightarrow> runs_reachable fingerprint st' journal'"
| moved: "runs_reachable fingerprint st journal \<Longrightarrow> set_run_cwd saved i cwd st = (r, st') \<Longrightarrow>
    set_run_cwd (Inr ()) i cwd st = (r0, st0) \<Longrightarrow>
    journal' = journal \<or> journal' = ib_runs st0 \<Longrightarrow> runs_reachable fingerprint st' journal'"
| ended: "runs_reachable fingerprint st journal \<Longrightarrow> finish_run saved i info st = (r, st') \<Longrightarrow>
    journal' = journal \<or> journal' = ib_runs st' \<Longrightarrow> runs_reachable fingerprint st' journal'"
| changed: "runs_reachable fingerprint st journal \<Longrightarrow> runs_reachable fingerprint (st\<lparr>ib_document := doc\<rparr>) journal"
| restarted: "runs_reachable fingerprint st journal \<Longrightarrow>
    journal' = journal \<or> journal' = map interrupt_run journal \<Longrightarrow>
    runs_reachable fingerprint \<lparr>ib_document = doc, ib_runs = map interrupt_run journal\<rparr> journal'"

definition runs_ok :: "inbox_run list \<Rightarrow> bool" where
  "runs_ok rs \<longleftrightarrow> distinct (map ir_request_key rs) \<and>
     distinct (map ir_item_id (filter (\<lambda>r. ir_phase r = Phase_Starting) rs))"

lemma runs_ok_update:
  assumes "runs_ok rs" "k < length rs" "ir_request_key r = ir_request_key (rs ! k)" "ir_item_id r = ir_item_id (rs ! k)"
    and "ir_phase r = Phase_Starting \<longrightarrow> ir_phase (rs ! k) = Phase_Starting"
  shows "runs_ok (rs[k := r])"
proof -
  have "map ir_request_key (rs[k := r]) = map ir_request_key rs"
    using assms(2,3) by (simp add: map_update list_update_same_conv)
  moreover have "distinct (map ir_item_id (filter (\<lambda>r. ir_phase r = Phase_Starting) (rs[k := r])))"
    using assms
  proof (induction rs arbitrary: k)
    case (Cons a rs)
    have ok: "runs_ok rs" using Cons.prems(1) by (auto simp: runs_ok_def split: if_splits)
    show ?case
    proof (cases k)
      case 0
      with Cons.prems show ?thesis by (auto simp: runs_ok_def split: if_splits)
    next
      case (Suc j)
      have sub: "ir_item_id ` {x \<in> set (rs[j := r]). ir_phase x = Phase_Starting} \<subseteq>
          ir_item_id ` {x \<in> set rs. ir_phase x = Phase_Starting}"
        using Cons.prems(2,4,5) Suc set_update_subset_insert [of rs j r] nth_mem [of j rs] by fastforce
      from Cons.IH [OF ok, of j] Cons.prems Suc
      have "distinct (map ir_item_id (filter (\<lambda>r. ir_phase r = Phase_Starting) (rs[j := r])))" by simp
      then show ?thesis using Cons.prems(1) Suc sub by (auto simp: runs_ok_def split: if_splits)
    qed
  qed simp
  ultimately show ?thesis using assms(1) by (simp add: runs_ok_def)
qed

lemma interrupt_run_keeps [simp]: "ir_request_key (interrupt_run r) = ir_request_key r" "ir_phase (interrupt_run r) \<noteq> Phase_Starting"
  by (simp_all add: interrupt_run_def)

lemma runs_ok_interrupt: "runs_ok rs \<Longrightarrow> runs_ok (map interrupt_run rs)"
  by (simp add: runs_ok_def comp_def)

lemma begin_run_ok:
  assumes "begin_run fingerprint new_id now saved x req cwd markdown fp st = (r, st')" "runs_ok (ib_runs st)"
  shows "runs_ok (ib_runs st')"
proof (cases "ib_runs st' = ib_runs st")
  case False
  from assms(1) False have e: "existing_run fingerprint (ib_runs st) (it_id x) req = Inr None"
    by (auto simp: begin_run_def try_in_def Let_def split: sum.splits option.splits if_splits)
  then have "find (\<lambda>r. ir_request_key r = ex_request_key req) (ib_runs st) = None"
    by (auto simp: existing_run_def split: sum.splits option.splits if_splits)
  then have key: "ex_request_key req \<notin> set (map ir_request_key (ib_runs st))" by (auto simp: find_None_iff)
  from assms(1) False have n: "\<not> list_ex (\<lambda>r. ir_item_id r = it_id x \<and> ir_phase r = Phase_Starting) (ib_runs st)"
    by (auto simp: begin_run_def try_in_def Let_def split: sum.splits option.splits if_splits)
  from assms(1) False obtain a where "ib_runs st' = ib_runs st @ [a]" "ir_request_key a = ex_request_key req" "ir_item_id a = it_id x"
    by (auto simp: begin_run_def try_in_def Let_def split: sum.splits option.splits if_splits)
  with assms(2) key n show ?thesis by (auto simp: runs_ok_def list_ex_iff)
qed (use assms(2) in simp)

lemma set_run_cwd_ok:
  "set_run_cwd saved i cwd st = (r, st') \<Longrightarrow> runs_ok (ib_runs st) \<Longrightarrow> runs_ok (ib_runs st')"
  by (auto simp: set_run_cwd_def intro!: runs_ok_update dest: position_lessI split: option.splits sum.splits)

lemma finish_run_ok:
  "finish_run saved i info st = (r, st') \<Longrightarrow> runs_ok (ib_runs st) \<Longrightarrow> runs_ok (ib_runs st')"
  by (auto simp: finish_run_def finished_def Let_def intro!: runs_ok_update dest: position_lessI split: option.splits sum.splits)

text \<open>C15: A requirement is never executed twice for one request and never started twice at a time, with failed
  writes and restarts in between: the recorded runs have distinct request keys, and at most one run of a requirement
  is starting.\<close>

theorem one_run_per_request:
  assumes "runs_reachable fingerprint st journal"
  shows "distinct (map ir_request_key (ib_runs st)) \<and>
    distinct (map ir_item_id (filter (\<lambda>r. ir_phase r = Phase_Starting) (ib_runs st)))"
proof -
  have "runs_ok (ib_runs st) \<and> runs_ok journal"
    using assms
    by induction (auto simp: runs_ok_interrupt intro: begin_run_ok set_run_cwd_ok finish_run_ok, simp_all add: runs_ok_def)
  then show ?thesis by (simp add: runs_ok_def)
qed

definition sample_execute :: execute_request where
  "sample_execute = \<lparr>ex_expected_revision = 1, ex_request_key = ''e1'', ex_agent = ''codex'', ex_append_prompt = [],
     ex_workspace = \<lparr>wc_mode = Temporary, wc_path = [], wc_base_branch = []\<rparr>\<rparr>"

definition sample_begin :: "inbox_state \<Rightarrow> (inbox_error, inbox_run \<times> bool) result \<times> inbox_state" where
  "sample_begin = begin_run (\<lambda>_. Inr ''f'') ''r1'' ''t'' (Inr ()) (sample_item\<lparr>it_project_id := Some ''p''\<rparr>) sample_execute
     [] ''Fix it'' ''f''"

theorem one_run_per_request_witness:
  "distinct (map ir_request_key (ib_runs (snd (sample_begin \<lparr>ib_document = sample_document, ib_runs = []\<rparr>)))) \<and>
   map ir_request_key (ib_runs (snd (sample_begin \<lparr>ib_document = sample_document, ib_runs = []\<rparr>))) = [''e1'']"
proof -
  let ?st = "\<lparr>ib_document = sample_document, ib_runs = []\<rparr>"
  have b: "begin_run (\<lambda>_. Inr ''f'') ''r1'' ''t'' (Inr ()) (sample_item\<lparr>it_project_id := Some ''p''\<rparr>) sample_execute
      [] ''Fix it'' ''f'' ?st = (fst (sample_begin ?st), snd (sample_begin ?st))" by (simp add: sample_begin_def)
  have "runs_reachable (\<lambda>_. Inr ''f'') (snd (sample_begin ?st)) (ib_runs (snd (sample_begin ?st)))"
    by (rule begun [OF no_runs b b]) simp
  from one_run_per_request [OF this]
  have "distinct (map ir_request_key (ib_runs (snd (sample_begin ?st))))" by blast
  moreover have "map ir_request_key (ib_runs (snd (sample_begin ?st))) = [''e1'']" by code_simp
  ultimately show ?thesis by blast
qed

end
