(* ===== verification/Auth_Sessions.thy ===== *)
theory Auth_Sessions
  imports Rust_Str "HOL-Library.Code_Target_Numeral"
begin

text \<open>
  Login sessions and access checks: \<open>crates/server/src/auth/sessions.rs\<close>, \<open>timeouts.rs\<close>,
  \<open>provider.rs\<close> and the checks of \<open>mod.rs\<close> and \<open>authorization.rs\<close>. Instants are nanoseconds;
  the subtraction of instants saturates at zero, as \<open>duration_since\<close> does. A login provider is a record of its
  methods. The cancellation tokens are numbered, and the store remembers which are canceled. The hash map is the list
  of its entries in an order of its own, and \<open>uuid\<close> gives the token of a new session. A check asks the store before and
  after the validation by the provider; it is one step with two readings of the clock, so that a change of the store by
  another request in between is not modelled.
\<close>

text \<open>The status and the code of an \<open>HttpError\<close>.\<close>

type_synonym http_error = "nat \<times> string"

definition authentication_required :: http_error where
  "authentication_required = (401, ''authentication_required'')"

record verified_identity =
  vi_subject :: string
  vi_revision :: string

record session_timeouts =
  st_max_age :: nat
  st_idle_timeout :: nat

definition from_seconds :: "nat \<Rightarrow> nat \<Rightarrow> (string, session_timeouts) result" where
  "from_seconds max_age idle_timeout =
     rbind (ensure (0 < max_age) ''session max age must be greater than zero'') (\<lambda>_.
     rbind (ensure (0 < idle_timeout) ''session idle timeout must be greater than zero'') (\<lambda>_.
     Inr \<lparr>st_max_age = max_age * 1000000000, st_idle_timeout = idle_timeout * 1000000000\<rparr>))"

definition DEFAULT_MAX_AGE_SECONDS :: nat where "DEFAULT_MAX_AGE_SECONDS = 12 * 60 * 60"
definition DEFAULT_IDLE_TIMEOUT_SECONDS :: nat where "DEFAULT_IDLE_TIMEOUT_SECONDS = 30 * 60"

section \<open>The session store\<close>

record auth_session =
  as_method :: string
  as_identity :: verified_identity
  as_cancelled :: nat
  as_created :: nat
  as_last_active :: nat

record auth_sessions =
  se_entries :: "(string \<times> auth_session) list"
  se_timeouts :: session_timeouts
  se_issued :: nat
  se_cancelled :: "nat list"

definition MAX_SESSIONS :: nat where "MAX_SESSIONS = 64"

definition expired :: "nat \<Rightarrow> session_timeouts \<Rightarrow> auth_session \<Rightarrow> bool" where
  "expired now timeouts s \<longleftrightarrow> st_max_age timeouts \<le> now - as_created s \<or> st_idle_timeout timeouts \<le> now - as_last_active s"

definition prune_sessions :: "nat \<Rightarrow> auth_sessions \<Rightarrow> auth_sessions" where
  "prune_sessions now st =
     st\<lparr>se_entries := filter (\<lambda>e. \<not> expired now (se_timeouts st) (snd e)) (se_entries st),
        se_cancelled := se_cancelled st @ map (as_cancelled \<circ> snd) (filter (\<lambda>e. expired now (se_timeouts st) (snd e)) (se_entries st))\<rparr>"

text \<open>\<open>remove\<close> with the cancellation of what was removed.\<close>

definition revoke :: "string \<Rightarrow> auth_sessions \<Rightarrow> auth_sessions" where
  "revoke token st =
     (case map_of (se_entries st) token of
        None \<Rightarrow> st
      | Some s \<Rightarrow> st\<lparr>se_entries := filter (\<lambda>e. fst e \<noteq> token) (se_entries st),
                    se_cancelled := se_cancelled st @ [as_cancelled s]\<rparr>)"

text \<open>\<open>min_by_key\<close>: the first of the entries created earliest.\<close>

fun oldest_session :: "(string \<times> auth_session) list \<Rightarrow> (string \<times> auth_session) option" where
  "oldest_session [] = None"
| "oldest_session (e # es) =
     (case oldest_session es of
        None \<Rightarrow> Some e
      | Some m \<Rightarrow> if as_created (snd e) \<le> as_created (snd m) then Some e else Some m)"

text \<open>The first part of \<open>create\<close>: expired sessions leave, and the oldest one when the store is full.\<close>

definition make_room :: "nat \<Rightarrow> auth_sessions \<Rightarrow> auth_sessions" where
  "make_room now st =
     (let st = prune_sessions now st
      in if MAX_SESSIONS \<le> length (se_entries st)
         then (case oldest_session (se_entries st) of None \<Rightarrow> st | Some (token, _) \<Rightarrow> revoke token st)
         else st)"

definition create_session :: "nat \<Rightarrow> string \<Rightarrow> string \<Rightarrow> verified_identity \<Rightarrow> auth_sessions \<Rightarrow> string \<times> auth_sessions" where
  "create_session now uuid method ident st =
     (let st = make_room now st;
          s = \<lparr>as_method = method, as_identity = ident, as_cancelled = se_issued st, as_created = now, as_last_active = now\<rparr>
      in (uuid, st\<lparr>se_entries := filter (\<lambda>e. fst e \<noteq> uuid) (se_entries st) @ [(uuid, s)], se_issued := Suc (se_issued st)\<rparr>))"

definition get_session :: "nat \<Rightarrow> string \<Rightarrow> bool \<Rightarrow> auth_sessions \<Rightarrow> auth_session option \<times> auth_sessions" where
  "get_session now token touch st =
     (let st = prune_sessions now st
      in case map_of (se_entries st) token of
           None \<Rightarrow> (None, st)
         | Some s \<Rightarrow>
             if touch
             then (let s' = s\<lparr>as_last_active := now\<rparr>
                   in (Some s', st\<lparr>se_entries := map (\<lambda>e. if fst e = token then (token, s') else e) (se_entries st)\<rparr>))
             else (Some s, st))"

section \<open>Access checks\<close>

record 'c login_provider =
  lp_id :: string
  lp_check_configured :: "(http_error, unit) result"
  lp_authenticate :: "'c \<Rightarrow> (http_error, verified_identity) result"
  lp_validate_session :: "verified_identity \<Rightarrow> (http_error, bool) result"

text \<open>The loop over the providers at the end of \<open>check\<close>.\<close>

fun refuse_access :: "'c login_provider list \<Rightarrow> http_error option \<Rightarrow> http_error" where
  "refuse_access [] e = (case e of None \<Rightarrow> (503, ''auth_not_configured'') | Some e \<Rightarrow> e)"
| "refuse_access (p # ps) e =
     (case lp_check_configured p of
        Inr _ \<Rightarrow> authentication_required
      | Inl e' \<Rightarrow> refuse_access ps (case e of None \<Rightarrow> Some e' | Some e \<Rightarrow> Some e))"

text \<open>\<open>check\<close>: the clock is read twice, at \<open>now\<close> and at \<open>now'\<close>.\<close>

definition check_access :: "'c login_provider list \<Rightarrow> bool \<Rightarrow> nat \<Rightarrow> nat \<Rightarrow> string option \<Rightarrow> bool \<Rightarrow> auth_sessions
    \<Rightarrow> (http_error, auth_session option) result \<times> auth_sessions" where
  "check_access providers disabled now now' token touch st =
     (if disabled then (Inr None, st)
      else case token of
        None \<Rightarrow> (Inl (refuse_access providers None), st)
      | Some t \<Rightarrow>
          (case get_session now t False st of
             (None, st) \<Rightarrow> (Inl (refuse_access providers None), st)
           | (Some s, st) \<Rightarrow>
               (case (case find (\<lambda>p. lp_id p = as_method s) providers of
                        None \<Rightarrow> Inr False | Some p \<Rightarrow> lp_validate_session p (as_identity s)) of
                  Inr True \<Rightarrow>
                    (case get_session now' t touch st of
                       (None, st) \<Rightarrow> (Inl authentication_required, st)
                     | (Some s, st) \<Rightarrow> (Inr (Some s), st))
                | Inr False \<Rightarrow> (let st = revoke t st in (Inl (refuse_access providers None), st))
                | Inl e \<Rightarrow> (Inl e, revoke t st))))"

definition authenticate :: "'c login_provider list \<Rightarrow> nat \<Rightarrow> string \<Rightarrow> string \<Rightarrow> 'c \<Rightarrow> auth_sessions
    \<Rightarrow> (http_error, string) result \<times> auth_sessions" where
  "authenticate providers now uuid method credentials st =
     try_in (ok_or (find (\<lambda>p. lp_id p = method) providers) (400, ''unsupported_login_method'')) st (\<lambda>p.
     try_in (lp_authenticate p credentials) st (\<lambda>ident.
     case create_session now uuid (lp_id p) ident st of (t, st') \<Rightarrow> (Inr t, st')))"

text \<open>\<open>SessionAccess::validate\<close> of a connection that was opened in a session.\<close>

definition validate_access :: "'c login_provider list \<Rightarrow> bool \<Rightarrow> nat \<Rightarrow> nat \<Rightarrow> string \<Rightarrow> nat \<Rightarrow> bool \<Rightarrow> auth_sessions
    \<Rightarrow> (http_error, unit) result \<times> auth_sessions" where
  "validate_access providers disabled now now' token cancelled activity st =
     (if cancelled \<in> set (se_cancelled st) then (Inl authentication_required, st)
      else case check_access providers disabled now now' (Some token) activity st of
             (Inl e, st') \<Rightarrow> (Inl e, st') | (Inr _, st') \<Rightarrow> (Inr (), st'))"

section \<open>Sessions and their connections\<close>

text \<open>Tokens are unique, every session has a cancellation token of its own, and the canceled ones are exactly those of
  the sessions that have left the store.\<close>

definition sessions_ok :: "auth_sessions \<Rightarrow> bool" where
  "sessions_ok st \<longleftrightarrow>
     distinct (map fst (se_entries st)) \<and> distinct (map (as_cancelled \<circ> snd) (se_entries st)) \<and>
     length (se_entries st) \<le> MAX_SESSIONS \<and>
     set (map (as_cancelled \<circ> snd) (se_entries st)) \<inter> set (se_cancelled st) = {} \<and>
     set (map (as_cancelled \<circ> snd) (se_entries st)) \<union> set (se_cancelled st) = {..<se_issued st}"

abbreviation token_of :: "string \<times> auth_session \<Rightarrow> nat" where
  "token_of e \<equiv> as_cancelled (snd e)"

lemma sessions_ok_remove:
  assumes "sessions_ok st" "es = filter (\<lambda>e. \<not> gone e) (se_entries st)"
    and "set cs = set (se_cancelled st) \<union> token_of ` {e \<in> set (se_entries st). gone e}"
  shows "sessions_ok (st\<lparr>se_entries := es, se_cancelled := cs\<rparr>)"
proof -
  have inj: "inj_on token_of (set (se_entries st))"
    using assms(1) by (simp add: sessions_ok_def distinct_map comp_def)
  have split: "token_of ` set (se_entries st) = token_of ` set es \<union> token_of ` {e \<in> set (se_entries st). gone e}"
    by (auto simp: assms(2))
  have disj: "token_of ` set es \<inter> token_of ` {e \<in> set (se_entries st). gone e} = {}"
    using inj by (auto simp: assms(2) inj_on_def)
  have "length es \<le> length (se_entries st)" by (simp add: assms(2))
  then have len: "length es \<le> MAX_SESSIONS" using assms(1) by (simp add: sessions_ok_def)
  have "distinct (map fst es)" "distinct (map token_of es)"
    using assms(1) by (simp_all add: sessions_ok_def assms(2) distinct_map_filter comp_def)
  moreover have "token_of ` set es \<inter> set cs = {}" "token_of ` set es \<union> set cs = {..<se_issued st}"
    using assms(1) disj split by (auto simp: sessions_ok_def assms(3) comp_def)
  ultimately show ?thesis using len by (simp add: sessions_ok_def comp_def)
qed

lemma sessions_ok_prune: "sessions_ok st \<Longrightarrow> sessions_ok (prune_sessions now st)"
  unfolding prune_sessions_def
  using sessions_ok_remove [of st _ "\<lambda>e. expired now (se_timeouts st) (snd e)"
      "se_cancelled st @ map (as_cancelled \<circ> snd) (filter (\<lambda>e. expired now (se_timeouts st) (snd e)) (se_entries st))", OF _ refl]
  by (simp add: comp_def)

lemma sessions_ok_revoke:
  assumes "sessions_ok st"
  shows "sessions_ok (revoke token st)"
proof (cases "map_of (se_entries st) token")
  case (Some s)
  have "{e \<in> set (se_entries st). fst e = token} = {(token, s)}"
    using Some assms by (auto simp: sessions_ok_def dest: map_of_SomeD)
      (metis Some eq_key_imp_eq_value map_of_SomeD sessions_ok_def assms)
  with sessions_ok_remove [OF assms refl, of "se_cancelled st @ [as_cancelled s]" "\<lambda>e. fst e = token"] Some
  show ?thesis by (simp add: revoke_def)
qed (use assms in \<open>simp add: revoke_def\<close>)

lemma oldest_session_in: "oldest_session es = Some e \<Longrightarrow> e \<in> set es"
  by (induction es arbitrary: e) (auto split: option.splits if_splits)

lemma oldest_session_None: "oldest_session es = None \<longleftrightarrow> es = []"
  by (cases es) (auto split: option.splits)

lemma length_filter_key: "distinct (map fst es) \<Longrightarrow> (k, v) \<in> set es \<Longrightarrow> length (filter (\<lambda>e. fst e \<noteq> k) es) < length es"
  by (rule length_filter_less) auto

lemma prune_entries: "set (se_entries (prune_sessions now st)) \<subseteq> set (se_entries st)"
  by (auto simp: prune_sessions_def)

lemma revoke_entries: "set (se_entries (revoke t st)) \<subseteq> set (se_entries st)"
  by (auto simp: revoke_def split: option.splits)

lemma revoke_shrinks:
  assumes "sessions_ok st" "(t, s) \<in> set (se_entries st)"
  shows "length (se_entries (revoke t st)) < length (se_entries st)"
proof -
  from assms have "map_of (se_entries st) t = Some s" by (simp add: sessions_ok_def)
  with assms length_filter_key show ?thesis by (auto simp: revoke_def sessions_ok_def)
qed

lemma make_room_ok:
  assumes "sessions_ok st"
  shows "sessions_ok (make_room now st)" "set (se_entries (make_room now st)) \<subseteq> set (se_entries st)"
    "length (se_entries (make_room now st)) < MAX_SESSIONS"
proof -
  let ?p = "prune_sessions now st"
  have p: "sessions_ok ?p" by (rule sessions_ok_prune [OF assms(1)])
  show "sessions_ok (make_room now st)"
    using p by (auto simp: make_room_def Let_def intro: sessions_ok_revoke split: option.splits)
  have "set (se_entries (make_room now st)) \<subseteq> set (se_entries ?p)"
    using revoke_entries [where st = ?p] by (auto simp: make_room_def Let_def split: option.splits)
  with prune_entries [of now st] show "set (se_entries (make_room now st)) \<subseteq> set (se_entries st)" by blast
  show "length (se_entries (make_room now st)) < MAX_SESSIONS"
  proof (cases "MAX_SESSIONS \<le> length (se_entries ?p)")
    case True
    then have "se_entries ?p \<noteq> []" by (auto simp: MAX_SESSIONS_def)
    then obtain tk s where o: "oldest_session (se_entries ?p) = Some (tk, s)"
      using oldest_session_None by (metis option.exhaust surj_pair)
    from revoke_shrinks [OF p oldest_session_in [OF o]] p True o show ?thesis
      by (simp add: sessions_ok_def make_room_def Let_def)
  qed (simp add: make_room_def Let_def)
qed

lemma sessions_ok_create:
  assumes "sessions_ok st" "uuid \<notin> fst ` set (se_entries st)" "create_session now uuid method ident st = (t, st')"
  shows "sessions_ok st'"
proof -
  let ?r = "make_room now st"
  note r = make_room_ok [OF assms(1), of now]
  have f: "filter (\<lambda>e. fst e \<noteq> uuid) (se_entries ?r) = se_entries ?r"
    using assms(2) r(2) by (force simp: filter_id_conv)
  have u: "uuid \<notin> fst ` set (se_entries ?r)" using assms(2) r(2) by blast
  have st': "st' = ?r\<lparr>se_entries := se_entries ?r @ [(uuid, \<lparr>as_method = method, as_identity = ident,
      as_cancelled = se_issued ?r, as_created = now, as_last_active = now\<rparr>)], se_issued := Suc (se_issued ?r)\<rparr>"
    using assms(3) f by (auto simp: create_session_def Let_def)
  have lt: "\<forall>k\<in>token_of ` set (se_entries ?r) \<union> set (se_cancelled ?r). k < se_issued ?r"
    using r(1) unfolding sessions_ok_def by (auto simp: comp_def)
  have un: "token_of ` set (se_entries ?r) \<union> set (se_cancelled ?r) = {..<se_issued ?r}"
    using r(1) by (simp add: sessions_ok_def comp_def)
  show ?thesis
    using r(1,3) u lt un unfolding st' sessions_ok_def
    by (simp add: comp_def lessThan_Suc) blast
qed

lemma sessions_ok_same:
  assumes "sessions_ok st" "map fst es = map fst (se_entries st)" "map token_of es = map token_of (se_entries st)"
  shows "sessions_ok (st\<lparr>se_entries := es\<rparr>)"
proof -
  have "token_of ` set es = token_of ` set (se_entries st)" using assms(3) by (metis set_map)
  moreover have "length es = length (se_entries st)" using assms(2) by (rule map_eq_imp_length_eq)
  ultimately show ?thesis using assms by (simp add: sessions_ok_def comp_def)
qed

lemma sessions_ok_get:
  assumes "sessions_ok st" "get_session now t touch st = (r, st')"
  shows "sessions_ok st'"
proof -
  let ?p = "prune_sessions now st"
  have p: "sessions_ok ?p" by (rule sessions_ok_prune [OF assms(1)])
  show ?thesis
  proof (cases "map_of (se_entries ?p) t")
    case (Some s)
    let ?f = "\<lambda>e. if fst e = t then (t, s\<lparr>as_last_active := now\<rparr>) else e"
    have only: "e = (t, s)" if "e \<in> set (se_entries ?p)" "fst e = t" for e
      using Some p that by (metis eq_key_imp_eq_value map_of_SomeD prod.collapse sessions_ok_def)
    have "map fst (map ?f (se_entries ?p)) = map fst (se_entries ?p)" by simp
    moreover have "map token_of (map ?f (se_entries ?p)) = map token_of (se_entries ?p)"
      using only by auto
    ultimately have "sessions_ok (?p\<lparr>se_entries := map ?f (se_entries ?p)\<rparr>)"
      by (rule sessions_ok_same [OF p])
    with assms(2) Some p show ?thesis by (auto simp: get_session_def Let_def split: if_splits)
  qed (use assms(2) p in \<open>auto simp: get_session_def Let_def\<close>)
qed

lemma sessions_ok_check:
  assumes "sessions_ok st" "check_access providers disabled now now' token touch st = (r, st')"
  shows "sessions_ok st'"
  using assms
  by (auto simp: check_access_def Let_def split: if_splits option.splits prod.splits sum.splits bool.splits
      dest: sessions_ok_get intro: sessions_ok_revoke)

lemma sessions_ok_authenticate:
  assumes "sessions_ok st" "uuid \<notin> fst ` set (se_entries st)"
    and "authenticate providers now uuid method credentials st = (r, st')"
  shows "sessions_ok st'"
  using assms
  by (auto simp: authenticate_def try_in_def split: sum.splits prod.splits intro: sessions_ok_create)

text \<open>A server that has started with no session; the token of a new session is fresh.\<close>

inductive auth_reachable :: "'c login_provider list \<Rightarrow> auth_sessions \<Rightarrow> bool" for providers where
  auth_started: "auth_reachable providers \<lparr>se_entries = [], se_timeouts = timeouts, se_issued = 0, se_cancelled = []\<rparr>"
| logged_in: "auth_reachable providers st \<Longrightarrow> uuid \<notin> fst ` set (se_entries st) \<Longrightarrow>
    authenticate providers now uuid method credentials st = (r, st') \<Longrightarrow> auth_reachable providers st'"
| accessed: "auth_reachable providers st \<Longrightarrow>
    check_access providers disabled now now' token touch st = (r', st') \<Longrightarrow> auth_reachable providers st'"
| logged_out: "auth_reachable providers st \<Longrightarrow> auth_reachable providers (revoke token st)"

lemma auth_reachable_ok: "auth_reachable providers st \<Longrightarrow> sessions_ok st"
  by (induction rule: auth_reachable.induct)
    (auto simp: sessions_ok_def [of "\<lparr>se_entries = [], se_timeouts = _, se_issued = 0, se_cancelled = []\<rparr>"]
      intro: sessions_ok_authenticate sessions_ok_check sessions_ok_revoke)

text \<open>C36: A connection lives exactly as long as the session it was opened in: in every reachable state at most 64
  sessions are stored, and of all sessions ever issued exactly those no longer stored, whether expired, revoked,
  logged out or displaced, have their connections canceled.\<close>

theorem connections_end_with_their_session:
  assumes "auth_reachable providers st"
  shows "length (se_entries st) \<le> MAX_SESSIONS \<and>
    set (se_cancelled st) = {..<se_issued st} - (\<lambda>e. as_cancelled (snd e)) ` set (se_entries st)"
  using auth_reachable_ok [OF assms] by (auto simp: sessions_ok_def comp_def)

lemma map_of_replace: "map_of es t = Some v \<Longrightarrow> map_of (map (\<lambda>e. if fst e = t then (t, v') else e) es) t = Some v'"
  by (induction es) (auto split: if_splits)

lemma get_session_Some:
  assumes "sessions_ok st" "get_session now t touch st = (Some s, st')"
  shows "\<exists>s0. map_of (se_entries st) t = Some s0 \<and> \<not> expired now (se_timeouts st) s0 \<and>
    s = (if touch then s0\<lparr>as_last_active := now\<rparr> else s0) \<and> se_timeouts st' = se_timeouts st \<and>
    map_of (se_entries st') t = Some s"
proof -
  let ?p = "prune_sessions now st"
  have d: "distinct (map fst (se_entries st))" using assms(1) by (simp add: sessions_ok_def)
  have dp: "distinct (map fst (se_entries ?p))" using sessions_ok_prune [OF assms(1)] by (simp add: sessions_ok_def)
  from assms(2) obtain s0 where s0: "map_of (se_entries ?p) t = Some s0"
    "s = (if touch then s0\<lparr>as_last_active := now\<rparr> else s0)"
    by (auto simp: get_session_def Let_def split: option.splits if_splits)
  then have "(t, s0) \<in> set (se_entries ?p)" by (auto dest: map_of_SomeD)
  then have i: "(t, s0) \<in> set (se_entries st)" "\<not> expired now (se_timeouts st) s0"
    by (auto simp: prune_sessions_def)
  have "map_of (map (\<lambda>e. if fst e = t then (t, s) else e) (se_entries ?p)) t = Some s"
    by (rule map_of_replace [OF s0(1)])
  moreover have "se_timeouts ?p = se_timeouts st" by (simp add: prune_sessions_def)
  ultimately show ?thesis
    using i d s0 assms(2) by (auto simp: get_session_def Let_def split: if_splits)
qed

text \<open>C16: An access that is granted is granted on a stored session that is younger than the maximal age, was active
  within the idle timeout and whose identity its login provider still accepts; only an active access moves the idle
  deadline, and none moves the age.\<close>

theorem granted_access_is_current:
  assumes "auth_reachable providers st"
    and "check_access providers False now now' (Some t) touch st = (Inr (Some s), st')"
  shows "\<exists>s0 p. map_of (se_entries st) t = Some s0 \<and> p \<in> set providers \<and> lp_id p = as_method s0 \<and>
    lp_validate_session p (as_identity s0) = Inr True \<and>
    now' - as_created s0 < st_max_age (se_timeouts st) \<and> now' - as_last_active s0 < st_idle_timeout (se_timeouts st) \<and>
    s = (if touch then s0\<lparr>as_last_active := now'\<rparr> else s0)"
proof -
  have ok: "sessions_ok st" by (rule auth_reachable_ok [OF assms(1)])
  from assms(2) obtain s0 st1 where g: "get_session now t False st = (Some s0, st1)"
    by (auto simp: check_access_def split: option.splits prod.splits)
  from get_session_Some [OF ok g] have a: "map_of (se_entries st) t = Some s0" "se_timeouts st1 = se_timeouts st"
    "map_of (se_entries st1) t = Some s0" by auto
  from assms(2) g obtain p st2 where p: "find (\<lambda>p. lp_id p = as_method s0) providers = Some p"
    "lp_validate_session p (as_identity s0) = Inr True" "get_session now' t touch st1 = (Some s, st2)"
    by (auto simp: check_access_def Let_def split: option.splits prod.splits sum.splits bool.splits)
  from get_session_Some [OF sessions_ok_get [OF ok g] p(3)] a have
    "\<not> expired now' (se_timeouts st) s0" "s = (if touch then s0\<lparr>as_last_active := now'\<rparr> else s0)" by auto
  with a p(2) find_SomeD [OF p(1)] show ?thesis by (auto simp: expired_def not_le)
qed

section \<open>A sample login\<close>

definition sample_provider :: "string login_provider" where
  "sample_provider = \<lparr>lp_id = ''password'', lp_check_configured = Inr (),
     lp_authenticate = (\<lambda>c. if c = ''secret'' then Inr \<lparr>vi_subject = ''user'', vi_revision = ''1''\<rparr> else Inl (401, ''invalid'')),
     lp_validate_session = (\<lambda>i. Inr (vi_revision i = ''1''))\<rparr>"

definition sample_sessions :: auth_sessions where
  "sample_sessions = \<lparr>se_entries = [], se_timeouts = \<lparr>st_max_age = 100, st_idle_timeout = 20\<rparr>, se_issued = 0, se_cancelled = []\<rparr>"

definition sample_login :: "(http_error, string) result \<times> auth_sessions" where
  "sample_login = authenticate [sample_provider] 5 ''tok'' ''password'' ''secret'' sample_sessions"

lemma sample_login_reachable: "auth_reachable [sample_provider] (snd sample_login)"
proof -
  have "auth_reachable [sample_provider] sample_sessions"
    unfolding sample_sessions_def by (rule auth_started)
  moreover have "''tok'' \<notin> fst ` set (se_entries sample_sessions)" by (simp add: sample_sessions_def)
  moreover have "authenticate [sample_provider] 5 ''tok'' ''password'' ''secret'' sample_sessions = (fst sample_login, snd sample_login)"
    by (simp add: sample_login_def)
  ultimately show ?thesis by (rule logged_in)
qed

theorem connections_end_with_their_session_witness:
  "set (se_cancelled (revoke ''tok'' (snd sample_login))) = {..<1} - {} \<and> se_entries (revoke ''tok'' (snd sample_login)) = []"
proof -
  have "auth_reachable [sample_provider] (revoke ''tok'' (snd sample_login))"
    by (rule logged_out [OF sample_login_reachable])
  moreover have "se_entries (revoke ''tok'' (snd sample_login)) = []" "se_issued (revoke ''tok'' (snd sample_login)) = 1"
    by code_simp+
  ultimately show ?thesis using connections_end_with_their_session by fastforce
qed

theorem granted_access_is_current_witness:
  "\<exists>s0 p. map_of (se_entries (snd sample_login)) ''tok'' = Some s0 \<and> p \<in> set [sample_provider] \<and> lp_id p = as_method s0 \<and>
    lp_validate_session p (as_identity s0) = Inr True \<and> 24 - as_created s0 < 100 \<and> 24 - as_last_active s0 < 20"
proof -
  let ?c = "check_access [sample_provider] False 24 24 (Some ''tok'') True (snd sample_login)"
  have "fst ?c = Inr (Some \<lparr>as_method = ''password'', as_identity = \<lparr>vi_subject = ''user'', vi_revision = ''1''\<rparr>,
      as_cancelled = 0, as_created = 5, as_last_active = 24\<rparr>)" by code_simp
  then have "?c = (Inr (Some \<lparr>as_method = ''password'', as_identity = \<lparr>vi_subject = ''user'', vi_revision = ''1''\<rparr>,
      as_cancelled = 0, as_created = 5, as_last_active = 24\<rparr>), snd ?c)" by (metis prod.collapse)
  from granted_access_is_current [OF sample_login_reachable this]
  have "\<exists>s0 p. map_of (se_entries (snd sample_login)) ''tok'' = Some s0 \<and> p \<in> set [sample_provider] \<and> lp_id p = as_method s0 \<and>
    lp_validate_session p (as_identity s0) = Inr True \<and> 24 - as_created s0 < st_max_age (se_timeouts (snd sample_login)) \<and>
    24 - as_last_active s0 < st_idle_timeout (se_timeouts (snd sample_login))" by blast
  moreover have "se_timeouts (snd sample_login) = \<lparr>st_max_age = 100, st_idle_timeout = 20\<rparr>" by code_simp
  ultimately show ?thesis by simp
qed

end
