(* ===== verification/Auth_Limits.thy ===== *)
theory Auth_Limits
  imports Aow_Prelude Complex_Main
begin

text \<open>
  The login limiter: \<open>crates/server/src/auth/limits.rs\<close>. Instants are nanoseconds, the token budget (an
  \<open>f64\<close>) is a real number.
\<close>

definition BURST :: real where "BURST = 10"
definition REFILL_SECONDS :: real where "REFILL_SECONDS = 6"
definition MAX_CONCURRENT :: nat where "MAX_CONCURRENT = 2"

record limiter =
  lm_active :: nat
  lm_tokens :: real
  lm_updated :: nat
  lm_failures :: u32
  lm_blocked_until :: nat

definition limiter_default :: "nat \<Rightarrow> limiter" where
  "limiter_default now = \<lparr>lm_active = 0, lm_tokens = BURST, lm_updated = now, lm_failures = 0, lm_blocked_until = now\<rparr>"

definition secs :: "nat \<Rightarrow> real" where "secs d = real d / 1000000000"

text \<open>The status and the \<open>Retry-After\<close> of a refused attempt.\<close>

definition limited :: "nat \<Rightarrow> nat \<times> nat" where
  "limited seconds = (429, max seconds 1)"

definition begin_at :: "nat \<Rightarrow> limiter \<Rightarrow> (nat \<times> nat, unit) result \<times> limiter" where
  "begin_at now s =
     (let s = s\<lparr>lm_tokens := min (lm_tokens s + secs (now - lm_updated s) / REFILL_SECONDS) BURST, lm_updated := now\<rparr>;
          wait = (if now < lm_blocked_until s then secs (lm_blocked_until s - now)
                  else if MAX_CONCURRENT \<le> lm_active s then 1
                  else if lm_tokens s < 1 then (1 - lm_tokens s) * REFILL_SECONDS
                  else 0)
      in if 0 < wait then (Inl (limited (nat \<lceil>wait\<rceil>)), s)
         else (Inr (), s\<lparr>lm_tokens := lm_tokens s - 1, lm_active := lm_active s + 1\<rparr>))"

definition finish_at :: "bool \<Rightarrow> bool \<Rightarrow> nat \<Rightarrow> limiter \<Rightarrow> limiter" where
  "finish_at success bad_credentials now s =
     (if success then s\<lparr>lm_failures := 0, lm_blocked_until := now\<rparr>
      else if bad_credentials
      then (let s = s\<lparr>lm_failures := saturating_add (lm_failures s) 1\<rparr>
            in if 5 \<le> lm_failures s
               then s\<lparr>lm_blocked_until := now + min (2 ^ min (unat (lm_failures s - 5)) 6) 60 * 1000000000\<rparr>
               else s)
      else s)"

definition drop_attempt :: "limiter \<Rightarrow> limiter" where
  "drop_attempt s = s\<lparr>lm_active := lm_active s - 1\<rparr>"

section \<open>The budget\<close>

datatype limiter_event = Begin_At nat | Finish_At bool bool nat | Drop_Attempt

text \<open>The number of attempts let through and the final state.\<close>

fun limiter_run :: "limiter_event list \<Rightarrow> limiter \<Rightarrow> nat \<times> limiter" where
  "limiter_run [] s = (0, s)"
| "limiter_run (Begin_At now # evs) s =
     (case begin_at now s of
        (Inl _, s') \<Rightarrow> limiter_run evs s'
      | (Inr _, s') \<Rightarrow> (case limiter_run evs s' of (g, s'') \<Rightarrow> (Suc g, s'')))"
| "limiter_run (Finish_At success bad now # evs) s = limiter_run evs (finish_at success bad now s)"
| "limiter_run (Drop_Attempt # evs) s = limiter_run evs (drop_attempt s)"

fun begin_times :: "limiter_event list \<Rightarrow> nat list" where
  "begin_times [] = []"
| "begin_times (Begin_At now # evs) = now # begin_times evs"
| "begin_times (_ # evs) = begin_times evs"

lemma finish_at_keeps [simp]:
  "lm_tokens (finish_at success bad now s) = lm_tokens s" "lm_updated (finish_at success bad now s) = lm_updated s"
  "lm_active (finish_at success bad now s) = lm_active s"
  by (simp_all add: finish_at_def Let_def)

lemma drop_attempt_keeps [simp]:
  "lm_tokens (drop_attempt s) = lm_tokens s" "lm_updated (drop_attempt s) = lm_updated s"
  "lm_active (drop_attempt s) = lm_active s - 1"
  by (simp_all add: drop_attempt_def)

lemma begin_at_budget:
  assumes "lm_updated s \<le> now" "0 \<le> lm_tokens s" "lm_active s \<le> MAX_CONCURRENT" "begin_at now s = (r, s')"
  shows "lm_updated s' = now \<and> 0 \<le> lm_tokens s' \<and> lm_active s' \<le> MAX_CONCURRENT \<and>
    (if is_ok r then 1 else 0) + lm_tokens s' \<le> lm_tokens s + (secs now - secs (lm_updated s)) / 6"
proof -
  let ?t = "min (lm_tokens s + secs (now - lm_updated s) / REFILL_SECONDS) BURST"
  have d: "secs (now - lm_updated s) = secs now - secs (lm_updated s)"
    using assms(1) by (simp add: secs_def of_nat_diff diff_divide_distrib)
  have t: "0 \<le> ?t" "?t \<le> lm_tokens s + (secs now - secs (lm_updated s)) / 6"
    using assms(2) min.cobounded1 [of "lm_tokens s + secs (now - lm_updated s) / REFILL_SECONDS" BURST]
    unfolding d [symmetric] by (simp_all add: secs_def BURST_def REFILL_SECONDS_def)
  show ?thesis
  proof (cases r)
    case (Inl e)
    with assms(3,4) t show ?thesis by (auto simp: begin_at_def Let_def split: if_splits)
  next
    case (Inr u)
    with assms(4) have s': "s' = s\<lparr>lm_tokens := ?t - 1, lm_updated := now, lm_active := lm_active s + 1\<rparr>"
      and w: "\<not> 0 < (if now < lm_blocked_until s then secs (lm_blocked_until s - now)
                  else if MAX_CONCURRENT \<le> lm_active s then 1
                  else if ?t < 1 then (1 - ?t) * REFILL_SECONDS else 0)"
      by (auto simp: begin_at_def Let_def split: if_splits)
    have "\<not> now < lm_blocked_until s" using w by (auto simp: secs_def split: if_splits)
    with w have "\<not> MAX_CONCURRENT \<le> lm_active s" by (auto split: if_splits)
    with w \<open>\<not> now < lm_blocked_until s\<close> have "1 \<le> ?t" by (simp add: REFILL_SECONDS_def not_less split: if_splits)
    with s' t(2) Inr \<open>\<not> MAX_CONCURRENT \<le> lm_active s\<close> show ?thesis by simp
  qed
qed

lemma limiter_run_budget:
  "sorted (lm_updated s # begin_times evs) \<Longrightarrow> 0 \<le> lm_tokens s \<Longrightarrow> lm_active s \<le> MAX_CONCURRENT \<Longrightarrow>
     limiter_run evs s = (g, s') \<Longrightarrow>
     0 \<le> lm_tokens s' \<and> lm_active s' \<le> MAX_CONCURRENT \<and>
     real g + lm_tokens s' \<le> lm_tokens s + (secs (lm_updated s') - secs (lm_updated s)) / 6 \<and>
     lm_updated s' = last (lm_updated s # begin_times evs)"
proof (induction evs arbitrary: s g)
  case (Cons ev evs)
  show ?case
  proof (cases ev)
    case (Begin_At now)
    obtain r s1 where b: "begin_at now s = (r, s1)" by (cases "begin_at now s")
    from Cons.prems(1) Begin_At have "lm_updated s \<le> now" by simp
    note one = begin_at_budget [OF this Cons.prems(2,3) b]
    obtain g1 where g1: "limiter_run evs s1 = (g1, s')" "g = g1 + (if is_ok r then 1 else 0)"
      using Cons.prems(4) Begin_At b by (cases r) (auto split: prod.splits)
    have "sorted (lm_updated s1 # begin_times evs)" using Cons.prems(1) Begin_At one by simp
    from Cons.IH [OF this _ _ g1(1)] one
    have ih: "0 \<le> lm_tokens s'" "lm_active s' \<le> MAX_CONCURRENT"
      "real g1 + lm_tokens s' \<le> lm_tokens s1 + (secs (lm_updated s') - secs now) / 6"
      "lm_updated s' = last (now # begin_times evs)" by auto
    define k :: real where "k = (if is_ok r then 1 else 0)"
    have g: "real g = real g1 + k" by (simp add: g1(2) k_def)
    have "k + lm_tokens s1 \<le> lm_tokens s + (secs now - secs (lm_updated s)) / 6"
      using one unfolding k_def by blast
    with g ih(3) have "real g + lm_tokens s' \<le> lm_tokens s + (secs (lm_updated s') - secs (lm_updated s)) / 6"
      by (simp add: diff_divide_distrib)
    with ih(1,2,4) Begin_At show ?thesis by simp
  next
    case (Finish_At success bad now)
    with Cons.prems Cons.IH [of "finish_at success bad now s"] show ?thesis by auto
  next
    case Drop_Attempt
    have "lm_active s - Suc 0 \<le> MAX_CONCURRENT" using Cons.prems(3) by simp
    with Drop_Attempt Cons.prems Cons.IH [of "drop_attempt s" g] show ?thesis by auto
  qed
qed simp

text \<open>C37: Password guessing is bounded whatever the requests do: in any sequence of attempts with clock readings that do
  not go back, at most ten, and one more for every six seconds passed, are let through, and never more than two are
  being verified at once.\<close>

theorem login_attempts_are_bounded:
  assumes "sorted (t0 # begin_times evs)" "last (t0 # begin_times evs) \<le> t1"
    and "limiter_run evs (limiter_default t0) = (granted, s)"
  shows "real granted \<le> 10 + secs (t1 - t0) / 6 \<and> lm_active s \<le> 2"
proof -
  have s0: "lm_updated (limiter_default t0) = t0" "lm_tokens (limiter_default t0) = 10" "lm_active (limiter_default t0) = 0"
    by (simp_all add: limiter_default_def BURST_def)
  have "0 \<le> lm_tokens s \<and> lm_active s \<le> MAX_CONCURRENT \<and>
      real granted + lm_tokens s \<le> 10 + (secs (lm_updated s) - secs t0) / 6 \<and> lm_updated s = last (t0 # begin_times evs)"
    using limiter_run_budget [of "limiter_default t0" evs granted s, unfolded s0, OF assms(1) _ _ assms(3)]
    by auto
  then have b: "0 \<le> lm_tokens s" "lm_active s \<le> MAX_CONCURRENT" "real granted + lm_tokens s \<le> 10 + (secs (lm_updated s) - secs t0) / 6"
    "lm_updated s \<le> t1" using assms(2) by auto
  have "t0 \<le> t1"
    using assms(1,2) by (cases "begin_times evs = []") (auto intro: order.trans dest: last_in_set)
  then have "secs (t1 - t0) = secs t1 - secs t0" by (simp add: secs_def of_nat_diff diff_divide_distrib)
  moreover have "secs (lm_updated s) \<le> secs t1" using b(4) by (simp add: secs_def divide_right_mono)
  ultimately show ?thesis using b by (simp add: MAX_CONCURRENT_def diff_divide_distrib)
qed

lemma limiter_sample:
  "limiter_run [Begin_At 3, Begin_At 4, Begin_At 7] (limiter_default 0) = (2, snd (limiter_run [Begin_At 3, Begin_At 4, Begin_At 7] (limiter_default 0)))"
  by (simp add: begin_at_def limiter_default_def Let_def secs_def BURST_def REFILL_SECONDS_def MAX_CONCURRENT_def)

text \<open>The third of three attempts in seven nanoseconds is refused, the others being verified.\<close>

theorem login_attempts_are_bounded_witness:
  "real 2 \<le> 10 + secs (7 - 0) / 6 \<and>
   lm_active (snd (limiter_run [Begin_At 3, Begin_At 4, Begin_At 7] (limiter_default 0))) \<le> 2"
  by (rule login_attempts_are_bounded [OF _ _ limiter_sample]) simp_all

end
