(* ===== verification/Rust_Json.thy ===== *)
theory Rust_Json
  imports Rust_Str "HOL-Library.Finite_Map" "HOL-Library.Char_ord" "HOL-Library.List_Lexorder"
begin

text \<open>
  The values the program exchanges with agents and browsers: \<open>Value\<close> of serde_json with the
  operations the conversation model uses on it. A number is an integer or the bits of a float; an
  object is a finite map. Reading a key that is not there gives \<open>Null\<close>; writing a key of a value that
  is neither an object nor \<open>Null\<close> panics, which is \<open>None\<close>. A \<open>BTreeMap\<close> is a finite map that is
  read in the order of its keys.
\<close>

datatype json_number = Integer int | Float u64

datatype json =
    JNull
  | JBool bool
  | JNumber json_number
  | JString string
  | JArray "json list"
  | JObject "(string, json) fmap"

type_synonym json_object = "(string, json) fmap"

named_theorems json_simps \<open>evaluation of the accessors of a JSON value\<close>

section \<open>Reading\<close>

fun as_str :: "json \<Rightarrow> string option" where
  "as_str (JString s) = Some s"
| "as_str _ = None"

fun as_array :: "json \<Rightarrow> json list option" where
  "as_array (JArray vs) = Some vs"
| "as_array _ = None"

fun as_object :: "json \<Rightarrow> json_object option" where
  "as_object (JObject m) = Some m"
| "as_object _ = None"

text \<open>\<open>get(key)\<close> and the index operator \<open>v[key]\<close>.\<close>

definition json_get :: "string \<Rightarrow> json \<Rightarrow> json option" where
  "json_get k v = (case v of JObject m \<Rightarrow> fmlookup m k | _ \<Rightarrow> None)"

definition idx :: "json \<Rightarrow> string \<Rightarrow> json" where
  "idx v k = (case json_get k v of None \<Rightarrow> JNull | Some w \<Rightarrow> w)"

definition str_at :: "json \<Rightarrow> string \<Rightarrow> string option" where
  "str_at v k = as_str (idx v k)"

definition text_is :: "json \<Rightarrow> string \<Rightarrow> bool" where
  "text_is v s \<longleftrightarrow> v = JString s"

section \<open>Writing\<close>

text \<open>\<open>v[key] = w\<close>, and \<open>remove\<close> on the map of an object.\<close>

fun json_set :: "string \<Rightarrow> json \<Rightarrow> json \<Rightarrow> json option" where
  "json_set k w (JObject m) = Some (JObject (fmupd k w m))"
| "json_set k w JNull = Some (JObject (fmupd k w fmempty))"
| "json_set k w _ = None"

fun json_remove :: "string \<Rightarrow> json \<Rightarrow> json" where
  "json_remove k (JObject m) = JObject (fmdrop k m)"
| "json_remove k v = v"

text \<open>\<open>json!({...})\<close>.\<close>

definition json_obj :: "(string \<times> json) list \<Rightarrow> json" where
  "json_obj kvs = JObject (fmap_of_list kvs)"

section \<open>Sorted maps\<close>

definition btree_entries :: "('k :: linorder, 'v) fmap \<Rightarrow> ('k \<times> 'v) list" where
  "btree_entries m = map (\<lambda>k. (k, the (fmlookup m k))) (sorted_list_of_fset (fmdom m))"

lemma map_fst_btree_entries [simp]: "map fst (btree_entries m) = sorted_list_of_fset (fmdom m)"
  by (simp add: btree_entries_def comp_def)

lemma distinct_btree_entries: "distinct (map fst (btree_entries m))"
  by (simp add: sorted_list_of_fset.rep_eq)

lemma sorted_btree_entries: "sorted (map fst (btree_entries m))"
  by (simp add: sorted_list_of_fset.rep_eq)

lemma btree_entries_iff: "(k, v) \<in> set (btree_entries m) \<longleftrightarrow> fmlookup m k = Some v"
  by (auto simp: btree_entries_def sorted_list_of_fset_simps fmlookup_dom_iff image_iff)

section \<open>Laws\<close>

lemma json_get_simps [simp, json_simps]:
  "json_get k (JObject m) = fmlookup m k" "json_get k JNull = None" "json_get k (JBool b) = None"
  "json_get k (JNumber n) = None" "json_get k (JString s) = None" "json_get k (JArray vs) = None"
  by (simp_all add: json_get_def)

lemma idx_simps [simp, json_simps]:
  "idx JNull k = JNull" "idx (JBool b) k = JNull" "idx (JNumber n) k = JNull" "idx (JString s) k = JNull"
  "idx (JArray vs) k = JNull" "idx (JObject (fmupd k' w m)) k = (if k = k' then w else idx (JObject m) k)"
  "idx (JObject fmempty) k = JNull" "idx (JObject (fmdrop k' m)) k = (if k = k' then JNull else idx (JObject m) k)"
  by (simp_all add: idx_def)

lemma as_str_Some [simp]: "as_str v = Some s \<longleftrightarrow> v = JString s"
  by (cases v) auto

lemma str_at_Some [json_simps]: "str_at v k = Some s \<longleftrightarrow> idx v k = JString s"
  by (simp add: str_at_def)

lemma idx_JString_object: "idx v k = JString s \<Longrightarrow> \<exists>m. v = JObject m \<and> fmlookup m k = Some (JString s)"
  by (cases v) (auto simp: idx_def split: option.splits)

lemma json_set_object [simp]: "idx v k' = JString s \<Longrightarrow> \<exists>m. json_set k w v = Some (JObject m)"
  by (cases v) auto

lemma idx_json_set: "json_set k w v = Some v' \<Longrightarrow> idx v' k' = (if k' = k then w else idx v k')"
  by (cases v) (auto simp: idx_def)

lemma json_set_same: "json_set k w v = Some v' \<Longrightarrow> json_set k w' v' = json_set k w' v"
  by (cases v) auto

lemma json_set_idem: "json_get k v = Some w \<Longrightarrow> json_set k w v = Some v"
  by (cases v) (auto intro!: fmap_ext)

end
