(* ===== verification/Acp_Content.thy ===== *)
theory Acp_Content
  imports Rust_Json
begin

text \<open>
  The conversion of prompt content and configuration options between the two versions of the agent
  client protocol: \<open>crates/acp/src/acp_thread/content.rs\<close> and \<open>config_options.rs\<close>. The types of the
  protocol crate are given by the fields the conversion reads and writes; an enum of that crate is not
  exhaustive, so it has one more case, \<open>Unknown\<close>, for the arms \<open>_ =>\<close>. Both versions annotate content
  alike but for the roles.
\<close>

section \<open>Protocol content\<close>

datatype v1_role = V1_Assistant | V1_User | V1_Role_Unknown
datatype v2_role = V2_Assistant | V2_User | V2_Role_Other string | V2_Role_Unknown

record 'r annotations =
  an_audience :: "'r list option"
  an_last_modified :: "string option"
  an_priority :: "json_number option"
  an_meta :: "json_object option"

record 'r text_content =
  tx_text :: string
  tx_annotations :: "'r annotations option"
  tx_meta :: "json_object option"

record 'r image_content =
  im_data :: string
  im_mime_type :: string
  im_uri :: "string option"
  im_annotations :: "'r annotations option"
  im_meta :: "json_object option"

record 'r audio_content =
  au_data :: string
  au_mime_type :: string
  au_annotations :: "'r annotations option"
  au_meta :: "json_object option"

record 'r resource_link =
  rl_name :: string
  rl_uri :: string
  rl_title :: "string option"
  rl_description :: "string option"
  rl_mime_type :: "string option"
  rl_size :: "int option"
  rl_annotations :: "'r annotations option"
  rl_meta :: "json_object option"

text \<open>The second version adds icons to a link.\<close>

record 'r resource_link_v2 = "'r resource_link" +
  rl_icons :: "json list option"

record resource_contents =
  rc_body :: string
  rc_uri :: string
  rc_mime_type :: "string option"
  rc_meta :: "json_object option"

datatype embedded_resource_resource =
    Text_Resource_Contents resource_contents
  | Blob_Resource_Contents resource_contents
  | Resource_Contents_Unknown

record 'r embedded_resource =
  er_resource :: embedded_resource_resource
  er_annotations :: "'r annotations option"
  er_meta :: "json_object option"

datatype v1_block =
    V1_Text "v1_role text_content"
  | V1_Image "v1_role image_content"
  | V1_Audio "v1_role audio_content"
  | V1_Resource_Link "v1_role resource_link"
  | V1_Resource "v1_role embedded_resource"
  | V1_Block_Unknown

datatype v2_block =
    V2_Text "v2_role text_content"
  | V2_Image "v2_role image_content"
  | V2_Audio "v2_role audio_content"
  | V2_Resource_Link "v2_role resource_link_v2"
  | V2_Resource "v2_role embedded_resource"
  | V2_Other string json_object
  | V2_Block_Unknown

record 'b prompt_request =
  pq_session_id :: string
  pq_prompt :: "'b list"
  pq_meta :: "json_object option"

section \<open>Annotations\<close>

fun role_from_v1 :: "v1_role \<Rightarrow> (string, v2_role) result" where
  "role_from_v1 V1_Assistant = Inr V2_Assistant"
| "role_from_v1 V1_User = Inr V2_User"
| "role_from_v1 V1_Role_Unknown = Inl ''unsupported v1 annotation role''"

fun role_to_v1 :: "v2_role \<Rightarrow> (string, v1_role) result" where
  "role_to_v1 V2_Assistant = Inr V1_Assistant"
| "role_to_v1 V2_User = Inr V1_User"
| "role_to_v1 (V2_Role_Other _) = Inl ''v2 annotation role cannot be represented in v1''"
| "role_to_v1 V2_Role_Unknown = Inl ''unsupported v2 annotation role''"

text \<open>\<open>collect\<close> of results, and \<open>map(...).transpose()\<close> of an optional one.\<close>

fun collect_results :: "('a \<Rightarrow> ('e, 'b) result) \<Rightarrow> 'a list \<Rightarrow> ('e, 'b list) result" where
  "collect_results f [] = Inr []"
| "collect_results f (x # xs) = rbind (f x) (\<lambda>y. rbind (collect_results f xs) (\<lambda>ys. Inr (y # ys)))"

definition transpose_map :: "('a \<Rightarrow> ('e, 'b) result) \<Rightarrow> 'a option \<Rightarrow> ('e, 'b option) result" where
  "transpose_map f x = (case x of None \<Rightarrow> Inr None | Some a \<Rightarrow> rbind (f a) (\<lambda>b. Inr (Some b)))"

definition convert_annotations :: "('r \<Rightarrow> (string, 'q) result) \<Rightarrow> 'r annotations option \<Rightarrow> (string, 'q annotations option) result" where
  "convert_annotations role =
     transpose_map (\<lambda>a.
       rbind (transpose_map (collect_results role) (an_audience a)) (\<lambda>audience.
       Inr \<lparr>an_audience = audience, an_last_modified = an_last_modified a, an_priority = an_priority a, an_meta = an_meta a\<rparr>))"

definition annotations_from_v1 :: "v1_role annotations option \<Rightarrow> (string, v2_role annotations option) result" where
  "annotations_from_v1 = convert_annotations role_from_v1"

definition annotations_to_v1 :: "v2_role annotations option \<Rightarrow> (string, v1_role annotations option) result" where
  "annotations_to_v1 = convert_annotations role_to_v1"

section \<open>Content blocks\<close>

fun from_v1 :: "v1_block \<Rightarrow> (string, v2_block) result" where
  "from_v1 (V1_Text c) =
     rbind (annotations_from_v1 (tx_annotations c)) (\<lambda>a.
     Inr (V2_Text \<lparr>tx_text = tx_text c, tx_annotations = a, tx_meta = tx_meta c\<rparr>))"
| "from_v1 (V1_Image c) =
     rbind (annotations_from_v1 (im_annotations c)) (\<lambda>a.
     Inr (V2_Image \<lparr>im_data = im_data c, im_mime_type = im_mime_type c, im_uri = im_uri c, im_annotations = a, im_meta = im_meta c\<rparr>))"
| "from_v1 (V1_Audio c) =
     rbind (annotations_from_v1 (au_annotations c)) (\<lambda>a.
     Inr (V2_Audio \<lparr>au_data = au_data c, au_mime_type = au_mime_type c, au_annotations = a, au_meta = au_meta c\<rparr>))"
| "from_v1 (V1_Resource_Link c) =
     rbind (annotations_from_v1 (rl_annotations c)) (\<lambda>a.
     Inr (V2_Resource_Link \<lparr>rl_name = rl_name c, rl_uri = rl_uri c, rl_title = rl_title c, rl_description = rl_description c,
       rl_mime_type = rl_mime_type c, rl_size = rl_size c, rl_annotations = a, rl_meta = rl_meta c, rl_icons = None\<rparr>))"
| "from_v1 (V1_Resource c) =
     rbind (case er_resource c of
         Text_Resource_Contents r \<Rightarrow> Inr (Text_Resource_Contents r)
       | Blob_Resource_Contents r \<Rightarrow> Inr (Blob_Resource_Contents r)
       | Resource_Contents_Unknown \<Rightarrow> Inl ''unsupported v1 embedded resource variant'') (\<lambda>r.
     rbind (annotations_from_v1 (er_annotations c)) (\<lambda>a.
     Inr (V2_Resource \<lparr>er_resource = r, er_annotations = a, er_meta = er_meta c\<rparr>)))"
| "from_v1 V1_Block_Unknown = Inl ''unsupported v1 content block variant''"

fun to_v1 :: "v2_block \<Rightarrow> (string, v1_block) result" where
  "to_v1 (V2_Text c) =
     rbind (annotations_to_v1 (tx_annotations c)) (\<lambda>a.
     Inr (V1_Text \<lparr>tx_text = tx_text c, tx_annotations = a, tx_meta = tx_meta c\<rparr>))"
| "to_v1 (V2_Image c) =
     rbind (annotations_to_v1 (im_annotations c)) (\<lambda>a.
     Inr (V1_Image \<lparr>im_data = im_data c, im_mime_type = im_mime_type c, im_uri = im_uri c, im_annotations = a, im_meta = im_meta c\<rparr>))"
| "to_v1 (V2_Audio c) =
     rbind (annotations_to_v1 (au_annotations c)) (\<lambda>a.
     Inr (V1_Audio \<lparr>au_data = au_data c, au_mime_type = au_mime_type c, au_annotations = a, au_meta = au_meta c\<rparr>))"
| "to_v1 (V2_Resource_Link c) =
     rbind (ensure (case rl_icons c of None \<Rightarrow> True | Some icons \<Rightarrow> icons = []) ''v2 resource link icons cannot be represented in v1'') (\<lambda>_.
     rbind (annotations_to_v1 (rl_annotations c)) (\<lambda>a.
     Inr (V1_Resource_Link \<lparr>rl_name = rl_name c, rl_uri = rl_uri c, rl_title = rl_title c, rl_description = rl_description c,
       rl_mime_type = rl_mime_type c, rl_size = rl_size c, rl_annotations = a, rl_meta = rl_meta c\<rparr>)))"
| "to_v1 (V2_Resource c) =
     rbind (case er_resource c of
         Text_Resource_Contents r \<Rightarrow> Inr (Text_Resource_Contents r)
       | Blob_Resource_Contents r \<Rightarrow> Inr (Blob_Resource_Contents r)
       | Resource_Contents_Unknown \<Rightarrow> Inl ''unsupported v2 embedded resource variant'') (\<lambda>r.
     rbind (annotations_to_v1 (er_annotations c)) (\<lambda>a.
     Inr (V1_Resource \<lparr>er_resource = r, er_annotations = a, er_meta = er_meta c\<rparr>)))"
| "to_v1 (V2_Other _ _) = Inl ''v2 custom content block cannot be represented in v1''"
| "to_v1 V2_Block_Unknown = Inl ''unsupported v2 content block variant''"

definition representable_audience :: "v2_role annotations option \<Rightarrow> bool" where
  "representable_audience annotations =
     (case annotations of None \<Rightarrow> True
      | Some a \<Rightarrow> (case an_audience a of None \<Rightarrow> True
          | Some audience \<Rightarrow> list_all (\<lambda>role. role = V2_Assistant \<or> role = V2_User) audience))"

fun can_convert_to_v1 :: "v2_block \<Rightarrow> bool" where
  "can_convert_to_v1 (V2_Text c) = representable_audience (tx_annotations c)"
| "can_convert_to_v1 (V2_Image c) = representable_audience (im_annotations c)"
| "can_convert_to_v1 (V2_Audio c) = representable_audience (au_annotations c)"
| "can_convert_to_v1 (V2_Resource_Link c) =
     ((case rl_icons c of None \<Rightarrow> True | Some icons \<Rightarrow> icons = []) \<and> representable_audience (rl_annotations c))"
| "can_convert_to_v1 (V2_Resource c) = (er_resource c \<noteq> Resource_Contents_Unknown \<and> representable_audience (er_annotations c))"
| "can_convert_to_v1 _ = False"

definition validate_prompt_content_for_v1 :: "v2_block list \<Rightarrow> (string, unit) result" where
  "validate_prompt_content_for_v1 content =
     ensure (list_all can_convert_to_v1 content) ''This prompt contains content not supported by ACP v1''"

definition prompt_to_v1 :: "v2_block prompt_request \<Rightarrow> (string, v1_block prompt_request) result" where
  "prompt_to_v1 request =
     rbind (collect_results to_v1 (pq_prompt request)) (\<lambda>prompt.
     Inr \<lparr>pq_session_id = pq_session_id request, pq_prompt = prompt, pq_meta = pq_meta request\<rparr>)"

section \<open>Configuration options\<close>

record config_select_option =
  cs_value :: string
  cs_name :: string
  cs_description :: "string option"
  cs_meta :: "json_object option"

record config_select_group =
  cg_group :: string
  cg_name :: string
  cg_options :: "config_select_option list"
  cg_meta :: "json_object option"

datatype config_select_options =
    Ungrouped "config_select_option list"
  | Grouped "config_select_group list"
  | Select_Options_Unknown

datatype config_kind = Config_Select string config_select_options | Config_Boolean bool | Config_Kind_Unknown

datatype config_category = Cat_Mode | Cat_Model | Cat_Model_Config | Cat_Thought_Level | Cat_Other string | Cat_Unknown

record config_option =
  co_id :: string
  co_name :: string
  co_kind :: config_kind
  co_description :: "string option"
  co_category :: "config_category option"
  co_meta :: "json_object option"

definition select_option_from_v1 :: "config_select_option \<Rightarrow> config_select_option" where
  "select_option_from_v1 o1 =
     \<lparr>cs_value = cs_value o1, cs_name = cs_name o1, cs_description = cs_description o1, cs_meta = cs_meta o1\<rparr>"

fun select_options_from_v1 :: "config_select_options \<Rightarrow> (string, config_select_options) result" where
  "select_options_from_v1 (Ungrouped options) = Inr (Ungrouped (map select_option_from_v1 options))"
| "select_options_from_v1 (Grouped groups) =
     Inr (Grouped (map (\<lambda>g. \<lparr>cg_group = cg_group g, cg_name = cg_name g,
       cg_options = map select_option_from_v1 (cg_options g), cg_meta = cg_meta g\<rparr>) groups))"
| "select_options_from_v1 Select_Options_Unknown = Inl ''Unsupported legacy configuration choices''"

fun config_kind_from_v1 :: "config_kind \<Rightarrow> (string, config_kind) result" where
  "config_kind_from_v1 (Config_Select current options) =
     rbind (select_options_from_v1 options) (\<lambda>options. Inr (Config_Select current options))"
| "config_kind_from_v1 (Config_Boolean current) = Inr (Config_Boolean current)"
| "config_kind_from_v1 Config_Kind_Unknown = Inl ''Unsupported legacy configuration option''"

fun category_from_v1 :: "config_category \<Rightarrow> (string, config_category) result" where
  "category_from_v1 Cat_Unknown = Inl ''Unsupported legacy configuration category''"
| "category_from_v1 c = Inr c"

definition option_from_v1 :: "config_option \<Rightarrow> (string, config_option) result" where
  "option_from_v1 o1 =
     rbind (config_kind_from_v1 (co_kind o1)) (\<lambda>kind.
     rbind (transpose_map category_from_v1 (co_category o1)) (\<lambda>category.
     Inr \<lparr>co_id = co_id o1, co_name = co_name o1, co_kind = kind, co_description = co_description o1,
          co_category = category, co_meta = co_meta o1\<rparr>))"

definition config_options_from_v1 :: "config_option list \<Rightarrow> (string, config_option list) result" where
  "config_options_from_v1 = collect_results option_from_v1"

section \<open>Correctness\<close>

lemma collect_results_Inr: "collect_results f xs = Inr ys \<longleftrightarrow> list_all2 (\<lambda>x y. f x = Inr y) xs ys"
proof (induction xs arbitrary: ys)
  case (Cons x xs)
  show ?case by (cases ys) (auto simp: rbind_Inr_iff Cons.IH)
qed auto

lemma transpose_map_Inr: "transpose_map f x = Inr y \<longleftrightarrow> rel_option (\<lambda>a b. f a = Inr b) x y"
  by (cases x; cases y) (auto simp: transpose_map_def rbind_Inr_iff)

lemma is_ok_rbind: "is_ok (rbind m f) \<longleftrightarrow> (\<exists>x. m = Inr x \<and> is_ok (f x))"
  by (cases m) auto

lemma is_ok_collect: "is_ok (collect_results f xs) \<longleftrightarrow> list_all (\<lambda>x. is_ok (f x)) xs"
proof (induction xs)
  case (Cons x xs)
  then show ?case by (cases "f x"; cases "collect_results f xs") auto
qed simp

lemma role_to_from: "role_from_v1 r = Inr q \<longleftrightarrow> role_to_v1 q = Inr r"
  by (cases r; cases q) auto

lemma is_ok_role: "is_ok (role_to_v1 q) \<longleftrightarrow> q = V2_Assistant \<or> q = V2_User"
  by (cases q) auto

lemma convert_annotations_Inr:
  "convert_annotations role a = Inr b \<longleftrightarrow>
     rel_option (\<lambda>x y. rel_option (list_all2 (\<lambda>p q. role p = Inr q)) (an_audience x) (an_audience y) \<and>
       an_last_modified x = an_last_modified y \<and> an_priority x = an_priority y \<and> an_meta x = an_meta y) a b"
proof -
  have l: "(\<lambda>x y. collect_results role x = Inr y) = list_all2 (\<lambda>p q. role p = Inr q)"
    by (intro ext) (rule collect_results_Inr)
  have "rbind (transpose_map (collect_results role) (an_audience x)) (\<lambda>audience.
       Inr \<lparr>an_audience = audience, an_last_modified = an_last_modified x, an_priority = an_priority x, an_meta = an_meta x\<rparr>) = Inr y
     \<longleftrightarrow> rel_option (list_all2 (\<lambda>p q. role p = Inr q)) (an_audience x) (an_audience y) \<and>
       an_last_modified x = an_last_modified y \<and> an_priority x = an_priority y \<and> an_meta x = an_meta y" for x y
    by (cases y) (auto simp: rbind_Inr_iff transpose_map_Inr l)
  then show ?thesis by (cases a; cases b) (simp_all add: convert_annotations_def transpose_map_Inr)
qed

lemma annotations_inverse: "annotations_from_v1 a = Inr b \<longleftrightarrow> annotations_to_v1 b = Inr a"
proof -
  have l: "list_all2 (\<lambda>x y. role_from_v1 x = Inr y) xs ys \<longleftrightarrow> list_all2 (\<lambda>x y. role_to_v1 x = Inr y) ys xs" for xs ys
    by (auto simp: list_all2_conv_all_nth role_to_from)
  then have "rel_option (list_all2 (\<lambda>x y. role_from_v1 x = Inr y)) xs ys \<longleftrightarrow> rel_option (list_all2 (\<lambda>x y. role_to_v1 x = Inr y)) ys xs" for xs ys
    by (cases xs; cases ys) auto
  then show ?thesis
    unfolding annotations_from_v1_def annotations_to_v1_def convert_annotations_Inr by (cases a; cases b) auto
qed

lemma is_ok_annotations: "is_ok (annotations_to_v1 a) \<longleftrightarrow> representable_audience a"
  by (cases a) (auto simp: annotations_to_v1_def convert_annotations_def transpose_map_def representable_audience_def
    is_ok_rbind is_ok_role is_ok_iff [symmetric] is_ok_collect list_all_iff split: option.splits)

lemma ex_annotations: "(\<exists>b. annotations_to_v1 a = Inr b) \<longleftrightarrow> representable_audience a"
  using is_ok_annotations [of a] by (simp add: is_ok_iff)

lemma from_to_v1: "from_v1 b = Inr c \<Longrightarrow> to_v1 c = Inr b"
  by (cases b) (auto simp: rbind_Inr_iff annotations_inverse split: embedded_resource_resource.splits)

lemma is_ok_to_v1: "is_ok (to_v1 c) \<longleftrightarrow> can_convert_to_v1 c"
  by (cases c) (simp_all add: is_ok_rbind ex_annotations split: embedded_resource_resource.splits option.splits)

text \<open>An empty list of icons is the same as none.\<close>

fun without_empty_icons :: "v2_block \<Rightarrow> v2_block" where
  "without_empty_icons (V2_Resource_Link c) =
     V2_Resource_Link (c\<lparr>rl_icons := (if rl_icons c = Some [] then None else rl_icons c)\<rparr>)"
| "without_empty_icons c = c"

lemma to_from_v1: "to_v1 c = Inr b \<Longrightarrow> from_v1 b = Inr (without_empty_icons c)"
  by (cases c) (auto simp: rbind_Inr_iff annotations_inverse [symmetric] split: embedded_resource_resource.splits option.splits)

text \<open>C38: The two versions of the protocol correspond one to one on what both can say: whatever is taken over from the
  first version converts back to itself, and whatever the second version can send to the first is read back the same,
  but for an empty list of icons.\<close>

theorem content_versions_correspond:
  "(from_v1 b = Inr c \<longrightarrow> to_v1 c = Inr b) \<and> (to_v1 c = Inr b \<longrightarrow> from_v1 b = Inr (without_empty_icons c))"
  using from_to_v1 to_from_v1 by blast

definition sample_link :: v1_block where
  "sample_link = V1_Resource_Link \<lparr>rl_name = ''n'', rl_uri = ''file:///n'', rl_title = Some [], rl_description = None,
     rl_mime_type = Some ''??'', rl_size = Some 0,
     rl_annotations = Some \<lparr>an_audience = Some [V1_User, V1_Assistant], an_last_modified = None, an_priority = None, an_meta = None\<rparr>,
     rl_meta = None\<rparr>"

definition sample_link_v2 :: v2_block where
  "sample_link_v2 = V2_Resource_Link \<lparr>rl_name = ''n'', rl_uri = ''file:///n'', rl_title = Some [], rl_description = None,
     rl_mime_type = Some ''??'', rl_size = Some 0,
     rl_annotations = Some \<lparr>an_audience = Some [V2_User, V2_Assistant], an_last_modified = None, an_priority = None, an_meta = None\<rparr>,
     rl_meta = None, rl_icons = Some []\<rparr>"

lemma sample_link_to_v1: "to_v1 sample_link_v2 = Inr sample_link"
  by (simp add: sample_link_def sample_link_v2_def annotations_to_v1_def convert_annotations_def transpose_map_def)

theorem content_versions_correspond_witness:
  "from_v1 sample_link = Inr (without_empty_icons sample_link_v2) \<and> to_v1 (without_empty_icons sample_link_v2) = Inr sample_link"
  using content_versions_correspond [of sample_link sample_link_v2] content_versions_correspond [of sample_link "without_empty_icons sample_link_v2"]
    sample_link_to_v1 by blast

text \<open>The check of a prompt before it is sent to an agent of the first version accepts exactly the prompts whose
  conversion succeeds.\<close>

lemma prompt_check_predicts_conversion:
  "validate_prompt_content_for_v1 (pq_prompt request) = Inr () \<longleftrightarrow> is_ok (prompt_to_v1 request)"
proof -
  have "is_ok (prompt_to_v1 request) \<longleftrightarrow> is_ok (collect_results to_v1 (pq_prompt request))"
    by (cases "collect_results to_v1 (pq_prompt request)") (simp_all add: prompt_to_v1_def)
  then show ?thesis by (simp add: validate_prompt_content_for_v1_def is_ok_collect is_ok_to_v1)
qed

end
