(* ===== verification/Acp_Model.thy ===== *)
theory Acp_Model
  imports Acp_Content Term_Layout "HOL-Library.Code_Target_Numeral"
begin

text \<open>
  The data of an agent conversation: \<open>crates/acp/src/facade/model.rs\<close>, the change log of
  \<open>acp_thread/updates/mod.rs\<close>, the delivery bookkeeping of \<open>acp_thread/steering/mod.rs\<close> and the cached
  overview of \<open>acp_thread/overview/mod.rs\<close>. Identifiers, statuses and kinds are the strings of the source.
  Revisions are counters that grow by one for every change; they are natural numbers.
\<close>

section \<open>Entries and turns\<close>

record input_delivery =
  dv_status :: string
  dv_error :: "string option"

record thread_entry =
  te_id :: string
  te_kind :: string
  te_message_id :: "string option"
  te_content :: json
  te_delivery :: "input_delivery option"

record permission =
  pm_id :: string
  pm_kind :: string
  pm_request :: json

record session_turn =
  tn_user_entry_id :: string
  tn_status :: string
  tn_stop_reason :: "string option"
  tn_error :: "string option"

record session_recovery =
  sr_attempt_id :: string
  sr_phase :: string
  sr_error :: "string option"

datatype session_source = Source_User | Source_Cli

record session_info =
  si_thread_id :: string
  si_source :: session_source
  si_created_at :: string
  si_parent :: "instance_ref option"
  si_session_id :: "string option"
  si_agent_id :: string
  si_cwd :: string
  si_title :: string
  si_status :: string
  si_updated_at :: string
  si_interacted_at :: "string option"

record turn_completion =
  tc_session :: session_info
  tc_turn_id :: string
  tc_conclusion :: "string option"
  tc_usage :: "json option"

record prompt_content =
  pc_kind :: string
  pc_data :: json_object

section \<open>Change log\<close>

datatype change = Change_Entry nat "nat option" | Change_Terminal string "nat option" | Change_Field string

record change_log =
  cl_base_revision :: nat
  cl_history :: "(nat \<times> change list) list"
  cl_pending :: "change list"

definition change_log_default :: change_log where
  "change_log_default = \<lparr>cl_base_revision = 0, cl_history = [], cl_pending = []\<rparr>"

section \<open>Steering\<close>

datatype activity = Act_Active | Act_Idle | Act_Failed

record pending_steer =
  pd_id :: string
  pd_entry_start :: nat
  pd_content :: "prompt_content list"
  pd_prompt_required :: bool
  pd_cancelled :: bool
  pd_saw_idle :: bool
  pd_saw_active :: bool
  pd_terminal :: "activity option"
  pd_new_turn_start :: "nat option"

record echo =
  ec_id :: string
  ec_text :: string
  ec_blocks :: "json list"

record steering_state =
  sg_activity :: "activity option"
  sg_pending :: "pending_steer option"
  sg_detached :: bool
  sg_detached_active :: bool
  sg_cancelled :: bool
  sg_completion :: "turn_completion option"
  sg_echoes :: "echo list"

definition steering_default :: steering_state where
  "steering_default = \<lparr>sg_activity = None, sg_pending = None, sg_detached = False, sg_detached_active = False,
     sg_cancelled = False, sg_completion = None, sg_echoes = []\<rparr>"

section \<open>Overview\<close>

record process_segment =
  ps_id :: string
  ps_tool_count :: nat
  ps_progress_count :: nat
  ps_permission_tool_ids :: "string list"

record turn_overview =
  to_id :: string
  to_revision :: nat
  to_user :: "thread_entry list"
  to_conclusion :: "thread_entry list"
  to_messages :: "thread_entry list option"
  to_process_segments :: "process_segment list"
  to_tool_count :: nat
  to_progress_count :: nat
  to_running :: bool
  to_waiting :: bool
  to_compacting :: bool
  to_status :: "string option"
  to_error :: "string option"
  to_permission_tool_ids :: "string list"

record cached_turn =
  ct_summary :: turn_overview
  ct_dialogue :: "nat list option"

record overview_cache =
  oc_generation :: string
  oc_revision :: nat
  oc_length :: nat
  oc_visibility :: "bool list"
  oc_layout_revision :: nat
  oc_ranges :: "(nat \<times> nat) list"
  oc_turns :: "cached_turn list"

definition overview_cache_default :: overview_cache where
  "overview_cache_default = \<lparr>oc_generation = [], oc_revision = 0, oc_length = 0, oc_visibility = [],
     oc_layout_revision = 0, oc_ranges = [], oc_turns = []\<rparr>"

section \<open>The conversation\<close>

record session_snapshot =
  ss_thread_id :: string
  ss_source :: session_source
  ss_created_at :: string
  ss_parent :: "instance_ref option"
  ss_session_id :: "string option"
  ss_agent_id :: string
  ss_cwd :: string
  ss_title :: string
  ss_status :: string
  ss_needs_load :: bool
  ss_recovery :: "session_recovery option"
  ss_revision :: nat
  ss_sync_generation :: string
  ss_updated_at :: string
  ss_interacted_at :: "string option"
  ss_entries :: "thread_entry list"
  ss_turns :: "session_turn list"
  ss_plan :: json
  ss_notices :: "thread_entry list"
  ss_session_meta :: json_object
  ss_session_meta_revision :: nat
  ss_session_meta_suppressed :: bool
  ss_session_meta_revisions :: "(string, nat) fmap"
  ss_terminals :: json_object
  ss_permissions :: "permission list"
  ss_modes :: json
  ss_config_options :: json
  ss_config_options_supported :: bool
  ss_auth_required :: bool
  ss_commands :: json
  ss_usage :: json
  ss_last_prompt_usage :: "json option"
  ss_error :: "string option"
  ss_stop_reason :: "string option"
  ss_pending_user_echo :: string
  ss_steering_pending :: bool
  ss_steering_untracked :: bool
  ss_steering :: steering_state
  ss_pending_user_images :: "json list"
  ss_active_prompt :: "string option"
  ss_changes :: change_log
  ss_overview :: "turn_overview list option"
  ss_overview_cache :: overview_cache

definition session_info_of :: "session_snapshot \<Rightarrow> session_info" where
  "session_info_of t =
     \<lparr>si_thread_id = ss_thread_id t, si_source = ss_source t, si_created_at = ss_created_at t, si_parent = ss_parent t,
      si_session_id = ss_session_id t, si_agent_id = ss_agent_id t, si_cwd = ss_cwd t, si_title = ss_title t,
      si_status = ss_status t, si_updated_at = ss_updated_at t, si_interacted_at = ss_interacted_at t\<rparr>"

text \<open>\<open>AcpThread::new_snapshot\<close> at a given time, with the generation \<open>uuid\<close> chose.\<close>

definition new_snapshot :: "string \<Rightarrow> string \<Rightarrow> string \<Rightarrow> string \<Rightarrow> string \<Rightarrow> string \<Rightarrow> session_snapshot" where
  "new_snapshot now generation thread_id session_id agent_id cwd =
     \<lparr>ss_thread_id = thread_id, ss_source = Source_User, ss_created_at = now, ss_parent = None,
      ss_session_id = (if session_id = [] then None else Some session_id), ss_agent_id = agent_id, ss_cwd = cwd,
      ss_title = ''New conversation'', ss_status = ''idle'', ss_needs_load = False, ss_recovery = None, ss_revision = 0,
      ss_sync_generation = generation, ss_updated_at = now, ss_interacted_at = Some now, ss_entries = [], ss_turns = [],
      ss_plan = JNull, ss_notices = [], ss_session_meta = fmempty, ss_session_meta_revision = 0,
      ss_session_meta_suppressed = False, ss_session_meta_revisions = fmempty, ss_terminals = fmempty,
      ss_permissions = [], ss_modes = JObject fmempty, ss_config_options = JArray [], ss_config_options_supported = False,
      ss_auth_required = False, ss_commands = JArray [], ss_usage = JNull, ss_last_prompt_usage = None, ss_error = None,
      ss_stop_reason = None, ss_pending_user_echo = [], ss_steering_pending = False, ss_steering_untracked = False,
      ss_steering = steering_default, ss_pending_user_images = [], ss_active_prompt = None,
      ss_changes = change_log_default, ss_overview = None, ss_overview_cache = overview_cache_default\<rparr>"

text \<open>\<open>clone\<close>: neither the log nor the cache is copied.\<close>

definition snapshot_clone :: "session_snapshot \<Rightarrow> session_snapshot" where
  "snapshot_clone t = t\<lparr>ss_changes := change_log_default, ss_overview_cache := overview_cache_default\<rparr>"

section \<open>Patches\<close>

datatype entry_patch = Entry_Replace nat thread_entry | Append_Text nat string string

datatype terminal_patch = Terminal_Replace string json | Append_Output string string

datatype dialogue_patch = Dialogue_Reset "thread_entry list" | Dialogue_Delta "entry_patch list"

record turn_overview_patch =
  tp_id :: string
  tp_revision :: nat
  tp_user :: "thread_entry list option"
  tp_conclusion :: "thread_entry list"
  tp_messages :: "dialogue_patch option"
  tp_process_segments :: "process_segment list"
  tp_tool_count :: nat
  tp_progress_count :: nat
  tp_running :: bool
  tp_waiting :: bool
  tp_compacting :: bool
  tp_status :: "string option"
  tp_error :: "string option"
  tp_permission_tool_ids :: "string list"

record session_delta =
  sd_thread_id :: string
  sd_sync_generation :: string
  sd_from_revision :: nat
  sd_revision :: nat
  sd_updated_at :: string
  sd_entries :: "entry_patch list"
  sd_terminals :: "terminal_patch list"
  sd_fields :: json_object

datatype session_updates =
    Updates_Snapshot session_snapshot
  | Updates_Unchanged
  | Updates_Overview nat session_snapshot "turn_overview_patch list"
  | Updates_Delta session_delta

end
