(* ===== verification/Acp_Thread.thy ===== *)
theory Acp_Thread
  imports Acp_Model
begin

text \<open>
  The reduction of the events of an agent to the model of its conversation:
  \<open>crates/acp/src/acp_thread/mod.rs\<close> with the terminals (\<open>terminals.rs\<close>), the compactions
  (\<open>compaction.rs\<close>) and the delivery of steering input (\<open>steering/mod.rs\<close>,
  \<open>steering/compatibility.rs\<close>). The JSON of the protocol crate is a parameter (\<open>acp_codec\<close>), and so is the
  identifier \<open>uuid\<close> gives to the entry an event may add. A step that panics is \<open>None\<close>.
\<close>

record acp_codec =
  cd_decode_block :: "json \<Rightarrow> v1_block option"
  cd_encode_block :: "v2_block \<Rightarrow> json option"
  cd_decode_options :: "json \<Rightarrow> (string, config_option list) result"
  cd_encode_options :: "config_option list \<Rightarrow> (string, json) result"

definition push_change :: "change \<Rightarrow> session_snapshot \<Rightarrow> session_snapshot" where
  "push_change c t = t\<lparr>ss_changes := (ss_changes t)\<lparr>cl_pending := cl_pending (ss_changes t) @ [c]\<rparr>\<rparr>"

section \<open>Steering\<close>

definition activity :: "json \<Rightarrow> activity option" where
  "activity update =
     (if \<not> text_is (idx update ''sessionUpdate'') ''session_info_update'' then None
      else case str_at (idx (idx (idx update ''_meta'') ''codex'') ''threadStatus'') ''type'' of
          None \<Rightarrow> None
        | Some s \<Rightarrow> if s = ''active'' then Some Act_Active
                    else if s = ''idle'' then Some Act_Idle
                    else if s = ''systemError'' then Some Act_Failed
                    else None)"

definition settle_status :: "session_snapshot \<Rightarrow> session_snapshot" where
  "settle_status t =
     (let t = (if ss_status t \<noteq> ''disconnected''
               then t\<lparr>ss_status := (if ss_active_prompt t \<noteq> None \<or> ss_steering_pending t \<or> sg_detached (ss_steering t)
                                  then ''working'' else ''idle'')\<rparr>
               else t)
      in if ss_status t \<noteq> ''working'' then t\<lparr>ss_steering := (ss_steering t)\<lparr>sg_echoes := []\<rparr>\<rparr> else t)"

definition update_last :: "('a \<Rightarrow> 'a) \<Rightarrow> 'a list \<Rightarrow> 'a list" where
  "update_last f xs = (if xs = [] then [] else butlast xs @ [f (last xs)])"

definition finish_detached :: "activity \<Rightarrow> session_snapshot \<Rightarrow> session_snapshot" where
  "finish_detached act t =
     (let cancelled = sg_cancelled (ss_steering t);
          t = t\<lparr>ss_steering := (ss_steering t)\<lparr>sg_detached := False, sg_detached_active := False\<rparr>, ss_steering_untracked := False,
                ss_stop_reason := (if cancelled then Some ''cancelled'' else None),
                ss_error := (if act = Act_Failed then Some ''Agent reported a session error'' else None)\<rparr>;
          t = t\<lparr>ss_turns := update_last (\<lambda>turn. turn\<lparr>
                tn_status := (if ss_error t \<noteq> None then ''failed'' else if cancelled then ''interrupted'' else ''unknown''),
                tn_stop_reason := ss_stop_reason t, tn_error := ss_error t\<rparr>) (ss_turns t)\<rparr>
      in settle_status t)"

definition observe_pending :: "activity \<Rightarrow> nat \<Rightarrow> pending_steer \<Rightarrow> pending_steer" where
  "observe_pending act entries p =
     (if act = Act_Idle
      then (let p = p\<lparr>pd_saw_idle := True\<rparr> in if pd_saw_active p then p\<lparr>pd_terminal := Some act\<rparr> else p)
      else if act = Act_Active \<and> pd_saw_idle p
      then p\<lparr>pd_saw_active := True, pd_terminal := None,
             pd_new_turn_start := (case pd_new_turn_start p of None \<Rightarrow> Some entries | s \<Rightarrow> s)\<rparr>
      else if act = Act_Failed \<and> pd_saw_active p then p\<lparr>pd_terminal := Some act\<rparr>
      else p)"

definition observe_activity :: "json \<Rightarrow> session_snapshot \<Rightarrow> session_snapshot" where
  "observe_activity update t =
     (case activity update of
        None \<Rightarrow> t
      | Some act \<Rightarrow>
          let t = t\<lparr>ss_steering := (ss_steering t)\<lparr>sg_activity := Some act,
                  sg_pending := map_option (observe_pending act (length (ss_entries t))) (sg_pending (ss_steering t))\<rparr>\<rparr>
          in if \<not> sg_detached (ss_steering t) then t
             else if act = Act_Active
             then t\<lparr>ss_steering := (ss_steering t)\<lparr>sg_detached_active := True\<rparr>, ss_steering_untracked := False\<rparr>
             else if sg_detached_active (ss_steering t) then finish_detached act t
             else t)"

definition expect_echo :: "string \<Rightarrow> json list \<Rightarrow> session_snapshot \<Rightarrow> session_snapshot" where
  "expect_echo ident blocks t =
     t\<lparr>ss_steering := (ss_steering t)\<lparr>sg_echoes := sg_echoes (ss_steering t) @
        [\<lparr>ec_id = ident, ec_text = concat (List.map_filter (\<lambda>b. str_at b ''text'') blocks),
          ec_blocks = filter (\<lambda>b. \<not> text_is (idx b ''type'') ''text'') blocks\<rparr>]\<rparr>\<rparr>"

definition forget_echo :: "string \<Rightarrow> session_snapshot \<Rightarrow> session_snapshot" where
  "forget_echo ident t =
     t\<lparr>ss_steering := (ss_steering t)\<lparr>sg_echoes := filter (\<lambda>e. ec_id e \<noteq> ident) (sg_echoes (ss_steering t))\<rparr>\<rparr>"

definition same_block :: "json \<Rightarrow> json \<Rightarrow> bool" where
  "same_block content block \<longleftrightarrow> block = content \<or>
     (text_is (idx block ''type'') ''image'' \<and> text_is (idx content ''type'') ''image'' \<and>
      idx block ''data'' = idx content ''data'' \<and> idx block ''mimeType'' = idx content ''mimeType'')"

text \<open>The loop over the echoes: the echoes after the one that consumed the content.\<close>

fun consume_echoes :: "json \<Rightarrow> echo list \<Rightarrow> echo list option" where
  "consume_echoes content [] = None"
| "consume_echoes content (e # es) =
     (let rest = map_option ((#) e) (consume_echoes content es)
      in if text_is (idx content ''type'') ''text''
         then (let text = (case str_at content ''text'' of None \<Rightarrow> [] | Some s \<Rightarrow> s)
               in if ec_text e \<noteq> [] \<and> take (length text) (ec_text e) = text
                  then Some (e\<lparr>ec_text := drop (length text) (ec_text e)\<rparr> # es)
                  else rest)
         else (case position (same_block content) (ec_blocks e) of
             Some i \<Rightarrow> Some (e\<lparr>ec_blocks := vec_remove i (ec_blocks e)\<rparr> # es)
           | None \<Rightarrow> rest))"

definition consume_echo :: "json \<Rightarrow> session_snapshot \<Rightarrow> session_snapshot option" where
  "consume_echo content t =
     map_option (\<lambda>es. t\<lparr>ss_steering := (ss_steering t)\<lparr>sg_echoes := es\<rparr>\<rparr>) (consume_echoes content (sg_echoes (ss_steering t)))"

fun deliver :: "string \<Rightarrow> string option \<Rightarrow> thread_entry list \<Rightarrow> thread_entry list" where
  "deliver status err [] = []"
| "deliver status err (e # es) =
     (case te_delivery e of
        Some d \<Rightarrow> if dv_status d = ''sending''
          then e\<lparr>te_delivery := Some \<lparr>dv_status = status, dv_error = err\<rparr>\<rparr> # deliver status err es else e # es
      | None \<Rightarrow> e # es)"

definition delivery :: "nat \<Rightarrow> string \<Rightarrow> string option \<Rightarrow> session_snapshot \<Rightarrow> session_snapshot" where
  "delivery start status err t =
     t\<lparr>ss_entries := take start (ss_entries t) @ deliver status err (drop start (ss_entries t))\<rparr>"

definition relocate_input :: "nat \<Rightarrow> nat \<Rightarrow> nat \<Rightarrow> session_snapshot \<Rightarrow> (nat \<times> session_snapshot) option" where
  "relocate_input start count boundary t =
     (if boundary \<le> start + count then Some (start, t)
      else if length (ss_entries t) < boundary then None
      else (let moved = take count (drop start (ss_entries t));
                others = take start (ss_entries t) @ drop (start + count) (ss_entries t);
                target = boundary - count
            in Some (target, t\<lparr>ss_entries := take target others @ moved @ drop target others\<rparr>)))"

definition disconnected :: "session_snapshot \<Rightarrow> session_snapshot" where
  "disconnected t =
     (let t = (case sg_pending (ss_steering t) of
                 Some p \<Rightarrow> delivery (pd_entry_start p) ''unknown'' (Some ''common.steeringUnknown'') t
               | None \<Rightarrow> t)
      in t\<lparr>ss_steering_pending := False, ss_steering_untracked := False,
           ss_entries := map (\<lambda>e. case te_delivery e of
               Some d \<Rightarrow> if dv_status d = ''sending''
                 then e\<lparr>te_delivery := Some \<lparr>dv_status = ''unknown'', dv_error = Some ''common.steeringUnknown''\<rparr>\<rparr> else e
             | None \<Rightarrow> e) (ss_entries t),
           ss_steering := steering_default\<rparr>)"

section \<open>Terminals\<close>

text \<open>The terminal of an identifier, made when it is not there.\<close>

definition terminal_of :: "string \<Rightarrow> session_snapshot \<Rightarrow> json" where
  "terminal_of ident t = (case fmlookup (ss_terminals t) ident of Some v \<Rightarrow> v | None \<Rightarrow> json_obj [(''output'', JString [])])"

definition set_terminal :: "string \<Rightarrow> json \<Rightarrow> session_snapshot \<Rightarrow> session_snapshot" where
  "set_terminal ident v t = t\<lparr>ss_terminals := fmupd ident v (ss_terminals t)\<rparr>"

definition set_if_str :: "string \<Rightarrow> string option \<Rightarrow> json \<Rightarrow> json option" where
  "set_if_str k s v = (case s of None \<Rightarrow> Some v | Some s \<Rightarrow> json_set k (JString s) v)"

definition terminal_info :: "json \<Rightarrow> session_snapshot \<Rightarrow> session_snapshot option" where
  "terminal_info update t =
     (let info = idx (idx update ''_meta'') ''terminal_info''
      in case str_at info ''terminal_id'' of
           None \<Rightarrow> Some t
         | Some ident \<Rightarrow>
             Option.bind (set_if_str ''command'' (str_at update ''title'') (terminal_of ident t)) (\<lambda>v.
             Option.bind (set_if_str ''cwd'' (str_at info ''cwd'') v) (\<lambda>v.
             Some (push_change (Change_Terminal ident None) (set_terminal ident v t)))))"

definition append_output_text :: "string \<Rightarrow> json \<Rightarrow> json" where
  "append_output_text text v =
     (case v of JObject m \<Rightarrow> (case fmlookup m ''output'' of
          Some (JString old) \<Rightarrow> JObject (fmupd ''output'' (JString (old @ text)) m) | _ \<Rightarrow> v)
      | _ \<Rightarrow> v)"

definition terminal_output :: "json \<Rightarrow> session_snapshot \<Rightarrow> session_snapshot" where
  "terminal_output update t =
     (let output = idx (idx update ''_meta'') ''terminal_output''
      in case (str_at output ''terminal_id'', str_at output ''data'') of
           (Some ident, Some text) \<Rightarrow>
             let start = Option.bind (fmlookup (ss_terminals t) ident) (\<lambda>v. map_option length (str_at v ''output''))
             in push_change (Change_Terminal ident start) (set_terminal ident (append_output_text text (terminal_of ident t)) t)
         | _ \<Rightarrow> t)"

definition terminal_exit :: "json \<Rightarrow> session_snapshot \<Rightarrow> session_snapshot option" where
  "terminal_exit update t =
     (let exit = idx (idx update ''_meta'') ''terminal_exit''
      in case str_at exit ''terminal_id'' of
           None \<Rightarrow> Some t
         | Some ident \<Rightarrow>
             Option.bind (json_set ''exit_status'' (json_obj [(''exitCode'', idx exit ''exit_code''), (''signal'', idx exit ''signal'')])
               (terminal_of ident t)) (\<lambda>v.
             Some (push_change (Change_Terminal ident None) (set_terminal ident v t))))"

definition apply_legacy_update :: "json \<Rightarrow> session_snapshot \<Rightarrow> session_snapshot option" where
  "apply_legacy_update update t =
     (case str_at update ''sessionUpdate'' of
        None \<Rightarrow> Some t
      | Some s \<Rightarrow> if s = ''tool_call'' then terminal_info update t
                  else if s = ''tool_call_update'' then terminal_exit update (terminal_output update t)
                  else Some t)"

definition remove_consumed_output :: "json \<Rightarrow> json" where
  "remove_consumed_output update =
     (let output = idx (idx update ''_meta'') ''terminal_output''
      in if text_is (idx update ''sessionUpdate'') ''tool_call_update'' \<and>
            str_at output ''terminal_id'' \<noteq> None \<and> str_at output ''data'' \<noteq> None
         then (case update of
             JObject m \<Rightarrow> JObject (fmupd ''_meta'' (json_remove ''terminal_output'' (idx update ''_meta'')) m)
           | _ \<Rightarrow> update)
         else update)"

section \<open>Content\<close>

definition normalize_content :: "acp_codec \<Rightarrow> json \<Rightarrow> json" where
  "normalize_content codec content =
     (case Option.bind (Option.bind (cd_decode_block codec content)
         (\<lambda>block. case from_v1 block of Inr b \<Rightarrow> Some b | Inl _ \<Rightarrow> None)) (cd_encode_block codec) of
        Some v \<Rightarrow> v | None \<Rightarrow> content)"

definition normalize_config_options :: "acp_codec \<Rightarrow> json \<Rightarrow> (string, json) result" where
  "normalize_config_options codec v =
     rbind (cd_decode_options codec v) (\<lambda>options.
     rbind (config_options_from_v1 options) (cd_encode_options codec))"

definition can_merge_message_chunks :: "string option \<Rightarrow> string option \<Rightarrow> bool" where
  "can_merge_message_chunks existing incoming =
     (case (existing, incoming) of (Some a, Some b) \<Rightarrow> a = b | _ \<Rightarrow> True)"

text \<open>\<open>merge\<close>: the keys of the update that are not null.\<close>

definition merge_json :: "json \<Rightarrow> json \<Rightarrow> json" where
  "merge_json target update =
     (case (target, update) of
        (JObject m, JObject u) \<Rightarrow> JObject (m ++\<^sub>f fmfilter (\<lambda>k. fmlookup u k \<noteq> Some JNull) u)
      | _ \<Rightarrow> target)"

definition text_or_empty :: "json \<Rightarrow> string" where
  "text_or_empty v = (case str_at v ''text'' of None \<Rightarrow> [] | Some s \<Rightarrow> s)"

definition new_entry :: "string \<Rightarrow> string \<Rightarrow> string option \<Rightarrow> json \<Rightarrow> thread_entry" where
  "new_entry ident kind message_id content =
     \<lparr>te_id = ident, te_kind = kind, te_message_id = message_id, te_content = content, te_delivery = None\<rparr>"

definition push_entry :: "thread_entry \<Rightarrow> session_snapshot \<Rightarrow> session_snapshot" where
  "push_entry e t = push_change (Change_Entry (length (ss_entries t)) None) (t\<lparr>ss_entries := ss_entries t @ [e]\<rparr>)"

text \<open>\<open>AcpThread::push\<close>.\<close>

definition push_kind :: "string \<Rightarrow> string \<Rightarrow> json \<Rightarrow> session_snapshot \<Rightarrow> session_snapshot" where
  "push_kind uuid kind content t =
     (if kind = ''notice''
      then push_change (Change_Field ''notices'') (t\<lparr>ss_notices := ss_notices t @ [new_entry uuid kind None content]\<rparr>)
      else push_entry (new_entry uuid kind None content) t)"

section \<open>Compactions\<close>

definition append_block :: "json list \<Rightarrow> json \<Rightarrow> json list" where
  "append_block blocks block =
     (if blocks \<noteq> [] \<and> text_is (idx (last blocks) ''type'') ''text'' \<and> text_is (idx block ''type'') ''text''
      then butlast blocks @ [the (json_set ''text'' (JString (text_or_empty (last blocks) @ text_or_empty block)) (last blocks))]
      else blocks @ [block])"

text \<open>The state of a compaction and the entry that holds it, made when it is not there.\<close>

definition ensure_entry :: "string \<Rightarrow> string \<Rightarrow> session_snapshot \<Rightarrow> nat \<times> session_snapshot" where
  "ensure_entry uuid ident t =
     (case position (\<lambda>e. te_kind e = ''compaction_update'' \<and> text_is (idx (te_content e) ''compactionId'') ident) (ss_entries t) of
        Some i \<Rightarrow> (i, t)
      | None \<Rightarrow> (length (ss_entries t), push_kind uuid ''compaction_update''
          (json_obj [(''compactionId'', JString ident), (''status'', JString ''in_progress''), (''summary'', JArray [])]) t))"

definition set_content :: "nat \<Rightarrow> json \<Rightarrow> session_snapshot \<Rightarrow> session_snapshot" where
  "set_content i content t = t\<lparr>ss_entries := (ss_entries t)[i := (ss_entries t ! i)\<lparr>te_content := content\<rparr>]\<rparr>"

definition set_if_present :: "string \<Rightarrow> json option \<Rightarrow> json \<Rightarrow> json option" where
  "set_if_present k w v = (case w of None \<Rightarrow> Some v | Some w \<Rightarrow> json_set k w v)"

definition summary_blocks :: "acp_codec \<Rightarrow> json \<Rightarrow> json" where
  "summary_blocks codec summary =
     JArray (case as_array summary of None \<Rightarrow> []
             | Some blocks \<Rightarrow> foldl append_block [] (map (normalize_content codec) blocks))"

definition compaction_update :: "acp_codec \<Rightarrow> string \<Rightarrow> json \<Rightarrow> session_snapshot \<Rightarrow> session_snapshot option" where
  "compaction_update codec uuid update t =
     (case str_at update ''compactionId'' of
        None \<Rightarrow> Some t
      | Some ident \<Rightarrow>
          (case ensure_entry uuid ident t of (i, t) \<Rightarrow>
             Option.bind (json_set ''status'' (idx update ''status'') (te_content (ss_entries t ! i))) (\<lambda>v.
             Option.bind (set_if_present ''summary'' (map_option (summary_blocks codec) (json_get ''summary'' update)) v) (\<lambda>v.
             Option.bind (set_if_present ''error'' (json_get ''error'' update) v) (\<lambda>v.
             Option.bind (set_if_present ''_meta'' (json_get ''_meta'' update) v) (\<lambda>v.
             Some (push_change (Change_Entry i None) (set_content i v t))))))))"

definition append_summary :: "acp_codec \<Rightarrow> string \<Rightarrow> json \<Rightarrow> session_snapshot \<Rightarrow> session_snapshot option" where
  "append_summary codec uuid chunk t =
     (case str_at chunk ''compactionId'' of
        None \<Rightarrow> Some t
      | Some ident \<Rightarrow>
          (case ensure_entry uuid ident t of (i, t) \<Rightarrow>
             let content = te_content (ss_entries t ! i)
             in Option.bind (case as_array (idx content ''summary'') of
                    None \<Rightarrow> Some content
                  | Some blocks \<Rightarrow> json_set ''summary'' (JArray (append_block blocks (normalize_content codec (idx chunk ''content'')))) content) (\<lambda>v.
                Some (push_change (Change_Entry i None) (set_content i v t)))))"

section \<open>Session updates\<close>

text \<open>A chunk continues the last entry when both are text of one message, else it starts an entry.\<close>

definition add_chunk :: "string \<Rightarrow> string \<Rightarrow> string option \<Rightarrow> json \<Rightarrow> session_snapshot \<Rightarrow> session_snapshot option" where
  "add_chunk uuid role message_id content t =
     (let es = ss_entries t; e = last es in
      if es \<noteq> [] \<and> te_kind e = role \<and> can_merge_message_chunks (te_message_id e) message_id \<and>
         text_is (idx content ''type'') ''text'' \<and> text_is (idx (te_content e) ''type'') ''text''
      then (let text_start = (if te_message_id e = None \<and> message_id \<noteq> None then None
                              else map_option length (str_at (te_content e) ''text''))
            in Option.bind (json_set ''text'' (JString (text_or_empty (te_content e) @ text_or_empty content)) (te_content e)) (\<lambda>v.
               Some (push_change (Change_Entry (length es - 1) text_start)
                 (t\<lparr>ss_entries := butlast es @ [e\<lparr>te_message_id := (if te_message_id e = None then message_id else te_message_id e),
                    te_content := v\<rparr>]\<rparr>))))
      else Some (push_entry (new_entry uuid role message_id content) t))"

definition is_image_of :: "json \<Rightarrow> json \<Rightarrow> bool" where
  "is_image_of content img \<longleftrightarrow> idx img ''data'' = idx content ''data'' \<and> idx img ''mimeType'' = idx content ''mimeType''"

text \<open>What a user message repeats is not added again.\<close>

definition consume_user_content :: "json \<Rightarrow> session_snapshot \<Rightarrow> session_snapshot option" where
  "consume_user_content content t =
     (case consume_echo content t of
        Some t' \<Rightarrow> Some t'
      | None \<Rightarrow>
          (case (if text_is (idx content ''type'') ''image'' then position (is_image_of content) (ss_pending_user_images t) else None) of
             Some i \<Rightarrow> Some (t\<lparr>ss_pending_user_images := vec_remove i (ss_pending_user_images t)\<rparr>)
           | None \<Rightarrow>
               let echoed = text_or_empty content
               in if text_is (idx content ''type'') ''text'' \<and> ss_pending_user_echo t \<noteq> [] \<and>
                     take (length echoed) (ss_pending_user_echo t) = echoed
                  then Some (t\<lparr>ss_pending_user_echo := drop (length echoed) (ss_pending_user_echo t)\<rparr>)
                  else None))"

definition message_chunk :: "acp_codec \<Rightarrow> string \<Rightarrow> string \<Rightarrow> json \<Rightarrow> session_snapshot \<Rightarrow> session_snapshot option" where
  "message_chunk codec uuid role update t =
     (let content = idx update ''content''
      in case (if role = ''user'' then consume_user_content content t else None) of
           Some t' \<Rightarrow> Some t'
         | None \<Rightarrow> add_chunk uuid role (str_at update ''messageId'') (normalize_content codec content) t)"

definition terminal_parts :: "json \<Rightarrow> string list" where
  "terminal_parts update =
     (case as_array (idx update ''content'') of None \<Rightarrow> []
      | Some parts \<Rightarrow> List.map_filter (\<lambda>p. str_at p ''terminalId'') (filter (\<lambda>p. text_is (idx p ''type'') ''terminal'') parts))"

definition rposition :: "('a \<Rightarrow> bool) \<Rightarrow> 'a list \<Rightarrow> nat option" where
  "rposition p xs = map_option (\<lambda>i. length xs - 1 - i) (position p (rev xs))"

definition tool_update :: "json \<Rightarrow> session_snapshot \<Rightarrow> session_snapshot" where
  "tool_update update t =
     (let t = fold (\<lambda>ident. push_change (Change_Terminal ident None))
                (filter (\<lambda>ident. ident |\<in>| fmdom (ss_terminals t)) (terminal_parts update)) t;
          ident = (case str_at update ''toolCallId'' of None \<Rightarrow> [] | Some s \<Rightarrow> s)
      in case rposition (\<lambda>e. te_kind e = ''tool'' \<and> te_id e = ident) (ss_entries t) of
           Some i \<Rightarrow> push_change (Change_Entry i None) (set_content i (merge_json (te_content (ss_entries t ! i)) update) t)
         | None \<Rightarrow> push_entry (new_entry ident ''tool'' None update) t)"

text \<open>\<open>u64::saturating_add(1)\<close>.\<close>

definition next_meta_revision :: "session_snapshot \<Rightarrow> nat" where
  "next_meta_revision t = min (ss_session_meta_revision t + 1) (2 ^ 64 - 1)"

definition push_fields :: "string list \<Rightarrow> session_snapshot \<Rightarrow> session_snapshot" where
  "push_fields fs t = fold (\<lambda>f. push_change (Change_Field f)) fs t"

definition set_title :: "json \<Rightarrow> session_snapshot \<Rightarrow> session_snapshot" where
  "set_title update t =
     (case str_at update ''title'' of None \<Rightarrow> t | Some s \<Rightarrow> push_change (Change_Field ''title'') (t\<lparr>ss_title := s\<rparr>))"

definition session_info_update :: "json \<Rightarrow> session_snapshot \<Rightarrow> session_snapshot" where
  "session_info_update update t =
     (if ss_session_meta_suppressed t then set_title update t
      else (let n = next_meta_revision t;
                t = (case json_get ''_meta'' update of
                       Some (JObject m) \<Rightarrow>
                         push_fields [''session_meta'', ''session_meta_revision'', ''session_meta_revisions'']
                           (t\<lparr>ss_session_meta_revisions := ss_session_meta_revisions t ++\<^sub>f fmmap (\<lambda>_. n) m,
                              ss_session_meta := ss_session_meta t ++\<^sub>f m, ss_session_meta_revision := n\<rparr>)
                     | Some JNull \<Rightarrow>
                         push_fields [''session_meta'', ''session_meta_revision'', ''session_meta_revisions'']
                           (t\<lparr>ss_session_meta_revisions := fmempty, ss_session_meta := fmempty, ss_session_meta_revision := n\<rparr>)
                     | _ \<Rightarrow> t)
            in set_title update t))"

definition clear_session_meta :: "session_snapshot \<Rightarrow> session_snapshot" where
  "clear_session_meta t =
     (let t = t\<lparr>ss_session_meta_suppressed := True\<rparr>
      in if ss_session_meta t = fmempty \<and> ss_session_meta_revisions t = fmempty then t
         else push_fields [''session_meta'', ''session_meta_revisions'', ''session_meta_revision'']
                (t\<lparr>ss_session_meta := fmempty, ss_session_meta_revisions := fmempty, ss_session_meta_revision := next_meta_revision t\<rparr>))"

definition message_role :: "string \<Rightarrow> string" where
  "message_role kind =
     (if kind = ''user_message_chunk'' then ''user'' else if kind = ''agent_thought_chunk'' then ''thought'' else ''assistant'')"

definition handle_session_update :: "acp_codec \<Rightarrow> string \<Rightarrow> json \<Rightarrow> session_snapshot \<Rightarrow> session_snapshot option" where
  "handle_session_update codec uuid update t =
     Option.bind (apply_legacy_update update (observe_activity update t)) (\<lambda>t.
     let update = remove_consumed_output update;
         kind = (case str_at update ''sessionUpdate'' of None \<Rightarrow> ''unknown'' | Some s \<Rightarrow> s)
     in if kind \<in> {''user_message_chunk'', ''agent_message_chunk'', ''agent_thought_chunk''}
        then message_chunk codec uuid (message_role kind) update t
        else if kind \<in> {''tool_call'', ''tool_call_update''} then Some (tool_update update t)
        else if kind = ''plan'' then Some (push_change (Change_Field ''plan'') (t\<lparr>ss_plan := update\<rparr>))
        else if kind = ''current_mode_update''
        then Option.bind (json_set ''currentModeId'' (idx update ''currentModeId'') (ss_modes t)) (\<lambda>modes.
             Some (push_change (Change_Field ''modes'') (t\<lparr>ss_modes := modes\<rparr>)))
        else if kind = ''config_option_update''
        then Some (push_fields [''config_options'', ''config_options_supported''] (t\<lparr>ss_config_options_supported := True,
               ss_config_options := (case normalize_config_options codec (idx update ''configOptions'') of
                   Inr v \<Rightarrow> v | Inl _ \<Rightarrow> idx update ''configOptions'')\<rparr>))
        else if kind = ''available_commands_update''
        then Some (push_change (Change_Field ''commands'') (t\<lparr>ss_commands := idx update ''availableCommands''\<rparr>))
        else if kind = ''usage_update'' then Some (push_change (Change_Field ''usage'') (t\<lparr>ss_usage := update\<rparr>))
        else if kind = ''session_info_update'' then Some (session_info_update update t)
        else if kind \<in> {''terminal_output_chunk'', ''terminal_update''} then Some (push_kind uuid ''terminal'' update t)
        else if kind = ''notice'' then Some (push_kind uuid ''notice'' update t)
        else if kind = ''compaction_update'' then compaction_update codec uuid update t
        else if kind = ''compaction_summary_chunk'' then append_summary codec uuid update t
        else Some (push_kind uuid ''extension'' update t))"

definition request_permission :: "acp_codec \<Rightarrow> string \<Rightarrow> permission \<Rightarrow> session_snapshot \<Rightarrow> session_snapshot option" where
  "request_permission codec uuid p t =
     map_option (\<lambda>t. t\<lparr>ss_permissions := ss_permissions t @ [p]\<rparr>)
       (let call = idx (pm_request p) ''toolCall''
        in if pm_kind p = ''permission'' \<and> str_at call ''toolCallId'' \<noteq> None
           then Option.bind (json_set ''sessionUpdate'' (JString ''tool_call_update'') call) (\<lambda>update.
                handle_session_update codec uuid update t)
           else Some t)"

text \<open>\<open>terminals::normalize_snapshot\<close>: the last output an old cache kept on a tool.\<close>

definition normalize_tool :: "thread_entry \<Rightarrow> json_object \<Rightarrow> (thread_entry \<times> json_object) option" where
  "normalize_tool e terminals =
     (let output = idx (idx (te_content e) ''_meta'') ''terminal_output''
      in case (te_kind e = ''tool'', str_at output ''terminal_id'', str_at output ''data'') of
           (True, Some ident, Some text) \<Rightarrow>
             let terminal = (case fmlookup terminals ident of Some v \<Rightarrow> v | None \<Rightarrow> JObject fmempty)
             in Option.bind (if str_at terminal ''output'' = None then json_set ''output'' (JString text) terminal else Some terminal) (\<lambda>terminal.
                Option.bind (json_set ''_meta'' (json_remove ''terminal_output'' (idx (te_content e) ''_meta'')) (te_content e)) (\<lambda>content.
                Some (e\<lparr>te_content := content\<rparr>, fmupd ident terminal terminals)))
         | _ \<Rightarrow> Some (e, terminals))"

fun normalize_tools :: "thread_entry list \<Rightarrow> json_object \<Rightarrow> (thread_entry list \<times> json_object) option" where
  "normalize_tools [] terminals = Some ([], terminals)"
| "normalize_tools (e # es) terminals =
     Option.bind (normalize_tool e terminals) (\<lambda>(e, terminals).
     Option.bind (normalize_tools es terminals) (\<lambda>(es, terminals).
     Some (e # es, terminals)))"

definition normalize_snapshot :: "session_snapshot \<Rightarrow> session_snapshot option" where
  "normalize_snapshot t =
     map_option (\<lambda>(es, terminals). t\<lparr>ss_entries := es, ss_terminals := terminals\<rparr>)
       (normalize_tools (ss_entries t) (ss_terminals t))"

end
