(* ===== verification/Acp_Turns.thy ===== *)
theory Acp_Turns
  imports Acp_Thread
begin

text \<open>
  The outcome of each prompt and the final message of a turn:
  \<open>crates/acp/src/acp_thread/turns/mod.rs\<close>. An index out of range panics, which is \<open>None\<close>.
\<close>

section \<open>Outcomes\<close>

definition start_turn :: "nat \<Rightarrow> session_snapshot \<Rightarrow> session_snapshot option" where
  "start_turn entry_start t =
     (let t = (clear_session_meta (t\<lparr>ss_plan := JNull\<rparr>))\<lparr>ss_session_meta_suppressed := False\<rparr>
      in if length (ss_entries t) \<le> entry_start then None
         else Some (t\<lparr>ss_turns := ss_turns t @ [\<lparr>tn_user_entry_id = te_id (ss_entries t ! entry_start),
                tn_status = ''in_progress'', tn_stop_reason = None, tn_error = None\<rparr>]\<rparr>))"

definition turn_status :: "string \<Rightarrow> string option \<Rightarrow> string option \<Rightarrow> string" where
  "turn_status status stop_reason err =
     (case stop_reason of
        Some s \<Rightarrow> if s = ''end_turn'' then ''completed'' else if s = ''refusal'' then ''failed'' else ''interrupted''
      | None \<Rightarrow> if status = ''disconnected'' then ''interrupted'' else if err \<noteq> None then ''failed'' else ''interrupted'')"

definition finish_record :: "string \<Rightarrow> string option \<Rightarrow> string option \<Rightarrow> session_turn \<Rightarrow> session_turn" where
  "finish_record status stop_reason err turn =
     turn\<lparr>tn_status := turn_status status stop_reason err, tn_stop_reason := stop_reason, tn_error := err\<rparr>"

definition finish_turns :: "session_snapshot \<Rightarrow> session_snapshot" where
  "finish_turns t =
     (if ss_status t = ''working'' then t
      else t\<lparr>ss_turns := map (\<lambda>turn. if tn_status turn = ''in_progress''
               then finish_record (ss_status t) (ss_stop_reason t) (ss_error t) turn else turn) (ss_turns t)\<rparr>)"

definition finish_turn_at :: "nat \<Rightarrow> session_snapshot \<Rightarrow> session_snapshot option" where
  "finish_turn_at entry_start t =
     (if length (ss_entries t) \<le> entry_start then None
      else Some (t\<lparr>ss_turns := update_first (\<lambda>turn. tn_user_entry_id turn = te_id (ss_entries t ! entry_start))
             (finish_record (ss_status t) (ss_stop_reason t) (ss_error t)) (ss_turns t)\<rparr>))"

section \<open>The final message\<close>

definition relevant_entry :: "thread_entry \<Rightarrow> bool" where
  "relevant_entry e =
     (if te_kind e \<in> {''tool'', ''user'', ''steering'', ''summary'', ''compaction_update''} then True
      else if te_kind e \<in> {''assistant'', ''thought''}
      then \<not> text_is (idx (te_content e) ''type'') ''text'' \<or>
           (case str_at (te_content e) ''text'' of None \<Rightarrow> False | Some s \<Rightarrow> trim s \<noteq> [])
      else False)"

text \<open>The loop from the end: the entries still before, the message identity so far, the entries taken.\<close>

fun final_loop :: "thread_entry list \<Rightarrow> string option \<Rightarrow> thread_entry list \<Rightarrow> thread_entry list" where
  "final_loop [] message_id taken = taken"
| "final_loop (e # before) message_id taken =
     (if te_kind e \<noteq> ''assistant'' \<or> (case (message_id, te_message_id e) of (Some a, Some b) \<Rightarrow> a \<noteq> b | _ \<Rightarrow> False)
      then taken
      else final_loop before (case message_id of None \<Rightarrow> te_message_id e | Some a \<Rightarrow> Some a) (e # taken))"

definition final_message :: "thread_entry list \<Rightarrow> thread_entry list" where
  "final_message es =
     (case rev (filter relevant_entry es) of
        [] \<Rightarrow> []
      | e # before \<Rightarrow> if te_kind e = ''assistant'' then final_loop before (te_message_id e) [e] else [])"

end
