(* ===== verification/Acp_Updates.thy ===== *)
theory Acp_Updates
  imports Acp_Turns
begin

text \<open>
  Cursors on a conversation: the change log and the deltas of
  \<open>crates/acp/src/acp_thread/updates/mod.rs\<close>, the projections \<open>metadata\<close> and \<open>detail_snapshot\<close> of
  \<open>overview/mod.rs\<close> and the step of the store that commits a change (\<open>update_inner\<close> of \<open>history.rs\<close>).
\<close>

section \<open>The log\<close>

definition HISTORY_LIMIT :: nat where "HISTORY_LIMIT = 2048"

fun trim_history :: "nat \<Rightarrow> (nat \<times> change list) list \<Rightarrow> nat \<times> (nat \<times> change list) list" where
  "trim_history base [] = (base, [])"
| "trim_history base (h # hs) =
     (if HISTORY_LIMIT < length (h # hs) then trim_history (fst h) hs else (base, h # hs))"

definition log_commit :: "nat \<Rightarrow> change_log \<Rightarrow> change_log" where
  "log_commit revision l =
     (case trim_history (cl_base_revision l) (cl_history l @ [(revision, cl_pending l)]) of
        (base, history) \<Rightarrow> \<lparr>cl_base_revision = base, cl_history = history, cl_pending = []\<rparr>)"

definition log_reset :: "nat \<Rightarrow> change_log \<Rightarrow> change_log" where
  "log_reset revision l = l\<lparr>cl_base_revision := revision, cl_history := [], cl_pending := []\<rparr>"

text \<open>\<open>update_inner\<close> on the locked conversation; besides it, whether the change has to be durable at once and
  whether the title changed.\<close>

definition update_thread :: "string \<Rightarrow> bool \<Rightarrow> (session_snapshot \<Rightarrow> session_snapshot option) \<Rightarrow> session_snapshot
    \<Rightarrow> (session_snapshot \<times> bool \<times> bool) option" where
  "update_thread now incremental apply_change t0 =
     (let working = (ss_status t0 = ''working'')
      in Option.bind (apply_change t0) (\<lambda>t.
         let t = (if working \<and> ss_status t \<noteq> ''working'' \<or> ss_status t = ''disconnected'' then clear_session_meta t else t);
             t = finish_turns t;
             t = t\<lparr>ss_revision := ss_revision t + 1, ss_updated_at := now\<rparr>;
             t = t\<lparr>ss_changes := (if incremental \<and> working then log_commit else log_reset) (ss_revision t) (ss_changes t)\<rparr>
         in Some (t, \<not> working \<or> ss_status t \<noteq> ''working'' \<or> map pm_id (ss_permissions t) \<noteq> map pm_id (ss_permissions t0),
                  ss_title t \<noteq> ss_title t0)))"

definition session_update :: "acp_codec \<Rightarrow> string \<Rightarrow> string \<Rightarrow> json \<Rightarrow> session_snapshot \<Rightarrow> (session_snapshot \<times> bool \<times> bool) option" where
  "session_update codec now uuid update =
     update_thread now (activity update = None) (handle_session_update codec uuid update)"

section \<open>Projections\<close>

definition metadata :: "session_snapshot \<Rightarrow> session_snapshot" where
  "metadata t =
     (new_snapshot (ss_created_at t) (ss_sync_generation t) (ss_thread_id t)
        (case ss_session_id t of None \<Rightarrow> [] | Some s \<Rightarrow> s) (ss_agent_id t) (ss_cwd t))
     \<lparr>ss_parent := ss_parent t, ss_source := ss_source t, ss_title := ss_title t, ss_status := ss_status t,
      ss_needs_load := ss_needs_load t, ss_recovery := ss_recovery t, ss_revision := ss_revision t,
      ss_updated_at := ss_updated_at t, ss_interacted_at := ss_interacted_at t, ss_plan := ss_plan t,
      ss_notices := ss_notices t, ss_session_meta := ss_session_meta t,
      ss_session_meta_revision := ss_session_meta_revision t, ss_session_meta_revisions := ss_session_meta_revisions t,
      ss_permissions := ss_permissions t, ss_modes := ss_modes t, ss_config_options := ss_config_options t,
      ss_config_options_supported := ss_config_options_supported t, ss_auth_required := ss_auth_required t,
      ss_commands := ss_commands t, ss_usage := ss_usage t, ss_error := ss_error t, ss_stop_reason := ss_stop_reason t,
      ss_steering_pending := ss_steering_pending t, ss_steering_untracked := ss_steering_untracked t\<rparr>"

definition detail_snapshot :: "nat \<times> nat \<Rightarrow> string fset \<Rightarrow> session_snapshot \<Rightarrow> session_snapshot" where
  "detail_snapshot rg terminals t =
     (let r = metadata t;
          r = r\<lparr>ss_entries := take (snd rg - fst rg) (drop (fst rg) (ss_entries t))\<rparr>;
          r = (if snd rg \<noteq> length (ss_entries t) then r\<lparr>ss_permissions := []\<rparr> else r)
      in r\<lparr>ss_terminals := fmrestrict_fset terminals (ss_terminals t)\<rparr>)"

section \<open>Deltas\<close>

record gathered =
  ga_entries :: "(nat, nat option) fmap"
  ga_terminals :: "(string, nat option) fmap"
  ga_fields :: "string fset"

definition merge_offset :: "'k \<Rightarrow> nat option \<Rightarrow> ('k, nat option) fmap \<Rightarrow> ('k, nat option) fmap" where
  "merge_offset k offset m =
     fmupd k (case fmlookup m k of
         None \<Rightarrow> offset
       | Some previous \<Rightarrow> (case (previous, offset) of (Some a, Some b) \<Rightarrow> Some (min a b) | _ \<Rightarrow> None)) m"

type_synonym detail_selection = "((nat \<times> nat) \<times> string fset) option"

fun gather :: "detail_selection \<Rightarrow> change \<Rightarrow> gathered \<Rightarrow> gathered" where
  "gather sel (Change_Entry i start) g =
     (if (case sel of None \<Rightarrow> True | Some (rg, _) \<Rightarrow> fst rg \<le> i \<and> i < snd rg)
      then g\<lparr>ga_entries := merge_offset i start (ga_entries g)\<rparr> else g)"
| "gather sel (Change_Terminal ident start) g =
     (if (case sel of None \<Rightarrow> True | Some (_, terminals) \<Rightarrow> ident |\<in>| terminals)
      then g\<lparr>ga_terminals := merge_offset ident start (ga_terminals g)\<rparr> else g)"
| "gather sel (Change_Field f) g = g\<lparr>ga_fields := finsert f (ga_fields g)\<rparr>"

definition gather_all :: "detail_selection \<Rightarrow> change list \<Rightarrow> gathered" where
  "gather_all sel cs = fold (gather sel) cs \<lparr>ga_entries = fmempty, ga_terminals = fmempty, ga_fields = {||}\<rparr>"

definition changes_since :: "nat \<Rightarrow> session_snapshot \<Rightarrow> change list" where
  "changes_since revision t = concat (map snd (filter (\<lambda>h. revision < fst h) (cl_history (ss_changes t))))"

text \<open>\<open>v[key].as_str()?.get(start..)\<close>.\<close>

definition text_from :: "string \<Rightarrow> nat option \<Rightarrow> json \<Rightarrow> string option" where
  "text_from k start v =
     Option.bind start (\<lambda>a. Option.bind (str_at v k) (\<lambda>s. if a \<le> length s then str_get s a (length s) else None))"

definition entry_patch_of :: "session_snapshot \<Rightarrow> nat \<Rightarrow> nat \<times> nat option \<Rightarrow> entry_patch option" where
  "entry_patch_of t first change =
     (case change of (i, start) \<Rightarrow>
        if length (ss_entries t) \<le> i then None
        else (let e = ss_entries t ! i
              in Some (case text_from ''text'' start (te_content e) of
                     Some text \<Rightarrow> Append_Text (i - first) (te_id e) text
                   | None \<Rightarrow> Entry_Replace (i - first) e)))"

definition terminal_patch_of :: "session_snapshot \<Rightarrow> string \<times> nat option \<Rightarrow> terminal_patch option" where
  "terminal_patch_of t change =
     (case change of (ident, start) \<Rightarrow>
        map_option (\<lambda>v. case text_from ''output'' start v of
            Some text \<Rightarrow> Append_Output ident text | None \<Rightarrow> Terminal_Replace ident v) (fmlookup (ss_terminals t) ident))"

definition opt_json :: "string option \<Rightarrow> json" where
  "opt_json s = (case s of None \<Rightarrow> JNull | Some s \<Rightarrow> JString s)"

definition entry_json :: "thread_entry \<Rightarrow> json" where
  "entry_json e =
     json_obj ([(''id'', JString (te_id e)), (''kind'', JString (te_kind e)), (''content'', te_content e)] @
       (case te_message_id e of None \<Rightarrow> [] | Some s \<Rightarrow> [(''message_id'', JString s)]) @
       (case te_delivery e of None \<Rightarrow> []
        | Some d \<Rightarrow> [(''delivery'', json_obj [(''status'', JString (dv_status d)), (''error'', opt_json (dv_error d))])]))"

definition json_nat :: "nat \<Rightarrow> json" where
  "json_nat n = JNumber (Integer (int n))"

text \<open>The value of a field by its name; another name is \<open>unreachable!\<close>.\<close>

definition field_value :: "session_snapshot \<Rightarrow> string \<Rightarrow> json option" where
  "field_value t f =
     (if f = ''title'' then Some (JString (ss_title t))
      else if f = ''plan'' then Some (ss_plan t)
      else if f = ''modes'' then Some (ss_modes t)
      else if f = ''config_options'' then Some (ss_config_options t)
      else if f = ''config_options_supported'' then Some (JBool (ss_config_options_supported t))
      else if f = ''commands'' then Some (ss_commands t)
      else if f = ''usage'' then Some (ss_usage t)
      else if f = ''session_meta'' then Some (JObject (ss_session_meta t))
      else if f = ''session_meta_revisions'' then Some (JObject (fmmap json_nat (ss_session_meta_revisions t)))
      else if f = ''session_meta_revision'' then Some (json_nat (ss_session_meta_revision t))
      else if f = ''notices'' then Some (JArray (map entry_json (ss_notices t)))
      else None)"

text \<open>\<open>since_inner\<close>: the range and the terminals of a detail, or the whole conversation.\<close>

definition since_inner :: "detail_selection \<Rightarrow> string \<Rightarrow> nat \<Rightarrow> session_snapshot \<Rightarrow> session_updates option" where
  "since_inner sel generation revision t =
     (if generation \<noteq> ss_sync_generation t \<or> revision < cl_base_revision (ss_changes t) \<or> ss_revision t < revision
      then Some (Updates_Snapshot (case sel of Some (rg, terminals) \<Rightarrow> detail_snapshot rg terminals t | None \<Rightarrow> snapshot_clone t))
      else if revision = ss_revision t then Some Updates_Unchanged
      else (let g = gather_all sel (changes_since revision t);
                first = (case sel of None \<Rightarrow> 0 | Some (rg, _) \<Rightarrow> fst rg)
            in Option.bind (those (map (entry_patch_of t first) (btree_entries (ga_entries g)))) (\<lambda>entries.
               Option.bind (those (map (terminal_patch_of t) (btree_entries (ga_terminals g)))) (\<lambda>terminals.
               Option.bind (those (map (\<lambda>f. map_option (Pair f) (field_value t f)) (sorted_list_of_fset (ga_fields g)))) (\<lambda>fields.
               Some (Updates_Delta \<lparr>sd_thread_id = ss_thread_id t, sd_sync_generation = ss_sync_generation t,
                 sd_from_revision = revision, sd_revision = ss_revision t, sd_updated_at = ss_updated_at t,
                 sd_entries = entries, sd_terminals = terminals, sd_fields = fmap_of_list fields\<rparr>))))))"

definition since :: "string \<Rightarrow> nat \<Rightarrow> session_snapshot \<Rightarrow> session_updates option" where
  "since = since_inner None"

definition since_selection :: "string \<Rightarrow> nat \<Rightarrow> nat \<times> nat \<Rightarrow> string fset \<Rightarrow> session_snapshot \<Rightarrow> session_updates option" where
  "since_selection generation revision rg terminals = since_inner (Some (rg, terminals)) generation revision"

end
