(* ===== verification/Acp_Sync.thy ===== *)
theory Acp_Sync
  imports Acp_Updates
begin

text \<open>
  Synchronization of a conversation: what a browser makes of the deltas (the specification, after
  \<open>applySessionUpdates\<close> of \<open>frontend/src/features/acp/session_updates.ts\<close>), the contract of an append cursor
  as a locale, and the proof that every change of the model is in the log.
\<close>

section \<open>The browser\<close>

text \<open>A conversation as it is sent: the parts a delta carries, and everything else.\<close>

record client_view =
  cv_revision :: nat
  cv_updated_at :: string
  cv_entries :: "thread_entry list"
  cv_terminals :: json_object
  cv_fields :: json_object
  cv_rest :: session_snapshot

definition FIELDS :: "string list" where
  "FIELDS = [''title'', ''plan'', ''modes'', ''config_options'', ''config_options_supported'', ''commands'', ''usage'',
     ''session_meta'', ''session_meta_revisions'', ''session_meta_revision'', ''notices'']"

text \<open>Blank what a delta carries and what is not serialized.\<close>

definition untracked :: "session_snapshot \<Rightarrow> session_snapshot" where
  "untracked t = t\<lparr>ss_revision := 0, ss_updated_at := [], ss_entries := [], ss_terminals := fmempty, ss_title := [],
     ss_plan := JNull, ss_modes := JNull, ss_config_options := JNull, ss_config_options_supported := False,
     ss_commands := JNull, ss_usage := JNull, ss_session_meta := fmempty, ss_session_meta_revisions := fmempty,
     ss_session_meta_revision := 0, ss_notices := [], ss_session_meta_suppressed := False, ss_last_prompt_usage := None,
     ss_pending_user_echo := [], ss_steering := steering_default, ss_pending_user_images := [], ss_active_prompt := None,
     ss_changes := change_log_default, ss_overview_cache := overview_cache_default\<rparr>"

definition wire :: "session_snapshot \<Rightarrow> client_view" where
  "wire t = \<lparr>cv_revision = ss_revision t, cv_updated_at = ss_updated_at t, cv_entries = ss_entries t,
     cv_terminals = ss_terminals t, cv_fields = fmap_of_list (map (\<lambda>f. (f, the (field_value t f))) FIELDS), cv_rest = untracked t\<rparr>"

fun apply_entry_patches :: "entry_patch list \<Rightarrow> thread_entry list \<Rightarrow> thread_entry list option" where
  "apply_entry_patches [] es = Some es"
| "apply_entry_patches (Entry_Replace i e # ps) es =
     (if length es < i then None else apply_entry_patches ps (if i = length es then es @ [e] else es[i := e]))"
| "apply_entry_patches (Append_Text i ident text # ps) es =
     (if i < length es \<and> te_id (es ! i) = ident
      then Option.bind (str_at (te_content (es ! i)) ''text'') (\<lambda>old.
           Option.bind (json_set ''text'' (JString (old @ text)) (te_content (es ! i))) (\<lambda>v.
           apply_entry_patches ps (es[i := (es ! i)\<lparr>te_content := v\<rparr>])))
      else None)"

fun apply_terminal_patches :: "terminal_patch list \<Rightarrow> json_object \<Rightarrow> json_object option" where
  "apply_terminal_patches [] ts = Some ts"
| "apply_terminal_patches (Terminal_Replace ident v # ps) ts = apply_terminal_patches ps (fmupd ident v ts)"
| "apply_terminal_patches (Append_Output ident text # ps) ts =
     Option.bind (fmlookup ts ident) (\<lambda>v.
     Option.bind (str_at v ''output'') (\<lambda>old.
     Option.bind (json_set ''output'' (JString (old @ text)) v) (\<lambda>v.
     apply_terminal_patches ps (fmupd ident v ts))))"

text \<open>\<open>None\<close> asks for a full resynchronization. A view of the whole conversation takes no overview.\<close>

definition apply_updates :: "client_view option \<Rightarrow> session_updates \<Rightarrow> client_view option" where
  "apply_updates previous update =
     (case update of
        Updates_Snapshot s \<Rightarrow> Some (wire s)
      | Updates_Unchanged \<Rightarrow> previous
      | Updates_Overview _ _ _ \<Rightarrow> None
      | Updates_Delta d \<Rightarrow>
          (case previous of
             None \<Rightarrow> None
           | Some p \<Rightarrow>
               if ss_thread_id (cv_rest p) \<noteq> sd_thread_id d \<or> ss_sync_generation (cv_rest p) \<noteq> sd_sync_generation d then None
               else if sd_revision d \<le> cv_revision p then Some p
               else if cv_revision p \<noteq> sd_from_revision d then None
               else Option.bind (apply_entry_patches (sd_entries d) (cv_entries p)) (\<lambda>es.
                    Option.bind (apply_terminal_patches (sd_terminals d) (cv_terminals p)) (\<lambda>ts.
                    Some (p\<lparr>cv_revision := sd_revision d, cv_updated_at := sd_updated_at d, cv_entries := es,
                           cv_terminals := ts, cv_fields := cv_fields p ++\<^sub>f sd_fields d\<rparr>)))))"

section \<open>Append cursors\<close>

text \<open>
  A store of values that are replaced or extended. The merged offset of a key tells how its value has
  changed since: not at all, by replacement, or by an extension from the offset on.
\<close>

locale value_cursor =
  fixes extends :: "nat \<Rightarrow> 'v \<Rightarrow> 'v \<Rightarrow> bool"
  assumes extends_trans: "extends a u v \<Longrightarrow> extends b v w \<Longrightarrow> extends (min a b) u w"
begin

definition tracked :: "('k \<Rightarrow> 'v option) \<Rightarrow> ('k, nat option) fmap \<Rightarrow> ('k \<Rightarrow> 'v option) \<Rightarrow> bool" where
  "tracked f0 m f \<longleftrightarrow> (\<forall>k. case fmlookup m k of
     None \<Rightarrow> f k = f0 k
   | Some None \<Rightarrow> f k \<noteq> None
   | Some (Some a) \<Rightarrow> (\<exists>u v. f0 k = Some u \<and> f k = Some v \<and> extends a u v))"

lemma tracked_refl [simp]: "tracked f fmempty f"
  by (simp add: tracked_def)

lemma tracked_step:
  assumes "tracked f0 m f" "\<And>j. j \<noteq> k \<Longrightarrow> f' j = f j" "f' k \<noteq> None"
    and "\<And>a. offset = Some a \<Longrightarrow> \<exists>u v. f k = Some u \<and> f' k = Some v \<and> extends a u v"
  shows "tracked f0 (merge_offset k offset m) f'"
  unfolding tracked_def
proof
  fix j
  from assms(1) have t: "case fmlookup m j of None \<Rightarrow> f j = f0 j | Some None \<Rightarrow> f j \<noteq> None
      | Some (Some a) \<Rightarrow> (\<exists>u v. f0 j = Some u \<and> f j = Some v \<and> extends a u v)"
    by (simp add: tracked_def)
  show "case fmlookup (merge_offset k offset m) j of None \<Rightarrow> f' j = f0 j | Some None \<Rightarrow> f' j \<noteq> None
      | Some (Some a) \<Rightarrow> (\<exists>u v. f0 j = Some u \<and> f' j = Some v \<and> extends a u v)"
  proof (cases "j = k")
    case False
    then have "fmlookup (merge_offset k offset m) j = fmlookup m j" by (simp add: merge_offset_def)
    with t show ?thesis by (simp only: assms(2) [OF False])
  next
    case True
    show ?thesis
    proof (cases offset)
      case None
      with True assms(3) show ?thesis by (auto simp: merge_offset_def split: option.splits)
    next
      case (Some a)
      with assms(4) obtain u v where uv: "f k = Some u" "f' k = Some v" "extends a u v" by blast
      show ?thesis
      proof (cases "fmlookup m k")
        case None
        then have "f0 k = Some u" using t True uv(1) by simp
        with None uv(2,3) True Some show ?thesis by (simp add: merge_offset_def)
      next
        case (Some b)
        with uv True \<open>offset = Some a\<close> t show ?thesis
          by (auto simp: merge_offset_def split: option.splits intro: extends_trans)
      qed
    qed
  qed
qed

lemma tracked_None: "tracked f0 m f \<Longrightarrow> fmlookup m k = None \<Longrightarrow> f k = f0 k"
  unfolding tracked_def by (drule spec [of _ k]) auto

lemma tracked_Some: "tracked f0 m f \<Longrightarrow> fmlookup m k = Some a \<Longrightarrow> f k \<noteq> None"
  unfolding tracked_def by (drule spec [of _ k]) (auto split: option.splits)

lemma tracked_extends:
  "tracked f0 m f \<Longrightarrow> fmlookup m k = Some (Some a) \<Longrightarrow> \<exists>u v. f0 k = Some u \<and> f k = Some v \<and> extends a u v"
  unfolding tracked_def by (drule spec [of _ k]) auto

end

text \<open>The text of a key of an object grows from an offset on; an entry only in its content.\<close>

definition json_extends :: "string \<Rightarrow> nat \<Rightarrow> json \<Rightarrow> json \<Rightarrow> bool" where
  "json_extends k a v w \<longleftrightarrow>
     (\<exists>m x y. v = JObject m \<and> fmlookup m k = Some (JString x) \<and> length x = a \<and> w = JObject (fmupd k (JString (x @ y)) m))"

definition entry_extends :: "nat \<Rightarrow> thread_entry \<Rightarrow> thread_entry \<Rightarrow> bool" where
  "entry_extends a e e' \<longleftrightarrow> json_extends ''text'' a (te_content e) (te_content e') \<and> e' = e\<lparr>te_content := te_content e'\<rparr>"

lemma json_extends_trans: "json_extends k a u v \<Longrightarrow> json_extends k b v w \<Longrightarrow> json_extends k (min a b) u w"
  by (fastforce simp: json_extends_def fmupd_idem)

interpretation outputs: value_cursor "json_extends k"
  by unfold_locales (rule json_extends_trans)

lemma entry_extends_trans: "entry_extends a u v \<Longrightarrow> entry_extends b v w \<Longrightarrow> entry_extends (min a b) u w"
  by (cases u; cases v; cases w) (auto simp: entry_extends_def intro: json_extends_trans)

interpretation texts: value_cursor entry_extends
  by unfold_locales (rule entry_extends_trans)

section \<open>Patches of tracked values\<close>

lemma those_map_Some: "(\<And>x. x \<in> set xs \<Longrightarrow> f x = Some (g x)) \<Longrightarrow> those (map f xs) = Some (map g xs)"
  by (induction xs) auto

definition nth_opt :: "'a list \<Rightarrow> nat \<Rightarrow> 'a option" where
  "nth_opt xs i = (if i < length xs then Some (xs ! i) else None)"

lemma nth_opt_inject: "(\<And>i. nth_opt xs i = nth_opt ys i) \<Longrightarrow> xs = ys"
proof -
  assume a: "\<And>i. nth_opt xs i = nth_opt ys i"
  have "i < length xs \<longleftrightarrow> i < length ys" for i using a [of i] by (auto simp: nth_opt_def split: if_splits)
  then have "length xs = length ys" by (metis linorder_neqE_nat order.irrefl)
  moreover have "xs ! i = ys ! i" if "i < length xs" for i using a [of i] that calculation by (simp add: nth_opt_def)
  ultimately show ?thesis by (auto intro: nth_equalityI)
qed

definition set_or_push :: "nat \<Rightarrow> 'a \<Rightarrow> 'a list \<Rightarrow> 'a list" where
  "set_or_push i e xs = (if i = length xs then xs @ [e] else xs[i := e])"

lemma nth_opt_set_or_push: "i \<le> length xs \<Longrightarrow> nth_opt (set_or_push i e xs) j = (if j = i then Some e else nth_opt xs j)"
  by (auto simp: nth_opt_def set_or_push_def nth_append nth_list_update)

text \<open>The patch made for an entry turns what the browser has into the current entry.\<close>

definition entry_patch :: "thread_entry list \<Rightarrow> nat \<times> nat option \<Rightarrow> entry_patch" where
  "entry_patch es c = (case text_from ''text'' (snd c) (te_content (es ! fst c)) of
     Some text \<Rightarrow> Append_Text (fst c) (te_id (es ! fst c)) text | None \<Rightarrow> Entry_Replace (fst c) (es ! fst c))"

lemma entry_patch_of_whole: "fst c < length (ss_entries t) \<Longrightarrow> entry_patch_of t 0 c = Some (entry_patch (ss_entries t) c)"
  by (cases c) (simp add: entry_patch_of_def entry_patch_def Let_def split: option.split)

lemma text_from_extends:
  assumes "text_from k start v = Some piece"
  obtains a s where "start = Some a" "v = JObject s" "\<exists>x. fmlookup s k = Some (JString x) \<and> a \<le> length x \<and> piece = drop a x"
proof -
  from assms obtain a x where a: "start = Some a" "str_at v k = Some x" "a \<le> length x" "str_get x a (length x) = Some piece"
    by (auto simp: text_from_def bind_eq_Some_conv split: if_splits)
  then have "piece = drop a x" by (auto simp: str_get_Some)
  with a idx_JString_object [of v k x] that show thesis by (auto simp: str_at_Some)
qed

lemma apply_entry_patch:
  assumes i: "i < length es" "i \<le> length cur"
    and start: "\<And>a. start = Some a \<Longrightarrow> \<exists>u. nth_opt cur i = Some u \<and> entry_extends a u (es ! i)"
  shows "apply_entry_patches (entry_patch es (i, start) # ps) cur = apply_entry_patches ps (set_or_push i (es ! i) cur)"
proof (cases "text_from ''text'' start (te_content (es ! i))")
  case None
  with i show ?thesis by (simp add: entry_patch_def set_or_push_def)
next
  case (Some piece)
  then obtain a m x where a: "start = Some a" "te_content (es ! i) = JObject m" "fmlookup m ''text'' = Some (JString x)" "piece = drop a x"
    by (auto elim!: text_from_extends)
  with start obtain u where u: "nth_opt cur i = Some u" "entry_extends a u (es ! i)" by blast
  then have c: "i < length cur" "cur ! i = u" by (auto simp: nth_opt_def split: if_splits)
  from u(2) obtain m0 x0 y where m0: "te_content u = JObject m0" "fmlookup m0 ''text'' = Some (JString x0)" "length x0 = a"
    "te_content (es ! i) = JObject (fmupd ''text'' (JString (x0 @ y)) m0)" "es ! i = u\<lparr>te_content := te_content (es ! i)\<rparr>"
    unfolding entry_extends_def json_extends_def by blast
  then have "x = x0 @ y" "piece = y" using a by auto
  moreover have "te_id (es ! i) = te_id u" by (subst m0(5)) simp
  moreover have "es ! i = u\<lparr>te_content := JObject (fmupd ''text'' (JString (x0 @ y)) m0)\<rparr>" using m0(4,5) by simp
  ultimately show ?thesis using Some c m0(1,2) by (simp add: entry_patch_def set_or_push_def str_at_def idx_def)
qed

lemma apply_entry_patches_tracked:
  assumes "sorted_wrt (<) (map fst cs)" "\<And>c. c \<in> set cs \<Longrightarrow> fst c < length es"
    and "\<And>i. i \<notin> fst ` set cs \<Longrightarrow> nth_opt cur i = nth_opt es i"
    and "\<And>i a. (i, Some a) \<in> set cs \<Longrightarrow> \<exists>u. nth_opt cur i = Some u \<and> entry_extends a u (es ! i)"
  shows "apply_entry_patches (map (entry_patch es) cs) cur = Some es"
  using assms
proof (induction cs arbitrary: cur)
  case Nil
  then show ?case by (auto intro: nth_opt_inject)
next
  case (Cons c cs)
  obtain i start where c: "c = (i, start)" by (cases c)
  have i: "i < length es" using Cons.prems(2) [of c] c by simp
  have lt: "\<And>j. j \<in> fst ` set cs \<Longrightarrow> i < j" using Cons.prems(1) c by auto
  have le: "i \<le> length cur"
  proof (rule ccontr)
    assume "\<not> i \<le> length cur"
    then have "length cur \<notin> fst ` set (c # cs)" using lt [of "length cur"] c by auto
    from Cons.prems(3) [OF this] \<open>\<not> i \<le> length cur\<close> i show False by (simp add: nth_opt_def split: if_splits)
  qed
  let ?cur = "set_or_push i (es ! i) cur"
  have "apply_entry_patches (map (entry_patch es) (c # cs)) cur = apply_entry_patches (map (entry_patch es) cs) ?cur"
    using apply_entry_patch [OF i le, of start] Cons.prems(4) [of i] c by simp
  also have "\<dots> = Some es"
  proof (rule Cons.IH)
    show "sorted_wrt (<) (map fst cs)" using Cons.prems(1) by simp
    show "\<And>c. c \<in> set cs \<Longrightarrow> fst c < length es" using Cons.prems(2) by simp
    show "nth_opt ?cur j = nth_opt es j" if "j \<notin> fst ` set cs" for j
      using that Cons.prems(3) [of j] c le i by (auto simp: nth_opt_set_or_push) (simp add: nth_opt_def)
    show "\<exists>u. nth_opt ?cur j = Some u \<and> entry_extends a u (es ! j)" if "(j, Some a) \<in> set cs" for j a
      using that Cons.prems(4) [of j a] lt [of j] le by (force simp: nth_opt_set_or_push)
  qed
  finally show ?case .
qed

definition terminal_patch :: "json_object \<Rightarrow> string \<times> nat option \<Rightarrow> terminal_patch" where
  "terminal_patch ts c = (case text_from ''output'' (snd c) (the (fmlookup ts (fst c))) of
     Some piece \<Rightarrow> Append_Output (fst c) piece | None \<Rightarrow> Terminal_Replace (fst c) (the (fmlookup ts (fst c))))"

lemma terminal_patch_of_whole:
  "fmlookup (ss_terminals t) (fst c) \<noteq> None \<Longrightarrow> terminal_patch_of t c = Some (terminal_patch (ss_terminals t) c)"
  by (cases c) (auto simp: terminal_patch_of_def terminal_patch_def split: option.split)

lemma apply_terminal_patch:
  assumes "fmlookup ts k = Some v"
    and start: "\<And>a. start = Some a \<Longrightarrow> \<exists>u. fmlookup cur k = Some u \<and> json_extends ''output'' a u v"
  shows "apply_terminal_patches (terminal_patch ts (k, start) # ps) cur = apply_terminal_patches ps (fmupd k v cur)"
proof (cases "text_from ''output'' start v")
  case None
  with assms(1) show ?thesis by (simp add: terminal_patch_def)
next
  case (Some piece)
  then obtain a m x where a: "start = Some a" "v = JObject m" "fmlookup m ''output'' = Some (JString x)" "piece = drop a x"
    by (auto elim!: text_from_extends)
  with start obtain u where u: "fmlookup cur k = Some u" "json_extends ''output'' a u v" by blast
  then obtain m0 x0 y where m0: "u = JObject m0" "fmlookup m0 ''output'' = Some (JString x0)" "length x0 = a"
    "v = JObject (fmupd ''output'' (JString (x0 @ y)) m0)" unfolding json_extends_def by blast
  then have "piece = y" using a by auto
  with Some assms(1) u(1) m0 show ?thesis by (simp add: terminal_patch_def str_at_def idx_def)
qed

lemma apply_terminal_patches_tracked:
  assumes "distinct (map fst cs)" "\<And>c. c \<in> set cs \<Longrightarrow> fmlookup ts (fst c) \<noteq> None"
    and "\<And>k. k \<notin> fst ` set cs \<Longrightarrow> fmlookup cur k = fmlookup ts k"
    and "\<And>k a. (k, Some a) \<in> set cs \<Longrightarrow> \<exists>u v. fmlookup cur k = Some u \<and> fmlookup ts k = Some v \<and> json_extends ''output'' a u v"
  shows "apply_terminal_patches (map (terminal_patch ts) cs) cur = Some ts"
  using assms
proof (induction cs arbitrary: cur)
  case Nil
  then show ?case by (auto intro: fmap_ext)
next
  case (Cons c cs)
  obtain k start where c: "c = (k, start)" by (cases c)
  obtain v where v: "fmlookup ts k = Some v" using Cons.prems(2) [of c] c by auto
  have k: "k \<notin> fst ` set cs" using Cons.prems(1) c by auto
  have "apply_terminal_patches (map (terminal_patch ts) (c # cs)) cur = apply_terminal_patches (map (terminal_patch ts) cs) (fmupd k v cur)"
    using apply_terminal_patch [OF v, of start cur] Cons.prems(4) [of k] c v by auto
  also have "\<dots> = Some ts"
  proof (rule Cons.IH)
    show "distinct (map fst cs)" using Cons.prems(1) by simp
    show "\<And>c. c \<in> set cs \<Longrightarrow> fmlookup ts (fst c) \<noteq> None" using Cons.prems(2) by simp
    show "fmlookup (fmupd k v cur) j = fmlookup ts j" if "j \<notin> fst ` set cs" for j
      using that Cons.prems(3) [of j] c v by auto
    show "\<exists>u w. fmlookup (fmupd k v cur) j = Some u \<and> fmlookup ts j = Some w \<and> json_extends ''output'' a u w"
      if "(j, Some a) \<in> set cs" for j a
      using that Cons.prems(4) [of j a] k by (force simp: image_iff)
  qed
  finally show ?case .
qed

section \<open>Changes are logged\<close>

text \<open>The changes account for the difference of two models of a conversation; no entry leaves it or becomes another.\<close>

definition heads :: "session_snapshot \<Rightarrow> (string \<times> string) list" where
  "heads t = map (\<lambda>e. (te_id e, te_kind e)) (ss_entries t)"

definition covers :: "session_snapshot \<Rightarrow> change list \<Rightarrow> session_snapshot \<Rightarrow> bool" where
  "covers t0 cs t \<longleftrightarrow>
     (let g = gather_all None cs in
      texts.tracked (nth_opt (ss_entries t0)) (ga_entries g) (nth_opt (ss_entries t)) \<and>
      outputs.tracked ''output'' (fmlookup (ss_terminals t0)) (ga_terminals g) (fmlookup (ss_terminals t)) \<and>
      fset (ga_fields g) \<subseteq> set FIELDS \<and>
      (\<forall>f\<in>set FIELDS. f |\<notin>| ga_fields g \<longrightarrow> field_value t f = field_value t0 f) \<and>
      untracked t = untracked t0 \<and> prefix (heads t0) (heads t))"

lemma gather_all_append [simp]: "gather_all sel (cs @ [c]) = gather sel c (gather_all sel cs)"
  by (simp add: gather_all_def)

lemma covers_refl: "covers t [] t"
  by (simp add: covers_def gather_all_def)

definition pending :: "session_snapshot \<Rightarrow> change list" where
  "pending t = cl_pending (ss_changes t)"

text \<open>A step of the model that logs what it changes and leaves the committed log alone.\<close>

definition logged :: "session_snapshot \<Rightarrow> session_snapshot \<Rightarrow> bool" where
  "logged t t' \<longleftrightarrow> (\<forall>t0 cs. covers t0 (cs @ pending t) t \<longrightarrow> covers t0 (cs @ pending t') t') \<and>
     cl_history (ss_changes t') = cl_history (ss_changes t) \<and> cl_base_revision (ss_changes t') = cl_base_revision (ss_changes t) \<and>
     ss_revision t' = ss_revision t \<and> ss_updated_at t' = ss_updated_at t \<and> untracked t' = untracked t"

lemma logged_refl [simp]: "logged t t"
  by (simp add: logged_def)

lemma logged_trans: "logged t u \<Longrightarrow> logged u v \<Longrightarrow> logged t v"
  by (simp add: logged_def)

lemma pending_push_change [simp]: "pending (push_change c t) = pending t @ [c]"
  by (simp add: pending_def push_change_def)

lemma push_change_simps [simp]:
  "ss_entries (push_change c t) = ss_entries t" "ss_terminals (push_change c t) = ss_terminals t"
  "field_value (push_change c t) f = field_value t f" "untracked (push_change c t) = untracked t"
  "cl_history (ss_changes (push_change c t)) = cl_history (ss_changes t)"
  "cl_base_revision (ss_changes (push_change c t)) = cl_base_revision (ss_changes t)"
  "ss_revision (push_change c t) = ss_revision t" "ss_updated_at (push_change c t) = ss_updated_at t"
  "ss_status (push_change c t) = ss_status t" "heads (push_change c t) = heads t"
  by (simp_all add: push_change_def field_value_def untracked_def heads_def)

text \<open>What a modification of the model leaves alone.\<close>

definition same_log :: "session_snapshot \<Rightarrow> session_snapshot \<Rightarrow> bool" where
  "same_log t u \<longleftrightarrow> ss_changes u = ss_changes t \<and> untracked u = untracked t \<and> ss_revision u = ss_revision t \<and> ss_updated_at u = ss_updated_at t"

definition same_fields :: "session_snapshot \<Rightarrow> session_snapshot \<Rightarrow> bool" where
  "same_fields t u \<longleftrightarrow> (\<forall>f\<in>set FIELDS. field_value u f = field_value t f)"

lemma covers_push_change [simp]: "covers t0 cs (push_change c u) \<longleftrightarrow> covers t0 cs u"
  by (simp add: covers_def)

lemma logged_push:
  assumes "same_log t u" "\<And>t0 cs. covers t0 cs t \<Longrightarrow> covers t0 (cs @ [c]) u"
  shows "logged t (push_change c u)"
proof -
  have p: "pending u = pending t" using assms(1) by (simp add: same_log_def pending_def)
  have "covers t0 (cs @ pending (push_change c u)) (push_change c u)" if "covers t0 (cs @ pending t) t" for t0 cs
    using assms(2) [OF that] by (simp add: p)
  then show ?thesis using assms(1) by (simp add: logged_def same_log_def)
qed

lemma logged_entry:
  assumes "same_log t u" "same_fields t u" "ss_terminals u = ss_terminals t" "i < length (ss_entries u)"
    and "\<And>j. j \<noteq> i \<Longrightarrow> nth_opt (ss_entries u) j = nth_opt (ss_entries t) j"
    and "\<And>a. start = Some a \<Longrightarrow> i < length (ss_entries t) \<and> entry_extends a (ss_entries t ! i) (ss_entries u ! i)"
    and "prefix (heads t) (heads u)"
  shows "logged t (push_change (Change_Entry i start) u)"
proof (rule logged_push [OF assms(1)])
  fix t0 cs assume c: "covers t0 cs t"
  have "texts.tracked f0 (merge_offset i start m) (nth_opt (ss_entries u))" if "texts.tracked f0 m (nth_opt (ss_entries t))" for f0 m
    using that by (rule texts.tracked_step) (use assms(4-6) in \<open>auto simp: nth_opt_def\<close>)
  then show "covers t0 (cs @ [Change_Entry i start]) u"
    using c assms(1-3,7) by (auto simp: covers_def Let_def same_log_def same_fields_def intro: prefix_order.trans)
qed

lemma logged_terminal:
  assumes "same_log t u" "same_fields t u" "ss_entries u = ss_entries t" "fmlookup (ss_terminals u) k \<noteq> None"
    and "\<And>j. j \<noteq> k \<Longrightarrow> fmlookup (ss_terminals u) j = fmlookup (ss_terminals t) j"
    and "\<And>a. start = Some a \<Longrightarrow> \<exists>v w. fmlookup (ss_terminals t) k = Some v \<and> fmlookup (ss_terminals u) k = Some w \<and> json_extends ''output'' a v w"
  shows "logged t (push_change (Change_Terminal k start) u)"
proof (rule logged_push [OF assms(1)])
  fix t0 cs assume c: "covers t0 cs t"
  have "outputs.tracked ''output'' f0 (merge_offset k start m) (fmlookup (ss_terminals u))"
    if "outputs.tracked ''output'' f0 m (fmlookup (ss_terminals t))" for f0 m
    using that by (rule outputs.tracked_step) (use assms(4-6) in auto)
  then show "covers t0 (cs @ [Change_Terminal k start]) u"
    using c assms(1-3) by (simp add: covers_def Let_def same_log_def same_fields_def heads_def)
qed

text \<open>A change of fields: they may be changed first and logged afterwards.\<close>

lemma gather_fields:
  "gather_all None (cs @ map Change_Field fs) =
     (gather_all None cs)\<lparr>ga_fields := fset_of_list fs |\<union>| ga_fields (gather_all None cs)\<rparr>"
proof (induction fs rule: rev_induct)
  case (snoc f fs)
  then show ?case by (simp flip: append_assoc)
qed simp

lemma push_fields_simps [simp]:
  "pending (push_fields fs u) = pending u @ map Change_Field fs" "ss_entries (push_fields fs u) = ss_entries u"
  "ss_terminals (push_fields fs u) = ss_terminals u" "field_value (push_fields fs u) f = field_value u f"
  "untracked (push_fields fs u) = untracked u" "heads (push_fields fs u) = heads u" "cl_history (ss_changes (push_fields fs u)) = cl_history (ss_changes u)"
  "cl_base_revision (ss_changes (push_fields fs u)) = cl_base_revision (ss_changes u)"
  "ss_revision (push_fields fs u) = ss_revision u" "ss_updated_at (push_fields fs u) = ss_updated_at u"
  by (induction fs arbitrary: u) (simp_all add: push_fields_def)

lemma logged_fields:
  assumes "same_log t u" "ss_entries u = ss_entries t" "ss_terminals u = ss_terminals t" "set fs \<subseteq> set FIELDS"
    and "\<And>f. f \<in> set FIELDS \<Longrightarrow> f \<notin> set fs \<Longrightarrow> field_value u f = field_value t f"
  shows "logged t (push_fields fs u)"
proof -
  have p: "pending u = pending t" using assms(1) by (simp add: same_log_def pending_def)
  have "covers t0 (cs @ pending (push_fields fs u)) (push_fields fs u)" if "covers t0 (cs @ pending t) t" for t0 cs
  proof -
    have "covers t0 ((cs @ pending t) @ map Change_Field fs) u"
      using that assms unfolding covers_def gather_fields by (auto simp: Let_def same_log_def fset_of_list.rep_eq heads_def)
    then show ?thesis by (simp add: p covers_def)
  qed
  then show ?thesis using assms(1) by (simp add: logged_def same_log_def)
qed

lemma logged_hidden:
  assumes "same_log t u" "same_fields t u" "ss_entries u = ss_entries t" "ss_terminals u = ss_terminals t"
  shows "logged t u"
  using assms by (auto simp: logged_def covers_def Let_def same_log_def same_fields_def pending_def heads_def)

section \<open>Every session update is logged\<close>

lemma same_log_simps [simp]:
  "same_log t (t\<lparr>ss_entries := es\<rparr>)" "same_log t (t\<lparr>ss_terminals := ts\<rparr>)" "same_log t (t\<lparr>ss_steering := sg\<rparr>)"
  "same_log t (t\<lparr>ss_pending_user_images := is\<rparr>)" "same_log t (t\<lparr>ss_pending_user_echo := s\<rparr>)" "same_log t t"
  by (simp_all add: same_log_def untracked_def)

lemma same_fields_simps [simp]:
  "same_fields t (t\<lparr>ss_entries := es\<rparr>)" "same_fields t (t\<lparr>ss_terminals := ts\<rparr>)" "same_fields t (t\<lparr>ss_steering := sg\<rparr>)"
  "same_fields t (t\<lparr>ss_pending_user_images := is\<rparr>)" "same_fields t (t\<lparr>ss_pending_user_echo := s\<rparr>)" "same_fields t t"
  by (simp_all add: same_fields_def field_value_def)

lemma logged_push_entry: "logged t (push_entry e t)"
  unfolding push_entry_def by (rule logged_entry) (auto simp: nth_opt_def nth_append heads_def)

lemma logged_set_content:
  assumes "i < length (ss_entries t)"
  shows "logged t (push_change (Change_Entry i None) (set_content i v t))"
proof -
  have "(map (\<lambda>e. (te_id e, te_kind e)) (ss_entries t))[i := (te_id (ss_entries t ! i), te_kind (ss_entries t ! i))] =
      map (\<lambda>e. (te_id e, te_kind e)) (ss_entries t)"
    by (metis (no_types, lifting) list_update_id map_update)
  then show ?thesis
    unfolding set_content_def using assms by (intro logged_entry) (auto simp: nth_opt_def heads_def map_update)
qed

lemma logged_set_terminal_None: "logged t (push_change (Change_Terminal k None) (set_terminal k v t))"
  unfolding set_terminal_def by (rule logged_terminal) auto

lemma logged_terminal_output: "logged t (terminal_output update t)"
proof -
  have "json_extends ''output'' a v (append_output_text piece v)" if "map_option length (str_at v ''output'') = Some a" for a v piece
    using that by (auto simp: str_at_def idx_def json_get_def json_extends_def append_output_text_def split: option.splits json.splits)
  then have e: "\<exists>v w. fmlookup (ss_terminals t) k = Some v \<and> append_output_text piece (terminal_of k t) = w \<and> json_extends ''output'' a v w"
    if "Option.bind (fmlookup (ss_terminals t) k) (\<lambda>v. map_option length (str_at v ''output'')) = Some a" for k a piece
    using that by (auto simp: bind_eq_Some_conv terminal_of_def)
  show ?thesis
    unfolding terminal_output_def Let_def set_terminal_def
    by (auto split: option.split intro!: logged_terminal dest: e)
qed

lemma logged_apply_legacy_update: "apply_legacy_update update t = Some t' \<Longrightarrow> logged t t'"
  by (auto simp: apply_legacy_update_def terminal_info_def terminal_exit_def Let_def bind_eq_Some_conv
    split: option.splits if_splits
    intro: logged_set_terminal_None logged_terminal_output logged_trans [OF logged_terminal_output logged_set_terminal_None])

lemma logged_consume_user_content: "consume_user_content content t = Some t' \<Longrightarrow> logged t t'"
  by (rule logged_hidden) (auto simp: consume_user_content_def consume_echo_def Let_def split: option.splits if_splits)

lemma nth_opt_butlast: "es \<noteq> [] \<Longrightarrow> j \<noteq> length es - 1 \<Longrightarrow> nth_opt (butlast es @ [e]) j = nth_opt es j"
  by (auto simp: nth_opt_def nth_append nth_butlast)

lemma nth_butlast_snoc: "es \<noteq> [] \<Longrightarrow> (butlast es @ [e]) ! (length es - Suc 0) = e"
  by (simp add: nth_append)

lemma logged_add_chunk:
  assumes "add_chunk uuid role message_id content t = Some t'"
  shows "logged t t'"
proof -
  let ?es = "ss_entries t" and ?e = "last (ss_entries t)"
  show ?thesis
  proof (cases "?es \<noteq> [] \<and> te_kind ?e = role \<and> can_merge_message_chunks (te_message_id ?e) message_id \<and>
      text_is (idx content ''type'') ''text'' \<and> text_is (idx (te_content ?e) ''type'') ''text''")
    case False
    with assms show ?thesis by (auto simp: add_chunk_def Let_def logged_push_entry)
  next
    case True
    let ?start = "if te_message_id ?e = None \<and> message_id \<noteq> None then None else map_option length (str_at (te_content ?e) ''text'')"
    let ?id = "if te_message_id ?e = None then message_id else te_message_id ?e"
    from True assms obtain v where v: "json_set ''text'' (JString (text_or_empty (te_content ?e) @ text_or_empty content)) (te_content ?e) = Some v"
      and t': "t' = push_change (Change_Entry (length ?es - 1) ?start)
        (t\<lparr>ss_entries := butlast ?es @ [?e\<lparr>te_message_id := ?id, te_content := v\<rparr>]\<rparr>)"
      by (auto simp: add_chunk_def Let_def bind_eq_Some_conv)
    have "entry_extends a ?e (?e\<lparr>te_message_id := ?id, te_content := v\<rparr>)" if "?start = Some a" for a
    proof -
      from that have m: "?id = te_message_id ?e" and "\<exists>s. str_at (te_content ?e) ''text'' = Some s \<and> a = length s"
        by (auto split: if_splits)
      then obtain s om where s: "te_content ?e = JObject om" "fmlookup om ''text'' = Some (JString s)" "a = length s"
        using idx_JString_object by (fastforce simp: str_at_Some)
      then have "json_extends ''text'' a (te_content ?e) v"
        using v by (auto simp: json_extends_def text_or_empty_def str_at_def idx_def)
      then show ?thesis by (simp add: entry_extends_def m)
    qed
    moreover have "map (\<lambda>e. (te_id e, te_kind e)) (butlast ?es) @ [(te_id ?e, te_kind ?e)] = map (\<lambda>e. (te_id e, te_kind e)) ?es"
      using True by (cases ?es rule: rev_cases) simp_all
    ultimately show ?thesis using True
      unfolding t' by (intro logged_entry) (auto simp: nth_opt_butlast nth_butlast_snoc last_conv_nth heads_def)
  qed
qed

lemma logged_message_chunk: "message_chunk codec uuid role update t = Some t' \<Longrightarrow> logged t t'"
  by (auto simp: message_chunk_def Let_def split: option.splits if_splits
    intro: logged_consume_user_content logged_add_chunk)

lemma rposition_lessI: "rposition p xs = Some i \<Longrightarrow> i < length xs"
  by (auto simp: rposition_def dest: position_lessI)

lemma logged_tool_update: "logged t (tool_update update t)"
proof -
  have f: "logged u (fold (\<lambda>ident. push_change (Change_Terminal ident None)) ids u) \<and>
      ss_entries (fold (\<lambda>ident. push_change (Change_Terminal ident None)) ids u) = ss_entries u"
    if "\<forall>ident\<in>set ids. ident |\<in>| fmdom (ss_terminals u)" for ids u
    using that
  proof (induction ids arbitrary: u)
    case (Cons ident ids)
    have "logged u (push_change (Change_Terminal ident None) u)"
      by (rule logged_terminal) (use Cons.prems in \<open>auto simp: fmlookup_dom_iff\<close>)
    with Cons.IH [of "push_change (Change_Terminal ident None) u"] Cons.prems show ?case
      by (auto intro: logged_trans)
  qed simp
  define u where "u = fold (\<lambda>ident. push_change (Change_Terminal ident None))
    (filter (\<lambda>ident. ident |\<in>| fmdom (ss_terminals t)) (terminal_parts update)) t"
  have u: "logged t u" using f [of "filter (\<lambda>ident. ident |\<in>| fmdom (ss_terminals t)) (terminal_parts update)" t] by (simp add: u_def)
  have "logged u (case rposition p (ss_entries u) of
      Some i \<Rightarrow> push_change (Change_Entry i None) (set_content i (merge_json (te_content (ss_entries u ! i)) update) u)
    | None \<Rightarrow> push_entry e u)" for p e
    by (auto split: option.split intro: logged_set_content logged_push_entry dest: rposition_lessI)
  then show ?thesis
    unfolding tool_update_def Let_def u_def [symmetric] by (rule logged_trans [OF u])
qed

lemma logged_field:
  assumes "same_log t u" "ss_entries u = ss_entries t" "ss_terminals u = ss_terminals t" "f \<in> set FIELDS"
    and "\<And>g. g \<in> set FIELDS \<Longrightarrow> g \<noteq> f \<Longrightarrow> field_value u g = field_value t g"
  shows "logged t (push_change (Change_Field f) u)"
  using logged_fields [of t u "[f]"] assms by (simp add: push_fields_def)

lemma same_log_fields [simp]:
  "same_log t (t\<lparr>ss_title := s\<rparr>)" "same_log t (t\<lparr>ss_plan := v\<rparr>)" "same_log t (t\<lparr>ss_modes := v\<rparr>)" "same_log t (t\<lparr>ss_commands := v\<rparr>)"
  "same_log t (t\<lparr>ss_usage := v\<rparr>)" "same_log t (t\<lparr>ss_notices := ns\<rparr>)"
  "same_log t (t\<lparr>ss_config_options_supported := b, ss_config_options := v\<rparr>)"
  "same_log t (t\<lparr>ss_session_meta_revisions := ms, ss_session_meta := m, ss_session_meta_revision := n\<rparr>)"
  by (simp_all add: same_log_def untracked_def)

lemma field_value_fields:
  "f \<noteq> ''title'' \<Longrightarrow> field_value (t\<lparr>ss_title := s\<rparr>) f = field_value t f"
  "f \<noteq> ''plan'' \<Longrightarrow> field_value (t\<lparr>ss_plan := v\<rparr>) f = field_value t f"
  "f \<noteq> ''modes'' \<Longrightarrow> field_value (t\<lparr>ss_modes := v\<rparr>) f = field_value t f"
  "f \<noteq> ''commands'' \<Longrightarrow> field_value (t\<lparr>ss_commands := v\<rparr>) f = field_value t f"
  "f \<noteq> ''usage'' \<Longrightarrow> field_value (t\<lparr>ss_usage := v\<rparr>) f = field_value t f"
  "f \<noteq> ''notices'' \<Longrightarrow> field_value (t\<lparr>ss_notices := ns\<rparr>) f = field_value t f"
  "f \<noteq> ''config_options'' \<Longrightarrow> f \<noteq> ''config_options_supported'' \<Longrightarrow>
     field_value (t\<lparr>ss_config_options_supported := b, ss_config_options := v\<rparr>) f = field_value t f"
  "f \<noteq> ''session_meta'' \<Longrightarrow> f \<noteq> ''session_meta_revision'' \<Longrightarrow> f \<noteq> ''session_meta_revisions'' \<Longrightarrow>
     field_value (t\<lparr>ss_session_meta_revisions := ms, ss_session_meta := m, ss_session_meta_revision := n\<rparr>) f = field_value t f"
  by (simp_all add: field_value_def)

lemma logged_set_title: "logged t (set_title update t)"
  by (auto simp: set_title_def split: option.split intro!: logged_field) (simp_all add: FIELDS_def field_value_fields)

lemma logged_push_kind: "logged t (push_kind uuid kind content t)"
  by (auto simp: push_kind_def intro!: logged_push_entry logged_field) (simp_all add: FIELDS_def field_value_fields)

lemma logged_meta:
  "logged t (push_fields [''session_meta'', ''session_meta_revision'', ''session_meta_revisions'']
     (t\<lparr>ss_session_meta_revisions := ms, ss_session_meta := m, ss_session_meta_revision := n\<rparr>))"
  by (rule logged_fields) (auto simp: FIELDS_def field_value_fields)

lemma logged_session_info_update: "logged t (session_info_update update t)"
proof -
  have "logged t (case json_get ''_meta'' update of
       Some (JObject m) \<Rightarrow> push_fields [''session_meta'', ''session_meta_revision'', ''session_meta_revisions'']
         (t\<lparr>ss_session_meta_revisions := ss_session_meta_revisions t ++\<^sub>f fmmap (\<lambda>_. n) m,
            ss_session_meta := ss_session_meta t ++\<^sub>f m, ss_session_meta_revision := n\<rparr>)
     | Some JNull \<Rightarrow> push_fields [''session_meta'', ''session_meta_revision'', ''session_meta_revisions'']
         (t\<lparr>ss_session_meta_revisions := fmempty, ss_session_meta := fmempty, ss_session_meta_revision := n\<rparr>)
     | _ \<Rightarrow> t)" for n
    using logged_meta [of t] by (auto split: option.split json.split)
  then show ?thesis
    by (auto simp: session_info_update_def Let_def intro: logged_set_title logged_trans [OF _ logged_set_title])
qed

lemma logged_ensure_entry: "ensure_entry uuid ident t = (i, t') \<Longrightarrow> logged t t' \<and> i < length (ss_entries t')"
  by (auto simp: ensure_entry_def push_kind_def push_entry_def split: option.splits dest: position_lessI
    intro: logged_push_entry [unfolded push_entry_def])

lemma logged_compaction_update: "compaction_update codec uuid update t = Some t' \<Longrightarrow> logged t t'"
  by (auto simp: compaction_update_def bind_eq_Some_conv split: option.splits prod.splits dest!: logged_ensure_entry
    intro: logged_trans [OF _ logged_set_content])

lemma logged_append_summary: "append_summary codec uuid chunk t = Some t' \<Longrightarrow> logged t t'"
  by (auto simp: append_summary_def Let_def bind_eq_Some_conv split: option.splits prod.splits dest!: logged_ensure_entry
    intro: logged_trans [OF _ logged_set_content])

lemma logged_handle_observed:
  assumes "handle_session_update codec uuid update t = Some t'"
  shows "logged (observe_activity update t) t'"
proof -
  obtain u where u: "apply_legacy_update update (observe_activity update t) = Some u"
    using assms by (auto simp: handle_session_update_def bind_eq_Some_conv)
  then have "logged (observe_activity update t) u" by (rule logged_apply_legacy_update)
  moreover have "logged u t'"
    using assms u unfolding handle_session_update_def Let_def
    by (auto simp: bind_eq_Some_conv split: if_splits
      intro: logged_message_chunk logged_tool_update logged_session_info_update logged_push_kind logged_compaction_update
        logged_append_summary intro!: logged_field logged_fields)
      (simp_all add: FIELDS_def field_value_fields)
  ultimately show ?thesis by (rule logged_trans)
qed

lemma logged_handle:
  "activity update = None \<Longrightarrow> handle_session_update codec uuid update t = Some t' \<Longrightarrow> logged t t'"
  using logged_handle_observed [of codec uuid update t t'] by (simp add: observe_activity_def)

section \<open>Runs of a conversation\<close>

text \<open>One committed change: an event of the agent, or any other operation that keeps the identity of the model.\<close>

inductive acp_step :: "acp_codec \<Rightarrow> session_snapshot \<Rightarrow> session_snapshot \<Rightarrow> bool" for codec where
  session: "session_update codec now uuid update t = Some (t', flush, title_changed) \<Longrightarrow> acp_step codec t t'"
| change: "update_thread now False f t = Some (t', flush, title_changed) \<Longrightarrow> f t = Some u \<Longrightarrow> ss_thread_id u = ss_thread_id t \<Longrightarrow>
     ss_sync_generation u = ss_sync_generation t \<Longrightarrow> ss_revision u = ss_revision t \<Longrightarrow> acp_step codec t t'"

definition fresh_log :: "session_snapshot \<Rightarrow> bool" where
  "fresh_log t \<longleftrightarrow> ss_changes t = \<lparr>cl_base_revision = ss_revision t, cl_history = [], cl_pending = []\<rparr>"

text \<open>The models of a conversation since it was opened, the newest first.\<close>

inductive acp_run :: "acp_codec \<Rightarrow> session_snapshot list \<Rightarrow> bool" for codec where
  opened: "fresh_log t \<Longrightarrow> acp_run codec [t]"
| committed: "acp_run codec (t # ts) \<Longrightarrow> acp_step codec t t' \<Longrightarrow> acp_run codec (t' # t # ts)"

inductive_cases acp_run_Nil: "acp_run codec []"

lemma trim_history_split:
  "trim_history base h = (base', h') \<Longrightarrow> \<exists>d. h = d @ h' \<and> base' = (if d = [] then base else fst (last d))"
proof (induction base h rule: trim_history.induct)
  case (2 base h hs)
  show ?case
  proof (cases "HISTORY_LIMIT < length (h # hs)")
    case True
    with 2 obtain d where "hs = d @ h'" "base' = (if d = [] then fst h else fst (last d))" by auto
    then show ?thesis by (intro exI [of _ "h # d"]) simp
  qed (use 2(2) in simp)
qed simp

text \<open>The log reaches from its base revision to the current one.\<close>

definition log_ok :: "session_snapshot \<Rightarrow> bool" where
  "log_ok t \<longleftrightarrow> pending t = [] \<and> sorted_wrt (<) (cl_base_revision (ss_changes t) # map fst (cl_history (ss_changes t))) \<and>
     (\<forall>r\<in>set (cl_base_revision (ss_changes t) # map fst (cl_history (ss_changes t))). r \<le> ss_revision t)"

text \<open>The revisions from which the log can serve.\<close>

definition log_revisions :: "session_snapshot \<Rightarrow> nat set" where
  "log_revisions t = set (cl_base_revision (ss_changes t) # map fst (cl_history (ss_changes t)))"

lemma log_ok_fresh: "fresh_log t \<Longrightarrow> log_ok t"
  by (simp add: fresh_log_def log_ok_def pending_def)

lemma log_commit_ok:
  assumes t: "log_ok t" and u: "cl_history (ss_changes u) = cl_history (ss_changes t)" "cl_base_revision (ss_changes u) = cl_base_revision (ss_changes t)"
    and t': "ss_revision t' = ss_revision t + 1" "ss_changes t' = log_commit (ss_revision t + 1) (ss_changes u)"
  shows "log_ok t'"
    and "cl_base_revision (ss_changes t') \<le> r \<Longrightarrow> r \<le> ss_revision t \<Longrightarrow>
      cl_base_revision (ss_changes t) \<le> r \<and> changes_since r t' = changes_since r t @ pending u"
    and "log_revisions t' \<subseteq> insert (ss_revision t + 1) (log_revisions t)"
proof -
  let ?base = "cl_base_revision (ss_changes t)" and ?h = "cl_history (ss_changes t) @ [(ss_revision t + 1, pending u)]"
  obtain base' h' where tr: "trim_history ?base ?h = (base', h')" by (cases "trim_history ?base ?h")
  from trim_history_split [OF this] obtain d where d: "?h = d @ h'" "base' = (if d = [] then ?base else fst (last d))" by blast
  have c: "ss_changes t' = \<lparr>cl_base_revision = base', cl_history = h', cl_pending = []\<rparr>"
    using tr u t'(2) by (simp add: log_commit_def pending_def)
  have s: "sorted_wrt (<) (?base # map fst ?h)" "\<forall>r\<in>set (?base # map fst ?h). r \<le> ss_revision t'"
    using t t'(1) by (auto simp: log_ok_def sorted_wrt_append)
  have s': "sorted_wrt (<) (?base # map fst d @ map fst h')" "\<forall>r\<in>set (?base # map fst d @ map fst h'). r \<le> ss_revision t'"
    using s unfolding d(1) by simp_all
  have "?base \<le> base' \<and> (\<forall>r\<in>set (map fst d). r \<le> base') \<and> (\<forall>r\<in>set (map fst h'). base' < r) \<and> base' \<le> ss_revision t'"
  proof (cases d rule: rev_cases)
    case (snoc d0 e)
    with d(2) s' show ?thesis by (auto simp: sorted_wrt_append less_imp_le)
  qed (use d(2) s' in simp)
  then have b: "?base \<le> base'" "\<forall>r\<in>set (map fst d). r \<le> base'" "\<forall>r\<in>set (map fst h'). base' < r" "base' \<le> ss_revision t'"
    by blast+
  show "log_ok t'" using b(3,4) s' c by (simp add: log_ok_def pending_def sorted_wrt_append)
  show "log_revisions t' \<subseteq> insert (ss_revision t + 1) (log_revisions t)"
  proof -
    have "set (?base # map fst ?h) = insert (ss_revision t + 1) (log_revisions t)" by (auto simp: log_revisions_def)
    moreover have "base' \<in> set (?base # map fst d)" using d(2) by simp
    ultimately show ?thesis unfolding d(1) using c by (auto simp: log_revisions_def)
  qed
  assume r: "cl_base_revision (ss_changes t') \<le> r" "r \<le> ss_revision t"
  then have "base' \<le> r" using c by simp
  then have "filter (\<lambda>h. r < fst h) d = []" using b(2) by (fastforce simp: filter_empty_conv)
  then have "filter (\<lambda>h. r < fst h) h' = filter (\<lambda>h. r < fst h) ?h" unfolding d(1) by simp
  also have "\<dots> = filter (\<lambda>h. r < fst h) (cl_history (ss_changes t)) @ [(ss_revision t + 1, pending u)]" using r(2) by simp
  finally show "?base \<le> r \<and> changes_since r t' = changes_since r t @ pending u"
    using b(1) \<open>base' \<le> r\<close> c by (simp add: changes_since_def)
qed

definition identity :: "session_snapshot \<Rightarrow> string \<times> string \<times> nat" where
  "identity t = (ss_thread_id t, ss_sync_generation t, ss_revision t)"

lemma untracked_same: "untracked u = untracked t \<Longrightarrow> ss_thread_id u = ss_thread_id t \<and> ss_sync_generation u = ss_sync_generation t \<and> ss_status u = ss_status t"
  unfolding untracked_def by (drule arg_cong [where f = "\<lambda>s. (ss_thread_id s, ss_sync_generation s, ss_status s)"]) simp

lemma logged_identity: "logged t u \<Longrightarrow> identity u = identity t \<and> ss_status u = ss_status t"
  by (auto simp: logged_def identity_def dest: untracked_same)

lemma settle_status_identity: "identity (settle_status t) = identity t"
  by (simp add: settle_status_def identity_def Let_def)

lemma observe_activity_identity: "identity (observe_activity update t) = identity t"
  by (simp add: observe_activity_def identity_def Let_def finish_detached_def settle_status_def split: option.split)

lemma clear_session_meta_identity: "identity (clear_session_meta t) = identity t"
  by (simp add: clear_session_meta_def identity_def Let_def push_fields_def push_change_def)

lemma finish_turns_identity: "identity (finish_turns t) = identity t"
  by (simp add: finish_turns_def identity_def)

text \<open>What a commit does to the identity and to the log.\<close>

lemma update_thread_cases:
  assumes "update_thread now incremental f t = Some (t', flush, title_changed)" "f t = Some u" "identity u = identity t"
  shows "ss_thread_id t' = ss_thread_id t \<and> ss_sync_generation t' = ss_sync_generation t \<and> ss_revision t' = ss_revision t + 1"
    and "\<not> (incremental \<and> ss_status t = ''working'') \<Longrightarrow> fresh_log t'"
    and "incremental \<Longrightarrow> ss_status t = ''working'' \<Longrightarrow> ss_status u = ''working'' \<Longrightarrow>
      t' = u\<lparr>ss_revision := ss_revision t + 1, ss_updated_at := now, ss_changes := log_commit (ss_revision t + 1) (ss_changes u)\<rparr>"
proof -
  let ?u = "finish_turns (if ss_status t = ''working'' \<and> ss_status u \<noteq> ''working'' \<or> ss_status u = ''disconnected'' then clear_session_meta u else u)"
  have i: "identity ?u = identity t" using assms(3) by (simp add: finish_turns_identity clear_session_meta_identity)
  have t': "t' = ?u\<lparr>ss_revision := ss_revision ?u + 1, ss_updated_at := now,
      ss_changes := (if incremental \<and> ss_status t = ''working'' then log_commit else log_reset) (ss_revision ?u + 1) (ss_changes ?u)\<rparr>"
    using assms(1,2) by (simp add: update_thread_def Let_def)
  show "ss_thread_id t' = ss_thread_id t \<and> ss_sync_generation t' = ss_sync_generation t \<and> ss_revision t' = ss_revision t + 1"
    using i unfolding t' by (simp add: identity_def)
  show "\<not> (incremental \<and> ss_status t = ''working'') \<Longrightarrow> fresh_log t'"
    unfolding t' by (auto simp: fresh_log_def log_reset_def)
  show "incremental \<Longrightarrow> ss_status t = ''working'' \<Longrightarrow> ss_status u = ''working'' \<Longrightarrow>
      t' = u\<lparr>ss_revision := ss_revision t + 1, ss_updated_at := now, ss_changes := log_commit (ss_revision t + 1) (ss_changes u)\<rparr>"
    using assms(3) unfolding t' by (simp add: finish_turns_def identity_def)
qed

definition continues :: "session_snapshot \<Rightarrow> session_snapshot \<Rightarrow> bool" where
  "continues t t' \<longleftrightarrow> log_ok t' \<and> ss_thread_id t' = ss_thread_id t \<and> ss_sync_generation t' = ss_sync_generation t \<and>
     ss_revision t' = ss_revision t + 1 \<and> log_revisions t' \<subseteq> insert (ss_revision t') (log_revisions t) \<and>
     (\<forall>t1 r. r \<le> ss_revision t \<and> cl_base_revision (ss_changes t') \<le> r \<longrightarrow>
        cl_base_revision (ss_changes t) \<le> r \<and> (covers t1 (changes_since r t) t \<longrightarrow> covers t1 (changes_since r t') t'))"

lemma continues_fresh:
  "fresh_log t' \<Longrightarrow> ss_thread_id t' = ss_thread_id t \<and> ss_sync_generation t' = ss_sync_generation t \<and> ss_revision t' = ss_revision t + 1 \<Longrightarrow>
     continues t t'"
  using log_ok_fresh by (auto simp: continues_def fresh_log_def log_revisions_def)

lemma covers_commit: "covers t1 cs (u\<lparr>ss_revision := n, ss_updated_at := now, ss_changes := l\<rparr>) \<longleftrightarrow> covers t1 cs u"
  by (simp add: covers_def field_value_def untracked_def heads_def)

lemma acp_step_continues: "acp_step codec t t' \<Longrightarrow> log_ok t \<Longrightarrow> continues t t'"
proof (induction rule: acp_step.induct)
  case (change now f t t' flush title_changed u)
  from update_thread_cases [OF change(1,2)] change(3-5) show ?case by (auto intro: continues_fresh simp: identity_def)
next
  case (session now uuid update t t' flush title_changed)
  from session(1) obtain u where u: "handle_session_update codec uuid update t = Some u"
    by (auto simp: session_update_def update_thread_def bind_eq_Some_conv Let_def)
  have "identity u = identity t"
    using logged_identity [OF logged_handle_observed [OF u]] by (simp add: observe_activity_identity)
  note c = update_thread_cases [OF session(1) [unfolded session_update_def] u this]
  show ?case
  proof (cases "activity update = None \<and> ss_status t = ''working''")
    case False
    with c(1,2) show ?thesis by (auto intro: continues_fresh)
  next
    case True
    then have l: "logged t u" using u by (auto intro: logged_handle)
    with True have t': "t' = u\<lparr>ss_revision := ss_revision t + 1, ss_updated_at := now, ss_changes := log_commit (ss_revision t + 1) (ss_changes u)\<rparr>"
      using c(3) by (simp add: logged_identity)
    note k = log_commit_ok [OF session(2), of u t']
    have k: "log_ok t'" "\<And>r. cl_base_revision (ss_changes t') \<le> r \<Longrightarrow> r \<le> ss_revision t \<Longrightarrow>
        cl_base_revision (ss_changes t) \<le> r \<and> changes_since r t' = changes_since r t @ pending u"
      "log_revisions t' \<subseteq> insert (ss_revision t + 1) (log_revisions t)"
      using l by (intro k; simp add: t' logged_def)+
    have p: "pending t = []" using session(2) by (simp add: log_ok_def)
    have "covers t1 (changes_since r t @ pending u) t'" if "covers t1 (changes_since r t) t" for t1 r
    proof -
      have "covers t1 (changes_since r t @ pending u) u" using l that p unfolding logged_def by (metis append_Nil2)
      then show ?thesis unfolding t' by (simp only: covers_commit)
    qed
    with k c(1) show ?thesis by (auto simp: continues_def)
  qed
qed

definition run_ok :: "session_snapshot \<Rightarrow> session_snapshot \<Rightarrow> bool" where
  "run_ok t1 t \<longleftrightarrow> ss_thread_id t1 = ss_thread_id t \<and> ss_sync_generation t1 = ss_sync_generation t \<and> ss_revision t1 \<le> ss_revision t \<and>
     (ss_revision t1 = ss_revision t \<longrightarrow> t1 = t) \<and>
     (cl_base_revision (ss_changes t) \<le> ss_revision t1 \<longrightarrow> covers t1 (changes_since (ss_revision t1) t) t)"

lemma run_ok_refl: "log_ok t \<Longrightarrow> run_ok t t"
proof -
  assume l: "log_ok t"
  then have "filter (\<lambda>h. ss_revision t < fst h) (cl_history (ss_changes t)) = []"
    by (auto simp: log_ok_def filter_empty_conv not_less)
  then show ?thesis by (simp add: run_ok_def changes_since_def covers_refl)
qed

lemma acp_run_ok:
  "acp_run codec ts \<Longrightarrow> ts \<noteq> [] \<and> log_ok (hd ts) \<and> (\<forall>t1\<in>set ts. run_ok t1 (hd ts)) \<and> log_revisions (hd ts) \<subseteq> ss_revision ` set ts"
proof (induction rule: acp_run.induct)
  case (opened t)
  moreover from this have "log_revisions t = {ss_revision t}" by (simp add: fresh_log_def log_revisions_def)
  ultimately show ?case by (simp add: log_ok_fresh run_ok_refl)
next
  case (committed t ts t')
  then have c: "continues t t'" by (auto intro: acp_step_continues)
  then have "run_ok t1 t'" if "run_ok t1 t" for t1
    using that by (auto simp: run_ok_def continues_def)
  moreover have "log_revisions t' \<subseteq> ss_revision ` set (t' # t # ts)"
    using committed c unfolding continues_def by auto
  ultimately show ?case using committed c by (auto simp: continues_def run_ok_refl)
qed

lemma fields_after_delta:
  assumes "\<forall>f\<in>set fs. f |\<notin>| F \<longrightarrow> v f = v0 f" "fset F \<subseteq> set fs"
  shows "fmap_of_list (map (\<lambda>f. (f, v0 f)) fs) ++\<^sub>f fmap_of_list (map (\<lambda>f. (f, v f)) (sorted_list_of_fset F)) = fmap_of_list (map (\<lambda>f. (f, v f)) fs)"
proof (rule fmap_ext)
  have m: "map_of (map (\<lambda>f. (f, w f)) xs) k = (if k \<in> set xs then Some (w k) else None)" for w xs k
    by (induction xs) auto
  show "fmlookup (fmap_of_list (map (\<lambda>f. (f, v0 f)) fs) ++\<^sub>f fmap_of_list (map (\<lambda>f. (f, v f)) (sorted_list_of_fset F))) k =
      fmlookup (fmap_of_list (map (\<lambda>f. (f, v f)) fs)) k" for k
    using assms by (auto simp: fmlookup_of_list m fmdom_fmap_of_list fset_of_list.rep_eq sorted_list_of_fset.rep_eq)
qed

lemma field_value_known: "f \<in> set FIELDS \<Longrightarrow> field_value t f = Some (the (field_value t f))"
  by (auto simp: FIELDS_def field_value_def)

lemma delta_of_covers:
  assumes c: "covers t0 (changes_since (ss_revision t0) t) t"
    and r: "ss_sync_generation t0 = ss_sync_generation t" "cl_base_revision (ss_changes t) \<le> ss_revision t0" "ss_revision t0 < ss_revision t"
  shows "\<exists>u. since (ss_sync_generation t0) (ss_revision t0) t = Some u \<and> apply_updates (Some (wire t0)) u = Some (wire t)"
proof -
  define g where "g = gather_all None (changes_since (ss_revision t0) t)"
  have e: "texts.tracked (nth_opt (ss_entries t0)) (ga_entries g) (nth_opt (ss_entries t))"
    and o: "outputs.tracked ''output'' (fmlookup (ss_terminals t0)) (ga_terminals g) (fmlookup (ss_terminals t))"
    and f: "fset (ga_fields g) \<subseteq> set FIELDS" "\<forall>f\<in>set FIELDS. f |\<notin>| ga_fields g \<longrightarrow> field_value t f = field_value t0 f"
    and n: "untracked t = untracked t0"
    using c by (simp_all add: covers_def Let_def g_def)
  have len: "fst c < length (ss_entries t)" if "c \<in> set (btree_entries (ga_entries g))" for c
    using texts.tracked_Some [OF e, of "fst c" "snd c"] that
    by (cases c) (auto simp: btree_entries_iff nth_opt_def split: if_splits)
  have ter: "fmlookup (ss_terminals t) (fst c) \<noteq> None" if "c \<in> set (btree_entries (ga_terminals g))" for c
    using outputs.tracked_Some [OF o, of "fst c" "snd c"] that
    by (cases c) (simp add: btree_entries_iff)
  have notin: "fmlookup m k = None" if "k \<notin> fst ` set (btree_entries m)" for m :: "('k :: linorder, nat option) fmap" and k
  proof (rule ccontr)
    assume "fmlookup m k \<noteq> None"
    then obtain v where "(k, v) \<in> set (btree_entries m)" by (auto simp: btree_entries_iff)
    with that show False by force
  qed
  have ents: "apply_entry_patches (map (entry_patch (ss_entries t)) (btree_entries (ga_entries g))) (ss_entries t0) = Some (ss_entries t)"
  proof (rule apply_entry_patches_tracked)
    show "sorted_wrt (<) (map fst (btree_entries (ga_entries g)))"
      using sorted_btree_entries [of "ga_entries g"] distinct_btree_entries [of "ga_entries g"] by (simp add: strict_sorted_iff)
    show "\<exists>u. nth_opt (ss_entries t0) i = Some u \<and> entry_extends a u (ss_entries t ! i)" if "(i, Some a) \<in> set (btree_entries (ga_entries g))" for i a
      using texts.tracked_extends [OF e, of i a] that by (auto simp: btree_entries_iff nth_opt_def split: if_splits)
    show "nth_opt (ss_entries t0) i = nth_opt (ss_entries t) i" if "i \<notin> fst ` set (btree_entries (ga_entries g))" for i
      using texts.tracked_None [OF e notin [OF that]] by simp
  qed (rule len)
  have ters: "apply_terminal_patches (map (terminal_patch (ss_terminals t)) (btree_entries (ga_terminals g))) (ss_terminals t0) = Some (ss_terminals t)"
  proof (rule apply_terminal_patches_tracked)
    show "\<exists>u v. fmlookup (ss_terminals t0) k = Some u \<and> fmlookup (ss_terminals t) k = Some v \<and> json_extends ''output'' a u v"
      if "(k, Some a) \<in> set (btree_entries (ga_terminals g))" for k a
      using outputs.tracked_extends [OF o, of k a] that by (simp add: btree_entries_iff)
    show "fmlookup (ss_terminals t0) k = fmlookup (ss_terminals t) k" if "k \<notin> fst ` set (btree_entries (ga_terminals g))" for k
      using outputs.tracked_None [OF o notin [OF that]] by simp
  qed (rule distinct_btree_entries, rule ter)
  have flds: "those (map (\<lambda>f. map_option (Pair f) (field_value t f)) (sorted_list_of_fset (ga_fields g))) =
      Some (map (\<lambda>f. (f, the (field_value t f))) (sorted_list_of_fset (ga_fields g)))"
    by (rule those_map_Some, subst field_value_known) (use f(1) in \<open>auto simp: sorted_list_of_fset.rep_eq\<close>)
  have "since (ss_sync_generation t0) (ss_revision t0) t = Some (Updates_Delta \<lparr>sd_thread_id = ss_thread_id t, sd_sync_generation = ss_sync_generation t,
      sd_from_revision = ss_revision t0, sd_revision = ss_revision t, sd_updated_at = ss_updated_at t,
      sd_entries = map (entry_patch (ss_entries t)) (btree_entries (ga_entries g)),
      sd_terminals = map (terminal_patch (ss_terminals t)) (btree_entries (ga_terminals g)),
      sd_fields = fmap_of_list (map (\<lambda>f. (f, the (field_value t f))) (sorted_list_of_fset (ga_fields g)))\<rparr>)"
    using r len ter flds
    by (simp add: since_def since_inner_def Let_def g_def [symmetric] those_map_Some [OF entry_patch_of_whole] those_map_Some [OF terminal_patch_of_whole])
  moreover have "fmap_of_list (map (\<lambda>f. (f, the (field_value t0 f))) FIELDS) ++\<^sub>f
      fmap_of_list (map (\<lambda>f. (f, the (field_value t f))) (sorted_list_of_fset (ga_fields g))) = fmap_of_list (map (\<lambda>f. (f, the (field_value t f))) FIELDS)"
    using f by (intro fields_after_delta) auto
  moreover have "ss_thread_id (untracked t) = ss_thread_id t" "ss_sync_generation (untracked t) = ss_sync_generation t"
    by (simp_all add: untracked_def)
  ultimately show ?thesis using r(3) ents ters n by (simp add: apply_updates_def wire_def)
qed

text \<open>C1: A browser that holds any earlier state of a conversation catches up with it: whatever the agent and the
  program did since, asking for the changes since that state gives an answer that the browser can apply and
  that turns what it has into exactly the current conversation, however much of the log has been dropped.\<close>

theorem browser_catches_up:
  assumes "acp_run codec (t # ts)" "t0 \<in> set (t # ts)"
  shows "\<exists>u. since (ss_sync_generation t0) (ss_revision t0) t = Some u \<and> apply_updates (Some (wire t0)) u = Some (wire t)"
proof -
  have k: "run_ok t0 t" using acp_run_ok [OF assms(1)] assms(2) by auto
  have "field_value (snapshot_clone t) = field_value t" by (rule ext) (simp add: snapshot_clone_def field_value_def)
  then have w: "wire (snapshot_clone t) = wire t" by (simp add: wire_def) (simp add: snapshot_clone_def untracked_def)
  show ?thesis
  proof (cases "ss_revision t0 < cl_base_revision (ss_changes t)")
    case True
    then show ?thesis by (simp add: since_def since_inner_def apply_updates_def w)
  next
    case False
    show ?thesis
    proof (cases "ss_revision t0 = ss_revision t")
      case True
      with k False show ?thesis by (auto simp: run_ok_def since_def since_inner_def apply_updates_def)
    next
      case neq: False
      with k False show ?thesis by (intro delta_of_covers) (auto simp: run_ok_def)
    qed
  qed
qed

definition plain_codec :: acp_codec where
  "plain_codec = \<lparr>cd_decode_block = (\<lambda>_. None), cd_encode_block = (\<lambda>_. None), cd_decode_options = (\<lambda>_. Inl []),
     cd_encode_options = (\<lambda>_. Inl [])\<rparr>"

definition text_chunk :: "string \<Rightarrow> json" where
  "text_chunk s = json_obj [(''sessionUpdate'', JString ''agent_message_chunk''),
     (''content'', json_obj [(''type'', JString ''text''), (''text'', JString s)])]"

definition sample_thread :: session_snapshot where
  "sample_thread = (new_snapshot ''now'' ''g'' ''t'' ''s'' ''agent'' ''/repo'')\<lparr>ss_status := ''working''\<rparr>"

definition sample_step :: "string \<Rightarrow> session_snapshot \<Rightarrow> session_snapshot" where
  "sample_step s t = fst (the (session_update plain_codec ''later'' ''e'' (text_chunk s) t))"

lemma sample_steps:
  "\<not> Option.is_none (session_update plain_codec ''later'' ''e'' (text_chunk ''Hel'') sample_thread)"
  "\<not> Option.is_none (session_update plain_codec ''later'' ''e'' (text_chunk ''lo'') (sample_step ''Hel'' sample_thread))"
  by code_simp+

lemma sample_acp_step:
  "\<not> Option.is_none (session_update plain_codec ''later'' ''e'' (text_chunk s) t) \<Longrightarrow> acp_step plain_codec t (sample_step s t)"
  by (auto simp: sample_step_def Option.is_none_def intro: acp_step.session)

lemma sample_run:
  "acp_run plain_codec [sample_step ''lo'' (sample_step ''Hel'' sample_thread), sample_step ''Hel'' sample_thread, sample_thread]"
proof -
  have "fresh_log sample_thread" by (simp add: fresh_log_def sample_thread_def new_snapshot_def change_log_default_def)
  then show ?thesis by (intro acp_run.intros sample_acp_step sample_steps)
qed

text \<open>The second chunk is sent as the two characters it adds.\<close>

theorem browser_catches_up_witness:
  "\<exists>u. since ''g'' 1 (sample_step ''lo'' (sample_step ''Hel'' sample_thread)) = Some u \<and>
     apply_updates (Some (wire (sample_step ''Hel'' sample_thread))) u = Some (wire (sample_step ''lo'' (sample_step ''Hel'' sample_thread)))"
proof -
  have "ss_sync_generation (sample_step ''Hel'' sample_thread) = ''g''" "ss_revision (sample_step ''Hel'' sample_thread) = 1" by code_simp+
  with browser_catches_up [OF sample_run, of "sample_step ''Hel'' sample_thread"] show ?thesis by simp
qed

end
