(* ===== verification/Acp_Overview.thy ===== *)
theory Acp_Overview
  imports Acp_Sync
begin

text \<open>
  The collapsed view of a conversation: \<open>crates/acp/src/acp_thread/overview/mod.rs\<close>, \<open>segments.rs\<close> and
  \<open>dialogue.rs\<close>. The overview of every turn is cached and brought up to date from the change log; an index out of
  range panics, which is \<open>None\<close>.
\<close>

section \<open>Visibility\<close>

definition nonempty_at :: "json \<Rightarrow> string \<Rightarrow> bool" where
  "nonempty_at v k \<longleftrightarrow> (case str_at v k of None \<Rightarrow> False | Some s \<Rightarrow> s \<noteq> [])"

definition visible_content :: "json \<Rightarrow> bool" where
  "visible_content content =
     (case str_at content ''type'' of
        None \<Rightarrow> False
      | Some kind \<Rightarrow>
          if kind = ''text'' then (case str_at content ''text'' of None \<Rightarrow> False | Some s \<Rightarrow> trim s \<noteq> [])
          else if kind = ''image'' then nonempty_at content ''data''
          else if kind = ''resource'' then nonempty_at (idx content ''resource'') ''uri''
          else if kind = ''resource_link'' then nonempty_at content ''uri''
          else False)"

definition awaits_permission :: "permission list \<Rightarrow> thread_entry \<Rightarrow> bool" where
  "awaits_permission ps e \<longleftrightarrow> list_ex (\<lambda>p. text_is (idx (idx (pm_request p) ''toolCall'') ''toolCallId'') (te_id e)) ps"

definition visible_part :: "json \<Rightarrow> bool" where
  "visible_part part \<longleftrightarrow> str_at part ''type'' \<in> {Some ''diff'', Some ''terminal''} \<or>
     (text_is (idx part ''type'') ''content'' \<and> visible_content (idx part ''content''))"

definition visible :: "permission list \<Rightarrow> thread_entry \<Rightarrow> bool" where
  "visible ps e =
     (if te_kind e \<in> {''user'', ''steering'', ''assistant'', ''thought''} then visible_content (te_content e)
      else if te_kind e \<in> {''summary'', ''compaction_update''} then True
      else if te_kind e = ''tool''
      then str_at (te_content e) ''status'' \<notin> {Some ''cancelled'', Some ''canceled''} \<or> awaits_permission ps e \<or>
           (case as_array (idx (te_content e) ''content'') of None \<Rightarrow> False | Some parts \<Rightarrow> list_ex visible_part parts) \<or>
           ((case as_array (idx (te_content e) ''content'') of None \<Rightarrow> True | Some parts \<Rightarrow> parts = []) \<and>
            idx (te_content e) ''rawOutput'' \<noteq> JNull)
      else False)"

section \<open>Turns\<close>

text \<open>\<open>ranges\<close>: the loop over the entries from index \<open>i\<close> on.\<close>

fun ranges_loop :: "permission list \<Rightarrow> string set \<Rightarrow> nat \<Rightarrow> nat \<Rightarrow> bool \<Rightarrow> (nat \<times> nat) list \<Rightarrow> thread_entry list \<Rightarrow> (nat \<times> nat) list" where
  "ranges_loop ps starts len i previous_user rs [] = rs"
| "ranges_loop ps starts len i previous_user rs (e # es) =
     (if \<not> visible ps e then ranges_loop ps starts len (Suc i) previous_user rs es
      else (let user = (te_kind e = ''user'');
                rs = (if rs = [] \<or> user \<and> (\<not> previous_user \<or> te_id e \<in> starts)
                      then update_last (\<lambda>r. (fst r, i)) rs @ [(i, len)] else rs)
            in ranges_loop ps starts len (Suc i) user rs es))"

definition ranges :: "session_snapshot \<Rightarrow> (nat \<times> nat) list" where
  "ranges t = ranges_loop (ss_permissions t) (set (map tn_user_entry_id (ss_turns t))) (length (ss_entries t)) 0 False [] (ss_entries t)"

definition is_relevant :: "thread_entry \<Rightarrow> bool" where
  "is_relevant e \<longleftrightarrow> te_kind e \<in> {''user'', ''steering'', ''tool'', ''summary'', ''compaction_update''} \<or>
     (te_kind e \<in> {''assistant'', ''thought''} \<and> visible_content (te_content e))"

fun final_entries_loop :: "thread_entry list \<Rightarrow> string option \<Rightarrow> thread_entry list \<Rightarrow> thread_entry list" where
  "final_entries_loop [] message_id taken = taken"
| "final_entries_loop (e # before) message_id taken =
     (if te_kind e = ''steering'' \<and> message_id \<noteq> None \<and>
         (case find (\<lambda>b. te_kind b \<noteq> ''steering'') before of None \<Rightarrow> False
          | Some b \<Rightarrow> te_kind b = ''assistant'' \<and> te_message_id b = message_id)
      then final_entries_loop before message_id (e # taken)
      else if te_kind e \<noteq> ''assistant'' \<or> (case (message_id, te_message_id e) of (Some a, Some b) \<Rightarrow> a \<noteq> b | _ \<Rightarrow> False)
      then taken
      else final_entries_loop before (case message_id of None \<Rightarrow> te_message_id e | Some a \<Rightarrow> Some a) (e # taken))"

definition final_entries :: "thread_entry list \<Rightarrow> thread_entry list" where
  "final_entries es =
     (case find is_relevant (rev es) of
        None \<Rightarrow> []
      | Some final \<Rightarrow>
          if te_kind final \<noteq> ''assistant'' then []
          else (case rev (filter (\<lambda>e. is_relevant e \<or> (te_message_id final \<noteq> None \<and> te_kind e = ''assistant'' \<and>
                     te_message_id e = te_message_id final \<and> text_is (idx (te_content e) ''type'') ''text'')) es) of
              [] \<Rightarrow> []
            | e # before \<Rightarrow> filter (\<lambda>e. te_kind e = ''assistant'') (final_entries_loop before (te_message_id final) [e])))"

definition process_segment_new :: "string \<Rightarrow> process_segment" where
  "process_segment_new ident = \<lparr>ps_id = ident, ps_tool_count = 0, ps_progress_count = 0, ps_permission_tool_ids = []\<rparr>"

text \<open>The state of the loop: the segments, the last kind in each, and the segment of the last identified text.\<close>

type_synonym segment_state = "process_segment list \<times> string list \<times> (string \<times> nat) option"

definition count_entry :: "permission list \<Rightarrow> bool \<Rightarrow> thread_entry \<Rightarrow> string \<Rightarrow> process_segment \<Rightarrow> process_segment" where
  "count_entry ps latest e last_kind s =
     (let kind = (if te_kind e = ''thought'' then ''assistant'' else te_kind e)
      in if kind = ''tool''
         then s\<lparr>ps_tool_count := ps_tool_count s + 1, ps_permission_tool_ids := ps_permission_tool_ids s @
                (if latest \<and> awaits_permission ps e then [te_id e] else [])\<rparr>
         else if kind \<noteq> ''assistant'' \<or> last_kind \<noteq> kind then s\<lparr>ps_progress_count := ps_progress_count s + 1\<rparr>
         else s)"

definition segment_step :: "permission list \<Rightarrow> string set \<Rightarrow> bool \<Rightarrow> thread_entry \<Rightarrow> segment_state \<Rightarrow> segment_state" where
  "segment_step ps final_ids latest e st =
     (case st of (segments, last_kinds, previous_text) \<Rightarrow>
        if te_kind e = ''steering''
        then (if visible_content (te_content e)
              then (segments @ [process_segment_new (te_id e)], last_kinds @ [[]], previous_text) else st)
        else (let i = length segments - 1;
                  known = (te_kind e = ''assistant'' \<and> text_is (idx (te_content e) ''type'') ''text'' \<and> te_message_id e \<notin> {None, Some []});
                  i = (case previous_text of Some (ident, j) \<Rightarrow> if known \<and> Some ident = te_message_id e then j else i | None \<Rightarrow> i);
                  previous_text = (if known then Some (the (te_message_id e), i) else None);
                  kind = (if te_kind e = ''thought'' then ''assistant'' else te_kind e)
              in if te_kind e = ''user'' \<or> te_id e \<in> final_ids \<or> \<not> visible ps e then (segments, last_kinds, previous_text)
                 else (segments[i := count_entry ps latest e (last_kinds ! i) (segments ! i)], last_kinds[i := kind], previous_text)))"

definition process_segments :: "permission list \<Rightarrow> thread_entry list \<Rightarrow> string set \<Rightarrow> string \<Rightarrow> bool \<Rightarrow> process_segment list" where
  "process_segments ps es final_ids ident latest =
     fst (fold (segment_step ps final_ids latest) es ([process_segment_new ident], [[]], None))"

definition range_entries :: "session_snapshot \<Rightarrow> nat \<times> nat \<Rightarrow> thread_entry list" where
  "range_entries t r = take (snd r - fst r) (drop (fst r) (ss_entries t))"

definition overview_status :: "session_snapshot \<Rightarrow> session_turn option \<Rightarrow> bool \<Rightarrow> bool \<Rightarrow> string option" where
  "overview_status t recorded running latest =
     (let status = map_option tn_status recorded
      in if running then Some ''in_progress''
         else if status = Some ''in_progress'' then Some ''interrupted''
         else if status = None \<and> latest
         then (if ss_error t \<noteq> None then Some ''failed''
               else map_option (\<lambda>reason. if reason = ''end_turn'' then ''completed''
                 else if reason = ''refusal'' then ''failed'' else ''interrupted'') (ss_stop_reason t))
         else status)"

definition turn_users :: "permission list \<Rightarrow> thread_entry list \<Rightarrow> thread_entry list" where
  "turn_users ps es =
     filter (\<lambda>e. te_kind e = ''user'' \<and> visible_content (te_content e))
       (takeWhile (\<lambda>e. te_kind e = ''user'' \<or> \<not> visible ps e) es)"

definition summarize :: "session_snapshot \<Rightarrow> nat \<times> nat \<Rightarrow> bool \<Rightarrow> thread_entry list option \<Rightarrow> cached_turn" where
  "summarize t r latest user =
     (let es = range_entries t r; ps = ss_permissions t;
          ident = (if te_kind (hd es) = ''user'' then te_id (hd es) else ''leading'');
          recorded = find (\<lambda>turn. tn_user_entry_id turn = ident) (ss_turns t);
          waiting = (latest \<and> ps \<noteq> []);
          running = (latest \<and> ss_status t = ''working'' \<or> waiting);
          status = overview_status t recorded running latest;
          conclusion = (if \<not> running \<and> (status = None \<or> status = Some ''completed'') then final_entries es else []);
          displayed = set (map te_id conclusion);
          dialogue = (if list_ex (\<lambda>e. te_kind e = ''steering'') es
            then Some (map ((+) (fst r) \<circ> fst) (filter (\<lambda>(i, e). (te_kind e = ''steering'' \<and> visible_content (te_content e)) \<or> te_id e \<in> displayed)
              (enumerate 0 es)))
            else None);
          segments = process_segments ps es displayed ident latest
      in \<lparr>ct_summary = \<lparr>to_id = ident, to_revision = ss_revision t, to_user = (case user of Some u \<Rightarrow> u | None \<Rightarrow> turn_users ps es),
            to_conclusion = conclusion, to_messages = None, to_process_segments = segments,
            to_tool_count = sum_list (map ps_tool_count segments), to_progress_count = sum_list (map ps_progress_count segments),
            to_running = running, to_waiting = waiting,
            to_compacting = (running \<and> list_ex (\<lambda>e. te_kind e = ''compaction_update'' \<and> text_is (idx (te_content e) ''status'') ''in_progress'') es),
            to_status = status, to_error = Option.bind recorded tn_error,
            to_permission_tool_ids = map te_id (filter (\<lambda>e. latest \<and> te_kind e = ''tool'' \<and> awaits_permission ps e) es)\<rparr>,
          ct_dialogue = dialogue\<rparr>)"

section \<open>The cache\<close>

definition entry_changes :: "change list \<Rightarrow> nat list" where
  "entry_changes cs = List.map_filter (\<lambda>c. case c of Change_Entry i _ \<Rightarrow> Some i | _ \<Rightarrow> None) cs"

definition visibility_differs :: "session_snapshot \<Rightarrow> bool list \<Rightarrow> nat \<Rightarrow> bool" where
  "visibility_differs t vis i \<longleftrightarrow> i < length vis \<and> vis ! i \<noteq> visible (ss_permissions t) (ss_entries t ! i)"

definition user_ids :: "cached_turn \<Rightarrow> string list" where
  "user_ids turn = map te_id (to_user (ct_summary turn))"

definition summarize_all :: "session_snapshot \<Rightarrow> (nat \<times> nat) list \<Rightarrow> cached_turn list" where
  "summarize_all t rs = map (\<lambda>(i, r). summarize t r (Suc i = length rs) None) (enumerate 0 rs)"

definition rebuild_cache :: "session_snapshot \<Rightarrow> overview_cache \<Rightarrow> overview_cache" where
  "rebuild_cache t c =
     (let rs = ranges t; turns = summarize_all t rs
      in c\<lparr>oc_layout_revision := (if map fst rs \<noteq> map fst (oc_ranges c) \<or>
                 list_ex (\<lambda>(next, previous). user_ids next \<noteq> user_ids previous) (zip turns (oc_turns c))
               then ss_revision t else oc_layout_revision c),
           oc_visibility := map (visible (ss_permissions t)) (ss_entries t), oc_ranges := rs, oc_turns := turns\<rparr>)"

definition extend_cache :: "session_snapshot \<Rightarrow> nat list \<Rightarrow> overview_cache \<Rightarrow> overview_cache" where
  "extend_cache t changed c =
     (let rs = update_last (\<lambda>r. (fst r, length (ss_entries t))) (oc_ranges c);
          turns = map (\<lambda>(i, r, turn).
            let latest = (Suc i = length rs)
            in if list_ex (\<lambda>j. fst r \<le> j \<and> j < snd r) changed \<or> latest \<and> oc_length c \<noteq> length (ss_entries t)
               then summarize t r latest (Some (to_user (ct_summary turn))) else turn)
            (enumerate 0 (zip rs (oc_turns c)))
      in c\<lparr>oc_visibility := oc_visibility c @ map (visible (ss_permissions t)) (drop (oc_length c) (ss_entries t)),
           oc_ranges := rs, oc_turns := turns\<rparr>)"

definition cache_differs :: "session_snapshot \<Rightarrow> nat list \<Rightarrow> overview_cache \<Rightarrow> bool" where
  "cache_differs t changed c \<longleftrightarrow>
     oc_generation c \<noteq> ss_sync_generation t \<or> oc_revision c < cl_base_revision (ss_changes t) \<or> oc_ranges c = [] \<or>
     length (ss_entries t) < oc_length c \<or> list_ex (visibility_differs t (oc_visibility c)) changed \<or>
     list_ex (\<lambda>i. te_kind (ss_entries t ! i) = ''user'') changed"

definition refresh_cache :: "session_snapshot \<Rightarrow> overview_cache \<Rightarrow> overview_cache option" where
  "refresh_cache t c =
     (if oc_generation c = ss_sync_generation t \<and> oc_revision c = ss_revision t then Some c
      else (let changed = entry_changes (changes_since (oc_revision c) t)
            in if list_ex (\<lambda>i. length (ss_entries t) \<le> i) changed then None
               else (let c = (if list_ex (\<lambda>i. te_kind (ss_entries t ! i) \<in> {''assistant'', ''steering''} \<and>
                                 visibility_differs t (oc_visibility c) i) changed
                              then c\<lparr>oc_layout_revision := ss_revision t\<rparr> else c);
                         c = (if cache_differs t changed c then rebuild_cache t c else extend_cache t changed c)
                     in Some (c\<lparr>oc_generation := ss_sync_generation t, oc_revision := ss_revision t,
                          oc_length := length (ss_entries t)\<rparr>))))"

definition refresh :: "session_snapshot \<Rightarrow> session_snapshot option" where
  "refresh t = map_option (\<lambda>c. t\<lparr>ss_overview_cache := c\<rparr>) (refresh_cache t (ss_overview_cache t))"

definition dialogue_entries :: "session_snapshot \<Rightarrow> nat list \<Rightarrow> thread_entry list" where
  "dialogue_entries t indices = map (\<lambda>i. ss_entries t ! i) indices"

definition overview_snapshot :: "session_snapshot \<Rightarrow> (session_snapshot \<times> session_snapshot) option" where
  "overview_snapshot t =
     Option.bind (refresh t) (\<lambda>t. Some ((metadata t)\<lparr>ss_overview :=
       Some (map (\<lambda>turn. (ct_summary turn)\<lparr>to_messages := map_option (dialogue_entries t) (ct_dialogue turn)\<rparr>)
         (oc_turns (ss_overview_cache t)))\<rparr>, t))"

end
