(* ===== verification/Acp_Overview_Delta.thy ===== *)
theory Acp_Overview_Delta
  imports Acp_Overview
begin

text \<open>
  The deltas of the collapsed view and the details of one turn: \<open>since\<close>, \<open>process\<close> and \<open>terminal_ids\<close> of
  \<open>crates/acp/src/acp_thread/overview/mod.rs\<close> and \<open>overview/dialogue.rs\<close>. An index out of range panics,
  which is \<open>None\<close>.
\<close>

section \<open>Messages of a turn\<close>

definition entry_at :: "session_snapshot \<Rightarrow> nat \<Rightarrow> thread_entry option" where
  "entry_at t i = (if i < length (ss_entries t) then Some (ss_entries t ! i) else None)"

text \<open>The loop over the changes: a changed steering card asks for a reset, \<open>Inl\<close>. The binary search is for the
  position in a list of ascending indices.\<close>

fun dialogue_loop :: "session_snapshot \<Rightarrow> nat list \<Rightarrow> change list \<Rightarrow> (nat, nat option) fmap \<Rightarrow> (unit + (nat, nat option) fmap) option" where
  "dialogue_loop t indices [] changed = Some (Inr changed)"
| "dialogue_loop t indices (Change_Entry i start # cs) changed =
     (case position (\<lambda>j. j = i) indices of
        None \<Rightarrow> dialogue_loop t indices cs changed
      | Some p \<Rightarrow>
          Option.bind (entry_at t i) (\<lambda>e.
          if te_kind e = ''steering'' then Some (Inl ()) else dialogue_loop t indices cs (merge_offset p start changed)))"
| "dialogue_loop t indices (c # cs) changed = dialogue_loop t indices cs changed"

definition dialogue_patch_of :: "session_snapshot \<Rightarrow> nat list \<Rightarrow> nat \<times> nat option \<Rightarrow> entry_patch option" where
  "dialogue_patch_of t indices change =
     (case change of (p, start) \<Rightarrow>
        map_option (\<lambda>e. case text_from ''text'' start (te_content e) of
            Some text \<Rightarrow> Append_Text p (te_id e) text | None \<Rightarrow> Entry_Replace p e) (entry_at t (indices ! p)))"

definition dialogue_since :: "session_snapshot \<Rightarrow> nat list option \<Rightarrow> nat \<Rightarrow> dialogue_patch option option" where
  "dialogue_since t dialogue revision =
     (case dialogue of
        None \<Rightarrow> Some None
      | Some indices \<Rightarrow>
          Option.bind (dialogue_loop t indices (changes_since revision t) fmempty) (\<lambda>r.
          case r of
            Inl _ \<Rightarrow> map_option (\<lambda>es. Some (Dialogue_Reset es)) (those (map (entry_at t) indices))
          | Inr changed \<Rightarrow>
              if changed = fmempty then Some None
              else map_option (\<lambda>ps. Some (Dialogue_Delta ps)) (those (map (dialogue_patch_of t indices) (btree_entries changed)))))"

section \<open>Deltas\<close>

definition overview_patch_of :: "session_snapshot \<Rightarrow> nat list \<Rightarrow> nat \<Rightarrow> cached_turn \<times> (nat \<times> nat) \<Rightarrow> turn_overview_patch option" where
  "overview_patch_of t changed_users revision cr =
     (case cr of (cached, r) \<Rightarrow>
        let turn = ct_summary cached
        in map_option (\<lambda>messages.
             \<lparr>tp_id = to_id turn, tp_revision = to_revision turn,
              tp_user = (if to_user turn = [] \<or> list_ex (\<lambda>i. fst r \<le> i \<and> i < snd r) changed_users then Some (to_user turn) else None),
              tp_conclusion = to_conclusion turn, tp_messages = messages, tp_process_segments = to_process_segments turn,
              tp_tool_count = to_tool_count turn, tp_progress_count = to_progress_count turn, tp_running = to_running turn,
              tp_waiting = to_waiting turn, tp_compacting = to_compacting turn, tp_status = to_status turn,
              tp_error = to_error turn, tp_permission_tool_ids = to_permission_tool_ids turn\<rparr>)
           (dialogue_since t (ct_dialogue cached) revision))"

definition overview_since :: "string \<Rightarrow> nat \<Rightarrow> session_snapshot \<Rightarrow> (session_updates \<times> session_snapshot) option" where
  "overview_since generation revision t =
     Option.bind (refresh t) (\<lambda>t.
       let c = ss_overview_cache t
       in if generation \<noteq> ss_sync_generation t \<or> revision < cl_base_revision (ss_changes t) \<or> revision < oc_layout_revision c \<or>
             ss_revision t < revision
          then map_option (\<lambda>(s, t). (Updates_Snapshot s, t)) (overview_snapshot t)
          else if revision = ss_revision t then Some (Updates_Unchanged, t)
          else (let changed = entry_changes (changes_since revision t)
                in if list_ex (\<lambda>i. length (ss_entries t) \<le> i) changed then None
                   else map_option (\<lambda>patches. (Updates_Overview revision (metadata t) patches, t))
                     (those (map (overview_patch_of t (filter (\<lambda>i. te_kind (ss_entries t ! i) = ''user'') changed) revision)
                       (filter (\<lambda>(turn, _). revision < to_revision (ct_summary turn)) (zip (oc_turns c) (oc_ranges c)))))))"

section \<open>The details of a turn\<close>

definition terminal_ids :: "thread_entry list \<Rightarrow> string fset" where
  "terminal_ids es = fset_of_list (concat (map (\<lambda>e. if te_kind e = ''tool'' then terminal_parts (te_content e) else []) es))"

text \<open>The entries between the last message of the user and the conclusion.\<close>

definition process_range :: "session_snapshot \<Rightarrow> nat \<times> nat \<Rightarrow> cached_turn \<Rightarrow> nat \<times> nat" where
  "process_range t full cached =
     (let turn = ct_summary cached; es = range_entries t full;
          start = (if to_user turn = [] then fst full
            else (case position (\<lambda>e. te_id e = te_id (last (to_user turn))) es of None \<Rightarrow> fst full | Some i \<Rightarrow> fst full + i + 1));
          stop = (case (to_conclusion turn, ct_dialogue cached) of
              (final # _, None) \<Rightarrow> (case position (\<lambda>e. te_id e = te_id final) es of None \<Rightarrow> snd full | Some i \<Rightarrow> fst full + i)
            | _ \<Rightarrow> snd full)
      in (start, stop))"

definition process_turn :: "string \<Rightarrow> string option \<Rightarrow> nat option \<Rightarrow> session_snapshot \<Rightarrow> ((string, session_updates) result \<times> session_snapshot) option" where
  "process_turn turn_id generation revision t =
     Option.bind (refresh t) (\<lambda>t.
       let c = ss_overview_cache t
       in case position (\<lambda>turn. to_id (ct_summary turn) = turn_id) (oc_turns c) of
            None \<Rightarrow> Some (Inl ''ACP turn not found; reload the conversation'', t)
          | Some i \<Rightarrow>
              let rg = process_range t (oc_ranges c ! i) (oc_turns c ! i);
                  terminals = terminal_ids (range_entries t rg);
                  known = (case revision of None \<Rightarrow> False | Some r \<Rightarrow> oc_layout_revision c \<le> r)
              in if snd rg < fst rg \<or> length (ss_entries t) < snd rg then None
                 else map_option (\<lambda>u. (Inr u, t))
                   (since_selection (if known then (case generation of None \<Rightarrow> [] | Some g \<Rightarrow> g) else [])
                     (case revision of None \<Rightarrow> 0 | Some r \<Rightarrow> r) rg terminals t))"

end
