(* ===== verification/Acp_Overview_Cache.thy ===== *)
theory Acp_Overview_Cache
  imports Acp_Overview
begin

text \<open>
  The cached overview of a conversation is the overview computed afresh, however the log and the readings of the
  overview interleave.
\<close>

section \<open>Changed entries\<close>

lemma fmlookup_merge_offset: "fmlookup (merge_offset k off m) j \<noteq> None \<longleftrightarrow> j = k \<or> fmlookup m j \<noteq> None"
  by (simp add: merge_offset_def)

lemma gathered_entries: "fmlookup (ga_entries (gather_all None cs)) i \<noteq> None \<longleftrightarrow> i \<in> set (entry_changes cs)"
proof (induction cs rule: rev_induct)
  case Nil
  show ?case by (simp add: gather_all_def entry_changes_def)
next
  case (snoc c cs)
  then show ?case by (cases c) (auto simp: entry_changes_def List.map_filter_def merge_offset_def)
qed

lemma covers_unchanged:
  "covers t0 cs t \<Longrightarrow> i \<notin> set (entry_changes cs) \<Longrightarrow> nth_opt (ss_entries t) i = nth_opt (ss_entries t0) i"
  unfolding covers_def Let_def gathered_entries [symmetric] by (auto intro: texts.tracked_None)

lemma covers_changed: "covers t0 cs t \<Longrightarrow> i \<in> set (entry_changes cs) \<Longrightarrow> i < length (ss_entries t)"
proof -
  assume "covers t0 cs t" "i \<in> set (entry_changes cs)"
  then obtain a where "fmlookup (ga_entries (gather_all None cs)) i = Some a"
    "texts.tracked (nth_opt (ss_entries t0)) (ga_entries (gather_all None cs)) (nth_opt (ss_entries t))"
    unfolding covers_def Let_def gathered_entries [symmetric] by auto
  from texts.tracked_Some [OF this(2,1)] show ?thesis by (simp add: nth_opt_def split: if_splits)
qed

text \<open>What a log that covers the difference of two models says about their entries.\<close>

lemma covers_entries:
  assumes "covers t0 cs t"
  shows "length (ss_entries t0) \<le> length (ss_entries t)"
    and "i < length (ss_entries t0) \<Longrightarrow> te_id (ss_entries t ! i) = te_id (ss_entries t0 ! i) \<and> te_kind (ss_entries t ! i) = te_kind (ss_entries t0 ! i)"
    and "i \<notin> set (entry_changes cs) \<Longrightarrow> i < length (ss_entries t) \<Longrightarrow> i < length (ss_entries t0) \<and> ss_entries t ! i = ss_entries t0 ! i"
proof -
  have p: "prefix (heads t0) (heads t)" using assms by (simp add: covers_def Let_def)
  then show l: "length (ss_entries t0) \<le> length (ss_entries t)" using prefix_length_le by (fastforce simp: heads_def)
  show "te_id (ss_entries t ! i) = te_id (ss_entries t0 ! i) \<and> te_kind (ss_entries t ! i) = te_kind (ss_entries t0 ! i)"
    if "i < length (ss_entries t0)"
  proof -
    have "heads t0 ! i = heads t ! i" using p that by (auto simp: prefix_def nth_append heads_def)
    then show ?thesis using that l by (simp add: heads_def)
  qed
  show "i \<notin> set (entry_changes cs) \<Longrightarrow> i < length (ss_entries t) \<Longrightarrow> i < length (ss_entries t0) \<and> ss_entries t ! i = ss_entries t0 ! i"
    using covers_unchanged [OF assms, of i] by (auto simp: nth_opt_def split: if_splits)
qed

lemma covers_context:
  assumes "covers t0 cs t"
  shows "ss_permissions t = ss_permissions t0 \<and> ss_turns t = ss_turns t0 \<and> ss_status t = ss_status t0 \<and>
    ss_error t = ss_error t0 \<and> ss_stop_reason t = ss_stop_reason t0"
proof -
  have "untracked t = untracked t0" using assms by (simp add: covers_def Let_def)
  then show ?thesis
    unfolding untracked_def
    by (drule_tac arg_cong [where f = "\<lambda>s. (ss_permissions s, ss_turns s, ss_status s, ss_error s, ss_stop_reason s)"]) simp
qed

section \<open>Ranges\<close>

definition end_at :: "nat \<Rightarrow> (nat \<times> nat) list \<Rightarrow> (nat \<times> nat) list" where
  "end_at n = update_last (\<lambda>r. (fst r, n))"

lemma update_last_snoc [simp]: "update_last f (xs @ [x]) = xs @ [f x]" "update_last f [] = []"
  by (simp_all add: update_last_def)

lemma update_last_end_at [simp]: "update_last (\<lambda>r. (fst r, i)) (end_at n rs) = update_last (\<lambda>r. (fst r, i)) rs"
  by (cases rs rule: rev_cases) (simp_all add: end_at_def)

lemma end_at_snoc [simp]: "end_at n (rs @ [(a, b)]) = rs @ [(a, n)]"
  by (simp add: end_at_def)

lemma end_at_Nil_iff [simp]: "end_at n rs = [] \<longleftrightarrow> rs = []"
  by (cases rs rule: rev_cases) (simp_all add: end_at_def)

text \<open>Two entries that the loop cannot tell apart.\<close>

definition alike :: "permission list \<Rightarrow> thread_entry \<Rightarrow> thread_entry \<Rightarrow> bool" where
  "alike ps e e' \<longleftrightarrow> te_id e' = te_id e \<and> te_kind e' = te_kind e \<and> visible ps e' = visible ps e \<and> (te_kind e = ''user'' \<longrightarrow> e' = e)"

lemma ranges_loop_grows: "rs \<noteq> [] \<Longrightarrow> \<forall>e\<in>set es. te_kind e \<noteq> ''user'' \<Longrightarrow> ranges_loop ps S n i pu rs es = rs"
  by (induction es arbitrary: i pu) (auto simp: Let_def)

lemma ranges_loop_extend:
  assumes "list_all2 (alike ps) es es'" "\<forall>e\<in>set new. te_kind e \<noteq> ''user''" "ranges_loop ps S n i pu rs es \<noteq> []"
  shows "ranges_loop ps S n' i pu (end_at n' rs) (es' @ new) = end_at n' (ranges_loop ps S n i pu rs es)"
  using assms
proof (induction es es' arbitrary: i pu rs rule: list_all2_induct)
  case Nil
  then show ?case by (simp add: ranges_loop_grows)
next
  case (Cons e es e' es')
  then have a: "visible ps e' = visible ps e" "te_kind e' = te_kind e" "te_id e' = te_id e" by (simp_all add: alike_def)
  show ?case
  proof (cases "visible ps e")
    case False
    with Cons.IH Cons.prems a show ?thesis by simp
  next
    case True
    let ?rs = "if rs = [] \<or> te_kind e = ''user'' \<and> (\<not> pu \<or> te_id e \<in> S) then update_last (\<lambda>r. (fst r, i)) rs @ [(i, n)] else rs"
    have "(if end_at n' rs = [] \<or> te_kind e' = ''user'' \<and> (\<not> pu \<or> te_id e' \<in> S)
        then update_last (\<lambda>r. (fst r, i)) (end_at n' rs) @ [(i, n')] else end_at n' rs) = end_at n' ?rs"
      using a by auto
    then show ?thesis using Cons.IH [of "Suc i" "te_kind e = ''user''" ?rs] Cons.prems True a by (simp add: Let_def)
  qed
qed

definition bounded_ranges :: "nat \<Rightarrow> nat \<Rightarrow> (nat \<times> nat) list \<Rightarrow> bool" where
  "bounded_ranges i n rs \<longleftrightarrow> (\<forall>r\<in>set rs. fst r \<le> i \<and> snd r \<le> n) \<and> (rs \<noteq> [] \<longrightarrow> snd (last rs) = n)"

lemma ranges_loop_bounded:
  "bounded_ranges i n rs \<Longrightarrow> i + length es \<le> n \<Longrightarrow> bounded_ranges (i + length es) n (ranges_loop ps S n i pu rs es)"
proof (induction es arbitrary: i pu rs)
  case (Cons e es)
  have "bounded_ranges (Suc i) n rs" using Cons.prems by (auto simp: bounded_ranges_def intro: le_SucI)
  moreover have "bounded_ranges (Suc i) n (update_last (\<lambda>r. (fst r, i)) rs @ [(i, n)])"
    using Cons.prems by (cases rs rule: rev_cases) (auto simp: bounded_ranges_def intro: le_SucI)
  ultimately have "bounded_ranges (Suc i) n (if rs = [] \<or> te_kind e = ''user'' \<and> (\<not> pu \<or> te_id e \<in> S)
      then update_last (\<lambda>r. (fst r, i)) rs @ [(i, n)] else rs)" (is "bounded_ranges _ _ ?rs") by simp
  then have "bounded_ranges (Suc i + length es) n (ranges_loop ps S n (Suc i) (te_kind e = ''user'') ?rs es)"
    using Cons.prems(2) by (intro Cons.IH) simp_all
  moreover have "bounded_ranges (Suc i + length es) n (ranges_loop ps S n (Suc i) pu rs es)"
    using Cons.prems(2) \<open>bounded_ranges (Suc i) n rs\<close> by (intro Cons.IH) simp_all
  ultimately show ?case unfolding ranges_loop.simps Let_def by simp
qed simp

lemma ranges_bounded: "bounded_ranges (length (ss_entries t)) (length (ss_entries t)) (ranges t)"
  unfolding ranges_def using ranges_loop_bounded [of 0 "length (ss_entries t)" "[]" "ss_entries t"] by (simp add: bounded_ranges_def)

section \<open>Summaries\<close>

definition without_revision :: "cached_turn \<Rightarrow> cached_turn" where
  "without_revision turn = turn\<lparr>ct_summary := (ct_summary turn)\<lparr>to_revision := 0\<rparr>\<rparr>"

definition same_context :: "session_snapshot \<Rightarrow> session_snapshot \<Rightarrow> bool" where
  "same_context t0 t \<longleftrightarrow> ss_permissions t = ss_permissions t0 \<and> ss_turns t = ss_turns t0 \<and> ss_status t = ss_status t0 \<and>
     ss_error t = ss_error t0 \<and> ss_stop_reason t = ss_stop_reason t0"

lemma summarize_cong:
  assumes "same_context t0 t" "range_entries t r = range_entries t0 r"
  shows "without_revision (summarize t r latest u) = without_revision (summarize t0 r latest u)"
proof -
  from assms(1) have c: "ss_permissions t = ss_permissions t0" "ss_turns t = ss_turns t0" "ss_status t = ss_status t0"
    "ss_error t = ss_error t0" "ss_stop_reason t = ss_stop_reason t0" by (simp_all add: same_context_def)
  have "overview_status t = overview_status t0" by (intro ext) (simp only: overview_status_def c)
  with c assms(2) show ?thesis by (simp add: summarize_def Let_def without_revision_def)
qed

lemma summarize_users:
  "without_revision turn = without_revision (summarize t r latest None) \<Longrightarrow>
     to_user (ct_summary turn) = turn_users (ss_permissions t) (range_entries t r)"
  unfolding without_revision_def
  by (drule arg_cong [where f = "\<lambda>turn. to_user (ct_summary turn)"]) (simp add: summarize_def Let_def)

lemma summarize_Some:
  "summarize t r latest (Some (turn_users (ss_permissions t) (range_entries t r))) = summarize t r latest None"
  by (simp add: summarize_def Let_def)

lemma turn_users_alike:
  assumes "list_all2 (alike ps) xs ys" "\<forall>e\<in>set new. te_kind e \<noteq> ''user''"
  shows "turn_users ps (ys @ new) = turn_users ps xs"
  using assms
proof (induction rule: list_all2_induct)
  case Nil
  then show ?case by (auto simp: turn_users_def filter_empty_conv dest: set_takeWhileD)
next
  case (Cons x xs y ys)
  then show ?case by (auto simp: turn_users_def alike_def)
qed

definition cache_ok :: "overview_cache \<Rightarrow> session_snapshot \<Rightarrow> bool" where
  "cache_ok c t \<longleftrightarrow> oc_generation c = ss_sync_generation t \<and> oc_revision c = ss_revision t \<and> oc_length c = length (ss_entries t) \<and>
     oc_visibility c = map (visible (ss_permissions t)) (ss_entries t) \<and> oc_ranges c = ranges t \<and>
     map without_revision (oc_turns c) = map without_revision (summarize_all t (ranges t))"

lemma nth_summarize_all: "k < length rs \<Longrightarrow> summarize_all t rs ! k = summarize t (rs ! k) (Suc k = length rs) None"
  by (simp add: summarize_all_def nth_enumerate_eq)

lemma length_summarize_all [simp]: "length (summarize_all t rs) = length rs"
  by (simp add: summarize_all_def)

lemma nth_end_at: "k < length rs \<Longrightarrow> end_at n rs ! k = (if Suc k = length rs then (fst (rs ! k), n) else rs ! k)"
  by (cases rs rule: rev_cases) (auto simp: nth_append end_at_def)

lemma length_end_at [simp]: "length (end_at n rs) = length rs"
  by (cases rs rule: rev_cases) (simp_all add: end_at_def)

section \<open>Extending the cache\<close>

text \<open>The two models when nothing forces a rebuild.\<close>

definition extended :: "session_snapshot \<Rightarrow> nat list \<Rightarrow> session_snapshot \<Rightarrow> bool" where
  "extended t0 changed t \<longleftrightarrow> same_context t0 t \<and> length (ss_entries t0) \<le> length (ss_entries t) \<and>
     list_all2 (alike (ss_permissions t)) (ss_entries t0) (take (length (ss_entries t0)) (ss_entries t)) \<and>
     (\<forall>e\<in>set (drop (length (ss_entries t0)) (ss_entries t)). te_kind e \<noteq> ''user'') \<and>
     (\<forall>i<length (ss_entries t0). i \<notin> set changed \<longrightarrow> ss_entries t ! i = ss_entries t0 ! i)"

lemma extended_of_covers:
  assumes c: "covers t0 cs t" and ok: "cache_ok c t0" and d: "\<not> cache_differs t (entry_changes cs) c"
  shows "extended t0 (entry_changes cs) t"
proof -
  note len = covers_entries(1) [OF c] and hd = covers_entries(2) [OF c] and same = covers_entries(3) [OF c]
  have ctx: "same_context t0 t" using covers_context [OF c] by (simp add: same_context_def)
  have u: "te_kind (ss_entries t ! i) \<noteq> ''user''" if "i \<in> set (entry_changes cs)" for i
    using d that by (auto simp: cache_differs_def list_ex_iff)
  have v: "visible (ss_permissions t) (ss_entries t ! i) = visible (ss_permissions t) (ss_entries t0 ! i)" if "i < length (ss_entries t0)" for i
  proof (cases "i \<in> set (entry_changes cs)")
    case True
    then have "\<not> visibility_differs t (oc_visibility c) i" using d by (auto simp: cache_differs_def list_ex_iff)
    then show ?thesis using ok that ctx by (simp add: visibility_differs_def cache_ok_def same_context_def)
  next
    case False
    with same that len show ?thesis by simp
  qed
  have "alike (ss_permissions t) (ss_entries t0 ! i) (ss_entries t ! i)" if "i < length (ss_entries t0)" for i
    using hd [OF that] v [OF that] u [of i] same [of i] that len by (fastforce simp: alike_def)
  then have "list_all2 (alike (ss_permissions t)) (ss_entries t0) (take (length (ss_entries t0)) (ss_entries t))"
    using len by (auto simp: list_all2_conv_all_nth)
  moreover have "te_kind e \<noteq> ''user''" if "e \<in> set (drop (length (ss_entries t0)) (ss_entries t))" for e
  proof -
    from that obtain i where "i < length (ss_entries t)" "length (ss_entries t0) \<le> i" "e = ss_entries t ! i"
      by (auto simp: in_set_conv_nth) (metis add.commute le_add1 less_diff_conv)
    then show ?thesis using u [of i] same [of i] by (cases "i \<in> set (entry_changes cs)") auto
  qed
  ultimately show ?thesis using ctx len same by (auto simp: extended_def)
qed

lemma extended_ranges:
  assumes "extended t0 changed t" "ranges t0 \<noteq> []"
  shows "ranges t = end_at (length (ss_entries t)) (ranges t0)"
proof -
  let ?es = "take (length (ss_entries t0)) (ss_entries t)" and ?new = "drop (length (ss_entries t0)) (ss_entries t)"
  have "ranges_loop (ss_permissions t) S (length (ss_entries t)) 0 False (end_at (length (ss_entries t)) []) (?es @ ?new) =
      end_at (length (ss_entries t)) (ranges_loop (ss_permissions t) S (length (ss_entries t0)) 0 False [] (ss_entries t0))"
    if "ranges_loop (ss_permissions t) S (length (ss_entries t0)) 0 False [] (ss_entries t0) \<noteq> []" for S
    using assms(1) that by (intro ranges_loop_extend) (auto simp: extended_def)
  with assms show ?thesis by (simp add: ranges_def extended_def same_context_def end_at_def)
qed

lemma extended_range_entries:
  assumes "extended t0 changed t" "a \<le> length (ss_entries t0)" "b \<le> length (ss_entries t0)"
    and "b' = b \<or> b = length (ss_entries t0) \<and> b' = length (ss_entries t)"
  shows "\<exists>ys new. range_entries t (a, b') = ys @ new \<and> list_all2 (alike (ss_permissions t)) (range_entries t0 (a, b)) ys \<and>
    (\<forall>e\<in>set new. te_kind e \<noteq> ''user'')"
proof -
  let ?n = "length (ss_entries t0)"
  let ?ys = "take (b - a) (drop a (take ?n (ss_entries t)))"
  have l: "list_all2 (alike (ss_permissions t)) (range_entries t0 (a, b)) ?ys"
    using assms(1) by (auto simp: extended_def range_entries_def intro: list_all2_takeI list_all2_dropI)
  from assms(4) show ?thesis
  proof
    assume "b' = b"
    then have "range_entries t (a, b') = ?ys" using assms(3) by (simp add: range_entries_def drop_take min_def)
    with l show ?thesis by (intro exI [of _ ?ys] exI [of _ "[]"]) simp
  next
    assume b: "b = ?n \<and> b' = length (ss_entries t)"
    then have "range_entries t (a, b') = ?ys @ drop ?n (ss_entries t)"
      using assms(1,2) by (simp add: range_entries_def extended_def drop_take) (metis append_take_drop_id drop_drop le_add_diff_inverse2)
    with l assms(1) show ?thesis by (intro exI [of _ ?ys] exI [of _ "drop ?n (ss_entries t)"]) (simp add: extended_def)
  qed
qed

lemma extended_same_range:
  assumes "extended t0 changed t" "snd r \<le> length (ss_entries t0)" "\<forall>j\<in>set changed. \<not> (fst r \<le> j \<and> j < snd r)"
  shows "range_entries t r = range_entries t0 r"
proof (rule nth_equalityI)
  show "length (range_entries t r) = length (range_entries t0 r)"
    using assms(1,2) by (auto simp: range_entries_def extended_def min_def)
  fix i assume "i < length (range_entries t r)"
  then have "i < snd r - fst r" by (simp add: range_entries_def)
  then have "fst r + i < snd r" by linarith
  moreover from this have "fst r + i \<notin> set changed" using assms(3) by auto
  ultimately show "range_entries t r ! i = range_entries t0 r ! i"
    using assms(1,2) by (auto simp: range_entries_def extended_def)
qed

lemma extend_cache_turn:
  assumes e: "extended t0 changed t" and k: "k < length (ranges t0)"
    and turn: "without_revision turn = without_revision (summarize t0 (ranges t0 ! k) (Suc k = length (ranges t0)) None)"
  defines "r \<equiv> end_at (length (ss_entries t)) (ranges t0) ! k" and "latest \<equiv> Suc k = length (ranges t0)"
  shows "without_revision (if list_ex (\<lambda>j. fst r \<le> j \<and> j < snd r) changed \<or> latest \<and> length (ss_entries t0) \<noteq> length (ss_entries t)
      then summarize t r latest (Some (to_user (ct_summary turn))) else turn) = without_revision (summarize t r latest None)"
proof -
  let ?r0 = "ranges t0 ! k" and ?n = "length (ss_entries t0)"
  have b: "fst ?r0 \<le> ?n" "snd ?r0 \<le> ?n" "latest \<Longrightarrow> snd ?r0 = ?n"
  proof -
    have "?r0 \<in> set (ranges t0)" using k by simp
    then show "fst ?r0 \<le> ?n" "snd ?r0 \<le> ?n" using ranges_bounded [of t0] by (auto simp: bounded_ranges_def)
    assume latest
    then have "?r0 = last (ranges t0)" using k by (cases "ranges t0" rule: rev_cases) (auto simp: latest_def nth_append)
    then show "snd ?r0 = ?n" using ranges_bounded [of t0] k by (auto simp: bounded_ranges_def)
  qed
  have r: "fst r = fst ?r0" "snd r = snd ?r0 \<or> latest \<and> snd r = length (ss_entries t)"
    using k by (auto simp: r_def nth_end_at latest_def)
  have ctx: "same_context t0 t" using e by (simp add: extended_def)
  have users: "to_user (ct_summary turn) = turn_users (ss_permissions t) (range_entries t r)"
  proof -
    have "snd r = snd ?r0 \<or> snd ?r0 = ?n \<and> snd r = length (ss_entries t)" using r b(3) by blast
    then obtain ys new where "range_entries t (fst ?r0, snd r) = ys @ new"
        "list_all2 (alike (ss_permissions t)) (range_entries t0 (fst ?r0, snd ?r0)) ys" "\<forall>e\<in>set new. te_kind e \<noteq> ''user''"
      using extended_range_entries [OF e b(1,2)] by blast
    moreover have "to_user (ct_summary turn) = turn_users (ss_permissions t) (range_entries t0 ?r0)"
      using summarize_users [OF turn] ctx by (simp add: same_context_def)
    ultimately show ?thesis using turn_users_alike r(1) by (metis prod.collapse)
  qed
  show ?thesis
  proof (cases "list_ex (\<lambda>j. fst r \<le> j \<and> j < snd r) changed \<or> latest \<and> ?n \<noteq> length (ss_entries t)")
    case True
    then show ?thesis by (simp add: users summarize_Some)
  next
    case False
    then have "r = ?r0" using r b(3) by (metis prod.expand)
    moreover have "range_entries t r = range_entries t0 r"
      using False \<open>r = ?r0\<close> b(2) by (intro extended_same_range [OF e]) (auto simp: list_ex_iff)
    then have "without_revision (summarize t r latest None) = without_revision (summarize t0 r latest None)"
      by (rule summarize_cong [OF ctx])
    ultimately have "without_revision turn = without_revision (summarize t r latest None)"
      using turn unfolding latest_def by (simp only:)
    then show ?thesis unfolding if_not_P [OF False] .
  qed
qed

lemma extend_cache_ok:
  assumes e: "extended t0 changed t" and ok: "cache_ok c t0" and ne: "oc_ranges c \<noteq> []"
  shows "cache_ok ((extend_cache t changed c)\<lparr>oc_generation := ss_sync_generation t, oc_revision := ss_revision t, oc_length := length (ss_entries t)\<rparr>) t"
proof -
  have rs: "oc_ranges c = ranges t0" "ranges t = end_at (length (ss_entries t)) (ranges t0)"
    using ok ne extended_ranges [OF e] by (simp_all add: cache_ok_def)
  have ts: "map without_revision (oc_turns c) = map without_revision (summarize_all t0 (ranges t0))"
    using ok by (simp add: cache_ok_def)
  then have lt: "length (oc_turns c) = length (ranges t0)" by (metis length_map length_summarize_all)
  have turn: "without_revision (oc_turns c ! k) = without_revision (summarize t0 (ranges t0 ! k) (Suc k = length (ranges t0)) None)"
    if "k < length (ranges t0)" for k
    using arg_cong [OF ts, of "\<lambda>xs. xs ! k"] that lt by (simp add: nth_summarize_all)
  have len: "oc_length c = length (ss_entries t0)" using ok by (simp add: cache_ok_def)
  have "map without_revision (oc_turns (extend_cache t changed c)) = map without_revision (summarize_all t (ranges t))"
  proof (rule nth_equalityI)
    show l: "length (map without_revision (oc_turns (extend_cache t changed c))) = length (map without_revision (summarize_all t (ranges t)))"
      by (simp add: extend_cache_def Let_def rs lt flip: end_at_def)
    fix k assume "k < length (map without_revision (oc_turns (extend_cache t changed c)))"
    then have k: "k < length (ranges t0)" using l rs(2) by simp
    show "map without_revision (oc_turns (extend_cache t changed c)) ! k = map without_revision (summarize_all t (ranges t)) ! k"
    proof -
      let ?r = "end_at (length (ss_entries t)) (ranges t0) ! k" and ?latest = "Suc k = length (ranges t0)"
      have "oc_turns (extend_cache t changed c) ! k =
          (if list_ex (\<lambda>j. fst ?r \<le> j \<and> j < snd ?r) changed \<or> ?latest \<and> length (ss_entries t0) \<noteq> length (ss_entries t)
           then summarize t ?r ?latest (Some (to_user (ct_summary (oc_turns c ! k)))) else oc_turns c ! k)"
        using k lt by (simp add: extend_cache_def Let_def rs(1) nth_enumerate_eq len flip: end_at_def)
      then have "without_revision (oc_turns (extend_cache t changed c) ! k) = without_revision (summarize t ?r ?latest None)"
        by (simp only: extend_cache_turn [OF e k turn [OF k]])
      then show ?thesis using k l rs(2) by (simp add: nth_summarize_all)
    qed
  qed
  moreover have "oc_visibility c @ map (visible (ss_permissions t)) (drop (oc_length c) (ss_entries t)) = map (visible (ss_permissions t)) (ss_entries t)"
  proof -
    have "oc_visibility c = map (visible (ss_permissions t)) (ss_entries t0)"
      using ok e by (simp add: cache_ok_def extended_def same_context_def)
    also have "\<dots> = map (visible (ss_permissions t)) (take (length (ss_entries t0)) (ss_entries t))"
      using e by (auto simp: extended_def list_all2_conv_all_nth alike_def intro!: nth_equalityI)
    finally show ?thesis unfolding len by (simp flip: map_append)
  qed
  ultimately show ?thesis by (simp add: cache_ok_def) (simp add: extend_cache_def Let_def rs flip: end_at_def)
qed

lemma rebuild_cache_ok:
  "cache_ok ((rebuild_cache t c)\<lparr>oc_generation := ss_sync_generation t, oc_revision := ss_revision t, oc_length := length (ss_entries t)\<rparr>) t"
  by (simp add: cache_ok_def rebuild_cache_def Let_def)

section \<open>Readings between commits\<close>

text \<open>The models of a conversation, the newest first, and the cache left by the last reading of its overview.\<close>

inductive cached_run :: "acp_codec \<Rightarrow> session_snapshot list \<Rightarrow> overview_cache \<Rightarrow> bool" for codec where
  opened: "fresh_log t \<Longrightarrow> cached_run codec [t] overview_cache_default"
| committed: "cached_run codec (t # ts) c \<Longrightarrow> acp_step codec t t' \<Longrightarrow> cached_run codec (t' # t # ts) c"
| overview_read: "cached_run codec (t # ts) c \<Longrightarrow> refresh_cache t c = Some c' \<Longrightarrow> cached_run codec (t # ts) c'"

lemma cached_run_is_run: "cached_run codec ts c \<Longrightarrow> acp_run codec ts"
  by (induction rule: cached_run.induct) (auto intro: acp_run.intros)

lemma in_entry_changes: "i \<in> set (entry_changes cs) \<longleftrightarrow> (\<exists>start. Change_Entry i start \<in> set cs)"
proof (induction cs)
  case (Cons c cs)
  then show ?case by (cases c) (auto simp: entry_changes_def List.map_filter_def)
qed (simp add: entry_changes_def)

lemma changes_in_log: "i \<in> set (entry_changes (changes_since r t)) \<Longrightarrow> log_ok t \<Longrightarrow>
    i \<in> set (entry_changes (changes_since (cl_base_revision (ss_changes t)) t))"
proof -
  assume a: "i \<in> set (entry_changes (changes_since r t))" "log_ok t"
  then have "filter (\<lambda>h. cl_base_revision (ss_changes t) < fst h) (cl_history (ss_changes t)) = cl_history (ss_changes t)"
    by (simp add: log_ok_def)
  with a(1) show ?thesis by (auto simp: in_entry_changes changes_since_def) (metis snd_conv)
qed

lemma logged_changes_in_range:
  assumes "acp_run codec ts" "i \<in> set (entry_changes (changes_since r (hd ts)))"
  shows "i < length (ss_entries (hd ts))"
proof -
  let ?t = "hd ts"
  have ok: "log_ok ?t" "\<forall>t1\<in>set ts. run_ok t1 ?t" "log_revisions ?t \<subseteq> ss_revision ` set ts"
    using acp_run_ok [OF assms(1)] by auto
  then obtain t1 where t1: "t1 \<in> set ts" "ss_revision t1 = cl_base_revision (ss_changes ?t)" by (auto simp: log_revisions_def)
  then have "covers t1 (changes_since (ss_revision t1) ?t) ?t" using ok(2) by (auto simp: run_ok_def)
  then show ?thesis using covers_changed changes_in_log [OF assms(2) ok(1)] t1(2) by simp
qed

definition same_overview :: "overview_cache \<Rightarrow> overview_cache \<Rightarrow> bool" where
  "same_overview c1 c2 \<longleftrightarrow> oc_ranges c1 = oc_ranges c2 \<and> oc_visibility c1 = oc_visibility c2 \<and> oc_length c1 = oc_length c2 \<and>
     map without_revision (oc_turns c1) = map without_revision (oc_turns c2)"

lemma cache_ok_same_overview: "cache_ok c1 t \<Longrightarrow> cache_ok c2 t \<Longrightarrow> same_overview c1 c2"
  by (simp add: cache_ok_def same_overview_def)

lemma cache_ok_layout [simp]: "cache_ok (c\<lparr>oc_layout_revision := n\<rparr>) t \<longleftrightarrow> cache_ok c t"
  by (simp add: cache_ok_def)

lemma cache_differs_layout [simp]: "cache_differs t changed (c\<lparr>oc_layout_revision := n\<rparr>) \<longleftrightarrow> cache_differs t changed c"
  by (simp add: cache_differs_def)

lemma cache_kept: "\<not> cache_differs t changed c \<Longrightarrow> oc_ranges c \<noteq> [] \<and> cl_base_revision (ss_changes t) \<le> oc_revision c"
  by (auto simp: cache_differs_def)

lemma refresh_default:
  assumes "acp_run codec (t # ts)" "ss_sync_generation t \<noteq> []"
  shows "\<exists>c. refresh_cache t overview_cache_default = Some c \<and> cache_ok c t"
proof -
  let ?changed = "entry_changes (changes_since 0 t)"
  have g: "oc_generation overview_cache_default \<noteq> ss_sync_generation t" "oc_revision overview_cache_default = 0"
    using assms(2) by (simp_all add: overview_cache_default_def)
  then have d: "cache_differs t ?changed overview_cache_default" by (simp add: cache_differs_def)
  have r: "\<not> list_ex (\<lambda>i. length (ss_entries t) \<le> i) ?changed"
    using logged_changes_in_range [OF assms(1)] by (fastforce simp: list_ex_iff not_le)
  show ?thesis using g r d rebuild_cache_ok by (auto simp: refresh_cache_def Let_def)
qed

lemma refresh_cached:
  assumes run: "acp_run codec (t # ts)" and t0: "t0 \<in> set (t # ts)" and ok: "cache_ok c t0"
  shows "\<exists>c'. refresh_cache t c = Some c' \<and> cache_ok c' t"
proof -
  have k: "run_ok t0 t" using acp_run_ok [OF run] t0 by auto
  have c: "oc_generation c = ss_sync_generation t" "oc_revision c = ss_revision t0" using ok k by (simp_all add: cache_ok_def run_ok_def)
  show ?thesis
  proof (cases "ss_revision t0 = ss_revision t")
    case True
    then show ?thesis using k c ok by (simp add: refresh_cache_def run_ok_def)
  next
    case False
    let ?changed = "entry_changes (changes_since (oc_revision c) t)"
    let ?c = "if list_ex (\<lambda>i. te_kind (ss_entries t ! i) \<in> {''assistant'', ''steering''} \<and> visibility_differs t (oc_visibility c) i) ?changed
      then c\<lparr>oc_layout_revision := ss_revision t\<rparr> else c"
    have r: "\<not> list_ex (\<lambda>i. length (ss_entries t) \<le> i) ?changed"
      using logged_changes_in_range [OF run] by (fastforce simp: list_ex_iff not_le)
    have ok': "cache_ok ?c t0" "oc_revision ?c = ss_revision t0" using ok c by simp_all
    let ?c' = "(if cache_differs t ?changed ?c then rebuild_cache t ?c else extend_cache t ?changed ?c)
      \<lparr>oc_generation := ss_sync_generation t, oc_revision := ss_revision t, oc_length := length (ss_entries t)\<rparr>"
    have "cache_ok ?c' t"
    proof (cases "cache_differs t ?changed ?c")
      case d: False
      then have n: "oc_ranges ?c \<noteq> []" "cl_base_revision (ss_changes t) \<le> ss_revision t0"
        using cache_kept [OF d] unfolding ok'(2) by blast+
      then have "covers t0 (changes_since (oc_revision c) t) t" using k c(2) by (simp add: run_ok_def)
      from extended_of_covers [OF this ok'(1) d] have "extended t0 ?changed t" .
      from extend_cache_ok [OF this ok'(1) n(1)] d show ?thesis by simp
    qed (simp only: if_True rebuild_cache_ok)
    moreover have "refresh_cache t c = Some ?c'" using False r c unfolding refresh_cache_def Let_def by simp
    ultimately show ?thesis by blast
  qed
qed

lemma cached_run_cache:
  "cached_run codec ts c \<Longrightarrow> ss_sync_generation (hd ts) \<noteq> [] \<Longrightarrow> c = overview_cache_default \<or> (\<exists>t0\<in>set ts. cache_ok c t0)"
proof (induction rule: cached_run.induct)
  case (committed t ts c t')
  have "run_ok t t'" using acp_run_ok [OF acp_run.committed [OF cached_run_is_run [OF committed(1)] committed(2)]] by simp
  then show ?case using committed by (auto simp: run_ok_def)
next
  case (overview_read t ts c c')
  note run = cached_run_is_run [OF overview_read(1)]
  from overview_read have "c = overview_cache_default \<or> (\<exists>t0\<in>set (t # ts). cache_ok c t0)" by simp
  then have "cache_ok c' t"
  proof
    assume "c = overview_cache_default"
    then show ?thesis using refresh_default [OF run] overview_read(2,4) by auto
  next
    assume "\<exists>t0\<in>set (t # ts). cache_ok c t0"
    then show ?thesis using refresh_cached [OF run] overview_read(2) by fastforce
  qed
  then show ?case by simp
qed simp

text \<open>C6: however committed changes and readings of the overview interleave, reading the overview of a conversation
  succeeds, and the cache it extends has the turns, ranges, visible entries and messages that computing the overview from
  nothing gives; only the revision a turn was last summarised at may differ.\<close>

theorem cached_overview_is_current:
  assumes "cached_run codec (t # ts) c" "ss_sync_generation t \<noteq> []"
  shows "\<exists>c1 c2. refresh_cache t c = Some c1 \<and> refresh_cache t overview_cache_default = Some c2 \<and> same_overview c1 c2"
proof -
  note run = cached_run_is_run [OF assms(1)]
  obtain c2 where c2: "refresh_cache t overview_cache_default = Some c2" "cache_ok c2 t" using refresh_default [OF run assms(2)] by blast
  obtain c1 where "refresh_cache t c = Some c1" "cache_ok c1 t"
    using cached_run_cache [OF assms(1)] assms(2) refresh_cached [OF run, of _ c] c2 by auto
  with c2 show ?thesis using cache_ok_same_overview by blast
qed

text \<open>The overview is read after the first chunk and again after the second.\<close>

lemma sample_overview_read: "\<not> Option.is_none (refresh_cache (sample_step ''Hel'' sample_thread) overview_cache_default)"
  by code_simp

theorem cached_overview_is_current_witness:
  "\<exists>c c1 c2. refresh_cache (sample_step ''Hel'' sample_thread) overview_cache_default = Some c \<and>
     refresh_cache (sample_step ''lo'' (sample_step ''Hel'' sample_thread)) c = Some c1 \<and>
     refresh_cache (sample_step ''lo'' (sample_step ''Hel'' sample_thread)) overview_cache_default = Some c2 \<and> same_overview c1 c2"
proof -
  let ?t1 = "sample_step ''Hel'' sample_thread"
  obtain c where c: "refresh_cache ?t1 overview_cache_default = Some c"
    using sample_overview_read by (auto simp: Option.is_none_def)
  have "fresh_log sample_thread" by (simp add: fresh_log_def sample_thread_def new_snapshot_def change_log_default_def)
  then have run: "cached_run plain_codec [sample_step ''lo'' ?t1, ?t1, sample_thread] c"
    using c by (intro cached_run.committed sample_acp_step sample_steps cached_run.overview_read [OF _ c] cached_run.opened)
  have "ss_sync_generation (sample_step ''lo'' ?t1) \<noteq> []" by code_simp
  from cached_overview_is_current [OF run this] c show ?thesis by blast
qed

end
