(* ===== verification/Acp_Calm.thy ===== *)
theory Acp_Calm
  imports Acp_Overview_Cache
begin

text \<open>
  What the incremental changes of a conversation leave alone: between two commits of the log only tools, compactions
  and the last message change, and no steering card comes or goes. Everything else resets the log.
\<close>

definition calm :: "session_snapshot \<Rightarrow> nat list \<Rightarrow> session_snapshot \<Rightarrow> bool" where
  "calm t0 js t \<longleftrightarrow> prefix (heads t0) (heads t) \<and>
     (\<forall>i\<in>set js. i < length (ss_entries t) \<and>
        (length (ss_entries t0) \<le> i \<or> te_kind (ss_entries t ! i) \<in> {''tool'', ''compaction_update''} \<or>
         Suc i = length (ss_entries t0) \<and> te_kind (ss_entries t ! i) \<noteq> ''steering'')) \<and>
     (\<forall>i<length (ss_entries t). length (ss_entries t0) \<le> i \<longrightarrow> te_kind (ss_entries t ! i) \<noteq> ''steering'')"

lemma prefix_heads:
  assumes "prefix (heads t0) (heads t)"
  shows "length (ss_entries t0) \<le> length (ss_entries t)"
    and "i < length (ss_entries t0) \<Longrightarrow> te_id (ss_entries t ! i) = te_id (ss_entries t0 ! i) \<and> te_kind (ss_entries t ! i) = te_kind (ss_entries t0 ! i)"
proof -
  show l: "length (ss_entries t0) \<le> length (ss_entries t)" using prefix_length_le [OF assms] by (simp add: heads_def)
  assume i: "i < length (ss_entries t0)"
  then have "heads t0 ! i = heads t ! i" using assms by (auto simp: prefix_def nth_append heads_def)
  then show "te_id (ss_entries t ! i) = te_id (ss_entries t0 ! i) \<and> te_kind (ss_entries t ! i) = te_kind (ss_entries t0 ! i)"
    using i l by (simp add: heads_def)
qed

lemma calm_refl [simp]: "calm t [] t"
  by (simp add: calm_def)

lemma calm_trans:
  assumes "calm t0 js t" "calm t ks t'"
  shows "calm t0 (js @ ks) t'"
proof -
  note p0 = prefix_heads(1) [of t0 t] and p = prefix_heads(2) [of t t']
  have 1: "i < length (ss_entries t') \<and> (length (ss_entries t0) \<le> i \<or> te_kind (ss_entries t' ! i) \<in> {''tool'', ''compaction_update''} \<or>
      Suc i = length (ss_entries t0) \<and> te_kind (ss_entries t' ! i) \<noteq> ''steering'')" if "i \<in> set js" for i
    using that assms p [of i] prefix_heads(1) [of t t'] by (fastforce simp: calm_def)
  have 2: "i < length (ss_entries t') \<and> (length (ss_entries t0) \<le> i \<or> te_kind (ss_entries t' ! i) \<in> {''tool'', ''compaction_update''} \<or>
      Suc i = length (ss_entries t0) \<and> te_kind (ss_entries t' ! i) \<noteq> ''steering'')" if "i \<in> set ks" for i
  proof -
    have "i < length (ss_entries t') \<and> (length (ss_entries t) \<le> i \<or> te_kind (ss_entries t' ! i) \<in> {''tool'', ''compaction_update''} \<or>
        Suc i = length (ss_entries t) \<and> te_kind (ss_entries t' ! i) \<noteq> ''steering'')"
      using that assms(2) by (simp add: calm_def)
    moreover have "length (ss_entries t0) \<le> length (ss_entries t)" using p0 assms(1) by (simp add: calm_def)
    ultimately show ?thesis by (cases "length (ss_entries t0) \<le> i") auto
  qed
  have 3: "te_kind (ss_entries t' ! i) \<noteq> ''steering''" if "i < length (ss_entries t')" "length (ss_entries t0) \<le> i" for i
  proof (cases "i < length (ss_entries t)")
    case True
    with that assms p [of i] show ?thesis by (simp add: calm_def)
  next
    case False
    with that assms show ?thesis by (simp add: calm_def)
  qed
  have "prefix (heads t0) (heads t')" using assms by (auto simp: calm_def intro: prefix_order.trans)
  with 1 2 3 show ?thesis unfolding calm_def by auto
qed

lemma entry_changes_append [simp]: "entry_changes (cs @ ds) = entry_changes cs @ entry_changes ds"
  by (simp add: entry_changes_def List.map_filter_def)

definition quiet :: "session_snapshot \<Rightarrow> session_snapshot \<Rightarrow> bool" where
  "quiet t t' \<longleftrightarrow> (\<exists>cs. pending t' = pending t @ cs \<and> calm t (entry_changes cs) t')"

lemma quiet_refl [simp]: "quiet t t"
  by (auto simp: quiet_def entry_changes_def intro: exI [of _ "[]"])

lemma quiet_trans: "quiet t u \<Longrightarrow> quiet u v \<Longrightarrow> quiet t v"
  unfolding quiet_def by (metis append_assoc calm_trans entry_changes_append)

lemma quiet_same: "ss_entries u = ss_entries t \<Longrightarrow> pending u = pending t @ cs \<Longrightarrow> entry_changes cs = [] \<Longrightarrow> quiet t u"
  by (auto simp: quiet_def calm_def heads_def)

lemma calm_push_change [simp]: "calm t js (push_change c u) \<longleftrightarrow> calm t js u"
  by (simp add: calm_def)

lemma quiet_push: "pending u = pending t \<Longrightarrow> calm t (entry_changes [c]) u \<Longrightarrow> quiet t (push_change c u)"
  by (auto simp: quiet_def)

lemma entry_changes_single [simp]:
  "entry_changes [Change_Entry i start] = [i]" "entry_changes [Change_Terminal k start] = []" "entry_changes [Change_Field f] = []"
  by (simp_all add: entry_changes_def List.map_filter_def)

lemma calm_same: "ss_entries u = ss_entries t \<Longrightarrow> calm t [] u"
  by (simp add: calm_def heads_def)

lemma quiet_push_entry: "te_kind e \<noteq> ''steering'' \<Longrightarrow> quiet t (push_entry e t)"
  unfolding push_entry_def by (rule quiet_push) (auto simp: pending_def calm_def heads_def nth_append)

lemma heads_set_content: "heads (set_content i v t) = heads t"
proof (cases "i < length (ss_entries t)")
  case True
  have "(heads t)[i := (te_id (ss_entries t ! i), te_kind (ss_entries t ! i))] = heads t"
    using True by (metis (no_types, lifting) heads_def list_update_id nth_map)
  then show ?thesis by (simp add: heads_def set_content_def map_update)
qed (simp add: heads_def set_content_def list_update_beyond)

lemma quiet_set_content:
  assumes "i < length (ss_entries t)" "te_kind (ss_entries t ! i) \<in> {''tool'', ''compaction_update''}"
  shows "quiet t (push_change (Change_Entry i None) (set_content i v t))"
proof (rule quiet_push)
  show "calm t (entry_changes [Change_Entry i None]) (set_content i v t)"
    using assms unfolding calm_def heads_set_content by (auto simp: set_content_def)
qed (simp add: set_content_def pending_def)

lemma quiet_terminal: "pending u = pending t \<Longrightarrow> ss_entries u = ss_entries t \<Longrightarrow> quiet t (push_change (Change_Terminal k start) u)"
  by (rule quiet_push) (simp_all add: calm_same)

lemma quiet_set_terminal: "quiet t (push_change (Change_Terminal k start) (set_terminal k v t))"
  by (rule quiet_terminal) (simp_all add: set_terminal_def pending_def)

lemma quiet_terminal_output: "quiet t (terminal_output update t)"
  by (auto simp: terminal_output_def Let_def quiet_set_terminal split: option.split)

lemma quiet_apply_legacy_update: "apply_legacy_update update t = Some t' \<Longrightarrow> quiet t t'"
  by (auto simp: apply_legacy_update_def terminal_info_def terminal_exit_def Let_def bind_eq_Some_conv
    split: option.splits if_splits
    intro: quiet_set_terminal quiet_terminal_output quiet_trans [OF quiet_terminal_output quiet_set_terminal])

lemma quiet_hidden: "ss_entries u = ss_entries t \<Longrightarrow> ss_changes u = ss_changes t \<Longrightarrow> quiet t u"
  by (rule quiet_same [where cs = "[]"]) (simp_all add: pending_def entry_changes_def List.map_filter_def)

lemma quiet_consume_user_content: "consume_user_content content t = Some t' \<Longrightarrow> quiet t t'"
  by (rule quiet_hidden) (auto simp: consume_user_content_def consume_echo_def Let_def split: option.splits if_splits)

lemma quiet_fields: "ss_entries u = ss_entries t \<Longrightarrow> ss_changes u = ss_changes t \<Longrightarrow> quiet t (push_fields fs u)"
  by (rule quiet_same [where cs = "map Change_Field fs"])
    (simp_all add: pending_def [symmetric], simp_all add: pending_def entry_changes_def List.map_filter_def)

lemma quiet_field: "ss_entries u = ss_entries t \<Longrightarrow> ss_changes u = ss_changes t \<Longrightarrow> quiet t (push_change (Change_Field f) u)"
  using quiet_fields [of u t "[f]"] by (simp add: push_fields_def)

lemma quiet_add_chunk:
  assumes "add_chunk uuid role message_id content t = Some t'" "role \<noteq> ''steering''"
  shows "quiet t t'"
proof -
  let ?es = "ss_entries t" and ?e = "last (ss_entries t)"
  show ?thesis
  proof (cases "?es \<noteq> [] \<and> te_kind ?e = role \<and> can_merge_message_chunks (te_message_id ?e) message_id \<and>
      text_is (idx content ''type'') ''text'' \<and> text_is (idx (te_content ?e) ''type'') ''text''")
    case False
    with assms show ?thesis by (auto simp: add_chunk_def Let_def new_entry_def intro!: quiet_push_entry)
  next
    case True
    with assms obtain start e' where t': "t' = push_change (Change_Entry (length ?es - 1) start) (t\<lparr>ss_entries := butlast ?es @ [e']\<rparr>)"
      and e': "te_id e' = te_id ?e" "te_kind e' = te_kind ?e"
      by (auto simp: add_chunk_def Let_def bind_eq_Some_conv)
    have "map (\<lambda>e. (te_id e, te_kind e)) (butlast ?es) @ [(te_id ?e, te_kind ?e)] = map (\<lambda>e. (te_id e, te_kind e)) ?es"
      using True by (cases ?es rule: rev_cases) simp_all
    then show ?thesis
      unfolding t' using True assms(2) e' by (intro quiet_push) (auto simp: pending_def calm_def heads_def nth_append)
  qed
qed

lemma quiet_message_chunk: "message_chunk codec uuid (message_role kind) update t = Some t' \<Longrightarrow> quiet t t'"
  by (auto simp: message_chunk_def Let_def message_role_def split: option.splits if_splits
    intro: quiet_consume_user_content quiet_add_chunk)

lemma rposition_holds: "rposition p xs = Some i \<Longrightarrow> i < length xs \<and> p (xs ! i)"
  by (auto simp: rposition_def rev_nth dest!: position_Some)

lemma quiet_tool_update: "quiet t (tool_update update t)"
proof -
  have f: "quiet u (fold (\<lambda>ident. push_change (Change_Terminal ident None)) ids u)" for ids u
    by (induction ids arbitrary: u) (auto intro: quiet_trans quiet_terminal)
  have "quiet u (case rposition (\<lambda>e. te_kind e = ''tool'' \<and> te_id e = ident) (ss_entries u) of
      Some i \<Rightarrow> push_change (Change_Entry i None) (set_content i (merge_json (te_content (ss_entries u ! i)) update) u)
    | None \<Rightarrow> push_entry (new_entry ident ''tool'' None update) u)" for u ident
    by (auto split: option.split intro!: quiet_set_content quiet_push_entry dest!: rposition_holds simp: new_entry_def)
  with f show ?thesis unfolding tool_update_def Let_def by (blast intro: quiet_trans)
qed

lemma quiet_push_kind: "kind \<noteq> ''steering'' \<Longrightarrow> quiet t (push_kind uuid kind content t)"
  by (auto simp: push_kind_def new_entry_def intro!: quiet_push_entry quiet_field)

lemma quiet_set_title: "quiet t (set_title update t)"
  by (auto simp: set_title_def split: option.split intro: quiet_field)

lemma quiet_session_info_update: "quiet t (session_info_update update t)"
  by (auto simp: session_info_update_def Let_def quiet_set_title split: option.split json.split
    intro: quiet_trans [OF quiet_fields quiet_set_title])

lemma quiet_ensure_entry:
  "ensure_entry uuid ident t = (i, t') \<Longrightarrow> quiet t t' \<and> i < length (ss_entries t') \<and> te_kind (ss_entries t' ! i) = ''compaction_update''"
  by (auto simp: ensure_entry_def quiet_push_kind split: option.splits dest!: position_Some)
    (simp_all add: push_kind_def push_entry_def new_entry_def)

lemma quiet_compaction_update: "compaction_update codec uuid update t = Some t' \<Longrightarrow> quiet t t'"
  by (auto simp: compaction_update_def bind_eq_Some_conv split: option.splits prod.splits dest!: quiet_ensure_entry
    intro: quiet_trans [OF _ quiet_set_content])

lemma quiet_append_summary: "append_summary codec uuid chunk t = Some t' \<Longrightarrow> quiet t t'"
  by (auto simp: append_summary_def Let_def bind_eq_Some_conv split: option.splits prod.splits dest!: quiet_ensure_entry
    intro: quiet_trans [OF _ quiet_set_content])

lemma quiet_handle:
  assumes "activity update = None" "handle_session_update codec uuid update t = Some t'"
  shows "quiet t t'"
proof -
  obtain u where u: "apply_legacy_update update t = Some u"
    using assms by (auto simp: handle_session_update_def observe_activity_def bind_eq_Some_conv)
  then have "quiet t u" by (rule quiet_apply_legacy_update)
  moreover have "quiet u t'"
    using assms u unfolding handle_session_update_def Let_def
    by (auto simp: observe_activity_def bind_eq_Some_conv split: if_splits
      intro: quiet_message_chunk quiet_tool_update quiet_session_info_update quiet_push_kind quiet_compaction_update
        quiet_append_summary quiet_field quiet_fields)
  ultimately show ?thesis by (rule quiet_trans)
qed

section \<open>Commits\<close>

text \<open>From an earlier model that the log still reaches, the conversation has been working all the time.\<close>

definition calm_since :: "session_snapshot \<Rightarrow> session_snapshot \<Rightarrow> bool" where
  "calm_since t0 t \<longleftrightarrow> calm t0 (entry_changes (changes_since (ss_revision t0) t)) t \<and> (ss_revision t0 < ss_revision t \<longrightarrow> ss_status t = ''working'') \<and>
     cl_base_revision (ss_changes t0) \<le> cl_base_revision (ss_changes t)"

lemma calm_commit: "calm t js (u\<lparr>ss_revision := n, ss_updated_at := now, ss_changes := l\<rparr>) \<longleftrightarrow> calm t js u"
  by (simp add: calm_def heads_def)

lemma acp_step_calm:
  assumes "acp_step codec t t'" "log_ok t" "cl_base_revision (ss_changes t') \<le> r" "r \<le> ss_revision t"
  shows "ss_status t' = ''working'' \<and> (\<exists>js. entry_changes (changes_since r t') = entry_changes (changes_since r t) @ js \<and> calm t js t') \<and>
    cl_base_revision (ss_changes t) \<le> cl_base_revision (ss_changes t')"
  using assms
proof (induction rule: acp_step.induct)
  case (change now f t t' flush title_changed u)
  from update_thread_cases [OF change(1,2)] change show ?case by (auto simp: identity_def fresh_log_def)
next
  case (session now uuid update t t' flush title_changed)
  from session(1) obtain u where u: "handle_session_update codec uuid update t = Some u"
    by (auto simp: session_update_def update_thread_def bind_eq_Some_conv Let_def)
  have "identity u = identity t"
    using logged_identity [OF logged_handle_observed [OF u]] by (simp add: observe_activity_identity)
  note c = update_thread_cases [OF session(1) [unfolded session_update_def] u this]
  show ?case
  proof (cases "activity update = None \<and> ss_status t = ''working''")
    case False
    with c(1,2) session(3,4) show ?thesis by (auto simp: fresh_log_def)
  next
    case True
    then have l: "logged t u" and q: "quiet t u" using u by (auto intro: logged_handle quiet_handle)
    with True have t': "t' = u\<lparr>ss_revision := ss_revision t + 1, ss_updated_at := now, ss_changes := log_commit (ss_revision t + 1) (ss_changes u)\<rparr>"
      using c(3) by (simp add: logged_identity)
    have k: "changes_since r t' = changes_since r t @ pending u"
      using log_commit_ok(2) [OF session(2), of u t' r] l session(3,4) by (simp add: t' logged_def)
    have p: "pending t = []" using session(2) by (simp add: log_ok_def)
    from q p have "calm t (entry_changes (pending u)) t'" unfolding t' calm_commit by (auto simp: quiet_def)
    moreover have "ss_status t' = ''working''" using logged_identity [OF l] True by (simp add: t')
    moreover have "cl_base_revision (ss_changes t) \<le> cl_base_revision (ss_changes t')"
      using log_commit_ok(2) [OF session(2), of u t' "cl_base_revision (ss_changes t')"] l session(3,4) by (simp add: t' logged_def)
    ultimately show ?thesis using k by auto
  qed
qed

lemma acp_run_calm:
  "acp_run codec ts \<Longrightarrow> t1 \<in> set ts \<Longrightarrow> cl_base_revision (ss_changes (hd ts)) \<le> ss_revision t1 \<Longrightarrow> calm_since t1 (hd ts)"
proof (induction rule: acp_run.induct)
  case (opened t)
  then show ?case by (simp add: calm_since_def changes_since_def fresh_log_def entry_changes_def)
next
  case (committed t ts t')
  have ok: "log_ok t" using acp_run_ok [OF committed(1)] by simp
  show ?case
  proof (cases "t1 = t'")
    case True
    have "log_ok t'" using acp_run_ok [OF acp_run.committed [OF committed(1,2)]] by simp
    then have "changes_since (ss_revision t') t' = []" by (auto simp: log_ok_def changes_since_def filter_empty_conv not_less)
    then show ?thesis using True by (simp add: calm_since_def entry_changes_def)
  next
    case False
    then have t1: "t1 \<in> set (t # ts)" using committed by simp
    then have r: "ss_revision t1 \<le> ss_revision t" using acp_run_ok [OF committed(1)] by (auto simp: run_ok_def)
    note s = acp_step_calm [OF committed(2) ok _ r]
    have "cl_base_revision (ss_changes t') \<le> ss_revision t1" using committed by simp
    note s = s [OF this]
    then have "calm_since t1 t" using committed t1 by simp
    with s show ?thesis by (auto simp: calm_since_def intro: calm_trans)
  qed
qed

end
