(* ===== verification/Acp_Overview_Sync.thy ===== *)
theory Acp_Overview_Sync
  imports Acp_Overview_Delta Acp_Calm
begin

text \<open>
  Synchronization of the collapsed view: what a browser makes of its deltas (the specification, after
  \<open>applySessionUpdates\<close> and \<open>applyTurnPatch\<close> of \<open>frontend/src/features/acp/session_updates.ts\<close>), and that it
  then shows the turns of the current conversation.
\<close>

section \<open>The browser\<close>

definition apply_turn_patch :: "turn_overview option \<Rightarrow> turn_overview_patch \<Rightarrow> turn_overview option" where
  "apply_turn_patch previous patch =
     Option.bind (case tp_user patch of Some user \<Rightarrow> Some user | None \<Rightarrow> map_option to_user previous) (\<lambda>user.
     let old = Option.bind previous to_messages
     in Option.bind (case tp_messages patch of
            None \<Rightarrow> Some old
          | Some (Dialogue_Reset es) \<Rightarrow> Some (Some es)
          | Some (Dialogue_Delta ps) \<Rightarrow> Option.bind old (\<lambda>m. map_option Some (apply_entry_patches ps m))) (\<lambda>messages.
        Some \<lparr>to_id = tp_id patch, to_revision = tp_revision patch, to_user = user, to_conclusion = tp_conclusion patch,
          to_messages = messages, to_process_segments = tp_process_segments patch, to_tool_count = tp_tool_count patch,
          to_progress_count = tp_progress_count patch, to_running = tp_running patch, to_waiting = tp_waiting patch,
          to_compacting = tp_compacting patch, to_status = tp_status patch, to_error = tp_error patch,
          to_permission_tool_ids = tp_permission_tool_ids patch\<rparr>))"

fun apply_turn_patches :: "turn_overview list \<Rightarrow> turn_overview_patch list \<Rightarrow> turn_overview list option" where
  "apply_turn_patches [] patches = those (map (apply_turn_patch None) patches)"
| "apply_turn_patches (turn # turns) patches =
     Option.bind (case find (\<lambda>p. tp_id p = to_id turn) patches of
         Some p \<Rightarrow> apply_turn_patch (Some turn) p | None \<Rightarrow> Some turn) (\<lambda>next_turn.
     map_option (\<lambda>rest. next_turn # rest) (apply_turn_patches turns (filter (\<lambda>p. tp_id p \<noteq> to_id turn) patches)))"

text \<open>\<open>None\<close> asks for a full resynchronization. A collapsed view takes no delta of the whole conversation.\<close>

definition apply_overview :: "session_snapshot \<Rightarrow> session_updates \<Rightarrow> session_snapshot option" where
  "apply_overview previous update =
     (case update of
        Updates_Snapshot s \<Rightarrow> Some s
      | Updates_Unchanged \<Rightarrow> Some previous
      | Updates_Delta _ \<Rightarrow> None
      | Updates_Overview from_revision next_snapshot patches \<Rightarrow>
          (case ss_overview previous of
             None \<Rightarrow> None
           | Some turns \<Rightarrow>
               if ss_thread_id previous \<noteq> ss_thread_id next_snapshot \<or> ss_sync_generation previous \<noteq> ss_sync_generation next_snapshot then None
               else if ss_revision next_snapshot \<le> ss_revision previous then Some previous
               else if ss_revision previous \<noteq> from_revision \<or> \<not> distinct (map tp_id patches) then None
               else map_option (\<lambda>turns. next_snapshot\<lparr>ss_overview := Some turns\<rparr>) (apply_turn_patches turns patches)))"

section \<open>What a view shows\<close>

definition turn_view :: "session_snapshot \<Rightarrow> cached_turn \<Rightarrow> turn_overview" where
  "turn_view t cached = (ct_summary cached)\<lparr>to_messages := map_option (dialogue_entries t) (ct_dialogue cached), to_revision := 0\<rparr>"

text \<open>The turns of a conversation computed from nothing; the revision a turn was last summarised at is no part of it.\<close>

definition current_turns :: "session_snapshot \<Rightarrow> turn_overview list" where
  "current_turns t = map (turn_view t) (summarize_all t (ranges t))"

definition view_of :: "session_snapshot \<Rightarrow> session_snapshot \<Rightarrow> bool" where
  "view_of view t \<longleftrightarrow> view\<lparr>ss_overview := None\<rparr> = metadata t \<and>
     map_option (map (\<lambda>turn. turn\<lparr>to_revision := 0\<rparr>)) (ss_overview view) = Some (current_turns t)"

lemma turn_view_without_revision: "turn_view t (without_revision c) = turn_view t c"
  by (simp add: turn_view_def without_revision_def)

lemma current_turns_cached: "cache_ok c t \<Longrightarrow> map (turn_view t) (oc_turns c) = current_turns t"
proof -
  assume ok: "cache_ok c t"
  have m: "map (turn_view t) (map without_revision turns) = map (turn_view t) turns" for turns
    by (simp add: turn_view_without_revision)
  from ok have "map without_revision (oc_turns c) = map without_revision (summarize_all t (ranges t))" by (simp add: cache_ok_def)
  from arg_cong [OF this, of "map (turn_view t)"] show ?thesis unfolding m current_turns_def .
qed

definition in_dialogue :: "string set \<Rightarrow> thread_entry \<Rightarrow> bool" where
  "in_dialogue displayed e \<longleftrightarrow> te_kind e = ''steering'' \<and> visible_content (te_content e) \<or> te_id e \<in> displayed"

lemma filter_enumerate: "map snd (filter (\<lambda>(i, e). p e) (enumerate n es)) = filter p es"
  by (induction es arbitrary: n) auto

lemma dialogue_indices:
  assumes "fst r \<le> snd r" "snd r \<le> length (ss_entries t)"
  shows "map ((!) (ss_entries t)) (map ((+) (fst r) \<circ> fst) (filter (\<lambda>(i, e). p e) (enumerate 0 (range_entries t r)))) = filter p (range_entries t r)"
proof -
  have "(ss_entries t) ! (fst r + i) = e" if "(i, e) \<in> set (enumerate 0 (range_entries t r))" for i e
    using that assms by (auto simp: in_set_enumerate_eq range_entries_def)
  then have "map ((!) (ss_entries t)) (map ((+) (fst r) \<circ> fst) (filter (\<lambda>(i, e). p e) (enumerate 0 (range_entries t r)))) =
      map snd (filter (\<lambda>(i, e). p e) (enumerate 0 (range_entries t r)))"
    by (auto simp: split_beta)
  then show ?thesis by (simp only: filter_enumerate)
qed

definition good_range :: "session_snapshot \<Rightarrow> nat \<times> nat \<Rightarrow> bool" where
  "good_range t r \<longleftrightarrow> fst r \<le> snd r \<and> snd r \<le> length (ss_entries t)"

definition shown_ids :: "session_snapshot \<Rightarrow> nat \<times> nat \<Rightarrow> bool \<Rightarrow> string set" where
  "shown_ids t r latest = te_id ` set (to_conclusion (ct_summary (summarize t r latest None)))"

lemma turn_messages:
  assumes "good_range t r"
  shows "to_messages (turn_view t (summarize t r latest None)) =
    (if list_ex (\<lambda>e. te_kind e = ''steering'') (range_entries t r) then Some (filter (in_dialogue (shown_ids t r latest)) (range_entries t r)) else None)"
  using dialogue_indices [OF assms [unfolded good_range_def, THEN conjunct1] assms [unfolded good_range_def, THEN conjunct2],
    of "in_dialogue (shown_ids t r latest)"]
  by (simp add: turn_view_def dialogue_entries_def in_dialogue_def [abs_def] shown_ids_def)
    (simp add: summarize_def Let_def)

lemma turn_dialogue:
  "ct_dialogue (summarize t r latest None) =
    (if list_ex (\<lambda>e. te_kind e = ''steering'') (range_entries t r)
     then Some (map ((+) (fst r) \<circ> fst) (filter (\<lambda>(i, e). in_dialogue (shown_ids t r latest) e) (enumerate 0 (range_entries t r)))) else None)"
  by (simp add: in_dialogue_def shown_ids_def) (simp add: summarize_def Let_def)

lemma turn_view_cong:
  assumes "same_context t0 t" "range_entries t r = range_entries t0 r'" "good_range t r" "good_range t0 r'"
  shows "turn_view t (summarize t r latest None) = turn_view t0 (summarize t0 r' latest None)"
proof -
  from assms(1) have c: "ss_permissions t = ss_permissions t0" "ss_turns t = ss_turns t0" "ss_status t = ss_status t0"
    "ss_error t = ss_error t0" "ss_stop_reason t = ss_stop_reason t0" by (simp_all add: same_context_def)
  have o: "overview_status t = overview_status t0" by (intro ext) (simp only: overview_status_def c)
  have s: "to_conclusion (ct_summary (summarize t r latest None)) = to_conclusion (ct_summary (summarize t0 r' latest None))"
    using c o assms(2) by (simp add: summarize_def Let_def)
  have "to_messages (turn_view t (summarize t r latest None)) = to_messages (turn_view t0 (summarize t0 r' latest None))"
    unfolding turn_messages [OF assms(3)] turn_messages [OF assms(4)] shown_ids_def s assms(2) ..
  moreover have "(ct_summary (summarize t r latest None))\<lparr>to_messages := m, to_revision := n\<rparr> =
      (ct_summary (summarize t0 r' latest None))\<lparr>to_messages := m, to_revision := n\<rparr>" for m n
    using c o assms(2) by (simp add: summarize_def Let_def)
  ultimately show ?thesis by (simp add: turn_view_def)
qed

section \<open>The users of a turn\<close>

definition is_message_of_user :: "thread_entry \<Rightarrow> bool" where
  "is_message_of_user e \<longleftrightarrow> te_kind e = ''user'' \<and> visible_content (te_content e)"

definition users_first :: "permission list \<Rightarrow> thread_entry list \<Rightarrow> bool" where
  "users_first ps es \<longleftrightarrow> turn_users ps es = filter is_message_of_user es"

definition users_only :: "permission list \<Rightarrow> thread_entry list \<Rightarrow> bool" where
  "users_only ps es \<longleftrightarrow> (\<forall>e\<in>set es. te_kind e = ''user'' \<or> \<not> visible ps e)"

lemma turn_users_filter: "turn_users ps es = filter is_message_of_user (takeWhile (\<lambda>e. te_kind e = ''user'' \<or> \<not> visible ps e) es)"
  by (simp add: turn_users_def is_message_of_user_def [abs_def])

lemma users_only_first: "users_only ps es \<Longrightarrow> users_first ps es"
  unfolding users_only_def users_first_def turn_users_filter by (subst takeWhile_eq_all_conv [THEN iffD2]) auto

lemma users_first_snoc: "users_first ps es \<Longrightarrow> \<not> is_message_of_user e \<Longrightarrow> users_first ps (es @ [e])"
  unfolding users_first_def turn_users_filter takeWhile_append by (auto simp: takeWhile_eq_all_conv [THEN iffD2])

lemma users_only_snoc: "users_only ps es \<Longrightarrow> te_kind e = ''user'' \<or> \<not> visible ps e \<Longrightarrow> users_only ps (es @ [e])"
  by (auto simp: users_only_def)

lemma users_first_single: "visible ps e \<Longrightarrow> users_first ps [e]"
  by (simp add: users_first_def turn_users_filter is_message_of_user_def)

lemma invisible_no_message: "\<not> visible ps e \<Longrightarrow> \<not> is_message_of_user e"
  by (auto simp: is_message_of_user_def visible_def)

definition stretch :: "'a list \<Rightarrow> nat \<Rightarrow> nat \<Rightarrow> 'a list" where
  "stretch xs a b = take (b - a) (drop a xs)"

lemma stretch_Suc: "a \<le> i \<Longrightarrow> i < length xs \<Longrightarrow> stretch xs a (Suc i) = stretch xs a i @ [xs ! i]"
  by (simp add: stretch_def Suc_diff_le take_Suc_conv_app_nth)

lemma range_entries_stretch: "range_entries t r = stretch (ss_entries t) (fst r) (snd r)"
  by (simp add: range_entries_def stretch_def)

text \<open>The ranges found so far: each begins where the one before ends, and the messages of the user come first in each.\<close>

definition turns_ok :: "permission list \<Rightarrow> thread_entry list \<Rightarrow> nat \<Rightarrow> bool \<Rightarrow> (nat \<times> nat) list \<Rightarrow> bool" where
  "turns_ok ps es i previous_user rs \<longleftrightarrow>
     (\<forall>r\<in>set (butlast rs). users_first ps (stretch es (fst r) (snd r))) \<and>
     successively (\<lambda>r r'. snd r = fst r' \<and> fst r < fst r') rs \<and>
     (rs \<noteq> [] \<longrightarrow> fst (last rs) < i \<and> users_first ps (stretch es (fst (last rs)) i) \<and>
        (previous_user \<longrightarrow> users_only ps (stretch es (fst (last rs)) i)))"

lemma turns_ok_skip:
  assumes "turns_ok ps es i pu rs" "i < length es" "\<not> visible ps (es ! i)"
  shows "turns_ok ps es (Suc i) pu rs"
  using assms invisible_no_message [OF assms(3)]
  by (auto simp: turns_ok_def stretch_Suc intro: users_first_snoc users_only_snoc)

lemma turns_ok_same:
  assumes "turns_ok ps es i pu rs" "i < length es" "rs \<noteq> []" "te_kind (es ! i) = ''user'' \<longrightarrow> pu"
  shows "turns_ok ps es (Suc i) (te_kind (es ! i) = ''user'') rs"
proof -
  let ?a = "fst (last rs)"
  have a: "?a < i" "users_first ps (stretch es ?a i)" "pu \<longrightarrow> users_only ps (stretch es ?a i)" using assms by (auto simp: turns_ok_def)
  have "users_first ps (stretch es ?a (Suc i)) \<and> (te_kind (es ! i) = ''user'' \<longrightarrow> users_only ps (stretch es ?a (Suc i)))"
  proof (cases "te_kind (es ! i) = ''user''")
    case True
    then have "users_only ps (stretch es ?a (Suc i))" using a assms by (simp add: stretch_Suc users_only_snoc)
    then show ?thesis by (simp add: users_only_first)
  next
    case False
    then show ?thesis using a assms(2) by (simp add: stretch_Suc users_first_snoc is_message_of_user_def)
  qed
  with assms a show ?thesis by (simp add: turns_ok_def)
qed

lemma turns_ok_new:
  assumes "turns_ok ps es i pu rs" "i < length es" "visible ps (es ! i)"
  shows "turns_ok ps es (Suc i) (te_kind (es ! i) = ''user'') (update_last (\<lambda>r. (fst r, i)) rs @ [(i, n)])"
proof -
  have one: "stretch es i (Suc i) = [es ! i]" using assms(2) by (simp add: stretch_Suc) (simp add: stretch_def)
  have s: "users_first ps [es ! i]" "te_kind (es ! i) = ''user'' \<longrightarrow> users_only ps [es ! i]"
    using users_first_single [OF assms(3)] by (auto simp: users_only_def)
  show ?thesis
  proof (cases rs rule: rev_cases)
    case Nil
    with one s show ?thesis by (simp add: turns_ok_def)
  next
    case (snoc qs q)
    have "successively (\<lambda>r r'. snd r = fst r' \<and> fst r < fst r') (qs @ [(fst q, i)])"
      using assms(1) snoc by (auto simp: turns_ok_def successively_append_iff)
    with assms(1) snoc one s show ?thesis by (auto simp: turns_ok_def successively_append_iff butlast_append)
  qed
qed

lemma ranges_loop_turns:
  "turns_ok ps L i pu rs \<Longrightarrow> drop i L = es \<Longrightarrow> turns_ok ps L (max i (length L)) False (ranges_loop ps S n i pu rs es)"
proof (induction es arbitrary: i pu rs)
  case Nil
  then have "length L \<le> i" by simp
  with Nil show ?case by (auto simp: turns_ok_def max_def)
next
  case (Cons e es)
  then have i: "i < length L" "L ! i = e" "drop (Suc i) L = es"
    by (metis drop_all list.distinct(1) not_less, metis nth_via_drop, metis Cons_nth_drop_Suc drop_all list.distinct(1) list.inject not_less)
  let ?rs = "if rs = [] \<or> te_kind e = ''user'' \<and> (\<not> pu \<or> te_id e \<in> S) then update_last (\<lambda>r. (fst r, i)) rs @ [(i, n)] else rs"
  have "turns_ok ps L (Suc i) (te_kind e = ''user'') ?rs" if "visible ps e"
    using turns_ok_new [OF Cons.prems(1) i(1)] turns_ok_same [OF Cons.prems(1) i(1)] that i(2) by auto
  moreover have "turns_ok ps L (Suc i) pu rs" if "\<not> visible ps e"
    using turns_ok_skip [OF Cons.prems(1) i(1)] that i(2) by simp
  ultimately show ?case
    using Cons.IH [OF _ i(3)] i(1) by (auto simp: Let_def max_def not_le Suc_le_eq dest: leD)
qed

lemma ranges_turns: "turns_ok (ss_permissions t) (ss_entries t) (length (ss_entries t)) False (ranges t)"
  unfolding ranges_def using ranges_loop_turns [of "ss_permissions t" "ss_entries t" 0 False "[]" "ss_entries t"] by (simp add: turns_ok_def)

lemma ranges_chain: "successively (\<lambda>r r'. snd r = fst r' \<and> fst r < fst r') (ranges t)"
  using ranges_turns by (simp add: turns_ok_def)

lemma ranges_Suc: "Suc k < length (ranges t) \<Longrightarrow> snd (ranges t ! k) = fst (ranges t ! Suc k) \<and> fst (ranges t ! k) < fst (ranges t ! Suc k)"
  using ranges_chain by (simp add: successively_conv_nth)

lemma last_range: "ranges t \<noteq> [] \<Longrightarrow> fst (last (ranges t)) < length (ss_entries t) \<and> snd (last (ranges t)) = length (ss_entries t)"
  using ranges_turns [of t] ranges_bounded [of t] by (simp add: turns_ok_def bounded_ranges_def)

lemma ranges_good:
  assumes "k < length (ranges t)"
  shows "good_range t (ranges t ! k) \<and> fst (ranges t ! k) < length (ss_entries t)"
proof (cases "Suc k < length (ranges t)")
  case True
  have "ranges t ! Suc k \<in> set (ranges t)" "ranges t ! k \<in> set (ranges t)" using assms True by simp_all
  then have "fst (ranges t ! Suc k) \<le> length (ss_entries t)" "snd (ranges t ! k) \<le> length (ss_entries t)"
    using ranges_bounded [of t] by (auto simp: bounded_ranges_def)
  with ranges_Suc [OF True] show ?thesis by (auto simp: good_range_def)
next
  case False
  then have "ranges t ! k = last (ranges t)" using assms by (metis Suc_lessI diff_Suc_1 last_conv_nth length_0_conv not_less0)
  moreover have "ranges t \<noteq> []" using assms by auto
  ultimately show ?thesis using last_range [of t] by (simp add: good_range_def)
qed

lemma ranges_users: "k < length (ranges t) \<Longrightarrow> turn_users (ss_permissions t) (range_entries t (ranges t ! k)) = filter is_message_of_user (range_entries t (ranges t ! k))"
proof (cases "Suc k < length (ranges t)")
  case True
  then have "ranges t ! k \<in> set (butlast (ranges t))" by (metis in_set_conv_nth length_butlast less_diff_conv add.commute nth_butlast plus_1_eq_Suc)
  then show ?thesis using ranges_turns [of t] by (simp add: turns_ok_def users_first_def range_entries_stretch)
next
  assume "k < length (ranges t)"
  moreover case False
  ultimately have "ranges t ! k = last (ranges t)" "ranges t \<noteq> []" by (metis Suc_lessI diff_Suc_1 last_conv_nth length_0_conv not_less0, auto)
  then show ?thesis using ranges_turns [of t] last_range [of t] by (simp add: turns_ok_def users_first_def range_entries_stretch)
qed

section \<open>The conclusion of a turn\<close>

text \<open>Entries that may differ only in what a tool or a compaction reports.\<close>

definition similar :: "thread_entry \<Rightarrow> thread_entry \<Rightarrow> bool" where
  "similar e e' \<longleftrightarrow> e' = e \<or> te_kind e' = te_kind e \<and> te_id e' = te_id e \<and> te_kind e \<in> {''tool'', ''compaction_update''}"

lemma similar_refl [simp]: "similar e e"
  by (simp add: similar_def)

lemma similar_head: "similar e e' \<Longrightarrow> te_kind e' = te_kind e \<and> te_id e' = te_id e"
  by (auto simp: similar_def)

lemma similar_equal: "similar e e' \<Longrightarrow> te_kind e \<notin> {''tool'', ''compaction_update''} \<Longrightarrow> e' = e"
  by (auto simp: similar_def)

lemma find_similar:
  "list_all2 similar xs ys \<Longrightarrow> (\<And>x y. similar x y \<Longrightarrow> p y = p x) \<Longrightarrow> rel_option similar (find p xs) (find p ys)"
  by (induction rule: list_all2_induct) auto

lemma filter_similar:
  "list_all2 similar xs ys \<Longrightarrow> (\<And>x y. similar x y \<Longrightarrow> p y = p x) \<Longrightarrow> list_all2 similar (filter p xs) (filter p ys)"
  by (induction rule: list_all2_induct) auto

lemma filter_equal:
  "list_all2 similar xs ys \<Longrightarrow> (\<And>x y. similar x y \<Longrightarrow> p y = p x) \<Longrightarrow> (\<And>x. p x \<Longrightarrow> te_kind x \<notin> {''tool'', ''compaction_update''}) \<Longrightarrow>
     filter p ys = filter p xs"
proof (induction rule: list_all2_induct)
  case (Cons x xs y ys)
  then show ?case using similar_equal [of x y] by auto
qed simp

lemma relevant_similar: "similar e e' \<Longrightarrow> is_relevant e' = is_relevant e"
  by (auto simp: similar_def is_relevant_def)

lemma final_loop_similar:
  "list_all2 similar xs ys \<Longrightarrow> list_all2 similar us vs \<Longrightarrow>
     list_all2 similar (final_entries_loop xs message_id us) (final_entries_loop ys message_id vs)"
proof (induction arbitrary: message_id us vs rule: list_all2_induct)
  case (Cons x xs y ys)
  have f: "(case find (\<lambda>b. te_kind b \<noteq> ''steering'') ys of None \<Rightarrow> False
        | Some b \<Rightarrow> te_kind b = ''assistant'' \<and> te_message_id b = message_id) =
      (case find (\<lambda>b. te_kind b \<noteq> ''steering'') xs of None \<Rightarrow> False
        | Some b \<Rightarrow> te_kind b = ''assistant'' \<and> te_message_id b = message_id)"
  proof -
    have "rel_option similar (find (\<lambda>b. te_kind b \<noteq> ''steering'') xs) (find (\<lambda>b. te_kind b \<noteq> ''steering'') ys)"
      by (rule find_similar [OF Cons.hyps(2)]) (simp add: similar_head)
    then show ?thesis
      by (cases "find (\<lambda>b. te_kind b \<noteq> ''steering'') xs"; cases "find (\<lambda>b. te_kind b \<noteq> ''steering'') ys") (auto simp: similar_def)
  qed
  show ?case
  proof (cases "te_kind x \<in> {''tool'', ''compaction_update''}")
    case True
    then show ?thesis using Cons.hyps(1) Cons.prems similar_head [OF Cons.hyps(1)] by auto
  next
    case False
    then have "y = x" using Cons.hyps(1) by (simp add: similar_equal)
    have s: "list_all2 similar (x # us) (x # vs)" using Cons.prems by simp
    show ?thesis unfolding \<open>y = x\<close> final_entries_loop.simps f using Cons.IH [OF s] Cons.prems by auto
  qed
qed simp

lemma final_entries_similar:
  assumes "list_all2 similar es es'"
  shows "final_entries es' = final_entries es"
proof -
  have r: "rel_option similar (find is_relevant (rev es)) (find is_relevant (rev es'))"
    using assms by (intro find_similar relevant_similar) (auto simp: list_all2_rev)
  show ?thesis
  proof (cases "find is_relevant (rev es)")
    case None
    with r show ?thesis by (simp add: final_entries_def)
  next
    case (Some final)
    with r obtain final' where f: "find is_relevant (rev es') = Some final'" "similar final final'" by (auto elim: option.rel_cases)
    show ?thesis
    proof (cases "te_kind final = ''assistant''")
      case False
      with f Some show ?thesis using similar_head [OF f(2)] by (simp add: final_entries_def)
    next
      case True
      then have e: "final' = final" using f(2) by (simp add: similar_equal)
      let ?p = "\<lambda>e. is_relevant e \<or> (te_message_id final \<noteq> None \<and> te_kind e = ''assistant'' \<and> te_message_id e = te_message_id final \<and>
        text_is (idx (te_content e) ''type'') ''text'')"
      have p: "list_all2 similar (rev (filter ?p es)) (rev (filter ?p es'))"
        using assms unfolding list_all2_rev by (intro filter_similar) (auto simp: relevant_similar, auto simp: similar_def)
      have l: "filter (\<lambda>e. te_kind e = ''assistant'') (final_entries_loop ys m [y]) = filter (\<lambda>e. te_kind e = ''assistant'') (final_entries_loop xs m [x])"
        if "similar x y" "list_all2 similar xs ys" for x y xs ys m
        using that by (intro filter_equal final_loop_similar) (auto dest: similar_head)
      have "(case vs of [] \<Rightarrow> [] | e # before \<Rightarrow> filter (\<lambda>e. te_kind e = ''assistant'') (final_entries_loop before m [e])) =
          (case us of [] \<Rightarrow> [] | e # before \<Rightarrow> filter (\<lambda>e. te_kind e = ''assistant'') (final_entries_loop before m [e]))"
        if "list_all2 similar us vs" for us vs m
        using that by (cases us; cases vs) (simp_all add: l)
      from this [OF p] True Some f(1) e show ?thesis by (simp add: final_entries_def)
    qed
  qed
qed

lemma final_entries_assistant: "e \<in> set (final_entries es) \<Longrightarrow> te_kind e = ''assistant''"
  by (auto simp: final_entries_def split: option.splits if_splits list.splits)

section \<open>Readings\<close>

text \<open>The models of a conversation, those at which its overview was read, and the cache left by the last reading.\<close>

inductive overview_run :: "acp_codec \<Rightarrow> session_snapshot list \<Rightarrow> session_snapshot list \<Rightarrow> overview_cache \<Rightarrow> bool" for codec where
  opened: "fresh_log t \<Longrightarrow> overview_run codec [t] [] overview_cache_default"
| committed: "overview_run codec (t # ts) reads c \<Longrightarrow> acp_step codec t t' \<Longrightarrow> overview_run codec (t' # t # ts) reads c"
| overview_read: "overview_run codec (t # ts) reads c \<Longrightarrow> refresh_cache t c = Some c' \<Longrightarrow> overview_run codec (t # ts) (t # reads) c'"

lemma overview_run_cached: "overview_run codec ts reads c \<Longrightarrow> cached_run codec ts c"
  by (induction rule: overview_run.induct) (auto intro: cached_run.intros)

text \<open>What the cache remembers of an earlier reading: the same turns begin at the same entries, and a turn that was not
  summarised since has the same entries.\<close>

definition seen_ok :: "overview_cache \<Rightarrow> session_snapshot \<Rightarrow> session_snapshot \<Rightarrow> bool" where
  "seen_ok c t t1 \<longleftrightarrow>
     (oc_layout_revision c \<le> ss_revision t1 \<and> cl_base_revision (ss_changes t) \<le> ss_revision t1 \<longrightarrow>
        map fst (ranges t1) = map fst (ranges t) \<and>
        (\<forall>k<length (ranges t). to_revision (ct_summary (oc_turns c ! k)) \<le> ss_revision t1 \<longrightarrow>
           range_entries t1 (ranges t1 ! k) = range_entries t (ranges t ! k)))"

lemma seen_refl: "seen_ok c t t"
  by (simp add: seen_ok_def)

lemma summarize_revision [simp]: "to_revision (ct_summary (summarize t r latest u)) = ss_revision t"
  by (simp add: summarize_def Let_def)

lemma nth_extend_turns:
  assumes "oc_ranges c = ranges t0" "length (oc_turns c) = length (ranges t0)" "oc_length c = length (ss_entries t0)" "k < length (ranges t0)"
  shows "oc_turns (extend_cache t changed c) ! k =
    (let r = end_at (length (ss_entries t)) (ranges t0) ! k; latest = (Suc k = length (ranges t0))
     in if list_ex (\<lambda>j. fst r \<le> j \<and> j < snd r) changed \<or> latest \<and> length (ss_entries t0) \<noteq> length (ss_entries t)
        then summarize t r latest (Some (to_user (ct_summary (oc_turns c ! k)))) else oc_turns c ! k)"
  using assms by (simp add: extend_cache_def Let_def nth_enumerate_eq flip: end_at_def)

lemma extended_kept:
  assumes e: "extended t0 changed t" and k: "k < length (ranges t0)" and r: "r = end_at (length (ss_entries t)) (ranges t0) ! k"
    and n: "\<not> list_ex (\<lambda>j. fst r \<le> j \<and> j < snd r) changed" "Suc k = length (ranges t0) \<Longrightarrow> length (ss_entries t0) = length (ss_entries t)"
  shows "range_entries t r = range_entries t0 (ranges t0 ! k)"
proof -
  have "snd (ranges t0 ! k) = length (ss_entries t0)" if "Suc k = length (ranges t0)"
  proof -
    from that have "ranges t0 \<noteq> []" "k = length (ranges t0) - 1" by auto
    then show ?thesis using last_range [of t0] by (simp add: last_conv_nth)
  qed
  then have "r = ranges t0 ! k" using k n(2) unfolding r by (auto simp: nth_end_at prod_eq_iff)
  moreover have "snd (ranges t0 ! k) \<le> length (ss_entries t0)" using ranges_good [OF k] by (simp add: good_range_def)
  ultimately show ?thesis using extended_same_range [OF e, of r] n(1) by (auto simp: list_ex_iff)
qed

lemma cache_ok_length: "cache_ok c t \<Longrightarrow> length (oc_turns c) = length (ranges t)"
  unfolding cache_ok_def by (metis length_map length_summarize_all)

lemma seen_step:
  assumes run: "acp_run codec (t # ts)" and tc: "tc \<in> set (t # ts)" and ok: "cache_ok c tc" and c': "refresh_cache t c = Some c'"
    and t1: "ss_revision t1 \<le> ss_revision tc" "seen_ok c tc t1"
  shows "seen_ok c' t t1"
proof -
  have k: "run_ok tc t" using acp_run_ok [OF run] tc by auto
  have g: "oc_generation c = ss_sync_generation t" "oc_revision c = ss_revision tc" using ok k by (simp_all add: cache_ok_def run_ok_def)
  show ?thesis
  proof (cases "ss_revision tc = ss_revision t")
    case True
    then have "tc = t" "c' = c" using k g c' by (simp_all add: run_ok_def refresh_cache_def)
    with t1 show ?thesis by simp
  next
    case False
    then have lt: "ss_revision tc < ss_revision t" using k by (simp add: run_ok_def)
    let ?changed = "entry_changes (changes_since (oc_revision c) t)"
    define c0 where "c0 = (if list_ex (\<lambda>i. te_kind (ss_entries t ! i) \<in> {''assistant'', ''steering''} \<and> visibility_differs t (oc_visibility c) i) ?changed
      then c\<lparr>oc_layout_revision := ss_revision t\<rparr> else c)"
    have l0: "oc_layout_revision c0 = ss_revision t \<or> oc_layout_revision c0 = oc_layout_revision c" by (simp add: c0_def)
    have same: "oc_ranges c0 = oc_ranges c" "oc_turns c0 = oc_turns c" "oc_revision c0 = oc_revision c" "oc_length c0 = oc_length c"
      by (simp_all add: c0_def)
    have ok0: "cache_ok c0 tc" using ok by (simp add: c0_def)
    have c'0: "c' = (if cache_differs t ?changed c0 then rebuild_cache t c0 else extend_cache t ?changed c0)
      \<lparr>oc_generation := ss_sync_generation t, oc_revision := ss_revision t, oc_length := length (ss_entries t)\<rparr>"
      using c' False g unfolding refresh_cache_def Let_def c0_def [symmetric] by (simp split: if_splits)
    show ?thesis
      unfolding seen_ok_def
    proof (rule impI)
      assume h: "oc_layout_revision c' \<le> ss_revision t1 \<and> cl_base_revision (ss_changes t) \<le> ss_revision t1"
      then have lay: "oc_layout_revision c' < ss_revision t" using t1(1) lt by simp
      have base: "cl_base_revision (ss_changes t) \<le> ss_revision tc" using h t1(1) by simp
      then have "cl_base_revision (ss_changes tc) \<le> cl_base_revision (ss_changes t)"
        using acp_run_calm [OF run tc] by (simp add: calm_since_def)
      show "map fst (ranges t1) = map fst (ranges t) \<and> (\<forall>k<length (ranges t). to_revision (ct_summary (oc_turns c' ! k)) \<le> ss_revision t1 \<longrightarrow>
          range_entries t1 (ranges t1 ! k) = range_entries t (ranges t ! k))"
      proof (cases "cache_differs t ?changed c0")
        case True
        let ?b = "map fst (ranges t) \<noteq> map fst (oc_ranges c) \<or>
          list_ex (\<lambda>(n, p). user_ids n \<noteq> user_ids p) (zip (summarize_all t (ranges t)) (oc_turns c))"
        have r: "oc_layout_revision c' = (if ?b then ss_revision t else oc_layout_revision c0)" "oc_turns c' = summarize_all t (ranges t)"
          unfolding c'0 if_P [OF True] by (simp_all add: rebuild_cache_def Let_def same)
        then have "\<not> ?b" "oc_layout_revision c' = oc_layout_revision c" using lay l0 by (auto split: if_splits)
        moreover have "oc_ranges c = ranges tc" using ok by (simp add: cache_ok_def)
        moreover have "map fst (ranges t1) = map fst (ranges tc)"
          using t1(2) h \<open>oc_layout_revision c' = oc_layout_revision c\<close> \<open>cl_base_revision (ss_changes tc) \<le> _\<close> by (simp add: seen_ok_def)
        ultimately show ?thesis using r(2) t1(1) lt by (auto simp: nth_summarize_all)
      next
        case d: False
        note kept = cache_kept [OF d]
        have cov: "covers tc (changes_since (oc_revision c) t) t" using k base g(2) by (simp add: run_ok_def)
        have e: "extended tc ?changed t" by (rule extended_of_covers [OF cov ok0 d])
        have rs: "oc_ranges c = ranges tc" "ranges tc \<noteq> []" using ok0 kept same by (simp_all add: cache_ok_def)
        have r: "oc_layout_revision c' = oc_layout_revision c0" "oc_turns c' = oc_turns (extend_cache t ?changed c0)"
          unfolding c'0 if_not_P [OF d] by (simp_all add: extend_cache_def Let_def)
        then have "oc_layout_revision c' = oc_layout_revision c" using lay l0 by auto
        then have s: "map fst (ranges t1) = map fst (ranges tc)"
          "\<And>k. k < length (ranges tc) \<Longrightarrow> to_revision (ct_summary (oc_turns c ! k)) \<le> ss_revision t1 \<Longrightarrow>
             range_entries t1 (ranges t1 ! k) = range_entries tc (ranges tc ! k)"
          using t1(2) h \<open>cl_base_revision (ss_changes tc) \<le> _\<close> by (auto simp: seen_ok_def)
        have rt: "ranges t = end_at (length (ss_entries t)) (ranges tc)" by (rule extended_ranges [OF e rs(2)])
        have starts: "map fst (ranges t) = map fst (ranges tc)"
          unfolding rt by (cases "ranges tc" rule: rev_cases) (simp_all add: end_at_def)
        have "range_entries t1 (ranges t1 ! k) = range_entries t (ranges t ! k)"
          if "k < length (ranges t)" "to_revision (ct_summary (oc_turns c' ! k)) \<le> ss_revision t1" for k
        proof -
          have kl: "k < length (ranges tc)" using that rt by simp
          let ?r = "end_at (length (ss_entries t)) (ranges tc) ! k"
          have turn: "oc_turns c' ! k = (if list_ex (\<lambda>j. fst ?r \<le> j \<and> j < snd ?r) ?changed \<or>
              Suc k = length (ranges tc) \<and> length (ss_entries tc) \<noteq> length (ss_entries t)
              then summarize t ?r (Suc k = length (ranges tc)) (Some (to_user (ct_summary (oc_turns c ! k)))) else oc_turns c ! k)"
            using nth_extend_turns [OF _ _ _ kl, of c0 t ?changed] rs ok0 cache_ok_length [OF ok0] r(2) same
            by (simp add: Let_def cache_ok_def)
          have "\<not> (list_ex (\<lambda>j. fst ?r \<le> j \<and> j < snd ?r) ?changed \<or> Suc k = length (ranges tc) \<and> length (ss_entries tc) \<noteq> length (ss_entries t))"
          proof
            assume "list_ex (\<lambda>j. fst ?r \<le> j \<and> j < snd ?r) ?changed \<or> Suc k = length (ranges tc) \<and> length (ss_entries tc) \<noteq> length (ss_entries t)"
            from turn [unfolded if_P [OF this]] that(2) t1(1) lt show False by simp
          qed
          then have n: "\<not> list_ex (\<lambda>j. fst ?r \<le> j \<and> j < snd ?r) ?changed" "Suc k = length (ranges tc) \<Longrightarrow> length (ss_entries tc) = length (ss_entries t)"
            and "oc_turns c' ! k = oc_turns c ! k" using turn by auto
          then have "range_entries t1 (ranges t1 ! k) = range_entries tc (ranges tc ! k)" using s(2) [OF kl] that(2) by simp
          then show ?thesis using extended_kept [OF e kl refl n] unfolding rt by simp
        qed
        with s(1) starts show ?thesis by simp
      qed
    qed
  qed
qed

lemma starts_update_last: "map fst (update_last (\<lambda>r. (fst r, i)) rs) = map fst rs"
  by (cases rs rule: rev_cases) simp_all

text \<open>Only the first turn can begin with an entry that is not of the user.\<close>

lemma ranges_loop_users:
  assumes "\<forall>r\<in>set (tl rs). te_kind (L ! fst r) = ''user''" "drop i L = es"
  shows "\<forall>r\<in>set (tl (ranges_loop ps S n i pu rs es)). te_kind (L ! fst r) = ''user''"
  using assms
proof (induction es arbitrary: i pu rs)
  case (Cons e es)
  then have i: "L ! i = e" "drop (Suc i) L = es" by (metis nth_via_drop, metis Cons_nth_drop_Suc drop_all list.distinct(1) list.inject not_less)
  have tl: "set (map fst (tl (update_last (\<lambda>r. (fst r, i)) rs))) = set (map fst (tl rs))"
    unfolding map_tl starts_update_last ..
  have t: "\<forall>r\<in>set (tl (update_last (\<lambda>r. (fst r, i)) rs)). te_kind (L ! fst r) = ''user''"
  proof
    fix r assume "r \<in> set (tl (update_last (\<lambda>r. (fst r, i)) rs))"
    then have "fst r \<in> set (map fst (tl rs))" unfolding tl [symmetric] by simp
    then show "te_kind (L ! fst r) = ''user''" using Cons.prems(1) by auto
  qed
  have "\<forall>r\<in>set (tl (update_last (\<lambda>r. (fst r, i)) rs @ [(i, n)])). te_kind (L ! fst r) = ''user''" if "rs = [] \<or> te_kind e = ''user''"
  proof (cases rs rule: rev_cases)
    case (snoc qs q)
    then have "tl (update_last (\<lambda>r. (fst r, i)) rs @ [(i, n)]) = tl (update_last (\<lambda>r. (fst r, i)) rs) @ [(i, n)]"
      by (intro tl_append2) (simp add: update_last_def)
    with t that snoc i(1) show ?thesis by auto
  qed simp
  then have g: "\<forall>r\<in>set (tl (if rs = [] \<or> te_kind e = ''user'' \<and> (\<not> pu \<or> te_id e \<in> S)
      then update_last (\<lambda>r. (fst r, i)) rs @ [(i, n)] else rs)). te_kind (L ! fst r) = ''user''"
    using Cons.prems(1) by simp
  show ?case unfolding ranges_loop.simps Let_def using Cons.IH [OF g i(2)] Cons.IH [OF Cons.prems(1) i(2)] by simp
qed simp

lemma ranges_start: "0 < k \<Longrightarrow> k < length (ranges t) \<Longrightarrow> te_kind (ss_entries t ! fst (ranges t ! k)) = ''user''"
proof -
  assume k: "0 < k" "k < length (ranges t)"
  have "\<forall>r\<in>set (tl (ranges t)). te_kind (ss_entries t ! fst r) = ''user''"
    unfolding ranges_def by (rule ranges_loop_users) simp_all
  moreover have "ranges t ! k \<in> set (tl (ranges t))"
    using k by (metis Suc_pred in_set_conv_nth length_tl less_diff_conv nth_tl Suc_eq_plus1)
  ultimately show ?thesis by blast
qed

lemma ranges_less: "j < k \<Longrightarrow> k < length (ranges t) \<Longrightarrow> fst (ranges t ! j) < fst (ranges t ! k)"
proof (induction k)
  case (Suc k)
  then show ?case using ranges_Suc [of k t] by (cases "j = k") auto
qed simp

lemma range_entries_nonempty:
  assumes "k < length (ranges t)"
  shows "range_entries t (ranges t ! k) \<noteq> [] \<and> hd (range_entries t (ranges t ! k)) = ss_entries t ! fst (ranges t ! k)"
proof -
  have "fst (ranges t ! k) < snd (ranges t ! k)"
  proof (cases "Suc k < length (ranges t)")
    case True
    then show ?thesis using ranges_Suc [OF True] by simp
  next
    case False
    then have "ranges t ! k = last (ranges t)" "ranges t \<noteq> []" using assms by (metis Suc_lessI diff_Suc_1 last_conv_nth length_0_conv not_less0, auto)
    then show ?thesis using last_range [of t] by simp
  qed
  then show ?thesis using ranges_good [OF assms] by (simp add: range_entries_def good_range_def hd_conv_nth)
qed

definition turn_id :: "session_snapshot \<Rightarrow> nat \<Rightarrow> string" where
  "turn_id t k = (let e = ss_entries t ! fst (ranges t ! k) in if te_kind e = ''user'' then te_id e else ''leading'')"

lemma summarize_id: "k < length (ranges t) \<Longrightarrow> to_id (ct_summary (summarize t (ranges t ! k) latest u)) = turn_id t k"
  using range_entries_nonempty [of k t] by (simp add: summarize_def turn_id_def Let_def)

lemma turn_ids_distinct:
  assumes "distinct (''leading'' # map te_id (ss_entries t))" "j < k" "k < length (ranges t)"
  shows "turn_id t j \<noteq> turn_id t k"
proof -
  have lt: "fst (ranges t ! j) < fst (ranges t ! k)" using assms by (rule_tac ranges_less)
  have len: "fst (ranges t ! k) < length (ss_entries t)" using ranges_good assms(3) by blast
  then have "ss_entries t ! fst (ranges t ! k) \<in> set (ss_entries t)" by simp
  then have "te_id (ss_entries t ! fst (ranges t ! k)) \<noteq> ''leading''" using assms(1) by (metis distinct.simps(2) image_eqI list.set_map)
  moreover have "te_id (ss_entries t ! fst (ranges t ! j)) \<noteq> te_id (ss_entries t ! fst (ranges t ! k))"
    using assms(1) lt len nth_eq_iff_index_eq [of "map te_id (ss_entries t)" "fst (ranges t ! j)" "fst (ranges t ! k)"] by simp
  ultimately show ?thesis using ranges_start [of k t] assms by (auto simp: turn_id_def Let_def)
qed

end
