(* ===== verification/Acp_Overview_Client.thy ===== *)
theory Acp_Overview_Client
  imports Acp_Overview_Sync
begin

text \<open>
  A browser that shows the collapsed view of a conversation as it was at some reading shows the current one after it
  has applied the delta since that reading.
\<close>

section \<open>The entries of a turn at two readings\<close>

lemma filter_pointwise:
  "list_all2 (\<lambda>x y. x = y \<or> \<not> p x \<and> \<not> p y) xs ys \<Longrightarrow> filter p xs = filter p ys"
  by (induction rule: list_all2_induct) auto

lemma take_drop_split:
  assumes "a \<le> m" "m \<le> b"
  shows "take (b - a) (drop a xs) = take (m - a) (drop a xs) @ take (b - m) (drop m xs)"
proof -
  have "b - a = (m - a) + (b - m)" using assms by simp
  then have "take (b - a) (drop a xs) = take (m - a) (drop a xs) @ take (b - m) (drop (m - a) (drop a xs))" by (simp only: take_add)
  then show ?thesis using assms by simp
qed

text \<open>An earlier and a later model with the log between them.\<close>

definition since_ok :: "session_snapshot \<Rightarrow> session_snapshot \<Rightarrow> bool" where
  "since_ok t1 t \<longleftrightarrow> covers t1 (changes_since (ss_revision t1) t) t \<and> calm t1 (entry_changes (changes_since (ss_revision t1) t)) t \<and>
     map fst (ranges t1) = map fst (ranges t)"

lemma since_ok_length: "since_ok t1 t \<Longrightarrow> length (ranges t1) = length (ranges t)"
  unfolding since_ok_def by (metis length_map)

lemma since_ok_range:
  assumes "since_ok t1 t" "k < length (ranges t)"
  shows "fst (ranges t1 ! k) = fst (ranges t ! k)"
    and "Suc k < length (ranges t) \<Longrightarrow> snd (ranges t1 ! k) = snd (ranges t ! k) \<and> snd (ranges t ! k) < length (ss_entries t1)"
    and "Suc k = length (ranges t) \<Longrightarrow> snd (ranges t1 ! k) = length (ss_entries t1) \<and> snd (ranges t ! k) = length (ss_entries t)"
proof -
  have l: "length (ranges t1) = length (ranges t)" by (rule since_ok_length [OF assms(1)])
  have f: "fst (ranges t1 ! j) = fst (ranges t ! j)" if "j < length (ranges t)" for j
    using assms(1) that l unfolding since_ok_def by (metis nth_map)
  show "fst (ranges t1 ! k) = fst (ranges t ! k)" by (rule f [OF assms(2)])
  show "snd (ranges t1 ! k) = snd (ranges t ! k) \<and> snd (ranges t ! k) < length (ss_entries t1)" if "Suc k < length (ranges t)"
    using ranges_Suc [of k t] ranges_Suc [of k t1] f [OF that] that l ranges_good [of "Suc k" t1] by simp
  assume k: "Suc k = length (ranges t)"
  then have "ranges t \<noteq> []" "ranges t1 \<noteq> []" "k = length (ranges t) - 1" "k = length (ranges t1) - 1" using l by auto
  then show "snd (ranges t1 ! k) = length (ss_entries t1) \<and> snd (ranges t ! k) = length (ss_entries t)"
    using last_range [of t] last_range [of t1] by (simp add: last_conv_nth)
qed

lemma filter_range:
  assumes ok: "since_ok t1 t" and k: "k < length (ranges t)"
    and p: "\<And>i. i \<in> set (entry_changes (changes_since (ss_revision t1) t)) \<Longrightarrow> fst (ranges t ! k) \<le> i \<Longrightarrow> i < snd (ranges t ! k) \<Longrightarrow>
      \<not> p (ss_entries t ! i) \<and> (i < length (ss_entries t1) \<longrightarrow> \<not> p (ss_entries t1 ! i))"
  shows "filter p (range_entries t (ranges t ! k)) = filter p (range_entries t1 (ranges t1 ! k))"
proof -
  let ?a = "fst (ranges t ! k)" and ?b = "snd (ranges t ! k)" and ?b1 = "snd (ranges t1 ! k)" and ?n = "length (ss_entries t1)"
  have c: "covers t1 (changes_since (ss_revision t1) t) t" using ok by (simp add: since_ok_def)
  note r = since_ok_range [OF ok k] and same = covers_entries(3) [OF c]
  have len: "?n \<le> length (ss_entries t)" by (rule covers_entries(1) [OF c])
  have b1: "?a \<le> ?b1" "?b1 \<le> ?n" using ranges_good [of k t1] k since_ok_length [OF ok] r(1) by (simp_all add: good_range_def)
  have b: "?a \<le> ?b" "?b \<le> length (ss_entries t)" using ranges_good [OF k] by (simp_all add: good_range_def)
  have bb: "?b1 \<le> ?b" "?b1 < ?b \<Longrightarrow> ?b1 = ?n"
    using r(2,3) k len by (cases "Suc k = length (ranges t)"; simp)+
  have "range_entries t (ranges t ! k) = take (?b1 - ?a) (drop ?a (ss_entries t)) @ take (?b - ?b1) (drop ?b1 (ss_entries t))"
    using take_drop_split [OF b1(1) bb(1), of "ss_entries t"] by (simp add: range_entries_def)
  moreover have "filter p (take (?b1 - ?a) (drop ?a (ss_entries t))) = filter p (range_entries t1 (ranges t1 ! k))"
  proof (rule filter_pointwise)
    show "list_all2 (\<lambda>x y. x = y \<or> \<not> p x \<and> \<not> p y) (take (?b1 - ?a) (drop ?a (ss_entries t))) (range_entries t1 (ranges t1 ! k))"
      unfolding list_all2_conv_all_nth
    proof (intro conjI allI impI)
      show "length (take (?b1 - ?a) (drop ?a (ss_entries t))) = length (range_entries t1 (ranges t1 ! k))"
        using r(1) b1 len by (simp add: range_entries_def)
      fix i assume "i < length (take (?b1 - ?a) (drop ?a (ss_entries t)))"
      then have i: "i < ?b1 - ?a" "?a + i < ?n" "?a + i < ?b" using b1 bb(1) by auto
      have e: "take (?b1 - ?a) (drop ?a (ss_entries t)) ! i = ss_entries t ! (?a + i)"
        "range_entries t1 (ranges t1 ! k) ! i = ss_entries t1 ! (?a + i)"
        using i len r(1) by (simp_all add: range_entries_def)
      show "take (?b1 - ?a) (drop ?a (ss_entries t)) ! i = range_entries t1 (ranges t1 ! k) ! i \<or>
          \<not> p (take (?b1 - ?a) (drop ?a (ss_entries t)) ! i) \<and> \<not> p (range_entries t1 (ranges t1 ! k) ! i)"
        unfolding e using same [of "?a + i"] p [of "?a + i"] i len by auto
    qed
  qed
  moreover have "filter p (take (?b - ?b1) (drop ?b1 (ss_entries t))) = []"
  proof -
    have "\<not> p e" if "e \<in> set (take (?b - ?b1) (drop ?b1 (ss_entries t)))" for e
    proof -
      from that obtain i where i: "i < ?b - ?b1" "?b1 + i < length (ss_entries t)" "e = ss_entries t ! (?b1 + i)"
        by (auto simp: in_set_conv_nth)
      then have "?b1 + i \<in> set (entry_changes (changes_since (ss_revision t1) t))" using same [of "?b1 + i"] bb(2) by fastforce
      then show ?thesis using p [of "?b1 + i"] i b1 by simp
    qed
    then show ?thesis by (simp add: filter_empty_conv)
  qed
  ultimately show ?thesis by simp
qed

section \<open>What the log leaves alone in a turn\<close>

lemma final_loop_subset: "set (final_entries_loop xs m taken) \<subseteq> set xs \<union> set taken"
proof (induction xs m taken rule: final_entries_loop.induct)
  case (2 e before message_id taken)
  then show ?case unfolding final_entries_loop.simps by (auto split: if_splits)
qed simp

lemma final_entries_subset: "set (final_entries es) \<subseteq> set es"
proof (cases "find is_relevant (rev es)")
  case (Some final)
  let ?l = "rev (filter (\<lambda>e. is_relevant e \<or> (te_message_id final \<noteq> None \<and> te_kind e = ''assistant'' \<and>
    te_message_id e = te_message_id final \<and> text_is (idx (te_content e) ''type'') ''text'')) es)"
  show ?thesis
  proof (cases ?l)
    case (Cons x xs)
    have "set ?l \<subseteq> set es" by simp
    then have "set (x # xs) \<subseteq> set es" unfolding Cons .
    then have "set (final_entries_loop xs m [x]) \<subseteq> set es" for m using final_loop_subset [of xs m "[x]"] by auto
    then show ?thesis unfolding final_entries_def Some option.case Cons list.case by auto
  qed (simp add: final_entries_def Some)
qed (simp add: final_entries_def)

lemma conclusion_cases:
  "to_conclusion (ct_summary (summarize t r latest None)) =
     (let ident = (if te_kind (hd (range_entries t r)) = ''user'' then te_id (hd (range_entries t r)) else ''leading'');
          running = (latest \<and> ss_status t = ''working'' \<or> (latest \<and> ss_permissions t \<noteq> []));
          status = overview_status t (find (\<lambda>turn. tn_user_entry_id turn = ident) (ss_turns t)) running latest
      in if \<not> running \<and> (status = None \<or> status = Some ''completed'') then final_entries (range_entries t r) else [])"
  by (simp add: summarize_def Let_def)

lemma conclusion_assistant:
  "e \<in> set (to_conclusion (ct_summary (summarize t r latest None))) \<Longrightarrow> te_kind e = ''assistant'' \<and> e \<in> set (range_entries t r)"
  unfolding conclusion_cases Let_def by (auto split: if_splits dest: final_entries_assistant final_entries_subset [THEN subsetD])

lemma conclusion_working: "ss_status t = ''working'' \<Longrightarrow> to_conclusion (ct_summary (summarize t r True None)) = []"
  by (simp add: conclusion_cases)

text \<open>Between the readings the conversation was working all the time, and its entries have identifiers of their own.\<close>

definition caught :: "session_snapshot \<Rightarrow> session_snapshot \<Rightarrow> bool" where
  "caught t1 t \<longleftrightarrow> since_ok t1 t \<and> same_context t1 t \<and> ss_status t = ''working'' \<and> distinct (map te_id (ss_entries t))"

lemma caught_changed:
  assumes "caught t1 t" "k < length (ranges t)" "i \<in> set (entry_changes (changes_since (ss_revision t1) t))" "i < snd (ranges t ! k)"
  shows "te_kind (ss_entries t ! i) \<noteq> ''steering''"
    and "Suc k < length (ranges t) \<Longrightarrow> te_kind (ss_entries t ! i) \<in> {''tool'', ''compaction_update''}"
proof -
  have c: "calm t1 (entry_changes (changes_since (ss_revision t1) t)) t" and ok: "since_ok t1 t"
    using assms(1) by (simp_all add: caught_def since_ok_def)
  then have i: "i < length (ss_entries t)" "length (ss_entries t1) \<le> i \<or> te_kind (ss_entries t ! i) \<in> {''tool'', ''compaction_update''} \<or>
      Suc i = length (ss_entries t1) \<and> te_kind (ss_entries t ! i) \<noteq> ''steering''"
    using assms(3) by (auto simp: calm_def)
  then show "te_kind (ss_entries t ! i) \<noteq> ''steering''" using c by (auto simp: calm_def)
  show "te_kind (ss_entries t ! i) \<in> {''tool'', ''compaction_update''}" if "Suc k < length (ranges t)"
    using since_ok_range(2) [OF ok assms(2) that] assms(4) i(2) by auto
qed

lemma turn_similar:
  assumes "caught t1 t" "Suc k < length (ranges t)"
  shows "list_all2 similar (range_entries t1 (ranges t1 ! k)) (range_entries t (ranges t ! k))"
proof -
  have ok: "since_ok t1 t" and c: "covers t1 (changes_since (ss_revision t1) t) t" and k: "k < length (ranges t)"
    using assms by (simp_all add: caught_def since_ok_def)
  note r = since_ok_range(1) [OF ok k] since_ok_range(2) [OF ok k assms(2)]
  have len: "length (ss_entries t1) \<le> length (ss_entries t)" by (rule covers_entries(1) [OF c])
  show ?thesis
    unfolding list_all2_conv_all_nth
  proof (intro conjI allI impI)
    show "length (range_entries t1 (ranges t1 ! k)) = length (range_entries t (ranges t ! k))"
      using r len by (auto simp: range_entries_def min_def)
    fix i assume "i < length (range_entries t1 (ranges t1 ! k))"
    then have i: "i < snd (ranges t ! k) - fst (ranges t ! k)" "fst (ranges t ! k) + i < length (ss_entries t1)"
      using r by (auto simp: range_entries_def)
    then have e: "range_entries t1 (ranges t1 ! k) ! i = ss_entries t1 ! (fst (ranges t ! k) + i)"
      "range_entries t (ranges t ! k) ! i = ss_entries t ! (fst (ranges t ! k) + i)" using r len by (simp_all add: range_entries_def)
    show "similar (range_entries t1 (ranges t1 ! k) ! i) (range_entries t (ranges t ! k) ! i)"
    proof (cases "fst (ranges t ! k) + i \<in> set (entry_changes (changes_since (ss_revision t1) t))")
      case True
      with caught_changed(2) [OF assms(1) k True] assms(2) i covers_entries(2) [OF c i(2)] show ?thesis unfolding e by (auto simp: similar_def)
    next
      case False
      with covers_entries(3) [OF c False] i len show ?thesis unfolding e by simp
    qed
  qed
qed

lemma conclusion_same:
  assumes "caught t1 t" "k < length (ranges t)"
  shows "to_conclusion (ct_summary (summarize t (ranges t ! k) (Suc k = length (ranges t)) None)) =
    to_conclusion (ct_summary (summarize t1 (ranges t1 ! k) (Suc k = length (ranges t)) None))"
proof (cases "Suc k = length (ranges t)")
  case True
  have "ss_status t = ''working''" "ss_status t1 = ''working''" using assms(1) by (auto simp: caught_def same_context_def)
  with True show ?thesis by (simp add: conclusion_working)
next
  case False
  then have s: "list_all2 similar (range_entries t1 (ranges t1 ! k)) (range_entries t (ranges t ! k))" using assms by (intro turn_similar) auto
  from assms(1) have ctx: "same_context t1 t" by (simp add: caught_def)
  then have c: "ss_permissions t = ss_permissions t1" "ss_turns t = ss_turns t1" "ss_status t = ss_status t1"
    "ss_error t = ss_error t1" "ss_stop_reason t = ss_stop_reason t1" by (simp_all add: same_context_def)
  have o: "overview_status t = overview_status t1" by (intro ext) (simp only: overview_status_def c)
  have "k < length (ranges t1)" using assms since_ok_length [of t1 t] by (simp add: caught_def)
  then have n: "range_entries t1 (ranges t1 ! k) \<noteq> []" "range_entries t (ranges t ! k) \<noteq> []" using range_entries_nonempty assms(2) by blast+
  then have h: "te_kind (hd (range_entries t (ranges t ! k))) = te_kind (hd (range_entries t1 (ranges t1 ! k)))"
    "te_id (hd (range_entries t (ranges t ! k))) = te_id (hd (range_entries t1 (ranges t1 ! k)))"
    using s by (cases "range_entries t1 (ranges t1 ! k)"; cases "range_entries t (ranges t ! k)"; auto dest: similar_head)+
  show ?thesis unfolding conclusion_cases o c h final_entries_similar [OF s] using False by simp
qed

lemma caught_quiet_dialogue:
  assumes "caught t1 t" "k < length (ranges t)" "i \<in> set (entry_changes (changes_since (ss_revision t1) t))" "i < snd (ranges t ! k)"
  shows "\<not> in_dialogue (shown_ids t (ranges t ! k) (Suc k = length (ranges t))) (ss_entries t ! i)"
proof -
  have dist: "distinct (map te_id (ss_entries t))" "calm t1 (entry_changes (changes_since (ss_revision t1) t)) t"
    using assms(1) by (simp_all add: caught_def since_ok_def)
  have i: "i < length (ss_entries t)" using dist(2) assms(3) by (auto simp: calm_def)
  have "te_id (ss_entries t ! i) \<notin> shown_ids t (ranges t ! k) (Suc k = length (ranges t))"
  proof
    assume "te_id (ss_entries t ! i) \<in> shown_ids t (ranges t ! k) (Suc k = length (ranges t))"
    then obtain e where e: "e \<in> set (to_conclusion (ct_summary (summarize t (ranges t ! k) (Suc k = length (ranges t)) None)))"
      "te_id e = te_id (ss_entries t ! i)" by (auto simp: shown_ids_def)
    then have "te_kind e = ''assistant''" "e \<in> set (ss_entries t)"
      using conclusion_assistant [OF e(1)] by (auto simp: range_entries_def dest: in_set_takeD in_set_dropD)
    then have "te_kind (ss_entries t ! i) = ''assistant''" using e(2) dist(1) i by (metis distinct_map inj_onD nth_mem)
    moreover have "Suc k \<noteq> length (ranges t)" using e(1) assms(1) by (auto simp: caught_def conclusion_working)
    ultimately show False using caught_changed(2) [OF assms] assms(2) by auto
  qed
  then show ?thesis using caught_changed(1) [OF assms] by (simp add: in_dialogue_def)
qed

lemma list_ex_filter: "list_ex p xs \<longleftrightarrow> filter p xs \<noteq> []"
  by (auto simp: filter_empty_conv list_ex_iff)

lemma messages_same:
  assumes "caught t1 t" "k < length (ranges t)"
  defines "latest \<equiv> Suc k = length (ranges t)"
  shows "to_messages (turn_view t (summarize t (ranges t ! k) latest None)) = to_messages (turn_view t1 (summarize t1 (ranges t1 ! k) latest None))"
proof -
  have ok: "since_ok t1 t" and c: "covers t1 (changes_since (ss_revision t1) t) t" using assms(1) by (simp_all add: caught_def since_ok_def)
  have k1: "k < length (ranges t1)" using assms(2) since_ok_length [OF ok] by simp
  have d: "shown_ids t1 (ranges t1 ! k) latest = shown_ids t (ranges t ! k) latest"
    using conclusion_same [OF assms(1,2)] by (simp add: shown_ids_def latest_def)
  have q: "\<not> in_dialogue (shown_ids t (ranges t ! k) latest) (ss_entries t ! i) \<and>
      (i < length (ss_entries t1) \<longrightarrow> \<not> in_dialogue (shown_ids t (ranges t ! k) latest) (ss_entries t1 ! i))"
    if "i \<in> set (entry_changes (changes_since (ss_revision t1) t))" "i < snd (ranges t ! k)" for i
    using caught_quiet_dialogue [OF assms(1,2) that] caught_changed(1) [OF assms(1,2) that] covers_entries(2) [OF c, of i]
    by (auto simp: in_dialogue_def latest_def)
  have "filter (in_dialogue (shown_ids t (ranges t ! k) latest)) (range_entries t (ranges t ! k)) =
      filter (in_dialogue (shown_ids t (ranges t ! k) latest)) (range_entries t1 (ranges t1 ! k))"
    using q by (intro filter_range [OF ok assms(2)]) blast
  moreover have "filter (\<lambda>e. te_kind e = ''steering'') (range_entries t (ranges t ! k)) =
      filter (\<lambda>e. te_kind e = ''steering'') (range_entries t1 (ranges t1 ! k))"
    using caught_changed(1) [OF assms(1,2)] covers_entries(2) [OF c] by (intro filter_range [OF ok assms(2)]) metis
  then have "list_ex (\<lambda>e. te_kind e = ''steering'') (range_entries t (ranges t ! k)) =
      list_ex (\<lambda>e. te_kind e = ''steering'') (range_entries t1 (ranges t1 ! k))"
    by (simp only: list_ex_filter)
  ultimately show ?thesis
    using turn_messages ranges_good [OF assms(2)] ranges_good [OF k1] d by simp
qed

lemma dialogue_loop_quiet: "\<forall>i\<in>set (entry_changes cs). i \<notin> set indices \<Longrightarrow> dialogue_loop t indices cs m = Some (Inr m)"
proof (induction cs arbitrary: m)
  case (Cons c cs)
  then show ?case
    by (cases c) (auto simp: entry_changes_def List.map_filter_def vec_simps split: option.split dest: position_Some)
qed simp

lemma dialogue_quiet:
  assumes "caught t1 t" "k < length (ranges t)"
  shows "dialogue_since t (ct_dialogue (summarize t (ranges t ! k) (Suc k = length (ranges t)) None)) (ss_revision t1) = Some None"
proof -
  let ?D = "shown_ids t (ranges t ! k) (Suc k = length (ranges t))"
  let ?is = "map ((+) (fst (ranges t ! k)) \<circ> fst) (filter (\<lambda>(i, e). in_dialogue ?D e) (enumerate 0 (range_entries t (ranges t ! k))))"
  have "i \<notin> set ?is" if "i \<in> set (entry_changes (changes_since (ss_revision t1) t))" for i
  proof
    assume "i \<in> set ?is"
    then obtain j e where j: "i = fst (ranges t ! k) + j" "(j, e) \<in> set (enumerate 0 (range_entries t (ranges t ! k)))" "in_dialogue ?D e" by auto
    then have "e = ss_entries t ! i" "i < snd (ranges t ! k)"
      using ranges_good [OF assms(2)] by (auto simp: in_set_enumerate_eq range_entries_def good_range_def)
    with caught_quiet_dialogue [OF assms that] j(3) show False by simp
  qed
  then show ?thesis by (simp add: turn_dialogue dialogue_since_def dialogue_loop_quiet)
qed

lemma users_same:
  assumes "since_ok t1 t" "k < length (ranges t)"
    and "\<not> list_ex (\<lambda>i. fst (ranges t ! k) \<le> i \<and> i < snd (ranges t ! k))
      (filter (\<lambda>i. te_kind (ss_entries t ! i) = ''user'') (entry_changes (changes_since (ss_revision t1) t)))"
  shows "filter is_message_of_user (range_entries t (ranges t ! k)) = filter is_message_of_user (range_entries t1 (ranges t1 ! k))"
proof (rule filter_range [OF assms(1,2)])
  have c: "covers t1 (changes_since (ss_revision t1) t) t" using assms(1) by (simp add: since_ok_def)
  fix i assume i: "i \<in> set (entry_changes (changes_since (ss_revision t1) t))" "fst (ranges t ! k) \<le> i" "i < snd (ranges t ! k)"
  then have "te_kind (ss_entries t ! i) \<noteq> ''user''" using assms(3) by (auto simp: list_ex_iff)
  then show "\<not> is_message_of_user (ss_entries t ! i) \<and> (i < length (ss_entries t1) \<longrightarrow> \<not> is_message_of_user (ss_entries t1 ! i))"
    using covers_entries(2) [OF c, of i] by (auto simp: is_message_of_user_def)
qed

section \<open>Patches of turns\<close>

lemma summarize_to_user:
  "k < length (ranges t) \<Longrightarrow> to_user (ct_summary (summarize t (ranges t ! k) latest None)) = filter is_message_of_user (range_entries t (ranges t ! k))"
  using ranges_users [of k t] by (simp add: summarize_def Let_def)

text \<open>The view of turn \<open>k\<close> computed from nothing.\<close>

definition fresh_turn :: "session_snapshot \<Rightarrow> nat \<Rightarrow> turn_overview" where
  "fresh_turn t k = turn_view t (summarize t (ranges t ! k) (Suc k = length (ranges t)) None)"

lemma current_turns_nth: "current_turns t = map (fresh_turn t) [0..<length (ranges t)]"
  by (intro nth_equalityI) (simp_all add: current_turns_def fresh_turn_def nth_summarize_all)

lemma fresh_turn_id: "k < length (ranges t) \<Longrightarrow> to_id (fresh_turn t k) = turn_id t k"
  by (simp add: fresh_turn_def turn_view_def summarize_id)

lemma fresh_turn_user: "k < length (ranges t) \<Longrightarrow> to_user (fresh_turn t k) = filter is_message_of_user (range_entries t (ranges t ! k))"
  by (simp add: fresh_turn_def turn_view_def summarize_to_user)

lemma cached_fresh:
  assumes "cache_ok c t" "k < length (ranges t)"
  shows "turn_view t (oc_turns c ! k) = fresh_turn t k"
    and "ct_dialogue (oc_turns c ! k) = ct_dialogue (summarize t (ranges t ! k) (Suc k = length (ranges t)) None)"
proof -
  have "map without_revision (oc_turns c) = map without_revision (summarize_all t (ranges t))" using assms(1) by (simp add: cache_ok_def)
  from arg_cong [OF this, of "\<lambda>xs. xs ! k"]
  have w: "without_revision (oc_turns c ! k) = without_revision (summarize t (ranges t ! k) (Suc k = length (ranges t)) None)"
    using assms cache_ok_length [OF assms(1)] by (simp add: nth_summarize_all)
  then show "turn_view t (oc_turns c ! k) = fresh_turn t k" unfolding fresh_turn_def by (metis turn_view_without_revision)
  from arg_cong [OF w, of ct_dialogue]
  show "ct_dialogue (oc_turns c ! k) = ct_dialogue (summarize t (ranges t ! k) (Suc k = length (ranges t)) None)"
    by (simp add: without_revision_def)
qed

lemma apply_turn_patch_keep:
  "(case user of Some u \<Rightarrow> Some u | None \<Rightarrow> Some (to_user old)) = Some (to_user turn) \<Longrightarrow>
     apply_turn_patch (Some old)
       \<lparr>tp_id = to_id turn, tp_revision = to_revision turn, tp_user = user, tp_conclusion = to_conclusion turn, tp_messages = None,
        tp_process_segments = to_process_segments turn, tp_tool_count = to_tool_count turn, tp_progress_count = to_progress_count turn,
        tp_running = to_running turn, tp_waiting = to_waiting turn, tp_compacting = to_compacting turn, tp_status = to_status turn,
        tp_error = to_error turn, tp_permission_tool_ids = to_permission_tool_ids turn\<rparr> =
     Some (turn\<lparr>to_messages := to_messages old\<rparr>)"
  by (cases turn; cases user) (simp_all add: apply_turn_patch_def)

lemma turn_patch:
  assumes caught: "caught t1 t" and k: "k < length (ranges t)" and ok: "cache_ok c t"
    and old: "old\<lparr>to_revision := 0\<rparr> = fresh_turn t1 k"
  defines "users \<equiv> filter (\<lambda>i. te_kind (ss_entries t ! i) = ''user'') (entry_changes (changes_since (ss_revision t1) t))"
  shows "\<exists>patch new. overview_patch_of t users (ss_revision t1) (oc_turns c ! k, ranges t ! k) = Some patch \<and> tp_id patch = turn_id t k \<and>
    apply_turn_patch (Some old) patch = Some new \<and> new\<lparr>to_revision := 0\<rparr> = fresh_turn t k"
proof -
  let ?T = "ct_summary (oc_turns c ! k)" and ?r = "ranges t ! k"
  have ok1: "since_ok t1 t" using caught by (simp add: caught_def)
  have k1: "k < length (ranges t1)" "length (ranges t1) = length (ranges t)" using k since_ok_length [OF ok1] by simp_all
  note view = cached_fresh(1) [OF ok k]
  have T: "to_user ?T = filter is_message_of_user (range_entries t ?r)"
    using arg_cong [OF view, of to_user] by (simp add: turn_view_def fresh_turn_user [OF k])
  have id: "to_id ?T = turn_id t k" using arg_cong [OF view, of to_id] by (simp add: turn_view_def fresh_turn_id [OF k])
  have o: "to_user old = filter is_message_of_user (range_entries t1 (ranges t1 ! k))" "to_messages old = to_messages (fresh_turn t1 k)"
    using arg_cong [OF old, of to_user] arg_cong [OF old, of to_messages] by (simp_all add: fresh_turn_user [OF k1(1)])
  have m: "to_messages (fresh_turn t1 k) = to_messages (fresh_turn t k)"
    using messages_same [OF caught k] k1(2) by (simp add: fresh_turn_def)
  let ?user = "if to_user ?T = [] \<or> list_ex (\<lambda>i. fst ?r \<le> i \<and> i < snd ?r) users then Some (to_user ?T) else None"
  have u: "(case ?user of Some user \<Rightarrow> Some user | None \<Rightarrow> Some (to_user old)) = Some (to_user ?T)"
    using users_same [OF ok1 k] T o(1) by (auto simp: users_def)
  have p: "overview_patch_of t users (ss_revision t1) (oc_turns c ! k, ?r) = Some
     \<lparr>tp_id = to_id ?T, tp_revision = to_revision ?T, tp_user = ?user, tp_conclusion = to_conclusion ?T, tp_messages = None,
      tp_process_segments = to_process_segments ?T, tp_tool_count = to_tool_count ?T, tp_progress_count = to_progress_count ?T,
      tp_running = to_running ?T, tp_waiting = to_waiting ?T, tp_compacting = to_compacting ?T, tp_status = to_status ?T,
      tp_error = to_error ?T, tp_permission_tool_ids = to_permission_tool_ids ?T\<rparr>"
    using dialogue_quiet [OF caught k] by (simp add: overview_patch_of_def Let_def cached_fresh(2) [OF ok k])
  have v: "?T\<lparr>to_messages := to_messages old, to_revision := 0\<rparr> = fresh_turn t k"
  proof -
    have "to_messages old = map_option (dialogue_entries t) (ct_dialogue (oc_turns c ! k))"
      using arg_cong [OF view, of to_messages] o(2) m by (simp add: turn_view_def)
    then show ?thesis using view by (simp add: turn_view_def)
  qed
  show ?thesis
    unfolding p using id apply_turn_patch_keep [OF u] v by simp
qed

lemma apply_turn_patches_list:
  "list_all2 (\<lambda>old x. to_id old = tp_id (f x) \<and> (q x \<longrightarrow> (\<exists>new. apply_turn_patch (Some old) (f x) = Some new \<and> new\<lparr>to_revision := 0\<rparr> = v x)) \<and>
       (\<not> q x \<longrightarrow> old\<lparr>to_revision := 0\<rparr> = v x)) olds xs \<Longrightarrow>
     distinct (map (\<lambda>x. tp_id (f x)) xs) \<Longrightarrow>
     \<exists>news. apply_turn_patches olds (map f (filter q xs)) = Some news \<and> map (\<lambda>turn. turn\<lparr>to_revision := 0\<rparr>) news = map v xs"
proof (induction rule: list_all2_induct)
  case (Cons old olds x xs)
  have other: "tp_id (f y) \<noteq> to_id old" if "y \<in> set xs" for y using that Cons.prems Cons.hyps(1) by (auto simp: image_iff)
  then have keep: "filter (\<lambda>p. tp_id p \<noteq> to_id old) (map f (filter q xs)) = map f (filter q xs)"
    by (auto simp: filter_id_conv)
  have none: "find (\<lambda>p. tp_id p = to_id old) (map f (filter q xs)) = None"
    using other by (auto simp: find_None_iff)
  obtain news where news: "apply_turn_patches olds (map f (filter q xs)) = Some news" "map (\<lambda>turn. turn\<lparr>to_revision := 0\<rparr>) news = map v xs"
    using Cons.IH Cons.prems by auto
  show ?case
  proof (cases "q x")
    case True
    then obtain new where "apply_turn_patch (Some old) (f x) = Some new" "new\<lparr>to_revision := 0\<rparr> = v x" using Cons.hyps(1) by blast
    with True Cons.hyps(1) keep news show ?thesis by simp
  next
    case False
    with Cons.hyps(1) keep none news show ?thesis by simp
  qed
qed simp

lemma caught_turn_id:
  assumes "caught t1 t" "k < length (ranges t)"
  shows "turn_id t1 k = turn_id t k"
proof -
  have ok: "since_ok t1 t" and c: "covers t1 (changes_since (ss_revision t1) t) t" using assms(1) by (simp_all add: caught_def since_ok_def)
  have "k < length (ranges t1)" using assms(2) since_ok_length [OF ok] by simp
  then have "fst (ranges t ! k) < length (ss_entries t1)" using ranges_good [of k t1] since_ok_range(1) [OF ok assms(2)] by simp
  then show ?thesis using covers_entries(2) [OF c] since_ok_range(1) [OF ok assms(2)] by (simp add: turn_id_def Let_def)
qed

lemma zip_as_map: "length xs = length ys \<Longrightarrow> zip xs ys = map (\<lambda>k. (xs ! k, ys ! k)) [0..<length ys]"
  by (intro nth_equalityI) simp_all

lemma overview_patches:
  assumes caught: "caught t1 t" and ok: "cache_ok c t" and d: "distinct (''leading'' # map te_id (ss_entries t))"
    and stale: "\<And>k. k < length (ranges t) \<Longrightarrow> to_revision (ct_summary (oc_turns c ! k)) \<le> ss_revision t1 \<Longrightarrow> fresh_turn t1 k = fresh_turn t k"
    and olds: "map (\<lambda>turn. turn\<lparr>to_revision := 0\<rparr>) olds = current_turns t1"
  defines "users \<equiv> filter (\<lambda>i. te_kind (ss_entries t ! i) = ''user'') (entry_changes (changes_since (ss_revision t1) t))"
  shows "\<exists>patches news. those (map (overview_patch_of t users (ss_revision t1))
       (filter (\<lambda>(turn, _). ss_revision t1 < to_revision (ct_summary turn)) (zip (oc_turns c) (ranges t)))) = Some patches \<and>
     distinct (map tp_id patches) \<and> apply_turn_patches olds patches = Some news \<and>
     map (\<lambda>turn. turn\<lparr>to_revision := 0\<rparr>) news = current_turns t"
proof -
  let ?n = "length (ranges t)" and ?q = "\<lambda>k. ss_revision t1 < to_revision (ct_summary (oc_turns c ! k))"
  let ?f = "\<lambda>k. the (overview_patch_of t users (ss_revision t1) (oc_turns c ! k, ranges t ! k))"
  have n1: "length (ranges t1) = ?n" using caught since_ok_length [of t1 t] by (simp add: caught_def)
  have len: "length olds = ?n" using arg_cong [OF olds, of length] n1 by (simp add: current_turns_nth)
  have old: "(olds ! k)\<lparr>to_revision := 0\<rparr> = fresh_turn t1 k" if "k < ?n" for k
    using arg_cong [OF olds, of "\<lambda>xs. xs ! k"] that len n1 by (simp add: current_turns_nth)
  have patch: "overview_patch_of t users (ss_revision t1) (oc_turns c ! k, ranges t ! k) = Some (?f k) \<and> tp_id (?f k) = turn_id t k \<and>
      (\<exists>new. apply_turn_patch (Some (olds ! k)) (?f k) = Some new \<and> new\<lparr>to_revision := 0\<rparr> = fresh_turn t k)" if "k < ?n" for k
    using turn_patch [OF caught that ok old [OF that]] by (auto simp: users_def)
  have ids: "distinct (map (\<lambda>k. tp_id (?f k)) [0..<?n])"
  proof -
    have "turn_id t i \<noteq> turn_id t j" if "i < ?n" "j < ?n" "i \<noteq> j" for i j
      using turn_ids_distinct [OF d, of i j] turn_ids_distinct [OF d, of j i] that by (cases "i < j") auto
    then show ?thesis using patch by (auto simp: distinct_conv_nth)
  qed
  have "list_all2 (\<lambda>old k. to_id old = tp_id (?f k) \<and> (?q k \<longrightarrow> (\<exists>new. apply_turn_patch (Some old) (?f k) = Some new \<and> new\<lparr>to_revision := 0\<rparr> = fresh_turn t k)) \<and>
       (\<not> ?q k \<longrightarrow> old\<lparr>to_revision := 0\<rparr> = fresh_turn t k)) olds [0..<?n]"
    unfolding list_all2_conv_all_nth
  proof (intro conjI allI impI)
    show "length olds = length [0..<?n]" using len by simp
    fix k assume "k < length olds"
    then have k: "k < ?n" "[0..<?n] ! k = k" using len by simp_all
    show "to_id (olds ! k) = tp_id (?f ([0..<?n] ! k))"
      using arg_cong [OF old [OF k(1)], of to_id] patch [OF k(1)] caught_turn_id [OF caught k(1)] k n1 by (simp add: fresh_turn_id)
    show "\<exists>new. apply_turn_patch (Some (olds ! k)) (?f ([0..<?n] ! k)) = Some new \<and> new\<lparr>to_revision := 0\<rparr> = fresh_turn t ([0..<?n] ! k)"
      using patch [OF k(1)] k(2) by simp
    show "(olds ! k)\<lparr>to_revision := 0\<rparr> = fresh_turn t ([0..<?n] ! k)" if "\<not> ?q ([0..<?n] ! k)"
      using stale [OF k(1)] that k old [OF k(1)] by simp
  qed
  from apply_turn_patches_list [OF this ids]
  obtain news where news: "apply_turn_patches olds (map ?f (filter ?q [0..<?n])) = Some news"
    "map (\<lambda>turn. turn\<lparr>to_revision := 0\<rparr>) news = map (fresh_turn t) [0..<?n]" by blast
  have z: "filter (\<lambda>(turn, _). ss_revision t1 < to_revision (ct_summary turn)) (zip (oc_turns c) (ranges t)) =
      map (\<lambda>k. (oc_turns c ! k, ranges t ! k)) (filter ?q [0..<?n])"
    using cache_ok_length [OF ok] by (simp add: zip_as_map filter_map comp_def)
  have "those (map (\<lambda>k. overview_patch_of t users (ss_revision t1) (oc_turns c ! k, ranges t ! k)) (filter ?q [0..<?n])) =
      Some (map ?f (filter ?q [0..<?n]))"
    by (rule those_map_Some) (use patch in auto)
  then have "those (map (overview_patch_of t users (ss_revision t1))
      (filter (\<lambda>(turn, _). ss_revision t1 < to_revision (ct_summary turn)) (zip (oc_turns c) (ranges t)))) = Some (map ?f (filter ?q [0..<?n]))"
    unfolding z by (simp add: comp_def)
  moreover have "distinct (map tp_id (map ?f (filter ?q [0..<?n])))"
    using distinct_map_filter [OF ids] by (simp add: comp_def)
  ultimately show ?thesis using news by (auto simp: current_turns_nth)
qed

section \<open>The cache is no part of what is shown\<close>

lemma cache_fields:
  "ss_revision (t\<lparr>ss_overview_cache := x\<rparr>) = ss_revision t" "ss_entries (t\<lparr>ss_overview_cache := x\<rparr>) = ss_entries t"
  "ss_permissions (t\<lparr>ss_overview_cache := x\<rparr>) = ss_permissions t" "ss_changes (t\<lparr>ss_overview_cache := x\<rparr>) = ss_changes t"
  "ss_sync_generation (t\<lparr>ss_overview_cache := x\<rparr>) = ss_sync_generation t" "ss_turns (t\<lparr>ss_overview_cache := x\<rparr>) = ss_turns t"
  "ss_status (t\<lparr>ss_overview_cache := x\<rparr>) = ss_status t" "ss_error (t\<lparr>ss_overview_cache := x\<rparr>) = ss_error t"
  "ss_stop_reason (t\<lparr>ss_overview_cache := x\<rparr>) = ss_stop_reason t"
  by simp_all

lemma cache_irrelevant [simp]:
  "ranges (t\<lparr>ss_overview_cache := x\<rparr>) = ranges t" "changes_since r (t\<lparr>ss_overview_cache := x\<rparr>) = changes_since r t"
  "entry_at (t\<lparr>ss_overview_cache := x\<rparr>) = entry_at t" "dialogue_entries (t\<lparr>ss_overview_cache := x\<rparr>) = dialogue_entries t"
  "visibility_differs (t\<lparr>ss_overview_cache := x\<rparr>) = visibility_differs t" "metadata (t\<lparr>ss_overview_cache := x\<rparr>) = metadata t"
  unfolding fun_eq_iff ranges_def changes_since_def entry_at_def dialogue_entries_def visibility_differs_def metadata_def cache_fields
  by simp_all

lemma summarize_cache [simp]:
  "summarize (t\<lparr>ss_overview_cache := x\<rparr>) = summarize t" "turn_view (t\<lparr>ss_overview_cache := x\<rparr>) = turn_view t"
proof -
  have s: "overview_status (t\<lparr>ss_overview_cache := x\<rparr>) = overview_status t" "range_entries (t\<lparr>ss_overview_cache := x\<rparr>) = range_entries t"
    unfolding fun_eq_iff overview_status_def range_entries_def cache_fields by simp_all
  show "summarize (t\<lparr>ss_overview_cache := x\<rparr>) = summarize t" unfolding fun_eq_iff summarize_def s cache_fields by simp
  show "turn_view (t\<lparr>ss_overview_cache := x\<rparr>) = turn_view t" unfolding fun_eq_iff turn_view_def cache_irrelevant by simp
qed

lemma dialogue_loop_cache [simp]: "dialogue_loop (t\<lparr>ss_overview_cache := x\<rparr>) indices cs m = dialogue_loop t indices cs m"
proof (induction t indices cs m rule: dialogue_loop.induct)
  case (2 t indices i start cs m)
  then show ?case by (cases "position (\<lambda>j. j = i) indices"; cases "entry_at t i") auto
qed simp_all

lemma dialogue_patch_cache [simp]: "dialogue_patch_of (t\<lparr>ss_overview_cache := x\<rparr>) = dialogue_patch_of t"
  by (simp add: fun_eq_iff dialogue_patch_of_def)

lemma dialogue_since_cache [simp]: "dialogue_since (t\<lparr>ss_overview_cache := x\<rparr>) = dialogue_since t"
  unfolding dialogue_since_def cache_irrelevant dialogue_loop_cache dialogue_patch_cache by simp

lemma overview_patch_cache [simp]: "overview_patch_of (t\<lparr>ss_overview_cache := x\<rparr>) = overview_patch_of t"
  by (simp add: fun_eq_iff overview_patch_of_def)

lemma refresh_parts_cache [simp]:
  "cache_differs (t\<lparr>ss_overview_cache := x\<rparr>) = cache_differs t" "rebuild_cache (t\<lparr>ss_overview_cache := x\<rparr>) = rebuild_cache t"
  "extend_cache (t\<lparr>ss_overview_cache := x\<rparr>) = extend_cache t" "summarize_all (t\<lparr>ss_overview_cache := x\<rparr>) = summarize_all t"
  unfolding fun_eq_iff cache_differs_def rebuild_cache_def extend_cache_def summarize_all_def Let_def cache_irrelevant summarize_cache cache_fields by simp_all

lemma refresh_cache_cache [simp]: "refresh_cache (t\<lparr>ss_overview_cache := x\<rparr>) c = refresh_cache t c"
  unfolding refresh_cache_def Let_def by (simp cong: if_cong split del: if_split)

lemma refresh_with: "refresh (t\<lparr>ss_overview_cache := c\<rparr>) = map_option (\<lambda>c'. t\<lparr>ss_overview_cache := c'\<rparr>) (refresh_cache t c)"
  by (simp add: refresh_def)

lemma refresh_again: "cache_ok c t \<Longrightarrow> refresh (t\<lparr>ss_overview_cache := c\<rparr>) = Some (t\<lparr>ss_overview_cache := c\<rparr>)"
  by (simp add: refresh_with refresh_cache_def cache_ok_def)

lemma metadata_identity [simp]:
  "ss_thread_id (metadata t) = ss_thread_id t" "ss_sync_generation (metadata t) = ss_sync_generation t"
  "ss_revision (metadata t) = ss_revision t" "(metadata t)\<lparr>ss_overview := None\<rparr> = metadata t"
  by (simp_all add: metadata_def new_snapshot_def)

lemma view_identity:
  assumes "view_of view t"
  shows "ss_thread_id view = ss_thread_id t" "ss_sync_generation view = ss_sync_generation t" "ss_revision view = ss_revision t"
proof -
  have m: "view\<lparr>ss_overview := None\<rparr> = metadata t" using assms by (simp add: view_of_def)
  show "ss_thread_id view = ss_thread_id t" "ss_sync_generation view = ss_sync_generation t" "ss_revision view = ss_revision t"
    using arg_cong [OF m, of ss_thread_id] arg_cong [OF m, of ss_sync_generation] arg_cong [OF m, of ss_revision] by simp_all
qed

lemma view_of_metadata: "map (\<lambda>turn. turn\<lparr>to_revision := 0\<rparr>) turns = current_turns t \<Longrightarrow> view_of ((metadata t)\<lparr>ss_overview := Some turns\<rparr>) t"
  by (simp add: view_of_def)

lemma snapshot_view:
  assumes "cache_ok c t"
  shows "\<exists>s. overview_snapshot (t\<lparr>ss_overview_cache := c\<rparr>) = Some (s, t\<lparr>ss_overview_cache := c\<rparr>) \<and> view_of s t"
proof -
  have "map (\<lambda>turn. turn\<lparr>to_revision := 0\<rparr>)
      (map (\<lambda>turn. (ct_summary turn)\<lparr>to_messages := map_option (dialogue_entries t) (ct_dialogue turn)\<rparr>) (oc_turns c)) = current_turns t"
    unfolding current_turns_cached [OF assms, symmetric] by (simp add: turn_view_def [abs_def])
  then show ?thesis by (simp add: overview_snapshot_def refresh_again [OF assms] view_of_metadata)
qed

section \<open>Catching up\<close>

lemma overview_run_seen:
  "overview_run codec ts reads c \<Longrightarrow> ss_sync_generation (hd ts) \<noteq> [] \<Longrightarrow>
     (reads = [] \<and> c = overview_cache_default) \<or>
     (\<exists>tc\<in>set ts. cache_ok c tc \<and> set reads \<subseteq> set ts \<and> (\<forall>t1\<in>set reads. ss_revision t1 \<le> ss_revision tc \<and> seen_ok c tc t1))"
proof (induction rule: overview_run.induct)
  case (committed t ts reads c t')
  note run = acp_run.committed [OF cached_run_is_run [OF overview_run_cached [OF committed(1)]] committed(2)]
  have "run_ok t t'" using acp_run_ok [OF run] by simp
  then have "ss_sync_generation t \<noteq> []" using committed(4) by (simp add: run_ok_def)
  then show ?case using committed(3) by fastforce
next
  case (overview_read t ts reads c c')
  note run = cached_run_is_run [OF overview_run_cached [OF overview_read(1)]]
  from overview_read(3) [OF overview_read(4)] show ?case
  proof (elim disjE)
    assume "reads = [] \<and> c = overview_cache_default"
    then have "cache_ok c' t" using refresh_default [OF run] overview_read(2,4) by auto
    with \<open>reads = [] \<and> _\<close> show ?thesis by (auto simp: seen_refl)
  next
    assume "\<exists>tc\<in>set (t # ts). cache_ok c tc \<and> set reads \<subseteq> set (t # ts) \<and> (\<forall>t1\<in>set reads. ss_revision t1 \<le> ss_revision tc \<and> seen_ok c tc t1)"
    then obtain tc where tc: "tc \<in> set (t # ts)" "cache_ok c tc" "set reads \<subseteq> set (t # ts)"
      "\<forall>t1\<in>set reads. ss_revision t1 \<le> ss_revision tc \<and> seen_ok c tc t1" by blast
    have ok: "cache_ok c' t" using refresh_cached [OF run tc(1,2)] overview_read(2) by auto
    have "ss_revision tc \<le> ss_revision t" using acp_run_ok [OF run] tc(1) by (auto simp: run_ok_def)
    then have "ss_revision t1 \<le> ss_revision t \<and> seen_ok c' t t1" if "t1 \<in> set (t # reads)" for t1
      using that tc(4) seen_step [OF run tc(1,2) overview_read(2), of t1] by (auto simp: seen_refl)
    with ok tc(3) show ?thesis by (intro disjI2 bexI [of _ t]) auto
  qed
qed simp

text \<open>Reading the overview once more.\<close>

lemma overview_read_seen:
  assumes "overview_run codec (t # ts) reads c" "ss_sync_generation t \<noteq> []"
  obtains c' where "refresh_cache t c = Some c'" "cache_ok c' t" "\<forall>t1\<in>set reads. t1 \<in> set (t # ts) \<and> seen_ok c' t t1"
proof -
  note run = cached_run_is_run [OF overview_run_cached [OF assms(1)]]
  note inv = overview_run_seen [OF assms(1)]
  from inv assms(2) have "(reads = [] \<and> c = overview_cache_default) \<or> (\<exists>tc\<in>set (t # ts). cache_ok c tc \<and> set reads \<subseteq> set (t # ts) \<and>
      (\<forall>t1\<in>set reads. ss_revision t1 \<le> ss_revision tc \<and> seen_ok c tc t1))" by simp
  then show thesis
  proof
    assume "reads = [] \<and> c = overview_cache_default"
    then show thesis using refresh_default [OF run assms(2)] that by auto
  next
    assume "\<exists>tc\<in>set (t # ts). cache_ok c tc \<and> set reads \<subseteq> set (t # ts) \<and> (\<forall>t1\<in>set reads. ss_revision t1 \<le> ss_revision tc \<and> seen_ok c tc t1)"
    then obtain tc where tc: "tc \<in> set (t # ts)" "cache_ok c tc" "set reads \<subseteq> set (t # ts)"
      "\<forall>t1\<in>set reads. ss_revision t1 \<le> ss_revision tc \<and> seen_ok c tc t1" by blast
    obtain c' where "refresh_cache t c = Some c'" "cache_ok c' t" using refresh_cached [OF run tc(1,2)] by blast
    with tc seen_step [OF run tc(1,2)] show thesis by (intro that [of c']) auto
  qed
qed

text \<open>C2: A browser that shows the turns of a conversation as they were when its overview was read at some point
  catches up: asking for the overview since then gives an answer it can apply, and it then shows the turns of the
  current conversation, with their messages, conclusions and counts, however many commits and readings lie
  between, whether or not turns were added, split or merged since.\<close>

theorem overview_catches_up:
  assumes "overview_run codec (t # ts) reads c" "t1 \<in> set reads" "view_of view t1"
    and "distinct (''leading'' # map te_id (ss_entries t))" "ss_sync_generation t \<noteq> []"
  shows "\<exists>u t' view'. overview_since (ss_sync_generation view) (ss_revision view) (t\<lparr>ss_overview_cache := c\<rparr>) = Some (u, t') \<and>
    apply_overview view u = Some view' \<and> view_of view' t"
proof -
  note run = cached_run_is_run [OF overview_run_cached [OF assms(1)]]
  obtain c' where c': "refresh_cache t c = Some c'" "cache_ok c' t" and t1: "t1 \<in> set (t # ts)" "seen_ok c' t t1"
    using overview_read_seen [OF assms(1,5)] assms(2) by blast
  have k: "run_ok t1 t" using acp_run_ok [OF run] t1(1) by auto
  note i = view_identity [OF assms(3)]
  have g: "ss_sync_generation view = ss_sync_generation t" "ss_thread_id view = ss_thread_id t" using i k by (simp_all add: run_ok_def)
  let ?t = "t\<lparr>ss_overview_cache := c'\<rparr>"
  show ?thesis
  proof (cases "ss_revision t1 < cl_base_revision (ss_changes t) \<or> ss_revision t1 < oc_layout_revision c' \<or> ss_revision t < ss_revision t1")
    case True
    obtain s where s: "overview_snapshot ?t = Some (s, ?t)" "view_of s t" using snapshot_view [OF c'(2)] by blast
    have "overview_since (ss_sync_generation view) (ss_revision view) (t\<lparr>ss_overview_cache := c\<rparr>) = Some (Updates_Snapshot s, ?t)"
      using True s i c' by (simp add: overview_since_def refresh_with Let_def)
    then show ?thesis using s(2) by (auto simp: apply_overview_def)
  next
    case reachable: False
    show ?thesis
    proof (cases "ss_revision t1 = ss_revision t")
      case True
      then have "t1 = t" using k by (simp add: run_ok_def)
      moreover have "overview_since (ss_sync_generation view) (ss_revision view) (t\<lparr>ss_overview_cache := c\<rparr>) = Some (Updates_Unchanged, ?t)"
        using reachable True i g c' by (simp add: overview_since_def refresh_with Let_def)
      ultimately show ?thesis using assms(3) by (auto simp: apply_overview_def)
    next
      case False
      have b: "cl_base_revision (ss_changes t) \<le> ss_revision t1" "oc_layout_revision c' \<le> ss_revision t1" "ss_revision t1 < ss_revision t"
        using reachable False by auto
      have cov: "covers t1 (changes_since (ss_revision t1) t) t" using k b(1) by (simp add: run_ok_def)
      have calm: "calm_since t1 t" using acp_run_calm [OF run t1(1)] b(1) by simp
      have seen: "map fst (ranges t1) = map fst (ranges t)"
        "\<And>k. k < length (ranges t) \<Longrightarrow> to_revision (ct_summary (oc_turns c' ! k)) \<le> ss_revision t1 \<Longrightarrow>
           range_entries t1 (ranges t1 ! k) = range_entries t (ranges t ! k)"
        using t1(2) b by (auto simp: seen_ok_def)
      have ctx: "same_context t1 t" using covers_context [OF cov] by (simp add: same_context_def)
      have caught: "caught t1 t"
        using cov calm seen(1) ctx b(3) assms(4) by (simp add: caught_def since_ok_def calm_since_def)
      have n: "length (ranges t1) = length (ranges t)" using arg_cong [OF seen(1), of length] by simp
      have stale: "fresh_turn t1 k = fresh_turn t k"
        if "k < length (ranges t)" "to_revision (ct_summary (oc_turns c' ! k)) \<le> ss_revision t1" for k
        using turn_view_cong [OF ctx seen(2) [OF that, symmetric]] ranges_good [of k t] ranges_good [of k t1] that n
        by (simp add: fresh_turn_def)
      obtain olds where olds: "ss_overview view = Some olds" "map (\<lambda>turn. turn\<lparr>to_revision := 0\<rparr>) olds = current_turns t1"
        using assms(3) by (auto simp: view_of_def)
      let ?changed = "entry_changes (changes_since (ss_revision t1) t)"
      from overview_patches [OF caught c'(2) assms(4) stale olds(2)] obtain patches news where p:
        "those (map (overview_patch_of t (filter (\<lambda>i. te_kind (ss_entries t ! i) = ''user'') ?changed) (ss_revision t1))
           (filter (\<lambda>(turn, _). ss_revision t1 < to_revision (ct_summary turn)) (zip (oc_turns c') (ranges t)))) = Some patches"
        "distinct (map tp_id patches)" "apply_turn_patches olds patches = Some news"
        "map (\<lambda>turn. turn\<lparr>to_revision := 0\<rparr>) news = current_turns t" by blast
      have "\<not> list_ex (\<lambda>i. length (ss_entries t) \<le> i) ?changed"
        using covers_changed [OF cov] by (fastforce simp: list_ex_iff not_le)
      then have "overview_since (ss_sync_generation view) (ss_revision view) (t\<lparr>ss_overview_cache := c\<rparr>) =
          Some (Updates_Overview (ss_revision t1) (metadata t) patches, ?t)"
        using b p(1) i g c' by (simp add: overview_since_def refresh_with Let_def cache_ok_def)
      moreover have "apply_overview view (Updates_Overview (ss_revision t1) (metadata t) patches) = Some ((metadata t)\<lparr>ss_overview := Some news\<rparr>)"
        using olds(1) p(2,3) i g b(3) by (simp add: apply_overview_def)
      ultimately show ?thesis using view_of_metadata [OF p(4)] by blast
    qed
  qed
qed

text \<open>A browser opened after the first chunk is shown the second one.\<close>

theorem overview_catches_up_witness:
  "\<exists>view view' c u t'. view_of view (sample_step ''Hel'' sample_thread) \<and>
     overview_since (ss_sync_generation view) (ss_revision view) ((sample_step ''lo'' (sample_step ''Hel'' sample_thread))\<lparr>ss_overview_cache := c\<rparr>) =
       Some (u, t') \<and> apply_overview view u = Some view' \<and> view_of view' (sample_step ''lo'' (sample_step ''Hel'' sample_thread))"
proof -
  let ?t1 = "sample_step ''Hel'' sample_thread" and ?t = "sample_step ''lo'' (sample_step ''Hel'' sample_thread)"
  have "fresh_log sample_thread" by (simp add: fresh_log_def sample_thread_def new_snapshot_def change_log_default_def)
  note run = acp_run.committed [OF acp_run.opened [OF this] sample_acp_step [OF sample_steps(1)]]
  have "ss_sync_generation ?t1 \<noteq> []" by code_simp
  from refresh_default [OF run this] obtain c where c: "refresh_cache ?t1 overview_cache_default = Some c" "cache_ok c ?t1" by blast
  obtain view where view: "view_of view ?t1" using snapshot_view [OF c(2)] by blast
  have reads: "overview_run plain_codec [?t, ?t1, sample_thread] [?t1] c"
    using \<open>fresh_log sample_thread\<close>
    by (intro overview_run.committed sample_acp_step sample_steps overview_run.overview_read [OF _ c(1)] overview_run.opened)
  have "distinct (''leading'' # map te_id (ss_entries ?t))" "ss_sync_generation ?t \<noteq> []" by code_simp+
  from overview_catches_up [OF reads _ view this] obtain u t' view' where
    "overview_since (ss_sync_generation view) (ss_revision view) (?t\<lparr>ss_overview_cache := c\<rparr>) = Some (u, t')"
    "apply_overview view u = Some view'" "view_of view' ?t" by auto
  then show ?thesis using view by (intro exI conjI)
qed

end
