(* ===== verification/Acp_Replay.thy ===== *)
theory Acp_Replay
  imports Acp_Turns "HOL-Library.Sublist" "HOL-Library.Multiset"
begin

text \<open>
  A conversation that is loaded again is replayed by its agent (\<open>crates/acp/src/acp_thread/turns/replay.rs\<close> and
  \<open>restore\<close> of \<open>turns/mod.rs\<close>). The replay knows nothing of inputs that were delivered while the agent worked, of
  those it never consumed, and of the outcomes of turns; these are carried over from the saved conversation when the
  two histories agree.
\<close>

section \<open>Inputs\<close>

definition optional_input :: "thread_entry \<Rightarrow> bool" where
  "optional_input e \<longleftrightarrow> te_kind e = ''steering'' \<and>
     (case te_delivery e of None \<Rightarrow> False | Some d \<Rightarrow> dv_status d \<in> {''failed'', ''cancelled'', ''unknown'', ''sending''})"

text \<open>\<open>content["text"] = s\<close>, for the content of a text block, which is an object.\<close>

definition set_text :: "string \<Rightarrow> json \<Rightarrow> json" where
  "set_text s v = (case json_set ''text'' (JString s) v of Some w \<Rightarrow> w | None \<Rightarrow> v)"

definition input_prefix :: "thread_entry \<Rightarrow> thread_entry \<Rightarrow> bool" where
  "input_prefix expected actual \<longleftrightarrow>
     te_content expected = te_content actual \<or>
     text_is (idx (te_content expected) ''type'') ''text'' \<and> text_is (idx (te_content actual) ''type'') ''text'' \<and>
     (case str_at (te_content expected) ''text'' of
        None \<Rightarrow> False
      | Some text \<Rightarrow> text \<noteq> [] \<and>
          (case str_at (te_content actual) ''text'' of None \<Rightarrow> False | Some v \<Rightarrow> prefix text v) \<and>
          set_text text (te_content actual) = te_content expected)"

section \<open>The transcript for comparison\<close>

record replay_message =
  mg_entry :: thread_entry
  mg_indices :: "nat list"

definition merge_message :: "replay_message \<Rightarrow> nat \<Rightarrow> thread_entry \<Rightarrow> replay_message option" where
  "merge_message previous index e =
     (let p = mg_entry previous
      in if te_kind e \<in> {''assistant'', ''thought''} \<and> te_kind e = te_kind p \<and>
            (case te_message_id e of None \<Rightarrow> False | Some i \<Rightarrow> i \<noteq> []) \<and> te_message_id e = te_message_id p \<and>
            text_is (idx (te_content e) ''type'') ''text'' \<and> text_is (idx (te_content p) ''type'') ''text''
         then (case (str_at (te_content e) ''text'', str_at (te_content p) ''text'') of
                 (Some text, Some before) \<Rightarrow>
                   Some \<lparr>mg_entry = p\<lparr>te_content := set_text (before @ text) (te_content p)\<rparr>, mg_indices = mg_indices previous @ [index]\<rparr>
               | _ \<Rightarrow> None)
         else None)"

fun normalize_loop :: "(nat \<Rightarrow> thread_entry \<Rightarrow> bool) \<Rightarrow> (nat \<times> thread_entry) list \<Rightarrow> replay_message list \<Rightarrow> replay_message list" where
  "normalize_loop excluded [] result = result"
| "normalize_loop excluded ((index, e) # rest) result =
     (if excluded index e then normalize_loop excluded rest result
      else (case (if result = [] then None else merge_message (last result) index e) of
              Some m \<Rightarrow> normalize_loop excluded rest (butlast result @ [m])
            | None \<Rightarrow> normalize_loop excluded rest (result @ [\<lparr>mg_entry = e, mg_indices = [index]\<rparr>])))"

definition is_tool :: "replay_message \<Rightarrow> bool" where
  "is_tool m \<longleftrightarrow> te_kind (mg_entry m) = ''tool''"

text \<open>Every run of tool calls is sorted by their identifiers.\<close>

function sort_tools :: "replay_message list \<Rightarrow> replay_message list" where
  "sort_tools [] = []"
| "sort_tools (m # ms) =
     (if \<not> is_tool m then m # sort_tools ms
      else sort_key (\<lambda>m. te_id (mg_entry m)) (m # takeWhile is_tool ms) @ sort_tools (dropWhile is_tool ms))"
  by pat_completeness auto

termination
  by (relation "measure length") (auto simp: less_Suc_eq_le length_dropWhile_le)

definition normalize_entries :: "(nat \<Rightarrow> thread_entry \<Rightarrow> bool) \<Rightarrow> thread_entry list \<Rightarrow> replay_message list" where
  "normalize_entries excluded es = sort_tools (normalize_loop excluded (enumerate 0 es) [])"

definition same_message :: "thread_entry \<Rightarrow> thread_entry \<Rightarrow> bool" where
  "same_message before after \<longleftrightarrow>
     te_kind before = te_kind after \<and>
     (if te_kind before = ''tool''
      then te_id before \<noteq> [] \<and> te_id before = te_id after \<and>
        (\<forall>key\<in>set [''name'', ''kind'', ''title'', ''rawInput'', ''status'']. idx (te_content before) key = idx (te_content after) key)
      else (te_content before = te_content after \<or>
            te_kind before = ''thought'' \<and> te_message_id before \<noteq> None \<and>
            text_is (idx (te_content before) ''type'') ''text'' \<and> text_is (idx (te_content after) ''type'') ''text'' \<and>
            (case (str_at (te_content before) ''text'', str_at (te_content after) ''text'') of
               (Some a, Some b) \<Rightarrow> trim a = trim b | _ \<Rightarrow> False)) \<and>
           (te_kind before \<in> {''assistant'', ''thought''} \<longrightarrow> te_message_id before = te_message_id after))"

section \<open>Finding the inputs in the replay\<close>

record match_state =
  mt_remote :: "thread_entry list"
  mt_entries :: "thread_entry list"
  mt_mapping :: "(nat, nat) fmap"
  mt_steering :: "(nat, nat) fmap"

abbreviation is_user :: "thread_entry \<Rightarrow> bool" where
  "is_user e \<equiv> te_kind e = ''user''"

definition take_history :: "match_state \<Rightarrow> match_state" where
  "take_history st =
     st\<lparr>mt_entries := mt_entries st @ takeWhile (\<lambda>e. \<not> is_user e) (mt_remote st), mt_remote := dropWhile (\<lambda>e. \<not> is_user e) (mt_remote st)\<rparr>"

text \<open>The text of the replay goes on after the input: the rest becomes an entry with an identifier of its own.\<close>

definition split_input :: "string \<Rightarrow> thread_entry \<Rightarrow> thread_entry \<Rightarrow> thread_entry list \<Rightarrow> thread_entry \<times> thread_entry list" where
  "split_input uuid entry found rest =
     (if te_content found \<noteq> te_content entry
      then (found\<lparr>te_content := te_content entry\<rparr>,
            found\<lparr>te_id := uuid,
              te_content := set_text (drop (length (text_or_empty (te_content entry))) (text_or_empty (te_content found))) (te_content found)\<rparr> # rest)
      else (found, rest))"

text \<open>One input; \<open>None\<close> when the histories do not agree. \<open>uuid\<close> gives the identifier chosen at a target.\<close>

definition match_input :: "(nat \<Rightarrow> string) \<Rightarrow> (nat \<times> thread_entry) list \<Rightarrow> nat \<times> thread_entry \<Rightarrow> match_state \<Rightarrow> match_state option" where
  "match_input uuid inputs input st =
     (case input of (index, entry) \<Rightarrow>
        let st = take_history st
        in if optional_input entry \<and> list_ex (\<lambda>(other, v). other \<noteq> index \<and> te_content v = te_content entry) inputs then None
           else if optional_input entry \<and> (case mt_remote st of [] \<Rightarrow> True | found # _ \<Rightarrow> \<not> input_prefix entry found) then Some st
           else if optional_input entry \<and> (case te_delivery entry of None \<Rightarrow> False | Some d \<Rightarrow> dv_status d \<in> {''failed'', ''cancelled''}) then None
           else (case mt_remote st of
                   [] \<Rightarrow> None
                 | found # rest \<Rightarrow>
                     if \<not> input_prefix entry found then None
                     else (let target = length (mt_entries st); (found, remote) = split_input (uuid target) entry found rest
                           in Some (st\<lparr>mt_remote := remote, mt_entries := mt_entries st @ [found],
                                mt_mapping := fmupd index target (mt_mapping st),
                                mt_steering := (if te_kind entry = ''steering'' then fmupd target index (mt_steering st) else mt_steering st)\<rparr>))))"

fun match_inputs :: "(nat \<Rightarrow> string) \<Rightarrow> (nat \<times> thread_entry) list \<Rightarrow> (nat \<times> thread_entry) list \<Rightarrow> match_state \<Rightarrow> match_state option" where
  "match_inputs uuid inputs [] st = Some st"
| "match_inputs uuid inputs (i # is) st = Option.bind (match_input uuid inputs i st) (match_inputs uuid inputs is)"

section \<open>Reconciling\<close>

definition is_input :: "thread_entry \<Rightarrow> bool" where
  "is_input e \<longleftrightarrow> te_kind e \<in> {''user'', ''steering''}"

definition input_list :: "thread_entry list \<Rightarrow> (nat \<times> thread_entry) list" where
  "input_list es = filter (\<lambda>(_, e). is_input e) (enumerate 0 es)"

text \<open>Messages that agree: the positions of the saved ones map to the last position of the replayed one.\<close>

definition map_messages :: "replay_message list \<Rightarrow> replay_message list \<Rightarrow> (nat, nat) fmap \<Rightarrow> (nat, nat) fmap" where
  "map_messages before after mapping =
     fold (\<lambda>(a, b) m. fold (\<lambda>index m. fmupd index (last (mg_indices b)) m) (mg_indices a) m) (zip before after) mapping"

definition restored_turns :: "session_snapshot \<Rightarrow> thread_entry list \<Rightarrow> (nat, nat) fmap \<Rightarrow> session_turn list" where
  "restored_turns previous entries mapping =
     List.map_filter (\<lambda>turn.
       Option.bind (position (\<lambda>e. te_id e = tn_user_entry_id turn) (ss_entries previous)) (\<lambda>index.
       map_option (\<lambda>target. turn\<lparr>tn_user_entry_id := te_id (entries ! target)\<rparr>) (fmlookup mapping index))) (ss_turns previous)"

text \<open>\<open>mapping.range(..index)\<close>: behind the targets of everything before.\<close>

definition boundary_of :: "(nat, nat) fmap \<Rightarrow> nat \<Rightarrow> nat" where
  "boundary_of mapping index = fold max (map (\<lambda>(_, target). target + 1) (filter (\<lambda>(i, _). i < index) (btree_entries mapping))) 0"

fun place_inputs :: "(nat, nat) fmap \<Rightarrow> (nat \<times> thread_entry) list \<Rightarrow> thread_entry list \<times> (nat, thread_entry list) fmap
    \<Rightarrow> thread_entry list \<times> (nat, thread_entry list) fmap" where
  "place_inputs mapping [] (es, insertions) = (es, insertions)"
| "place_inputs mapping ((index, e) # is) (es, insertions) =
     (case fmlookup mapping index of
        Some target \<Rightarrow> place_inputs mapping is (es[target := (es ! target)\<lparr>te_kind := te_kind e, te_delivery := te_delivery e\<rparr>], insertions)
      | None \<Rightarrow>
          (let b = boundary_of mapping index; cards = (case fmlookup insertions b of Some cs \<Rightarrow> cs | None \<Rightarrow> [])
           in place_inputs mapping is (es, fmupd b (cards @ [e]) insertions)))"

definition splice_cards :: "(nat, thread_entry list) fmap \<Rightarrow> thread_entry list \<Rightarrow> thread_entry list" where
  "splice_cards insertions es = fold (\<lambda>(b, cards) es. take b es @ cards @ drop b es) (rev (btree_entries insertions)) es"

text \<open>\<open>None\<close> when nothing is reconciled; the replay is then unchanged.\<close>

definition reconcile :: "(nat \<Rightarrow> string) \<Rightarrow> session_snapshot \<Rightarrow> session_snapshot \<Rightarrow> session_snapshot option" where
  "reconcile uuid previous replay =
     (if \<not> list_ex (\<lambda>e. te_kind e = ''steering'') (ss_entries previous) then None
      else (let inputs = input_list (ss_entries previous)
            in Option.bind (match_inputs uuid inputs inputs
                 \<lparr>mt_remote = ss_entries replay, mt_entries = [], mt_mapping = fmempty, mt_steering = fmempty\<rparr>) (\<lambda>st.
               let st = take_history st;
                   replay_end = length (mt_entries st);
                   entries = mt_entries st @ mt_remote st;
                   before = normalize_entries (\<lambda>_ e. te_kind e = ''steering'') (ss_entries previous);
                   after = normalize_entries (\<lambda>index _. index |\<in>| fmdom (mt_steering st)) (take replay_end entries)
               in if length before \<noteq> length after \<or> list_ex (\<lambda>(a, b). \<not> same_message (mg_entry a) (mg_entry b)) (zip before after) then None
                  else (let mapping = map_messages before after (mt_mapping st);
                            turns = restored_turns previous entries mapping;
                            (entries, insertions) = place_inputs mapping inputs (entries, fmempty)
                        in Some (replay\<lparr>ss_entries := splice_cards insertions entries, ss_turns := turns\<rparr>)))))"

section \<open>Restoring outcomes\<close>

text \<open>Whether an entry of the saved history and one of the replay are the same, when there is nothing to reconcile.\<close>

definition restorable :: "thread_entry \<Rightarrow> thread_entry \<Rightarrow> bool" where
  "restorable before after \<longleftrightarrow>
     (te_kind before = te_kind after \<or> te_kind before = ''steering'' \<and> te_kind after = ''user'') \<and>
     te_content before = te_content after \<and>
     (te_message_id before = None \<or> te_message_id after = None \<or> te_message_id before = te_message_id after) \<and>
     (te_kind before \<noteq> ''steering'' \<or> (case te_delivery before of None \<Rightarrow> False | Some d \<Rightarrow> dv_status d = ''injected''))"

definition turn_end :: "session_snapshot \<Rightarrow> nat \<Rightarrow> nat" where
  "turn_end previous start =
     (case find (\<lambda>(_, e). list_ex (\<lambda>following. tn_user_entry_id following = te_id e) (ss_turns previous))
          (drop (start + 1) (enumerate 0 (ss_entries previous))) of
        Some (index, _) \<Rightarrow> index | None \<Rightarrow> length (ss_entries previous))"

definition restore_turn :: "session_snapshot \<Rightarrow> nat \<Rightarrow> thread_entry list \<Rightarrow> session_turn \<Rightarrow> session_turn option" where
  "restore_turn previous matched entries turn =
     Option.bind (position (\<lambda>e. te_id e = tn_user_entry_id turn) (ss_entries previous)) (\<lambda>start.
       if start < matched \<and> turn_end previous start \<le> matched then Some (turn\<lparr>tn_user_entry_id := te_id (entries ! start)\<rparr>) else None)"

definition restore :: "(nat \<Rightarrow> string) \<Rightarrow> session_snapshot \<Rightarrow> session_snapshot \<Rightarrow> session_snapshot" where
  "restore uuid previous replay =
     (case reconcile uuid previous replay of
        Some replay \<Rightarrow> replay
      | None \<Rightarrow>
          (let matched = length (takeWhile (\<lambda>(before, after). restorable before after) (zip (ss_entries previous) (ss_entries replay)));
               entries = map (\<lambda>(i, after). if i < matched
                   then after\<lparr>te_kind := te_kind (ss_entries previous ! i), te_delivery := te_delivery (ss_entries previous ! i)\<rparr>
                   else after) (enumerate 0 (ss_entries replay))
           in replay\<lparr>ss_entries := entries, ss_turns := ss_turns replay @ List.map_filter (restore_turn previous matched entries) (ss_turns previous)\<rparr>))"

end
