(* ===== verification/Acp_Replay_Facts.thy ===== *)
theory Acp_Replay_Facts
  imports Acp_Replay
begin

text \<open>
  What reconciling a replayed conversation with the saved one keeps: everything the agent has replayed, in its order,
  and every input of the saved conversation.
\<close>

section \<open>Users in the transcript for comparison\<close>

abbreviation user_indices :: "replay_message list \<Rightarrow> nat list list" where
  "user_indices ms \<equiv> map mg_indices (filter (\<lambda>m. is_user (mg_entry m)) ms)"

lemma merge_message_kinds:
  "merge_message p index e = Some m \<Longrightarrow>
     te_kind (mg_entry m) = te_kind (mg_entry p) \<and> te_kind (mg_entry p) \<in> {''assistant'', ''thought''} \<and> te_kind e \<in> {''assistant'', ''thought''} \<and>
     mg_indices m = mg_indices p @ [index]"
  by (auto simp: merge_message_def Let_def split: if_splits option.splits)

lemma normalize_loop_users:
  "user_indices (normalize_loop excluded es result) =
     user_indices result @ map (\<lambda>(i, _). [i]) (filter (\<lambda>(i, e). \<not> excluded i e \<and> is_user e) es)"
proof (induction excluded es result rule: normalize_loop.induct)
  case (2 excluded index e rest result)
  show ?case
  proof (cases "excluded index e")
    case True
    with 2 show ?thesis by simp
  next
    case False
    show ?thesis
    proof (cases "if result = [] then None else merge_message (last result) index e")
      case None
      with 2 False show ?thesis by simp
    next
      case (Some m)
      then have r: "result \<noteq> []" "merge_message (last result) index e = Some m" by (auto split: if_splits)
      have "user_indices (butlast result @ [m]) = user_indices result"
        using merge_message_kinds [OF r(2)] r(1) by (subst (2) append_butlast_last_id [OF r(1), symmetric]) (auto simp del: append_butlast_last_id)
      with 2(3) [OF False Some] Some False merge_message_kinds [OF r(2)] show ?thesis by auto
    qed
  qed
qed simp

lemma filter_dropWhile: "filter p (takeWhile q xs) = [] \<Longrightarrow> filter p (dropWhile q xs) = filter p xs"
  by (metis append_Nil filter_append takeWhile_dropWhile_id)

lemma sort_tools_users: "user_indices (sort_tools ms) = user_indices ms"
proof (induction ms rule: sort_tools.induct)
  case (2 m ms)
  show ?case
  proof (cases "is_tool m")
    case True
    have none': "filter (\<lambda>m. is_user (mg_entry m)) (takeWhile is_tool ms) = []"
      by (auto simp: filter_empty_conv is_tool_def dest: set_takeWhileD)
    have none: "filter (\<lambda>m. is_user (mg_entry m)) (sort_key (\<lambda>m. te_id (mg_entry m)) (m # takeWhile is_tool ms)) = []"
      using True none' by (simp add: filter_sort is_tool_def del: sort_key_simps(2))
    have "filter (\<lambda>m. is_user (mg_entry m)) (dropWhile is_tool ms) = filter (\<lambda>m. is_user (mg_entry m)) ms"
      by (rule filter_dropWhile [OF none'])
    with 2(2) True none show ?thesis by (auto simp: is_tool_def simp del: sort_key_simps(2))
  qed (use 2 in simp)
qed simp

lemma normalize_users:
  "user_indices (normalize_entries excluded es) = map (\<lambda>i. [i]) (filter (\<lambda>i. is_user (es ! i) \<and> \<not> excluded i (es ! i)) [0..<length es])"
proof -
  have e: "enumerate 0 es = map (\<lambda>i. (i, es ! i)) [0..<length es]" by (intro nth_equalityI) (simp_all add: nth_enumerate_eq)
  show ?thesis unfolding normalize_entries_def sort_tools_users normalize_loop_users e
    by (simp add: filter_map comp_def conj_commute)
qed

text \<open>Every position that is not excluded is in one message.\<close>

lemma normalize_loop_indices:
  "mset (concat (map mg_indices (normalize_loop excluded es result))) =
     mset (concat (map mg_indices result)) + mset (map fst (filter (\<lambda>(i, e). \<not> excluded i e) es))"
proof (induction excluded es result rule: normalize_loop.induct)
  case (2 excluded index e rest result)
  show ?case
  proof (cases "excluded index e")
    case True
    with 2 show ?thesis by simp
  next
    case False
    show ?thesis
    proof (cases "if result = [] then None else merge_message (last result) index e")
      case None
      with 2 False show ?thesis by simp
    next
      case (Some m)
      then have r: "result \<noteq> []" "merge_message (last result) index e = Some m" by (auto split: if_splits)
      have "concat (map mg_indices result) = concat (map mg_indices (butlast result)) @ mg_indices (last result)"
        by (subst append_butlast_last_id [OF r(1), symmetric]) (simp del: append_butlast_last_id)
      with 2(3) [OF False Some] Some False merge_message_kinds [OF r(2)] show ?thesis by simp
    qed
  qed
qed simp

lemma sort_tools_mset: "mset (sort_tools ms) = mset ms"
proof (induction ms rule: sort_tools.induct)
  case (2 m ms)
  have "mset (takeWhile is_tool ms) + mset (dropWhile is_tool ms) = mset ms" by (metis mset_append takeWhile_dropWhile_id)
  with 2 show ?case by (cases "is_tool m") (simp_all del: sort_key_simps(2))
qed simp

lemma normalize_indices: "mset (concat (map mg_indices (normalize_entries excluded es))) = mset (filter (\<lambda>i. \<not> excluded i (es ! i)) [0..<length es])"
proof -
  have e: "enumerate 0 es = map (\<lambda>i. (i, es ! i)) [0..<length es]" by (intro nth_equalityI) (simp_all add: nth_enumerate_eq)
  have "mset (concat (map mg_indices (sort_tools ms))) = mset (concat (map mg_indices ms))" for ms
    unfolding mset_concat by (metis mset_map sort_tools_mset sum_mset_sum_list)
  then show ?thesis unfolding normalize_entries_def
    by (simp add: normalize_loop_indices e filter_map comp_def)
qed

section \<open>The inputs in the replay\<close>

abbreviation entry_text :: "thread_entry \<Rightarrow> string" where
  "entry_text e \<equiv> text_or_empty (te_content e)"

abbreviation texts :: "thread_entry list \<Rightarrow> string" where
  "texts es \<equiv> concat (map entry_text es)"

text \<open>The inputs found so far, with their positions in the saved and in the replayed conversation.\<close>

definition hits :: "match_state \<Rightarrow> (nat \<times> thread_entry) list \<Rightarrow> (nat \<times> thread_entry) list" where
  "hits st taken = filter (\<lambda>(i, _). i |\<in>| fmdom (mt_mapping st)) taken"

abbreviation target_of :: "match_state \<Rightarrow> nat \<Rightarrow> nat" where
  "target_of st i \<equiv> the (fmlookup (mt_mapping st) i)"

definition match_ok :: "thread_entry list \<Rightarrow> (nat \<times> thread_entry) list \<Rightarrow> match_state \<Rightarrow> bool" where
  "match_ok replay taken st \<longleftrightarrow>
     filter (\<lambda>e. \<not> is_user e) (mt_entries st @ mt_remote st) = filter (\<lambda>e. \<not> is_user e) replay \<and>
     texts (filter is_user (mt_entries st @ mt_remote st)) = texts (filter is_user replay) \<and>
     fset (fmdom (mt_mapping st)) \<subseteq> fst ` set taken \<and>
     filter (\<lambda>j. is_user (mt_entries st ! j)) [0..<length (mt_entries st)] = map (\<lambda>(i, _). target_of st i) (hits st taken) \<and>
     (\<forall>(i, e)\<in>set (hits st taken). te_content (mt_entries st ! target_of st i) = te_content e) \<and>
     fset (fmdom (mt_steering st)) = target_of st ` fst ` set (filter (\<lambda>(_, e). te_kind e = ''steering'') (hits st taken)) \<and>
     (\<forall>(i, e)\<in>set taken. i |\<notin>| fmdom (mt_mapping st) \<longrightarrow> optional_input e)"

lemma users_append:
  "filter (\<lambda>j. is_user ((es @ xs) ! j)) [0..<length (es @ xs)] =
     filter (\<lambda>j. is_user (es ! j)) [0..<length es] @ map (\<lambda>j. j + length es) (filter (\<lambda>j. is_user (xs ! j)) [0..<length xs])"
proof -
  have u: "[0..<length (es @ xs)] = [0..<length es] @ map (\<lambda>j. j + length es) [0..<length xs]"
    by (simp add: upt_add_eq_append [of 0 "length es" "length xs"] map_add_upt add.commute)
  have "filter (\<lambda>j. is_user ((es @ xs) ! j)) [0..<length es] = filter (\<lambda>j. is_user (es ! j)) [0..<length es]"
    by (rule filter_cong) (simp_all add: nth_append)
  then show ?thesis unfolding u by (simp add: filter_map comp_def nth_append)
qed

lemma no_users: "\<forall>e\<in>set xs. \<not> is_user e \<Longrightarrow> filter (\<lambda>j. is_user (xs ! j)) [0..<length xs] = []"
  by (simp add: filter_empty_conv)

lemma hit_target: "match_ok replay taken st \<Longrightarrow> (i, e) \<in> set (hits st taken) \<Longrightarrow> target_of st i < length (mt_entries st) \<and> is_user (mt_entries st ! target_of st i)"
proof -
  assume a: "match_ok replay taken st" "(i, e) \<in> set (hits st taken)"
  then have "target_of st i \<in> set (filter (\<lambda>j. is_user (mt_entries st ! j)) [0..<length (mt_entries st)])"
    unfolding match_ok_def by force
  then show ?thesis by simp
qed

lemma take_history_simps:
  "mt_entries (take_history st) = mt_entries st @ takeWhile (\<lambda>e. \<not> is_user e) (mt_remote st)"
  "mt_remote (take_history st) = dropWhile (\<lambda>e. \<not> is_user e) (mt_remote st)"
  "mt_mapping (take_history st) = mt_mapping st" "mt_steering (take_history st) = mt_steering st"
  by (simp_all add: take_history_def)

lemma match_ok_history: "match_ok replay taken st \<Longrightarrow> match_ok replay taken (take_history st)"
proof -
  assume ok: "match_ok replay taken st"
  let ?h = "takeWhile (\<lambda>e. \<not> is_user e) (mt_remote st)" and ?r = "dropWhile (\<lambda>e. \<not> is_user e) (mt_remote st)"
  have s: "(mt_entries st @ ?h) @ ?r = mt_entries st @ mt_remote st" by simp
  have "filter (\<lambda>j. is_user (?h ! j)) [0..<length ?h] = []" by (rule no_users) (auto dest: set_takeWhileD)
  then have u: "filter (\<lambda>j. is_user ((mt_entries st @ ?h) ! j)) [0..<length (mt_entries st @ ?h)] = filter (\<lambda>j. is_user (mt_entries st ! j)) [0..<length (mt_entries st)]"
    unfolding users_append by simp
  have c: "te_content ((mt_entries st @ ?h) ! target_of st i) = te_content (mt_entries st ! target_of st i)" if "(i, e) \<in> set (hits st taken)" for i e
    using hit_target [OF ok that] by (simp add: nth_append)
  have h: "hits (take_history st) taken = hits st taken" by (simp add: hits_def take_history_def)
  show ?thesis
    using ok c unfolding match_ok_def h take_history_simps s u by auto
qed

lemma set_text_idx: "v \<noteq> JNull \<Longrightarrow> text_is (idx v ''type'') s \<Longrightarrow> text_or_empty (set_text t v) = t"
  by (cases v) (auto simp: set_text_def text_is_def idx_def text_or_empty_def str_at_def)

lemma split_input_ok:
  assumes "input_prefix entry found" "is_user found" "split_input u entry found rest = (f, remote)"
  shows "is_user f" "te_content f = te_content entry" "filter (\<lambda>e. \<not> is_user e) (f # remote) = filter (\<lambda>e. \<not> is_user e) (found # rest)"
    and "texts (filter is_user (f # remote)) = texts (filter is_user (found # rest))"
proof -
  show "is_user f" "te_content f = te_content entry" "filter (\<lambda>e. \<not> is_user e) (f # remote) = filter (\<lambda>e. \<not> is_user e) (found # rest)"
    using assms(2,3) by (auto simp: split_input_def split: if_splits)
  show "texts (filter is_user (f # remote)) = texts (filter is_user (found # rest))"
  proof (cases "te_content found = te_content entry")
    case True
    then show ?thesis using assms(3) by (simp add: split_input_def)
  next
    case False
    then obtain s v where t: "str_at (te_content entry) ''text'' = Some s" "str_at (te_content found) ''text'' = Some v" "prefix s v"
      "text_is (idx (te_content found) ''type'') ''text''"
      using assms(1) by (auto simp: input_prefix_def split: option.splits)
    then have n: "te_content found \<noteq> JNull" by (auto simp: idx_def text_is_def)
    have "v = s @ drop (length s) v" using t(3) by (auto simp: prefix_def)
    with False assms(2,3) t set_text_idx [OF n t(4)] show ?thesis by (auto simp: split_input_def text_or_empty_def)
  qed
qed

lemma match_input_ok:
  assumes ok: "match_ok replay taken st" and new: "index \<notin> fst ` set taken"
    and m: "match_input uuid inputs (index, entry) st = Some st'"
  shows "match_ok replay (taken @ [(index, entry)]) st'"
proof -
  let ?st = "take_history st"
  have ok1: "match_ok replay taken ?st" by (rule match_ok_history [OF ok])
  have nd: "index |\<notin>| fmdom (mt_mapping ?st)" using ok1 new by (auto simp: match_ok_def)
  show ?thesis
  proof (cases "optional_input entry \<and> (case mt_remote ?st of [] \<Rightarrow> True | found # _ \<Rightarrow> \<not> input_prefix entry found)")
    case True
    then have "st' = ?st" using m by (auto simp: match_input_def Let_def split: if_splits)
    moreover have "hits ?st (taken @ [(index, entry)]) = hits ?st taken" using nd by (simp add: hits_def)
    ultimately show ?thesis using ok1 True by (auto simp: match_ok_def)
  next
    case False
    have "mt_remote ?st \<noteq> []" using m False by (cases "mt_remote ?st") (simp_all add: match_input_def Let_def split: if_splits)
    then obtain found rest where r1: "mt_remote ?st = found # rest" by (cases "mt_remote ?st") simp_all
    obtain f remote where r3: "split_input (uuid (length (mt_entries ?st))) entry found rest = (f, remote)" by (metis surj_pair)
    have r2: "input_prefix entry found" using m False r1 by (auto simp: match_input_def Let_def split: if_splits)
    note r = r1 r2 r3
    have st': "st' = ?st\<lparr>mt_remote := remote, mt_entries := mt_entries ?st @ [f], mt_mapping := fmupd index (length (mt_entries ?st)) (mt_mapping ?st),
        mt_steering := (if te_kind entry = ''steering'' then fmupd (length (mt_entries ?st)) index (mt_steering ?st) else mt_steering ?st)\<rparr>"
      using m False r by (simp add: match_input_def Let_def split: if_split_asm)
    have "is_user found" using r(1) hd_dropWhile [of "\<lambda>e. \<not> is_user e" "mt_remote st"] by (auto simp: take_history_simps)
    note s = split_input_ok [OF r(2) this r(3)]
    have old: "(i, e) \<in> set (hits ?st taken) \<Longrightarrow> i \<noteq> index" for i e using nd by (auto simp: hits_def)
    have hits': "hits st' (taken @ [(index, entry)]) = hits ?st taken @ [(index, entry)]"
    proof -
      have "hits st' taken = hits ?st taken" unfolding hits_def st' using new by (intro filter_cong) force+
      then show ?thesis by (simp add: hits_def st')
    qed
    have t: "target_of st' i = target_of ?st i" if "(i, e) \<in> set (hits ?st taken)" for i e using old [OF that] by (simp add: st')
    have tn: "target_of st' index = length (mt_entries ?st)" by (simp add: st')
    have e': "mt_entries st' = mt_entries ?st @ [f]" "mt_remote st' = remote" by (simp_all add: st')
    have "filter (\<lambda>j. is_user (mt_entries st' ! j)) [0..<length (mt_entries st')] =
        filter (\<lambda>j. is_user (mt_entries ?st ! j)) [0..<length (mt_entries ?st)] @ [length (mt_entries ?st)]"
      unfolding e' users_append using s(1) by simp
    also have "\<dots> = map (\<lambda>(i, _). target_of st' i) (hits st' (taken @ [(index, entry)]))"
      using ok1 tn unfolding hits' match_ok_def by (auto intro!: map_cong dest: t)
    finally have u: "filter (\<lambda>j. is_user (mt_entries st' ! j)) [0..<length (mt_entries st')] =
        map (\<lambda>(i, _). target_of st' i) (hits st' (taken @ [(index, entry)]))" .
    have c: "te_content (mt_entries st' ! target_of st' i) = te_content e" if "(i, e) \<in> set (hits st' (taken @ [(index, entry)]))" for i e
    proof (cases "(i, e) \<in> set (hits ?st taken)")
      case True
      then show ?thesis using ok1 hit_target [OF ok1 True] t [OF True] e' by (auto simp: match_ok_def nth_append)
    next
      case False
      then have "i = index" "e = entry" using that hits' by auto
      then show ?thesis using tn e' s(2) by simp
    qed
    have w: "mt_entries st' @ mt_remote st' = mt_entries ?st @ f # remote" "mt_entries ?st @ mt_remote ?st = mt_entries ?st @ found # rest"
      using e' r(1) by simp_all
    have f: "filter (\<lambda>e. \<not> is_user e) (mt_entries st' @ mt_remote st') = filter (\<lambda>e. \<not> is_user e) replay"
      "texts (filter is_user (mt_entries st' @ mt_remote st')) = texts (filter is_user replay)"
      using ok1 s(3,4) unfolding match_ok_def w by (simp_all only: filter_append map_append concat_append)
    have g: "fset (fmdom (mt_steering st')) = target_of st' ` fst ` set (filter (\<lambda>(_, e). te_kind e = ''steering'') (hits st' (taken @ [(index, entry)])))"
    proof -
      have "target_of st' ` fst ` set (filter (\<lambda>(_, e). te_kind e = ''steering'') (hits ?st taken)) = fset (fmdom (mt_steering ?st))"
      proof -
        have "target_of st' ` fst ` set (filter (\<lambda>(_, e). te_kind e = ''steering'') (hits ?st taken)) =
            target_of ?st ` fst ` set (filter (\<lambda>(_, e). te_kind e = ''steering'') (hits ?st taken))"
          unfolding image_image by (rule image_cong [OF refl]) (use t in auto)
        also have "\<dots> = fset (fmdom (mt_steering ?st))" using ok1 unfolding match_ok_def by simp
        finally show ?thesis .
      qed
      then show ?thesis unfolding hits' using tn by (auto simp: st')
    qed
    have d: "fset (fmdom (mt_mapping st')) \<subseteq> fst ` set (taken @ [(index, entry)])" using ok1 by (auto simp: match_ok_def st')
    have o: "\<forall>(i, e)\<in>set (taken @ [(index, entry)]). i |\<notin>| fmdom (mt_mapping st') \<longrightarrow> optional_input e"
      using ok1 by (auto simp: match_ok_def st')
    show ?thesis using f u c g d o unfolding match_ok_def by blast
  qed
qed

lemma match_inputs_ok:
  "match_ok replay taken st \<Longrightarrow> distinct (map fst (taken @ rest)) \<Longrightarrow> match_inputs uuid inputs rest st = Some st' \<Longrightarrow> match_ok replay (taken @ rest) st'"
proof (induction rest arbitrary: taken st)
  case (Cons i rest)
  then obtain st1 where m: "match_input uuid inputs i st = Some st1" "match_inputs uuid inputs rest st1 = Some st'" by (auto split: Option.bind_splits)
  obtain index entry where i: "i = (index, entry)" by (cases i)
  have "match_ok replay (taken @ [i]) st1" using match_input_ok [OF Cons.prems(1)] m(1) Cons.prems(2) unfolding i by simp
  from Cons.IH [OF this _ m(2)] Cons.prems(2) show ?case by simp
qed simp

section \<open>Messages that agree\<close>

lemma fold_fmupd: "fmlookup (fold (\<lambda>i m. fmupd i v m) is m) j = (if j \<in> set is then Some v else fmlookup m j)"
  by (induction "is" arbitrary: m) auto

lemma map_messages_other: "i \<notin> set (concat (map mg_indices before)) \<Longrightarrow> fmlookup (map_messages before after m) i = fmlookup m i"
  unfolding map_messages_def
proof (induction before after arbitrary: m rule: list_induct2')
  case (4 a before b after)
  then show ?case by (simp add: fold_fmupd)
qed simp_all

lemma map_messages_at:
  "length before = length after \<Longrightarrow> distinct (concat (map mg_indices before)) \<Longrightarrow> (a, b) \<in> set (zip before after) \<Longrightarrow> i \<in> set (mg_indices a) \<Longrightarrow>
     fmlookup (map_messages before after m) i = Some (last (mg_indices b))"
proof (induction before after arbitrary: m rule: list_induct2)
  case (Cons x xs y ys)
  have s: "map_messages (x # xs) (y # ys) m = map_messages xs ys (fold (\<lambda>i m. fmupd i (last (mg_indices y)) m) (mg_indices x) m)"
    by (simp add: map_messages_def)
  show ?case
  proof (cases "(a, b) = (x, y)")
    case True
    then have "i \<notin> set (concat (map mg_indices xs))" using Cons.prems by auto
    then show ?thesis unfolding s using True Cons.prems(3) by (simp add: map_messages_other fold_fmupd)
  next
    case False
    then show ?thesis unfolding s using Cons.IH Cons.prems by auto
  qed
qed simp

lemma filter_zip:
  "list_all2 (\<lambda>a b. p a = q b) xs ys \<Longrightarrow> zip (filter p xs) (filter q ys) = filter (\<lambda>(a, b). p a) (zip xs ys) \<and> length (filter p xs) = length (filter q ys)"
  by (induction rule: list_all2_induct) auto

text \<open>The mapping of the inputs is not changed by that of the messages.\<close>

lemma input_mapping_kept:
  assumes ok: "match_ok replay (input_list es) st" and steer: "\<forall>e\<in>set (mt_entries st). te_kind e \<noteq> ''steering''"
    and before: "before = normalize_entries (\<lambda>_ e. te_kind e = ''steering'') es"
    and after: "after = normalize_entries (\<lambda>index _. index |\<in>| fmdom (mt_steering st)) (mt_entries st)"
    and same: "length before = length after" "\<not> list_ex (\<lambda>(a, b). \<not> same_message (mg_entry a) (mg_entry b)) (zip before after)"
    and i: "(i, e) \<in> set (input_list es)"
  shows "fmlookup (map_messages before after (mt_mapping st)) i = fmlookup (mt_mapping st) i"
proof -
  have e: "e = es ! i" "i < length es" "is_input e" using i by (auto simp: input_list_def in_set_enumerate_eq)
  have m: "mset (concat (map mg_indices before)) = mset (filter (\<lambda>i. te_kind (es ! i) \<noteq> ''steering'') [0..<length es])"
    unfolding before normalize_indices ..
  then have d: "distinct (concat (map mg_indices before))" by (metis distinct_filter distinct_upt mset_eq_imp_distinct_iff)
  have s: "set (concat (map mg_indices before)) = {i. i < length es \<and> te_kind (es ! i) \<noteq> ''steering''}"
    using mset_eq_setD [OF m] by auto
  show ?thesis
  proof (cases "te_kind e = ''steering''")
    case True
    then show ?thesis using e(1) s by (intro map_messages_other) simp
  next
    case False
    then have user: "is_user e" using e(3) by (simp add: is_input_def)
    let ?u = "\<lambda>m. is_user (mg_entry m)" and ?H = "hits st (input_list es)"
    have k: "list_all2 (\<lambda>a b. ?u a = ?u b) before after"
      using same by (auto simp: list_all2_iff list_ex_iff same_message_def)
    note z = filter_zip [OF k]
    have ub: "map mg_indices (filter ?u before) = map (\<lambda>(i, _). [i]) (filter (\<lambda>(_, e). is_user e) ?H)"
    proof -
      have hit: "i' |\<in>| fmdom (mt_mapping st)" if "(i', e') \<in> set (input_list es)" "is_user e'" for i' e'
        using ok that by (auto simp: match_ok_def optional_input_def)
      have "filter (\<lambda>(_, e). is_user e) ?H = filter (\<lambda>(_, e). is_user e) (enumerate 0 es)"
        unfolding hits_def input_list_def filter_filter
        by (rule filter_cong [OF refl]) (use hit in \<open>auto simp: is_input_def input_list_def\<close>)
      moreover have en: "enumerate 0 es = map (\<lambda>i. (i, es ! i)) [0..<length es]" by (intro nth_equalityI) (simp_all add: nth_enumerate_eq)
      moreover have "filter (\<lambda>i. is_user (es ! i) \<and> te_kind (es ! i) \<noteq> ''steering'') [0..<length es] = filter (\<lambda>i. is_user (es ! i)) [0..<length es]"
        by (rule filter_cong) auto
      ultimately show ?thesis unfolding before normalize_users by (simp add: filter_map comp_def)
    qed
    have ua: "map mg_indices (filter ?u after) = map (\<lambda>(i, _). [target_of st i]) (filter (\<lambda>(_, e). is_user e) ?H)"
    proof -
      have users: "filter (\<lambda>j. is_user (mt_entries st ! j)) [0..<length (mt_entries st)] = map (\<lambda>(i, _). target_of st i) ?H"
        and steering: "fset (fmdom (mt_steering st)) = target_of st ` fst ` set (filter (\<lambda>(_, e). te_kind e = ''steering'') ?H)"
        using ok by (simp_all add: match_ok_def)
      have dist: "distinct (map (\<lambda>(i, _). target_of st i) ?H)" unfolding users [symmetric] by simp
      have "filter (\<lambda>j. is_user (mt_entries st ! j) \<and> j |\<notin>| fmdom (mt_steering st)) [0..<length (mt_entries st)] =
          filter (\<lambda>j. j |\<notin>| fmdom (mt_steering st)) (filter (\<lambda>j. is_user (mt_entries st ! j)) [0..<length (mt_entries st)])"
        by (simp add: conj_commute)
      also have "\<dots> = map (\<lambda>(i, _). target_of st i) (filter (\<lambda>x. target_of st (fst x) |\<notin>| fmdom (mt_steering st)) ?H)"
        unfolding users by (simp add: filter_map comp_def case_prod_beta')
      also have "filter (\<lambda>x. target_of st (fst x) |\<notin>| fmdom (mt_steering st)) ?H = filter (\<lambda>(_, e). is_user e) ?H"
      proof (rule filter_cong [OF refl])
        fix x assume x: "x \<in> set ?H"
        have "is_input (snd x)" using x by (auto simp: hits_def input_list_def)
        then have "is_user (snd x) \<longleftrightarrow> te_kind (snd x) \<noteq> ''steering''" by (auto simp: is_input_def)
        moreover have "target_of st (fst x) |\<in>| fmdom (mt_steering st) \<longleftrightarrow> te_kind (snd x) = ''steering''"
        proof
          assume "target_of st (fst x) |\<in>| fmdom (mt_steering st)"
          then obtain y where y: "y \<in> set ?H" "te_kind (snd y) = ''steering''" "target_of st (fst y) = target_of st (fst x)" using steering by force
          then have "y = x" using x dist by (auto simp: distinct_map inj_on_def case_prod_beta)
          with y show "te_kind (snd x) = ''steering''" by simp
        next
          assume "te_kind (snd x) = ''steering''"
          then show "target_of st (fst x) |\<in>| fmdom (mt_steering st)" using x steering by (force simp: image_iff)
        qed
        ultimately show "target_of st (fst x) |\<notin>| fmdom (mt_steering st) \<longleftrightarrow> (case x of (_, e) \<Rightarrow> is_user e)" by (simp add: case_prod_beta)
      qed
      finally show ?thesis unfolding after normalize_users by (simp add: comp_def case_prod_beta')
    qed
    have hit: "i |\<in>| fmdom (mt_mapping st)" using ok i user by (auto simp: match_ok_def optional_input_def)
    then have iH: "(i, e) \<in> set (filter (\<lambda>(_, e). is_user e) ?H)" using i user by (simp add: hits_def)
    then obtain n where n: "n < length (filter (\<lambda>(_, e). is_user e) ?H)" "filter (\<lambda>(_, e). is_user e) ?H ! n = (i, e)"
      unfolding in_set_conv_nth by blast
    have lb: "length (filter ?u before) = length (filter (\<lambda>(_, e). is_user e) ?H)" "length (filter ?u after) = length (filter (\<lambda>(_, e). is_user e) ?H)"
      using arg_cong [OF ub, of length] arg_cong [OF ua, of length] by simp_all
    let ?a = "filter ?u before ! n" and ?b = "filter ?u after ! n"
    have "mg_indices ?a = [i]" "mg_indices ?b = [target_of st i]"
      using arg_cong [OF ub, of "\<lambda>l. l ! n"] arg_cong [OF ua, of "\<lambda>l. l ! n"] n lb by simp_all
    moreover have "(?a, ?b) \<in> set (zip before after)"
    proof -
      have "(?a, ?b) \<in> set (zip (filter ?u before) (filter ?u after))" using n lb by (auto simp: set_zip)
      then show ?thesis using z by auto
    qed
    ultimately have "fmlookup (map_messages before after (mt_mapping st)) i = Some (target_of st i)"
      using map_messages_at [OF same(1) d, of ?a ?b i] by simp
    then show ?thesis using hit by (auto simp: fmlookup_dom_iff)
  qed
qed

section \<open>Placing the inputs\<close>

definition all_cards :: "(nat, thread_entry list) fmap \<Rightarrow> thread_entry multiset" where
  "all_cards m = mset (concat (map snd (btree_entries m)))"

lemma all_cards_sum: "all_cards m = (\<Sum>b\<in>fset (fmdom m). mset (the (fmlookup m b)))"
proof -
  have "all_cards m = sum_list (map (\<lambda>b. mset (the (fmlookup m b))) (sorted_list_of_fset (fmdom m)))"
    by (simp add: all_cards_def btree_entries_def mset_concat comp_def)
  also have "\<dots> = (\<Sum>b\<in>fset (fmdom m). mset (the (fmlookup m b)))"
    by (subst sum.distinct_set_conv_list [symmetric]) (simp_all add: sorted_list_of_fset.rep_eq)
  finally show ?thesis .
qed

lemma all_cards_upd:
  "all_cards (fmupd b ((case fmlookup m b of Some cs \<Rightarrow> cs | None \<Rightarrow> []) @ [e]) m) = all_cards m + {#e#}"
proof -
  let ?f = "\<lambda>m b. mset (the (fmlookup m b))"
  have rest: "(\<Sum>c\<in>fset (fmdom m) - {b}. ?f (fmupd b v m) c) = (\<Sum>c\<in>fset (fmdom m) - {b}. ?f m c)" for v
    by (rule sum.cong) auto
  have "(\<Sum>c\<in>fset (fmdom m). ?f m c) = mset (case fmlookup m b of Some cs \<Rightarrow> cs | None \<Rightarrow> []) + (\<Sum>c\<in>fset (fmdom m) - {b}. ?f m c)"
    by (cases "b \<in> fset (fmdom m)") (auto simp: sum.remove [of _ b] fmlookup_dom_iff split: option.split)
  then show ?thesis unfolding all_cards_sum by (simp add: sum.insert_remove rest)
qed

lemma place_inputs_cards:
  "place_inputs mapping is (es, ins) = (es', ins') \<Longrightarrow>
     all_cards ins' = all_cards ins + mset (map snd (filter (\<lambda>(i, _). i |\<notin>| fmdom mapping) is))"
proof (induction mapping "is" "(es, ins)" arbitrary: es ins rule: place_inputs.induct)
  case (2 mapping index e "is" es ins)
  show ?case
  proof (cases "fmlookup mapping index")
    case None
    then have "index |\<notin>| fmdom mapping" by (simp add: fmlookup_dom_iff)
    with 2(1) [OF None refl refl] 2(3) None show ?thesis by (simp add: Let_def all_cards_upd)
  next
    case (Some target)
    then have "index |\<in>| fmdom mapping" by (auto simp: fmlookup_dom_iff)
    with 2(2) [OF Some] 2(3) Some show ?thesis by simp
  qed
qed simp

text \<open>The entries at the targets get the kind and the delivery of the inputs; nothing else changes.\<close>

lemma place_inputs_entries:
  "place_inputs mapping is (es, ins) = (es', ins') \<Longrightarrow> distinct (map (\<lambda>(i, _). the (fmlookup mapping i)) (filter (\<lambda>(i, _). i |\<in>| fmdom mapping) is)) \<Longrightarrow>
     \<forall>(i, _)\<in>set is. case fmlookup mapping i of Some t \<Rightarrow> t < length es | None \<Rightarrow> True \<Longrightarrow>
     length es' = length es \<and>
     (\<forall>j. j \<notin> (\<lambda>(i, _). the (fmlookup mapping i)) ` set (filter (\<lambda>(i, _). i |\<in>| fmdom mapping) is) \<longrightarrow> es' ! j = es ! j) \<and>
     (\<forall>(i, e)\<in>set is. case fmlookup mapping i of None \<Rightarrow> True
        | Some t \<Rightarrow> es' ! t = (es ! t)\<lparr>te_kind := te_kind e, te_delivery := te_delivery e\<rparr>)"
proof (induction mapping "is" "(es, ins)" arbitrary: es ins rule: place_inputs.induct)
  case (2 mapping index e "is" es ins)
  show ?case
  proof (cases "fmlookup mapping index")
    case None
    then have "index |\<notin>| fmdom mapping" by (simp add: fmlookup_dom_iff)
    with 2(1) [OF None refl refl] 2(3-5) None show ?thesis by (simp add: Let_def)
  next
    case (Some target)
    let ?es = "es[target := (es ! target)\<lparr>te_kind := te_kind e, te_delivery := te_delivery e\<rparr>]"
    have d: "index |\<in>| fmdom mapping" using Some by (auto simp: fmlookup_dom_iff)
    have t: "target < length es" using 2(5) Some by simp
    have new: "target \<notin> (\<lambda>(i, _). the (fmlookup mapping i)) ` set (filter (\<lambda>(i, _). i |\<in>| fmdom mapping) is)"
      using 2(4) d Some by auto
    have p: "place_inputs mapping is (?es, ins) = (es', ins')" using 2(3) Some by simp
    have "distinct (map (\<lambda>(i, _). the (fmlookup mapping i)) (filter (\<lambda>(i, _). i |\<in>| fmdom mapping) is))"
      "\<forall>(i, _)\<in>set is. case fmlookup mapping i of Some t \<Rightarrow> t < length ?es | None \<Rightarrow> True"
      using 2(4,5) d unfolding length_list_update by auto
    from 2(2) [OF Some p this] have IH: "length es' = length es"
      "\<And>j. j \<notin> (\<lambda>(i, _). the (fmlookup mapping i)) ` set (filter (\<lambda>(i, _). i |\<in>| fmdom mapping) is) \<Longrightarrow> es' ! j = ?es ! j"
      "\<And>i e' t. (i, e') \<in> set is \<Longrightarrow> fmlookup mapping i = Some t \<Longrightarrow> es' ! t = (?es ! t)\<lparr>te_kind := te_kind e', te_delivery := te_delivery e'\<rparr>"
      by (auto split: option.splits)
    have other: "t \<noteq> target" if "(i, e') \<in> set is" "fmlookup mapping i = Some t" for i e' t
      using new that by (force simp: image_iff fmlookup_dom_iff)
    show ?thesis
    proof (intro conjI allI impI ballI)
      show "length es' = length es" by (rule IH(1))
      show "es' ! j = es ! j" if "j \<notin> (\<lambda>(i, _). the (fmlookup mapping i)) ` set (filter (\<lambda>(i, _). i |\<in>| fmdom mapping) ((index, e) # is))" for j
        using that IH(2) [of j] d Some by auto
      show "case x of (i, e) \<Rightarrow> case fmlookup mapping i of None \<Rightarrow> True
        | Some t \<Rightarrow> es' ! t = (es ! t)\<lparr>te_kind := te_kind e, te_delivery := te_delivery e\<rparr>" if "x \<in> set ((index, e) # is)" for x
      proof (cases "x = (index, e)")
        case True
        then show ?thesis using Some IH(2) [OF new] t by simp
      next
        case False
        obtain i e' where x: "x = (i, e')" by (cases x)
        with False that have i: "(i, e') \<in> set is" by auto
        show ?thesis
        proof (cases "fmlookup mapping i")
          case (Some t)
          then show ?thesis using IH(3) [OF i Some] nth_list_update_neq [of target t] other [OF i Some] by (simp add: x)
        qed (simp add: x)
      qed
    qed
  qed
qed simp

section \<open>Splicing in the cards\<close>

lemma splice_fold:
  "mset (fold (\<lambda>(b, cards) es. take b es @ cards @ drop b es) bs es) = mset es + mset (concat (map snd bs)) \<and>
   subseq es (fold (\<lambda>(b, cards) es. take b es @ cards @ drop b es) bs es) \<and>
   ((\<forall>(b, cards)\<in>set bs. \<forall>e\<in>set cards. \<not> p e) \<longrightarrow> filter p (fold (\<lambda>(b, cards) es. take b es @ cards @ drop b es) bs es) = filter p es)"
proof (induction bs arbitrary: es)
  case (Cons x bs)
  obtain b cards where x: "x = (b, cards)" by (cases x)
  let ?es = "take b es @ cards @ drop b es"
  have m: "mset ?es = mset es + mset cards" by (metis (no_types) append_take_drop_id mset_append union_assoc union_commute)
  have s: "subseq es ?es"
  proof -
    have "subseq (take b es @ drop b es) (take b es @ cards @ drop b es)" by (intro subseq_append_iff [THEN iffD2] list_emb_append_mono subseq_order.order_refl) auto
    then show ?thesis by simp
  qed
  have f: "\<forall>e\<in>set cards. \<not> p e \<Longrightarrow> filter p ?es = filter p es"
    by (metis (no_types) append_Nil append_take_drop_id filter_False filter_append)
  show ?case using Cons.IH [of ?es] m s f by (auto simp: x intro: subseq_order.order_trans)
qed simp

lemma splice_cards_ok:
  "mset (splice_cards ins es) = mset es + all_cards ins" "subseq es (splice_cards ins es)"
  "\<forall>e\<in>#all_cards ins. \<not> p e \<Longrightarrow> filter p (splice_cards ins es) = filter p es"
proof -
  have c: "mset (concat (map snd (rev (btree_entries ins)))) = all_cards ins"
    by (simp add: all_cards_def mset_concat rev_map [symmetric] sum_list_rev)
  show "mset (splice_cards ins es) = mset es + all_cards ins" "subseq es (splice_cards ins es)"
    using splice_fold [of "rev (btree_entries ins)" es] c by (simp_all add: splice_cards_def)
  assume a: "\<forall>e\<in>#all_cards ins. \<not> p e"
  have "\<forall>(b, cards)\<in>set (rev (btree_entries ins)). \<forall>e\<in>set cards. \<not> p e"
    using a by (force simp: all_cards_def)
  then show "filter p (splice_cards ins es) = filter p es" using splice_fold [of "rev (btree_entries ins)" es p] by (simp add: splice_cards_def)
qed

section \<open>What is kept\<close>

lemma filter_at: "filter P xs = map (nth xs) (filter (\<lambda>j. P (xs ! j)) [0..<length xs])"
  by (subst (1) map_nth [of xs, symmetric]) (simp add: filter_map comp_def)

lemma match_ok_start: "match_ok replay [] \<lparr>mt_remote = replay, mt_entries = [], mt_mapping = fmempty, mt_steering = fmempty\<rparr>"
  by (simp add: match_ok_def hits_def)

lemma input_list_snd: "map snd (input_list es) = filter is_input es"
proof -
  have e: "enumerate 0 es = map (\<lambda>i. (i, es ! i)) [0..<length es]" by (intro nth_equalityI) (simp_all add: nth_enumerate_eq)
  show ?thesis unfolding input_list_def e by (subst filter_at) (simp add: filter_map comp_def)
qed

lemma input_list_fst: "distinct (map fst (input_list es))"
  unfolding input_list_def by (rule distinct_map_filter) simp

text \<open>An entry, with the kind and the delivery of the input found in it.\<close>

abbreviation as_input :: "thread_entry \<Rightarrow> thread_entry \<Rightarrow> thread_entry" where
  "as_input found e \<equiv> found\<lparr>te_kind := te_kind e, te_delivery := te_delivery e\<rparr>"

lemma placed_inputs:
  assumes ok: "match_ok replay inputs st" and inputs: "\<forall>(_, e)\<in>set inputs. is_input e"
    and agree: "\<forall>i e. (i, e) \<in> set inputs \<longrightarrow> fmlookup mapping i = fmlookup (mt_mapping st) i"
    and p: "place_inputs mapping inputs (mt_entries st @ mt_remote st, fmempty) = (es', ins)"
    and steer: "\<forall>e\<in>set (mt_entries st @ mt_remote st). te_kind e \<noteq> ''steering''"
  shows "filter (\<lambda>e. \<not> is_input e) es' = filter (\<lambda>e. \<not> is_input e) (mt_entries st @ mt_remote st)"
    and "filter is_input es' = map (\<lambda>(i, e). as_input (mt_entries st ! target_of st i) e) (hits st inputs) @ filter is_user (mt_remote st)"
    and "texts (filter is_input es') = texts (filter is_user (mt_entries st @ mt_remote st))"
    and "all_cards ins = mset (map snd (filter (\<lambda>(i, _). i |\<notin>| fmdom (mt_mapping st)) inputs))"
proof -
  let ?es = "mt_entries st @ mt_remote st" and ?H = "hits st inputs"
  note kept = agree [rule_format]
  have dom: "i |\<in>| fmdom mapping \<longleftrightarrow> i |\<in>| fmdom (mt_mapping st)" if "(i, e) \<in> set inputs" for i e
    using kept [OF that] by (simp add: fmlookup_dom_iff)
  have f: "filter (\<lambda>(i, _). i |\<in>| fmdom mapping) inputs = ?H" unfolding hits_def by (rule filter_cong [OF refl]) (use dom in auto)
  have g: "filter (\<lambda>(i, _). i |\<notin>| fmdom mapping) inputs = filter (\<lambda>(i, _). i |\<notin>| fmdom (mt_mapping st)) inputs"
    by (rule filter_cong [OF refl]) (use dom in auto)
  show "all_cards ins = mset (map snd (filter (\<lambda>(i, _). i |\<notin>| fmdom (mt_mapping st)) inputs))"
    using place_inputs_cards [OF p] unfolding g by (simp add: all_cards_def btree_entries_def)
  have sub: "set ?H \<subseteq> set inputs" by (auto simp: hits_def)
  have th: "map (\<lambda>(i, _). the (fmlookup mapping i)) ?H = map (\<lambda>(i, _). target_of st i) ?H"
    by (rule map_cong [OF refl]) (use kept sub in auto)
  have users: "filter (\<lambda>j. is_user (mt_entries st ! j)) [0..<length (mt_entries st)] = map (\<lambda>(i, _). target_of st i) ?H"
    using ok by (simp add: match_ok_def)
  have dist: "distinct (map (\<lambda>(i, _). target_of st i) ?H)" unfolding users [symmetric] by simp
  have ts: "(\<lambda>(i, _). the (fmlookup mapping i)) ` set ?H = (\<lambda>(i, _). target_of st i) ` set ?H"
    using arg_cong [OF th, of set] by simp
  have bound: "\<forall>(i, _)\<in>set inputs. case fmlookup mapping i of Some t \<Rightarrow> t < length ?es | None \<Rightarrow> True"
  proof (intro ballI, clarify)
    fix i e assume i: "(i, e) \<in> set inputs"
    show "case fmlookup mapping i of Some t \<Rightarrow> t < length ?es | None \<Rightarrow> True"
    proof (cases "fmlookup mapping i")
      case (Some t)
      then have "(i, e) \<in> set ?H" "target_of st i = t" using i kept [OF i] by (auto simp: hits_def fmlookup_dom_iff)
      then show ?thesis using hit_target [OF ok] Some by fastforce
    qed simp
  qed
  from place_inputs_entries [OF p, unfolded f th ts, OF dist bound]
  have l: "length es' = length ?es"
    and other: "\<And>j. j \<notin> (\<lambda>(i, _). target_of st i) ` set ?H \<Longrightarrow> es' ! j = ?es ! j"
    and placed: "\<forall>(i, e)\<in>set inputs. case fmlookup mapping i of None \<Rightarrow> True | Some t \<Rightarrow> es' ! t = as_input (?es ! t) e"
    by (blast+)
  have at: "es' ! target_of st i = as_input (mt_entries st ! target_of st i) e" if h: "(i, e) \<in> set ?H" for i e
  proof -
    have i: "(i, e) \<in> set inputs" using h sub by blast
    have "fmlookup mapping i = Some (target_of st i)" using h kept [OF i] by (auto simp: hits_def fmlookup_dom_iff)
    then show ?thesis using placed i hit_target [OF ok h] by (auto simp: nth_append)
  qed
  have is_in: "is_input e" if "(i, e) \<in> set ?H" for i e using inputs sub that by blast
  have c: "te_content (es' ! j) = te_content (?es ! j) \<and> (is_input (es' ! j) \<longleftrightarrow> is_user (?es ! j))" if j: "j < length ?es" for j
  proof (cases "j \<in> (\<lambda>(i, _). target_of st i) ` set ?H")
    case True
    then obtain i e where h: "(i, e) \<in> set ?H" "j = target_of st i" by auto
    then show ?thesis using at [OF h(1)] hit_target [OF ok h(1)] is_in [OF h(1)] by (simp add: nth_append is_input_def)
  next
    case False
    then show ?thesis using other steer nth_mem [OF j] by (auto simp: is_input_def)
  qed
  have i: "filter (\<lambda>j. is_input (es' ! j)) [0..<length es'] = filter (\<lambda>j. is_user (?es ! j)) [0..<length ?es]"
    unfolding l by (rule filter_cong [OF refl]) (use c in auto)
  show "texts (filter is_input es') = texts (filter is_user ?es)"
    unfolding filter_at [of is_input es'] filter_at [of is_user ?es] i map_map
    by (rule arg_cong [of _ _ concat], rule map_cong [OF refl]) (use c in \<open>auto simp del: length_append\<close>)
  have ui: "is_input e \<longleftrightarrow> is_user e" if "e \<in> set ?es" for e using that steer by (auto simp: is_input_def)
  show "filter (\<lambda>e. \<not> is_input e) es' = filter (\<lambda>e. \<not> is_input e) ?es"
  proof -
    have n: "filter (\<lambda>j. \<not> is_input (es' ! j)) [0..<length es'] = filter (\<lambda>j. \<not> is_input (?es ! j)) [0..<length ?es]"
    proof (unfold l, rule filter_cong [OF refl])
      fix j assume "j \<in> set [0..<length ?es]"
      then have j: "j < length ?es" by simp
      show "\<not> is_input (es' ! j) \<longleftrightarrow> \<not> is_input (?es ! j)" using c [OF j] ui [OF nth_mem [OF j]] by simp
    qed
    have e: "es' ! j = ?es ! j" if "j < length ?es" "\<not> is_input (?es ! j)" for j
    proof (rule other)
      show "j \<notin> (\<lambda>(i, _). target_of st i) ` set ?H"
        using that hit_target [OF ok] by (auto simp: nth_append is_input_def)
    qed
    show ?thesis unfolding filter_at [of _ es'] filter_at [of _ ?es] n by (rule map_cong [OF refl]) (use e in \<open>auto simp del: length_append\<close>)
  qed
  show "filter is_input es' = map (\<lambda>(i, e). as_input (mt_entries st ! target_of st i) e) ?H @ filter is_user (mt_remote st)"
  proof -
    have a: "map (nth es') (map (\<lambda>(i, _). target_of st i) ?H) = map (\<lambda>(i, e). as_input (mt_entries st ! target_of st i) e) ?H"
      unfolding map_map by (rule map_cong [OF refl]) (use at in auto)
    have b: "map (nth es') (map (\<lambda>j. j + length (mt_entries st)) (filter (\<lambda>j. is_user (mt_remote st ! j)) [0..<length (mt_remote st)])) = filter is_user (mt_remote st)"
    proof -
      have "es' ! (j + length (mt_entries st)) = mt_remote st ! j" for j
      proof -
        have "es' ! (j + length (mt_entries st)) = ?es ! (j + length (mt_entries st))"
          by (rule other) (use hit_target [OF ok] in fastforce)
        then show ?thesis by (simp add: nth_append)
      qed
      then show ?thesis unfolding filter_at [of is_user "mt_remote st"] map_map by (intro map_cong [OF refl]) simp
    qed
    show ?thesis unfolding filter_at [of is_input es'] i users_append users map_append a b ..
  qed
qed

lemma reconcile_cases:
  assumes "reconcile uuid previous replay = Some r"
  obtains st1 st before after es' ins where
    "match_inputs uuid (input_list (ss_entries previous)) (input_list (ss_entries previous))
       \<lparr>mt_remote = ss_entries replay, mt_entries = [], mt_mapping = fmempty, mt_steering = fmempty\<rparr> = Some st1"
    "st = take_history st1"
    "before = normalize_entries (\<lambda>_ e. te_kind e = ''steering'') (ss_entries previous)"
    "after = normalize_entries (\<lambda>index _. index |\<in>| fmdom (mt_steering st)) (mt_entries st)"
    "length before = length after" "\<not> list_ex (\<lambda>(a, b). \<not> same_message (mg_entry a) (mg_entry b)) (zip before after)"
    "place_inputs (map_messages before after (mt_mapping st)) (input_list (ss_entries previous)) (mt_entries st @ mt_remote st, fmempty) = (es', ins)"
    "ss_entries r = splice_cards ins es'"
  using assms unfolding reconcile_def Let_def
  by (auto split: if_split_asm Option.bind_splits prod.splits)

text \<open>C10: A conversation that is loaded again loses nothing. When the saved history is reconciled with the replay of the
  agent, everything the agent said or did stays as it was replayed, in its order; every input of the saved history is
  there: either it was found in the replay, in order and with the kind, the content and the delivery it had, or it is
  one whose delivery was uncertain, and is put back as it was. No text of the replayed inputs is lost, and nothing else
  is added.\<close>

theorem reconciling_keeps_everything:
  assumes r: "reconcile uuid previous replay = Some r" and steer: "\<forall>e\<in>set (ss_entries replay). te_kind e \<noteq> ''steering''"
  shows "filter (\<lambda>e. \<not> is_input e) (ss_entries r) = filter (\<lambda>e. \<not> is_input e) (ss_entries replay) \<and>
    (\<exists>found later consumed cards.
       subseq (found @ later) (filter is_input (ss_entries r)) \<and>
       mset (filter is_input (ss_entries r)) = mset (found @ later) + mset cards \<and>
       subseq consumed (filter is_input (ss_entries previous)) \<and>
       mset (filter is_input (ss_entries previous)) = mset consumed + mset cards \<and>
       map (\<lambda>e. (te_kind e, te_content e, te_delivery e)) found = map (\<lambda>e. (te_kind e, te_content e, te_delivery e)) consumed \<and>
       (\<forall>e\<in>set cards. optional_input e) \<and>
       texts (found @ later) = texts (filter is_input (ss_entries replay)))"
proof -
  let ?inputs = "input_list (ss_entries previous)"
  obtain st1 st before after es' ins where c:
    "match_inputs uuid ?inputs ?inputs \<lparr>mt_remote = ss_entries replay, mt_entries = [], mt_mapping = fmempty, mt_steering = fmempty\<rparr> = Some st1"
    "st = take_history st1"
    "before = normalize_entries (\<lambda>_ e. te_kind e = ''steering'') (ss_entries previous)"
    "after = normalize_entries (\<lambda>index _. index |\<in>| fmdom (mt_steering st)) (mt_entries st)"
    "length before = length after" "\<not> list_ex (\<lambda>(a, b). \<not> same_message (mg_entry a) (mg_entry b)) (zip before after)"
    "place_inputs (map_messages before after (mt_mapping st)) ?inputs (mt_entries st @ mt_remote st, fmempty) = (es', ins)"
    "ss_entries r = splice_cards ins es'"
    by (rule reconcile_cases [OF r])
  let ?es = "mt_entries st @ mt_remote st" and ?H = "hits st ?inputs"
  have ok: "match_ok (ss_entries replay) ?inputs st"
    using match_ok_history [OF match_inputs_ok [OF match_ok_start _ c(1)]] input_list_fst c(2) by simp
  have non: "filter (\<lambda>e. \<not> is_user e) ?es = filter (\<lambda>e. \<not> is_user e) (ss_entries replay)"
    and tx: "texts (filter is_user ?es) = texts (filter is_user (ss_entries replay))"
    using ok by (simp_all only: match_ok_def)
  have steer': "te_kind e \<noteq> ''steering''" if e: "e \<in> set ?es" for e
  proof (cases "is_user e")
    case False
    then have "e \<in> set (filter (\<lambda>e. \<not> is_user e) ?es)" using e by simp
    then show ?thesis unfolding non using steer by auto
  qed simp
  have inp: "\<forall>(_, e)\<in>set ?inputs. is_input e" by (auto simp: input_list_def)
  have kept: "fmlookup (map_messages before after (mt_mapping st)) i = fmlookup (mt_mapping st) i" if "(i, e) \<in> set ?inputs" for i e
    by (rule input_mapping_kept [OF ok _ c(3,4,5,6) that]) (use steer' in auto)
  have steer2: "\<forall>e\<in>set ?es. te_kind e \<noteq> ''steering''" using steer' by blast
  have kept2: "\<forall>i e. (i, e) \<in> set ?inputs \<longrightarrow> fmlookup (map_messages before after (mt_mapping st)) i = fmlookup (mt_mapping st) i"
    using kept by blast
  note p = placed_inputs [OF ok inp kept2 c(7) steer2]
  have flt: "filter is_input xs = filter is_user xs" "filter (\<lambda>e. \<not> is_input e) xs = filter (\<lambda>e. \<not> is_user e) xs"
    if "\<forall>e\<in>set xs. te_kind e \<noteq> ''steering''" for xs
    using that by (auto simp: is_input_def intro!: filter_cong)
  define found where "found = map (\<lambda>(i, e). as_input (mt_entries st ! target_of st i) e) ?H"
  define cards where "cards = map snd (filter (\<lambda>(i, _). i |\<notin>| fmdom (mt_mapping st)) ?inputs)"
  let ?later = "filter is_user (mt_remote st)" and ?consumed = "map snd ?H"
  have ci: "\<forall>e\<in>#all_cards ins. is_input e" unfolding p(4) using inp by auto
  have s1: "filter (\<lambda>e. \<not> is_input e) (ss_entries r) = filter (\<lambda>e. \<not> is_input e) (ss_entries replay)"
    unfolding c(8) using splice_cards_ok(3) [of ins "\<lambda>e. \<not> is_input e" es'] ci p(1) flt(2) [of ?es] flt(2) [OF steer] non steer' by simp
  have s2: "subseq (found @ ?later) (filter is_input (ss_entries r))"
    using subseq_filter [OF splice_cards_ok(2) [of es' ins], of is_input] p(2) by (simp add: c(8) found_def)
  have "mset (filter is_input (ss_entries r)) = filter_mset is_input (mset es' + all_cards ins)"
    unfolding mset_filter c(8) splice_cards_ok(1) ..
  also have "\<dots> = mset (filter is_input es') + all_cards ins"
    using ci by (simp add: filter_mset_eq_conv)
  finally have s3: "mset (filter is_input (ss_entries r)) = mset (found @ ?later) + mset cards" unfolding p(2,4) found_def cards_def .
  have s4: "subseq ?consumed (filter is_input (ss_entries previous))"
    unfolding input_list_snd [symmetric] hits_def by (intro subseq_map subseq_filter_left)
  have "mset ?inputs = mset ?H + mset (filter (\<lambda>(i, _). i |\<notin>| fmdom (mt_mapping st)) ?inputs)"
    unfolding hits_def by (simp add: case_prod_unfold multiset_partition [of _ "\<lambda>x. fst x |\<in>| fmdom (mt_mapping st)", symmetric])
  from arg_cong [OF this, of "image_mset snd"]
  have s5: "mset (filter is_input (ss_entries previous)) = mset ?consumed + mset cards"
    unfolding input_list_snd [symmetric] cards_def by simp
  have s6: "map (\<lambda>e. (te_kind e, te_content e, te_delivery e)) found = map (\<lambda>e. (te_kind e, te_content e, te_delivery e)) ?consumed"
    using ok unfolding found_def map_map by (auto simp: match_ok_def)
  have s7: "\<forall>e\<in>set cards. optional_input e" using ok unfolding cards_def match_ok_def by auto
  have s8: "texts (found @ ?later) = texts (filter is_input (ss_entries replay))"
    using p(2,3) tx flt(1) [OF steer] by (simp add: found_def)
  show ?thesis using s1 s2 s3 s4 s5 s6 s7 s8 by blast
qed

section \<open>A concrete conversation\<close>

definition text_entry :: "string \<Rightarrow> string \<Rightarrow> string \<Rightarrow> thread_entry" where
  "text_entry i kind s = \<lparr>te_id = i, te_kind = kind, te_message_id = None,
     te_content = JObject (fmap_of_list [(''type'', JString ''text''), (''text'', JString s)]), te_delivery = None\<rparr>"

definition delivered_text :: "string \<Rightarrow> string \<Rightarrow> string \<Rightarrow> thread_entry" where
  "delivered_text i status s = (text_entry i ''steering'' s)\<lparr>te_delivery := Some \<lparr>dv_status = status, dv_error = None\<rparr>\<rparr>"

definition saved_conversation :: session_snapshot where
  "saved_conversation = (new_snapshot ''t'' ''g'' ''th'' ''s'' ''a'' ''/'')\<lparr>ss_entries :=
     [text_entry ''1'' ''user'' ''go'', delivered_text ''2'' ''injected'' ''left'', delivered_text ''3'' ''failed'' ''up'', text_entry ''4'' ''assistant'' ''ok'']\<rparr>"

definition replayed_conversation :: session_snapshot where
  "replayed_conversation = (new_snapshot ''t'' ''g'' ''th'' ''s'' ''a'' ''/'')\<lparr>ss_entries :=
     [text_entry ''a'' ''user'' ''goleft'', text_entry ''b'' ''assistant'' ''ok'']\<rparr>"

lemma saved_reconciled: "reconcile (\<lambda>_. ''x'') saved_conversation replayed_conversation \<noteq> None"
  by code_simp

theorem reconciling_keeps_everything_witness:
  "\<exists>r. reconcile (\<lambda>_. ''x'') saved_conversation replayed_conversation = Some r \<and>
     filter (\<lambda>e. \<not> is_input e) (ss_entries r) = [text_entry ''b'' ''assistant'' ''ok'']"
proof -
  obtain r where r: "reconcile (\<lambda>_. ''x'') saved_conversation replayed_conversation = Some r" using saved_reconciled by blast
  have s: "\<forall>e\<in>set (ss_entries replayed_conversation). te_kind e \<noteq> ''steering''" by (simp add: replayed_conversation_def text_entry_def)
  from reconciling_keeps_everything [OF r s]
  have "filter (\<lambda>e. \<not> is_input e) (ss_entries r) = filter (\<lambda>e. \<not> is_input e) (ss_entries replayed_conversation)" ..
  then have "filter (\<lambda>e. \<not> is_input e) (ss_entries r) = [text_entry ''b'' ''assistant'' ''ok'']"
    by (simp add: replayed_conversation_def text_entry_def is_input_def)
  with r show ?thesis by blast
qed

end
