(* ===== verification/Op_Log.thy ===== *)
theory Op_Log
  imports Rust_Str "HOL-Library.Char_ord" "HOL-Library.List_Lexorder"
begin

text \<open>
  The operation log (\<open>crates/operation-log\<close>): hourly files of one JSON record per line, appended by a writer that
  may be torn off in the middle of a line, and a reader that pages backwards through them, byte by byte, with a
  bounded number of bytes per page. The JSON form of a record and the choice of the file by the rolling appender are
  parameters.
\<close>

section \<open>Records\<close>

datatype log_level = Level_Info | Level_Warn | Level_Error

datatype op_outcome = Op_Succeeded | Op_Partial_Success | Op_Failed | Op_Interrupted | Op_Cancelled

record log_record =
  lr_timestamp :: string
  lr_operation_id :: string
  lr_boot_id :: string
  lr_kind :: string
  lr_source :: string
  lr_title :: string
  lr_event :: string
  lr_level :: log_level
  lr_message :: string
  lr_project_id :: "string option"
  lr_resource :: "string option"
  lr_outcome :: "op_outcome option"
  lr_completed :: "nat option"
  lr_total :: "nat option"

datatype log_error = Log_Io | Log_Json | Invalid_Cursor | Cursor_Expired | Invalid_Options | Record_Too_Large

definition MAX_RECORD_BYTES :: nat where
  "MAX_RECORD_BYTES = 64 * 1024"

definition DEFAULT_SCAN_BYTES :: nat where
  "DEFAULT_SCAN_BYTES = 4 * 1024 * 1024"

definition MAX_SCAN_BYTES :: nat where
  "MAX_SCAN_BYTES = 16 * 1024 * 1024"

definition MIN_SCAN_BYTES :: nat where
  "MIN_SCAN_BYTES = MAX_RECORD_BYTES + 2"

definition BLOCK_BYTES :: nat where
  "BLOCK_BYTES = 16 * 1024"

text \<open>\<open>serde_json::to_vec\<close> and \<open>serde_json::from_slice\<close> for a record.\<close>

record log_codec =
  lc_encode :: "log_record \<Rightarrow> (log_error, string) result"
  lc_decode :: "string \<Rightarrow> log_record option"

definition line_feed :: char where
  "line_feed = CHR 0x0A"

section \<open>The writer\<close>

text \<open>Opening the file of the hour: a torn final record is separated from the next one.\<close>

definition writer_open :: "nat \<Rightarrow> string option \<Rightarrow> (log_error, string option) result" where
  "writer_open retained_files content =
     (if retained_files = 0 then Inl Invalid_Options
      else Inr (case content of
          Some c \<Rightarrow> (if 0 < length c \<and> last c \<noteq> line_feed then Some (c @ [line_feed]) else Some c)
        | None \<Rightarrow> None))"

text \<open>\<open>content\<close> is the file the appender has chosen.\<close>

definition writer_append :: "log_codec \<Rightarrow> log_record \<Rightarrow> string \<Rightarrow> (log_error, string) result" where
  "writer_append codec r content =
     rbind (lc_encode codec r) (\<lambda>bytes.
     if MAX_RECORD_BYTES < length bytes + 1 then Inl Record_Too_Large else Inr (content @ bytes @ [line_feed]))"

section \<open>Options and pages\<close>

record log_cursor =
  cu_file :: string
  cu_offset :: nat

record log_filter =
  fi_query :: "string option"
  fi_operation_id :: "string option"
  fi_kind :: "string option"
  fi_source :: "string option"
  fi_project_id :: "string option"
  fi_level :: "log_level option"

text \<open>\<open>str::contains\<close>.\<close>

fun str_contains :: "string \<Rightarrow> string \<Rightarrow> bool" where
  "str_contains [] needle = (needle = [])"
| "str_contains (c # s) needle = (take (length needle) (c # s) = needle \<or> str_contains s needle)"

definition filter_matches :: "log_filter \<Rightarrow> log_record \<Rightarrow> bool" where
  "filter_matches f r \<longleftrightarrow>
     (case fi_operation_id f of None \<Rightarrow> True | Some v \<Rightarrow> v = lr_operation_id r) \<and>
     (case fi_kind f of None \<Rightarrow> True | Some v \<Rightarrow> v = lr_kind r) \<and>
     (case fi_source f of None \<Rightarrow> True | Some v \<Rightarrow> v = lr_source r) \<and>
     (case fi_project_id f of None \<Rightarrow> True | Some v \<Rightarrow> lr_project_id r = Some v) \<and>
     (case fi_level f of None \<Rightarrow> True | Some v \<Rightarrow> v = lr_level r) \<and>
     (case fi_query f of None \<Rightarrow> True | Some v \<Rightarrow>
        str_contains (lr_message r) v \<or> str_contains (lr_title r) v \<or>
        (case lr_resource r of None \<Rightarrow> False | Some s \<Rightarrow> str_contains s v) \<or> str_contains (lr_operation_id r) v)"

record read_options =
  ro_cursor :: "log_cursor option"
  ro_filter :: log_filter
  ro_limit :: nat
  ro_scan_bytes :: nat

record log_page =
  pg_items :: "log_record list"
  pg_next_cursor :: "log_cursor option"
  pg_budget_exhausted :: bool
  pg_scanned_bytes :: nat

definition log_page_default :: log_page where
  "log_page_default = \<lparr>pg_items = [], pg_next_cursor = None, pg_budget_exhausted = False, pg_scanned_bytes = 0\<rparr>"

definition log_file_name :: "string \<Rightarrow> bool" where
  "log_file_name name \<longleftrightarrow>
     take 11 name = ''operations.'' \<and> drop (length (drop 11 name) - 4) (drop 11 name) = ''.log'' \<and> 4 \<le> length (drop 11 name) \<and>
     (let date = take (length (drop 11 name) - 4) (drop 11 name)
      in length date = 13 \<and> (\<forall>(i, b)\<in>set (enumerate 0 date). if i \<in> {4, 7, 10} then b = CHR ''-'' else is_digit b)) \<and>
     length (path_components name) = 1"

section \<open>Scanning backwards\<close>

text \<open>The part of the page and the loop variables that reading a byte changes. The line is read backwards and kept in the
  order of the file, which is what reversing it in the end gives.\<close>

record log_scan =
  sc_items :: "log_record list"
  sc_resume :: nat
  sc_collecting :: bool
  sc_oversized :: bool
  sc_line :: string

definition accept_line :: "log_codec \<Rightarrow> log_filter \<Rightarrow> string \<Rightarrow> log_record list \<Rightarrow> log_record list" where
  "accept_line codec f line items =
     (case lc_decode codec line of
        Some r \<Rightarrow> if filter_matches f r then items @ [r] else items
      | None \<Rightarrow> items)"

text \<open>Reading the byte at \<open>offset\<close>; \<open>scan_block\<close> stops with \<open>True\<close> when the page is full.\<close>

definition scan_byte :: "log_codec \<Rightarrow> log_filter \<Rightarrow> nat \<Rightarrow> char \<Rightarrow> log_scan \<Rightarrow> log_scan" where
  "scan_byte codec f offset b s =
     (if b = line_feed
      then s\<lparr>sc_items := (if sc_collecting s \<and> \<not> sc_oversized s then accept_line codec f (sc_line s) (sc_items s) else sc_items s),
             sc_line := [], sc_oversized := False, sc_collecting := True, sc_resume := offset + 1\<rparr>
      else if sc_collecting s \<and> \<not> sc_oversized s
      then (if length (sc_line s) < MAX_RECORD_BYTES then s\<lparr>sc_line := b # sc_line s\<rparr>
            else s\<lparr>sc_line := [], sc_oversized := True\<rparr>)
      else s)"

fun scan_block :: "log_codec \<Rightarrow> log_filter \<Rightarrow> nat \<Rightarrow> (nat \<times> char) list \<Rightarrow> log_scan \<Rightarrow> bool \<times> log_scan" where
  "scan_block codec f limit [] s = (False, s)"
| "scan_block codec f limit ((offset, b) # bs) s =
     (let s = scan_byte codec f offset b s
      in if b = line_feed \<and> length (sc_items s) = limit then (True, s) else scan_block codec f limit bs s)"

text \<open>One file, from \<open>position\<close> down; the result has where the reading stopped and the bytes read so far.\<close>

function scan_file :: "log_codec \<Rightarrow> log_filter \<Rightarrow> nat \<Rightarrow> nat \<Rightarrow> string \<Rightarrow> nat \<Rightarrow> nat \<Rightarrow> log_scan \<Rightarrow> bool \<times> nat \<times> nat \<times> log_scan" where
  "scan_file codec f limit budget content pos scanned s =
     (if 0 < pos \<and> scanned < budget
      then (let count = min (min pos BLOCK_BYTES) (budget - scanned);
                start = pos - count;
                block = take count (drop start content);
                (full, s) = scan_block codec f limit (rev (enumerate start block)) s
            in if full then (True, pos, scanned + count, s)
               else scan_file codec f limit budget content start (scanned + count) s)
      else (False, pos, scanned, s))"
  by pat_completeness auto

termination
  by (relation "measure (\<lambda>(_, _, _, _, _, pos, _, _). pos)") (auto simp: BLOCK_BYTES_def)

declare scan_file.simps [simp del]

section \<open>Reading a page\<close>

text \<open>The directory as the reader finds it: its entries with whether they are files, and what opening a file gives. The
  two can differ when the appender removes a file in between.\<close>

datatype open_error = Not_Found | Other_Io

record log_directory =
  ld_entries :: "(open_error, (string \<times> bool) list) result"
  ld_open :: "string \<Rightarrow> (open_error, string) result"

definition open_log :: "log_directory \<Rightarrow> string \<Rightarrow> (log_error, string) result" where
  "open_log d name = (case ld_open d name of Inl Not_Found \<Rightarrow> Inl Cursor_Expired | Inl Other_Io \<Rightarrow> Inl Log_Io | Inr c \<Rightarrow> Inr c)"

definition log_files :: "log_directory \<Rightarrow> (log_error, string list) result" where
  "log_files d =
     (case ld_entries d of
        Inl Not_Found \<Rightarrow> Inr []
      | Inl Other_Io \<Rightarrow> Inl Log_Io
      | Inr es \<Rightarrow> Inr (map fst (filter (\<lambda>(name, is_file). is_file \<and> log_file_name name) es)))"

text \<open>The files from the newest on (names compare by bytes); the first one is read from the cursor.\<close>

fun read_files :: "log_codec \<Rightarrow> read_options \<Rightarrow> log_directory \<Rightarrow> nat option \<Rightarrow> string list \<Rightarrow> log_page \<Rightarrow> (log_error, log_page) result" where
  "read_files codec opt d start [] page = Inr page"
| "read_files codec opt d start (name # older) page =
     rbind (open_log d name) (\<lambda>content.
     let pos = (case start of Some offset \<Rightarrow> offset | None \<Rightarrow> length content)
     in if length content < pos then Inl Cursor_Expired
        else (case scan_file codec (ro_filter opt) (ro_limit opt) (ro_scan_bytes opt) content pos (pg_scanned_bytes page)
                \<lparr>sc_items = pg_items page, sc_resume = pos, sc_collecting = False, sc_oversized = False, sc_line = []\<rparr>
              of (full, pos, scanned, s) \<Rightarrow>
                let page = page\<lparr>pg_items := sc_items s, pg_scanned_bytes := scanned\<rparr>
                in if full then Inr (page\<lparr>pg_next_cursor := Some \<lparr>cu_file = name, cu_offset = sc_resume s\<rparr>\<rparr>)
                   else if 0 < pos
                   then Inr (page\<lparr>pg_next_cursor :=
                          Some \<lparr>cu_file = name, cu_offset = (if sc_collecting s \<and> \<not> sc_oversized s then sc_resume s else pos)\<rparr>,
                        pg_budget_exhausted := True\<rparr>)
                   else (let page = page\<lparr>pg_items :=
                           (if sc_collecting s \<and> \<not> sc_oversized s then accept_line codec (ro_filter opt) (sc_line s) (pg_items page)
                            else pg_items page)\<rparr>
                         in if length (pg_items page) = ro_limit opt \<or> pg_scanned_bytes page = ro_scan_bytes opt
                            then (case older of
                                    [] \<Rightarrow> Inr page
                                  | following # _ \<Rightarrow>
                                      map_sum id (\<lambda>c. page\<lparr>pg_next_cursor := Some \<lparr>cu_file = following, cu_offset = length c\<rparr>,
                                          pg_budget_exhausted := length (pg_items page) < ro_limit opt\<rparr>) (open_log d following))
                            else read_files codec opt d None older page)))"

definition read_log :: "log_codec \<Rightarrow> log_directory \<Rightarrow> read_options \<Rightarrow> (log_error, log_page) result" where
  "read_log codec d opt =
     (if \<not> (1 \<le> ro_limit opt \<and> ro_limit opt \<le> 200) \<or> \<not> (MIN_SCAN_BYTES \<le> ro_scan_bytes opt \<and> ro_scan_bytes opt \<le> MAX_SCAN_BYTES) \<or>
         (case fi_query (ro_filter opt) of None \<Rightarrow> False | Some q \<Rightarrow> 1024 < length q)
      then Inl Invalid_Options
      else if (case ro_cursor opt of None \<Rightarrow> False | Some c \<Rightarrow> \<not> log_file_name (cu_file c)) then Inl Invalid_Cursor
      else rbind (log_files d) (\<lambda>files.
        let files = rev (sort files)
        in rbind (case ro_cursor opt of
                    None \<Rightarrow> Inr files
                  | Some c \<Rightarrow> (case position (\<lambda>file. file = cu_file c) files of
                                 None \<Rightarrow> Inl Cursor_Expired | Some index \<Rightarrow> Inr (drop index files)))
             (\<lambda>files. read_files codec opt d (map_option cu_offset (ro_cursor opt)) files log_page_default)))"

end
