(* ===== verification/Op_Log_Pages.thy ===== *)
theory Op_Log_Pages
  imports Op_Log
begin

text \<open>
  A client that follows the cursors of the operation log from its newest record gets every record once, although every
  page reads a bounded number of bytes, lines cross blocks and pages, some lines are torn or too long, and the writer
  appends and starts new files meanwhile.
\<close>

section \<open>The records of a file\<close>

text \<open>The records of the complete lines below a position that the filter accepts, from the newest on.\<close>

definition kept :: "log_codec \<Rightarrow> log_filter \<Rightarrow> string \<Rightarrow> log_record list" where
  "kept codec f line =
     (if length line \<le> MAX_RECORD_BYTES
      then (case lc_decode codec line of Some r \<Rightarrow> if filter_matches f r then [r] else [] | None \<Rightarrow> []) else [])"

definition records_below :: "log_codec \<Rightarrow> log_filter \<Rightarrow> string \<Rightarrow> nat \<Rightarrow> log_record list" where
  "records_below codec f c q = concat (map (kept codec f) (rev (butlast (split_char line_feed (take q c)))))"

definition all_records :: "log_codec \<Rightarrow> log_filter \<Rightarrow> (string \<times> string) list \<Rightarrow> log_record list" where
  "all_records codec f fs = concat (map (\<lambda>(_, c). records_below codec f c (length c)) fs)"

lemma accept_line_kept: "length line \<le> MAX_RECORD_BYTES \<Longrightarrow> accept_line codec f line items = items @ kept codec f line"
  by (simp add: accept_line_def kept_def split: option.split)

lemma split_groups_append: "p y \<Longrightarrow> split_groups p (xs @ y # ys) = split_groups p xs @ split_groups p ys"
  by (induction xs) (auto split: list.split)

lemma split_groups_none: "\<forall>x\<in>set xs. \<not> p x \<Longrightarrow> split_groups p xs = [xs]"
  by (induction xs) auto

lemma split_groups_tail:
  "\<forall>x\<in>set w. \<not> p x \<Longrightarrow> split_groups p (xs @ w) = butlast (split_groups p xs) @ [last (split_groups p xs) @ w]"
proof (induction xs)
  case Nil
  then show ?case by (simp add: split_groups_none)
next
  case (Cons x xs)
  then show ?case using split_groups_nonempty [of p xs]
    by (cases "split_groups p xs"; cases "butlast (split_groups p xs)") (auto split: list.split)
qed

lemma records_below_0 [simp]: "records_below codec f c 0 = []"
  by (simp add: records_below_def split_char_def)

lemma records_below_append: "q \<le> length c \<Longrightarrow> records_below codec f (c @ w) q = records_below codec f c q"
  by (simp add: records_below_def)

text \<open>The bytes from \<open>a\<close> up to \<open>b\<close>.\<close>

abbreviation bytes_between :: "string \<Rightarrow> nat \<Rightarrow> nat \<Rightarrow> string" where
  "bytes_between c a b \<equiv> take (b - a) (drop a c)"

lemma take_between: "a \<le> b \<Longrightarrow> take b c = take a c @ bytes_between c a b"
  by (metis le_add_diff_inverse take_add)

lemma between_Suc: "a < b \<Longrightarrow> a < length c \<Longrightarrow> bytes_between c a b = c ! a # bytes_between c (Suc a) b"
  by (metis Cons_nth_drop_Suc Suc_diff_Suc take_Suc_Cons)

lemma records_below_skip: "a \<le> b \<Longrightarrow> line_feed \<notin> set (bytes_between c a b) \<Longrightarrow> records_below codec f c b = records_below codec f c a"
  unfolding records_below_def split_char_def take_between [of a b]
  by (subst split_groups_tail) (auto simp: butlast_append)

lemma records_below_feed:
  assumes "c ! b = line_feed" "b < length c" "a \<le> b" "line_feed \<notin> set (bytes_between c a b)"
    and "a = 0 \<or> c ! (a - 1) = line_feed"
  shows "records_below codec f c (Suc b) = kept codec f (bytes_between c a b) @ records_below codec f c a"
proof -
  let ?p = "\<lambda>x. x = line_feed" and ?u = "bytes_between c a b"
  have t: "take (Suc b) c = take a c @ ?u @ [line_feed]" using take_between [OF assms(3), of c] assms(1,2) by (simp add: take_Suc_conv_app_nth)
  have u: "split_groups ?p (?u @ [line_feed]) = [?u, []]"
    using split_groups_append [of ?p line_feed ?u "[]"] split_groups_none [of ?u ?p] assms(4) by auto
  show ?thesis
  proof (cases a)
    case 0
    with t u show ?thesis by (simp add: records_below_def split_char_def)
  next
    case (Suc i)
    then have i: "take a c = take i c @ [line_feed]" using assms by (simp add: take_Suc_conv_app_nth)
    have "split_groups ?p (take a c) = split_groups ?p (take i c) @ [[]]"
      using split_groups_append [of ?p line_feed "take i c" "[]"] by (simp add: i)
    moreover have "split_groups ?p (take (Suc b) c) = split_groups ?p (take i c) @ [?u, []]"
      using split_groups_append [of ?p line_feed "take i c" "?u @ [line_feed]"] by (simp add: t i u)
    ultimately show ?thesis by (simp add: records_below_def split_char_def butlast_append)
  qed
qed

lemma records_below_long:
  assumes "c ! b = line_feed" "b < length c" "a \<le> b" "line_feed \<notin> set (bytes_between c a b)" "MAX_RECORD_BYTES < b - a"
  shows "records_below codec f c (Suc b) = records_below codec f c a"
proof -
  let ?p = "\<lambda>x. x = line_feed" and ?u = "bytes_between c a b"
  have t: "take (Suc b) c = (take a c @ ?u) @ [line_feed]" using take_between [OF assms(3), of c] assms(1,2) by (simp add: take_Suc_conv_app_nth)
  have "split_groups ?p (take (Suc b) c) = split_groups ?p (take a c @ ?u) @ [[]]"
    unfolding t by (subst split_groups_append) simp_all
  then have "butlast (split_groups ?p (take (Suc b) c)) = butlast (split_groups ?p (take a c)) @ [last (split_groups ?p (take a c)) @ ?u]"
    using split_groups_tail [of ?u ?p "take a c"] assms(4) by auto
  moreover have "kept codec f (last (split_groups ?p (take a c)) @ ?u) = []" using assms(2,3,5) by (simp add: kept_def)
  ultimately show ?thesis by (simp add: records_below_def split_char_def)
qed

section \<open>One file\<close>

text \<open>The reader has gone from \<open>q\<close> down to \<open>p\<close>: what it has collected and what is left are the records below \<open>q\<close>.\<close>

definition scanned_to :: "log_codec \<Rightarrow> log_filter \<Rightarrow> string \<Rightarrow> log_record list \<Rightarrow> nat \<Rightarrow> nat \<Rightarrow> log_scan \<Rightarrow> bool" where
  "scanned_to codec f c items q p s \<longleftrightarrow>
     p \<le> q \<and> q \<le> length c \<and>
     (\<exists>acc. sc_items s = items @ acc \<and>
        records_below codec f c q = acc @ records_below codec f c (if sc_collecting s then sc_resume s else p)) \<and>
     (if sc_collecting s
      then p < sc_resume s \<and> sc_resume s \<le> q \<and> c ! (sc_resume s - 1) = line_feed \<and>
        line_feed \<notin> set (bytes_between c p (sc_resume s - 1)) \<and>
        (sc_oversized s \<longleftrightarrow> MAX_RECORD_BYTES < sc_resume s - 1 - p) \<and>
        (\<not> sc_oversized s \<longrightarrow> sc_line s = bytes_between c p (sc_resume s - 1)) \<and> (sc_resume s = q \<longrightarrow> sc_items s = items)
      else sc_items s = items)"

lemma scanned_start:
  "q \<le> length c \<Longrightarrow> scanned_to codec f c items q q
     \<lparr>sc_items = items, sc_resume = q, sc_collecting = False, sc_oversized = False, sc_line = []\<rparr>"
  by (simp add: scanned_to_def)

text \<open>Where the line before a line feed begins, its record is the first of the records below.\<close>

lemma scanned_line:
  assumes s: "scanned_to codec f c items q p s" "sc_collecting s" and p: "p = 0 \<or> c ! (p - 1) = line_feed"
  shows "(if \<not> sc_oversized s then accept_line codec f (sc_line s) (sc_items s) else sc_items s) @ records_below codec f c p =
    sc_items s @ records_below codec f c (sc_resume s)"
proof -
  let ?r = "sc_resume s - 1"
  have r: "p \<le> ?r" "?r < length c" "sc_resume s = Suc ?r" "c ! ?r = line_feed" "line_feed \<notin> set (bytes_between c p ?r)"
    "sc_oversized s \<longleftrightarrow> MAX_RECORD_BYTES < ?r - p" "\<not> sc_oversized s \<Longrightarrow> sc_line s = bytes_between c p ?r"
    using s by (auto simp: scanned_to_def)
  have l: "length (bytes_between c p ?r) = ?r - p" using r by simp
  have "records_below codec f c (sc_resume s) = kept codec f (bytes_between c p ?r) @ records_below codec f c p"
    using records_below_feed [OF r(4,2,1,5) p, of codec f] r(3) by simp
  then show ?thesis using r(6,7) l by (auto simp: accept_line_kept) (simp_all add: kept_def)
qed

lemma scanned_byte:
  assumes s: "scanned_to codec f c items q (Suc i) s"
  shows "scanned_to codec f c items q i (scan_byte codec f i (c ! i) s)"
proof -
  have i: "i < q" "i < length c" using s by (auto simp: scanned_to_def)
  obtain acc where acc: "sc_items s = items @ acc"
    "records_below codec f c q = acc @ records_below codec f c (if sc_collecting s then sc_resume s else Suc i)"
    using s by (auto simp: scanned_to_def)
  show ?thesis
  proof (cases "c ! i = line_feed")
    case True
    show ?thesis
    proof (cases "sc_collecting s")
      case col: True
      have "Suc i < sc_resume s" "sc_resume s \<le> q" using s col by (auto simp: scanned_to_def)
      moreover have "\<exists>acc'. (if \<not> sc_oversized s then accept_line codec f (sc_line s) (sc_items s) else sc_items s) = items @ acc'"
        using acc by (auto simp: accept_line_def split: option.split)
      moreover note scanned_line [OF s col] True acc
      ultimately show ?thesis using i s col by (auto simp: scanned_to_def scan_byte_def)
    qed (use True acc i s in \<open>auto simp: scanned_to_def scan_byte_def\<close>)
  next
    case False
    show ?thesis
    proof (cases "sc_collecting s")
      case col: True
      let ?r = "sc_resume s - 1"
      have r: "i < ?r" "?r < length c" using s col i by (auto simp: scanned_to_def)
      have b: "bytes_between c i ?r = c ! i # bytes_between c (Suc i) ?r" using between_Suc [OF r(1) i(2)] .
      have l: "length (bytes_between c (Suc i) ?r) = ?r - Suc i" using r by simp
      show ?thesis using s col False acc b l r
        by (auto simp: scanned_to_def scan_byte_def)
    next
      case col: False
      have "records_below codec f c (Suc i) = records_below codec f c i"
        by (rule records_below_skip) (use False i Cons_nth_drop_Suc [of i c, symmetric] in auto)
      with col False s acc show ?thesis by (auto simp: scanned_to_def scan_byte_def)
    qed
  qed
qed

lemma scan_byte_grows:
  "length (sc_items s) < limit \<Longrightarrow> length (sc_items (scan_byte codec f i b s)) \<le> limit"
  "b \<noteq> line_feed \<Longrightarrow> sc_items (scan_byte codec f i b s) = sc_items s"
  by (auto simp: scan_byte_def accept_line_def split: option.split)

text \<open>What is left when the page is full in the middle of a file.\<close>

definition page_full :: "log_codec \<Rightarrow> log_filter \<Rightarrow> string \<Rightarrow> log_record list \<Rightarrow> nat \<Rightarrow> nat \<Rightarrow> log_scan \<Rightarrow> bool" where
  "page_full codec f c items limit q s \<longleftrightarrow>
     sc_resume s < q \<and> length (sc_items s) = limit \<and>
     (\<exists>acc. sc_items s = items @ acc \<and> records_below codec f c q = acc @ records_below codec f c (sc_resume s))"

lemma scanned_block:
  assumes "scanned_to codec f c items q (j + n) s" "j + n \<le> length c" "length (sc_items s) < limit" "length items < limit"
    and "scan_block codec f limit (rev (enumerate j (take n (drop j c)))) s = (full, s')"
  shows "if full then page_full codec f c items limit q s' else scanned_to codec f c items q j s' \<and> length (sc_items s') < limit"
  using assms
proof (induction n arbitrary: s)
  case (Suc n)
  let ?s = "scan_byte codec f (j + n) (c ! (j + n)) s"
  have t: "take (Suc n) (drop j c) = take n (drop j c) @ [c ! (j + n)]" using Suc.prems(2) by (simp add: take_Suc_conv_app_nth)
  have e: "rev (enumerate j (take (Suc n) (drop j c))) = (j + n, c ! (j + n)) # rev (enumerate j (take n (drop j c)))"
    unfolding t using Suc.prems(2) by (simp add: enumerate_append_eq min_absorb2)
  have s: "scanned_to codec f c items q (j + n) ?s" using scanned_byte [of codec f c items q "j + n" s] Suc.prems(1) by simp
  show ?case
  proof (cases "c ! (j + n) = line_feed \<and> length (sc_items ?s) = limit")
    case True
    then have "full" "s' = ?s" using Suc.prems(5) by (auto simp: e Let_def)
    moreover have "sc_collecting ?s" using True by (simp add: scan_byte_def)
    ultimately show ?thesis using s True Suc.prems(4) by (auto simp: page_full_def scanned_to_def le_less)
  next
    case False
    then have b: "scan_block codec f limit (rev (enumerate j (take n (drop j c)))) ?s = (full, s')" using Suc.prems(5) by (auto simp: e Let_def split: if_splits)
    have "length (sc_items ?s) < limit" using False scan_byte_grows(1) [of s limit codec f "j + n" "c ! (j + n)"]
      scan_byte_grows(2) [of "c ! (j + n)" codec f "j + n" s] Suc.prems(3)
      by (cases "c ! (j + n) = line_feed") (auto simp: le_less)
    with Suc.IH [OF s _ _ Suc.prems(4) b] Suc.prems(2) show ?thesis by simp
  qed
qed (simp add: enumerate_simps)

lemma scanned_file:
  assumes "scanned_to codec f c items q p s" "length (sc_items s) < limit" "length items < limit" "scanned \<le> budget"
    and "scan_file codec f limit budget c p scanned s = (full, p', scanned', s')"
  shows "scanned' \<le> budget \<and>
    (if full then page_full codec f c items limit q s'
     else scanned_to codec f c items q p' s' \<and> length (sc_items s') < limit \<and> scanned' + p' = scanned + p \<and> (0 < p' \<longrightarrow> scanned' = budget))"
  using assms
proof (induction p arbitrary: scanned s rule: less_induct)
  case (less p scanned s)
  show ?case
  proof (cases "0 < p \<and> scanned < budget")
    case True
    let ?n = "min (min p BLOCK_BYTES) (budget - scanned)"
    let ?j = "p - ?n"
    have j: "?j + ?n = p" "p \<le> length c" using less.prems(1) by (auto simp: scanned_to_def)
    obtain full1 s1 where b: "scan_block codec f limit (rev (enumerate ?j (take ?n (drop ?j c)))) s = (full1, s1)" by (metis surj_pair)
    have block: "if full1 then page_full codec f c items limit q s1 else scanned_to codec f c items q ?j s1 \<and> length (sc_items s1) < limit"
      using scanned_block [where items = items and q = q, OF _ _ less.prems(2,3) b] less.prems(1) j by simp
    show ?thesis
    proof (cases full1)
      case True
      then have "full \<and> s' = s1 \<and> scanned' = scanned + ?n"
        using less.prems(5) \<open>0 < p \<and> scanned < budget\<close> b by (subst (asm) scan_file.simps) (auto simp: Let_def)
      with block True less.prems(4) show ?thesis by auto
    next
      case False
      then have "scan_file codec f limit budget c ?j (scanned + ?n) s1 = (full, p', scanned', s')"
        using less.prems(5) True b by (subst (asm) scan_file.simps) (simp add: Let_def)
      moreover have "?j < p" using True by (simp add: BLOCK_BYTES_def)
      ultimately show ?thesis using less.IH [of ?j s1 "scanned + ?n"] block False less.prems(3) j True by (auto split: if_splits)
    qed
  next
    case False
    then show ?thesis using less.prems by (subst (asm) scan_file.simps) auto
  qed
qed

section \<open>A page\<close>

text \<open>The records from a position in the first of the files on.\<close>

fun records_from :: "log_codec \<Rightarrow> log_filter \<Rightarrow> nat option \<Rightarrow> (string \<times> string) list \<Rightarrow> log_record list" where
  "records_from codec f start [] = []"
| "records_from codec f start ((_, c) # fs) =
     records_below codec f c (case start of Some offset \<Rightarrow> offset | None \<Rightarrow> length c) @ records_from codec f None fs"

lemma records_from_None: "records_from codec f None fs = all_records codec f fs"
  by (induction fs) (auto simp: all_records_def)

text \<open>How much a reader that is at a position of the first file still has before it.\<close>

fun remaining :: "nat option \<Rightarrow> (string \<times> string) list \<Rightarrow> nat" where
  "remaining start [] = 0"
| "remaining start ((_, c) # fs) = Suc (case start of Some offset \<Rightarrow> offset | None \<Rightarrow> length c) + remaining None fs"

text \<open>What a page promises: its items are the next records, and its cursor, which is in one of the files, stands for the
  others.\<close>

definition page_ok :: "log_codec \<Rightarrow> log_filter \<Rightarrow> log_record list \<Rightarrow> nat option \<Rightarrow> (string \<times> string) list \<Rightarrow> log_page \<Rightarrow> bool" where
  "page_ok codec f items start fs page \<longleftrightarrow>
     (\<exists>acc. pg_items page = items @ acc \<and>
        (case pg_next_cursor page of
           None \<Rightarrow> records_from codec f start fs = acc
         | Some cur \<Rightarrow> \<exists>pre c rest. fs = pre @ (cu_file cur, c) # rest \<and> cu_offset cur \<le> length c \<and>
             records_from codec f start fs = acc @ records_from codec f (Some (cu_offset cur)) ((cu_file cur, c) # rest)))"

lemma page_ok_later:
  assumes "page_ok codec f (items @ acc) None fs page" "records_below codec f c q = acc" "start = Some q \<or> start = None \<and> q = length c"
  shows "page_ok codec f items start ((n, c) # fs) page"
proof -
  obtain acc' where a: "pg_items page = items @ acc @ acc'" "case pg_next_cursor page of
           None \<Rightarrow> records_from codec f None fs = acc'
         | Some cur \<Rightarrow> \<exists>pre c rest. fs = pre @ (cu_file cur, c) # rest \<and> cu_offset cur \<le> length c \<and>
             records_from codec f None fs = acc' @ records_from codec f (Some (cu_offset cur)) ((cu_file cur, c) # rest)"
    using assms(1) by (auto simp: page_ok_def)
  have r: "records_from codec f start ((n, c) # fs) = acc @ records_from codec f None fs" using assms(2,3) by auto
  show ?thesis
  proof (cases "pg_next_cursor page")
    case None
    then show ?thesis using a r by (auto simp: page_ok_def)
  next
    case (Some cur)
    then obtain pre c' rest where p: "fs = pre @ (cu_file cur, c') # rest" "cu_offset cur \<le> length c'"
      "records_from codec f None fs = acc' @ records_from codec f (Some (cu_offset cur)) ((cu_file cur, c') # rest)" using a by auto
    then have "(n, c) # fs = ((n, c) # pre) @ (cu_file cur, c') # rest" by simp
    with Some p r a(1) show ?thesis unfolding page_ok_def by (intro exI [of _ "acc @ acc'"] conjI) (auto intro!: exI)
  qed
qed

lemma page_ok_here:
  assumes "pg_items page = items @ acc" "pg_next_cursor page = Some \<lparr>cu_file = n, cu_offset = resume\<rparr>" "resume \<le> length c"
    and "records_below codec f c q = acc @ records_below codec f c resume" "start = Some q \<or> start = None \<and> q = length c"
  shows "page_ok codec f items start ((n, c) # fs) page"
  unfolding page_ok_def
proof (intro exI [of _ acc] conjI assms(1))
  have "records_from codec f start ((n, c) # fs) = acc @ records_from codec f (Some resume) ((n, c) # fs)" using assms(4,5) by auto
  then have "\<exists>pre c' rest. (n, c) # fs = pre @ (n, c') # rest \<and> resume \<le> length c' \<and>
      records_from codec f start ((n, c) # fs) = acc @ records_from codec f (Some resume) ((n, c') # rest)"
    using assms(3) by (intro exI [of _ "[]"] exI [of _ c] exI [of _ fs]) simp
  then show "case pg_next_cursor page of None \<Rightarrow> records_from codec f start ((n, c) # fs) = acc
      | Some cur \<Rightarrow> \<exists>pre c' rest. (n, c) # fs = pre @ (cu_file cur, c') # rest \<and> cu_offset cur \<le> length c' \<and>
          records_from codec f start ((n, c) # fs) = acc @ records_from codec f (Some (cu_offset cur)) ((cu_file cur, c') # rest)"
    by (simp add: assms(2))
qed

declare read_files.simps(2) [simp del]

lemma scanned_first_line:
  assumes "scanned_to codec f c items q 0 s"
  shows "\<exists>acc. (if sc_collecting s \<and> \<not> sc_oversized s then accept_line codec f (sc_line s) (sc_items s) else sc_items s) = items @ acc \<and>
    records_below codec f c q = acc"
proof (cases "sc_collecting s")
  case True
  obtain acc where "sc_items s = items @ acc" "records_below codec f c q = acc @ records_below codec f c (sc_resume s)"
    using assms True by (auto simp: scanned_to_def)
  with scanned_line [OF assms True] True show ?thesis by (auto split: if_splits)
next
  case False
  with assms show ?thesis by (auto simp: scanned_to_def)
qed

text \<open>Where a page that ran out of bytes goes on.\<close>

lemma scanned_rest:
  assumes "scanned_to codec f c items q p s" "resume = (if sc_collecting s \<and> \<not> sc_oversized s then sc_resume s else p)"
  shows "resume \<le> length c" "\<exists>acc. sc_items s = items @ acc \<and> records_below codec f c q = acc @ records_below codec f c resume"
    and "p + MAX_RECORD_BYTES + 2 \<le> q \<Longrightarrow> resume < q"
proof -
  show "resume \<le> length c" "p + MAX_RECORD_BYTES + 2 \<le> q \<Longrightarrow> resume < q" using assms by (auto simp: scanned_to_def)
  show "\<exists>acc. sc_items s = items @ acc \<and> records_below codec f c q = acc @ records_below codec f c resume"
  proof (cases "sc_collecting s \<and> sc_oversized s")
    case True
    let ?r = "sc_resume s - 1"
    have r: "p \<le> ?r" "?r < length c" "sc_resume s = Suc ?r" "c ! ?r = line_feed" "line_feed \<notin> set (bytes_between c p ?r)" "MAX_RECORD_BYTES < ?r - p"
      using assms True by (auto simp: scanned_to_def)
    have "records_below codec f c (sc_resume s) = records_below codec f c p"
      using records_below_long [OF r(4,2,1,5,6), of codec f] r(3) by simp
    with assms True show ?thesis by (auto simp: scanned_to_def)
  qed (use assms in \<open>auto simp: scanned_to_def\<close>)
qed

lemma read_files_ok:
  assumes "\<forall>(n, c)\<in>set fs. ld_open d n = Inr c" "case fs of [] \<Rightarrow> True | (_, c) # _ \<Rightarrow> (case start of Some q \<Rightarrow> q \<le> length c | None \<Rightarrow> True)"
    and "length (pg_items page) < ro_limit opt" "pg_scanned_bytes page < ro_scan_bytes opt" "pg_next_cursor page = None"
    and "MIN_SCAN_BYTES \<le> ro_scan_bytes opt"
  shows "\<exists>page'. read_files codec opt d start (map fst fs) page = Inr page' \<and>
    page_ok codec (ro_filter opt) (pg_items page) start fs page' \<and>
    (\<forall>cur n c rest q. pg_next_cursor page' = Some cur \<longrightarrow> pg_scanned_bytes page = 0 \<longrightarrow> distinct (map fst fs) \<longrightarrow> fs = (n, c) # rest \<longrightarrow> cu_file cur = n \<longrightarrow>
       cu_offset cur < (case start of Some q \<Rightarrow> q | None \<Rightarrow> length c))"
  using assms
proof (induction fs arbitrary: start page)
  case Nil
  then show ?case by (auto simp: page_ok_def)
next
  case (Cons nc older)
  obtain n c where nc: "nc = (n, c)" by (cases nc)
  let ?f = "ro_filter opt" and ?limit = "ro_limit opt" and ?budget = "ro_scan_bytes opt" and ?items = "pg_items page"
  let ?q = "case start of Some q \<Rightarrow> q | None \<Rightarrow> length c"
  have op: "open_log d n = Inr c" "\<forall>(n, c)\<in>set older. ld_open d n = Inr c" using Cons.prems(1) nc by (auto simp: open_log_def)
  have q: "?q \<le> length c" using Cons.prems(2) nc by (simp split: option.splits)
  define s0 where "s0 = \<lparr>sc_items = ?items, sc_resume = ?q, sc_collecting = False, sc_oversized = False, sc_line = []\<rparr>"
  obtain full p scanned s where sf: "scan_file codec ?f ?limit ?budget c ?q (pg_scanned_bytes page) s0 = (full, p, scanned, s)"
    by (metis surj_pair)
  have s0: "scanned_to codec ?f c ?items ?q ?q s0" unfolding s0_def by (rule scanned_start [OF q])
  have read: "scanned \<le> ?budget \<and> (if full then page_full codec ?f c ?items ?limit ?q s
      else scanned_to codec ?f c ?items ?q p s \<and> length (sc_items s) < ?limit \<and> scanned + p = pg_scanned_bytes page + ?q \<and> (0 < p \<longrightarrow> scanned = ?budget))"
    by (rule scanned_file [OF s0 _ Cons.prems(3) _ sf]) (use Cons.prems(3,4) in \<open>simp_all add: s0_def\<close>)
  have st: "start = Some ?q \<or> start = None \<and> ?q = length c" by (cases start) auto
  let ?page = "page\<lparr>pg_items := sc_items s, pg_scanned_bytes := scanned\<rparr>"
  consider (full) "full" | (budget) "\<not> full" "0 < p" | (bottom) "\<not> full" "p = 0" by auto
  then show ?case
  proof cases
    case full
    then have "read_files codec opt d start (map fst (nc # older)) page =
        Inr (?page\<lparr>pg_next_cursor := Some \<lparr>cu_file = n, cu_offset = sc_resume s\<rparr>\<rparr>)"
      using sf q by (simp add: nc op s0_def not_less Let_def read_files.simps(2))
    moreover obtain acc where acc: "sc_items s = ?items @ acc" "records_below codec ?f c ?q = acc @ records_below codec ?f c (sc_resume s)"
      and less: "sc_resume s < ?q" using read full by (auto simp: page_full_def)
    moreover have "page_ok codec ?f ?items start ((n, c) # older) (?page\<lparr>pg_next_cursor := Some \<lparr>cu_file = n, cu_offset = sc_resume s\<rparr>\<rparr>)"
      by (rule page_ok_here [OF _ _ _ acc(2) st]) (use acc(1) less q in simp_all)
    ultimately show ?thesis by (simp add: nc)
  next
    case budget
    let ?resume = "if sc_collecting s \<and> \<not> sc_oversized s then sc_resume s else p"
    have s: "scanned_to codec ?f c ?items ?q p s" "scanned + p = pg_scanned_bytes page + ?q" "scanned = ?budget" using read budget by auto
    note rest = scanned_rest [OF s(1) refl]
    have "read_files codec opt d start (map fst (nc # older)) page =
        Inr (?page\<lparr>pg_next_cursor := Some \<lparr>cu_file = n, cu_offset = ?resume\<rparr>, pg_budget_exhausted := True\<rparr>)"
      using sf q budget by (simp add: nc op s0_def not_less Let_def read_files.simps(2))
    moreover have "pg_scanned_bytes page = 0 \<Longrightarrow> ?resume < ?q" using rest(3) s(2,3) Cons.prems(6) by (simp add: MIN_SCAN_BYTES_def)
    moreover obtain acc where acc: "sc_items s = ?items @ acc" "records_below codec ?f c ?q = acc @ records_below codec ?f c ?resume"
      using rest(2) by blast
    moreover have "page_ok codec ?f ?items start ((n, c) # older)
        (?page\<lparr>pg_next_cursor := Some \<lparr>cu_file = n, cu_offset = ?resume\<rparr>, pg_budget_exhausted := True\<rparr>)"
      by (rule page_ok_here [OF _ _ rest(1) acc(2) st]) (use acc(1) in simp_all)
    ultimately show ?thesis by (simp add: nc del: if_split)
  next
    case bottom
    let ?items' = "if sc_collecting s \<and> \<not> sc_oversized s then accept_line codec ?f (sc_line s) (sc_items s) else sc_items s"
    have s: "scanned_to codec ?f c ?items ?q 0 s" "scanned \<le> ?budget" "length (sc_items s) < ?limit" using read bottom by auto
    obtain acc where acc: "?items' = ?items @ acc" "records_below codec ?f c ?q = acc" using scanned_first_line [OF s(1)] by blast
    have le: "length ?items' \<le> ?limit" using s(3) by (auto simp: accept_line_def split: option.split)
    let ?page' = "?page\<lparr>pg_items := ?items'\<rparr>"
    have step: "read_files codec opt d start (map fst (nc # older)) page =
        (if length ?items' = ?limit \<or> scanned = ?budget
         then (case map fst older of
                 [] \<Rightarrow> Inr ?page'
               | following # _ \<Rightarrow>
                   map_sum id (\<lambda>c. ?page'\<lparr>pg_next_cursor := Some \<lparr>cu_file = following, cu_offset = length c\<rparr>,
                     pg_budget_exhausted := length ?items' < ?limit\<rparr>) (open_log d following))
         else read_files codec opt d None (map fst older) ?page')"
      using sf q bottom by (cases "sc_collecting s \<and> \<not> sc_oversized s"; cases older) (auto simp: nc op s0_def not_less Let_def read_files.simps(2))
    show ?thesis
    proof (cases "length ?items' = ?limit \<or> scanned = ?budget")
      case True
      show ?thesis
      proof (cases older)
        case Nil
        then have "read_files codec opt d start (map fst (nc # older)) page = Inr ?page'"
          using step True Nil by simp
        then show ?thesis using Nil acc Cons.prems(5) by (auto simp: nc page_ok_def)
      next
        case (Cons nc2 rest)
        obtain n2 c2 where nc2: "nc2 = (n2, c2)" by (cases nc2)
        have op2: "open_log d n2 = Inr c2" using op(2) Cons nc2 by (auto simp: open_log_def)
        have "read_files codec opt d start (map fst (nc # older)) page =
            Inr (?page'\<lparr>pg_next_cursor := Some \<lparr>cu_file = n2, cu_offset = length c2\<rparr>, pg_budget_exhausted := length ?items' < ?limit\<rparr>)"
          using step True by (simp add: nc2 Cons op2)
        moreover have "page_ok codec ?f ?items start ((n, c) # older)
            (?page'\<lparr>pg_next_cursor := Some \<lparr>cu_file = n2, cu_offset = length c2\<rparr>, pg_budget_exhausted := length ?items' < ?limit\<rparr>)"
          unfolding Cons nc2
          by (rule page_ok_later [OF page_ok_here [where acc = "[]" and q = "length c2"] acc(2) st]) (use acc(1) in simp_all)
        ultimately show ?thesis by (auto simp: nc Cons nc2)
      qed
    next
      case False
      have head: "case older of [] \<Rightarrow> True | (_, c) # _ \<Rightarrow> (case None of Some q \<Rightarrow> q \<le> length c | None \<Rightarrow> True)"
        by (simp split: list.split)
      have "length (pg_items ?page') < ?limit" "pg_scanned_bytes ?page' < ?budget" "pg_next_cursor ?page' = None"
        using le False s(2) Cons.prems(5) by simp_all
      note IH = Cons.IH [OF op(2) head this Cons.prems(6)]
      have "\<exists>page'. read_files codec opt d None (map fst older) ?page' = Inr page' \<and> page_ok codec ?f (pg_items ?page') None older page'"
        using IH by blast
      then obtain page' where p: "read_files codec opt d None (map fst older) ?page' = Inr page'" "page_ok codec ?f (?items @ acc) None older page'"
        using acc(1) by auto
      have "read_files codec opt d start (map fst (nc # older)) page = Inr page'"
        using step False p(1) by (simp del: if_split)
      moreover note page_ok_later [OF p(2) acc(2) st, of n]
      moreover have "cu_file cur \<noteq> n" if "pg_next_cursor page' = Some cur" "distinct (map fst (nc # older))" for cur
        using p(2) that nc by (auto simp: page_ok_def)
      ultimately show ?thesis by (auto simp: nc)
    qed
  qed
qed

section \<open>Following the cursors\<close>

text \<open>The files of a directory with their contents, the newest first.\<close>

definition directory_holds :: "log_directory \<Rightarrow> (string \<times> string) list \<Rightarrow> bool" where
  "directory_holds d fs \<longleftrightarrow>
     map_sum id (\<lambda>names. rev (sort names)) (log_files d) = Inr (map fst fs) \<and> distinct (map fst fs) \<and>
     (\<forall>(n, c)\<in>set fs. ld_open d n = Inr c)"

text \<open>What the writer does meanwhile: it appends to the newest file and starts newer ones.\<close>

definition log_grows :: "(string \<times> string) list \<Rightarrow> (string \<times> string) list \<Rightarrow> bool" where
  "log_grows fs fs' \<longleftrightarrow> fs = [] \<or> (\<exists>n c older newer w. fs = (n, c) # older \<and> fs' = newer @ (n, c @ w) # older)"

text \<open>A client that asks for page after page; \<open>None\<close> when an answer is an error or it has to give up.\<close>

fun log_pages :: "nat \<Rightarrow> log_codec \<Rightarrow> (nat \<Rightarrow> log_directory) \<Rightarrow> read_options \<Rightarrow> log_record list option" where
  "log_pages 0 codec ds opt = None"
| "log_pages (Suc fuel) codec ds opt =
     (case read_log codec (ds 0) opt of
        Inl e \<Rightarrow> None
      | Inr page \<Rightarrow>
          (case pg_next_cursor page of
             None \<Rightarrow> Some (pg_items page)
           | Some cursor \<Rightarrow>
               map_option (\<lambda>records. pg_items page @ records) (log_pages fuel codec (\<lambda>i. ds (Suc i)) (opt\<lparr>ro_cursor := Some cursor\<rparr>))))"

definition options_ok :: "read_options \<Rightarrow> bool" where
  "options_ok opt \<longleftrightarrow> 1 \<le> ro_limit opt \<and> ro_limit opt \<le> 200 \<and> MIN_SCAN_BYTES \<le> ro_scan_bytes opt \<and> ro_scan_bytes opt \<le> MAX_SCAN_BYTES \<and>
     (case fi_query (ro_filter opt) of None \<Rightarrow> True | Some q \<Rightarrow> length q \<le> 1024)"

lemma log_files_named: "log_files d = Inr names \<Longrightarrow> n \<in> set names \<Longrightarrow> log_file_name n"
  by (auto simp: log_files_def split: sum.splits open_error.splits)

lemma directory_named: "directory_holds d fs \<Longrightarrow> (n, c) \<in> set fs \<Longrightarrow> log_file_name n"
proof -
  assume d: "directory_holds d fs" "(n, c) \<in> set fs"
  then obtain names where names: "log_files d = Inr names" "rev (sort names) = map fst fs"
    by (cases "log_files d") (auto simp: directory_holds_def)
  have "n \<in> set (map fst fs)" using d(2) by force
  then have "n \<in> set names" unfolding names(2) [symmetric] by simp
  then show ?thesis by (rule log_files_named [OF names(1)])
qed

lemma position_file: "distinct (map fst (pre @ (n, c) # older)) \<Longrightarrow> position (\<lambda>f. f = n) (map fst (pre @ (n, c) # older)) = Some (length pre)"
  by (induction pre) auto

text \<open>The files to read and the place in the first of them.\<close>

lemma read_log_files:
  assumes "options_ok opt" "directory_holds d (pre @ fs)"
    and "case ro_cursor opt of None \<Rightarrow> pre = [] | Some cur \<Rightarrow> \<exists>c rest. fs = (cu_file cur, c) # rest"
  shows "read_log codec d opt = read_files codec opt d (map_option cu_offset (ro_cursor opt)) (map fst fs) log_page_default"
proof -
  obtain names where names: "log_files d = Inr names" "rev (sort names) = map fst (pre @ fs)"
    using assms(2) by (cases "log_files d") (auto simp: directory_holds_def)
  have o: "1 \<le> ro_limit opt" "ro_limit opt \<le> 200" "MIN_SCAN_BYTES \<le> ro_scan_bytes opt" "ro_scan_bytes opt \<le> MAX_SCAN_BYTES"
    "\<not> (case fi_query (ro_filter opt) of None \<Rightarrow> False | Some q \<Rightarrow> 1024 < length q)"
    using assms(1) by (auto simp: options_ok_def split: option.splits)
  show ?thesis
  proof (cases "ro_cursor opt")
    case None
    then show ?thesis using assms(3) names o by (simp add: read_log_def)
  next
    case (Some cur)
    then obtain c rest where fs: "fs = (cu_file cur, c) # rest" using assms(3) by auto
    have "log_file_name (cu_file cur)" using directory_named [OF assms(2)] fs by auto
    moreover have "position (\<lambda>f. f = cu_file cur) (map fst (pre @ fs)) = Some (length pre)"
      using assms(2) unfolding fs directory_holds_def by (intro position_file) blast
    ultimately show ?thesis using Some names o by (simp add: read_log_def)
  qed
qed

lemma grows_kept:
  assumes "log_grows fs fs'" "fs = pre @ (n, c @ w) # older"
  shows "\<exists>pre' w'. fs' = pre' @ (n, c @ w') # older"
proof (cases pre)
  case Nil
  with assms show ?thesis by (auto simp: log_grows_def)
next
  case (Cons p pre')
  with assms obtain newer w' where "fs' = newer @ (fst p, snd p @ w') # (pre' @ (n, c @ w) # older)" by (auto simp: log_grows_def)
  then have "fs' = (newer @ (fst p, snd p @ w') # pre') @ (n, c @ w) # older" by simp
  then show ?thesis by blast
qed

lemma remaining_suffix: "remaining None rest \<le> remaining None (pre @ rest)"
  by (induction pre) auto

lemma read_page:
  assumes "options_ok opt" "directory_holds d (pre @ fs)"
    and cur: "case ro_cursor opt of None \<Rightarrow> pre = [] | Some cur \<Rightarrow> \<exists>c rest. fs = (cu_file cur, c) # rest \<and> cu_offset cur \<le> length c"
  obtains page where "read_log codec d opt = Inr page" "page_ok codec (ro_filter opt) [] (map_option cu_offset (ro_cursor opt)) fs page"
    "\<And>next c rest pre'. pg_next_cursor page = Some next \<Longrightarrow> fs = pre' @ (cu_file next, c) # rest \<Longrightarrow> cu_offset next \<le> length c \<Longrightarrow>
       remaining (Some (cu_offset next)) ((cu_file next, c) # rest) < remaining (map_option cu_offset (ro_cursor opt)) fs"
proof -
  let ?start = "map_option cu_offset (ro_cursor opt)"
  have opens: "\<forall>(n, c)\<in>set fs. ld_open d n = Inr c" "distinct (map fst fs)" using assms(2) by (auto simp: directory_holds_def)
  have head: "case fs of [] \<Rightarrow> True | (_, c) # _ \<Rightarrow> (case ?start of Some q \<Rightarrow> q \<le> length c | None \<Rightarrow> True)"
    using cur by (auto split: option.splits list.splits)
  have "length (pg_items log_page_default) < ro_limit opt" "pg_scanned_bytes log_page_default < ro_scan_bytes opt"
    "pg_next_cursor log_page_default = None" "MIN_SCAN_BYTES \<le> ro_scan_bytes opt"
    using assms(1) by (auto simp: log_page_default_def options_ok_def MIN_SCAN_BYTES_def)
  from read_files_ok [OF opens(1) head this, of codec] obtain page where p:
    "read_files codec opt d ?start (map fst fs) log_page_default = Inr page"
    "page_ok codec (ro_filter opt) [] ?start fs page"
    "\<forall>cur n c rest q. pg_next_cursor page = Some cur \<longrightarrow> distinct (map fst fs) \<longrightarrow> fs = (n, c) # rest \<longrightarrow> cu_file cur = n \<longrightarrow>
       cu_offset cur < (case ?start of Some q \<Rightarrow> q | None \<Rightarrow> length c)"
    by (auto simp: log_page_default_def)
  have less: "remaining (Some (cu_offset following)) ((cu_file following, c) # rest) < remaining ?start fs"
    if f: "pg_next_cursor page = Some following" "fs = pre' @ (cu_file following, c) # rest" "cu_offset following \<le> length c" for following c rest pre'
  proof (cases pre')
    case Nil
    with p(3) f opens(2) show ?thesis by auto
  next
    case (Cons x xs)
    have "remaining (Some (cu_offset following)) ((cu_file following, c) # rest) \<le> remaining None ((cu_file following, c) # rest)" using f(3) by simp
    also have "\<dots> \<le> remaining None (xs @ (cu_file following, c) # rest)" by (rule remaining_suffix)
    also have "\<dots> < remaining ?start fs" using f(2) Cons by (cases x) simp
    finally show ?thesis .
  qed
  have "read_log codec d opt = Inr page"
    using read_log_files [OF assms(1,2)] cur p(1) by (auto split: option.splits)
  from that [OF this p(2) less] show thesis .
qed

lemma page_ok_cursor:
  assumes "page_ok codec f [] start fs page" "pg_next_cursor page = Some cur"
  shows "\<exists>pre c rest. fs = pre @ (cu_file cur, c) # rest \<and> cu_offset cur \<le> length c \<and>
    records_from codec f start fs = pg_items page @ records_from codec f (Some (cu_offset cur)) ((cu_file cur, c) # rest)"
  using assms by (auto simp: page_ok_def simp del: records_from.simps)

lemma log_pages_from:
  assumes "options_ok opt" "\<forall>i. directory_holds (ds i) (fss i)" "\<forall>i. log_grows (fss i) (fss (Suc i))"
    and "fss 0 = pre @ (n, c @ w) # older" "ro_cursor opt = Some \<lparr>cu_file = n, cu_offset = q\<rparr>" "q \<le> length c"
    and "remaining (Some q) ((n, c) # older) < fuel"
  shows "log_pages fuel codec ds opt = Some (records_from codec (ro_filter opt) (Some q) ((n, c) # older))"
  using assms
proof (induction fuel arbitrary: ds fss opt pre n c w older q)
  case (Suc fuel)
  let ?f = "ro_filter opt" and ?fs = "(n, c @ w) # older"
  have "directory_holds (ds 0) (pre @ ?fs)" using Suc.prems(2,4) by metis
  from read_page [OF Suc.prems(1) this] Suc.prems(5,6) obtain page where p: "read_log codec (ds 0) opt = Inr page" "page_ok codec ?f [] (Some q) ?fs page"
    "\<And>following c rest pre'. pg_next_cursor page = Some following \<Longrightarrow> ?fs = pre' @ (cu_file following, c) # rest \<Longrightarrow> cu_offset following \<le> length c \<Longrightarrow>
       remaining (Some (cu_offset following)) ((cu_file following, c) # rest) < remaining (Some q) ?fs"
    by auto
  have same: "records_from codec ?f (Some q) ?fs = records_from codec ?f (Some q) ((n, c) # older)"
    "remaining (Some q) ?fs = remaining (Some q) ((n, c) # older)" using Suc.prems(6) by (simp_all add: records_below_append)
  show ?case
  proof (cases "pg_next_cursor page")
    case None
    then show ?thesis using p(1,2) same(1) by (simp add: page_ok_def)
  next
    case (Some following)
    then obtain pre' c' rest where r: "?fs = pre' @ (cu_file following, c') # rest" "cu_offset following \<le> length c'"
      "records_from codec ?f (Some q) ?fs = pg_items page @ records_from codec ?f (Some (cu_offset following)) ((cu_file following, c') # rest)"
      using page_ok_cursor [OF p(2) Some] by blast
    have "fss 0 = (pre @ pre') @ (cu_file following, c' @ []) # rest" using Suc.prems(4) r(1) by simp
    from grows_kept [OF _ this] Suc.prems(3) obtain pre2 w2 where g: "fss (Suc 0) = pre2 @ (cu_file following, c' @ w2) # rest" by blast
    have opt: "options_ok (opt\<lparr>ro_cursor := Some following\<rparr>)" using Suc.prems(1) by (simp add: options_ok_def)
    have "log_pages fuel codec (\<lambda>i. ds (Suc i)) (opt\<lparr>ro_cursor := Some following\<rparr>) =
        Some (records_from codec (ro_filter (opt\<lparr>ro_cursor := Some following\<rparr>)) (Some (cu_offset following)) ((cu_file following, c') # rest))"
      by (rule Suc.IH [where fss = "\<lambda>i. fss (Suc i)", OF opt _ _ g]) (use Suc.prems(2,3,7) r(2) p(3) [OF Some r(1,2)] same(2) in auto)
    then show ?thesis using p(1) Some r(3) same(1) by simp
  qed
qed simp

text \<open>C8: Whatever the writer does meanwhile, a client that asks for the newest page of the operation log and follows
  the cursors is answered without an error, reaches the end after at most as many pages as the log had bytes and files,
  and has then got exactly the records of the log at its first question that pass the filter, each once and the newest first.\<close>

theorem log_pages_list_every_record:
  assumes "options_ok opt" "ro_cursor opt = None" "\<forall>i. directory_holds (ds i) (fss i)" "\<forall>i. log_grows (fss i) (fss (Suc i))"
  shows "log_pages (Suc (remaining None (fss 0))) codec ds opt = Some (all_records codec (ro_filter opt) (fss 0))"
proof -
  let ?f = "ro_filter opt"
  have "directory_holds (ds 0) ([] @ fss 0)" using assms(3) by simp
  from read_page [OF assms(1) this] assms(2) obtain page where p: "read_log codec (ds 0) opt = Inr page" "page_ok codec ?f [] None (fss 0) page"
    "\<And>following c rest pre'. pg_next_cursor page = Some following \<Longrightarrow> fss 0 = pre' @ (cu_file following, c) # rest \<Longrightarrow> cu_offset following \<le> length c \<Longrightarrow>
       remaining (Some (cu_offset following)) ((cu_file following, c) # rest) < remaining None (fss 0)"
    by auto
  show ?thesis
  proof (cases "pg_next_cursor page")
    case None
    then show ?thesis using p(1,2) by (simp add: page_ok_def records_from_None)
  next
    case (Some following)
    obtain pre' c' rest where r: "fss 0 = pre' @ (cu_file following, c' @ []) # rest" "cu_offset following \<le> length c'"
      "records_from codec ?f None (fss 0) = pg_items page @ records_from codec ?f (Some (cu_offset following)) ((cu_file following, c') # rest)"
      using page_ok_cursor [OF p(2) Some] by (metis append_Nil2)
    from grows_kept [OF _ r(1)] assms(4) obtain pre2 w2 where g: "fss (Suc 0) = pre2 @ (cu_file following, c' @ w2) # rest" by blast
    have opt: "options_ok (opt\<lparr>ro_cursor := Some following\<rparr>)" using assms(1) by (simp add: options_ok_def)
    have "log_pages (remaining None (fss 0)) codec (\<lambda>i. ds (Suc i)) (opt\<lparr>ro_cursor := Some following\<rparr>) =
        Some (records_from codec (ro_filter (opt\<lparr>ro_cursor := Some following\<rparr>)) (Some (cu_offset following)) ((cu_file following, c') # rest))"
      by (rule log_pages_from [where fss = "\<lambda>i. fss (Suc i)", OF opt _ _ g]) (use assms(3,4) r(2) p(3) [OF Some _ r(2)] r(1) in auto)
    then show ?thesis using p(1) Some r(3) by (simp add: records_from_None)
  qed
qed

section \<open>An example\<close>

text \<open>A record whose message is its line; lines that begin with \<open>!\<close> are no records.\<close>

definition line_record :: "string \<Rightarrow> log_record" where
  "line_record line = \<lparr>lr_timestamp = [], lr_operation_id = ''o'', lr_boot_id = ''b'', lr_kind = ''k'', lr_source = ''s'', lr_title = [],
     lr_event = ''step'', lr_level = Level_Info, lr_message = line, lr_project_id = None, lr_resource = None, lr_outcome = None,
     lr_completed = None, lr_total = None\<rparr>"

definition line_codec :: log_codec where
  "line_codec = \<lparr>lc_encode = (\<lambda>r. Inr (lr_message r)),
     lc_decode = (\<lambda>line. if take 1 line = ''!'' then None else Some (line_record line))\<rparr>"

definition sample_files :: "(string \<times> string) list" where
  "sample_files = [(''operations.2026-01-02-04.log'', ''c'' @ [line_feed] @ ''torn''), (''operations.2026-01-02-03.log'', ''a'' @ [line_feed] @ ''!'' @ [line_feed])]"

definition sample_directory :: log_directory where
  "sample_directory = \<lparr>ld_entries = Inr (map (\<lambda>(n, _). (n, True)) (rev sample_files)),
     ld_open = (\<lambda>n. case map_of sample_files n of Some c \<Rightarrow> Inr c | None \<Rightarrow> Inl Not_Found)\<rparr>"

definition sample_options :: read_options where
  "sample_options = \<lparr>ro_cursor = None, ro_filter = \<lparr>fi_query = None, fi_operation_id = None, fi_kind = Some ''k'', fi_source = None,
     fi_project_id = None, fi_level = None\<rparr>, ro_limit = 1, ro_scan_bytes = DEFAULT_SCAN_BYTES\<rparr>"

lemma sample_directory_holds: "directory_holds sample_directory sample_files"
proof -
  have "log_file_name (fst f)" if "f \<in> set sample_files" for f
    using that by (auto simp: sample_files_def log_file_name_def is_digit_def byte_of_def path_components_def split_char_def Let_def)
  then show ?thesis
    by (auto simp: directory_holds_def log_files_def sample_directory_def sample_files_def)
qed

lemma sample_options_ok: "options_ok sample_options" "ro_cursor sample_options = None"
  by (simp_all add: options_ok_def sample_options_def MIN_SCAN_BYTES_def MAX_RECORD_BYTES_def MAX_SCAN_BYTES_def DEFAULT_SCAN_BYTES_def)

lemma sample_records:
  "all_records line_codec (ro_filter sample_options) sample_files = [line_record ''c'', line_record ''a'']"
  "remaining None sample_files = 12"
  by (simp_all add: all_records_def sample_files_def records_below_def split_char_def kept_def line_codec_def line_record_def line_feed_def
    sample_options_def filter_matches_def MAX_RECORD_BYTES_def)

theorem log_pages_list_every_record_witness:
  "log_pages 13 line_codec (\<lambda>_. sample_directory) sample_options = Some [line_record ''c'', line_record ''a'']"
proof -
  have "log_grows sample_files sample_files" by (auto simp: log_grows_def sample_files_def)
  then show ?thesis
    using log_pages_list_every_record [of sample_options "\<lambda>_. sample_directory" "\<lambda>_. sample_files" line_codec] sample_directory_holds sample_options_ok sample_records by simp
qed

section \<open>What the writer appends\<close>

lemma records_below_last:
  assumes "line_feed \<notin> set u" "c = [] \<or> last c = line_feed"
  shows "records_below codec f (c @ u @ [line_feed]) (length (c @ u @ [line_feed])) = kept codec f u @ records_below codec f c (length c)"
proof -
  have "c = [] \<or> (c @ u @ [line_feed]) ! (length c - 1) = line_feed" using assms(2) by (cases "c = []") (auto simp: nth_append last_conv_nth)
  then have "records_below codec f (c @ u @ [line_feed]) (Suc (length (c @ u))) =
      kept codec f u @ records_below codec f (c @ u @ [line_feed]) (length c)"
    using records_below_feed [of "c @ u @ [line_feed]" "length (c @ u)" "length c" codec f] assms(1) by (auto simp: nth_append)
  then show ?thesis by (simp add: records_below_append)
qed

lemma records_below_separated:
  "\<exists>left. length left \<le> 1 \<and> records_below codec f (c @ [line_feed]) (Suc (length c)) = left @ records_below codec f c (length c)"
proof -
  let ?g = "split_groups (\<lambda>x. x = line_feed)"
  have "?g (c @ [line_feed]) = ?g c @ [[]]" by (subst split_groups_append) simp_all
  then have "butlast (?g (c @ [line_feed])) = ?g c" by simp
  also have "\<dots> = butlast (?g c) @ [last (?g c)]" using split_groups_nonempty by (metis append_butlast_last_id)
  finally have "butlast (?g (c @ [line_feed])) = butlast (?g c) @ [last (?g c)]" .
  then have "records_below codec f (c @ [line_feed]) (Suc (length c)) = kept codec f (last (?g c)) @ records_below codec f c (length c)"
    by (simp add: records_below_def split_char_def del: append_butlast_last_id)
  moreover have "length (kept codec f (last (?g c))) \<le> 1" by (simp add: kept_def split: option.split)
  ultimately show ?thesis by blast
qed

text \<open>A record that the writer appends to a file it has opened, after whatever a torn write has left there, is the
  first record that the reader finds in it, and every record found before is found as before; at most the torn line is
  read as one more.\<close>

lemma appended_record_is_read_first:
  assumes "lc_encode codec r = Inr bytes" "line_feed \<notin> set bytes" "lc_decode codec bytes = Some r"
    and "writer_open retained (Some torn) = Inr (Some content)" "writer_append codec r content = Inr content'"
  shows "\<exists>left. length left \<le> 1 \<and> records_below codec f content' (length content') =
      (if filter_matches f r then [r] else []) @ left @ records_below codec f torn (length torn)"
proof -
  have a: "length bytes + 1 \<le> MAX_RECORD_BYTES" "content' = content @ bytes @ [line_feed]"
    using assms(1,5) by (auto simp: writer_append_def split: if_splits)
  have o: "content = torn \<and> (torn = [] \<or> last torn = line_feed) \<or> content = torn @ [line_feed]"
    using assms(4) by (auto simp: writer_open_def split: if_splits)
  then have "\<exists>left. length left \<le> 1 \<and> records_below codec f content (length content) = left @ records_below codec f torn (length torn)"
    using records_below_separated [of codec f torn] by (auto intro: exI [of _ "[]"])
  moreover have "kept codec f bytes = (if filter_matches f r then [r] else [])" using a(1) assms(3) by (simp add: kept_def)
  moreover have "records_below codec f content' (length content') = kept codec f bytes @ records_below codec f content (length content)"
    unfolding a(2) by (rule records_below_last [OF assms(2)]) (use o in auto)
  ultimately show ?thesis by auto
qed

lemma appended_record_is_read_first_witness:
  "\<exists>left. length left \<le> 1 \<and>
     records_below line_codec (ro_filter sample_options) (''!x'' @ [line_feed] @ ''b'' @ [line_feed]) 5 =
       [line_record ''b''] @ left @ records_below line_codec (ro_filter sample_options) ''!x'' 2"
proof -
  have w: "writer_open 1 (Some ''!x'') = Inr (Some (''!x'' @ [line_feed]))"
    "writer_append line_codec (line_record ''b'') (''!x'' @ [line_feed]) = Inr (''!x'' @ [line_feed] @ ''b'' @ [line_feed])"
    "lc_encode line_codec (line_record ''b'') = Inr ''b''" "line_feed \<notin> set ''b''" "lc_decode line_codec ''b'' = Some (line_record ''b'')"
    "filter_matches (ro_filter sample_options) (line_record ''b'')"
    by (simp_all add: writer_open_def writer_append_def line_codec_def line_record_def line_feed_def MAX_RECORD_BYTES_def filter_matches_def
      sample_options_def)
  from appended_record_is_read_first [OF w(3,4,5,1,2), of "ro_filter sample_options"] w(6) show ?thesis by (simp add: eval_nat_numeral)
qed

end
