(* ===== verification/Op_Service.thy ===== *)
theory Op_Service
  imports Op_Log
begin

text \<open>
  The live operations of the server (\<open>crates/server/src/operations\<close>): tasks that take time report their progress and
  their outcome here; every change is published as a snapshot to the browsers that watch, and written to the operation log
  by a worker thread with a bounded queue. Instants and timestamps are arguments of the steps. \<open>begin\<close> takes the
  lock twice, to add the entry and to publish it; here that is one step, and what others see in between is not modelled.
\<close>

section \<open>Operations and snapshots\<close>

record operation =
  op_id :: string
  op_kind :: string
  op_source :: string
  op_title :: string
  op_project_id :: "string option"
  op_resource :: "string option"
  op_created_at :: string
  op_message :: string
  op_completed :: nat
  op_total :: "nat option"
  op_outcome :: "op_outcome option"

record op_spec =
  sp_id :: string
  sp_kind :: string
  sp_source :: string
  sp_title :: string
  sp_project_id :: "string option"
  sp_resource :: "string option"
  sp_total :: "nat option"

record op_entry =
  en_operation :: operation
  en_finished :: "nat option"

record op_snapshot =
  on_boot_id :: string
  on_revision :: nat
  on_operations :: "operation list"
  on_log_error :: "string option"

record op_runtime =
  or_boot_id :: string
  or_revision :: nat
  or_entries :: "op_entry list"
  or_log_error :: "string option"

text \<open>In milliseconds.\<close>

definition RECENT_TTL :: nat where
  "RECENT_TTL = 300 * 1000"

definition RECENT_LIMIT :: nat where
  "RECENT_LIMIT = 50"

definition is_finished :: "op_entry \<Rightarrow> bool" where
  "is_finished e \<longleftrightarrow> en_finished e \<noteq> None"

text \<open>\<open>min_by_key\<close>: the first of the finished entries with the earliest completion.\<close>

fun oldest_finished :: "op_entry list \<Rightarrow> (nat \<times> nat) option" where
  "oldest_finished [] = None"
| "oldest_finished (e # es) =
     (let rest = map_option (\<lambda>(i, t). (Suc i, t)) (oldest_finished es)
      in case en_finished e of
           None \<Rightarrow> rest
         | Some at_ \<Rightarrow> (case rest of Some (i, t) \<Rightarrow> if t < at_ then Some (i, t) else Some (0, at_) | None \<Rightarrow> Some (0, at_)))"

lemma oldest_finished_None: "oldest_finished es = None \<longleftrightarrow> filter is_finished es = []"
  by (induction es) (auto simp: is_finished_def Let_def split: option.splits if_splits)

lemma oldest_finished_Some:
  "oldest_finished es = Some (i, t) \<Longrightarrow>
     i < length es \<and> en_finished (es ! i) = Some t \<and> (\<forall>e\<in>set es. case en_finished e of None \<Rightarrow> True | Some s \<Rightarrow> t \<le> s)"
proof (induction es arbitrary: i t)
  case (Cons e es)
  show ?case
  proof (cases "oldest_finished es")
    case None
    moreover have "en_finished x = None" if "x \<in> set es" for x
      using oldest_finished_None [of es] None that by (auto simp: filter_empty_conv is_finished_def)
    ultimately show ?thesis using Cons.prems by (auto simp: Let_def split: option.splits)
  next
    case (Some r)
    obtain j s where r: "r = (j, s)" by (cases r)
    from Cons.IH [OF Some [unfolded r]] Cons.prems Some r show ?thesis
      by (cases "en_finished e") (force simp: Let_def split: if_splits option.splits)+
  qed
qed simp

function drop_oldest :: "op_entry list \<Rightarrow> op_entry list" where
  "drop_oldest es =
     (if RECENT_LIMIT < length (filter is_finished es)
      then (case oldest_finished es of Some (i, _) \<Rightarrow> drop_oldest (vec_remove i es) | None \<Rightarrow> es)
      else es)"
  by pat_completeness auto

termination
  by (relation "measure length") (auto dest!: oldest_finished_Some simp: vec_remove_def)

declare drop_oldest.simps [simp del]

definition runtime_snapshot :: "nat \<Rightarrow> op_runtime \<Rightarrow> op_snapshot \<times> op_runtime" where
  "runtime_snapshot now rt =
     (let entries = filter (\<lambda>e. case en_finished e of None \<Rightarrow> True | Some t \<Rightarrow> now - t < RECENT_TTL) (or_entries rt);
          rt = rt\<lparr>or_entries := drop_oldest entries\<rparr>
      in (\<lparr>on_boot_id = or_boot_id rt, on_revision = or_revision rt, on_operations = map en_operation (or_entries rt),
           on_log_error = or_log_error rt\<rparr>, rt))"

section \<open>The service\<close>

text \<open>A record on its way to the log, with whether the sender waits for it to be written.\<close>

record log_entry =
  le_record :: log_record
  le_awaited :: bool

text \<open>The runtime behind its lock, the value of the watch channel and the queue of the log worker, if there is one.\<close>

record op_service =
  os_runtime :: op_runtime
  os_changes :: op_snapshot
  os_queue :: "log_entry list option"

definition QUEUE_LIMIT :: nat where
  "QUEUE_LIMIT = 1024"

definition runtime_new :: "string \<Rightarrow> op_runtime" where
  "runtime_new boot = \<lparr>or_boot_id = boot, or_revision = 0, or_entries = [], or_log_error = None\<rparr>"

definition service_new :: "nat \<Rightarrow> string \<Rightarrow> bool \<Rightarrow> op_service" where
  "service_new now boot persistent =
     (let (snapshot, rt) = runtime_snapshot now (runtime_new boot)
      in \<lparr>os_runtime = rt, os_changes = snapshot, os_queue = (if persistent then Some [] else None)\<rparr>)"

text \<open>\<open>revision += 1\<close> and \<open>send_replace\<close> of the snapshot.\<close>

definition publish_change :: "nat \<Rightarrow> op_service \<Rightarrow> op_service" where
  "publish_change now sv =
     (let rt = os_runtime sv; (snapshot, rt) = runtime_snapshot now (rt\<lparr>or_revision := Suc (or_revision rt)\<rparr>)
      in sv\<lparr>os_runtime := rt, os_changes := snapshot\<rparr>)"

fun boundary_below :: "string \<Rightarrow> nat \<Rightarrow> nat" where
  "boundary_below s 0 = 0"
| "boundary_below s (Suc n) = (if is_boundary s (Suc n) then Suc n else boundary_below s n)"

definition ellipsis :: string where
  "ellipsis = [CHR 0xE2, CHR 0x80, CHR 0xA6]"

definition bounded :: "string \<Rightarrow> nat \<Rightarrow> string" where
  "bounded s limit = (if length s \<le> limit then s else take (boundary_below s limit) s @ ellipsis)"

definition update_operation :: "nat \<Rightarrow> string \<Rightarrow> string \<Rightarrow> string \<Rightarrow> log_level \<Rightarrow> string \<Rightarrow> nat option \<Rightarrow> op_outcome option \<Rightarrow> string option
    \<Rightarrow> op_service \<Rightarrow> op_service" where
  "update_operation now timestamp ident event level message completed outcome resource sv =
     (let rt = os_runtime sv
      in case find (\<lambda>e. op_id (en_operation e) = ident) (or_entries rt) of
           None \<Rightarrow> sv
         | Some entry \<Rightarrow>
             if is_finished entry then sv
             else
               (let change = (\<lambda>operation. operation\<lparr>op_message := bounded message 8192,
                      op_completed := (case completed of Some n \<Rightarrow> n | None \<Rightarrow> op_completed operation),
                      op_resource := (case resource of Some r \<Rightarrow> Some (bounded r 4096) | None \<Rightarrow> op_resource operation),
                      op_outcome := outcome\<rparr>);
                    operation = change (en_operation entry);
                    rt = rt\<lparr>or_entries := update_first (\<lambda>e. op_id (en_operation e) = ident)
                           (\<lambda>e. e\<lparr>en_operation := operation, en_finished := (if outcome \<noteq> None then Some now else en_finished e)\<rparr>) (or_entries rt)\<rparr>;
                    r = \<lparr>lr_timestamp = timestamp, lr_operation_id = ident, lr_boot_id = or_boot_id rt, lr_kind = op_kind operation,
                      lr_source = op_source operation, lr_title = op_title operation, lr_event = event, lr_level = level,
                      lr_message = op_message operation, lr_project_id = op_project_id operation, lr_resource = op_resource operation,
                      lr_outcome = outcome, lr_completed = Some (op_completed operation), lr_total = op_total operation\<rparr>;
                    sv = (case os_queue sv of
                        None \<Rightarrow> sv\<lparr>os_runtime := rt\<rparr>
                      | Some q \<Rightarrow>
                          if length q < QUEUE_LIMIT
                          then sv\<lparr>os_runtime := rt, os_queue := Some (q @ [\<lparr>le_record = r, le_awaited = False\<rparr>])\<rparr>
                          else sv\<lparr>os_runtime := rt\<lparr>or_log_error :=
                                 Some ''server.operation_log_queue_is_full_or_unavailable_some_records''\<rparr>\<rparr>)
                in publish_change now sv))"

definition begin_operation :: "nat \<Rightarrow> string \<Rightarrow> string \<Rightarrow> op_spec \<Rightarrow> op_service \<Rightarrow> op_service" where
  "begin_operation now timestamp created_at spec sv =
     (let operation = \<lparr>op_id = sp_id spec, op_kind = sp_kind spec, op_source = sp_source spec, op_title = bounded (sp_title spec) 256,
            op_project_id = map_option (\<lambda>v. bounded v 256) (sp_project_id spec),
            op_resource = map_option (\<lambda>v. bounded v 4096) (sp_resource spec), op_created_at = created_at,
            op_message = ''server.queued'', op_completed = 0, op_total = sp_total spec, op_outcome = None\<rparr>;
          rt = os_runtime sv;
          sv = sv\<lparr>os_runtime := rt\<lparr>or_entries := or_entries rt @ [\<lparr>en_operation = operation, en_finished = None\<rparr>]\<rparr>\<rparr>
      in update_operation now timestamp (sp_id spec) ''started'' Level_Info ''server.operation_accepted'' None None None sv)"

text \<open>The calls on a handle; dropping the last one reports an interruption.\<close>

definition handle_progress :: "nat \<Rightarrow> string \<Rightarrow> string \<Rightarrow> string \<Rightarrow> nat option \<Rightarrow> op_service \<Rightarrow> op_service" where
  "handle_progress now timestamp ident message completed =
     update_operation now timestamp ident ''progress'' Level_Info message completed None None"

definition handle_event :: "nat \<Rightarrow> string \<Rightarrow> string \<Rightarrow> log_level \<Rightarrow> string \<Rightarrow> nat option \<Rightarrow> op_service \<Rightarrow> op_service" where
  "handle_event now timestamp ident level message completed =
     update_operation now timestamp ident ''step'' level message completed None None"

definition handle_resource :: "nat \<Rightarrow> string \<Rightarrow> string \<Rightarrow> string \<Rightarrow> op_service \<Rightarrow> op_service" where
  "handle_resource now timestamp ident resource =
     update_operation now timestamp ident ''resource'' Level_Info ''server.associated_resource_updated'' None None (Some resource)"

definition outcome_level :: "op_outcome \<Rightarrow> log_level" where
  "outcome_level outcome = (case outcome of Op_Succeeded \<Rightarrow> Level_Info | Op_Failed \<Rightarrow> Level_Error | _ \<Rightarrow> Level_Warn)"

definition handle_finish :: "nat \<Rightarrow> string \<Rightarrow> string \<Rightarrow> op_outcome \<Rightarrow> string \<Rightarrow> op_service \<Rightarrow> op_service" where
  "handle_finish now timestamp ident outcome message =
     update_operation now timestamp ident ''finished'' (outcome_level outcome) message None (Some outcome) None"

definition handle_drop :: "nat \<Rightarrow> string \<Rightarrow> string \<Rightarrow> op_service \<Rightarrow> op_service" where
  "handle_drop now timestamp ident =
     update_operation now timestamp ident ''finished'' Level_Warn
       ''server.execution_interrupted_result_unconfirmed_check_resource_state'' None (Some Op_Interrupted) None"

text \<open>The worker thread writes the first record of the queue; \<open>written\<close> is whether the writer succeeded. The result
  goes to the sender if it waits.\<close>

definition worker_step :: "nat \<Rightarrow> bool \<Rightarrow> op_service \<Rightarrow> (log_entry \<times> op_service) option" where
  "worker_step now written sv =
     (case os_queue sv of
        Some (e # q) \<Rightarrow>
          (let sv = sv\<lparr>os_queue := Some q\<rparr>; rt = os_runtime sv
           in Some (e, if written then sv
                else publish_change now
                  (sv\<lparr>os_runtime := rt\<lparr>or_log_error := Some ''server.failed_to_write_operation_log_some_records_may_be''\<rparr>\<rparr>)))
      | _ \<Rightarrow> None)"

text \<open>An audit record of its own: it is sent when the queue has room, and its sender waits for the result.\<close>

definition record_send :: "log_record \<Rightarrow> op_service \<Rightarrow> op_service option" where
  "record_send r sv =
     (case os_queue sv of
        None \<Rightarrow> Some sv
      | Some q \<Rightarrow>
          if length q < QUEUE_LIMIT
          then Some (sv\<lparr>os_queue := Some (q @ [\<lparr>le_record = r\<lparr>lr_boot_id := or_boot_id (os_runtime sv)\<rparr>, le_awaited = True\<rparr>])\<rparr>)
          else None)"

definition record_done :: "nat \<Rightarrow> bool \<Rightarrow> op_service \<Rightarrow> op_service" where
  "record_done now persisted sv =
     (let rt = os_runtime sv
      in publish_change now
        (if persisted then sv
         else sv\<lparr>os_runtime := rt\<lparr>or_log_error := Some ''server.failed_to_write_audit_log_some_records_may_be''\<rparr>\<rparr>))"

text \<open>Reading the current snapshot prunes as well, but publishes nothing.\<close>

definition service_snapshot :: "nat \<Rightarrow> op_service \<Rightarrow> op_snapshot \<times> op_service" where
  "service_snapshot now sv = (let (snapshot, rt) = runtime_snapshot now (os_runtime sv) in (snapshot, sv\<lparr>os_runtime := rt\<rparr>))"

section \<open>What pruning keeps\<close>

lemma filter_vec_remove: "i < length es \<Longrightarrow> p (es ! i) \<Longrightarrow> filter p es = filter p (take i es) @ es ! i # filter p (drop (Suc i) es)"
  by (subst id_take_nth_drop [of i es]) (auto simp del: append_take_drop_id)

lemma drop_oldest_induct [case_names drop stop]:
  assumes "\<And>es i t. RECENT_LIMIT < length (filter is_finished es) \<Longrightarrow> oldest_finished es = Some (i, t) \<Longrightarrow> drop_oldest es = drop_oldest (vec_remove i es) \<Longrightarrow>
      P (vec_remove i es) \<Longrightarrow> P es"
    and "\<And>es. length (filter is_finished es) \<le> RECENT_LIMIT \<Longrightarrow> drop_oldest es = es \<Longrightarrow> P es"
  shows "P es"
proof (induction es rule: drop_oldest.induct)
  case (1 es)
  show ?case
  proof (cases "RECENT_LIMIT < length (filter is_finished es)")
    case True
    then have "filter is_finished es \<noteq> []" by auto
    then obtain i t where o: "oldest_finished es = Some (i, t)" using oldest_finished_None [of es] by (cases "oldest_finished es") auto
    with True have "drop_oldest es = drop_oldest (vec_remove i es)" by (subst drop_oldest.simps) simp
    from assms(1) [OF True o this] 1 [OF True o refl] show ?thesis by simp
  next
    case False
    then have "drop_oldest es = es" by (subst drop_oldest.simps) simp
    with assms(2) False show ?thesis by simp
  qed
qed

lemma removed_finished:
  assumes "oldest_finished es = Some (i, t)"
  shows "filter (\<lambda>e. \<not> is_finished e) (vec_remove i es) = filter (\<lambda>e. \<not> is_finished e) es"
    and "Suc (length (filter is_finished (vec_remove i es))) = length (filter is_finished es)"
proof -
  have i: "i < length es" "is_finished (es ! i)" using oldest_finished_Some [OF assms] by (auto simp: is_finished_def)
  then show "Suc (length (filter is_finished (vec_remove i es))) = length (filter is_finished es)"
    using filter_vec_remove [of i es is_finished] by (simp add: vec_remove_def)
  have "filter (\<lambda>e. \<not> is_finished e) es = filter (\<lambda>e. \<not> is_finished e) (take i es @ es ! i # drop (Suc i) es)"
    using id_take_nth_drop [OF i(1)] by simp
  then show "filter (\<lambda>e. \<not> is_finished e) (vec_remove i es) = filter (\<lambda>e. \<not> is_finished e) es" using i(2) by (simp add: vec_remove_def)
qed

lemma drop_oldest_running: "filter (\<lambda>e. \<not> is_finished e) (drop_oldest es) = filter (\<lambda>e. \<not> is_finished e) es"
  by (induction es rule: drop_oldest_induct) (simp_all add: removed_finished)

lemma drop_oldest_subset: "set (drop_oldest es) \<subseteq> set es"
  by (induction es rule: drop_oldest_induct) (use set_vec_remove in fastforce)+

lemma drop_oldest_distinct: "distinct (map f es) \<Longrightarrow> distinct (map f (drop_oldest es))"
  by (induction es rule: drop_oldest_induct) (simp_all add: map_vec_remove distinct_vec_remove)

lemma drop_oldest_length: "length (filter is_finished (drop_oldest es)) = min (length (filter is_finished es)) RECENT_LIMIT"
proof (induction es rule: drop_oldest_induct)
  case (drop es i t)
  then show ?case using removed_finished(2) [OF drop(2)] by simp
qed simp

text \<open>What is dropped has finished no later than the fifty results that stay.\<close>

lemma drop_oldest_kept:
  "e \<in> set es \<Longrightarrow> e \<notin> set (drop_oldest es) \<Longrightarrow>
     \<exists>t. en_finished e = Some t \<and> length (filter is_finished (drop_oldest es)) = RECENT_LIMIT \<and>
       (\<forall>k\<in>set (drop_oldest es). case en_finished k of None \<Rightarrow> True | Some s \<Rightarrow> t \<le> s)"
proof (induction es rule: drop_oldest_induct)
  case (drop es i t)
  have i: "i < length es" "en_finished (es ! i) = Some t" "\<forall>e\<in>set es. case en_finished e of None \<Rightarrow> True | Some s \<Rightarrow> t \<le> s"
    using oldest_finished_Some [OF drop(2)] by simp_all
  show ?case
  proof (cases "e \<in> set (vec_remove i es)")
    case True
    with drop show ?thesis by simp
  next
    case False
    have "e = es ! i"
    proof (rule ccontr)
      assume "e \<noteq> es ! i"
      then have "e \<in> set (take i es @ drop (Suc i) es)" using drop(5) vec_remove_split [OF i(1)] by (metis in_set_conv_decomp insertE list.set(2) set_append Un_iff)
      with False show False by (simp add: vec_remove_def)
    qed
    moreover have "length (filter is_finished (drop_oldest es)) = RECENT_LIMIT" using drop(1) by (simp add: drop_oldest_length)
    moreover have "set (drop_oldest es) \<subseteq> set es" by (rule drop_oldest_subset)
    ultimately show ?thesis using i by auto
  qed
qed simp

section \<open>The service over time\<close>

text \<open>One call on the service with the identifiers given out so far; identifiers are never given out twice. The calls on
  handles are updates. The clock is read at every call.\<close>

inductive op_step :: "string set \<times> op_service \<Rightarrow> string set \<times> op_service \<Rightarrow> bool" where
  begun: "sp_id spec \<notin> used \<Longrightarrow> op_step (used, sv) (insert (sp_id spec) used, begin_operation now timestamp created_at spec sv)"
| updated: "op_step (used, sv) (used, update_operation now timestamp ident event level message completed outcome resource sv)"
| worked: "worker_step now written sv = Some (e, sv') \<Longrightarrow> op_step (used, sv) (used, sv')"
| sent: "record_send r sv = Some sv' \<Longrightarrow> op_step (used, sv) (used, sv')"
| recorded: "op_step (used, sv) (used, record_done now persisted sv)"
| snapshot_read: "service_snapshot now sv = (snapshot, sv') \<Longrightarrow> op_step (used, sv) (used, sv')"

abbreviation op_steps :: "string set \<times> op_service \<Rightarrow> string set \<times> op_service \<Rightarrow> bool" where
  "op_steps \<equiv> op_step\<^sup>*\<^sup>*"

abbreviation op_entries :: "op_service \<Rightarrow> op_entry list" where
  "op_entries sv \<equiv> or_entries (os_runtime sv)"

abbreviation entry_id :: "op_entry \<Rightarrow> string" where
  "entry_id e \<equiv> op_id (en_operation e)"

text \<open>The entries after pruning at some instant.\<close>

definition pruned :: "nat \<Rightarrow> op_entry list \<Rightarrow> op_entry list" where
  "pruned now es = drop_oldest (filter (\<lambda>e. case en_finished e of None \<Rightarrow> True | Some t \<Rightarrow> now - t < RECENT_TTL) es)"

lemma runtime_snapshot_pruned:
  "runtime_snapshot now rt = (\<lparr>on_boot_id = or_boot_id rt, on_revision = or_revision rt, on_operations = map en_operation (pruned now (or_entries rt)),
     on_log_error = or_log_error rt\<rparr>, rt\<lparr>or_entries := pruned now (or_entries rt)\<rparr>)"
  by (simp add: runtime_snapshot_def pruned_def Let_def)

lemma publish_change_entries [simp]:
  "op_entries (publish_change now sv) = pruned now (op_entries sv)"
  "on_operations (os_changes (publish_change now sv)) = map en_operation (pruned now (op_entries sv))"
  by (simp_all add: publish_change_def runtime_snapshot_pruned Let_def)

lemma pruned_subset: "set (pruned now es) \<subseteq> set es"
  using drop_oldest_subset unfolding pruned_def by fastforce

lemma pruned_distinct: "distinct (map f es) \<Longrightarrow> distinct (map f (pruned now es))"
  by (simp add: pruned_def drop_oldest_distinct distinct_map_filter)

lemma pruned_running: "e \<in> set es \<Longrightarrow> \<not> is_finished e \<Longrightarrow> e \<in> set (pruned now es)"
proof -
  assume e: "e \<in> set es" "\<not> is_finished e"
  let ?es = "filter (\<lambda>e. case en_finished e of None \<Rightarrow> True | Some t \<Rightarrow> now - t < RECENT_TTL) es"
  have "e \<in> set (filter (\<lambda>e. \<not> is_finished e) (drop_oldest ?es))"
    unfolding drop_oldest_running using e by (simp add: is_finished_def)
  then show ?thesis by (simp add: pruned_def)
qed

lemma pruned_bounded: "length (filter is_finished (pruned now es)) \<le> RECENT_LIMIT"
  by (simp add: pruned_def drop_oldest_length)

text \<open>The entry with an identifier after an update.\<close>

definition op_changed :: "string \<Rightarrow> op_entry list \<Rightarrow> op_entry list \<Rightarrow> bool" where
  "op_changed ident es es' \<longleftrightarrow> es' = es \<or>
     (\<exists>g. (\<forall>e. entry_id e = ident \<longrightarrow> entry_id (g e) = ident) \<and>
        (\<forall>e. \<not> is_finished e \<longrightarrow> (is_finished (g e) \<longleftrightarrow> op_outcome (en_operation (g e)) \<noteq> None)) \<and> es' = update_first (\<lambda>e. entry_id e = ident) g es \<and>
        (\<exists>e\<in>set es. entry_id e = ident \<and> \<not> is_finished e \<and> find (\<lambda>e. entry_id e = ident) es = Some e))"

lemma update_operation_entries:
  "\<exists>es'. op_changed ident (op_entries sv) es' \<and>
     (update_operation now timestamp ident event level message completed outcome resource sv = sv \<or>
      op_entries (update_operation now timestamp ident event level message completed outcome resource sv) = pruned now es' \<and>
      on_operations (os_changes (update_operation now timestamp ident event level message completed outcome resource sv)) =
        map en_operation (pruned now es'))"
proof (cases "find (\<lambda>e. entry_id e = ident) (op_entries sv)")
  case None
  then show ?thesis by (auto simp: update_operation_def op_changed_def)
next
  case (Some entry)
  note mem = find_SomeD [OF Some]
  show ?thesis
  proof (cases "is_finished entry")
    case True
    then show ?thesis using Some by (auto simp: update_operation_def op_changed_def)
  next
    case False
    let ?op = "(en_operation entry)\<lparr>op_message := bounded message 8192,
        op_completed := (case completed of Some n \<Rightarrow> n | None \<Rightarrow> op_completed (en_operation entry)),
        op_resource := (case resource of Some r \<Rightarrow> Some (bounded r 4096) | None \<Rightarrow> op_resource (en_operation entry)), op_outcome := outcome\<rparr>"
    let ?g = "\<lambda>e. e\<lparr>en_operation := ?op, en_finished := (if outcome \<noteq> None then Some now else en_finished e)\<rparr>"
    let ?es = "update_first (\<lambda>e. entry_id e = ident) ?g (op_entries sv)"
    have "op_entries (update_operation now timestamp ident event level message completed outcome resource sv) = pruned now ?es"
      "on_operations (os_changes (update_operation now timestamp ident event level message completed outcome resource sv)) =
        map en_operation (pruned now ?es)"
      using Some False by (auto simp: update_operation_def Let_def split: option.split)
    moreover have "op_changed ident (op_entries sv) ?es"
      unfolding op_changed_def using mem False Some by (intro disjI2 exI [of _ ?g]) (auto simp: is_finished_def)
    ultimately show ?thesis by blast
  qed
qed

section \<open>The invariant\<close>

text \<open>Identifiers are used once, and the published snapshot has every running operation as it is and at most fifty results.\<close>

definition op_inv :: "string set \<times> op_service \<Rightarrow> bool" where
  "op_inv s \<longleftrightarrow> (case s of (used, sv) \<Rightarrow>
     distinct (map entry_id (op_entries sv)) \<and> entry_id ` set (op_entries sv) \<subseteq> used \<and>
     (\<forall>e\<in>set (op_entries sv). is_finished e \<longleftrightarrow> op_outcome (en_operation e) \<noteq> None) \<and>
     (\<forall>e\<in>set (op_entries sv). \<not> is_finished e \<longrightarrow> en_operation e \<in> set (on_operations (os_changes sv))) \<and>
     length (filter (\<lambda>operation. op_outcome operation \<noteq> None) (on_operations (os_changes sv))) \<le> RECENT_LIMIT)"

lemma filter_outcome:
  "\<forall>e\<in>set es. is_finished e \<longleftrightarrow> op_outcome (en_operation e) \<noteq> None \<Longrightarrow>
     length (filter (\<lambda>operation. op_outcome operation \<noteq> None) (map en_operation es)) = length (filter is_finished es)"
  by (induction es) auto

text \<open>Publishing restores what is said of the published snapshot.\<close>

lemma published_inv:
  assumes "distinct (map entry_id es)" "entry_id ` set es \<subseteq> used" "\<forall>e\<in>set es. is_finished e \<longleftrightarrow> op_outcome (en_operation e) \<noteq> None"
    and "op_entries sv = pruned now es" "on_operations (os_changes sv) = map en_operation (pruned now es)"
  shows "op_inv (used, sv)"
proof -
  have f: "\<forall>e\<in>set (pruned now es). is_finished e \<longleftrightarrow> op_outcome (en_operation e) \<noteq> None" using assms(3) pruned_subset by fastforce
  show ?thesis
    using assms(1,2,4,5) f pruned_distinct [of entry_id es now] pruned_subset [of now es] pruned_bounded [of now es] filter_outcome [OF f]
    unfolding op_inv_def by (auto simp: subset_iff image_subset_iff)
qed

text \<open>What an update leaves of the entries.\<close>

lemma op_changed_entries:
  assumes "op_changed ident es es'" "distinct (map entry_id es)" "\<forall>e\<in>set es. is_finished e \<longleftrightarrow> op_outcome (en_operation e) \<noteq> None"
  shows "map entry_id es' = map entry_id es" "\<forall>e\<in>set es'. is_finished e \<longleftrightarrow> op_outcome (en_operation e) \<noteq> None"
    and "\<forall>e'\<in>set es'. e' \<in> set es \<or> (\<exists>e\<in>set es. entry_id e = entry_id e' \<and> \<not> is_finished e)"
proof -
  show "map entry_id es' = map entry_id es" using assms(1) by (auto simp: op_changed_def map_update_first_key)
  have "e' \<in> set es \<or> (\<exists>g e. e' = g e \<and> e \<in> set es \<and> entry_id e = ident \<and> entry_id e' = ident \<and> \<not> is_finished e \<and>
      (is_finished e' \<longleftrightarrow> op_outcome (en_operation e') \<noteq> None))" if e': "e' \<in> set es'" for e'
  proof (cases "es' = es")
    case False
    then obtain g e0 where g: "\<forall>e. entry_id e = ident \<longrightarrow> entry_id (g e) = ident"
      "\<forall>e. \<not> is_finished e \<longrightarrow> (is_finished (g e) \<longleftrightarrow> op_outcome (en_operation (g e)) \<noteq> None)"
      "es' = update_first (\<lambda>e. entry_id e = ident) g es" "e0 \<in> set es" "entry_id e0 = ident" "\<not> is_finished e0"
      using assms(1) by (auto simp: op_changed_def)
    from set_update_firstD [OF e' [unfolded g(3)]] show ?thesis
    proof
      assume "\<exists>x\<in>set es. entry_id x = ident \<and> e' = g x"
      then obtain x where x: "x \<in> set es" "entry_id x = ident" "e' = g x" by blast
      then have "x = e0" using assms(2) g(4,5) by (auto simp: distinct_map dest: inj_onD)
      with x g show ?thesis by blast
    qed simp
  qed (use e' in simp)
  then show "\<forall>e\<in>set es'. is_finished e \<longleftrightarrow> op_outcome (en_operation e) \<noteq> None"
    "\<forall>e'\<in>set es'. e' \<in> set es \<or> (\<exists>e\<in>set es. entry_id e = entry_id e' \<and> \<not> is_finished e)"
    using assms(3) by metis+
qed

text \<open>What one step leaves of the entries: an entry is as before, or its operation is new or was running.\<close>

definition op_kept :: "string set \<Rightarrow> op_entry list \<Rightarrow> op_entry list \<Rightarrow> bool" where
  "op_kept used es es' \<longleftrightarrow>
     (\<forall>e'\<in>set es'. e' \<in> set es \<or> entry_id e' \<notin> used \<or> (\<exists>e\<in>set es. entry_id e = entry_id e' \<and> \<not> is_finished e))"

lemma update_step:
  assumes "distinct (map entry_id (op_entries sv))" "entry_id ` set (op_entries sv) \<subseteq> used"
    and "\<forall>e\<in>set (op_entries sv). is_finished e \<longleftrightarrow> op_outcome (en_operation e) \<noteq> None"
    and "sv' = update_operation now timestamp ident event level message completed outcome resource sv" "sv' \<noteq> sv \<or> op_inv (used, sv)"
  shows "op_inv (used, sv') \<and> op_kept used (op_entries sv) (op_entries sv')"
proof -
  obtain es' where es': "op_changed ident (op_entries sv) es'" "sv' = sv \<or>
      op_entries sv' = pruned now es' \<and> on_operations (os_changes sv') = map en_operation (pruned now es')"
    using update_operation_entries [of ident sv now timestamp event level message completed outcome resource] assms(4) by blast
  note c = op_changed_entries [OF es'(1) assms(1,3)]
  show ?thesis
  proof (cases "sv' = sv")
    case True
    with assms(5) show ?thesis by (simp add: op_kept_def)
  next
    case False
    have "entry_id ` set es' \<subseteq> used" using assms(2) c(1) by (metis image_set)
    with False es'(2) c assms(1) have "op_inv (used, sv')" by (intro published_inv [of es']) auto
    moreover have "op_kept used (op_entries sv) (op_entries sv')" using False es'(2) c(3) pruned_subset [of now es'] by (auto simp: op_kept_def subset_iff)
    ultimately show ?thesis by blast
  qed
qed

text \<open>Steps that only publish, or prune.\<close>

lemma publish_step:
  assumes "op_inv (used, sv)" "op_entries sv' = op_entries sv"
  shows "op_inv (used, publish_change now sv') \<and> op_kept used (op_entries sv) (op_entries (publish_change now sv'))"
proof -
  have "op_inv (used, publish_change now sv')"
    by (rule published_inv [of "op_entries sv"]) (use assms in \<open>auto simp: op_inv_def\<close>)
  moreover have "op_kept used (op_entries sv) (op_entries (publish_change now sv'))"
    using pruned_subset [of now "op_entries sv"] assms(2) by (auto simp: op_kept_def)
  ultimately show ?thesis by blast
qed

lemma find_snoc: "\<forall>x\<in>set xs. \<not> p x \<Longrightarrow> p y \<Longrightarrow> find p (xs @ [y]) = Some y"
  by (induction xs) auto

text \<open>Every update that has an effect is a new revision.\<close>

lemma update_operation_revision:
  assumes "find (\<lambda>e. entry_id e = ident) (op_entries sv) = Some entry" "\<not> is_finished entry"
  shows "or_revision (os_runtime (update_operation now timestamp ident event level message completed outcome resource sv)) =
    Suc (or_revision (os_runtime sv))"
  using assms by (auto simp: update_operation_def publish_change_def runtime_snapshot_pruned Let_def split: option.split)

lemma begin_step:
  assumes "op_inv (used, sv)" "sp_id spec \<notin> used"
  shows "op_inv (insert (sp_id spec) used, begin_operation now timestamp created_at spec sv) \<and>
    op_kept used (op_entries sv) (op_entries (begin_operation now timestamp created_at spec sv))"
proof -
  obtain entry sv1 where e: "begin_operation now timestamp created_at spec sv =
      update_operation now timestamp (sp_id spec) ''started'' Level_Info ''server.operation_accepted'' None None None sv1"
    "op_entries sv1 = op_entries sv @ [entry]" "entry_id entry = sp_id spec" "\<not> is_finished entry" "op_outcome (en_operation entry) = None"
    by (auto simp: begin_operation_def Let_def is_finished_def)
  have new: "\<forall>x\<in>set (op_entries sv). entry_id x \<noteq> sp_id spec" using assms by (auto simp: op_inv_def)
  have "find (\<lambda>e. entry_id e = sp_id spec) (op_entries sv1) = Some entry"
    unfolding e(2) by (rule find_snoc) (use new e(3) in auto)
  from update_operation_revision [OF this e(4)] have "update_operation now timestamp (sp_id spec) ''started'' Level_Info ''server.operation_accepted'' None None None sv1 \<noteq> sv1"
    by (metis n_not_Suc_n)
  then have "op_inv (insert (sp_id spec) used, begin_operation now timestamp created_at spec sv) \<and>
      op_kept (insert (sp_id spec) used) (op_entries sv1) (op_entries (begin_operation now timestamp created_at spec sv))"
    using assms(1) new e by (intro update_step) (auto simp: op_inv_def)
  then have k: "op_inv (insert (sp_id spec) used, begin_operation now timestamp created_at spec sv)"
    "op_kept (insert (sp_id spec) used) (op_entries sv1) (op_entries (begin_operation now timestamp created_at spec sv))" by auto
  have "op_kept used (op_entries sv) (op_entries (begin_operation now timestamp created_at spec sv))"
    using k(2) assms(2) e(2,3) unfolding op_kept_def by auto
  with k(1) show ?thesis by blast
qed

lemma op_step_inv:
  assumes "op_step (used, sv) (used', sv')" "op_inv (used, sv)"
  shows "op_inv (used', sv') \<and> op_kept used (op_entries sv) (op_entries sv') \<and> used \<subseteq> used'"
  using assms(1)
proof cases
  case (begun spec now timestamp created_at)
  then show ?thesis using begin_step [OF assms(2)] by auto
next
  case (updated now timestamp ident event level message completed outcome resource)
  then show ?thesis using update_step [of sv used sv'] assms(2) by (auto simp: op_inv_def)
next
  case (worked now written e)
  then obtain q where q: "os_queue sv = Some (e # q)" by (auto simp: worker_step_def Let_def split: option.splits list.splits)
  show ?thesis
  proof (cases written)
    case True
    with worked q assms(2) show ?thesis by (auto simp: worker_step_def op_inv_def op_kept_def)
  next
    case False
    let ?sv = "sv\<lparr>os_queue := Some q, os_runtime := (os_runtime sv)\<lparr>or_log_error := Some ''server.failed_to_write_operation_log_some_records_may_be''\<rparr>\<rparr>"
    from False worked q have "sv' = publish_change now ?sv" by (auto simp: worker_step_def Let_def)
    with publish_step [OF assms(2), of ?sv now] worked show ?thesis by simp
  qed
next
  case (sent r)
  then show ?thesis using assms(2) by (auto simp: record_send_def op_inv_def op_kept_def split: option.splits if_splits)
next
  case (recorded now persisted)
  then show ?thesis using publish_step [OF assms(2)] by (auto simp: record_done_def Let_def)
next
  case (snapshot_read now snapshot)
  then have s: "op_entries sv' = pruned now (op_entries sv)" "os_changes sv' = os_changes sv"
    by (auto simp: service_snapshot_def runtime_snapshot_pruned)
  have "op_inv (used, sv')" using assms(2) s pruned_subset [of now "op_entries sv"] pruned_distinct [of entry_id "op_entries sv" now]
    by (auto simp: op_inv_def)
  moreover have "op_kept used (op_entries sv) (op_entries sv')" using s(1) pruned_subset [of now "op_entries sv"] by (auto simp: op_kept_def)
  ultimately show ?thesis using snapshot_read by simp
qed

lemma op_inv_new: "op_inv ({}, service_new now boot persistent)"
  by (simp add: op_inv_def service_new_def runtime_new_def runtime_snapshot_pruned pruned_def drop_oldest.simps [of "[]"])

lemma op_steps_inv: "op_steps s s' \<Longrightarrow> op_inv s \<Longrightarrow> op_inv s' \<and> fst s \<subseteq> fst s'"
proof (induction rule: rtranclp_induct)
  case (step s' s'')
  then show ?case using op_step_inv by (cases s'; cases s'') fastforce
qed simp

lemma finished_kept:
  assumes "op_steps (used, sv) (used', sv')" "op_inv (used, sv)" "e \<in> set (op_entries sv)" "is_finished e"
  shows "\<forall>e'\<in>set (op_entries sv'). entry_id e' = entry_id e \<longrightarrow> e' = e"
  using assms(1)
proof (induction s' \<equiv> "(used', sv')" arbitrary: used' sv' rule: rtranclp_induct)
  case base
  then show ?case using assms(2,3) by (auto simp: op_inv_def distinct_map dest: inj_onD)
next
  case (step s1)
  obtain used1 sv1 where s1: "s1 = (used1, sv1)" by (cases s1)
  have inv: "op_inv (used1, sv1)" "used \<subseteq> used1" using op_steps_inv [OF step(1)] assms(2) s1 by auto
  have kept: "op_kept used1 (op_entries sv1) (op_entries sv')" using op_step_inv step(2) inv(1) s1 by blast
  have e: "entry_id e \<in> used1" using assms(2,3) inv(2) by (auto simp: op_inv_def)
  show ?case
  proof (intro ballI impI)
    fix e' assume e': "e' \<in> set (op_entries sv')" "entry_id e' = entry_id e"
    then have "e' \<in> set (op_entries sv1) \<or> (\<exists>e1\<in>set (op_entries sv1). entry_id e1 = entry_id e' \<and> \<not> is_finished e1)"
      using kept e by (auto simp: op_kept_def)
    then show "e' = e" using step(3) [OF s1] e'(2) assms(4) by auto
  qed
qed

text \<open>C39: The outcome of an operation is final: once it is reported, whatever late callbacks of its workers, dropped
  handles, failures of the log or readings follow, the operation is shown with this outcome, message and progress or no more at all.\<close>

theorem outcome_is_final:
  assumes "op_steps ({}, service_new now boot persistent) (used, sv)" "op_steps (used, sv) (used', sv')"
    and "e \<in> set (op_entries sv)" "is_finished e" "e' \<in> set (op_entries sv')" "entry_id e' = entry_id e"
  shows "e' = e"
proof -
  have "op_inv (used, sv)" using op_steps_inv [OF assms(1) op_inv_new] by simp
  from finished_kept [OF assms(2) this assms(3,4)] assms(5,6) show ?thesis by blast
qed

text \<open>C40: Whatever happens, the snapshot that the browsers watch lists every operation that runs, with its current
  message and progress, and never more than fifty results; a result makes room only for fifty that are no older.\<close>

theorem running_operations_are_shown:
  assumes "op_steps ({}, service_new now boot persistent) (used, sv)"
  shows "(\<forall>e\<in>set (op_entries sv). \<not> is_finished e \<longrightarrow> en_operation e \<in> set (on_operations (os_changes sv))) \<and>
    length (filter (\<lambda>operation. op_outcome operation \<noteq> None) (on_operations (os_changes sv))) \<le> 50 \<and>
    (\<forall>e\<in>set (op_entries sv) - set (or_entries (snd (runtime_snapshot later (os_runtime sv)))). \<exists>t. en_finished e = Some t \<and>
       (300000 \<le> later - t \<or>
        length (filter is_finished (or_entries (snd (runtime_snapshot later (os_runtime sv))))) = 50 \<and>
        (\<forall>k\<in>set (or_entries (snd (runtime_snapshot later (os_runtime sv)))). case en_finished k of None \<Rightarrow> True | Some s \<Rightarrow> t \<le> s)))"
proof (intro conjI ballI)
  have inv: "op_inv (used, sv)" using op_steps_inv [OF assms op_inv_new] by simp
  then show "\<not> is_finished e \<longrightarrow> en_operation e \<in> set (on_operations (os_changes sv))" if "e \<in> set (op_entries sv)" for e
    using that by (simp add: op_inv_def)
  show "length (filter (\<lambda>operation. op_outcome operation \<noteq> None) (on_operations (os_changes sv))) \<le> 50"
    using inv by (simp add: op_inv_def RECENT_LIMIT_def)
  fix e assume e: "e \<in> set (op_entries sv) - set (or_entries (snd (runtime_snapshot later (os_runtime sv))))"
  then have e: "e \<in> set (op_entries sv)" "e \<notin> set (pruned later (op_entries sv))" by (simp_all add: runtime_snapshot_pruned)
  show "\<exists>t. en_finished e = Some t \<and>
       (300000 \<le> later - t \<or>
        length (filter is_finished (or_entries (snd (runtime_snapshot later (os_runtime sv))))) = 50 \<and>
        (\<forall>k\<in>set (or_entries (snd (runtime_snapshot later (os_runtime sv)))). case en_finished k of None \<Rightarrow> True | Some s \<Rightarrow> t \<le> s))"
  proof (cases "case en_finished e of None \<Rightarrow> True | Some t \<Rightarrow> later - t < RECENT_TTL")
    case True
    from drop_oldest_kept [OF _ e(2) [unfolded pruned_def]] e(1) True show ?thesis
      by (auto simp: runtime_snapshot_pruned pruned_def RECENT_LIMIT_def)
  next
    case False
    then show ?thesis by (auto simp: RECENT_TTL_def split: option.splits)
  qed
qed

section \<open>An example\<close>

definition sample_spec :: op_spec where
  "sample_spec = \<lparr>sp_id = ''1'', sp_kind = ''k'', sp_source = ''s'', sp_title = ''t'', sp_project_id = None, sp_resource = None, sp_total = Some 2\<rparr>"

definition sample_begun :: op_service where
  "sample_begun = begin_operation 1 ''now'' ''now'' sample_spec (service_new 0 ''b'' False)"

definition sample_finished :: op_service where
  "sample_finished = handle_finish 2 ''now'' ''1'' Op_Succeeded ''ok'' sample_begun"

definition sample_operation :: operation where
  "sample_operation = \<lparr>op_id = ''1'', op_kind = ''k'', op_source = ''s'', op_title = ''t'', op_project_id = None, op_resource = None,
     op_created_at = ''now'', op_message = ''ok'', op_completed = 0, op_total = Some 2, op_outcome = Some Op_Succeeded\<rparr>"

lemma drop_oldest_few: "length es \<le> RECENT_LIMIT \<Longrightarrow> drop_oldest es = es"
proof -
  assume "length es \<le> RECENT_LIMIT"
  then have "\<not> RECENT_LIMIT < length (filter is_finished es)" using length_filter_le [of is_finished es] by linarith
  then show ?thesis by (subst drop_oldest.simps) simp
qed

lemma pruned_short: "pruned now [e] = (case en_finished e of None \<Rightarrow> [e] | Some t \<Rightarrow> if now - t < RECENT_TTL then [e] else [])" "pruned now [] = []"
  by (simp_all add: pruned_def drop_oldest_few RECENT_LIMIT_def split: option.split)

lemma sample_entries:
  "op_entries sample_begun = [\<lparr>en_operation = sample_operation\<lparr>op_message := ''server.operation_accepted'', op_outcome := None\<rparr>, en_finished = None\<rparr>]"
  "op_entries sample_finished = [\<lparr>en_operation = sample_operation, en_finished = Some 2\<rparr>]"
proof -
  show b: "op_entries sample_begun = [\<lparr>en_operation = sample_operation\<lparr>op_message := ''server.operation_accepted'', op_outcome := None\<rparr>, en_finished = None\<rparr>]"
    by (simp add: sample_begun_def begin_operation_def update_operation_def service_new_def runtime_new_def runtime_snapshot_pruned pruned_short
      is_finished_def Let_def sample_spec_def sample_operation_def bounded_def split: option.split)
  show "op_entries sample_finished = [\<lparr>en_operation = sample_operation, en_finished = Some 2\<rparr>]"
    using b by (simp add: sample_finished_def handle_finish_def update_operation_def pruned_short is_finished_def Let_def sample_operation_def
      bounded_def RECENT_TTL_def split: option.split)
qed

lemma sample_begins: "op_steps ({}, service_new 0 ''b'' False) ({''1''}, sample_begun)"
  using op_step.begun [of sample_spec "{}" "service_new 0 ''b'' False" 1 "''now''" "''now''"]
  by (simp add: sample_begun_def sample_spec_def r_into_rtranclp)

lemma sample_finishes: "op_step ({''1''}, sample_begun) ({''1''}, sample_finished)"
  unfolding sample_finished_def handle_finish_def by (rule op_step.updated)

text \<open>A handle that is dropped after the operation has succeeded.\<close>

theorem outcome_is_final_witness:
  "{e \<in> set (op_entries (handle_drop 3 ''now'' ''1'' sample_finished)). entry_id e = ''1''}
     \<subseteq> {\<lparr>en_operation = sample_operation, en_finished = Some 2\<rparr>}"
proof
  fix e assume "e \<in> {e \<in> set (op_entries (handle_drop 3 ''now'' ''1'' sample_finished)). entry_id e = ''1''}"
  then have e: "e \<in> set (op_entries (handle_drop 3 ''now'' ''1'' sample_finished))" "entry_id e = ''1''" by simp_all
  have "op_steps ({''1''}, sample_finished) ({''1''}, handle_drop 3 ''now'' ''1'' sample_finished)"
    unfolding handle_drop_def by (intro r_into_rtranclp op_step.updated)
  from outcome_is_final [OF rtranclp.rtrancl_into_rtrancl [OF sample_begins sample_finishes] this _ _ e(1),
      of "\<lparr>en_operation = sample_operation, en_finished = Some 2\<rparr>"] e(2)
  show "e \<in> {\<lparr>en_operation = sample_operation, en_finished = Some 2\<rparr>}"
    by (simp add: sample_entries is_finished_def sample_operation_def)
qed

theorem running_operations_are_shown_witness:
  "sample_operation\<lparr>op_message := ''server.operation_accepted'', op_outcome := None\<rparr> \<in> set (on_operations (os_changes sample_begun))"
  using running_operations_are_shown [OF sample_begins, of 0] by (simp add: sample_entries is_finished_def)

end
