(* ===== verification/Sync_Events.thy ===== *)
theory Sync_Events
  imports Acp_Model
begin

text \<open>
  How browsers hear of changes of conversations: every commit publishes a numbered event
  (\<open>acp/src/facade/events.rs\<close>), every web socket has a bounded channel of them, subscriptions to some resources
  and a short delay that merges the events of one resource (\<open>server/src/realtime/acp.rs\<close>). Time is in milliseconds.
\<close>

section \<open>Events\<close>

datatype sync_resource =
    Session_Resource string
  | Sessions_Resource string
  | Connection_Resource string
  | Requests_Resource string
  | Operation_Resource string "string option"

record session_version =
  sv_generation :: string
  sv_revision :: nat
  sv_info :: session_info

definition session_version_of :: "session_snapshot \<Rightarrow> session_version" where
  "session_version_of t = \<lparr>sv_generation = ss_sync_generation t, sv_revision = ss_revision t, sv_info = session_info_of t\<rparr>"

record sync_event =
  ev_resource :: sync_resource
  ev_boot_id :: string
  ev_version :: nat
  ev_deleted :: bool
  ev_urgent :: bool
  ev_operation_id :: "string option"
  ev_session :: "session_version option"

record sync_events =
  se_boot_id :: string
  se_revision :: nat
  se_latest :: "(sync_resource, sync_event) fmap"

definition sync_events_default :: "string \<Rightarrow> sync_events" where
  "sync_events_default boot = \<lparr>se_boot_id = boot, se_revision = 0, se_latest = fmempty\<rparr>"

definition current_event :: "sync_resource \<Rightarrow> sync_events \<Rightarrow> sync_event" where
  "current_event r st =
     (case fmlookup (se_latest st) r of
        Some e \<Rightarrow> e
      | None \<Rightarrow> \<lparr>ev_resource = r, ev_boot_id = se_boot_id st, ev_version = 0, ev_deleted = False, ev_urgent = True,
          ev_operation_id = None, ev_session = None\<rparr>)"

definition publish_inner :: "sync_resource \<Rightarrow> session_version option \<Rightarrow> bool \<Rightarrow> bool \<Rightarrow> string option \<Rightarrow> sync_events \<Rightarrow> sync_event \<times> sync_events" where
  "publish_inner r session deleted urgent operation_id st =
     (let st = st\<lparr>se_revision := Suc (se_revision st)\<rparr>;
          e = \<lparr>ev_resource = r, ev_boot_id = se_boot_id st, ev_version = se_revision st, ev_deleted = deleted, ev_urgent = urgent,
            ev_operation_id = operation_id, ev_session = session\<rparr>
      in (e, st\<lparr>se_latest := (if deleted then fmdrop r (se_latest st) else fmupd r e (se_latest st))\<rparr>))"

definition publish_event :: "sync_resource \<Rightarrow> session_version option \<Rightarrow> bool \<Rightarrow> bool \<Rightarrow> sync_events \<Rightarrow> sync_event \<times> sync_events" where
  "publish_event r session deleted urgent = publish_inner r session deleted urgent None"

definition resource_changed :: "sync_resource \<Rightarrow> sync_events \<Rightarrow> sync_event \<times> sync_events" where
  "resource_changed r = publish_event r None False True"

definition operation_changed :: "sync_resource \<Rightarrow> string \<Rightarrow> sync_events \<Rightarrow> sync_event \<times> sync_events" where
  "operation_changed r operation_id = publish_inner r None False True (Some operation_id)"

text \<open>What the service knows of conversations and connections: the version of one it can load, whether its metadata
  exists, whether a connection is up.\<close>

record sync_world =
  sw_thread :: "string \<Rightarrow> session_version option"
  sw_info :: "string \<Rightarrow> bool"
  sw_connected :: "string \<Rightarrow> bool"

definition sync_event_of :: "sync_world \<Rightarrow> sync_resource \<Rightarrow> sync_events \<Rightarrow> sync_event" where
  "sync_event_of world r st =
     (let e = current_event r st
      in case r of
           Session_Resource t \<Rightarrow>
             (case sw_thread world t of
                Some v \<Rightarrow> e\<lparr>ev_session := Some v\<rparr>
              | None \<Rightarrow> e\<lparr>ev_deleted := \<not> sw_info world t\<rparr>)
         | Connection_Resource t \<Rightarrow> e\<lparr>ev_deleted := \<not> sw_info world t\<rparr>
         | Requests_Resource c \<Rightarrow> e\<lparr>ev_deleted := \<not> sw_connected world c\<rparr>
         | _ \<Rightarrow> e)"

section \<open>Subscriptions of a web socket\<close>

datatype acp_message = Acp_Ready string sync_event | Acp_Change "string fset" sync_event | Acp_Resync

datatype acp_command = Acp_Subscribe string sync_resource | Acp_Unsubscribe string

record subscriptions =
  su_active :: "(string, sync_resource) fmap"
  su_pending :: "(sync_resource, nat \<times> sync_event) fmap"

definition subscriptions_default :: subscriptions where
  "subscriptions_default = \<lparr>su_active = fmempty, su_pending = fmempty\<rparr>"

definition retain_pending :: "subscriptions \<Rightarrow> subscriptions" where
  "retain_pending s = s\<lparr>su_pending := fmfilter (\<lambda>r. r |\<in>| fmran (su_active s)) (su_pending s)\<rparr>"

text \<open>\<open>None\<close> closes the socket.\<close>

definition subs_command :: "sync_world \<Rightarrow> sync_events \<Rightarrow> acp_command \<Rightarrow> subscriptions \<Rightarrow> (acp_message option \<times> subscriptions) option" where
  "subs_command world st command s =
     (case command of
        Acp_Subscribe i r \<Rightarrow>
          if 128 < length i \<or> (i |\<notin>| fmdom (su_active s) \<and> 256 \<le> fcard (fmdom (su_active s))) then None
          else (let s = retain_pending (s\<lparr>su_active := fmupd i r (su_active s)\<rparr>);
                    head = sync_event_of world r st;
                    s = (if ev_deleted head then s\<lparr>su_active := fmdrop i (su_active s)\<rparr> else s)
                in Some (Some (Acp_Ready i head), s))
      | Acp_Unsubscribe i \<Rightarrow> Some (None, retain_pending (s\<lparr>su_active := fmdrop i (su_active s)\<rparr>)))"

definition subs_message :: "sync_event \<Rightarrow> subscriptions \<Rightarrow> acp_message \<times> subscriptions" where
  "subs_message head s =
     (let ids = ffilter (\<lambda>i. fmlookup (su_active s) i = Some (ev_resource head)) (fmdom (su_active s));
          s = (if ev_deleted head
               then s\<lparr>su_active := fmfilter (\<lambda>i. fmlookup (su_active s) i \<noteq> Some (ev_resource head)) (su_active s)\<rparr> else s)
      in (Acp_Change ids head, s))"

definition is_sessions :: "sync_resource \<Rightarrow> bool" where
  "is_sessions r = (case r of Sessions_Resource _ \<Rightarrow> True | _ \<Rightarrow> False)"

definition subs_change :: "nat \<Rightarrow> sync_event \<Rightarrow> subscriptions \<Rightarrow> acp_message option \<times> subscriptions" where
  "subs_change now e s =
     (if ev_resource e |\<notin>| fmran (su_active s) then (None, s)
      else if ev_deleted e \<or> ev_urgent e \<and> \<not> is_sessions (ev_resource e)
      then (let (m, s) = subs_message e (s\<lparr>su_pending := fmdrop (ev_resource e) (su_pending s)\<rparr>) in (Some m, s))
      else (let delay = (if is_sessions (ev_resource e) then 500 else 50);
                deadline = (case fmlookup (su_pending s) (ev_resource e) of Some (d, _) \<Rightarrow> d | None \<Rightarrow> now + delay)
            in (None, s\<lparr>su_pending := fmupd (ev_resource e) (deadline, e) (su_pending s)\<rparr>)))"

text \<open>\<open>keys\<close> is the order in which the map of pending events is iterated.\<close>

fun send_due :: "sync_resource list \<Rightarrow> subscriptions \<Rightarrow> acp_message list \<times> subscriptions" where
  "send_due [] s = ([], s)"
| "send_due (r # rs) s =
     (case fmlookup (su_pending s) r of
        None \<Rightarrow> send_due rs s
      | Some (_, e) \<Rightarrow>
          (let (m, s) = subs_message e (s\<lparr>su_pending := fmdrop r (su_pending s)\<rparr>); (ms, s) = send_due rs s in (m # ms, s)))"

definition subs_due :: "nat \<Rightarrow> sync_resource list \<Rightarrow> subscriptions \<Rightarrow> acp_message list \<times> subscriptions" where
  "subs_due now keys s =
     send_due (filter (\<lambda>r. case fmlookup (su_pending s) r of Some (deadline, _) \<Rightarrow> deadline \<le> now | None \<Rightarrow> False) keys) s"

section \<open>A web socket\<close>

text \<open>The channel of the socket, whether it has lost events, the subscriptions, and what was sent to the browser.\<close>

record acp_socket =
  so_channel :: "sync_event list"
  so_lagged :: bool
  so_subs :: subscriptions
  so_sent :: "acp_message list"
  so_open :: bool

definition acp_socket_new :: acp_socket where
  "acp_socket_new = \<lparr>so_channel = [], so_lagged = False, so_subs = subscriptions_default, so_sent = [], so_open = True\<rparr>"

definition CHANNEL_CAPACITY :: nat where
  "CHANNEL_CAPACITY = 512"

text \<open>The bounded channel never waits: a slow receiver loses the oldest event and is told so at its next receive.\<close>

definition deliver_event :: "sync_event \<Rightarrow> acp_socket \<Rightarrow> acp_socket" where
  "deliver_event e so =
     (if length (so_channel so) < CHANNEL_CAPACITY then so\<lparr>so_channel := so_channel so @ [e]\<rparr>
      else so\<lparr>so_channel := tl (so_channel so) @ [e], so_lagged := True\<rparr>)"

definition socket_command :: "sync_world \<Rightarrow> sync_events \<Rightarrow> acp_command \<Rightarrow> acp_socket \<Rightarrow> acp_socket" where
  "socket_command world st command so =
     (case subs_command world st command (so_subs so) of
        None \<Rightarrow> so\<lparr>so_open := False\<rparr>
      | Some (m, s) \<Rightarrow> so\<lparr>so_subs := s, so_sent := so_sent so @ (case m of Some m \<Rightarrow> [m] | None \<Rightarrow> [])\<rparr>)"

definition socket_receive :: "nat \<Rightarrow> acp_socket \<Rightarrow> acp_socket" where
  "socket_receive now so =
     (if so_lagged so then so\<lparr>so_sent := so_sent so @ [Acp_Resync], so_open := False\<rparr>
      else (case so_channel so of
              [] \<Rightarrow> so
            | e # es \<Rightarrow>
                (let (m, s) = subs_change now e (so_subs so)
                 in so\<lparr>so_channel := es, so_subs := s, so_sent := so_sent so @ (case m of Some m \<Rightarrow> [m] | None \<Rightarrow> [])\<rparr>)))"

definition socket_flush :: "nat \<Rightarrow> sync_resource list \<Rightarrow> acp_socket \<Rightarrow> acp_socket" where
  "socket_flush now keys so = (let (ms, s) = subs_due now keys (so_subs so) in so\<lparr>so_subs := s, so_sent := so_sent so @ ms\<rparr>)"

section \<open>Server and socket over time\<close>

text \<open>The clock, the events and one web socket that is open from some moment on. A time step is any passage of time.\<close>

inductive sync_step :: "nat \<times> sync_events \<times> acp_socket \<Rightarrow> nat \<times> sync_events \<times> acp_socket \<Rightarrow> bool" where
  passed: "now \<le> now' \<Longrightarrow> sync_step (now, st, so) (now', st, so)"
| published: "publish_inner r session deleted urgent operation_id st = (e, st') \<Longrightarrow> sync_step (now, st, so) (now, st', deliver_event e so)"
| commanded: "so_open so \<Longrightarrow> sync_step (now, st, so) (now, st, socket_command world st command so)"
| received: "so_open so \<Longrightarrow> sync_step (now, st, so) (now, st, socket_receive now so)"
| flushed: "so_open so \<Longrightarrow> set keys = fset (fmdom (su_pending (so_subs so))) \<Longrightarrow> sync_step (now, st, so) (now, st, socket_flush now keys so)"

inductive sync_reach :: "nat \<times> sync_events \<times> acp_socket \<Rightarrow> bool" where
  opened: "se_revision st = 0 \<Longrightarrow> se_latest st = fmempty \<Longrightarrow> sync_reach (now, st, acp_socket_new)"
| stepped: "sync_reach s \<Longrightarrow> sync_step s s' \<Longrightarrow> sync_reach s'"

text \<open>The version the browser has been told of for one of its subscriptions.\<close>

fun told :: "acp_message list \<Rightarrow> string \<Rightarrow> nat option" where
  "told [] i = None"
| "told (m # ms) i =
     (case m of
        Acp_Ready j head \<Rightarrow> if j = i then Some (ev_version head) else told ms i
      | Acp_Change ids head \<Rightarrow>
          if i |\<in>| ids then Some (case told ms i of Some v \<Rightarrow> max v (ev_version head) | None \<Rightarrow> ev_version head) else told ms i
      | Acp_Resync \<Rightarrow> told ms i)"

abbreviation told_so :: "acp_socket \<Rightarrow> string \<Rightarrow> nat option" where
  "told_so so \<equiv> told (rev (so_sent so))"

definition knows :: "acp_socket \<Rightarrow> string \<Rightarrow> nat \<Rightarrow> bool" where
  "knows so i v \<longleftrightarrow> (\<exists>w. told_so so i = Some w \<and> v \<le> w)"

text \<open>What is on its way to a subscriber.\<close>

definition waiting :: "acp_socket \<Rightarrow> sync_resource \<Rightarrow> nat \<Rightarrow> bool" where
  "waiting so r v \<longleftrightarrow>
     (\<exists>e\<in>set (so_channel so). ev_resource e = r \<and> ev_version e = v) \<or>
     (\<exists>d e. fmlookup (su_pending (so_subs so)) r = Some (d, e) \<and> v \<le> ev_version e)"

definition sync_ordered :: "nat \<Rightarrow> sync_events \<Rightarrow> acp_socket \<Rightarrow> bool" where
  "sync_ordered now st so \<longleftrightarrow>
     sorted_wrt (<) (map ev_version (so_channel so)) \<and>
     (\<forall>e\<in>set (so_channel so). ev_version e \<le> se_revision st) \<and>
     (\<forall>r d e. fmlookup (su_pending (so_subs so)) r = Some (d, e) \<longrightarrow>
        ev_resource e = r \<and> ev_version e \<le> se_revision st \<and> d \<le> now + 500 \<and> (\<forall>e'\<in>set (so_channel so). ev_version e < ev_version e')) \<and>
     (\<forall>r e. fmlookup (se_latest st) r = Some e \<longrightarrow> ev_resource e = r \<and> ev_version e \<le> se_revision st \<and>
        (\<forall>e'\<in>set (so_channel so). ev_resource e' = r \<longrightarrow> ev_version e' \<le> ev_version e))"

definition sync_inv :: "nat \<times> sync_events \<times> acp_socket \<Rightarrow> bool" where
  "sync_inv s \<longleftrightarrow> (case s of (now, st, so) \<Rightarrow> so_open so \<and> \<not> so_lagged so \<longrightarrow>
     sync_ordered now st so \<and>
     (\<forall>i r e. fmlookup (su_active (so_subs so)) i = Some r \<longrightarrow> fmlookup (se_latest st) r = Some e \<longrightarrow>
        knows so i (ev_version e) \<or> waiting so r (ev_version e)))"

lemma told_Ready [simp]: "told (rev (ms @ [Acp_Ready j e])) i = (if j = i then Some (ev_version e) else told (rev ms) i)"
  by simp

lemma knows_Change:
  "knows so i v \<Longrightarrow> so_sent so' = so_sent so @ [Acp_Change ids e] \<Longrightarrow> knows so' i v"
  "i |\<in>| ids \<Longrightarrow> v \<le> ev_version e \<Longrightarrow> so_sent so' = so_sent so @ [Acp_Change ids e] \<Longrightarrow> knows so' i v"
  by (auto simp: knows_def split: option.splits)

lemma fmran_active: "r |\<in>| fmran m \<longleftrightarrow> (\<exists>i. fmlookup m i = Some r)"
  by (auto simp: fmlookup_ran_iff)

lemma inv_passed: "sync_inv (now, st, so) \<Longrightarrow> now \<le> now' \<Longrightarrow> sync_inv (now', st, so)"
  unfolding sync_inv_def sync_ordered_def by fastforce

lemma inv_published:
  assumes "sync_inv (now, st, so)" "publish_inner r session deleted urgent operation_id st = (e, st')"
  shows "sync_inv (now, st', deliver_event e so)"
proof (cases "so_open so \<and> \<not> so_lagged so \<and> length (so_channel so) < CHANNEL_CAPACITY")
  case False
  then show ?thesis by (auto simp: sync_inv_def deliver_event_def)
next
  case True
  have e: "ev_resource e = r" "ev_version e = Suc (se_revision st)" "se_revision st' = Suc (se_revision st)"
    "se_latest st' = (if deleted then fmdrop r (se_latest st) else fmupd r e (se_latest st))"
    using assms(2) by (auto simp: publish_inner_def Let_def)
  from assms(1) True have o: "sync_ordered now st so"
    and k: "\<And>i r e. fmlookup (su_active (so_subs so)) i = Some r \<Longrightarrow> fmlookup (se_latest st) r = Some e \<Longrightarrow>
        knows so i (ev_version e) \<or> waiting so r (ev_version e)" by (auto simp: sync_inv_def)
  have "sync_ordered now st' (deliver_event e so)"
    using o True e unfolding sync_ordered_def deliver_event_def
    by (auto simp: sorted_wrt_append less_Suc_eq_le le_SucI split: if_splits)
  moreover have "knows (deliver_event e so) i (ev_version e') \<or> waiting (deliver_event e so) r' (ev_version e')"
    if "fmlookup (su_active (so_subs (deliver_event e so))) i = Some r'" "fmlookup (se_latest st') r' = Some e'" for i r' e'
    using that k [of i r' e'] e True by (auto simp: deliver_event_def knows_def waiting_def split: if_splits)
  ultimately show ?thesis by (auto simp: sync_inv_def)
qed

text \<open>Sending the event of a resource tells all its subscribers; after a deletion there are none.\<close>

lemma subs_message_simps:
  "fst (subs_message e s) = Acp_Change (ffilter (\<lambda>i. fmlookup (su_active s) i = Some (ev_resource e)) (fmdom (su_active s))) e"
  "su_pending (snd (subs_message e s)) = su_pending s"
  "fmlookup (su_active (snd (subs_message e s))) i =
     (if ev_deleted e \<and> fmlookup (su_active s) i = Some (ev_resource e) then None else fmlookup (su_active s) i)"
  by (auto simp: subs_message_def Let_def)

lemma inv_received:
  assumes inv: "sync_inv (now, st, so)"
  shows "sync_inv (now, st, socket_receive now so)"
proof (cases "so_open so \<and> \<not> so_lagged so")
  case False
  then show ?thesis by (auto simp: sync_inv_def socket_receive_def Let_def split: list.splits prod.splits)
next
  case True
  show ?thesis
  proof (cases "so_channel so")
    case Nil
    with True inv show ?thesis by (simp add: socket_receive_def)
  next
    case (Cons e es)
    let ?r = "ev_resource e" and ?s = "so_subs so"
    from inv True have o: "sync_ordered now st so"
      and k: "\<And>i r e. fmlookup (su_active ?s) i = Some r \<Longrightarrow> fmlookup (se_latest st) r = Some e \<Longrightarrow>
        knows so i (ev_version e) \<or> waiting so r (ev_version e)" by (auto simp: sync_inv_def)
    have es: "\<forall>e'\<in>set es. ev_version e < ev_version e'" using o Cons by (auto simp: sync_ordered_def)
    have old: "\<And>r d p. fmlookup (su_pending ?s) r = Some (d, p) \<Longrightarrow> ev_version p < ev_version e"
      using o Cons by (auto simp: sync_ordered_def)
    have latest: "\<And>l. fmlookup (se_latest st) ?r = Some l \<Longrightarrow> ev_version e \<le> ev_version l" using o Cons by (auto simp: sync_ordered_def)
    obtain m s where c: "subs_change now e ?s = (m, s)" by (cases "subs_change now e ?s")
    let ?so = "so\<lparr>so_channel := es, so_subs := s, so_sent := so_sent so @ (case m of Some m \<Rightarrow> [m] | None \<Rightarrow> [])\<rparr>"
    have r: "socket_receive now so = ?so" using True Cons c by (simp add: socket_receive_def)
    consider (unwatched) "?r |\<notin>| fmran (su_active ?s)" | (urgent) "?r |\<in>| fmran (su_active ?s)" "ev_deleted e \<or> ev_urgent e \<and> \<not> is_sessions ?r"
      | (merged) "?r |\<in>| fmran (su_active ?s)" "\<not> (ev_deleted e \<or> ev_urgent e \<and> \<not> is_sessions ?r)" by blast
    then show ?thesis
    proof cases
      case unwatched
      then have s: "m = None" "s = ?s" using c by (auto simp: subs_change_def)
      have "sync_ordered now st ?so" using o Cons s by (auto simp: sync_ordered_def)
      moreover have "knows ?so i (ev_version l) \<or> waiting ?so r (ev_version l)"
        if "fmlookup (su_active (so_subs ?so)) i = Some r" "fmlookup (se_latest st) r = Some l" for i r l
      proof -
        have "r \<noteq> ?r" using that unwatched s by (auto simp: fmran_active)
        with k [of i r l] that s Cons show ?thesis by (auto simp: knows_def waiting_def)
      qed
      ultimately show ?thesis unfolding r by (simp add: sync_inv_def)
    next
      case urgent
      let ?s1 = "?s\<lparr>su_pending := fmdrop ?r (su_pending ?s)\<rparr>"
      have s: "m = Some (fst (subs_message e ?s1))" "s = snd (subs_message e ?s1)"
        using c urgent by (auto simp: subs_change_def Let_def split: prod.splits)
      have a: "fmlookup (su_active s) i = Some r \<Longrightarrow> fmlookup (su_active ?s) i = Some r" for i r
        unfolding s(2) by (auto simp: subs_message_simps split: if_splits)
      have "sync_ordered now st ?so" using o Cons unfolding s by (auto simp: sync_ordered_def subs_message_simps)
      moreover have "knows ?so i (ev_version l) \<or> waiting ?so r (ev_version l)"
        if "fmlookup (su_active (so_subs ?so)) i = Some r" "fmlookup (se_latest st) r = Some l" for i r l
      proof (cases "r = ?r \<and> ev_version l = ev_version e")
        case eq: True
        have "fmlookup (su_active ?s) i = Some ?r" using a that eq by simp
        then have "knows ?so i (ev_version l)" using eq s(1)
          by (intro knows_Change(2) [of i "ffilter (\<lambda>i. fmlookup (su_active ?s) i = Some ?r) (fmdom (su_active ?s))"])
            (auto simp: subs_message_simps intro: fmdomI)
        then show ?thesis ..
      next
        case False
        from k [OF a that(2)] that(1) have "knows so i (ev_version l) \<or> waiting so r (ev_version l)" by simp
        then show ?thesis
        proof
          assume "knows so i (ev_version l)"
          then show ?thesis using s(1) by (auto simp: subs_message_simps intro: knows_Change(1))
        next
          assume w: "waiting so r (ev_version l)"
          then show ?thesis
          proof (cases "r = ?r")
            case True
            with latest [of l] that(2) old have "\<not> (\<exists>d p. fmlookup (su_pending ?s) r = Some (d, p) \<and> ev_version l \<le> ev_version p)"
              by fastforce
            with w False True Cons show ?thesis by (auto simp: waiting_def)
          next
            case rn: False
            with w Cons s show ?thesis by (auto simp: waiting_def subs_message_simps)
          qed
        qed
      qed
      ultimately show ?thesis unfolding r by (simp add: sync_inv_def)
    next
      case merged
      define d where "d = (case fmlookup (su_pending ?s) ?r of Some (d, _) \<Rightarrow> d | None \<Rightarrow> now + (if is_sessions ?r then 500 else 50))"
      have "d \<le> now + 500" using o unfolding d_def by (auto simp: sync_ordered_def split: option.split)
      moreover have "m = None" "s = ?s\<lparr>su_pending := fmupd ?r (d, e) (su_pending ?s)\<rparr>"
        using c merged by (simp_all add: subs_change_def Let_def d_def)
      ultimately have d: "d \<le> now + 500" "m = None" "s = ?s\<lparr>su_pending := fmupd ?r (d, e) (su_pending ?s)\<rparr>" by simp_all
      have "sync_ordered now st ?so" using o Cons d es by (auto simp: sync_ordered_def)
      moreover have "knows ?so i (ev_version l) \<or> waiting ?so r (ev_version l)"
        if "fmlookup (su_active (so_subs ?so)) i = Some r" "fmlookup (se_latest st) r = Some l" for i r l
        using k [of i r l] that d Cons old latest by (auto simp: knows_def waiting_def) (metis le_trans less_imp_le)+
      ultimately show ?thesis unfolding r by (simp add: sync_inv_def)
    qed
  qed
qed

lemma retain_pending_simps [simp]:
  "su_active (retain_pending s) = su_active s"
  "fmlookup (su_pending (retain_pending s)) r = (if r |\<in>| fmran (su_active s) then fmlookup (su_pending s) r else None)"
  by (simp_all add: retain_pending_def)

lemma sync_event_of_version [simp]: "ev_version (sync_event_of world r st) = ev_version (current_event r st)"
  by (simp add: sync_event_of_def Let_def split: sync_resource.split option.split)

lemma sync_ordered_subset:
  assumes "sync_ordered now st so" "so_channel so' = so_channel so"
    and "\<And>r p. fmlookup (su_pending (so_subs so')) r = Some p \<Longrightarrow> fmlookup (su_pending (so_subs so)) r = Some p"
  shows "sync_ordered now st so'"
  using assms(1) unfolding sync_ordered_def assms(2) by (auto dest: assms(3))

lemma inv_commanded:
  assumes inv: "sync_inv (now, st, so)"
  shows "sync_inv (now, st, socket_command world st command so)"
proof (cases "so_open so \<and> \<not> so_lagged so")
  case False
  then show ?thesis by (auto simp: sync_inv_def socket_command_def split: option.split)
next
  case True
  from inv True have o: "sync_ordered now st so"
    and k: "\<And>i r e. fmlookup (su_active (so_subs so)) i = Some r \<Longrightarrow> fmlookup (se_latest st) r = Some e \<Longrightarrow>
      knows so i (ev_version e) \<or> waiting so r (ev_version e)" by (auto simp: sync_inv_def)
  show ?thesis
  proof (cases "subs_command world st command (so_subs so)")
    case None
    then show ?thesis by (simp add: socket_command_def sync_inv_def)
  next
    case (Some ms)
    then obtain m s where c: "subs_command world st command (so_subs so) = Some (m, s)" by (cases ms) auto
    let ?so = "so\<lparr>so_subs := s, so_sent := so_sent so @ (case m of Some m \<Rightarrow> [m] | None \<Rightarrow> [])\<rparr>"
    have so': "socket_command world st command so = ?so" using c by (simp add: socket_command_def)
    have "sync_ordered now st ?so"
      by (rule sync_ordered_subset [OF o])
        (use c in \<open>auto simp: subs_command_def Let_def split: acp_command.splits if_splits\<close>)
    moreover have "knows ?so i (ev_version l) \<or> waiting ?so r (ev_version l)"
      if a: "fmlookup (su_active (so_subs ?so)) i = Some r" "fmlookup (se_latest st) r = Some l" for i r l
    proof (cases command)
      case (Acp_Unsubscribe j)
      then have s: "m = None" "s = retain_pending ((so_subs so)\<lparr>su_active := fmdrop j (su_active (so_subs so))\<rparr>)"
        using c by (simp_all add: subs_command_def)
      have "i \<noteq> j" "fmlookup (su_active (so_subs so)) i = Some r" using a(1) s by (auto split: if_splits)
      moreover have "r |\<in>| fmran (fmdrop j (su_active (so_subs so)))" unfolding fmran_active using calculation by (intro exI [of _ i]) simp
      ultimately show ?thesis using k [OF _ a(2)] s by (auto simp: knows_def waiting_def)
    next
      case (Acp_Subscribe j r0)
      let ?s = "retain_pending ((so_subs so)\<lparr>su_active := fmupd j r0 (su_active (so_subs so))\<rparr>)"
      have s: "m = Some (Acp_Ready j (sync_event_of world r0 st))" "su_pending s = su_pending ?s"
        "fmlookup (su_active s) i = Some r \<Longrightarrow> fmlookup (fmupd j r0 (su_active (so_subs so))) i = Some r"
        using c Acp_Subscribe by (auto simp: subs_command_def Let_def split: if_splits)
      show ?thesis
      proof (cases "i = j")
        case True
        then have "r = r0" using a(1) s(3) by simp
        then have "ev_version (sync_event_of world r0 st) = ev_version l" using a(2) by (simp add: current_event_def)
        with True s(1) show ?thesis by (simp add: knows_def)
      next
        case False
        then have i: "fmlookup (su_active (so_subs so)) i = Some r" using a(1) s(3) by simp
        then have "r |\<in>| fmran (fmupd j r0 (su_active (so_subs so)))" unfolding fmran_active using False by (intro exI [of _ i]) simp
        with k [OF i a(2)] s(1,2) False show ?thesis by (auto simp: knows_def waiting_def)
      qed
    qed
    ultimately show ?thesis unfolding so' by (simp add: sync_inv_def)
  qed
qed

text \<open>Sending one pending event.\<close>

lemma inv_sent:
  assumes inv: "sync_inv (now, st, so)" and p: "fmlookup (su_pending (so_subs so)) r = Some (d, e)"
    and m: "subs_message e ((so_subs so)\<lparr>su_pending := fmdrop r (su_pending (so_subs so))\<rparr>) = (m, s)"
  shows "sync_inv (now, st, so\<lparr>so_subs := s, so_sent := so_sent so @ [m]\<rparr>)"
proof (cases "so_open so \<and> \<not> so_lagged so")
  case False
  then show ?thesis by (auto simp: sync_inv_def)
next
  case True
  let ?so = "so\<lparr>so_subs := s, so_sent := so_sent so @ [m]\<rparr>" and ?s1 = "(so_subs so)\<lparr>su_pending := fmdrop r (su_pending (so_subs so))\<rparr>"
  from inv True have o: "sync_ordered now st so"
    and k: "\<And>i r e. fmlookup (su_active (so_subs so)) i = Some r \<Longrightarrow> fmlookup (se_latest st) r = Some e \<Longrightarrow>
      knows so i (ev_version e) \<or> waiting so r (ev_version e)" by (auto simp: sync_inv_def)
  have ms: "m = fst (subs_message e ?s1)" "s = snd (subs_message e ?s1)" using m by simp_all
  have r: "ev_resource e = r" using o p by (auto simp: sync_ordered_def)
  have "sync_ordered now st ?so"
    by (rule sync_ordered_subset [OF o]) (use ms in \<open>auto simp: subs_message_simps split: if_splits\<close>)
  moreover have "knows ?so i (ev_version l) \<or> waiting ?so r' (ev_version l)"
    if a: "fmlookup (su_active (so_subs ?so)) i = Some r'" "fmlookup (se_latest st) r' = Some l" for i r' l
  proof -
    have i: "fmlookup (su_active (so_subs so)) i = Some r'" using a(1) ms(2) by (auto simp: subs_message_simps split: if_splits)
    have keep: "knows so i v \<Longrightarrow> knows ?so i v" for v using ms(1) by (auto simp: subs_message_simps intro: knows_Change(1))
    from k [OF i a(2)] show ?thesis
    proof
      assume "waiting so r' (ev_version l)"
      then consider "waiting ?so r' (ev_version l)" | "r' = r" "ev_version l \<le> ev_version e"
        using p ms(2) by (cases "r' = r") (auto simp: waiting_def subs_message_simps)
      then show ?thesis
      proof cases
        case 2
        then have "knows ?so i (ev_version l)" using i ms(1) r
          by (intro knows_Change(2) [of i "ffilter (\<lambda>i. fmlookup (su_active (so_subs so)) i = Some r) (fmdom (su_active (so_subs so)))"])
            (auto simp: subs_message_simps intro: fmdomI)
        then show ?thesis ..
      qed simp
    qed (use keep in simp)
  qed
  ultimately show ?thesis by (simp add: sync_inv_def)
qed

lemma inv_send_due: "sync_inv (now, st, so) \<Longrightarrow> send_due keys (so_subs so) = (ms, s) \<Longrightarrow> sync_inv (now, st, so\<lparr>so_subs := s, so_sent := so_sent so @ ms\<rparr>)"
proof (induction keys arbitrary: so ms s)
  case (Cons r rs)
  show ?case
  proof (cases "fmlookup (su_pending (so_subs so)) r")
    case None
    with Cons show ?thesis by simp
  next
    case (Some de)
    obtain d e where de: "de = (d, e)" by (cases de)
    obtain m s1 where m: "subs_message e ((so_subs so)\<lparr>su_pending := fmdrop r (su_pending (so_subs so))\<rparr>) = (m, s1)" by (metis surj_pair)
    obtain ms' where ms: "send_due rs s1 = (ms', s)" "ms = m # ms'" using Cons.prems(2) Some de m by (auto simp: Let_def split: prod.splits)
    let ?so = "so\<lparr>so_subs := s1, so_sent := so_sent so @ [m]\<rparr>"
    from Cons.IH [of ?so ms' s] inv_sent [OF Cons.prems(1) Some [unfolded de] m] ms show ?thesis by simp
  qed
qed simp

lemma inv_flushed: "sync_inv (now, st, so) \<Longrightarrow> sync_inv (now, st, socket_flush later keys so)"
  using inv_send_due by (auto simp: socket_flush_def subs_due_def Let_def split: prod.split)

lemma sync_reach_inv: "sync_reach s \<Longrightarrow> sync_inv s"
proof (induction rule: sync_reach.induct)
  case (opened st now)
  then show ?case by (simp add: sync_inv_def sync_ordered_def acp_socket_new_def subscriptions_default_def)
next
  case (stepped s s')
  from stepped(2) show ?case
  proof cases
    case (passed now now' st so)
    with stepped(3) inv_passed show ?thesis by blast
  next
    case (published r session deleted urgent operation_id st e st' now so)
    with stepped(3) inv_published show ?thesis by blast
  next
    case (commanded so now st world command)
    with stepped(3) inv_commanded show ?thesis by blast
  next
    case (received so now st)
    with stepped(3) inv_received show ?thesis by blast
  next
    case (flushed so keys now st)
    with stepped(3) inv_flushed show ?thesis by blast
  qed
qed

section \<open>No change is lost\<close>

text \<open>The loop of the socket takes all events from its channel.\<close>

definition receive_all :: "nat \<Rightarrow> acp_socket \<Rightarrow> acp_socket" where
  "receive_all now so = (socket_receive now ^^ length (so_channel so)) so"

lemma receive_all_channel:
  "length (so_channel so) = n \<Longrightarrow> \<not> so_lagged so \<Longrightarrow>
     so_channel ((socket_receive now ^^ n) so) = [] \<and> \<not> so_lagged ((socket_receive now ^^ n) so) \<and>
     so_open ((socket_receive now ^^ n) so) = so_open so"
proof (induction n arbitrary: so)
  case (Suc n)
  then obtain e es where c: "so_channel so = e # es" by (cases "so_channel so") auto
  obtain m s where "subs_change now e (so_subs so) = (m, s)" by (metis surj_pair)
  then have "so_channel (socket_receive now so) = es \<and> so_lagged (socket_receive now so) = so_lagged so \<and> so_open (socket_receive now so) = so_open so"
    using Suc.prems(2) c by (simp add: socket_receive_def)
  then show ?case using Suc.IH [of "socket_receive now so"] Suc.prems c by (simp add: funpow_swap1)
qed simp

lemma receive_all_inv: "sync_inv (now, st, so) \<Longrightarrow> sync_inv (now, st, (socket_receive now ^^ n) so)"
  by (induction n) (simp_all add: inv_received)

lemma send_due_pending:
  "send_due keys s = (ms, s') \<Longrightarrow> fmlookup (su_pending s') r = (if r \<in> set keys then None else fmlookup (su_pending s) r)"
proof (induction keys arbitrary: s ms s')
  case (Cons k keys)
  show ?case
  proof (cases "fmlookup (su_pending s) k")
    case None
    with Cons show ?thesis by auto
  next
    case (Some de)
    obtain d e where "de = (d, e)" by (cases de)
    moreover obtain m s1 where m: "subs_message e (s\<lparr>su_pending := fmdrop k (su_pending s)\<rparr>) = (m, s1)" by (metis surj_pair)
    moreover obtain ms1 s2 where "send_due keys s1 = (ms1, s2)" by (metis surj_pair)
    moreover have "su_pending s1 = fmdrop k (su_pending s)" using arg_cong [OF m, of snd] subs_message_simps(2) by (metis snd_conv subscriptions.select_convs(2) subscriptions.surjective subscriptions.update_convs(2))
    ultimately show ?thesis using Cons Some by auto
  qed
qed simp

text \<open>C9: However commits, subscriptions, merged and urgent events interleave, an open web socket that has lost nothing
  has told its browser of the latest change of every resource it is subscribed to once it has taken what is in its
  channel and its longest delay, half a second, has passed.\<close>

theorem browser_hears_every_change:
  assumes "sync_reach (now, st, so)" "so_open so" "\<not> so_lagged so" "now + 500 \<le> later"
    and "set keys = fset (fmdom (su_pending (so_subs (receive_all now so))))"
  shows "\<forall>i r e. fmlookup (su_active (so_subs (socket_flush later keys (receive_all now so)))) i = Some r \<longrightarrow>
    fmlookup (se_latest st) r = Some e \<longrightarrow> knows (socket_flush later keys (receive_all now so)) i (ev_version e)"
proof (intro allI impI)
  fix i r e
  let ?so = "receive_all now so" and ?last = "socket_flush later keys (receive_all now so)"
  assume a: "fmlookup (su_active (so_subs ?last)) i = Some r" "fmlookup (se_latest st) r = Some e"
  have inv: "sync_inv (now, st, ?so)" using receive_all_inv [OF sync_reach_inv [OF assms(1)]] by (simp add: receive_all_def)
  have c: "so_channel ?so = []" "\<not> so_lagged ?so" "so_open ?so"
    using receive_all_channel [OF refl assms(3), of now] assms(2) by (simp_all add: receive_all_def)
  let ?keys = "filter (\<lambda>r. case fmlookup (su_pending (so_subs ?so)) r of Some (deadline, _) \<Rightarrow> deadline \<le> later | None \<Rightarrow> False) keys"
  obtain ms s where d: "send_due ?keys (so_subs ?so) = (ms, s)" by (metis surj_pair)
  have e: "?last = ?so\<lparr>so_subs := s, so_sent := so_sent ?so @ ms\<rparr>" using d by (simp add: socket_flush_def subs_due_def)
  have "fmlookup (su_pending s) r = None"
  proof (cases "fmlookup (su_pending (so_subs ?so)) r")
    case None
    then show ?thesis using send_due_pending [OF d] by simp
  next
    case (Some p)
    then have "fst p \<le> later" using inv c assms(4) by (cases p) (fastforce simp: sync_inv_def sync_ordered_def)
    moreover have "r \<in> set keys" using assms(5) Some by (simp add: fmdomI)
    ultimately have "r \<in> set ?keys" using Some by (cases p) simp
    then show ?thesis using send_due_pending [OF d] by simp
  qed
  then have "\<not> waiting ?last r (ev_version e)" using c(1) e by (simp add: waiting_def)
  moreover have "sync_inv (now, st, ?last)" by (rule inv_flushed [OF inv])
  ultimately show "knows ?last i (ev_version e)" using a e c by (auto simp: sync_inv_def)
qed

section \<open>An example\<close>

definition sample_world :: sync_world where
  "sample_world = \<lparr>sw_thread = (\<lambda>_. None), sw_info = (\<lambda>_. True), sw_connected = (\<lambda>_. True)\<rparr>"

definition sample_subscribed :: acp_socket where
  "sample_subscribed = socket_command sample_world (sync_events_default ''b'') (Acp_Subscribe ''1'' (Session_Resource ''t'')) acp_socket_new"

definition sample_published :: "sync_event \<times> sync_events" where
  "sample_published = publish_event (Session_Resource ''t'') None False False (sync_events_default ''b'')"

lemma sample_reach: "sync_reach (0, snd sample_published, deliver_event (fst sample_published) sample_subscribed)"
proof -
  have "sync_reach (0, sync_events_default ''b'', acp_socket_new)" by (intro sync_reach.opened) (simp_all add: sync_events_default_def)
  then have "sync_reach (0, sync_events_default ''b'', sample_subscribed)"
    unfolding sample_subscribed_def by (rule sync_reach.stepped) (auto simp: acp_socket_new_def intro: sync_step.commanded)
  then show ?thesis by (rule sync_reach.stepped) (simp add: sample_published_def publish_event_def sync_step.published)
qed

lemma sample_subscribed_eq:
  "sample_subscribed = acp_socket_new\<lparr>so_subs := \<lparr>su_active = fmupd ''1'' (Session_Resource ''t'') fmempty, su_pending = fmempty\<rparr>,
     so_sent := [Acp_Ready ''1'' (current_event (Session_Resource ''t'') (sync_events_default ''b''))]\<rparr>"
proof -
  have "retain_pending \<lparr>su_active = a, su_pending = fmempty\<rparr> = \<lparr>su_active = a, su_pending = fmempty\<rparr>" for a
    by (simp only: retain_pending_def subscriptions.simps fmfilter_empty)
  then show ?thesis
    by (simp add: sample_subscribed_def socket_command_def subs_command_def sample_world_def acp_socket_new_def subscriptions_default_def
      sync_events_default_def sync_event_of_def current_event_def Let_def fcard_fempty)
qed

lemma sample_watched: "Session_Resource ''t'' |\<in>| fmran (fmupd ''1'' (Session_Resource ''t'') fmempty)"
  unfolding fmran_active by (intro exI [of _ "''1''"]) simp

theorem browser_hears_every_change_witness:
  "knows (socket_flush 500 [Session_Resource ''t''] (receive_all 0 (deliver_event (fst sample_published) sample_subscribed))) ''1'' 1"
proof -
  let ?so = "deliver_event (fst sample_published) sample_subscribed"
  have so: "so_open ?so" "\<not> so_lagged ?so" "fmlookup (su_active (so_subs ?so)) ''1'' = Some (Session_Resource ''t'')"
    "fmlookup (se_latest (snd sample_published)) (Session_Resource ''t'') = Some (fst sample_published)" "ev_version (fst sample_published) = 1"
    "receive_all 0 ?so = ?so\<lparr>so_channel := [], so_subs := (so_subs ?so)\<lparr>su_pending := fmupd (Session_Resource ''t'') (50, fst sample_published) fmempty\<rparr>\<rparr>"
    using sample_watched
    by (simp_all add: receive_all_def sample_subscribed_eq sample_published_def acp_socket_new_def deliver_event_def CHANNEL_CAPACITY_def
      sync_events_default_def publish_event_def publish_inner_def Let_def socket_receive_def subs_change_def is_sessions_def)
  have "fmlookup (su_active (so_subs (socket_flush 500 [Session_Resource ''t''] (receive_all 0 ?so)))) ''1'' = Some (Session_Resource ''t'')"
    using so(3) unfolding so(6)
    by (simp add: socket_flush_def subs_due_def subs_message_def Let_def sample_published_def publish_event_def publish_inner_def sync_events_default_def)
  moreover have "set [Session_Resource ''t''] = fset (fmdom (su_pending (so_subs (receive_all 0 ?so))))" unfolding so(6) by simp
  ultimately have "knows (socket_flush 500 [Session_Resource ''t''] (receive_all 0 ?so)) ''1'' (ev_version (fst sample_published))"
    using browser_hears_every_change [OF sample_reach so(1,2), of 500 "[Session_Resource ''t'']"] so(4) by simp
  then show ?thesis unfolding so(5) .
qed

end
