(* ===== verification/Spec2Isabelle.thy ===== *)
theory Spec2Isabelle
  imports Snowflake_Lease Daemon_Stream Daemon_Registry Term_Properties Auto_Pages Inbox_Store Auth_Sessions Auth_Limits Acp_Overview_Client Acp_Content Acp_Replay_Facts Op_Log_Pages Op_Service Sync_Events
begin

text \<open>
  AoW is a workbench in the browser for coding agents: a server keeps terminals, automations, an inbox of
  requirements and the conversations with agents; a daemon (\<open>aow-terminald\<close>) owns the terminals so that
  they survive a restart of the server. This development models the parts of the Rust code (\<open>crates/\<close>) that keep
  state of their own, and proves what the rest of the program relies on.

  \<^bold>\<open>How the code is modelled.\<close> A struct is a \<open>record\<close>, an enum a \<open>datatype\<close>, a method with
  \<open>&mut self\<close> a function from the old to the new state. \<open>Result\<close> is the sum type \<open>result\<close> of
  \<open>Aow_Prelude\<close> with \<open>Inl\<close> the error; a panic (an index out of range, \<open>unwrap\<close>, an overflow that is
  checked) is \<open>None\<close>. A \<open>str\<close> is its list of UTF-8 bytes (\<open>Rust_Str\<close>), a \<open>serde_json::Value\<close> the type
  \<open>json\<close> (\<open>Rust_Json\<close>). Machine integers whose overflow matters are words (identifiers, sizes, byte offsets),
  counters that the code only increments are \<open>nat\<close>. Critical sections of the locks of the program are atomic steps;
  what happens between them is an inductive step relation. (Two operations that take their lock twice are one step: the begin of an operation and the
  check of a login session; their theories say so.)

  \<^bold>\<open>Identifiers\<close> (\<open>crates/id\<close>). \<open>Snowflake_Id\<close> is the layout of a 63-bit identifier and its three text encodings,
  proved once in the locale \<open>id_alphabet\<close> and interpreted on the three alphabets. \<open>Snowflake_Gen\<close> is the generator and its
  clock; the locale \<open>monotone_source\<close> says what a source of increasing identifiers is. \<open>Snowflake_Lease\<close> is the scan
  of the 1024 lock files by several processes as a transition system. The kernel's file lock is a parameter.

  \<^bold>\<open>Terminals of the server\<close> (\<open>crates/server/src/terminal\<close>, \<open>crates/protocol\<close>). \<open>Term_Layout\<close> is the split
  tree and its validation, \<open>Term_Manager\<close> and \<open>Term_Lifecycle\<close> are the operations on tabs and panes,
  \<open>Term_Invariant\<close> has one preservation fact per operation as an interpretation of the locale \<open>transactional\<close> of the
  prelude (an operation that fails changes nothing, one that succeeds keeps the invariant). \<open>Term_System\<close> interleaves the critical
  sections and \<open>Term_Properties\<close> collects what holds in every reachable state, after a failed critical section, after a creation that the daemon
  refuses while other tasks run, and after a restart.
  The metadata file is a parameter \<open>save\<close> that may fail.

  \<^bold>\<open>Terminal daemon\<close> (\<open>crates/terminald\<close>). \<open>Runtime_Protocol\<close> is what server and daemon exchange,
  \<open>Daemon_Output\<close> the bounded output buffer with the tracking of terminal modes, \<open>Daemon_Control\<close> one runtime with its
  single controller, \<open>Daemon_Registry\<close> the table of runtimes with idempotent creation, deletion, exit and shutdown, and
  \<open>Daemon_Stream\<close> what an attachment sends, including catching up after its channel lagged. The PTY, the
  channel and the escape sequence parser are parameters; what is used of the parser is the hypothesis \<open>vte_parser\<close>. The loop that catches
  up is unbounded in the code and counted by fuel in the model: running out of fuel is a result of its own, and the theorem on two passes shows that it
  does not happen once the runtime is quiet.

  \<^bold>\<open>Automations\<close> (\<open>crates/automations\<close>). \<open>Auto_Schedule\<close> is the cron parser, the search for the next run
  (at most the days the code searches) and the triggers for systemd and launchd; the calendar of chrono is a parameter of which only documented facts
  are used, and launchd starts jobs as its manual page says, which shows where a schedule is not translated exactly. \<open>Auto_Task\<close>
  validates tasks and renders prompts, \<open>Auto_Journal\<close> is the journal of a run with torn writes, \<open>Auto_History\<close> the order, the
  cursors and the pruning of runs, \<open>Auto_Pages\<close> what a client that follows the cursors sees while runs come and go between its requests.

  \<^bold>\<open>Inbox\<close> (\<open>crates/server/src/inbox\<close>). \<open>Inbox_Model\<close> has the document and its changes, \<open>Inbox_Disk\<close> the files,
  the save that undoes itself when one of its steps fails, and the load. \<open>Inbox_Store\<close> is the service; it uses the files through the locale
  \<open>document_medium\<close>, which the files are shown to satisfy. Any step of a save can fail before or after its effect. It also shows what
  a repeated request finds after any later operations, failures and restarts.

  \<^bold>\<open>Login\<close> (\<open>crates/server/src/auth\<close>). \<open>Auth_Sessions\<close> has the sessions with their expiry and the check of a request,
  \<open>Auth_Limits\<close> the limiter of attempts (an \<open>f64\<close> is a real number). The identity provider and the hash of a token
  are parameters.

  \<^bold>\<open>Conversations with agents\<close> (\<open>crates/acp/src/acp_thread\<close>, \<open>facade/model.rs\<close>). \<open>Acp_Content\<close> converts content between
  the two versions of the protocol. \<open>Acp_Model\<close> is the snapshot of a conversation, \<open>Acp_Thread\<close> the reduction of every event of
  an agent, with terminals, compactions and inputs delivered while the agent works, \<open>Acp_Turns\<close> the outcome of a prompt.
  \<open>Acp_Updates\<close> is the change log (2048 commits) and the deltas since a revision, \<open>Acp_Sync\<close> proves that a browser that applies
  them has the current conversation; the append cursors of texts and terminal outputs are the locale \<open>value_cursor\<close>.
  \<open>Acp_Overview\<close> is the collapsed view by turns with its cache, \<open>Acp_Overview_Cache\<close> proves that the cache is current however
  readings and changes interleave. \<open>Acp_Overview_Delta\<close> is the delta of the collapsed view. \<open>Acp_Calm\<close> shows what the commits
  of the log that name only entries leave alone, \<open>Acp_Overview_Sync\<close> has the browser that applies the delta and what the cache
  remembers of earlier readings, \<open>Acp_Overview_Client\<close> proves that the browser then shows the current turns. \<open>Acp_Replay\<close> matches a history that an agent replays with the saved one
  (\<open>turns/replay.rs\<close>, \<open>restore\<close>) and \<open>Acp_Replay_Facts\<close> shows that nothing is lost by it. The JSON form of the protocol types is
  the parameter \<open>acp_codec\<close>.

  \<^bold>\<open>Operations and their log\<close> (\<open>crates/operation-log\<close>, \<open>crates/server/src/operations\<close>). \<open>Op_Log\<close> is the log of JSON
  lines: the repair of a torn line, appending, and the reader that goes backwards byte by byte within a scan limit; \<open>Op_Log_Pages\<close>
  proves that a client that follows the cursors gets every record once while the writer goes on. The number of pages is bounded by the
  size of the files, since every page scans at least one byte. \<open>Op_Service\<close> has the live operations, their outcomes and the snapshot
  that the browser sees. The JSON form of a record and the rolling of files are parameters.

  \<^bold>\<open>Change events\<close> (\<open>acp/src/facade/events.rs\<close>, \<open>server/src/realtime/acp.rs\<close>). \<open>Sync_Events\<close> has the numbered events of the
  conversations, the subscriptions of a web socket with their merging delays, and the part of the socket loop that serves them.

  \<^bold>\<open>Not modelled.\<close> What is only calls of other programs, of the operating system or of libraries: processes and PTYs, HTTP, SQL
  (\<open>crates/db\<close>), git and the file system services, the formats of transcripts of agents (\<open>crates/agents\<close>), notifications and
  messengers, the command line client, the other channels of the web socket, the tasks that start agents and schedule automations, the terminal emulator worker,
  comments of the inbox, and the frontend besides the application of deltas.
\<close>

end
